(* ===== verification/Prelude.thy ===== *)
theory Prelude
  imports Complex_Main "HOL-Library.Word" "HOL-Library.List_Lexorder" "HOL-Library.Monad_Syntax"
begin

text \<open>
  What every theory of the development shares.

  \<^item> \<open>pystr\<close> is a Python \<open>str\<close>: the list of its code points. A string literal of the source is
    written \<open>u ''abc''\<close>.
  \<^item> \<open>bytes\<close> is a Python \<open>bytes\<close> object, a list of 8-bit words.
  \<^item> \<open>pyfloat\<close> stands for the finite floats the code computes with (clock readings, budgets,
    costs). It is the ordered field \<open>rat\<close>: comparisons and sums are exact, rounding is not
    modelled.
  \<^item> A raised exception is the \<open>Inl\<close> side of a sum; \<open>rbind\<close> and \<open>rseq\<close> sequence computations
    the way an exception propagates, first failure first.
  \<^item> A hash function is a parameter \<open>sha\<close> of the definitions that use it (the code calls
    \<open>hashlib\<close>). No theorem assumes it injective: a binding theorem either concludes that two
    documents agree or names a collision among the inputs that were really hashed
    (\<open>collision_on\<close>).
\<close>

named_theorems result_simps \<open>equations of the error monad\<close>
named_theorems hash_intros \<open>introduction rules for collisions\<close>

type_synonym pystr = "nat list"
type_synonym byte = "8 word"
type_synonym bytes = "byte list"
type_synonym pyfloat = rat
type_synonym hash = "bytes \<Rightarrow> bytes"

section \<open>Strings\<close>

definition u :: "string \<Rightarrow> pystr" where
  "u s = map of_char s"

lemma u_inject [simp]: "u s = u t \<longleftrightarrow> s = t"
  by (simp add: u_def inj_def)

lemma u_Nil [simp]: "u [] = []" and u_Nil_iff [simp]: "u s = [] \<longleftrightarrow> s = []"
  and u_Nil_iff2 [simp]: "[] = u s \<longleftrightarrow> s = []"
  by (auto simp: u_def)

lemma length_u [simp]: "length (u s) = length s"
  by (simp add: u_def)

lemma u_append [simp]: "u (s @ t) = u s @ u t"
  by (simp add: u_def)

lemma u_Cons: "u (c # s) = of_char c # u s"
  by (simp add: u_def)

text \<open>\<open>str(n)\<close> of an integer, in decimal.\<close>

fun nat_digits :: "nat \<Rightarrow> pystr" where
  "nat_digits n = (if n < 10 then [48 + n] else nat_digits (n div 10) @ [48 + n mod 10])"

declare nat_digits.simps [simp del]

definition int_str :: "int \<Rightarrow> pystr" where
  "int_str i = (if i < 0 then 45 # nat_digits (nat (- i)) else nat_digits (nat i))"

lemma nat_digits_chars: "c \<in> set (nat_digits n) \<Longrightarrow> 48 \<le> c \<and> c \<le> 57"
proof (induction n rule: nat_digits.induct)
  case (1 n)
  then show ?case
    by (subst (asm) (2) nat_digits.simps) (auto split: if_splits)
qed

lemma nat_digits_nonempty [simp]: "nat_digits n \<noteq> []"
  by (subst nat_digits.simps) simp

lemma nat_digits_inject: "nat_digits m = nat_digits n \<Longrightarrow> m = n"
proof (induction m arbitrary: n rule: nat_digits.induct)
  case (1 m)
  show ?case
  proof (cases "m < 10")
    case True
    with "1.prems" show ?thesis
      by (simp add: nat_digits.simps [of m] nat_digits.simps [of n] split: if_splits)
        (metis nat_digits_nonempty)
  next
    case False
    with "1.prems" have "\<not> n < 10"
      by (auto simp: nat_digits.simps [of m] nat_digits.simps [of n])
    with False "1.prems" have "nat_digits (m div 10) = nat_digits (n div 10)" "m mod 10 = n mod 10"
      by (auto simp: nat_digits.simps [of m] nat_digits.simps [of n])
    with "1.IH" [OF False] have "m div 10 = n div 10" "m mod 10 = n mod 10" by auto
    then show ?thesis by (metis mult_div_mod_eq)
  qed
qed

lemma int_str_chars: "c \<in> set (int_str i) \<Longrightarrow> c = 45 \<or> (48 \<le> c \<and> c \<le> 57)"
  by (auto simp: int_str_def split: if_splits dest: nat_digits_chars)

lemma int_str_nonempty [simp]: "int_str i \<noteq> []"
  by (simp add: int_str_def)

lemma int_str_inject: "int_str i = int_str j \<Longrightarrow> i = j"
proof -
  assume eq: "int_str i = int_str j"
  have digits: "nat_digits n \<noteq> 45 # xs" for n xs
    using nat_digits_chars [of 45 n] by auto
  from eq show ?thesis
    using digits [of "nat i"] digits [of "nat j", THEN not_sym]
    by (auto simp: int_str_def split: if_splits dest!: nat_digits_inject)
qed

section \<open>Results: the error monad\<close>

definition rbind :: "'e + 'a \<Rightarrow> ('a \<Rightarrow> 'e + 'b) \<Rightarrow> 'e + 'b" where
  "rbind r f = (case r of Inl e \<Rightarrow> Inl e | Inr x \<Rightarrow> f x)"

lemma rbind_simps [simp, result_simps]:
  "rbind (Inl e) f = Inl e" "rbind (Inr x) f = f x"
  by (simp_all add: rbind_def)

lemma rbind_Inr_iff [result_simps]: "rbind r f = Inr y \<longleftrightarrow> (\<exists>x. r = Inr x \<and> f x = Inr y)"
  by (cases r) auto

definition rmap :: "('a \<Rightarrow> 'b) \<Rightarrow> 'e + 'a \<Rightarrow> 'e + 'b" where
  "rmap f r = rbind r (\<lambda>x. Inr (f x))"

lemma rmap_simps [simp, result_simps]: "rmap f (Inl e) = Inl e" "rmap f (Inr x) = Inr (f x)"
  by (simp_all add: rmap_def)

lemma rmap_Inr_iff [result_simps]: "rmap f r = Inr y \<longleftrightarrow> (\<exists>x. r = Inr x \<and> y = f x)"
  by (cases r) auto

fun rseq :: "('e + 'a) list \<Rightarrow> 'e + 'a list" where
  "rseq [] = Inr []"
| "rseq (r # rs) = rbind r (\<lambda>x. rbind (rseq rs) (\<lambda>xs. Inr (x # xs)))"

lemma rseq_Inr_iff [result_simps]: "rseq rs = Inr xs \<longleftrightarrow> rs = map Inr xs"
proof (induction rs arbitrary: xs)
  case Nil
  then show ?case by auto
next
  case (Cons r rs)
  then show ?case by (cases r; cases xs) (auto simp: rbind_Inr_iff)
qed

lemma rseq_map_Inr [simp, result_simps]: "rseq (map Inr xs) = Inr xs"
  by (simp add: rseq_Inr_iff)

lemma map_Inr_inject [simp]: "map Inr xs = map Inr ys \<longleftrightarrow> xs = ys"
  by (simp add: inj_def)

section \<open>Hash functions\<close>

definition collision_on :: "hash \<Rightarrow> bytes set \<Rightarrow> bool" where
  "collision_on sha A \<longleftrightarrow> (\<exists>x\<in>A. \<exists>y\<in>A. x \<noteq> y \<and> sha x = sha y)"

lemma collision_onI [hash_intros]:
  "x \<in> A \<Longrightarrow> y \<in> A \<Longrightarrow> x \<noteq> y \<Longrightarrow> sha x = sha y \<Longrightarrow> collision_on sha A"
  by (auto simp: collision_on_def)

lemma collision_on_mono: "collision_on sha A \<Longrightarrow> A \<subseteq> B \<Longrightarrow> collision_on sha B"
  unfolding collision_on_def by blast

lemma sha_cases: "sha x = sha y \<Longrightarrow> x \<in> A \<Longrightarrow> y \<in> A \<Longrightarrow> x = y \<or> collision_on sha A"
  by (auto simp: collision_on_def)

text \<open>\<open>hexdigest()\<close>: two lower-case hexadecimal digits per byte.\<close>

definition hex_digit :: "nat \<Rightarrow> nat" where
  "hex_digit n = (if n < 10 then 48 + n else 87 + n)"

definition hex_byte :: "byte \<Rightarrow> pystr" where
  "hex_byte b = [hex_digit (unat b div 16), hex_digit (unat b mod 16)]"

definition hex :: "bytes \<Rightarrow> pystr" where
  "hex bs = concat (map hex_byte bs)"

lemma hex_digit_inject: "m < 16 \<Longrightarrow> n < 16 \<Longrightarrow> hex_digit m = hex_digit n \<Longrightarrow> m = n"
  by (auto simp: hex_digit_def split: if_splits)

lemma hex_byte_inject: "hex_byte a = hex_byte b \<Longrightarrow> a = b"
proof -
  assume eq: "hex_byte a = hex_byte b"
  have lt: "unat a < 256" "unat b < 256"
    using unsigned_less [of a, where 'a = nat] unsigned_less [of b, where 'a = nat] by simp_all
  have "unat a div 16 = unat b div 16" "unat a mod 16 = unat b mod 16"
    using eq lt by (auto simp: hex_byte_def intro!: hex_digit_inject)
  then have "unat a = unat b" by (metis mult_div_mod_eq)
  then show "a = b" by (rule unsigned_word_eqI)
qed

lemma hex_inject: "hex a = hex b \<Longrightarrow> a = b"
proof (induction a arbitrary: b)
  case Nil
  then show ?case by (cases b) (auto simp: hex_def hex_byte_def)
next
  case (Cons x a)
  from Cons.prems obtain y b' where b: "b = y # b'"
    by (cases b) (auto simp: hex_def hex_byte_def)
  with Cons.prems have "hex_byte x = hex_byte y" "hex a = hex b'"
    by (auto simp: hex_def hex_byte_def)
  with Cons.IH b show ?case by (auto dest: hex_byte_inject)
qed

end
