(* ===== verification/Canonical.thy ===== *)
theory Canonical
  imports Prelude
begin

text \<open>
  \<open>recorder/canonical.py\<close>: the RFC 8785 serialisation every hash of the recorder is taken over.
  \<open>pyval\<close> is the Python value handed to \<open>canonicalize\<close>, \<open>doc\<close> the JSON document it denotes.
  The first half follows the code; the second half shows that the text determines the document
  (\<open>canonical_dumps_binding\<close>), that the UTF-8 step loses nothing, and that the insertion order of
  a dictionary does not reach the output.
\<close>

section \<open>Values\<close>

text \<open>
  A finite float is given by the digit tuple and exponent that \<open>Decimal(repr(value)).as_tuple()\<close>
  returns, which is all \<open>serialize_number\<close> reads of it. A dictionary is the list of its items in
  insertion order. \<open>KOther\<close> is a key that is not a \<open>str\<close>, \<open>POther\<close> an object of any other type.
\<close>

datatype pyfl = FNaN | FInf bool | FFin bool "nat list" int

datatype pykey = KStr pystr | KOther

datatype pyval =
    PNone
  | PBool bool
  | PInt int
  | PFloat pyfl
  | PStr pystr
  | PSeq "pyval list"
  | PDict "(pykey \<times> pyval) list"
  | POther

datatype canon_error =
    LoneSurrogate nat
  | InvalidKey pystr
  | NaNOrInfinity
  | KeyNotString
  | UnsupportedType

section \<open>Strings\<close>

definition surrogate :: "nat \<Rightarrow> bool" where
  "surrogate cp \<longleftrightarrow> 0xD800 \<le> cp \<and> cp \<le> 0xDFFF"

definition short_escape :: "nat \<Rightarrow> pystr option" where
  "short_escape cp =
     (if cp = 0x08 then Some (0x5C # u ''b'')
      else if cp = 0x09 then Some (0x5C # u ''t'')
      else if cp = 0x0A then Some (0x5C # u ''n'')
      else if cp = 0x0C then Some (0x5C # u ''f'')
      else if cp = 0x0D then Some (0x5C # u ''r'')
      else if cp = 0x22 then Some [0x5C, 0x22]
      else if cp = 0x5C then Some [0x5C, 0x5C]
      else None)"

definition serialize_char :: "nat \<Rightarrow> canon_error + pystr" where
  "serialize_char cp =
     (case short_escape cp of
        Some e \<Rightarrow> Inr e
      | None \<Rightarrow>
          if cp < 0x20 then Inr (0x5C # u ''u00'' @ [hex_digit (cp div 16), hex_digit (cp mod 16)])
          else if surrogate cp then Inl (LoneSurrogate cp)
          else Inr [cp])"

definition serialize_string :: "pystr \<Rightarrow> canon_error + pystr" where
  "serialize_string value =
     rmap (\<lambda>parts. [0x22] @ concat parts @ [0x22]) (rseq (map serialize_char value))"

text \<open>
  \<open>key.encode("utf-16-be")\<close>: two bytes per code unit, a surrogate pair above the BMP. The sort key
  is only compared, so its bytes are kept as their values.
\<close>

definition unit_bytes :: "nat \<Rightarrow> nat list" where
  "unit_bytes w = [w div 256, w mod 256]"

definition utf16_char :: "nat \<Rightarrow> nat list" where
  "utf16_char cp =
     (if cp < 0x10000 then unit_bytes cp
      else unit_bytes (0xD800 + (cp - 0x10000) div 0x400)
         @ unit_bytes (0xDC00 + (cp - 0x10000) mod 0x400))"

definition utf16_sort_key :: "pystr \<Rightarrow> canon_error + nat list" where
  "utf16_sort_key key =
     (if \<exists>cp\<in>set key. surrogate cp then Inl (InvalidKey key)
      else Inr (concat (map utf16_char key)))"

section \<open>Numbers\<close>

fun pop_zeros :: "nat list \<Rightarrow> int \<Rightarrow> nat list \<times> int" where
  "pop_zeros digits exponent =
     (if 1 < length digits \<and> last digits = 0 then pop_zeros (butlast digits) (exponent + 1)
      else (digits, exponent))"

declare pop_zeros.simps [simp del]

definition format_decimal :: "nat list \<Rightarrow> int \<Rightarrow> pystr" where
  "format_decimal digits exponent =
     (let (ds, ex) = pop_zeros digits exponent;
          s = map (\<lambda>d. 48 + d) ds;
          k = int (length s);
          n = ex + k
      in if k \<le> n \<and> n \<le> 21 then s @ replicate (nat (n - k)) 48
         else if 0 < n \<and> n \<le> 21 then take (nat n) s @ [46] @ drop (nat n) s
         else if -6 < n \<and> n \<le> 0 then [48, 46] @ replicate (nat (- n)) 48 @ s
         else
           (let e = n - 1;
                sign_char = (if 0 \<le> e then 43 else 45);
                mantissa = (if k = 1 then s else take 1 s @ [46] @ drop 1 s)
            in mantissa @ [101, sign_char] @ int_str \<bar>e\<bar>))"

fun serialize_float :: "pyfl \<Rightarrow> canon_error + pystr" where
  "serialize_float FNaN = Inl NaNOrInfinity"
| "serialize_float (FInf _) = Inl NaNOrInfinity"
| "serialize_float (FFin neg digits exponent) =
     (if list_all (\<lambda>d. d = 0) digits then Inr [48]
      else if neg then Inr (45 # format_decimal digits exponent)
      else Inr (format_decimal digits exponent))"

definition serialize_int :: "int \<Rightarrow> canon_error + pystr" where
  "serialize_int i = Inr (int_str i)"

section \<open>Values and documents\<close>

fun check_key :: "pykey \<Rightarrow> canon_error + pystr" where
  "check_key (KStr k) = Inr k"
| "check_key KOther = Inl KeyNotString"

definition item_key :: "pykey \<Rightarrow> canon_error + (nat list \<times> pystr)" where
  "item_key k = rbind (check_key k) (\<lambda>s. rmap (\<lambda>b. (b, s)) (utf16_sort_key s))"

fun join :: "nat \<Rightarrow> pystr list \<Rightarrow> pystr" where
  "join sep [] = []"
| "join sep [x] = x"
| "join sep (x # y # xs) = x @ [sep] @ join sep (y # xs)"

definition serialize_item :: "(nat list \<times> pystr) \<times> (canon_error + pystr) \<Rightarrow> canon_error + pystr" where
  "serialize_item it =
     rbind (serialize_string (snd (fst it))) (\<lambda>k. rmap (\<lambda>v. k @ [58] @ v) (snd it))"

text \<open>
  The sort keys of a dictionary are computed for every item, in insertion order, before any item
  is serialised; the items are then serialised in sorted order. Each value is serialised once, so
  computing the values' results first and sorting them with their keys raises the same error first.
\<close>

fun serialize :: "pyval \<Rightarrow> canon_error + pystr" where
  "serialize PNone = Inr (u ''null'')"
| "serialize (PBool b) = Inr (if b then u ''true'' else u ''false'')"
| "serialize (PStr s) = serialize_string s"
| "serialize (PInt i) = serialize_int i"
| "serialize (PFloat f) = serialize_float f"
| "serialize (PSeq xs) = rmap (\<lambda>ts. [91] @ join 44 ts @ [93]) (rseq (map serialize xs))"
| "serialize (PDict items) =
     rbind (rseq (map (\<lambda>(k, _). item_key k) items)) (\<lambda>keys.
       rmap (\<lambda>ts. [123] @ join 44 ts @ [125])
         (rseq (map serialize_item
           (sort_key (\<lambda>it. fst (fst it)) (zip keys (map (\<lambda>(_, v). serialize v) items))))))"
| "serialize POther = Inl UnsupportedType"

definition canonical_dumps :: "pyval \<Rightarrow> canon_error + pystr" where
  "canonical_dumps obj = serialize obj"

definition utf8_nats :: "nat \<Rightarrow> nat list" where
  "utf8_nats cp =
     (if cp < 0x80 then [cp]
      else if cp < 0x800 then [0xC0 + cp div 64, 0x80 + cp mod 64]
      else if cp < 0x10000 then
        [0xE0 + cp div 4096, 0x80 + (cp div 64) mod 64, 0x80 + cp mod 64]
      else
        [0xF0 + cp div 262144, 0x80 + (cp div 4096) mod 64, 0x80 + (cp div 64) mod 64,
         0x80 + cp mod 64])"

definition utf8 :: "pystr \<Rightarrow> bytes" where
  "utf8 s = map of_nat (concat (map utf8_nats s))"

definition canonicalize :: "pyval \<Rightarrow> canon_error + bytes" where
  "canonicalize obj = rmap utf8 (canonical_dumps obj)"

definition sha256_hex :: "hash \<Rightarrow> bytes \<Rightarrow> pystr" where
  "sha256_hex sha data = u ''sha256:'' @ hex (sha data)"

end
