(* ===== verification/Canonical_Doc.thy ===== *)
theory Canonical_Doc
  imports Canonical "HOL-Library.Multiset"
begin

text \<open>
  What the canonical text of \<open>recorder/canonical.py\<close> says about the value it was made from. A
  \<open>doc\<close> is the JSON document a value denotes: numbers by their canonical text, objects as
  key/value lists in the order of their UTF-16 sort keys. \<open>serialize\<close> is shown to be \<open>doc_of\<close>
  followed by \<open>doc_text\<close> (\<open>serialize_refines\<close>), and \<open>doc_text\<close> to be readable back: two texts
  with a common beginning up to a closing delimiter come from one document (\<open>doc_text_unique\<close>).
\<close>

section \<open>Documents\<close>

datatype doc =
    DNull
  | DBool bool
  | DNum pystr
  | DStr pystr
  | DArr "doc list"
  | DObj "(pystr \<times> doc) list"

definition escape :: "nat \<Rightarrow> pystr" where
  "escape cp = (case serialize_char cp of Inl _ \<Rightarrow> [] | Inr e \<Rightarrow> e)"

definition quoted :: "pystr \<Rightarrow> pystr" where
  "quoted s = [0x22] @ concat (map escape s) @ [0x22]"

fun doc_text :: "doc \<Rightarrow> pystr" where
  "doc_text DNull = u ''null''"
| "doc_text (DBool b) = (if b then u ''true'' else u ''false'')"
| "doc_text (DNum t) = t"
| "doc_text (DStr s) = quoted s"
| "doc_text (DArr ds) = [91] @ join 44 (map doc_text ds) @ [93]"
| "doc_text (DObj kds) =
     [123] @ join 44 (map (\<lambda>(k, d). quoted k @ [58] @ doc_text d) kds) @ [125]"

definition key_of :: "pykey \<Rightarrow> pystr" where
  "key_of k = (case k of KStr s \<Rightarrow> s | KOther \<Rightarrow> [])"

definition utf16 :: "pystr \<Rightarrow> nat list" where
  "utf16 s = concat (map utf16_char s)"

definition num_text :: "canon_error + pystr \<Rightarrow> pystr" where
  "num_text r = (case r of Inl _ \<Rightarrow> [] | Inr t \<Rightarrow> t)"

fun doc_of :: "pyval \<Rightarrow> doc" where
  "doc_of PNone = DNull"
| "doc_of (PBool b) = DBool b"
| "doc_of (PInt i) = DNum (int_str i)"
| "doc_of (PFloat f) = DNum (num_text (serialize_float f))"
| "doc_of (PStr s) = DStr s"
| "doc_of (PSeq xs) = DArr (map doc_of xs)"
| "doc_of (PDict items) =
     DObj (sort_key (\<lambda>kd. utf16 (fst kd)) (map (\<lambda>(k, v). (key_of k, doc_of v)) items))"
| "doc_of POther = DNull"

definition num_char :: "nat \<Rightarrow> bool" where
  "num_char c \<longleftrightarrow> c = 43 \<or> c = 45 \<or> c = 46 \<or> c = 101 \<or> (48 \<le> c \<and> c \<le> 57)"

definition clean :: "pystr \<Rightarrow> bool" where
  "clean s \<longleftrightarrow> list_all (\<lambda>c. \<not> surrogate c) s"

fun doc_ok :: "doc \<Rightarrow> bool" where
  "doc_ok DNull = True"
| "doc_ok (DBool b) = True"
| "doc_ok (DNum t) = (t \<noteq> [] \<and> list_all num_char t \<and> (hd t = 45 \<or> (48 \<le> hd t \<and> hd t \<le> 57)))"
| "doc_ok (DStr s) = clean s"
| "doc_ok (DArr ds) = list_all doc_ok ds"
| "doc_ok (DObj kds) = list_all (\<lambda>(k, d). clean k \<and> doc_ok d) kds"

section \<open>Escaping and quoting can be undone\<close>

lemma escape_cases:
  "escape c =
     (if c = 0x08 then [92, 98] else if c = 0x09 then [92, 116] else if c = 0x0A then [92, 110]
      else if c = 0x0C then [92, 102] else if c = 0x0D then [92, 114]
      else if c = 0x22 then [92, 34] else if c = 0x5C then [92, 92]
      else if c < 0x20 then [92, 117, 48, 48, hex_digit (c div 16), hex_digit (c mod 16)]
      else if surrogate c then [] else [c])"
  by (simp add: escape_def serialize_char_def short_escape_def u_def)

text \<open>Reading one escaped character back.\<close>

definition unhex :: "nat \<Rightarrow> nat" where
  "unhex h = (if h < 87 then h - 48 else h - 87)"

definition unescape :: "pystr \<Rightarrow> nat \<times> pystr" where
  "unescape s =
     (if hd s \<noteq> 92 then (hd s, tl s)
      else if s ! 1 = 117 then (16 * unhex (s ! 4) + unhex (s ! 5), drop 6 s)
      else ((if s ! 1 = 98 then 0x08 else if s ! 1 = 116 then 0x09 else if s ! 1 = 110 then 0x0A
             else if s ! 1 = 102 then 0x0C else if s ! 1 = 114 then 0x0D else s ! 1), drop 2 s))"

lemma unhex_hex_digit: "n < 16 \<Longrightarrow> unhex (hex_digit n) = n"
  by (auto simp: unhex_def hex_digit_def)

lemma unescape_plain: "\<not> surrogate c \<Longrightarrow> 0x20 \<le> c \<Longrightarrow> unescape (escape c @ r) = (c, r)"
  by (simp add: escape_cases unescape_def)

lemma escape_control:
  "c < 0x20 \<Longrightarrow> escape c =
     (if c = 0x08 then [92, 98] else if c = 0x09 then [92, 116] else if c = 0x0A then [92, 110]
      else if c = 0x0C then [92, 102] else if c = 0x0D then [92, 114]
      else [92, 117, 48, 48, hex_digit (c div 16), hex_digit (c mod 16)])"
  by (simp add: escape_cases)

lemma unescape_hex:
  "unescape (92 # 117 # 48 # 48 # h # l # r) = (16 * unhex h + unhex l, r)"
  by (simp add: unescape_def numeral_nat)

lemma unescape_control: "c < 0x20 \<Longrightarrow> unescape (escape c @ r) = (c, r)"
  unfolding escape_control
  by (simp add: unescape_hex unescape_def unhex_hex_digit)

lemma unescape_escape: "\<not> surrogate c \<Longrightarrow> unescape (escape c @ r) = (c, r)"
  by (cases "c < 0x20") (simp_all add: unescape_control unescape_plain)

lemma escape_prefix_free:
  assumes "escape c @ r = escape c' @ r'" "\<not> surrogate c" "\<not> surrogate c'"
  shows "c = c' \<and> r = r'"
proof -
  have "(c, r) = unescape (escape c @ r)" by (rule unescape_escape [OF assms(2), symmetric])
  also have "\<dots> = unescape (escape c' @ r')" by (simp only: assms(1))
  also have "\<dots> = (c', r')" by (rule unescape_escape [OF assms(3)])
  finally show ?thesis by simp
qed

lemma escape_nonempty: "\<not> surrogate c \<Longrightarrow> escape c \<noteq> [] \<and> hd (escape c) \<noteq> 34"
  by (auto simp: escape_cases)

lemma escapes_prefix_free:
  assumes "concat (map escape s) @ 34 # r = concat (map escape s') @ 34 # r'"
    "clean s" "clean s'"
  shows "s = s' \<and> r = r'"
  using assms
proof (induction s arbitrary: s')
  case Nil
  show ?case
  proof (cases s')
    case (Cons c cs)
    with Nil escape_nonempty [of c] show ?thesis
      by (cases "escape c") (auto simp: clean_def)
  qed (use Nil in auto)
next
  case (Cons c s)
  show ?case
  proof (cases s')
    case Nil
    with Cons.prems escape_nonempty [of c] show ?thesis
      by (cases "escape c") (auto simp: clean_def)
  next
    case (Cons c' cs')
    with Cons.prems have
      "escape c @ (concat (map escape s) @ 34 # r) = escape c' @ (concat (map escape cs') @ 34 # r')"
      "\<not> surrogate c" "\<not> surrogate c'" "clean s" "clean cs'"
      by (auto simp: clean_def)
    with escape_prefix_free [OF this(1-3)] Cons.IH [of cs'] Cons show ?thesis by auto
  qed
qed

lemma quoted_prefix_free:
  "quoted s @ r = quoted s' @ r' \<Longrightarrow> clean s \<Longrightarrow> clean s' \<Longrightarrow> s = s' \<and> r = r'"
  using escapes_prefix_free [of s r s' r'] by (simp add: quoted_def)

lemma serialize_string_eq:
  "serialize_string s = Inr t \<longleftrightarrow> clean s \<and> t = quoted s"
proof -
  have char: "serialize_char c = Inr e \<longleftrightarrow> \<not> surrogate c \<and> e = escape c" for c e
    by (auto simp: serialize_char_def escape_def short_escape_def surrogate_def
        split: option.splits if_splits sum.splits)
  have "map serialize_char s = map Inr es \<longleftrightarrow> clean s \<and> es = map escape s" for es
    by (induction s arbitrary: es; case_tac es) (auto simp: clean_def char)
  then show ?thesis
    by (auto simp: serialize_string_def rmap_Inr_iff rseq_Inr_iff quoted_def)
qed


section \<open>The text determines the document\<close>

text \<open>
  A text is followed by nothing, or by one of the delimiters comma, \<open>]\<close> and \<open>}\<close>; no number
  contains one. \<open>prefix_free P f\<close> says that an \<open>f\<close>-text in such a position can be read back.
\<close>

definition delim :: "pystr \<Rightarrow> bool" where
  "delim r \<longleftrightarrow> r = [] \<or> hd r \<in> {44, 93, 125}"

definition reads_back :: "('a \<Rightarrow> bool) \<Rightarrow> ('a \<Rightarrow> pystr) \<Rightarrow> 'a \<Rightarrow> bool" where
  "reads_back P f x \<longleftrightarrow>
     (\<forall>y r r'. P y \<longrightarrow> delim r \<longrightarrow> delim r' \<longrightarrow> f x @ r = f y @ r' \<longrightarrow> x = y \<and> r = r')"

lemma reads_backD:
  "reads_back P f x \<Longrightarrow> P y \<Longrightarrow> delim r \<Longrightarrow> delim r' \<Longrightarrow> f x @ r = f y @ r' \<Longrightarrow> x = y \<and> r = r'"
  unfolding reads_back_def by blast

lemma delim_simps [simp]: "delim (44 # r)" "delim (93 # r)" "delim (125 # r)"
  by (simp_all add: delim_def)

lemma join_Cons: "join 44 (x # xs) @ c # r = x @ (if xs = [] then c # r else 44 # join 44 xs @ c # r)"
  by (cases xs) auto

lemma join_reads_back:
  assumes "join 44 (map f xs) @ c # r = join 44 (map f ys) @ c # r'"
    and "\<forall>x\<in>set xs. reads_back P f x" and "\<forall>x\<in>set xs. P x" and "\<forall>y\<in>set ys. P y"
    and c: "c = 93 \<or> c = 125"
    and first: "\<And>x. P x \<Longrightarrow> f x \<noteq> [] \<and> hd (f x) \<noteq> c"
  shows "xs = ys \<and> r = r'"
  using assms(1-4)
proof (induction xs arbitrary: ys)
  case Nil
  show ?case
  proof (cases ys)
    case (Cons y ys')
    with Nil first [of y] show ?thesis by (cases "f y") (auto simp: join_Cons)
  qed (use Nil in auto)
next
  case (Cons x xs)
  show ?case
  proof (cases ys)
    case Nil
    with Cons.prems first [of x] show ?thesis by (cases "f x") (auto simp: join_Cons)
  next
    case ys: (Cons y ys')
    define tail where "tail zs q = (if zs = [] then c # q else 44 # join 44 (map f zs) @ c # q)"
      for zs q
    have tail: "delim (tail zs q)" for zs q using c by (auto simp: tail_def)
    have "f x @ tail xs r = f y @ tail ys' r'"
      using Cons.prems(1) ys by (simp add: join_Cons tail_def)
    with Cons.prems ys tail have xy: "x = y" and tails: "tail xs r = tail ys' r'"
      using reads_backD [of P f x y "tail xs r" "tail ys' r'"] by auto
    show ?thesis
    proof (cases "xs = [] \<or> ys' = []")
      case True
      with tails c xy ys show ?thesis by (auto simp: tail_def split: if_splits)
    next
      case False
      with tails have "join 44 (map f xs) @ c # r = join 44 (map f ys') @ c # r'"
        by (simp add: tail_def)
      with Cons.IH [of ys'] Cons.prems ys xy show ?thesis by auto
    qed
  qed
qed

lemma num_reads_back:
  assumes "t @ r = t' @ r'" "list_all num_char t" "list_all num_char t'" "delim r" "delim r'"
  shows "t = t' \<and> r = r'"
proof -
  have stop: "takeWhile num_char (t @ r) = t" if "list_all num_char t" "delim r" for t r
    using that by (cases r) (auto simp: delim_def num_char_def takeWhile_tail list_all_iff)
  have "t = t'" using stop [of t r] stop [of t' r'] assms by simp
  with assms(1) show ?thesis by simp
qed


lemma doc_text_tag:
  "doc_ok d \<Longrightarrow> doc_text d \<noteq> [] \<and> hd (doc_text d) =
     (case d of DNull \<Rightarrow> 110 | DBool b \<Rightarrow> if b then 116 else 102 | DNum t \<Rightarrow> hd t
      | DStr _ \<Rightarrow> 34 | DArr _ \<Rightarrow> 91 | DObj _ \<Rightarrow> 123)"
  by (cases d) (auto simp: quoted_def u_def)

lemma doc_text_first: "doc_ok d \<Longrightarrow> hd (doc_text d) \<notin> {44, 93, 125}"
  using doc_text_tag [of d] by (cases d) auto

fun shape :: "doc \<Rightarrow> nat" where
  "shape DNull = 0"
| "shape (DBool b) = (if b then 1 else 2)"
| "shape (DNum _) = 3"
| "shape (DStr _) = 4"
| "shape (DArr _) = 5"
| "shape (DObj _) = 6"

lemma doc_text_shape:
  assumes "doc_ok x" "doc_ok y" "doc_text x @ r = doc_text y @ r'"
  shows "shape x = shape y"
proof -
  have "hd (doc_text x) = hd (doc_text y)"
    using assms doc_text_tag [of x] doc_text_tag [of y] by (metis hd_append)
  with assms(1,2) doc_text_tag [of x] doc_text_tag [of y] show ?thesis
    by (cases x; cases y) (auto split: if_splits)
qed

lemma doc_text_reads_back: "doc_ok d \<Longrightarrow> reads_back doc_ok doc_text d"
proof (induction d)
  case (DArr ds)
  show ?case
    unfolding reads_back_def
  proof (intro allI impI)
    fix y r r'
    assume y: "doc_ok y" and eq: "doc_text (DArr ds) @ r = doc_text y @ r'"
    from doc_text_shape [OF DArr.prems y eq] obtain es where es: "y = DArr es"
      by (cases y) (auto split: if_splits)
    from eq es have "join 44 (map doc_text ds) @ 93 # r = join 44 (map doc_text es) @ 93 # r'"
      by simp
    then show "DArr ds = y \<and> r = r'"
      using join_reads_back [of doc_text ds 93 r es r' doc_ok] DArr es y
        doc_text_first doc_text_tag by (auto simp: list_all_iff)
  qed
next
  case (DObj kds)
  define f where "f = (\<lambda>(k, d). quoted k @ [58] @ doc_text d)"
  define P where "P = (\<lambda>(k, d). clean k \<and> doc_ok d)"
  have item: "reads_back P f (k, d)" if kd: "(k, d) \<in> set kds" for k d
    unfolding reads_back_def
  proof (intro allI impI)
    fix y r r'
    assume y: "P y" and r: "delim r" "delim r'" and eq: "f (k, d) @ r = f y @ r'"
    obtain k' d' where y': "y = (k', d')" by (cases y)
    have ok: "clean k" "doc_ok d" "clean k'" "doc_ok d'"
      using DObj.prems kd y y' by (auto simp: P_def list_all_iff)
    have "k = k' \<and> 58 # doc_text d @ r = 58 # doc_text d' @ r'"
      using quoted_prefix_free [of k "58 # doc_text d @ r" k' "58 # doc_text d' @ r'"] eq y' ok
      by (simp add: f_def)
    moreover have "reads_back doc_ok doc_text d" using DObj.IH kd ok by auto
    ultimately show "(k, d) = y \<and> r = r'"
      using reads_backD [of doc_ok doc_text d d' r r'] ok r y' by simp
  qed
  show ?case
    unfolding reads_back_def
  proof (intro allI impI)
    fix y r r'
    assume y: "doc_ok y" and eq: "doc_text (DObj kds) @ r = doc_text y @ r'"
    from doc_text_shape [OF DObj.prems y eq] obtain es where es: "y = DObj es"
      by (cases y) (auto split: if_splits)
    from eq es have "join 44 (map f kds) @ 125 # r = join 44 (map f es) @ 125 # r'"
      by (simp add: f_def)
    moreover have "\<forall>x\<in>set kds. P x" "\<forall>x\<in>set es. P x"
      using DObj.prems y es by (auto simp: P_def list_all_iff)
    ultimately show "DObj kds = y \<and> r = r'"
      using join_reads_back [of f kds 125 r es r' P] item es
      by (force simp: f_def quoted_def)
  qed
next
  case (DNum t)
  show ?case
    unfolding reads_back_def
  proof (intro allI impI)
    fix y r r'
    assume y: "doc_ok y" and r: "delim r" "delim r'" and eq: "doc_text (DNum t) @ r = doc_text y @ r'"
    from doc_text_shape [OF DNum.prems y eq] obtain t' where t': "y = DNum t'"
      by (cases y) (auto split: if_splits)
    with eq r y DNum.prems show "DNum t = y \<and> r = r'"
      using num_reads_back [of t r t' r'] by auto
  qed
next
  case DNull
  show ?case
    unfolding reads_back_def
  proof (intro allI impI)
    fix y r r'
    assume y: "doc_ok y" and eq: "doc_text DNull @ r = doc_text y @ r'"
    from doc_text_shape [OF DNull.prems y eq] eq show "DNull = y \<and> r = r'"
      by (cases y) (auto split: if_splits)
  qed
next
  case (DBool b)
  show ?case
    unfolding reads_back_def
  proof (intro allI impI)
    fix y r r'
    assume y: "doc_ok y" and eq: "doc_text (DBool b) @ r = doc_text y @ r'"
    from doc_text_shape [OF DBool.prems y eq] eq show "DBool b = y \<and> r = r'"
      by (cases y) (auto split: if_splits)
  qed
next
  case (DStr s)
  show ?case
    unfolding reads_back_def
  proof (intro allI impI)
    fix y r r'
    assume y: "doc_ok y" and eq: "doc_text (DStr s) @ r = doc_text y @ r'"
    from doc_text_shape [OF DStr.prems y eq] eq DStr.prems y show "DStr s = y \<and> r = r'"
      by (cases y) (auto split: if_splits dest: quoted_prefix_free)
  qed
qed

lemma doc_text_inject: "doc_ok d \<Longrightarrow> doc_ok d' \<Longrightarrow> doc_text d = doc_text d' \<Longrightarrow> d = d'"
  using reads_backD [OF doc_text_reads_back, of d d' "[]" "[]"] by (simp add: delim_def)

section \<open>Serialising is printing the document\<close>

text \<open>
  What every value a Python program can build satisfies: the digit tuple of a float is nonempty
  and holds decimal digits, and a code point is below 0x110000.
\<close>

fun pyfl_ok :: "pyfl \<Rightarrow> bool" where
  "pyfl_ok (FFin neg ds e) = (ds \<noteq> [] \<and> list_all (\<lambda>d. d \<le> 9) ds)"
| "pyfl_ok _ = True"

definition str_ok :: "pystr \<Rightarrow> bool" where
  "str_ok s \<longleftrightarrow> list_all (\<lambda>c. c < 0x110000) s"

fun pyval_ok :: "pyval \<Rightarrow> bool" where
  "pyval_ok (PFloat f) = pyfl_ok f"
| "pyval_ok (PStr s) = str_ok s"
| "pyval_ok (PSeq xs) = list_all pyval_ok xs"
| "pyval_ok (PDict items) = list_all (\<lambda>(k, v). str_ok (key_of k) \<and> pyval_ok v) items"
| "pyval_ok _ = True"

lemma pop_zeros_ok:
  "ds \<noteq> [] \<Longrightarrow> list_all (\<lambda>d. d \<le> 9) ds \<Longrightarrow> pop_zeros ds e = (ds', e') \<Longrightarrow>
   ds' \<noteq> [] \<and> list_all (\<lambda>d. d \<le> (9::nat)) ds'"
proof (induction ds e rule: pop_zeros.induct)
  case (1 ds e)
  show ?case
  proof (cases "1 < length ds \<and> last ds = 0")
    case True
    have "butlast ds \<noteq> []" using True by (cases ds rule: rev_cases) auto
    moreover have "list_all (\<lambda>d. d \<le> (9::nat)) (butlast ds)"
      using "1.prems"(2) by (auto simp: list_all_iff dest: in_set_butlastD)
    moreover have "pop_zeros (butlast ds) (e + 1) = (ds', e')"
      using "1.prems"(3) True by (simp add: pop_zeros.simps [of ds e])
    ultimately show ?thesis by (rule "1.IH" [OF True])
  next
    case False
    then have "pop_zeros ds e = (ds, e)" by (subst pop_zeros.simps) auto
    with "1.prems" show ?thesis by auto
  qed
qed

lemma format_decimal_ok:
  assumes "ds \<noteq> []" "list_all (\<lambda>d. d \<le> 9) ds"
  shows "format_decimal ds e \<noteq> [] \<and> list_all num_char (format_decimal ds e)
    \<and> 48 \<le> hd (format_decimal ds e) \<and> hd (format_decimal ds e) \<le> 57"
proof -
  obtain ds' e' where pz: "pop_zeros ds e = (ds', e')" by (cases "pop_zeros ds e")
  with pop_zeros_ok [OF assms] have ok: "ds' \<noteq> []" "list_all (\<lambda>d. d \<le> 9) ds'" by auto
  then obtain d rest where ds': "ds' = d # rest" "d \<le> 9" by (cases ds') auto
  have chars: "list_all num_char (map ((+) 48) ds')"
    using ok(2) by (auto simp: list_all_iff num_char_def)
  then have sub: "list_all num_char (take n (map ((+) 48) ds'))"
    "list_all num_char (drop n (map ((+) 48) ds'))" for n
    unfolding list_all_iff by (blast dest: in_set_takeD in_set_dropD)+
  have ints: "list_all num_char (int_str i)" for i
    using int_str_chars [of _ i] by (auto simp: list_all_iff num_char_def)
  have zeros: "list_all num_char (replicate n 48)" for n
    by (auto simp: list_all_iff num_char_def)
  have nz: "hd (take n (map ((+) 48) ds')) = 48 + d" "take n (map ((+) 48) ds') \<noteq> []" if "0 < n" for n
    using that ds'(1) by (cases n; simp)+
  have marks: "num_char 46" "num_char 101" "num_char 43" "num_char 45" "num_char 48"
    by (simp_all add: num_char_def)
  show ?thesis
    using ds'(2) sub ints zeros marks chars ds' nz
    by (auto simp: format_decimal_def pz Let_def hd_append nz)
qed

lemma serialize_float_ok:
  "pyfl_ok f \<Longrightarrow> serialize_float f = Inr t \<Longrightarrow> doc_ok (DNum t)"
  by (cases f) (auto dest: format_decimal_ok simp: num_char_def split: if_splits)

lemma int_str_ok: "doc_ok (DNum (int_str i))"
proof -
  have "hd (int_str i) \<in> set (int_str i)" by (rule hd_in_set) simp
  then show ?thesis
    using int_str_chars [of _ i] by (auto simp: list_all_iff num_char_def)
qed

lemma map_sort_key:
  "map f (sort_key (\<lambda>x. g (f x)) xs) = sort_key g (map f xs)"
proof -
  have "map f (insort_key (\<lambda>x. g (f x)) x ys) = insort_key g (f x) (map f ys)" for x ys
    by (induction ys) auto
  then show ?thesis by (induction xs) auto
qed

lemma item_key_eq:
  "item_key k = Inr p \<longleftrightarrow>
     k = KStr (key_of k) \<and> clean (key_of k) \<and> p = (utf16 (key_of k), key_of k)"
  by (cases k) (auto simp: item_key_def utf16_sort_key_def key_of_def clean_def utf16_def
      list_all_iff rmap_Inr_iff)

lemma serialize_item_eq:
  "serialize_item ((b, s), r) = Inr t \<longleftrightarrow>
     clean s \<and> (\<exists>v. r = Inr v \<and> t = quoted s @ [58] @ v)"
  by (auto simp: serialize_item_def rbind_Inr_iff rmap_Inr_iff serialize_string_eq)

text \<open>One dictionary, once its values are known to print as their documents.\<close>

lemma serialize_dict:
  assumes ser: "serialize (PDict items) = Inr t"
    and IH: "\<And>k v tv. (k, v) \<in> set items \<Longrightarrow> serialize v = Inr tv \<Longrightarrow> tv = doc_text (doc_of v)"
  shows "t = doc_text (doc_of (PDict items)) \<and>
    (\<forall>(k, v)\<in>set items. clean (key_of k) \<and> (\<exists>tv. serialize v = Inr tv))"
proof -
  define F where "F = (\<lambda>(k, v). ((utf16 (key_of k), key_of k), serialize v))"
  define G where "G = (\<lambda>(k, v). (key_of k, doc_of v))"
  define S where "S = sort_key (\<lambda>it. utf16 (key_of (fst it))) items"
  have set_S: "set S = set items" by (simp add: S_def)
  from ser obtain keys ts where
    keys: "map (\<lambda>(k, _). item_key k) items = map Inr keys"
    and ts: "map serialize_item
        (sort_key (\<lambda>it. fst (fst it)) (zip keys (map (\<lambda>(_, v). serialize v) items))) = map Inr ts"
    and t: "t = [123] @ join 44 ts @ [125]"
    by (auto simp: rbind_Inr_iff rmap_Inr_iff rseq_Inr_iff)
  have "zip keys (map (\<lambda>(_, v). serialize v) items) = map F items"
    using keys
  proof (induction items arbitrary: keys)
    case (Cons it items)
    then show ?case by (cases keys) (auto simp: F_def item_key_eq split: prod.splits)
  qed auto
  then have sorted: "sort_key (\<lambda>it. fst (fst it)) (zip keys (map (\<lambda>(_, v). serialize v) items)) = map F S"
    using map_sort_key [of F "\<lambda>it. fst (fst it)" items] by (simp add: S_def F_def split_def)
  have each: "clean (key_of k) \<and> (\<exists>tv. serialize v = Inr tv)
      \<and> serialize_item (F (k, v)) = Inr (quoted (key_of k) @ [58] @ doc_text (doc_of v))"
    if kv: "(k, v) \<in> set S" for k v
  proof -
    have "serialize_item (F (k, v)) \<in> set (map serialize_item (map F S))" using kv by force
    also have "map serialize_item (map F S) = map Inr ts" using ts unfolding sorted .
    finally obtain x where "serialize_item (F (k, v)) = Inr x" by auto
    then show ?thesis using IH [of k v] kv set_S by (auto simp: F_def serialize_item_eq)
  qed
  have "map serialize_item (map F S) =
      map Inr (map (\<lambda>(k, v). quoted (key_of k) @ [58] @ doc_text (doc_of v)) S)"
    unfolding map_map by (rule map_cong) (use each in auto)
  with ts sorted have "(map Inr ts :: (canon_error + pystr) list) =
      map Inr (map (\<lambda>(k, v). quoted (key_of k) @ [58] @ doc_text (doc_of v)) S)"
    by metis
  then have "ts = map (\<lambda>(k, v). quoted (key_of k) @ [58] @ doc_text (doc_of v)) S"
    by (simp add: map_injective inj_def)
  moreover have "sort_key (\<lambda>kd. utf16 (fst kd)) (map G items) = map G S"
    using map_sort_key [of G "\<lambda>kd. utf16 (fst kd)" items] by (simp add: S_def G_def split_def)
  ultimately have "t = doc_text (doc_of (PDict items))"
    by (simp add: t G_def split_def o_def)
  with each set_S show ?thesis by blast
qed

lemma serialize_refines_aux:
  "pyval_ok v \<Longrightarrow> serialize v = Inr t \<Longrightarrow> t = doc_text (doc_of v) \<and> doc_ok (doc_of v)"
proof (induction v arbitrary: t)
  case (PSeq xs)
  then obtain ts where ts: "map serialize xs = map Inr ts" "t = [91] @ join 44 ts @ [93]"
    by (auto simp: rmap_Inr_iff rseq_Inr_iff)
  have each: "serialize x = Inr (doc_text (doc_of x)) \<and> doc_ok (doc_of x)" if x: "x \<in> set xs" for x
  proof -
    have "serialize x \<in> set (map serialize xs)" using x by simp
    then obtain y where "serialize x = Inr y" using ts(1) by auto
    with PSeq.IH [OF x] PSeq.prems(1) x show ?thesis by (auto simp: list_all_iff)
  qed
  have "map serialize xs = map Inr (map (doc_text \<circ> doc_of) xs)"
    unfolding map_map by (rule map_cong) (use each in auto)
  with ts(1) have "(map Inr ts :: (canon_error + pystr) list) = map Inr (map (doc_text \<circ> doc_of) xs)"
    by simp
  then have "ts = map (doc_text \<circ> doc_of) xs" by (simp add: map_injective inj_def)
  with ts(2) each show ?case by (simp add: list_all_iff)
next
  case (PDict items)
  have IH: "tv = doc_text (doc_of v) \<and> doc_ok (doc_of v)"
    if "(k, v) \<in> set items" "serialize v = Inr tv" for k v tv
    using PDict.IH [of "(k, v)" v] PDict.prems(1) that by (auto simp: list_all_iff)
  with serialize_dict [OF PDict.prems(2)] have
    "t = doc_text (doc_of (PDict items))"
    "\<forall>(k, v)\<in>set items. clean (key_of k) \<and> (\<exists>tv. serialize v = Inr tv)" by blast+
  with IH show ?case by (fastforce simp: list_all_iff)
qed (auto simp: serialize_string_eq serialize_int_def int_str_ok [simplified] num_text_def
      dest: serialize_float_ok [simplified])

section \<open>UTF-8 loses nothing\<close>

definition utf8_read :: "nat list \<Rightarrow> nat \<times> nat list" where
  "utf8_read bs =
     (case bs of [] \<Rightarrow> (0, []) | b0 # r0 \<Rightarrow>
      if b0 < 0x80 then (b0, r0)
      else (case r0 of [] \<Rightarrow> (0, []) | b1 # r1 \<Rightarrow>
        if b0 < 0xE0 then ((b0 - 0xC0) * 64 + (b1 - 0x80), r1)
        else (case r1 of [] \<Rightarrow> (0, []) | b2 # r2 \<Rightarrow>
          if b0 < 0xF0 then ((b0 - 0xE0) * 4096 + (b1 - 0x80) * 64 + (b2 - 0x80), r2)
          else (case r2 of [] \<Rightarrow> (0, []) | b3 # r3 \<Rightarrow>
            ((b0 - 0xF0) * 262144 + (b1 - 0x80) * 4096 + (b2 - 0x80) * 64 + (b3 - 0x80), r3)))))"

lemma utf8_read_nats: "c < 0x110000 \<Longrightarrow> utf8_read (utf8_nats c @ r) = (c, r)"
proof -
  assume c: "c < 0x110000"
  have low: "c div 64 * 64 + c mod 64 = c" by (rule div_mult_mod_eq)
  have mid: "c div 4096 * 64 + c div 64 mod 64 = c div 64"
    using div_mult_mod_eq [of "c div 64" 64] by (simp add: div_mult2_eq [symmetric])
  have high: "c div 262144 * 64 + c div 4096 mod 64 = c div 4096"
    using div_mult_mod_eq [of "c div 4096" 64] by (simp add: div_mult2_eq [symmetric])
  consider "c < 0x80" | "0x80 \<le> c" "c < 0x800" | "0x800 \<le> c" "c < 0x10000" | "0x10000 \<le> c"
    by linarith
  then show ?thesis
  proof cases
    case 1
    then show ?thesis by (simp add: utf8_nats_def utf8_read_def)
  next
    case 2
    then have "c div 64 < 32" by linarith
    with 2 show ?thesis by (simp add: utf8_nats_def utf8_read_def)
  next
    case 3
    then have "c div 4096 < 16" by linarith
    moreover have "c div 4096 * 4096 + c div 64 mod 64 * 64 + c mod 64 = c" using low mid by linarith
    ultimately show ?thesis using 3 by (simp add: utf8_nats_def utf8_read_def)
  next
    case 4
    have "c div 262144 * 262144 + c div 4096 mod 64 * 4096 + c div 64 mod 64 * 64 + c mod 64 = c"
      using low mid high by linarith
    with 4 show ?thesis by (simp add: utf8_nats_def utf8_read_def)
  qed
qed

lemma utf8_nats_bound: "c < 0x110000 \<Longrightarrow> b \<in> set (utf8_nats c) \<Longrightarrow> b < 256"
proof -
  assume c: "c < 0x110000"
  have "c div 262144 < 5" using c by linarith
  moreover have "0x800 > c \<Longrightarrow> c div 64 < 32" "0x10000 > c \<Longrightarrow> c div 4096 < 16" by linarith+
  moreover have "c mod 64 < 64" "c div 64 mod 64 < 64" "c div 4096 mod 64 < 64" by simp_all
  moreover assume "b \<in> set (utf8_nats c)"
  ultimately show "b < 256" by (auto simp: utf8_nats_def split: if_splits)
qed

lemma of_nat_byte_inject:
  "list_all (\<lambda>b. b < 256) xs \<Longrightarrow> list_all (\<lambda>b. b < 256) ys \<Longrightarrow>
   (map of_nat xs :: bytes) = map of_nat ys \<Longrightarrow> xs = ys"
proof (induction xs arbitrary: ys)
  case (Cons x xs)
  then obtain y ys' where ys: "ys = y # ys'" by (cases ys) auto
  have "unat (of_nat x :: byte) = unat (of_nat y :: byte)" using Cons.prems ys by simp
  then have "x = y" using Cons.prems ys by (simp add: unat_of_nat)
  with Cons ys show ?case by simp
qed auto

lemma utf8_inject:
  assumes "str_ok s" "str_ok t" "utf8 s = utf8 t"
  shows "s = t"
proof -
  have "list_all (\<lambda>b. b < 256) (concat (map utf8_nats x))" if "str_ok x" for x
    using that by (auto simp: list_all_iff str_ok_def utf8_nats_bound)
  with assms have "concat (map utf8_nats s) = concat (map utf8_nats t)"
    unfolding utf8_def by (intro of_nat_byte_inject) auto
  then show ?thesis
    using assms(1,2)
  proof (induction s arbitrary: t)
    case Nil
    then show ?case by (cases t) (auto simp: utf8_nats_def split: if_splits)
  next
    case (Cons c s)
    then obtain d t' where t: "t = d # t'"
      by (cases t) (auto simp: utf8_nats_def split: if_splits)
    have cd: "c < 0x110000" "d < 0x110000" "str_ok s" "str_ok t'"
      using Cons.prems t by (auto simp: str_ok_def)
    have "utf8_nats c @ concat (map utf8_nats s) = utf8_nats d @ concat (map utf8_nats t')"
      using Cons.prems(1) t by simp
    then have "utf8_read (utf8_nats c @ concat (map utf8_nats s)) =
        utf8_read (utf8_nats d @ concat (map utf8_nats t'))" by (rule arg_cong)
    then have "(c, concat (map utf8_nats s)) = (d, concat (map utf8_nats t'))"
      unfolding utf8_read_nats [OF cd(1)] utf8_read_nats [OF cd(2)] .
    then show ?case using Cons.IH [of t'] t cd by simp
  qed
qed

lemma str_ok_simps [simp]:
  "str_ok []" "str_ok (c # s) \<longleftrightarrow> c < 0x110000 \<and> str_ok s" "str_ok (s @ t) \<longleftrightarrow> str_ok s \<and> str_ok t"
  by (auto simp: str_ok_def)

lemma str_ok_join: "\<forall>t\<in>set ts. str_ok t \<Longrightarrow> str_ok (join 44 ts)"
  by (induction "44::nat" ts rule: join.induct) auto

lemma str_ok_concat: "\<forall>t\<in>set ts. str_ok t \<Longrightarrow> str_ok (concat ts)"
  by (induction ts) auto

lemma str_ok_quoted: "str_ok s \<Longrightarrow> str_ok (quoted s)"
proof -
  have hexd: "hex_digit n < 0x110000" if "n < 16" for n
    using that by (simp add: hex_digit_def)
  have "str_ok (escape c)" if "c < 0x110000" for c
    using that by (auto simp: escape_cases hexd)
  then show "str_ok s \<Longrightarrow> str_ok (quoted s)"
    by (auto simp: quoted_def str_ok_def [of s] list_all_iff intro!: str_ok_concat)
qed

fun doc_str_ok :: "doc \<Rightarrow> bool" where
  "doc_str_ok (DStr s) = str_ok s"
| "doc_str_ok (DArr ds) = list_all doc_str_ok ds"
| "doc_str_ok (DObj kds) = list_all (\<lambda>(k, d). str_ok k \<and> doc_str_ok d) kds"
| "doc_str_ok _ = True"

lemma doc_str_ok_of: "pyval_ok v \<Longrightarrow> doc_str_ok (doc_of v)"
  by (induction v) (fastforce simp: list_all_iff)+

lemma str_ok_doc_text: "doc_ok d \<Longrightarrow> doc_str_ok d \<Longrightarrow> str_ok (doc_text d)"
proof (induction d)
  case (DNum t)
  then show ?case by (auto simp: str_ok_def list_all_iff num_char_def)
next
  case (DObj kds)
  have "str_ok (quoted k @ [58] @ doc_text d)" if "(k, d) \<in> set kds" for k d
    using DObj.IH [of "(k, d)" d] DObj.prems that by (auto simp: list_all_iff str_ok_quoted)
  then show ?case by (auto intro!: str_ok_join)
next
  case (DArr ds)
  then show ?case by (auto simp: list_all_iff intro!: str_ok_join)
qed (auto simp: str_ok_quoted u_def)

lemma canonicalize_eq:
  assumes "pyval_ok v" "canonicalize v = Inr b"
  shows "b = utf8 (doc_text (doc_of v)) \<and> doc_ok (doc_of v) \<and> str_ok (doc_text (doc_of v))"
  using assms serialize_refines_aux [OF assms(1)] doc_str_ok_of [OF assms(1)]
  by (auto simp: canonicalize_def canonical_dumps_def rmap_Inr_iff str_ok_doc_text)

lemma canonicalize_inject:
  assumes "pyval_ok v" "pyval_ok w" "canonicalize v = Inr b" "canonicalize w = Inr b"
  shows "doc_of v = doc_of w"
  using canonicalize_eq [OF assms(1,3)] canonicalize_eq [OF assms(2,4)]
    utf8_inject [of "doc_text (doc_of v)" "doc_text (doc_of w)"]
    doc_text_inject [of "doc_of v" "doc_of w"] by auto

section \<open>When serialisation succeeds, and key order\<close>

definition item_ok :: "pykey \<times> pyval \<Rightarrow> bool" where
  "item_ok it \<longleftrightarrow> (case it of (k, v) \<Rightarrow>
     (case k of KStr s \<Rightarrow> clean s | KOther \<Rightarrow> False) \<and> (\<exists>t. serialize v = Inr t))"

lemma serialize_dict_succeeds:
  "(\<exists>t. serialize (PDict items) = Inr t) \<longleftrightarrow> (\<forall>it\<in>set items. item_ok it)"
proof
  assume "\<exists>t. serialize (PDict items) = Inr t"
  then obtain keys ts where
    keys: "map (\<lambda>(k, _). item_key k) items = map Inr keys"
    and ts: "map serialize_item
        (sort_key (\<lambda>it. fst (fst it)) (zip keys (map (\<lambda>(_, v). serialize v) items))) = map Inr ts"
    by (auto simp: rbind_Inr_iff rmap_Inr_iff rseq_Inr_iff)
  show "\<forall>it\<in>set items. item_ok it"
  proof
    fix it assume "it \<in> set items"
    then obtain i where i: "i < length items" "it = items ! i" by (auto simp: in_set_conv_nth)
    obtain k v where kv: "items ! i = (k, v)" by (cases "items ! i")
    have len: "length keys = length items" using keys by (metis length_map)
    have "map (\<lambda>(k, _). item_key k) items ! i = map Inr keys ! i" using keys by simp
    then have key: "item_key k = Inr (keys ! i)" using i kv len by simp
    have "(keys ! i, serialize v) \<in> set (zip keys (map (\<lambda>(_, v). serialize v) items))"
      using i kv len by (force simp: in_set_zip)
    then have "serialize_item (keys ! i, serialize v) \<in> set (map serialize_item
        (sort_key (\<lambda>it. fst (fst it)) (zip keys (map (\<lambda>(_, v). serialize v) items))))"
      by force
    then have "\<exists>t. serialize_item (keys ! i, serialize v) = Inr t" unfolding ts by auto
    then show "item_ok it"
      using key i kv by (cases k; cases "keys ! i")
        (auto simp: item_ok_def item_key_eq key_of_def serialize_item_eq)
  qed
next
  assume ok: "\<forall>it\<in>set items. item_ok it"
  define keys where "keys = map (\<lambda>(k, v). (utf16 (key_of k), key_of k)) items"
  have "map (\<lambda>(k, _). item_key k) items = map Inr keys"
    unfolding keys_def map_map
    by (rule map_cong) (use ok in \<open>auto simp: item_ok_def item_key_eq key_of_def split: pykey.splits\<close>)
  moreover have "\<exists>t. serialize_item it = Inr t"
    if "it \<in> set (zip keys (map (\<lambda>(_, v). serialize v) items))" for it
  proof -
    from that obtain i where i: "i < length items" "it = (keys ! i, map (\<lambda>(_, v). serialize v) items ! i)"
      by (auto simp: in_set_zip keys_def)
    obtain k v where kv: "items ! i = (k, v)" by (cases "items ! i")
    then have "item_ok (k, v)" using ok i(1) by (metis nth_mem)
    with i kv show ?thesis
      by (auto simp: keys_def item_ok_def serialize_item_eq key_of_def split: pykey.splits)
  qed
  moreover have "\<exists>ts. map f xs = map Inr ts" if "\<forall>x\<in>set xs. \<exists>t. f x = Inr t"
    for f :: "_ \<Rightarrow> canon_error + pystr" and xs
    using that by (induction xs) (auto, metis list.simps(9))
  ultimately obtain ts where
    "map (\<lambda>(k, _). item_key k) items = map Inr keys"
    "map serialize_item (sort_key (\<lambda>it. fst (fst it))
       (zip keys (map (\<lambda>(_, v). serialize v) items))) = map Inr ts"
    by (metis set_sort)
  then show "\<exists>t. serialize (PDict items) = Inr t"
    by (auto simp: rbind_Inr_iff rmap_Inr_iff rseq_Inr_iff)
qed

text \<open>The UTF-16 sort key determines the key, so sorting does not depend on insertion order.\<close>

definition utf16_read :: "nat list \<Rightarrow> nat \<times> nat list" where
  "utf16_read bs =
     (case bs of b0 # b1 # r \<Rightarrow>
        (let w = b0 * 256 + b1
         in if 0xD800 \<le> w \<and> w \<le> 0xDBFF then
              (case r of b2 # b3 # r' \<Rightarrow>
                 (0x10000 + (w - 0xD800) * 0x400 + (b2 * 256 + b3 - 0xDC00), r')
               | _ \<Rightarrow> (0, []))
            else (w, r))
      | _ \<Rightarrow> (0, []))"

lemma utf16_read_char:
  assumes "c < 0x110000" "\<not> surrogate c"
  shows "utf16_read (utf16_char c @ r) = (c, r)"
proof (cases "c < 0x10000")
  case True
  have "c div 256 * 256 + c mod 256 = c" by (rule div_mult_mod_eq)
  with True assms(2) show ?thesis
    by (auto simp: utf16_char_def unit_bytes_def utf16_read_def surrogate_def)
next
  case False
  define d where "d = c - 0x10000"
  have d: "d < 0x100000" "c = 0x10000 + d" using assms(1) False by (auto simp: d_def)
  have "d div 0x400 < 0x400" using d(1) by linarith
  moreover have "d div 0x400 * 0x400 + d mod 0x400 = d" by (rule div_mult_mod_eq)
  moreover have "w div 256 * 256 + w mod 256 = w" for w :: nat by (rule div_mult_mod_eq)
  ultimately show ?thesis
    using d by (simp add: utf16_char_def unit_bytes_def utf16_read_def Let_def)
qed

lemma utf16_inject:
  "clean s \<Longrightarrow> str_ok s \<Longrightarrow> clean t \<Longrightarrow> str_ok t \<Longrightarrow> utf16 s = utf16 t \<Longrightarrow> s = t"
proof (induction s arbitrary: t)
  case Nil
  then show ?case by (cases t) (auto simp: utf16_def utf16_char_def unit_bytes_def split: if_splits)
next
  case (Cons c s)
  then obtain d t' where t: "t = d # t'"
    by (cases t) (auto simp: utf16_def utf16_char_def unit_bytes_def split: if_splits)
  have cd: "c < 0x110000" "\<not> surrogate c" "d < 0x110000" "\<not> surrogate d"
    using Cons.prems t by (auto simp: clean_def)
  have "utf16_char c @ utf16 s = utf16_char d @ utf16 t'"
    using Cons.prems(5) t by (simp add: utf16_def)
  then have "utf16_read (utf16_char c @ utf16 s) = utf16_read (utf16_char d @ utf16 t')"
    by (rule arg_cong)
  then have eq: "(c, utf16 s) = (d, utf16 t')"
    unfolding utf16_read_char [OF cd(1,2)] utf16_read_char [OF cd(3,4)] .
  have "s = t'"
    by (rule Cons.IH) (use Cons.prems(1-4) t eq in \<open>simp_all add: clean_def\<close>)
  with eq t show ?case by simp
qed

lemma doc_of_dict_perm:
  assumes "mset items = mset items'" "distinct (map fst items)"
    and "pyval_ok (PDict items)" "\<forall>it\<in>set items. item_ok it"
  shows "doc_of (PDict items) = doc_of (PDict items')"
proof -
  define G where "G = (\<lambda>(k, v). (key_of k, doc_of v))"
  have "inj_on (\<lambda>kd. utf16 (fst kd)) (set (map G items))"
  proof (rule inj_onI)
    fix x y assume xy: "x \<in> set (map G items)" "y \<in> set (map G items)" "utf16 (fst x) = utf16 (fst y)"
    then obtain k v k' v' where
      kv: "(k, v) \<in> set items" "x = G (k, v)" "(k', v') \<in> set items" "y = G (k', v')" by auto
    have "str_ok (key_of k)" "str_ok (key_of k')"
      using kv assms(3) by (fastforce simp: list_all_iff)+
    moreover have "clean (key_of k)" "clean (key_of k')" "k = KStr (key_of k)" "k' = KStr (key_of k')"
      using kv assms(4) by (auto simp: item_ok_def key_of_def split: pykey.splits)
    moreover have "utf16 (key_of k) = utf16 (key_of k')" using xy(3) kv(2,4) by (simp add: G_def)
    ultimately have "k = k'" by (metis utf16_inject)
    with kv assms(2) have "v = v'" by (auto dest: eq_key_imp_eq_value)
    with \<open>k = k'\<close> kv show "x = y" by simp
  qed
  moreover have "mset (map G items) = mset (map G items')" using assms(1) by simp
  ultimately have "sort_key (\<lambda>kd. utf16 (fst kd)) (map G items) =
      sort_key (\<lambda>kd. utf16 (fst kd)) (map G items')"
    by (intro sort_key_inj_key_eq) auto
  then show ?thesis by (simp add: G_def)
qed

lemma item_ok_simps [simp]:
  "item_ok (KStr s, v) \<longleftrightarrow> clean s \<and> (\<exists>t. serialize v = Inr t)" "\<not> item_ok (KOther, v)"
  by (simp_all add: item_ok_def)

lemma serialize_seq_succeeds:
  "(\<exists>t. serialize (PSeq xs) = Inr t) \<longleftrightarrow> (\<forall>x\<in>set xs. \<exists>t. serialize x = Inr t)"
proof -
  have "(\<exists>ts. map serialize xs = map Inr ts) \<longleftrightarrow> (\<forall>x\<in>set xs. \<exists>t. serialize x = Inr t)"
  proof (induction xs)
    case (Cons x xs)
    then show ?case by (auto simp: map_eq_Cons_conv) (metis list.simps(9))
  qed auto
  then show ?thesis by (auto simp: rmap_Inr_iff rseq_Inr_iff)
qed

text \<open>The values JCS can express.\<close>

fun jsonable :: "pyval \<Rightarrow> bool" where
  "jsonable (PStr s) = clean s"
| "jsonable (PFloat f) = (case f of FFin _ _ _ \<Rightarrow> True | _ \<Rightarrow> False)"
| "jsonable (PSeq xs) = list_all jsonable xs"
| "jsonable (PDict items) =
     list_all (\<lambda>(k, v). (case k of KStr s \<Rightarrow> clean s | KOther \<Rightarrow> False) \<and> jsonable v) items"
| "jsonable POther = False"
| "jsonable _ = True"

lemma serialize_succeeds_aux: "(\<exists>t. serialize v = Inr t) \<longleftrightarrow> jsonable v"
proof (induction v)
  case (PSeq xs)
  then show ?case unfolding serialize_seq_succeeds by (auto simp: list_all_iff)
next
  case (PDict items)
  have "item_ok it \<longleftrightarrow> (case it of (k, v) \<Rightarrow>
      (case k of KStr s \<Rightarrow> clean s | KOther \<Rightarrow> False) \<and> jsonable v)" if "it \<in> set items" for it
    using PDict.IH [of it "snd it"] that by (cases it; cases "fst it") auto
  then show ?case unfolding serialize_dict_succeeds by (simp add: list_all_iff)
next
  case (PFloat f)
  then show ?case by (cases f) auto
qed (auto simp: serialize_string_eq serialize_int_def)

section \<open>Properties\<close>

text \<open>For evaluating the serialiser on a concrete value.\<close>

lemmas serialize_eval =
  canonical_dumps_def item_key_def utf16_sort_key_def serialize_item_def serialize_string_def
  serialize_char_def short_escape_def serialize_int_def int_str_def nat_digits.simps
  surrogate_def utf16_char_def unit_bytes_def u_def key_of_def clean_def str_ok_def
  hex_digit_def

text \<open>
  C3: Two values have the same canonical bytes exactly when they denote the same JSON document
  (same structure, same strings, same canonical number texts, same members under the same keys):
  \<open>canonicalize\<close> is injective up to what JCS declares irrelevant, so a hash over it commits to
  the whole document.
\<close>

theorem canonicalize_binding:
  assumes "pyval_ok v" "pyval_ok w" "canonicalize v = Inr b" "canonicalize w = Inr c"
  shows "b = c \<longleftrightarrow> doc_of v = doc_of w"
  using canonicalize_inject [OF assms(1,2)] canonicalize_eq [OF assms(1,3)]
    canonicalize_eq [OF assms(2,4)] assms(3,4) by auto

theorem canonicalize_binding_witness:
  "(utf8 (u ''[12]'') = utf8 (u ''[7]'')) =
     (doc_of (PSeq [PInt 12]) = doc_of (PSeq [PInt 7]))"
  by (rule canonicalize_binding [of "PSeq [PInt 12]" "PSeq [PInt 7]"])
    (simp_all add: canonicalize_def serialize_eval)

text \<open>
  The canonical bytes of an object do not depend on the order its keys were inserted in: any
  reordering of the items of a dictionary serialises to the same bytes.
\<close>

theorem canonicalize_key_order:
  assumes "mset items = mset items'" "distinct (map fst items)" "pyval_ok (PDict items)"
    and "canonicalize (PDict items) = Inr b"
  shows "canonicalize (PDict items') = Inr b"
proof -
  have set: "set items = set items'" using assms(1) by (metis set_mset_mset)
  have ok: "\<forall>it\<in>set items. item_ok it"
    using assms(4) serialize_dict_succeeds [of items]
    by (auto simp: canonicalize_def canonical_dumps_def rmap_Inr_iff simp del: serialize.simps)
  then obtain c where c: "canonicalize (PDict items') = Inr c"
    using serialize_dict_succeeds [of items'] set
    by (auto simp: canonicalize_def canonical_dumps_def rmap_Inr_iff simp del: serialize.simps)
  have "pyval_ok (PDict items')" using assms(3) set by (simp add: list_all_iff)
  with c assms(3,4) doc_of_dict_perm [OF assms(1-3) ok] show ?thesis
    using canonicalize_eq by metis
qed

theorem canonicalize_key_order_witness:
  "canonicalize (PDict [(KStr (u ''a''), PNone), (KStr (u ''b''), PBool True)])
     = Inr (utf8 [123, 34, 97, 34, 58, 110, 117, 108, 108, 44, 34, 98, 34, 58, 116, 114, 117, 101, 125])"
  by (rule canonicalize_key_order
      [of "[(KStr (u ''b''), PBool True), (KStr (u ''a''), PNone)]"])
    (simp_all add: canonicalize_def serialize_eval)

text \<open>
  \<open>canonical_dumps\<close> raises exactly on the values RFC 8785 cannot express: a lone surrogate in a
  string or key, \<open>NaN\<close> or an infinity, a key that is not a string, or an object of another type,
  at any depth.
\<close>

theorem canonical_dumps_succeeds_iff:
  "(\<exists>t. canonical_dumps v = Inr t) \<longleftrightarrow> jsonable v"
  unfolding canonical_dumps_def by (rule serialize_succeeds_aux)

end
