(* ===== verification/Merkle.thy ===== *)
theory Merkle
  imports Canonical_Doc
begin

text \<open>
  \<open>recorder/merkle.py\<close>: the epoch Merkle tree over checkpoints. The tree is kept level by level, as
  the code builds it; \<open>mth\<close> is the recursive definition of RFC 6962, which the level-wise
  construction is shown to compute. Completeness (every proof the tree hands out verifies) and
  soundness (a proof that verifies is about a real leaf, or exhibits a collision) follow.
\<close>

section \<open>The code\<close>

definition leaf_hash :: "hash \<Rightarrow> bytes \<Rightarrow> bytes" where
  "leaf_hash sha data = sha (0 # data)"

definition node_hash :: "hash \<Rightarrow> bytes \<Rightarrow> bytes \<Rightarrow> bytes" where
  "node_hash sha left right = sha (1 # left @ right)"

datatype merkle_error = NoLeaves | LeafIndexOutOfRange | BadCheckpoint canon_error

definition checkpoint_leaf_hash :: "hash \<Rightarrow> pyval \<Rightarrow> merkle_error + bytes" where
  "checkpoint_leaf_hash sha checkpoint =
     (case canonicalize checkpoint of
        Inl e \<Rightarrow> Inl (BadCheckpoint e)
      | Inr b \<Rightarrow> Inr (leaf_hash sha b))"

datatype side = SideLeft | SideRight

record proof_step =
  sibling :: bytes
  side :: side

record inclusion_proof =
  leaf_index :: nat
  proof_leaf :: bytes
  steps :: "proof_step list"
  proof_root :: bytes

fun build_next_level :: "hash \<Rightarrow> bytes list \<Rightarrow> bytes list" where
  "build_next_level sha (l # r # rest) = node_hash sha l r # build_next_level sha rest"
| "build_next_level sha [l] = [l]"
| "build_next_level sha [] = []"

lemma length_build_next_level: "length (build_next_level sha xs) = (length xs + 1) div 2"
  by (induction sha xs rule: build_next_level.induct) auto

function build_levels :: "hash \<Rightarrow> bytes list \<Rightarrow> bytes list list" where
  "build_levels sha level =
     (if 1 < length level then level # build_levels sha (build_next_level sha level) else [level])"
  by pat_completeness auto
termination
  by (relation "measure (\<lambda>(_, level). length level)") (auto simp: length_build_next_level)

declare build_levels.simps [simp del]

type_synonym merkle_tree = "bytes list list"

definition MerkleTree :: "hash \<Rightarrow> bytes list \<Rightarrow> merkle_error + merkle_tree" where
  "MerkleTree sha leaf_hashes =
     (if leaf_hashes = [] then Inl NoLeaves else Inr (build_levels sha leaf_hashes))"

definition root :: "merkle_tree \<Rightarrow> bytes" where
  "root levels = hd (last levels)"

definition leaf_count :: "merkle_tree \<Rightarrow> nat" where
  "leaf_count levels = length (hd levels)"

fun proof_steps :: "bytes list list \<Rightarrow> nat \<Rightarrow> proof_step list" where
  "proof_steps [] index = []"
| "proof_steps (level # rest) index =
     (if even index then
        (if index + 1 < length level
         then [\<lparr>sibling = level ! (index + 1), side = SideRight\<rparr>] else [])
      else [\<lparr>sibling = level ! (index - 1), side = SideLeft\<rparr>])
     @ proof_steps rest (index div 2)"

definition inclusion_proof_for :: "merkle_tree \<Rightarrow> int \<Rightarrow> merkle_error + inclusion_proof" where
  "inclusion_proof_for levels index =
     (if \<not> (0 \<le> index \<and> index < int (leaf_count levels)) then Inl LeafIndexOutOfRange
      else Inr \<lparr>leaf_index = nat index,
                proof_leaf = hd levels ! nat index,
                steps = proof_steps (butlast levels) (nat index),
                proof_root = root levels\<rparr>)"

definition fold_step :: "hash \<Rightarrow> bytes \<Rightarrow> proof_step \<Rightarrow> bytes" where
  "fold_step sha current step =
     (case side step of
        SideRight \<Rightarrow> node_hash sha current (sibling step)
      | SideLeft \<Rightarrow> node_hash sha (sibling step) current)"

definition verify_inclusion :: "hash \<Rightarrow> inclusion_proof \<Rightarrow> bool" where
  "verify_inclusion sha pf =
     (foldl (fold_step sha) (proof_leaf pf) (steps pf) = proof_root pf)"

definition build_epoch_tree ::
  "hash \<Rightarrow> pyval list \<Rightarrow> merkle_error + (bytes \<times> inclusion_proof list)" where
  "build_epoch_tree sha checkpoints =
     (if checkpoints = [] then Inl NoLeaves
      else rbind (rseq (map (checkpoint_leaf_hash sha) checkpoints)) (\<lambda>leaves.
        rbind (MerkleTree sha leaves) (\<lambda>tree.
          rmap (Pair (root tree))
            (rseq (map (\<lambda>i. inclusion_proof_for tree (int i)) [0..<length checkpoints])))))"

section \<open>Levels\<close>

lemma build_levels_unfold:
  "1 < length level \<Longrightarrow>
     build_levels sha level = level # build_levels sha (build_next_level sha level)"
  "\<not> 1 < length level \<Longrightarrow> build_levels sha level = [level]"
  by (simp_all add: build_levels.simps)

lemma build_levels_nonempty [simp]: "build_levels sha level \<noteq> []"
  by (simp add: build_levels.simps)

lemma hd_build_levels [simp]: "hd (build_levels sha level) = level"
  by (simp add: build_levels.simps)

lemma root_build_levels:
  "1 < length level \<Longrightarrow>
     root (build_levels sha level) = root (build_levels sha (build_next_level sha level))"
  "root (build_levels sha [x]) = x"
  by (simp_all add: root_def build_levels_unfold)

lemma build_next_level_nth:
  "i < length (build_next_level sha xs) \<Longrightarrow>
     build_next_level sha xs ! i =
       (if 2 * i + 1 < length xs then node_hash sha (xs ! (2 * i)) (xs ! (2 * i + 1))
        else xs ! (2 * i))"
proof (induction sha xs arbitrary: i rule: build_next_level.induct)
  case (1 sha l r rest)
  then show ?case by (cases i) auto
qed auto

lemma build_next_level_append:
  "even (length xs) \<Longrightarrow>
     build_next_level sha (xs @ ys) = build_next_level sha xs @ build_next_level sha ys"
  by (induction sha xs rule: build_next_level.induct) auto

section \<open>The tree of RFC 6962\<close>

text \<open>The largest power of two below \<open>n\<close>, for \<open>n > 1\<close>.\<close>

fun split_point :: "nat \<Rightarrow> nat" where
  "split_point n = (if n \<le> 2 then 1 else 2 * split_point ((n + 1) div 2))"

declare split_point.simps [simp del]

lemma split_point_spec:
  "1 < n \<Longrightarrow> (\<exists>j. split_point n = 2 ^ j) \<and> split_point n < n \<and> n \<le> 2 * split_point n"
proof (induction n rule: split_point.induct)
  case (1 n)
  show ?case
  proof (cases "n \<le> 2")
    case True
    with "1.prems" show ?thesis by (simp add: split_point.simps [of n] exI [of _ 0])
  next
    case False
    then have half: "1 < (n + 1) div 2" by linarith
    from "1.IH" [OF False half] obtain j where
      j: "split_point ((n + 1) div 2) = 2 ^ j" and
      bounds: "split_point ((n + 1) div 2) < (n + 1) div 2" "(n + 1) div 2 \<le> 2 * split_point ((n + 1) div 2)"
      by blast
    have eq: "split_point n = 2 * split_point ((n + 1) div 2)"
      using False by (simp add: split_point.simps [of n])
    then have "split_point n = 2 ^ Suc j" using j by simp
    then show ?thesis using eq bounds by (intro conjI exI [of _ "Suc j"]) linarith+
  qed
qed

lemma split_point_pos: "0 < split_point n"
  by (induction n rule: split_point.induct) (subst split_point.simps, auto)

function mth :: "hash \<Rightarrow> bytes list \<Rightarrow> bytes" where
  "mth sha xs =
     (if length xs \<le> 1 then hd xs
      else node_hash sha (mth sha (take (split_point (length xs)) xs))
                         (mth sha (drop (split_point (length xs)) xs)))"
  by pat_completeness auto
termination
proof (relation "measure (\<lambda>(_, xs). length xs)")
  fix xs :: "bytes list" assume "\<not> length xs \<le> 1"
  with split_point_spec [of "length xs"] split_point_pos [of "length xs"]
  show "((sha, take (split_point (length xs)) xs), (sha, xs)) \<in> measure (\<lambda>(_, xs). length xs)"
    "((sha, drop (split_point (length xs)) xs), (sha, xs)) \<in> measure (\<lambda>(_, xs). length xs)"
    for sha :: hash
    by auto
qed auto

declare mth.simps [simp del]

lemma mth_single [simp]: "mth sha [x] = x"
  by (simp add: mth.simps)

text \<open>Splitting at a power of two commutes with building one level.\<close>

lemma root_split:
  "1 < length xs \<Longrightarrow>
     root (build_levels sha xs) =
       node_hash sha (root (build_levels sha (take (split_point (length xs)) xs)))
                     (root (build_levels sha (drop (split_point (length xs)) xs)))"
proof (induction "length xs" arbitrary: xs rule: less_induct)
  case less
  let ?k = "split_point (length xs)"
  let ?up = "build_next_level sha xs"
  show ?case
  proof (cases "length xs \<le> 2")
    case True
    with less.prems obtain x y where "xs = [x, y]"
      by (cases xs; cases "tl xs") auto
    then show ?thesis by (simp add: root_build_levels split_point.simps)
  next
    case False
    define m where "m = split_point (length ?up)"
    have up: "length ?up = (length xs + 1) div 2" by (rule length_build_next_level)
    have k: "?k = 2 * m" using False by (simp add: m_def up split_point.simps [of "length xs"])
    have len: "1 < length ?up" "length ?up < length xs" using False up by linarith+
    have m: "m < length ?up" "0 < m"
      using split_point_spec [OF len(1)] split_point_pos by (auto simp: m_def)
    have k_less: "?k < length xs" using split_point_spec [OF less.prems] by simp
    have "?up = build_next_level sha (take ?k xs @ drop ?k xs)" by simp
    also have "\<dots> = build_next_level sha (take ?k xs) @ build_next_level sha (drop ?k xs)"
      by (rule build_next_level_append) (use k k_less in simp)
    finally have split: "?up = build_next_level sha (take ?k xs) @ build_next_level sha (drop ?k xs)" .
    moreover have "length (build_next_level sha (take ?k xs)) = m"
      using k k_less by (simp add: length_build_next_level)
    ultimately have parts: "take m ?up = build_next_level sha (take ?k xs)"
      "drop m ?up = build_next_level sha (drop ?k xs)"
      by (metis append_eq_conv_conj)+
    have "root (build_levels sha (drop ?k xs)) = root (build_levels sha (drop m ?up))"
    proof (cases "1 < length (drop ?k xs)")
      case False
      with k_less have "length (drop ?k xs) = 1" by simp
      then obtain z where "drop ?k xs = [z]" by (metis length_0_conv length_Suc_conv One_nat_def)
      with parts show ?thesis by simp
    qed (simp add: root_build_levels parts)
    moreover have "root (build_levels sha (take ?k xs)) = root (build_levels sha (take m ?up))"
      using k k_less m by (simp add: root_build_levels parts)
    ultimately show ?thesis
      using less.hyps [OF len(2) len(1)] less.prems by (simp add: root_build_levels m_def)
  qed
qed

lemma root_is_mth: "xs \<noteq> [] \<Longrightarrow> root (build_levels sha xs) = mth sha xs"
proof (induction sha xs rule: mth.induct)
  case (1 sha xs)
  show ?case
  proof (cases "length xs \<le> 1")
    case True
    with "1.prems" obtain x where "xs = [x]" by (cases xs) auto
    then show ?thesis by (simp add: root_build_levels)
  next
    case False
    with split_point_spec [of "length xs"] split_point_pos [of "length xs"]
    have "take (split_point (length xs)) xs \<noteq> []" "drop (split_point (length xs)) xs \<noteq> []" by auto
    with "1.IH" [OF False] False show ?thesis
      by (simp add: root_split mth.simps [of sha xs])
  qed
qed

section \<open>Completeness\<close>

lemma build_levels_ne: "xs \<noteq> [] \<Longrightarrow> build_next_level sha xs \<noteq> []"
  by (cases "(sha, xs)" rule: build_next_level.cases) auto

text \<open>Folding the steps above a level takes the node at \<open>i\<close> of that level to the root.\<close>

lemma fold_proof_steps:
  "i < length level \<Longrightarrow>
     foldl (fold_step sha) (level ! i) (proof_steps (butlast (build_levels sha level)) i)
       = root (build_levels sha level)"
proof (induction sha level arbitrary: i rule: build_levels.induct)
  case (1 sha level)
  show ?case
  proof (cases "1 < length level")
    case False
    with "1.prems" obtain x where "level = [x]" "i = 0" by (cases level) auto
    then show ?thesis by (simp add: build_levels_unfold root_def)
  next
    case True
    let ?up = "build_next_level sha level"
    have i2: "i div 2 < length ?up" using "1.prems" by (simp add: length_build_next_level)
    have here: "foldl (fold_step sha) (level ! i) (proof_steps [level] i) = ?up ! (i div 2)"
      using "1.prems" build_next_level_nth [OF i2]
      by (auto simp: fold_step_def elim!: evenE oddE)
    have "butlast (build_levels sha level) = level # butlast (build_levels sha ?up)"
      using True by (simp add: build_levels_unfold)
    then have "proof_steps (butlast (build_levels sha level)) i =
        proof_steps [level] i @ proof_steps (butlast (build_levels sha ?up)) (i div 2)"
      by simp
    then show ?thesis
      using "1.IH" [OF True i2] here by (simp only: foldl_append root_build_levels(1) [OF True])
  qed
qed

section \<open>Soundness\<close>

text \<open>What building the tree over the leaf data hashes, and what checking a proof hashes.\<close>

function tree_inputs :: "hash \<Rightarrow> bytes list \<Rightarrow> bytes set" where
  "tree_inputs sha datas =
     (if length datas \<le> 1 then (\<lambda>d. 0 # d) ` set datas
      else (let k = split_point (length datas) in
        insert (1 # mth sha (map (leaf_hash sha) (take k datas)) @
                    mth sha (map (leaf_hash sha) (drop k datas)))
          (tree_inputs sha (take k datas) \<union> tree_inputs sha (drop k datas))))"
  by pat_completeness auto
termination
proof (relation "measure (\<lambda>(_, xs). length xs)")
  fix xs :: "bytes list" and k assume "\<not> length xs \<le> 1" "k = split_point (length xs)"
  with split_point_spec [of "length xs"] split_point_pos [of "length xs"]
  show "((sha, take k xs), (sha, xs)) \<in> measure (\<lambda>(_, xs). length xs)"
    "((sha, drop k xs), (sha, xs)) \<in> measure (\<lambda>(_, xs). length xs)" for sha :: hash
    by auto
qed auto

declare tree_inputs.simps [simp del]

definition step_input :: "bytes \<Rightarrow> proof_step \<Rightarrow> bytes" where
  "step_input current step =
     1 # (case side step of SideRight \<Rightarrow> current @ sibling step | SideLeft \<Rightarrow> sibling step @ current)"

lemma fold_step_input: "fold_step sha current step = sha (step_input current step)"
  by (simp add: fold_step_def step_input_def node_hash_def split: side.split)

fun path_inputs :: "hash \<Rightarrow> bytes \<Rightarrow> proof_step list \<Rightarrow> bytes set" where
  "path_inputs sha current [] = {}"
| "path_inputs sha current (s # ss) =
     insert (step_input current s) (path_inputs sha (fold_step sha current s) ss)"

lemma path_inputs_append:
  "path_inputs sha c (ss @ [s]) =
     insert (step_input (foldl (fold_step sha) c ss) s) (path_inputs sha c ss)"
  by (induction ss arbitrary: c) auto

lemma mth_map_unfold:
  assumes "1 < length datas" "k = split_point (length datas)"
  shows "mth sha (map (leaf_hash sha) datas) =
    sha (1 # mth sha (map (leaf_hash sha) (take k datas)) @ mth sha (map (leaf_hash sha) (drop k datas)))"
  using assms by (simp add: mth.simps [of sha "map (leaf_hash sha) datas"] node_hash_def take_map drop_map)

lemma length_mth:
  "\<forall>b. length (sha b) = 32 \<Longrightarrow> datas \<noteq> [] \<Longrightarrow> length (mth sha (map (leaf_hash sha) datas)) = 32"
proof (cases "1 < length datas")
  case False
  then show "\<forall>b. length (sha b) = 32 \<Longrightarrow> datas \<noteq> [] \<Longrightarrow> ?thesis"
    by (cases datas) (auto simp: leaf_hash_def)
qed (simp add: mth_map_unfold [OF _ refl])

lemma verified_leaf_in_tree:
  assumes len: "\<forall>b. length (sha b) = 32"
  shows "datas \<noteq> [] \<Longrightarrow>
     foldl (fold_step sha) (leaf_hash sha d) ss = mth sha (map (leaf_hash sha) datas) \<Longrightarrow>
     d \<in> set datas \<or>
       collision_on sha (insert (0 # d) (path_inputs sha (leaf_hash sha d) ss) \<union> tree_inputs sha datas)"
    (is "_ \<Longrightarrow> _ \<Longrightarrow> _ \<or> collision_on sha (?P ss \<union> _)")
proof (induction ss arbitrary: datas rule: rev_induct)
  case Nil
  show ?case
  proof (cases "1 < length datas")
    case True
    define k where "k = split_point (length datas)"
    define y where "y = 1 # mth sha (map (leaf_hash sha) (take k datas))
        @ mth sha (map (leaf_hash sha) (drop k datas))"
    have "leaf_hash sha d = sha y"
      using Nil(2) unfolding y_def mth_map_unfold [OF True k_def, symmetric] by simp
    then have "sha (0 # d) = sha y" by (simp add: leaf_hash_def)
    moreover have "y \<in> tree_inputs sha datas"
      using True by (simp add: tree_inputs.simps [of sha datas] y_def k_def Let_def)
    ultimately have "collision_on sha (?P [] \<union> tree_inputs sha datas)"
      by (intro collision_onI [of "0 # d" _ y]) (auto simp: y_def)
    then show ?thesis ..
  next
    case False
    with Nil obtain d' where d': "datas = [d']" by (cases datas) auto
    have "sha (0 # d) = sha (0 # d')" using Nil d' by (simp add: leaf_hash_def)
    moreover have "0 # d' \<in> tree_inputs sha datas" by (simp add: tree_inputs.simps d')
    ultimately show ?thesis
      using sha_cases [of sha "0 # d" "0 # d'" "?P [] \<union> tree_inputs sha datas"] d' by auto
  qed
next
  case (snoc s ss)
  define cur where "cur = foldl (fold_step sha) (leaf_hash sha d) ss"
  define x where "x = step_input cur s"
  have x: "x \<in> ?P (ss @ [s])" by (simp add: path_inputs_append x_def cur_def)
  have top: "sha x = mth sha (map (leaf_hash sha) datas)"
    using snoc.prems(2) fold_step_input [of sha cur s] by (simp add: x_def cur_def)
  have cur_len: "length cur = 32"
    unfolding cur_def by (cases ss rule: rev_cases) (auto simp: len leaf_hash_def fold_step_input)
  show ?case
  proof (cases "1 < length datas")
    case False
    with snoc.prems(1) obtain d' where d': "datas = [d']" by (cases datas) auto
    have "sha x = sha (0 # d')" using top d' by (simp add: leaf_hash_def)
    moreover have "0 # d' \<in> tree_inputs sha datas" by (simp add: tree_inputs.simps d')
    ultimately have "collision_on sha (?P (ss @ [s]) \<union> tree_inputs sha datas)"
      using x by (intro collision_onI [of x _ "0 # d'"]) (auto simp: x_def step_input_def)
    then show ?thesis ..
  next
    case True
    define k where "k = split_point (length datas)"
    define l where "l = mth sha (map (leaf_hash sha) (take k datas))"
    define r where "r = mth sha (map (leaf_hash sha) (drop k datas))"
    have k: "take k datas \<noteq> []" "drop k datas \<noteq> []"
      using split_point_spec [OF True] split_point_pos snoc.prems(1) by (auto simp: k_def)
    have lens: "length l = 32" "length r = 32"
      unfolding l_def r_def by (rule length_mth [OF len k(1)]) (rule length_mth [OF len k(2)])
    have inputs: "tree_inputs sha datas =
        insert (1 # l @ r) (tree_inputs sha (take k datas) \<union> tree_inputs sha (drop k datas))"
      using True by (simp add: tree_inputs.simps [of sha datas] k_def l_def r_def Let_def)
    have "sha x = sha (1 # l @ r)"
      using top mth_map_unfold [OF True k_def] by (simp add: l_def r_def)
    then consider "collision_on sha (?P (ss @ [s]) \<union> tree_inputs sha datas)" | "x = 1 # l @ r"
      using sha_cases [of sha x "1 # l @ r" "?P (ss @ [s]) \<union> tree_inputs sha datas"] x inputs by auto
    then show ?thesis
    proof cases
      case 2
      then have "cur = l \<or> cur = r"
        using cur_len lens by (auto simp: x_def step_input_def append_eq_append_conv split: side.splits)
      then obtain part where part: "part \<in> {take k datas, drop k datas}"
        "cur = mth sha (map (leaf_hash sha) part)" by (auto simp: l_def r_def)
      then have "d \<in> set part \<or> collision_on sha (?P ss \<union> tree_inputs sha part)"
        using snoc.IH [of part] k by (auto simp: cur_def)
      moreover have "?P ss \<union> tree_inputs sha part \<subseteq> ?P (ss @ [s]) \<union> tree_inputs sha datas"
        using part(1) inputs by (auto simp: path_inputs_append)
      moreover have "set part \<subseteq> set datas"
        using part(1) by (auto dest: in_set_takeD in_set_dropD)
      ultimately show ?thesis using collision_on_mono by blast
    qed blast
  qed
qed

section \<open>The interface to the rest of the system\<close>

text \<open>
  What a verifier relies on: a commitment to a list of documents, a proof per position, and a check
  that needs the commitment only. \<open>broken\<close> stands for a break of the hash function exhibited by
  the accepted proof.
\<close>

locale accumulator =
  fixes commit :: "'d list \<Rightarrow> 'r"
    and prove :: "'d list \<Rightarrow> nat \<Rightarrow> 'p"
    and accept :: "'d \<Rightarrow> 'p \<Rightarrow> 'r \<Rightarrow> bool"
    and broken :: "'d list \<Rightarrow> 'd \<Rightarrow> 'p \<Rightarrow> bool"
  assumes complete: "i < length ds \<Longrightarrow> accept (ds ! i) (prove ds i) (commit ds)"
    and sound: "ds \<noteq> [] \<Longrightarrow> accept d p (commit ds) \<Longrightarrow> d \<in> set ds \<or> broken ds d p"
begin

lemma no_false_inclusion:
  "ds \<noteq> [] \<Longrightarrow> d \<notin> set ds \<Longrightarrow> accept d p (commit ds) \<Longrightarrow> broken ds d p"
  using sound by blast

lemma same_root_same_leaves:
  assumes "es \<noteq> []" "commit ds = commit es" "d \<in> set ds"
  shows "d \<in> set es \<or> (\<exists>i<length ds. ds ! i = d \<and> broken es d (prove ds i))"
proof -
  obtain i where i: "i < length ds" "ds ! i = d" using assms(3) by (auto simp: in_set_conv_nth)
  then have "accept d (prove ds i) (commit es)" using complete [of i ds] assms(2) by simp
  with sound [OF assms(1)] i show ?thesis by blast
qed

end

definition epoch_root :: "hash \<Rightarrow> bytes list \<Rightarrow> bytes" where
  "epoch_root sha datas = root (build_levels sha (map (leaf_hash sha) datas))"

definition epoch_proof :: "hash \<Rightarrow> bytes list \<Rightarrow> nat \<Rightarrow> inclusion_proof" where
  "epoch_proof sha datas i =
     \<lparr>leaf_index = i, proof_leaf = map (leaf_hash sha) datas ! i,
      steps = proof_steps (butlast (build_levels sha (map (leaf_hash sha) datas))) i,
      proof_root = epoch_root sha datas\<rparr>"

definition accepts :: "hash \<Rightarrow> bytes \<Rightarrow> inclusion_proof \<Rightarrow> bytes \<Rightarrow> bool" where
  "accepts sha d pf rt \<longleftrightarrow>
     proof_leaf pf = leaf_hash sha d \<and> proof_root pf = rt \<and> verify_inclusion sha pf"

definition hash_broken :: "hash \<Rightarrow> bytes list \<Rightarrow> bytes \<Rightarrow> inclusion_proof \<Rightarrow> bool" where
  "hash_broken sha datas d pf \<longleftrightarrow>
     \<not> (\<forall>b. length (sha b) = 32) \<or>
     collision_on sha (insert (0 # d) (path_inputs sha (leaf_hash sha d) (steps pf))
       \<union> tree_inputs sha datas)"

interpretation epoch: accumulator "epoch_root sha" "epoch_proof sha" "accepts sha" "hash_broken sha"
  for sha
proof unfold_locales
  fix i :: nat and ds :: "bytes list"
  assume "i < length ds"
  then show "accepts sha (ds ! i) (epoch_proof sha ds i) (epoch_root sha ds)"
    using fold_proof_steps [of i "map (leaf_hash sha) ds" sha]
    by (simp add: accepts_def epoch_proof_def verify_inclusion_def epoch_root_def)
next
  fix ds :: "bytes list" and d :: bytes and pf :: inclusion_proof
  assume ds: "ds \<noteq> []" and acc: "accepts sha d pf (epoch_root sha ds)"
  then have "foldl (fold_step sha) (leaf_hash sha d) (steps pf) = mth sha (map (leaf_hash sha) ds)"
    by (auto simp: accepts_def verify_inclusion_def epoch_root_def root_is_mth)
  with ds show "d \<in> set ds \<or> hash_broken sha ds d pf"
    using verified_leaf_in_tree [of sha ds d "steps pf"] unfolding hash_broken_def by blast
qed

text \<open>The code's tree and proofs are these.\<close>

lemma inclusion_proof_for_eq:
  assumes "i < length datas"
  shows "inclusion_proof_for (build_levels sha (map (leaf_hash sha) datas)) (int i)
    = Inr (epoch_proof sha datas i)"
  using assms by (simp add: inclusion_proof_for_def leaf_count_def epoch_proof_def epoch_root_def)

lemma checkpoint_leaf_hash_eq:
  "checkpoint_leaf_hash sha cp = Inr h \<longleftrightarrow> (\<exists>b. canonicalize cp = Inr b \<and> h = leaf_hash sha b)"
  by (auto simp: checkpoint_leaf_hash_def split: sum.splits)

lemma checkpoint_leaf_hashes:
  "map (checkpoint_leaf_hash sha) cps = map Inr leaves \<Longrightarrow>
     \<exists>datas. map canonicalize cps = map Inr datas \<and> leaves = map (leaf_hash sha) datas"
proof (induction cps arbitrary: leaves)
  case (Cons cp cps)
  then obtain h leaves' where "leaves = h # leaves'" "checkpoint_leaf_hash sha cp = Inr h"
    "map (checkpoint_leaf_hash sha) cps = map Inr leaves'" by (cases leaves) auto
  with Cons.IH [of leaves'] show ?case
    by (auto simp: checkpoint_leaf_hash_eq) (metis list.simps(9))
qed auto

lemma build_epoch_tree_eq:
  "build_epoch_tree sha cps = Inr (r, proofs) \<longleftrightarrow>
     cps \<noteq> [] \<and> (\<exists>datas. map canonicalize cps = map Inr datas \<and> r = epoch_root sha datas \<and>
       proofs = map (epoch_proof sha datas) [0..<length cps])"
proof -
  have proofs: "map (\<lambda>i. inclusion_proof_for (build_levels sha (map (leaf_hash sha) datas)) (int i))
      [0..<length datas] = map Inr (map (epoch_proof sha datas) [0..<length datas])" for datas
    by (auto simp: inclusion_proof_for_eq)
  have lens: "length datas = length cps" if "map canonicalize cps = map Inr datas" for datas
    using that by (metis length_map)
  have seq: "rseq (map (\<lambda>i. inclusion_proof_for (build_levels sha (map (leaf_hash sha) datas)) (int i))
      [0..<length cps]) = Inr (map (epoch_proof sha datas) [0..<length cps])"
    if "map canonicalize cps = map Inr datas" for datas
    unfolding lens [OF that, symmetric] proofs by (rule rseq_map_Inr)
  have leaves: "map (checkpoint_leaf_hash sha) cps = map Inr (map (leaf_hash sha) datas)"
    if "map canonicalize cps = map Inr datas" for datas
    using that
  proof (induction cps arbitrary: datas)
    case (Cons cp cps)
    then show ?case by (cases datas) (auto simp: checkpoint_leaf_hash_def)
  qed auto
  show ?thesis
  proof
    assume l: "build_epoch_tree sha cps = Inr (r, proofs)"
    then obtain leaves where ne: "cps \<noteq> []" and h: "map (checkpoint_leaf_hash sha) cps = map Inr leaves"
      and t: "rbind (MerkleTree sha leaves) (\<lambda>tree. rmap (Pair (root tree))
            (rseq (map (\<lambda>i. inclusion_proof_for tree (int i)) [0..<length cps]))) = Inr (r, proofs)"
      by (auto simp: build_epoch_tree_def rbind_Inr_iff rseq_Inr_iff split: if_splits)
    from checkpoint_leaf_hashes [OF h] obtain datas where
      d: "map canonicalize cps = map Inr datas" "leaves = map (leaf_hash sha) datas" by blast
    with t lens [OF d(1)] ne show "cps \<noteq> [] \<and> (\<exists>datas. map canonicalize cps = map Inr datas \<and>
        r = epoch_root sha datas \<and> proofs = map (epoch_proof sha datas) [0..<length cps])"
      using seq [OF d(1)]
      by (auto simp: MerkleTree_def epoch_root_def split: if_splits intro!: exI [of _ datas])
  next
    assume "cps \<noteq> [] \<and> (\<exists>datas. map canonicalize cps = map Inr datas \<and>
        r = epoch_root sha datas \<and> proofs = map (epoch_proof sha datas) [0..<length cps])"
    then obtain datas where ne: "cps \<noteq> []" and d: "map canonicalize cps = map Inr datas"
      "r = epoch_root sha datas" "proofs = map (epoch_proof sha datas) [0..<length cps]" by blast
    have "rseq (map (checkpoint_leaf_hash sha) cps) = Inr (map (leaf_hash sha) datas)"
      using leaves [OF d(1)] by (simp add: rseq_Inr_iff)
    with seq [OF d(1)] show "build_epoch_tree sha cps = Inr (r, proofs)"
      using ne d(2,3) lens [OF d(1)] by (auto simp: build_epoch_tree_def MerkleTree_def epoch_root_def)
  qed
qed

section \<open>Properties\<close>

text \<open>
  C5: The level-wise construction, which promotes a lone node unchanged, computes exactly the
  tree hash RFC 6962 defines by splitting at the largest power of two below the number of leaves.
\<close>

theorem merkle_root_is_rfc6962:
  assumes "MerkleTree sha leaves = Inr tree"
  shows "root tree = mth sha leaves"
  using assms by (auto simp: MerkleTree_def root_is_mth split: if_splits)

theorem merkle_root_is_rfc6962_witness:
  "root (build_levels id [[1], [2], [3]]) = mth id [[1], [2], [3]]"
  by (rule merkle_root_is_rfc6962) (simp add: MerkleTree_def)

text \<open>
  Every proof an epoch tree hands out is for the checkpoint at its own position, names the
  epoch root, and verifies offline.
\<close>

theorem epoch_proofs_verify:
  assumes "build_epoch_tree sha cps = Inr (r, proofs)"
  shows "length proofs = length cps \<and>
    (\<forall>i<length cps. verify_inclusion sha (proofs ! i) \<and> proof_root (proofs ! i) = r
       \<and> leaf_index (proofs ! i) = i
       \<and> checkpoint_leaf_hash sha (cps ! i) = Inr (proof_leaf (proofs ! i)))"
proof -
  from assms obtain datas where
    d: "map canonicalize cps = map Inr datas" "r = epoch_root sha datas"
    "proofs = map (epoch_proof sha datas) [0..<length cps]" by (auto simp: build_epoch_tree_eq)
  have len: "length datas = length cps" using d(1) by (metis length_map)
  show ?thesis
  proof (intro conjI allI impI)
    fix i assume i: "i < length cps"
    with d(3) have p: "proofs ! i = epoch_proof sha datas i" by simp
    from epoch.complete [of i datas sha] i len have
      "accepts sha (datas ! i) (proofs ! i) r" by (simp add: p d(2))
    then show "verify_inclusion sha (proofs ! i)" "proof_root (proofs ! i) = r"
      by (auto simp: accepts_def)
    show "leaf_index (proofs ! i) = i" by (simp add: p epoch_proof_def)
    have "canonicalize (cps ! i) = Inr (datas ! i)" using d(1) i len by (metis nth_map)
    then show "checkpoint_leaf_hash sha (cps ! i) = Inr (proof_leaf (proofs ! i))"
      using i len by (simp add: p epoch_proof_def checkpoint_leaf_hash_eq)
  qed (simp add: d(3))
qed

theorem epoch_proofs_verify_witness:
  "verify_inclusion id
     (map (epoch_proof id [utf8 (u ''null''), utf8 (u ''true''), utf8 (u ''null'')]) [0..<3] ! 2)"
proof -
  let ?ds = "[utf8 (u ''null''), utf8 (u ''true''), utf8 (u ''null'')]"
  have "build_epoch_tree id [PNone, PBool True, PNone]
      = Inr (epoch_root id ?ds, map (epoch_proof id ?ds) [0..<3])"
    unfolding build_epoch_tree_eq
    by (intro conjI exI [of _ ?ds]) (simp_all add: canonicalize_def canonical_dumps_def numeral_3_eq_3)
  from epoch_proofs_verify [OF this] show ?thesis by simp
qed

text \<open>
  C4: A proof that verifies against an epoch root, for the leaf hash of a checkpoint document, is
  about a checkpoint of that epoch, or it exhibits a collision among the inputs hashed while
  building the tree and checking the proof. Hashing is only assumed to return 32 bytes.
\<close>

theorem epoch_inclusion_sound:
  assumes "\<forall>b. length (sha b) = 32"
    and "build_epoch_tree sha cps = Inr (r, proofs)" and "\<forall>cp\<in>set cps. pyval_ok cp"
    and "pyval_ok cp" and "canonicalize cp = Inr b" and "proof_leaf pf = leaf_hash sha b"
    and "proof_root pf = r" and "verify_inclusion sha pf"
  shows "(\<exists>cp'\<in>set cps. doc_of cp' = doc_of cp) \<or>
    (\<exists>datas. map canonicalize cps = map Inr datas \<and>
       collision_on sha (insert (0 # b) (path_inputs sha (leaf_hash sha b) (steps pf))
         \<union> tree_inputs sha datas))"
proof -
  from assms(2) obtain datas where ne: "cps \<noteq> []" and
    d: "map canonicalize cps = map Inr datas" "r = epoch_root sha datas"
    by (auto simp: build_epoch_tree_eq)
  have "datas \<noteq> []" using ne d(1) by auto
  moreover have "accepts sha b pf (epoch_root sha datas)"
    using assms(6-8) d(2) by (simp add: accepts_def)
  ultimately consider "b \<in> set datas" | "hash_broken sha datas b pf"
    using epoch.sound by blast
  then show ?thesis
  proof cases
    case 1
    then have "Inr b \<in> set (map canonicalize cps)" using d(1) by simp
    then obtain cp' where "cp' \<in> set cps" "canonicalize cp' = Inr b" by auto
    with assms(3-5) canonicalize_inject show ?thesis by blast
  next
    case 2
    with assms(1) d(1) show ?thesis by (auto simp: hash_broken_def)
  qed
qed

text \<open>A hash that pads or cuts to 32 bytes, for the witness.\<close>

definition pad_hash :: hash where
  "pad_hash b = take 32 (b @ replicate 32 0)"

lemma length_pad_hash [simp]: "length (pad_hash b) = 32"
  by (simp add: pad_hash_def)

theorem epoch_inclusion_sound_witness:
  "(\<exists>cp'\<in>set [PNone]. doc_of cp' = doc_of PNone) \<or>
    (\<exists>datas. map canonicalize [PNone] = map Inr datas \<and>
       collision_on pad_hash (insert (0 # utf8 (u ''null''))
         (path_inputs pad_hash (leaf_hash pad_hash (utf8 (u ''null'')))
           (steps (epoch_proof pad_hash [utf8 (u ''null'')] 0)))
         \<union> tree_inputs pad_hash datas))"
  by (rule epoch_inclusion_sound [where r = "epoch_root pad_hash [utf8 (u ''null'')]"
        and proofs = "[epoch_proof pad_hash [utf8 (u ''null'')] 0]"])
    (simp_all add: build_epoch_tree_eq canonicalize_def canonical_dumps_def
      epoch_proof_def verify_inclusion_def build_levels_unfold epoch_root_def root_build_levels
      root_def exI [of _ "[utf8 (u ''null'')]"])

end
