(* ===== verification/Schema.thy ===== *)
theory Schema
  imports Canonical_Doc
begin

text \<open>
  \<open>recorder/schema.py\<close>: the event record of the recorder, its plain-JSON form and the digest taken
  over it. A digest commits to every field of the event that its schema version has
  (\<open>event_digest_binding\<close>).
\<close>

section \<open>The event\<close>

definition EVENT_SCHEMA_VERSION_V1 :: pystr where
  "EVENT_SCHEMA_VERSION_V1 = u ''1''"

definition EVENT_SCHEMA_VERSION :: pystr where
  "EVENT_SCHEMA_VERSION = u ''2''"

datatype event_kind =
    TOOL_USE | TOOL_RESULT | MESSAGE | API_ERROR | RECORD_FAILURE | SESSION_START
  | STREAM_ABORTED | PARSE_FAILURE | KEY_ROTATED | MANDATE_VERDICT | GUARDRAIL_INTERVENTION

fun kind_value :: "event_kind \<Rightarrow> pystr" where
  "kind_value TOOL_USE = u ''tool_use''"
| "kind_value TOOL_RESULT = u ''tool_result''"
| "kind_value MESSAGE = u ''message''"
| "kind_value API_ERROR = u ''api_error''"
| "kind_value RECORD_FAILURE = u ''record_failure''"
| "kind_value SESSION_START = u ''session_start''"
| "kind_value STREAM_ABORTED = u ''stream_aborted''"
| "kind_value PARSE_FAILURE = u ''parse_failure''"
| "kind_value KEY_ROTATED = u ''key_rotated''"
| "kind_value MANDATE_VERDICT = u ''mandate_verdict''"
| "kind_value GUARDRAIL_INTERVENTION = u ''guardrail_intervention''"

record agent_event =
  ev_schema_version :: pystr
  ev_event_id :: pystr
  ev_device_id :: pystr
  ev_session_id :: pystr
  ev_seq :: int
  ev_kind :: pystr
  ev_ts_device :: pystr
  ev_ts_monotonic_ns :: int
  ev_tool_use_id :: "pystr option"
  ev_tool_name :: "pystr option"
  ev_payload :: pyval
  ev_payload_hash :: pystr
  ev_model :: "pystr option"
  ev_provider :: pystr
  ev_trace_id :: pystr
  ev_span_id :: pystr
  ev_parent_span_id :: "pystr option"
  ev_continues_from :: "pystr option"

definition opt_str :: "pystr option \<Rightarrow> pyval" where
  "opt_str x = (case x of None \<Rightarrow> PNone | Some s \<Rightarrow> PStr s)"

text \<open>The dataclass fields in declaration order, and the four that exist from version 2 on.\<close>

definition field_values :: "agent_event \<Rightarrow> (pystr \<times> pyval) list" where
  "field_values e =
    [(u ''schema_version'', PStr (ev_schema_version e)),
     (u ''event_id'', PStr (ev_event_id e)),
     (u ''device_id'', PStr (ev_device_id e)),
     (u ''session_id'', PStr (ev_session_id e)),
     (u ''seq'', PInt (ev_seq e)),
     (u ''kind'', PStr (ev_kind e)),
     (u ''ts_device'', PStr (ev_ts_device e)),
     (u ''ts_monotonic_ns'', PInt (ev_ts_monotonic_ns e)),
     (u ''tool_use_id'', opt_str (ev_tool_use_id e)),
     (u ''tool_name'', opt_str (ev_tool_name e)),
     (u ''payload'', ev_payload e),
     (u ''payload_hash'', PStr (ev_payload_hash e)),
     (u ''model'', opt_str (ev_model e)),
     (u ''provider'', PStr (ev_provider e)),
     (u ''trace_id'', PStr (ev_trace_id e)),
     (u ''span_id'', PStr (ev_span_id e)),
     (u ''parent_span_id'', opt_str (ev_parent_span_id e)),
     (u ''continues_from'', opt_str (ev_continues_from e))]"

definition V2_ONLY_FIELDS :: "pystr list" where
  "V2_ONLY_FIELDS =
     [u ''trace_id'', u ''span_id'', u ''parent_span_id'', u ''continues_from'']"

definition field_names :: "pystr list" where
  "field_names =
    [u ''schema_version'', u ''event_id'', u ''device_id'', u ''session_id'', u ''seq'', u ''kind'',
     u ''ts_device'', u ''ts_monotonic_ns'', u ''tool_use_id'', u ''tool_name'', u ''payload'',
     u ''payload_hash'', u ''model'', u ''provider'', u ''trace_id'', u ''span_id'',
     u ''parent_span_id'', u ''continues_from'']"

definition event_items :: "agent_event \<Rightarrow> (pystr \<times> pyval) list" where
  "event_items e =
     (if ev_schema_version e = EVENT_SCHEMA_VERSION_V1
      then filter (\<lambda>(k, _). k \<notin> set V2_ONLY_FIELDS) (field_values e)
      else field_values e)"

definition dict_of :: "(pystr \<times> pyval) list \<Rightarrow> pyval" where
  "dict_of items = PDict (map (\<lambda>(k, v). (KStr k, v)) items)"

definition to_dict :: "agent_event \<Rightarrow> pyval" where
  "to_dict e = dict_of (event_items e)"

text \<open>
  \<open>from_dict\<close> checks the names and hands the values over untouched, whatever their types: an
  instance is the map from its field names to the values given. \<open>sorted\<close> on names is code-point
  order.
\<close>

datatype schema_error = MissingFields "pystr list" | UnknownFields "pystr list"

definition from_dict :: "(pystr \<times> pyval) list \<Rightarrow> schema_error + (pystr \<times> pyval) list" where
  "from_dict data =
     (let is_v1 = (map_of data (u ''schema_version'') = Some (PStr EVENT_SCHEMA_VERSION_V1));
          expected = (if is_v1 then filter (\<lambda>n. n \<notin> set V2_ONLY_FIELDS) field_names else field_names);
          missing = filter (\<lambda>n. n \<notin> fst ` set data) expected;
          unknown = filter (\<lambda>n. n \<notin> set expected) (map fst data);
          kwargs = map (\<lambda>n. (n, the (map_of data n))) expected
      in if missing \<noteq> [] then Inl (MissingFields (sort missing))
         else if unknown \<noteq> [] then Inl (UnknownFields (sort unknown))
         else Inr (if is_v1
                   then kwargs @ [(u ''trace_id'', PStr []), (u ''span_id'', PStr []),
                                  (u ''parent_span_id'', PNone), (u ''continues_from'', PNone)]
                   else kwargs))"

definition event_digest :: "hash \<Rightarrow> agent_event \<Rightarrow> canon_error + pystr" where
  "event_digest sha e = rmap (sha256_hex sha) (canonicalize (to_dict e))"

section \<open>Reading a document back\<close>

lemma sha256_hex_inject [simp]: "sha256_hex sha a = sha256_hex sha b \<longleftrightarrow> sha a = sha b"
  by (auto simp: sha256_hex_def dest: hex_inject)

lemma hex_chars: "c \<in> set (hex bs) \<Longrightarrow> (48 \<le> c \<and> c \<le> 57) \<or> (97 \<le> c \<and> c \<le> 102)"
proof -
  have digit: "(48 \<le> hex_digit n \<and> hex_digit n \<le> 57) \<or> (97 \<le> hex_digit n \<and> hex_digit n \<le> 102)"
    if "n < 16" for n using that by (auto simp: hex_digit_def)
  have "unat b div 16 < 16" "unat b mod 16 < 16" for b :: byte
    using unsigned_less [of b, where 'a = nat] by auto
  note nibbles = this [THEN digit]
  assume "c \<in> set (hex bs)"
  then obtain b :: byte where "c = hex_digit (unat b div 16) \<or> c = hex_digit (unat b mod 16)"
    by (auto simp: hex_def hex_byte_def)
  then show ?thesis using nibbles [of b] by auto
qed

lemma sha256_hex_ok [simp]: "str_ok (sha256_hex sha b)" "clean (sha256_hex sha b)"
  by (auto simp: sha256_hex_def str_ok_def clean_def list_all_iff u_def surrogate_def
      dest!: hex_chars)

definition doc_map :: "doc \<Rightarrow> pystr \<Rightarrow> doc option" where
  "doc_map d = (case d of DObj kds \<Rightarrow> map_of kds | _ \<Rightarrow> Map.empty)"

lemma map_of_sort_key:
  assumes "distinct (map fst xs)"
  shows "map_of (sort_key f xs) = map_of xs"
proof
  fix k
  have "mset (map fst (sort_key f xs)) = mset (map fst xs)" by (simp only: mset_map mset_sort)
  then have "distinct (map fst (sort_key f xs))" using assms by (metis mset_eq_imp_distinct_iff)
  then have "map_of (sort_key f xs) k = Some v \<longleftrightarrow> map_of xs k = Some v" for v
    using assms by (simp add: map_of_eq_Some_iff)
  then show "map_of (sort_key f xs) k = map_of xs k" by (metis option.exhaust)
qed

lemma doc_map_dict_of:
  assumes "distinct (map fst items)"
  shows "doc_map (doc_of (dict_of items)) = map_of (map (\<lambda>(k, v). (k, doc_of v)) items)"
proof -
  have "doc_of (dict_of items) =
      DObj (sort_key (\<lambda>kd. utf16 (fst kd)) (map (\<lambda>(k, v). (k, doc_of v)) items))"
    by (simp add: dict_of_def key_of_def split_def o_def)
  moreover have "distinct (map fst (map (\<lambda>(k, v). (k, doc_of v)) items))"
    using assms by (simp add: split_def o_def)
  ultimately show ?thesis by (simp only: doc_map_def doc.case map_of_sort_key)
qed

lemma pyval_ok_dict_of:
  "pyval_ok (dict_of items) \<longleftrightarrow> (\<forall>(k, v)\<in>set items. str_ok k \<and> pyval_ok v)"
  by (auto simp: dict_of_def list_all_iff key_of_def split_def)

lemma opt_str_doc [simp]: "doc_of (opt_str a) = doc_of (opt_str b) \<longleftrightarrow> a = b"
  by (auto simp: opt_str_def split: option.splits)

lemma int_str_iff [simp]: "int_str i = int_str j \<longleftrightarrow> i = j"
  using int_str_inject by blast

section \<open>What an event's document says\<close>

definition same_event :: "agent_event \<Rightarrow> agent_event \<Rightarrow> bool" where
  "same_event e f \<longleftrightarrow>
     ev_schema_version e = ev_schema_version f \<and> ev_event_id e = ev_event_id f
     \<and> ev_device_id e = ev_device_id f \<and> ev_session_id e = ev_session_id f
     \<and> ev_seq e = ev_seq f \<and> ev_kind e = ev_kind f \<and> ev_ts_device e = ev_ts_device f
     \<and> ev_ts_monotonic_ns e = ev_ts_monotonic_ns f \<and> ev_tool_use_id e = ev_tool_use_id f
     \<and> ev_tool_name e = ev_tool_name f \<and> doc_of (ev_payload e) = doc_of (ev_payload f)
     \<and> ev_payload_hash e = ev_payload_hash f \<and> ev_model e = ev_model f
     \<and> ev_provider e = ev_provider f
     \<and> (ev_schema_version e = EVENT_SCHEMA_VERSION_V1 \<or>
          ev_trace_id e = ev_trace_id f \<and> ev_span_id e = ev_span_id f
          \<and> ev_parent_span_id e = ev_parent_span_id f \<and> ev_continues_from e = ev_continues_from f)"

lemma distinct_event_items: "distinct (map fst (event_items e))"
  by (simp add: event_items_def field_values_def V2_ONLY_FIELDS_def)

lemma doc_map_event:
  "doc_map (doc_of (to_dict e)) = map_of (map (\<lambda>(k, v). (k, doc_of v)) (event_items e))"
  unfolding to_dict_def by (rule doc_map_dict_of [OF distinct_event_items])

lemma event_doc_lookup:
  "doc_map (doc_of (to_dict e)) (u ''schema_version'') = Some (DStr (ev_schema_version e))"
  "doc_map (doc_of (to_dict e)) (u ''event_id'') = Some (DStr (ev_event_id e))"
  "doc_map (doc_of (to_dict e)) (u ''device_id'') = Some (DStr (ev_device_id e))"
  "doc_map (doc_of (to_dict e)) (u ''session_id'') = Some (DStr (ev_session_id e))"
  "doc_map (doc_of (to_dict e)) (u ''seq'') = Some (DNum (int_str (ev_seq e)))"
  "doc_map (doc_of (to_dict e)) (u ''kind'') = Some (DStr (ev_kind e))"
  "doc_map (doc_of (to_dict e)) (u ''ts_device'') = Some (DStr (ev_ts_device e))"
  "doc_map (doc_of (to_dict e)) (u ''ts_monotonic_ns'') = Some (DNum (int_str (ev_ts_monotonic_ns e)))"
  "doc_map (doc_of (to_dict e)) (u ''tool_use_id'') = Some (doc_of (opt_str (ev_tool_use_id e)))"
  "doc_map (doc_of (to_dict e)) (u ''tool_name'') = Some (doc_of (opt_str (ev_tool_name e)))"
  "doc_map (doc_of (to_dict e)) (u ''payload'') = Some (doc_of (ev_payload e))"
  "doc_map (doc_of (to_dict e)) (u ''payload_hash'') = Some (DStr (ev_payload_hash e))"
  "doc_map (doc_of (to_dict e)) (u ''model'') = Some (doc_of (opt_str (ev_model e)))"
  "doc_map (doc_of (to_dict e)) (u ''provider'') = Some (DStr (ev_provider e))"
  unfolding doc_map_event by (simp_all add: event_items_def field_values_def V2_ONLY_FIELDS_def)

lemma event_doc_lookup_v2:
  assumes "ev_schema_version e \<noteq> EVENT_SCHEMA_VERSION_V1"
  shows "doc_map (doc_of (to_dict e)) (u ''trace_id'') = Some (DStr (ev_trace_id e))"
    "doc_map (doc_of (to_dict e)) (u ''span_id'') = Some (DStr (ev_span_id e))"
    "doc_map (doc_of (to_dict e)) (u ''parent_span_id'') = Some (doc_of (opt_str (ev_parent_span_id e)))"
    "doc_map (doc_of (to_dict e)) (u ''continues_from'') = Some (doc_of (opt_str (ev_continues_from e)))"
  unfolding doc_map_event using assms by (simp_all add: event_items_def field_values_def)

lemma same_doc_same_event:
  assumes "doc_of (to_dict e) = doc_of (to_dict f)"
  shows "same_event e f"
proof -
  note e = event_doc_lookup [of e, unfolded assms]
  have core: "ev_schema_version e = ev_schema_version f" "ev_event_id e = ev_event_id f"
    "ev_device_id e = ev_device_id f" "ev_session_id e = ev_session_id f" "ev_seq e = ev_seq f"
    "ev_kind e = ev_kind f" "ev_ts_device e = ev_ts_device f"
    "ev_ts_monotonic_ns e = ev_ts_monotonic_ns f" "ev_tool_use_id e = ev_tool_use_id f"
    "ev_tool_name e = ev_tool_name f" "doc_of (ev_payload e) = doc_of (ev_payload f)"
    "ev_payload_hash e = ev_payload_hash f" "ev_model e = ev_model f" "ev_provider e = ev_provider f"
    using e unfolding event_doc_lookup [of f] by simp_all
  show ?thesis
  proof (cases "ev_schema_version e = EVENT_SCHEMA_VERSION_V1")
    case False
    then have v2: "ev_schema_version f \<noteq> EVENT_SCHEMA_VERSION_V1" using core by simp
    note t = event_doc_lookup_v2 [OF False, unfolded assms]
    have "ev_trace_id e = ev_trace_id f" "ev_span_id e = ev_span_id f"
      "ev_parent_span_id e = ev_parent_span_id f" "ev_continues_from e = ev_continues_from f"
      using t unfolding event_doc_lookup_v2 [OF v2] by simp_all
    with core show ?thesis by (simp add: same_event_def)
  qed (use core in \<open>simp add: same_event_def\<close>)
qed

definition event_ok :: "agent_event \<Rightarrow> bool" where
  "event_ok e \<longleftrightarrow> pyval_ok (to_dict e)"

lemma event_digest_Inr:
  "event_digest sha e = Inr d \<longleftrightarrow> (\<exists>b. canonicalize (to_dict e) = Inr b \<and> d = sha256_hex sha b)"
  by (auto simp: event_digest_def rmap_Inr_iff)

lemma event_digest_inject:
  assumes "event_ok e" "event_ok f" "canonicalize (to_dict e) = Inr b" "canonicalize (to_dict f) = Inr c"
    and "event_digest sha e = event_digest sha f"
  shows "same_event e f \<or> collision_on sha {b, c}"
proof -
  have "sha b = sha c" using assms(3-5) by (simp add: event_digest_def)
  then consider "b = c" | "collision_on sha {b, c}" using sha_cases [of sha b c "{b, c}"] by auto
  then show ?thesis
  proof cases
    case 1
    with assms canonicalize_inject [of "to_dict e" "to_dict f" b]
    show ?thesis by (auto simp: event_ok_def intro: same_doc_same_event)
  qed simp
qed

lemma map_fst_event_items:
  "map fst (event_items e) =
     (if ev_schema_version e = EVENT_SCHEMA_VERSION_V1
      then filter (\<lambda>n. n \<notin> set V2_ONLY_FIELDS) field_names else field_names)"
  by (simp add: event_items_def field_values_def field_names_def V2_ONLY_FIELDS_def)

lemma map_of_event_version:
  "map_of (event_items e) (u ''schema_version'') = Some (PStr (ev_schema_version e))"
  by (simp add: event_items_def field_values_def V2_ONLY_FIELDS_def)

lemma lookup_own_keys:
  "distinct (map fst xs) \<Longrightarrow> map (\<lambda>n. (n, the (map_of xs n))) (map fst xs) = xs"
  by (auto simp: o_def intro!: map_idI)

lemma event_items_v1:
  "ev_schema_version e = EVENT_SCHEMA_VERSION_V1 \<Longrightarrow>
   field_values (e\<lparr>ev_trace_id := [], ev_span_id := [], ev_parent_span_id := None, ev_continues_from := None\<rparr>)
     = event_items e @ [(u ''trace_id'', PStr []), (u ''span_id'', PStr []),
                        (u ''parent_span_id'', PNone), (u ''continues_from'', PNone)]"
  by (simp add: event_items_def field_values_def V2_ONLY_FIELDS_def opt_str_def)

lemma from_dict_complete:
  assumes "E = (if map_of data (u ''schema_version'') = Some (PStr EVENT_SCHEMA_VERSION_V1)
                then filter (\<lambda>n. n \<notin> set V2_ONLY_FIELDS) field_names else field_names)"
    and "set E = fst ` set data"
  shows "from_dict data = Inr
     (map (\<lambda>n. (n, the (map_of data n))) E @
       (if map_of data (u ''schema_version'') = Some (PStr EVENT_SCHEMA_VERSION_V1)
        then [(u ''trace_id'', PStr []), (u ''span_id'', PStr []),
              (u ''parent_span_id'', PNone), (u ''continues_from'', PNone)] else []))"
proof -
  have "filter (\<lambda>n. n \<notin> fst ` set data) E = []" "filter (\<lambda>n. n \<notin> set E) (map fst data) = []"
    using assms(2) by (auto simp: filter_empty_conv)
  then show ?thesis unfolding from_dict_def assms(1) [symmetric] Let_def by simp
qed

lemma from_dict_incomplete:
  assumes "E = (if map_of data (u ''schema_version'') = Some (PStr EVENT_SCHEMA_VERSION_V1)
                then filter (\<lambda>n. n \<notin> set V2_ONLY_FIELDS) field_names else field_names)"
    and "set E \<noteq> fst ` set data"
  shows "\<exists>err. from_dict data = Inl err"
proof -
  have "filter (\<lambda>n. n \<notin> fst ` set data) E \<noteq> [] \<or> filter (\<lambda>n. n \<notin> set E) (map fst data) \<noteq> []"
    using assms(2) unfolding filter_empty_conv by auto
  then show ?thesis unfolding from_dict_def assms(1) [symmetric] Let_def by auto
qed

section \<open>Properties\<close>

text \<open>
  The event digest commits to the event: equal digests mean the two events agree in every field
  their schema version has (the payload up to its JSON document), or the two canonical byte strings
  that were hashed are a collision.
\<close>

theorem event_digest_binding:
  assumes "event_ok e" "event_ok f" "canonicalize (to_dict e) = Inr b" "canonicalize (to_dict f) = Inr c"
    and "event_digest sha e = event_digest sha f"
  shows "same_event e f \<or> collision_on sha {b, c}"
  using assms by (rule event_digest_inject)

definition sample_event :: agent_event where
  "sample_event =
     \<lparr>ev_schema_version = [50], ev_event_id = [49], ev_device_id = [100], ev_session_id = [115],
      ev_seq = 1, ev_kind = u ''message'', ev_ts_device = [116], ev_ts_monotonic_ns = 7,
      ev_tool_use_id = None, ev_tool_name = None, ev_payload = PDict [], ev_payload_hash = [104],
      ev_model = None, ev_provider = [112], ev_trace_id = [], ev_span_id = [],
      ev_parent_span_id = None, ev_continues_from = None\<rparr>"

lemma sample_event_ok: "event_ok (sample_event\<lparr>ev_seq := i\<rparr>)"
  by (simp add: event_ok_def to_dict_def pyval_ok_dict_of sample_event_def event_items_def
      field_values_def opt_str_def u_def EVENT_SCHEMA_VERSION_V1_def)

lemma to_dict_succeeds_aux:
  "jsonable (to_dict (sample_event\<lparr>ev_seq := i\<rparr>))"
  by (simp add: to_dict_def dict_of_def sample_event_def event_items_def field_values_def
      opt_str_def clean_def u_def EVENT_SCHEMA_VERSION_V1_def surrogate_def)

lemma jsonable_canonicalize: "jsonable v \<Longrightarrow> \<exists>b. canonicalize v = Inr b"
  using serialize_succeeds_aux [of v] by (auto simp: canonicalize_def canonical_dumps_def)

theorem event_digest_binding_witness:
  "\<exists>b. same_event (sample_event\<lparr>ev_seq := 3\<rparr>) (sample_event\<lparr>ev_seq := 3\<rparr>) \<or> collision_on id {b, b}"
proof -
  obtain b where b: "canonicalize (to_dict (sample_event\<lparr>ev_seq := 3\<rparr>)) = Inr b"
    using jsonable_canonicalize [OF to_dict_succeeds_aux] by blast
  show ?thesis
    using event_digest_binding [OF sample_event_ok sample_event_ok b b refl, of id] by blast
qed

text \<open>
  \<open>from_dict\<close> undoes \<open>to_dict\<close>: read back, the plain form of an event gives the attributes of
  that event, and a version 1 event comes back with inert trace attributes.
\<close>

theorem from_dict_to_dict:
  "from_dict (event_items e) = Inr (field_values
     (if ev_schema_version e = EVENT_SCHEMA_VERSION_V1
      then e\<lparr>ev_trace_id := [], ev_span_id := [], ev_parent_span_id := None, ev_continues_from := None\<rparr>
      else e))"
proof -
  have keys: "set (map fst (event_items e)) = fst ` set (event_items e)" by simp
  have "map fst (event_items e) =
      (if map_of (event_items e) (u ''schema_version'') = Some (PStr EVENT_SCHEMA_VERSION_V1)
       then filter (\<lambda>n. n \<notin> set V2_ONLY_FIELDS) field_names else field_names)"
    unfolding map_of_event_version by (simp only: option.inject pyval.inject map_fst_event_items)
  note read = from_dict_complete [OF this keys]
  show ?thesis
  proof (cases "ev_schema_version e = EVENT_SCHEMA_VERSION_V1")
    case True
    with read show ?thesis
      unfolding lookup_own_keys [OF distinct_event_items]
      by (simp add: map_of_event_version event_items_v1)
  next
    case False
    then have "event_items e = field_values e" by (simp add: event_items_def)
    with read False show ?thesis
      unfolding lookup_own_keys [OF distinct_event_items]
      using map_of_event_version [of e] by simp
  qed
qed

text \<open>
  \<open>from_dict\<close> accepts a mapping exactly when its keys are the fields of its schema version:
  nothing missing, nothing unknown.
\<close>

theorem from_dict_accepts_iff:
  "(\<exists>attrs. from_dict data = Inr attrs) \<longleftrightarrow>
     fst ` set data =
       (if map_of data (u ''schema_version'') = Some (PStr EVENT_SCHEMA_VERSION_V1)
        then set field_names - set V2_ONLY_FIELDS else set field_names)"
proof -
  define E where "E = (if map_of data (u ''schema_version'') = Some (PStr EVENT_SCHEMA_VERSION_V1)
                then filter (\<lambda>n. n \<notin> set V2_ONLY_FIELDS) field_names else field_names)"
  have "set E = (if map_of data (u ''schema_version'') = Some (PStr EVENT_SCHEMA_VERSION_V1)
        then set field_names - set V2_ONLY_FIELDS else set field_names)"
    by (auto simp: E_def)
  moreover have "(\<exists>attrs. from_dict data = Inr attrs) \<longleftrightarrow> set E = fst ` set data"
    using from_dict_complete [OF E_def] from_dict_incomplete [OF E_def] by fastforce
  ultimately show ?thesis by auto
qed

end
