(* ===== verification/Chain.thy ===== *)
theory Chain
  imports Prelude
begin

text \<open>
  The interface of a hash chain: a link function over (previous hash, sequence number, digest) that
  commits to its three arguments. The writer (\<open>recorder/ledger.py\<close>) and the offline verifier
  (\<open>recorder/verify.py\<close>) share one link function, and the facts proved here once are what the
  chain gives both: its head determines everything before it.
\<close>

fun linked :: "('h \<Rightarrow> int \<Rightarrow> 'd \<Rightarrow> 'e + 'h) \<Rightarrow> 'h \<Rightarrow> int \<Rightarrow> ('d \<times> 'h) list \<Rightarrow> bool" where
  "linked link prev n [] \<longleftrightarrow> True"
| "linked link prev n ((d, h) # xs) \<longleftrightarrow> link prev n d = Inr h \<and> linked link h (n + 1) xs"

definition chain_head :: "'h \<Rightarrow> ('d \<times> 'h) list \<Rightarrow> 'h" where
  "chain_head g xs = (if xs = [] then g else snd (last xs))"

fun link_inputs :: "'h \<Rightarrow> int \<Rightarrow> ('d \<times> 'h) list \<Rightarrow> ('h \<times> int \<times> 'd) set" where
  "link_inputs prev n [] = {}"
| "link_inputs prev n ((d, h) # xs) = insert (prev, n, d) (link_inputs h (n + 1) xs)"

lemma chain_head_simps [simp]:
  "chain_head g [] = g" "chain_head g (xs @ [x]) = snd x"
  "chain_head g ((d, h) # xs) = chain_head h xs"
  by (auto simp: chain_head_def)

lemma linked_append:
  "linked link g n (xs @ ys) \<longleftrightarrow>
     linked link g n xs \<and> linked link (chain_head g xs) (n + int (length xs)) ys"
  by (induction link g n xs rule: linked.induct) (auto simp: algebra_simps)

lemma linked_snoc:
  "linked link g n (xs @ [(d, h)]) \<longleftrightarrow>
     linked link g n xs \<and> link (chain_head g xs) (n + int (length xs)) d = Inr h"
  by (simp add: linked_append)

lemma link_inputs_append:
  "link_inputs g n (xs @ ys) =
     link_inputs g n xs \<union> link_inputs (chain_head g xs) (n + int (length xs)) ys"
  by (induction g n xs rule: link_inputs.induct) (auto simp: algebra_simps)

lemma linked_take: "linked link g n xs \<Longrightarrow> linked link g n (take k xs)"
  using linked_append [of link g n "take k xs" "drop k xs"] by simp

locale hash_chain =
  fixes link :: "'h \<Rightarrow> int \<Rightarrow> 'd \<Rightarrow> 'e + 'h"
    and hash_ok :: "'h \<Rightarrow> bool"
    and digest_ok :: "'d \<Rightarrow> bool"
    and broken :: "('h \<times> int \<times> 'd) set \<Rightarrow> bool"
  assumes link_binding:
      "link p s d = Inr h \<Longrightarrow> link q t e = Inr h \<Longrightarrow>
       hash_ok p \<Longrightarrow> hash_ok q \<Longrightarrow> digest_ok d \<Longrightarrow> digest_ok e \<Longrightarrow>
       (p, s, d) = (q, t, e) \<or> broken {(p, s, d), (q, t, e)}"
    and link_ok: "link p s d = Inr h \<Longrightarrow> hash_ok h"
    and broken_mono: "broken A \<Longrightarrow> A \<subseteq> B \<Longrightarrow> broken B"
begin

lemma head_ok: "linked link g n xs \<Longrightarrow> hash_ok g \<Longrightarrow> hash_ok (chain_head g xs)"
proof (induction xs arbitrary: g n)
  case (Cons x xs)
  then show ?case by (cases x) (auto dest: link_ok)
qed simp

text \<open>Two chains from one genesis with one head are one chain.\<close>

lemma head_determines_chain:
  assumes "linked link g n xs" "linked link g n ys" "hash_ok g"
    and "xs \<noteq> []" "ys \<noteq> []" "chain_head g xs = chain_head g ys"
    and "\<forall>x\<in>set xs. digest_ok (fst x)" "\<forall>y\<in>set ys. digest_ok (fst y)"
  shows "xs = ys \<or> broken (link_inputs g n xs \<union> link_inputs g n ys)"
  using assms
proof (induction xs arbitrary: ys rule: rev_induct)
  case (snoc x xs)
  obtain d h where x: "x = (d, h)" by (cases x)
  obtain ys' y where ys: "ys = ys' @ [y]" using snoc.prems(5) by (cases ys rule: rev_cases) auto
  obtain e k where y: "y = (e, k)" by (cases y)
  let ?p = "chain_head g xs" and ?q = "chain_head g ys'"
  let ?s = "n + int (length xs)" and ?t = "n + int (length ys')"
  have hk: "h = k" using snoc.prems(6) x ys y by simp
  have lx: "linked link g n xs" "link ?p ?s d = Inr h"
    using snoc.prems(1) by (auto simp: x linked_snoc)
  have ly: "linked link g n ys'" "link ?q ?t e = Inr h"
    using snoc.prems(2) by (auto simp: ys y linked_snoc hk)
  have ok: "digest_ok d" "digest_ok e" using snoc.prems(7,8) by (auto simp: x ys y)
  let ?I = "link_inputs g n (xs @ [x]) \<union> link_inputs g n ys"
  have mem: "{(?p, ?s, d), (?q, ?t, e)} \<subseteq> ?I"
    by (auto simp: link_inputs_append x ys y)
  consider "broken ?I" | "?p = ?q" "?s = ?t" "d = e"
    using link_binding [OF lx(2) ly(2) head_ok [OF lx(1) snoc.prems(3)] head_ok [OF ly(1) snoc.prems(3)] ok]
      broken_mono [OF _ mem] by auto
  then show ?case
  proof cases
    case 2
    then have len: "length xs = length ys'" by simp
    show ?thesis
    proof (cases "xs = []")
      case True
      with len 2 hk show ?thesis by (simp add: x ys y)
    next
      case False
      with len have "ys' \<noteq> []" by auto
      from snoc.IH [OF lx(1) ly(1) snoc.prems(3) False this 2(1)] snoc.prems(7,8) ys
      have "xs = ys' \<or> broken (link_inputs g n xs \<union> link_inputs g n ys')" by auto
      then show ?thesis
      proof
        assume "broken (link_inputs g n xs \<union> link_inputs g n ys')"
        then have "broken ?I" by (rule broken_mono) (auto simp: link_inputs_append ys)
        then show ?thesis ..
      qed (use 2 hk in \<open>simp add: x ys y\<close>)
    qed
  qed blast
qed simp

text \<open>One common hash at a position fixes the chain up to there.\<close>

lemma common_hash_common_prefix:
  assumes "linked link g n xs" "linked link g n ys" "hash_ok g"
    and "k < length xs" "k < length ys" "snd (xs ! k) = snd (ys ! k)"
    and "\<forall>x\<in>set xs. digest_ok (fst x)" "\<forall>y\<in>set ys. digest_ok (fst y)"
  shows "take (Suc k) xs = take (Suc k) ys \<or> broken (link_inputs g n xs \<union> link_inputs g n ys)"
proof -
  have head: "chain_head g (take (Suc k) zs) = snd (zs ! k)" if "k < length zs" for zs :: "('d \<times> 'h) list"
    using that by (simp add: take_Suc_conv_app_nth)
  have sub: "link_inputs g n (take (Suc k) zs) \<subseteq> link_inputs g n zs" for zs :: "('d \<times> 'h) list"
    using link_inputs_append [of g n "take (Suc k) zs" "drop (Suc k) zs"] by simp
  have "take (Suc k) xs = take (Suc k) ys
      \<or> broken (link_inputs g n (take (Suc k) xs) \<union> link_inputs g n (take (Suc k) ys))"
    using assms by (intro head_determines_chain linked_take)
      (auto simp: head dest: in_set_takeD)
  moreover have "link_inputs g n (take (Suc k) xs) \<union> link_inputs g n (take (Suc k) ys)
      \<subseteq> link_inputs g n xs \<union> link_inputs g n ys"
    using sub by blast
  ultimately show ?thesis using broken_mono by blast
qed

end

end
