(* ===== verification/Ledger.thy ===== *)
theory Ledger
  imports Schema Chain
begin

text \<open>
  \<open>recorder/ledger.py\<close>: the hash-chained, append-only event ledger of one device. \<open>ledger\<close> is the
  in-memory object, \<open>ledger_db\<close> the SQLite file it writes; every operation takes and returns both.
  SQLite is represented by its tables and the constraints the code relies on (PRIMARY KEY and
  UNIQUE); whether a statement fails is an input (\<open>io_fault\<close>), so every failure path of the code
  is a branch. Fresh identifiers, clock readings and the texts of exceptions are inputs too.
\<close>

section \<open>Tables and objects\<close>

definition GENESIS_PREV_HASH :: pystr where
  "GENESIS_PREV_HASH = u ''sha256:'' @ replicate 64 48"

definition RECORD_FAILURE_SESSION_ID :: pystr where
  "RECORD_FAILURE_SESSION_ID = u ''_record_failure''"

record lrow =
  row_seq :: int
  row_event_id :: pystr
  row_schema_version :: pystr
  row_device_id :: pystr
  row_session_id :: pystr
  row_kind :: pystr
  row_ts_device :: pystr
  row_ts_monotonic_ns :: int
  row_tool_use_id :: "pystr option"
  row_tool_name :: "pystr option"
  row_payload :: pystr
  row_payload_hash :: pystr
  row_model :: "pystr option"
  row_provider :: pystr
  row_event_digest :: pystr
  row_prev_hash :: pystr
  row_entry_hash :: pystr
  row_trace_id :: "pystr option"
  row_span_id :: "pystr option"
  row_parent_span_id :: "pystr option"
  row_continues_from :: "pystr option"

record cp_row =
  cp_seq_end :: int
  cp_device_id :: pystr
  cp_seq_start :: int
  cp_chain_head :: pystr
  cp_ts_device :: pystr
  cp_sig :: pystr
  cp_body :: pystr

record sync_row =
  synced_up_to_seq :: int
  synced_checkpoint_up_to_seq :: int
  synced_attestation_up_to_seq :: int
  sync_updated_at :: pystr

record ledger_db =
  events :: "lrow list"
  checkpoints :: "cp_row list"
  sync_state :: "sync_row option"

record failure =
  f_event_id :: pystr
  f_kind :: pystr
  f_session_id :: pystr
  f_tool_use_id :: "pystr option"
  f_error :: pystr
  f_ts_device :: pystr

record ledger =
  l_device_id :: pystr
  strict_mode :: bool
  closed :: bool
  pending_failures :: "failure list"
  head :: pystr
  next_seq :: int

record ledger_entry =
  le_seq :: int
  le_prev_hash :: pystr
  le_entry_hash :: pystr
  le_event_digest :: pystr
  le_event :: agent_event

text \<open>
  A checkpoint as the code builds it: \<open>{device_id, seq_start, seq_end, chain_head, ts_device, sig}\<close>.
\<close>

record checkpoint =
  k_device_id :: pystr
  k_seq_start :: int
  k_seq_end :: int
  k_chain_head :: pystr
  k_ts_device :: pystr
  k_sig :: pystr

definition checkpoint_dict :: "checkpoint \<Rightarrow> (pystr \<times> pyval) list" where
  "checkpoint_dict k =
     [(u ''device_id'', PStr (k_device_id k)), (u ''seq_start'', PInt (k_seq_start k)),
      (u ''seq_end'', PInt (k_seq_end k)), (u ''chain_head'', PStr (k_chain_head k)),
      (u ''ts_device'', PStr (k_ts_device k)), (u ''sig'', PStr (k_sig k))]"

datatype write_error = SqlError | IntegrityError | NotCanonical canon_error | ClosedLedger

datatype ledger_error =
    LedgerWriteError write_error
  | LedgerIsClosed
  | UncaughtCanonError canon_error
  | WatermarkBackwards int int
  | PastChainHead int int
  | PastLatestCheckpoint int "int option"
  | UncaughtSqlError

section \<open>Linking and resuming\<close>

definition link_doc :: "pystr \<Rightarrow> int \<Rightarrow> pystr \<Rightarrow> pyval" where
  "link_doc prev_hash seq digest =
     dict_of [(u ''prev_hash'', PStr prev_hash), (u ''seq'', PInt seq),
              (u ''event_digest'', PStr digest)]"

definition compute_entry_hash :: "hash \<Rightarrow> pystr \<Rightarrow> int \<Rightarrow> pystr \<Rightarrow> canon_error + pystr" where
  "compute_entry_hash sha prev_hash seq digest =
     rmap (sha256_hex sha) (canonicalize (link_doc prev_hash seq digest))"

text \<open>\<open>SELECT ... ORDER BY seq\<close>, and the newest row.\<close>

definition rows_by_seq :: "ledger_db \<Rightarrow> lrow list" where
  "rows_by_seq db = sort_key row_seq (events db)"

definition resume :: "ledger_db \<Rightarrow> pystr \<times> int" where
  "resume db =
     (case rev (rows_by_seq db) of
        [] \<Rightarrow> (GENESIS_PREV_HASH, 1)
      | r # _ \<Rightarrow> (row_entry_hash r, row_seq r + 1))"

definition resync :: "ledger \<Rightarrow> ledger_db \<Rightarrow> ledger" where
  "resync l db = l\<lparr>head := fst (resume db), next_seq := snd (resume db)\<rparr>"

definition open_ledger :: "pystr \<Rightarrow> bool \<Rightarrow> ledger_db \<Rightarrow> ledger" where
  "open_ledger device strict db =
     \<lparr>l_device_id = device, strict_mode = strict, closed = False, pending_failures = [],
      head = fst (resume db), next_seq = snd (resume db)\<rparr>"

section \<open>Appending\<close>

text \<open>What SQLite does with one write transaction: nothing goes wrong, or the statement named fails.\<close>

datatype io_fault = IoOk | BeginFails | InsertFails | CommitFails

record append_env =
  marker_io :: "io_fault \<times> io_fault"
  event_io :: "io_fault \<times> io_fault"
  marker_event_id :: pystr
  marker_trace_id :: pystr
  marker_span_id :: pystr
  marker_ts :: pystr
  marker_ns :: int
  failure_ts :: pystr
  error_text :: "write_error \<Rightarrow> pystr"

definition with_seq :: "agent_event \<Rightarrow> int \<Rightarrow> agent_event" where
  "with_seq e s = (if ev_seq e = s then e else e\<lparr>ev_seq := s\<rparr>)"

definition row_of :: "agent_event \<Rightarrow> pystr \<Rightarrow> pystr \<Rightarrow> pystr \<Rightarrow> pystr \<Rightarrow> lrow" where
  "row_of e text digest prev_hash entry_hash =
     \<lparr>row_seq = ev_seq e, row_event_id = ev_event_id e, row_schema_version = ev_schema_version e,
      row_device_id = ev_device_id e, row_session_id = ev_session_id e, row_kind = ev_kind e,
      row_ts_device = ev_ts_device e, row_ts_monotonic_ns = ev_ts_monotonic_ns e,
      row_tool_use_id = ev_tool_use_id e, row_tool_name = ev_tool_name e, row_payload = text,
      row_payload_hash = ev_payload_hash e, row_model = ev_model e, row_provider = ev_provider e,
      row_event_digest = digest, row_prev_hash = prev_hash, row_entry_hash = entry_hash,
      row_trace_id = Some (ev_trace_id e), row_span_id = Some (ev_span_id e),
      row_parent_span_id = ev_parent_span_id e, row_continues_from = ev_continues_from e\<rparr>"

definition unique_row :: "lrow \<Rightarrow> ledger_db \<Rightarrow> bool" where
  "unique_row r db \<longleftrightarrow>
     (\<forall>r'\<in>set (events db). row_seq r' \<noteq> row_seq r \<and> row_event_id r' \<noteq> row_event_id r)"

text \<open>
  One attempt of \<open>_append_locked\<close>: hash, then BEGIN, INSERT, COMMIT. The in-memory head moves only
  after the COMMIT.
\<close>

definition attempt ::
  "hash \<Rightarrow> io_fault \<Rightarrow> agent_event \<Rightarrow> ledger \<Rightarrow> ledger_db \<Rightarrow>
     write_error + (ledger_entry \<times> ledger \<times> ledger_db)" where
  "attempt sha fault ev l db =
     (let seq = next_seq l; prev = head l; stamped = with_seq ev seq in
      case event_digest sha stamped of Inl e \<Rightarrow> Inl (NotCanonical e) | Inr digest \<Rightarrow>
      (case compute_entry_hash sha prev seq digest of Inl e \<Rightarrow> Inl (NotCanonical e) | Inr entry \<Rightarrow>
       if fault = BeginFails then Inl SqlError else
       (case canonical_dumps (ev_payload stamped) of Inl e \<Rightarrow> Inl (NotCanonical e) | Inr text \<Rightarrow>
        (let row = row_of stamped text digest prev entry in
         if fault = InsertFails then Inl SqlError
         else if \<not> unique_row row db then Inl IntegrityError
         else if fault = CommitFails then Inl SqlError
         else Inr (\<lparr>le_seq = seq, le_prev_hash = prev, le_entry_hash = entry,
                    le_event_digest = digest, le_event = stamped\<rparr>,
                   l\<lparr>head := entry, next_seq := seq + 1\<rparr>,
                   db\<lparr>events := events db @ [row]\<rparr>)))))"

text \<open>Up to two attempts: a constraint violation on the first re-reads the head from disk.\<close>

definition append_locked ::
  "hash \<Rightarrow> io_fault \<times> io_fault \<Rightarrow> agent_event \<Rightarrow> ledger \<Rightarrow> ledger_db \<Rightarrow>
     (write_error + ledger_entry) \<times> ledger \<times> ledger_db" where
  "append_locked sha faults ev l db =
     (case attempt sha (fst faults) ev l db of
        Inr (entry, l', db') \<Rightarrow> (Inr entry, l', db')
      | Inl IntegrityError \<Rightarrow>
          (let l' = resync l db in
           case attempt sha (snd faults) ev l' db of
             Inr (entry, l'', db') \<Rightarrow> (Inr entry, l'', db')
           | Inl e \<Rightarrow> (Inl e, l', db))
      | Inl e \<Rightarrow> (Inl e, l, db))"

text \<open>\<open>_on_write_failure\<close>: raise in strict mode, otherwise remember the event if asked to.\<close>

definition on_write_failure ::
  "append_env \<Rightarrow> agent_event \<Rightarrow> write_error \<Rightarrow> bool \<Rightarrow> ledger \<Rightarrow>
     (ledger_error + ledger_entry option) \<times> ledger" where
  "on_write_failure env ev e queue l =
     (if strict_mode l then (Inl (LedgerWriteError e), l)
      else if \<not> queue then (Inr None, l)
      else (Inr None, l\<lparr>pending_failures := pending_failures l @
        [\<lparr>f_event_id = ev_event_id ev, f_kind = ev_kind ev, f_session_id = ev_session_id ev,
          f_tool_use_id = ev_tool_use_id ev, f_error = error_text env e,
          f_ts_device = failure_ts env\<rparr>]\<rparr>))"

definition failure_doc :: "failure \<Rightarrow> pyval" where
  "failure_doc f =
     dict_of [(u ''event_id'', PStr (f_event_id f)), (u ''kind'', PStr (f_kind f)),
              (u ''session_id'', PStr (f_session_id f)),
              (u ''tool_use_id'', opt_str (f_tool_use_id f)),
              (u ''error'', PStr (f_error f)), (u ''ts_device'', PStr (f_ts_device f))]"

definition marker_payload :: "failure list \<Rightarrow> pyval" where
  "marker_payload failures =
     dict_of [(u ''reason'', PStr (u ''ledger_write_failed'')),
              (u ''dropped_count'', PInt (int (length failures))),
              (u ''dropped'', PSeq (map failure_doc failures))]"

definition marker_event :: "append_env \<Rightarrow> ledger \<Rightarrow> pystr \<Rightarrow> agent_event" where
  "marker_event env l payload_hash =
     \<lparr>ev_schema_version = EVENT_SCHEMA_VERSION, ev_event_id = marker_event_id env,
      ev_device_id = l_device_id l, ev_session_id = RECORD_FAILURE_SESSION_ID, ev_seq = 0,
      ev_kind = kind_value RECORD_FAILURE, ev_ts_device = marker_ts env,
      ev_ts_monotonic_ns = marker_ns env, ev_tool_use_id = None, ev_tool_name = None,
      ev_payload = marker_payload (pending_failures l), ev_payload_hash = payload_hash,
      ev_model = None, ev_provider = u ''recorder'', ev_trace_id = marker_trace_id env,
      ev_span_id = marker_span_id env, ev_parent_span_id = None, ev_continues_from = None\<rparr>"

text \<open>
  \<open>_drain_failures\<close>. The payload hash is computed while the marker is being built, before the
  \<open>try\<close>: a failure record that cannot be canonicalised raises out of here.
\<close>

definition drain_failures ::
  "hash \<Rightarrow> append_env \<Rightarrow> ledger \<Rightarrow> ledger_db \<Rightarrow> (ledger_error + unit) \<times> ledger \<times> ledger_db" where
  "drain_failures sha env l db =
     (case canonicalize (marker_payload (pending_failures l)) of
        Inl e \<Rightarrow> (Inl (UncaughtCanonError e), l, db)
      | Inr b \<Rightarrow>
          (case append_locked sha (marker_io env) (marker_event env l (sha256_hex sha b)) l db of
             (Inl e, l', db') \<Rightarrow> (Inr (), l', db')
           | (Inr _, l', db') \<Rightarrow> (Inr (), l'\<lparr>pending_failures := []\<rparr>, db')))"

definition append ::
  "hash \<Rightarrow> append_env \<Rightarrow> agent_event \<Rightarrow> ledger \<Rightarrow> ledger_db \<Rightarrow>
     (ledger_error + ledger_entry option) \<times> ledger \<times> ledger_db" where
  "append sha env ev l db =
     (if closed l then
        (case on_write_failure env ev ClosedLedger False l of (res, l') \<Rightarrow> (res, l', db))
      else
        (case (if pending_failures l = [] then (Inr (), l, db) else drain_failures sha env l db) of
           (Inl e, l1, db1) \<Rightarrow> (Inl e, l1, db1)
         | (Inr _, l1, db1) \<Rightarrow>
             (case append_locked sha (event_io env) ev l1 db1 of
                (Inr entry, l2, db2) \<Rightarrow> (Inr (Some entry), l2, db2)
              | (Inl e, l2, db2) \<Rightarrow>
                  (case on_write_failure env ev e True l2 of (res, l3) \<Rightarrow> (res, l3, db2)))))"

section \<open>Reading\<close>

text \<open>\<open>loads\<close> is \<open>json.loads\<close>, the inverse reading of a canonical payload text.\<close>

definition row_to_entry :: "(pystr \<Rightarrow> pyval) \<Rightarrow> lrow \<Rightarrow> ledger_entry" where
  "row_to_entry loads r =
     \<lparr>le_seq = row_seq r, le_prev_hash = row_prev_hash r, le_entry_hash = row_entry_hash r,
      le_event_digest = row_event_digest r,
      le_event =
       \<lparr>ev_schema_version = row_schema_version r, ev_event_id = row_event_id r,
        ev_device_id = row_device_id r, ev_session_id = row_session_id r, ev_seq = row_seq r,
        ev_kind = row_kind r, ev_ts_device = row_ts_device r,
        ev_ts_monotonic_ns = row_ts_monotonic_ns r, ev_tool_use_id = row_tool_use_id r,
        ev_tool_name = row_tool_name r, ev_payload = loads (row_payload r),
        ev_payload_hash = row_payload_hash r, ev_model = row_model r,
        ev_provider = row_provider r,
        ev_trace_id = (case row_trace_id r of None \<Rightarrow> [] | Some t \<Rightarrow> t),
        ev_span_id = (case row_span_id r of None \<Rightarrow> [] | Some t \<Rightarrow> t),
        ev_parent_span_id = row_parent_span_id r, ev_continues_from = row_continues_from r\<rparr>\<rparr>"

definition require_open :: "ledger \<Rightarrow> 'a \<Rightarrow> ledger_error + 'a" where
  "require_open l x = (if closed l then Inl LedgerIsClosed else Inr x)"

definition read_range ::
  "(pystr \<Rightarrow> pyval) \<Rightarrow> int \<Rightarrow> int \<Rightarrow> ledger \<Rightarrow> ledger_db \<Rightarrow> ledger_error + ledger_entry list" where
  "read_range loads start stop l db =
     require_open l (map (row_to_entry loads)
       (filter (\<lambda>r. start \<le> row_seq r \<and> row_seq r \<le> stop) (rows_by_seq db)))"

definition read_session ::
  "(pystr \<Rightarrow> pyval) \<Rightarrow> pystr \<Rightarrow> ledger \<Rightarrow> ledger_db \<Rightarrow> ledger_error + ledger_entry list" where
  "read_session loads session l db =
     require_open l (map (row_to_entry loads)
       (filter (\<lambda>r. row_session_id r = session) (rows_by_seq db)))"

definition iter_entries ::
  "(pystr \<Rightarrow> pyval) \<Rightarrow> ledger \<Rightarrow> ledger_db \<Rightarrow> ledger_error + ledger_entry list" where
  "iter_entries loads l db = require_open l (map (row_to_entry loads) (rows_by_seq db))"

fun gaps_between :: "int list \<Rightarrow> (int \<times> int) list" where
  "gaps_between (p # c # rest) =
     (if c > p + 1 then [(p + 1, c - 1)] else []) @ gaps_between (c # rest)"
| "gaps_between _ = []"

definition missing_ranges :: "ledger \<Rightarrow> ledger_db \<Rightarrow> ledger_error + (int \<times> int) list" where
  "missing_ranges l db =
     require_open l
       (let seqs = map row_seq (rows_by_seq db) in
        case seqs of
          [] \<Rightarrow> []
        | s # _ \<Rightarrow> (if s > 1 then [(1, s - 1)] else []) @ gaps_between seqs)"

section \<open>Sync watermarks\<close>

text \<open>
  Three watermarks in one row: entries, checkpoints, attestations. Each setter refuses to go
  backwards or past what exists; \<open>upsert\<close> is the INSERT ... ON CONFLICT DO UPDATE of one column.
\<close>

definition no_sync :: sync_row where
  "no_sync = \<lparr>synced_up_to_seq = 0, synced_checkpoint_up_to_seq = 0,
              synced_attestation_up_to_seq = 0, sync_updated_at = []\<rparr>"

definition sync_of :: "ledger_db \<Rightarrow> sync_row" where
  "sync_of db = (case sync_state db of None \<Rightarrow> no_sync | Some s \<Rightarrow> s)"

definition upsert :: "(sync_row \<Rightarrow> sync_row) \<Rightarrow> pystr \<Rightarrow> ledger_db \<Rightarrow> ledger_db" where
  "upsert f now db = db\<lparr>sync_state := Some ((f (sync_of db))\<lparr>sync_updated_at := now\<rparr>)\<rparr>"

definition limited :: "nat option \<Rightarrow> 'a list \<Rightarrow> 'a list" where
  "limited n xs = (case n of None \<Rightarrow> xs | Some k \<Rightarrow> take k xs)"

definition read_unsynced ::
  "(pystr \<Rightarrow> pyval) \<Rightarrow> nat option \<Rightarrow> ledger \<Rightarrow> ledger_db \<Rightarrow> ledger_error + ledger_entry list" where
  "read_unsynced loads n l db =
     require_open l (map (row_to_entry loads)
       (limited n (filter (\<lambda>r. row_seq r > synced_up_to_seq (sync_of db)) (rows_by_seq db))))"

definition get_synced_up_to :: "ledger \<Rightarrow> ledger_db \<Rightarrow> ledger_error + int" where
  "get_synced_up_to l db = require_open l (synced_up_to_seq (sync_of db))"

definition set_synced_up_to :: "pystr \<Rightarrow> int \<Rightarrow> ledger \<Rightarrow> ledger_db \<Rightarrow> ledger_error + ledger_db" where
  "set_synced_up_to now seq l db =
     (if closed l then Inl LedgerIsClosed
      else if seq < synced_up_to_seq (sync_of db)
      then Inl (WatermarkBackwards seq (synced_up_to_seq (sync_of db)))
      else if seq > next_seq l - 1 then Inl (PastChainHead seq (next_seq l - 1))
      else Inr (upsert (\<lambda>s. s\<lparr>synced_up_to_seq := seq\<rparr>) now db))"

section \<open>Checkpoints on disk\<close>

definition checkpoints_by_end :: "ledger_db \<Rightarrow> cp_row list" where
  "checkpoints_by_end db = sort_key cp_seq_end (checkpoints db)"

definition find_checkpoint :: "int \<Rightarrow> ledger_db \<Rightarrow> cp_row option" where
  "find_checkpoint seq_end db = find (\<lambda>c. cp_seq_end c = seq_end) (checkpoints db)"

text \<open>Insert-if-absent by \<open>seq_end\<close>: what is already there is never overwritten.\<close>

definition append_checkpoint ::
  "io_fault \<Rightarrow> checkpoint \<Rightarrow> ledger \<Rightarrow> ledger_db \<Rightarrow> ledger_error + ledger_db" where
  "append_checkpoint fault k l db =
     (case canonical_dumps (dict_of (checkpoint_dict k)) of
        Inl e \<Rightarrow> Inl (UncaughtCanonError e)
      | Inr body \<Rightarrow>
          if closed l then Inl LedgerIsClosed
          else if fault = BeginFails then Inl UncaughtSqlError
          else if find_checkpoint (k_seq_end k) db \<noteq> None then
            (if fault = CommitFails then Inl UncaughtSqlError else Inr db)
          else if fault = InsertFails \<or> fault = CommitFails then Inl UncaughtSqlError
          else Inr (db\<lparr>checkpoints := checkpoints db @
            [\<lparr>cp_seq_end = k_seq_end k, cp_device_id = k_device_id k, cp_seq_start = k_seq_start k,
              cp_chain_head = k_chain_head k, cp_ts_device = k_ts_device k, cp_sig = k_sig k,
              cp_body = body\<rparr>]\<rparr>))"

definition latest_checkpoint ::
  "(pystr \<Rightarrow> pyval) \<Rightarrow> ledger \<Rightarrow> ledger_db \<Rightarrow> ledger_error + pyval option" where
  "latest_checkpoint loads l db =
     require_open l (case rev (checkpoints_by_end db) of
       [] \<Rightarrow> None | c # _ \<Rightarrow> Some (loads (cp_body c)))"

definition iter_checkpoints ::
  "(pystr \<Rightarrow> pyval) \<Rightarrow> ledger \<Rightarrow> ledger_db \<Rightarrow> ledger_error + pyval list" where
  "iter_checkpoints loads l db =
     require_open l (map (\<lambda>c. loads (cp_body c)) (checkpoints_by_end db))"

definition latest_end :: "ledger_db \<Rightarrow> int option" where
  "latest_end db =
     (case checkpoints db of [] \<Rightarrow> None | _ \<Rightarrow> Some (Max (set (map cp_seq_end (checkpoints db)))))"

definition checkpoints_after ::
  "(pystr \<Rightarrow> pyval) \<Rightarrow> nat option \<Rightarrow> int \<Rightarrow> ledger_db \<Rightarrow> pyval list" where
  "checkpoints_after loads n mark db =
     map (\<lambda>c. loads (cp_body c))
       (limited n (filter (\<lambda>c. cp_seq_end c > mark) (checkpoints_by_end db)))"

definition read_unsynced_checkpoints ::
  "(pystr \<Rightarrow> pyval) \<Rightarrow> nat option \<Rightarrow> ledger \<Rightarrow> ledger_db \<Rightarrow> ledger_error + pyval list" where
  "read_unsynced_checkpoints loads n l db =
     require_open l (checkpoints_after loads n (synced_checkpoint_up_to_seq (sync_of db)) db)"

definition set_synced_checkpoint_up_to ::
  "pystr \<Rightarrow> int \<Rightarrow> ledger \<Rightarrow> ledger_db \<Rightarrow> ledger_error + ledger_db" where
  "set_synced_checkpoint_up_to now seq l db =
     (let current = synced_checkpoint_up_to_seq (sync_of db); latest = latest_end db in
      if closed l then Inl LedgerIsClosed
      else if seq < current then Inl (WatermarkBackwards seq current)
      else if latest = None \<or> seq > the latest then Inl (PastLatestCheckpoint seq latest)
      else Inr (upsert (\<lambda>s. s\<lparr>synced_checkpoint_up_to_seq := seq\<rparr>) now db))"

definition read_checkpoints_pending_attestation ::
  "(pystr \<Rightarrow> pyval) \<Rightarrow> nat option \<Rightarrow> ledger \<Rightarrow> ledger_db \<Rightarrow> ledger_error + pyval list" where
  "read_checkpoints_pending_attestation loads n l db =
     require_open l (checkpoints_after loads n (synced_attestation_up_to_seq (sync_of db)) db)"

definition set_synced_attestation_up_to ::
  "pystr \<Rightarrow> int \<Rightarrow> ledger \<Rightarrow> ledger_db \<Rightarrow> ledger_error + ledger_db" where
  "set_synced_attestation_up_to now seq l db =
     (let current = synced_attestation_up_to_seq (sync_of db); latest = latest_end db in
      if closed l then Inl LedgerIsClosed
      else if seq < current then Inl (WatermarkBackwards seq current)
      else if latest = None \<or> seq > the latest then Inl (PastLatestCheckpoint seq latest)
      else Inr (upsert (\<lambda>s. s\<lparr>synced_attestation_up_to_seq := seq\<rparr>) now db))"

section \<open>Closing\<close>

definition close_ledger :: "ledger \<Rightarrow> ledger" where
  "close_ledger l = l\<lparr>closed := True\<rparr>"

end
