(* ===== verification/Ledger_Chain.thy ===== *)
theory Ledger_Chain
  imports Ledger
begin

text \<open>
  The chain the ledger keeps on disk. \<open>rows_ok\<close> says what one table of rows must look like: consecutive
  sequence numbers, each row linked to the one before it and holding the columns of the event its
  digest was taken over. \<open>stands_on\<close> says that an in-memory \<open>(head, next_seq)\<close> pair is some point of that
  chain, its end when no other writer has moved it.
\<close>

section \<open>A well-formed table\<close>

definition row_wf :: "hash \<Rightarrow> lrow \<Rightarrow> bool" where
  "row_wf sha r \<longleftrightarrow>
     (\<exists>e. event_digest sha e = Inr (row_event_digest r)
        \<and> canonical_dumps (ev_payload e) = Inr (row_payload r)
        \<and> r = row_of e (row_payload r) (row_event_digest r) (row_prev_hash r) (row_entry_hash r))"

fun rows_ok :: "hash \<Rightarrow> pystr \<Rightarrow> int \<Rightarrow> lrow list \<Rightarrow> bool" where
  "rows_ok sha prev n [] \<longleftrightarrow> True"
| "rows_ok sha prev n (r # rs) \<longleftrightarrow>
     row_seq r = n \<and> row_prev_hash r = prev \<and> row_wf sha r
     \<and> compute_entry_hash sha prev n (row_event_digest r) = Inr (row_entry_hash r)
     \<and> rows_ok sha (row_entry_hash r) (n + 1) rs"

definition links :: "lrow list \<Rightarrow> (pystr \<times> pystr) list" where
  "links rs = map (\<lambda>r. (row_event_digest r, row_entry_hash r)) rs"

definition head_after :: "lrow list \<Rightarrow> pystr" where
  "head_after rs = chain_head GENESIS_PREV_HASH (links rs)"

definition db_ok :: "hash \<Rightarrow> ledger_db \<Rightarrow> bool" where
  "db_ok sha db \<longleftrightarrow>
     rows_ok sha GENESIS_PREV_HASH 1 (events db) \<and> distinct (map row_event_id (events db))"

definition stands_on :: "nat \<Rightarrow> ledger \<Rightarrow> ledger_db \<Rightarrow> bool" where
  "stands_on k l db \<longleftrightarrow>
     k \<le> length (events db) \<and> next_seq l = int k + 1 \<and> head l = head_after (take k (events db))"

definition current :: "ledger \<Rightarrow> ledger_db \<Rightarrow> bool" where
  "current l db \<longleftrightarrow> stands_on (length (events db)) l db"

lemma links_simps [simp]:
  "links [] = []" "links (rs @ ss) = links rs @ links ss" "length (links rs) = length rs"
  "links (r # rs) = (row_event_digest r, row_entry_hash r) # links rs"
  "links rs = [] \<longleftrightarrow> rs = []"
  by (simp_all add: links_def)

lemma head_after_simps [simp]:
  "head_after [] = GENESIS_PREV_HASH" "head_after (rs @ [r]) = row_entry_hash r"
  by (simp_all add: head_after_def)

lemma rows_ok_append:
  "rows_ok sha p n (rs @ ss) \<longleftrightarrow>
     rows_ok sha p n rs \<and> rows_ok sha (chain_head p (links rs)) (n + int (length rs)) ss"
  by (induction sha p n rs rule: rows_ok.induct) (auto simp: algebra_simps)

lemma rows_ok_linked: "rows_ok sha p n rs \<Longrightarrow> linked (compute_entry_hash sha) p n (links rs)"
  by (induction sha p n rs rule: rows_ok.induct) auto

lemma rows_ok_nth_seq: "rows_ok sha p n rs \<Longrightarrow> i < length rs \<Longrightarrow> row_seq (rs ! i) = n + int i"
proof (induction sha p n rs arbitrary: i rule: rows_ok.induct)
  case (2 sha prev n r rs)
  then show ?case by (cases i) auto
qed simp

lemma rows_ok_seqs: "rows_ok sha p n rs \<Longrightarrow> map row_seq rs = map (\<lambda>i. n + int i) [0..<length rs]"
  by (rule nth_equalityI) (simp_all add: rows_ok_nth_seq)

lemma rows_ok_take: "rows_ok sha p n rs \<Longrightarrow> rows_ok sha p n (take k rs)"
  using rows_ok_append [of sha p n "take k rs" "drop k rs"] by simp

lemma rows_ok_sorted: "rows_ok sha p n rs \<Longrightarrow> sort_key row_seq rs = rs"
  by (rule sort_key_id_if_sorted)
    (auto simp: rows_ok_seqs sorted_iff_nth_mono)

lemma rows_ok_mem:
  "rows_ok sha p n rs \<Longrightarrow> (\<exists>r\<in>set rs. row_seq r = s) \<longleftrightarrow> n \<le> s \<and> s < n + int (length rs)"
proof -
  assume ok: "rows_ok sha p n rs"
  have "(\<exists>r\<in>set rs. row_seq r = s) \<longleftrightarrow> s \<in> set (map row_seq rs)" by auto
  also have "\<dots> \<longleftrightarrow> (\<exists>i<length rs. s = n + int i)" by (auto simp: rows_ok_seqs [OF ok])
  also have "\<dots> \<longleftrightarrow> n \<le> s \<and> s < n + int (length rs)"
    by (auto intro!: exI [of _ "nat (s - n)"])
  finally show ?thesis .
qed

lemma resume_db_ok:
  assumes "db_ok sha db"
  shows "rows_by_seq db = events db"
    and "resume db = (head_after (events db), int (length (events db)) + 1)"
proof -
  from assms have ok: "rows_ok sha GENESIS_PREV_HASH 1 (events db)" by (simp add: db_ok_def)
  then show sorted: "rows_by_seq db = events db" by (simp add: rows_by_seq_def rows_ok_sorted)
  show "resume db = (head_after (events db), int (length (events db)) + 1)"
  proof (cases "events db" rule: rev_cases)
    case (snoc rs r)
    with rows_ok_nth_seq [OF ok, of "length rs"] show ?thesis
      by (simp add: resume_def sorted)
  qed (simp add: resume_def sorted)
qed

lemma current_resync: "db_ok sha db \<Longrightarrow> current (resync l db) db"
  by (simp add: current_def stands_on_def resync_def resume_db_ok)

lemma current_open: "db_ok sha db \<Longrightarrow> current (open_ledger d s db) db"
  by (simp add: current_def stands_on_def open_ledger_def resume_db_ok)

lemma stands_on_append:
  "stands_on k l db \<Longrightarrow> events db' = events db @ rs \<Longrightarrow> stands_on k l db'"
  by (auto simp: stands_on_def)

section \<open>One attempt\<close>

lemma with_seq_simps [simp]:
  "ev_seq (with_seq e s) = s" "ev_payload (with_seq e s) = ev_payload e"
  "ev_event_id (with_seq e s) = ev_event_id e"
  by (auto simp: with_seq_def)

lemma row_of_simps [simp]:
  "row_seq (row_of e t d p h) = ev_seq e" "row_event_id (row_of e t d p h) = ev_event_id e"
  "row_event_digest (row_of e t d p h) = d" "row_prev_hash (row_of e t d p h) = p"
  "row_entry_hash (row_of e t d p h) = h" "row_payload (row_of e t d p h) = t"
  by (simp_all add: row_of_def)

definition commits ::
  "hash \<Rightarrow> agent_event \<Rightarrow> ledger_entry \<Rightarrow> ledger \<Rightarrow> ledger \<Rightarrow> ledger_db \<Rightarrow> ledger_db \<Rightarrow> bool" where
  "commits sha ev entry l l' db db' \<longleftrightarrow>
     (\<exists>row. events db' = events db @ [row] \<and> checkpoints db' = checkpoints db
        \<and> sync_state db' = sync_state db
        \<and> row = row_of (le_event entry) (row_payload row) (le_event_digest entry)
                 (le_prev_hash entry) (le_entry_hash entry)
        \<and> le_event entry = with_seq ev (le_seq entry)
        \<and> le_seq entry = int (length (events db')) \<and> le_prev_hash entry = head_after (events db)
        \<and> canonical_dumps (ev_payload ev) = Inr (row_payload row)
        \<and> event_digest sha (le_event entry) = Inr (le_event_digest entry)
        \<and> compute_entry_hash sha (le_prev_hash entry) (le_seq entry) (le_event_digest entry)
             = Inr (le_entry_hash entry)
        \<and> l' = l\<lparr>head := le_entry_hash entry, next_seq := le_seq entry + 1\<rparr>)"

lemma attempt_commits:
  assumes "db_ok sha db" "stands_on k l db" "attempt sha fault ev l db = Inr (entry, l', db')"
  shows "commits sha ev entry l l' db db' \<and> db_ok sha db' \<and> current l' db' \<and> fault = IoOk"
proof -
  let ?ev = "with_seq ev (next_seq l)"
  from assms(3) obtain d h t where
    d: "event_digest sha ?ev = Inr d" and h: "compute_entry_hash sha (head l) (next_seq l) d = Inr h"
    and t: "canonical_dumps (ev_payload ?ev) = Inr t"
    and unique: "unique_row (row_of ?ev t d (head l) h) db" and io: "fault = IoOk"
    and entry: "entry = \<lparr>le_seq = next_seq l, le_prev_hash = head l, le_entry_hash = h,
                         le_event_digest = d, le_event = ?ev\<rparr>"
    and l': "l' = l\<lparr>head := h, next_seq := next_seq l + 1\<rparr>"
    and db': "db' = db\<lparr>events := events db @ [row_of ?ev t d (head l) h]\<rparr>"
    by (cases fault) (auto simp: attempt_def Let_def split: sum.splits if_splits)
  have rows: "rows_ok sha GENESIS_PREV_HASH 1 (events db)" using assms(1) by (simp add: db_ok_def)
  have free: "\<not> (\<exists>r\<in>set (events db). row_seq r = next_seq l)"
    using unique by (auto simp: unique_row_def)
  then have k: "k = length (events db)"
    using assms(2) unfolding rows_ok_mem [OF rows] by (auto simp: stands_on_def)
  with assms(2) have at: "next_seq l = int (length (events db)) + 1" "head l = head_after (events db)"
    by (simp_all add: stands_on_def)
  have wf: "row_wf sha (row_of ?ev t d (head l) h)"
    using d t by (auto simp: row_wf_def intro!: exI [of _ ?ev])
  have "rows_ok sha GENESIS_PREV_HASH 1 (events db')"
    using rows wf h by (simp add: db' rows_ok_append at head_after_def algebra_simps)
  moreover have "distinct (map row_event_id (events db'))"
    using assms(1) unique by (auto simp: db_ok_def db' unique_row_def)
  ultimately have "db_ok sha db'" by (simp add: db_ok_def)
  moreover have "current l' db'" by (simp add: current_def stands_on_def l' db' at)
  moreover have "commits sha ev entry l l' db db'"
    using d h t by (simp add: commits_def entry l' db' at)
  ultimately show ?thesis using io by blast
qed

lemma attempt_integrity:
  assumes "attempt sha fault ev l db = Inl IntegrityError" "db_ok sha db" "current l db"
  shows "ev_event_id ev \<in> row_event_id ` set (events db)"
proof -
  have rows: "rows_ok sha GENESIS_PREV_HASH 1 (events db)" using assms(2) by (simp add: db_ok_def)
  have "\<not> (\<exists>r\<in>set (events db). row_seq r = next_seq l)"
    using assms(3) unfolding rows_ok_mem [OF rows] by (simp add: current_def stands_on_def)
  then show ?thesis using assms(1)
    by (auto simp: attempt_def Let_def unique_row_def intro: rev_image_eqI
        split: sum.splits if_splits)
qed

section \<open>\<open>_append_locked\<close>\<close>

text \<open>What a ledger object keeps across every call that is not about its position.\<close>

definition same_identity :: "ledger \<Rightarrow> ledger \<Rightarrow> bool" where
  "same_identity l l' \<longleftrightarrow>
     l_device_id l' = l_device_id l \<and> strict_mode l' = strict_mode l \<and> closed l' = closed l"

lemma same_identity_simps [simp]:
  "same_identity l l" "same_identity l (resync l db)"
  "same_identity l (l\<lparr>head := h, next_seq := n\<rparr>)" "same_identity l (l\<lparr>pending_failures := f\<rparr>)"
  by (simp_all add: same_identity_def resync_def)

lemma same_identity_trans: "same_identity a b \<Longrightarrow> same_identity b c \<Longrightarrow> same_identity a c"
  by (simp add: same_identity_def)

lemma append_locked_Inr:
  assumes "db_ok sha db" "stands_on k l db" "append_locked sha faults ev l db = (Inr entry, l', db')"
  shows "\<exists>l0. commits sha ev entry l0 l' db db' \<and> (l0 = l \<or> l0 = resync l db)"
    and "db_ok sha db'" and "current l' db'" and "same_identity l l'"
    and "pending_failures l' = pending_failures l"
proof -
  obtain l0 fault where a: "attempt sha fault ev l0 db = Inr (entry, l', db')"
    and l0: "l0 = l \<or> l0 = resync l db"
    using assms(3) by (auto simp: append_locked_def Let_def split: sum.splits write_error.splits prod.splits)
  have "\<exists>j. stands_on j l0 db"
    using l0 assms(2) current_resync [OF assms(1)] by (auto simp: current_def)
  then have c: "commits sha ev entry l0 l' db db' \<and> db_ok sha db' \<and> current l' db'"
    using attempt_commits [OF assms(1) _ a] by blast
  then show "\<exists>l0. commits sha ev entry l0 l' db db' \<and> (l0 = l \<or> l0 = resync l db)"
    "db_ok sha db'" "current l' db'"
    using l0 by blast+
  have "l' = l0\<lparr>head := le_entry_hash entry, next_seq := le_seq entry + 1\<rparr>"
    using c by (auto simp: commits_def)
  then show "same_identity l l'" "pending_failures l' = pending_failures l"
    using l0 by (auto simp: same_identity_def resync_def)
qed

lemma append_locked_Inl:
  assumes "append_locked sha faults ev l db = (Inl e, l', db')"
  shows "db' = db" and "l' = l \<or> l' = resync l db"
  using assms by (auto simp: append_locked_def Let_def split: sum.splits write_error.splits prod.splits)

section \<open>\<open>append\<close>\<close>

text \<open>The row the marker leaves: what it says is the list of failures pending when it was written.\<close>

definition marks :: "failure list \<Rightarrow> lrow \<Rightarrow> bool" where
  "marks fs r \<longleftrightarrow>
     row_kind r = kind_value RECORD_FAILURE \<and> row_session_id r = RECORD_FAILURE_SESSION_ID
     \<and> canonical_dumps (marker_payload fs) = Inr (row_payload r)"

definition remembers :: "agent_event \<Rightarrow> failure \<Rightarrow> bool" where
  "remembers ev f \<longleftrightarrow>
     f_event_id f = ev_event_id ev \<and> f_kind f = ev_kind ev \<and> f_session_id f = ev_session_id ev
     \<and> f_tool_use_id f = ev_tool_use_id ev"

lemma commits_row:
  assumes "commits sha ev entry l0 l' db db'"
  obtains row where "events db' = events db @ [row]" "row_seq row = le_seq entry"
    "row_event_id row = ev_event_id ev" "row_kind row = ev_kind ev"
    "row_session_id row = ev_session_id ev" "row_entry_hash row = le_entry_hash entry"
    "row_event_digest row = le_event_digest entry" "row_prev_hash row = le_prev_hash entry"
    "canonical_dumps (ev_payload ev) = Inr (row_payload row)"
    "checkpoints db' = checkpoints db" "sync_state db' = sync_state db"
proof -
  obtain row where row: "events db' = events db @ [row]"
      "row = row_of (le_event entry) (row_payload row) (le_event_digest entry) (le_prev_hash entry) (le_entry_hash entry)"
      "le_event entry = with_seq ev (le_seq entry)"
      "canonical_dumps (ev_payload ev) = Inr (row_payload row)"
      "checkpoints db' = checkpoints db" "sync_state db' = sync_state db"
    using assms unfolding commits_def by blast
  note cols = arg_cong [OF row(2), of row_seq] arg_cong [OF row(2), of row_event_id]
    arg_cong [OF row(2), of row_kind] arg_cong [OF row(2), of row_session_id]
    arg_cong [OF row(2), of row_entry_hash] arg_cong [OF row(2), of row_event_digest]
    arg_cong [OF row(2), of row_prev_hash]
  show thesis
    by (rule that [OF row(1)])
      (insert cols row(3-6), simp_all add: row_of_def with_seq_def split: if_splits)
qed

lemma append_locked_commits:
  assumes "db_ok sha db" "stands_on k l db" "append_locked sha faults ev l db = (Inr entry, l', db')"
  obtains l0 row where "commits sha ev entry l0 l' db db'" "events db' = events db @ [row]"
    "row_event_id row = ev_event_id ev" "row_kind row = ev_kind ev"
    "row_session_id row = ev_session_id ev"
    "canonical_dumps (ev_payload ev) = Inr (row_payload row)"
proof -
  obtain l0 where c: "commits sha ev entry l0 l' db db'" using append_locked_Inr(1) [OF assms] by blast
  show thesis by (rule commits_row [OF c]) (rule that [OF c])
qed

text \<open>
  What one call leaves behind: the rows it found, then at most one marker, then at most one row for
  the event; and a list of pending failures that lost nothing.
\<close>

definition drained :: "ledger \<Rightarrow> ledger \<Rightarrow> lrow list \<Rightarrow> bool" where
  "drained l l' ms \<longleftrightarrow>
     (ms = [] \<and> pending_failures l' = pending_failures l
      \<or> (\<exists>m. ms = [m] \<and> pending_failures l \<noteq> [] \<and> marks (pending_failures l) m
              \<and> pending_failures l' = []))"

lemma drain_spec:
  assumes "db_ok sha db" "stands_on k l db" "drain_failures sha env l db = (res, l', db')"
    and "pending_failures l \<noteq> []"
  shows "\<exists>ms. events db' = events db @ ms \<and> drained l l' ms \<and> db_ok sha db'
      \<and> (\<exists>j. stands_on j l' db') \<and> same_identity l l'
      \<and> (\<forall>e. res = Inl e \<longrightarrow> ms = [] \<and> l' = l
            \<and> (\<exists>c. e = UncaughtCanonError c \<and> canonicalize (marker_payload (pending_failures l)) = Inl c))"
proof (cases "canonicalize (marker_payload (pending_failures l))")
  case (Inl c)
  then show ?thesis using assms by (auto simp: drain_failures_def drained_def)
next
  case (Inr b)
  let ?m = "marker_event env l (sha256_hex sha b)"
  obtain r l1 db1 where a: "append_locked sha (marker_io env) ?m l db = (r, l1, db1)"
    by (cases "append_locked sha (marker_io env) ?m l db") auto
  show ?thesis
  proof (cases r)
    case (Inl e)
    note loc = append_locked_Inl [OF a [unfolded Inl]]
    have "\<exists>j. stands_on j l1 db"
      using loc(2) assms(2) current_resync [OF assms(1)] by (auto simp: current_def)
    with loc assms(1,3) Inr a Inl show ?thesis
      by (auto simp: drain_failures_def drained_def same_identity_def resync_def)
  next
    case entry: (Inr entry)
    note a' = a [unfolded entry] and inr = append_locked_Inr [OF assms(1,2) a [unfolded entry]]
    obtain l0 row where row: "events db1 = events db @ [row]" "row_kind row = ev_kind ?m"
        "row_session_id row = ev_session_id ?m" "canonical_dumps (ev_payload ?m) = Inr (row_payload row)"
      using append_locked_commits [OF assms(1,2) a'] by blast
    have "marks (pending_failures l) row" using row by (simp add: marks_def marker_event_def)
    moreover have "stands_on (length (events db1)) (l1\<lparr>pending_failures := []\<rparr>) db1"
      using inr(3) by (simp add: current_def stands_on_def)
    moreover have "same_identity l (l1\<lparr>pending_failures := []\<rparr>)"
      using inr(4) by (simp add: same_identity_def)
    moreover have "res = Inr ()" "l' = l1\<lparr>pending_failures := []\<rparr>" "db' = db1"
      using assms(3) a' Inr by (auto simp: drain_failures_def)
    ultimately show ?thesis
      using row(1) inr(2) assms(4) by (auto simp: drained_def)
  qed
qed

definition append_outcome ::
  "ledger \<Rightarrow> agent_event \<Rightarrow> ledger_error + ledger_entry option \<Rightarrow> lrow list \<Rightarrow> failure list \<Rightarrow> bool" where
  "append_outcome l ev res rs fs \<longleftrightarrow>
     (case res of
        Inr (Some entry) \<Rightarrow>
          (\<exists>r. rs = [r] \<and> row_event_id r = ev_event_id ev \<and> row_seq r = le_seq entry
             \<and> row_prev_hash r = le_prev_hash entry \<and> row_entry_hash r = le_entry_hash entry) \<and> fs = []
      | Inr None \<Rightarrow> rs = [] \<and> \<not> strict_mode l
          \<and> (if closed l then fs = [] else (\<exists>f. fs = [f] \<and> remembers ev f))
      | Inl (LedgerWriteError e) \<Rightarrow> rs = [] \<and> fs = [] \<and> strict_mode l
      | Inl (UncaughtCanonError c) \<Rightarrow>
          rs = [] \<and> fs = [] \<and> canonicalize (marker_payload (pending_failures l)) = Inl c
      | Inl _ \<Rightarrow> False)"

definition appended ::
  "agent_event \<Rightarrow> ledger_error + ledger_entry option \<Rightarrow> ledger \<Rightarrow> ledger \<Rightarrow> ledger_db \<Rightarrow> ledger_db \<Rightarrow> bool"
  where
  "appended ev res l l' db db' \<longleftrightarrow>
     (\<exists>ms rs fs. events db' = events db @ ms @ rs
        \<and> (ms = [] \<or> (\<exists>m. ms = [m] \<and> pending_failures l \<noteq> [] \<and> marks (pending_failures l) m))
        \<and> append_outcome l ev res rs fs
        \<and> pending_failures l' = (if ms = [] then pending_failures l else []) @ fs)"

lemma on_write_failure_open:
  assumes "on_write_failure env ev e True l = (res, l')" "closed l = closed l0" "strict_mode l = strict_mode l0"
    "\<not> closed l0"
  shows "same_identity l l'" "head l' = head l" "next_seq l' = next_seq l"
    "\<exists>fs. pending_failures l' = pending_failures l @ fs \<and> append_outcome l0 ev res [] fs"
  using assms by (auto simp: on_write_failure_def append_outcome_def remembers_def split: if_splits)

lemma append_locked_step:
  assumes db: "db_ok sha db" and on: "stands_on k l db"
    and a: "append_locked sha (event_io env) ev l db = (r, l2, db2)"
    and id: "same_identity l0 l" "\<not> closed l0"
    and res: "(case r of Inr entry \<Rightarrow> (Inr (Some entry), l2, db2)
               | Inl e \<Rightarrow> (case on_write_failure env ev e True l2 of (res, l3) \<Rightarrow> (res, l3, db2))) = (res, l', db')"
  shows "\<exists>rs fs. events db' = events db @ rs \<and> append_outcome l0 ev res rs fs
      \<and> pending_failures l' = pending_failures l @ fs \<and> db_ok sha db'
      \<and> (\<exists>j. stands_on j l' db') \<and> same_identity l l'"
proof (cases r)
  case (Inr entry)
  note inr = append_locked_Inr [OF db on a [unfolded Inr]]
  obtain l1 where c: "commits sha ev entry l1 l2 db db2" using inr(1) by blast
  obtain row where "events db2 = events db @ [row]" "row_seq row = le_seq entry"
    "row_event_id row = ev_event_id ev" "row_entry_hash row = le_entry_hash entry"
    "row_prev_hash row = le_prev_hash entry"
    using commits_row [OF c] by metis
  moreover have "res = Inr (Some entry)" "l' = l2" "db' = db2" using res Inr by auto
  ultimately show ?thesis using inr by (auto simp: append_outcome_def current_def)
next
  case (Inl e)
  note loc = append_locked_Inl [OF a [unfolded Inl]]
  have "same_identity l l2" using loc(2) by auto
  then have id2: "closed l2 = closed l0" "strict_mode l2 = strict_mode l0"
    using id by (auto simp: same_identity_def)
  have pend: "pending_failures l2 = pending_failures l" using loc(2) by (auto simp: resync_def)
  obtain l3 where w: "on_write_failure env ev e True l2 = (res, l3)" "l' = l3" "db' = db2"
    using res Inl by (auto split: prod.splits)
  note wf = on_write_failure_open [OF w(1) id2 id(2)]
  have "\<exists>j. stands_on j l2 db"
    using loc(2) on current_resync [OF db] by (auto simp: current_def)
  then have "\<exists>j. stands_on j l' db'" using wf(2,3) w loc(1) by (auto simp: stands_on_def)
  moreover have "same_identity l l'"
    using \<open>same_identity l l2\<close> wf(1) w(2) same_identity_trans by blast
  ultimately show ?thesis using wf(4) w loc(1) db pend by (metis append_Nil2)
qed

lemma append_open_eq:
  assumes "\<not> closed l"
    and "(if pending_failures l = [] then (Inr (), l, db) else drain_failures sha env l db) = (Inr (), l1, db1)"
    and "append_locked sha (event_io env) ev l1 db1 = (r, l2, db2)"
  shows "append sha env ev l db =
    (case r of Inr entry \<Rightarrow> (Inr (Some entry), l2, db2)
     | Inl e \<Rightarrow> (case on_write_failure env ev e True l2 of (res, l3) \<Rightarrow> (res, l3, db2)))"
  using assms by (cases "pending_failures l = []"; cases r) (simp_all add: append_def)

lemma append_spec:
  assumes "db_ok sha db" "stands_on k l db" "append sha env ev l db = (res, l', db')"
  shows "appended ev res l l' db db' \<and> db_ok sha db' \<and> (\<exists>j. stands_on j l' db')
      \<and> same_identity l l' \<and> (\<exists>rs. events db' = events db @ rs)"
proof (cases "closed l")
  case True
  then show ?thesis
    using assms by (auto simp: append_def on_write_failure_def appended_def append_outcome_def
        split: if_splits intro!: exI [of _ "[] :: lrow list"])
next
  case opened: False
  obtain r0 l1 db1 where d: "(if pending_failures l = [] then (Inr (), l, db)
      else drain_failures sha env l db) = (r0, l1, db1)"
    by (metis prod_cases3)
  obtain ms where ms: "events db1 = events db @ ms" "drained l l1 ms" "db_ok sha db1"
      "\<exists>j. stands_on j l1 db1" "same_identity l l1"
    and err: "\<forall>e. r0 = Inl e \<longrightarrow> ms = [] \<and> l1 = l
            \<and> (\<exists>c. e = UncaughtCanonError c \<and> canonicalize (marker_payload (pending_failures l)) = Inl c)"
  proof (cases "pending_failures l = []")
    case True
    with d that [of "[]"] assms show thesis by (auto simp: drained_def)
  next
    case False
    with d that drain_spec [OF assms(1,2) _ False, of env r0 l1 db1] show thesis by auto
  qed
  have marker: "ms = [] \<or> (\<exists>m. ms = [m] \<and> pending_failures l \<noteq> [] \<and> marks (pending_failures l) m)"
    and pend: "pending_failures l1 = (if ms = [] then pending_failures l else [])"
    using ms(2) by (auto simp: drained_def)
  show ?thesis
  proof (cases r0)
    case (Inl e)
    with opened assms(3) d have eq: "res = Inl e" "l' = l1" "db' = db1" by (auto simp: append_def)
    obtain c where e: "e = UncaughtCanonError c" "canonicalize (marker_payload (pending_failures l)) = Inl c"
      using err Inl by blast
    have "appended ev res l l' db db'"
      unfolding appended_def
      by (rule exI [of _ ms], rule exI [of _ "[]"], rule exI [of _ "[]"])
        (use ms(1) marker pend e eq in \<open>simp add: append_outcome_def\<close>)
    with ms eq show ?thesis by blast
  next
    case (Inr unit)
    obtain r l2 db2 where a: "append_locked sha (event_io env) ev l1 db1 = (r, l2, db2)"
      by (metis prod_cases3)
    have res: "(case r of Inr entry \<Rightarrow> (Inr (Some entry), l2, db2)
               | Inl e \<Rightarrow> (case on_write_failure env ev e True l2 of (res, l3) \<Rightarrow> (res, l3, db2))) = (res, l', db')"
      using append_open_eq [OF opened _ a] assms(3) d Inr by simp
    obtain j where j: "stands_on j l1 db1" using ms(4) by blast
    obtain rs fs where step: "events db' = events db1 @ rs" "append_outcome l ev res rs fs"
        "pending_failures l' = pending_failures l1 @ fs" "db_ok sha db'" "\<exists>j. stands_on j l' db'"
        "same_identity l1 l'"
      using append_locked_step [OF ms(3) j a ms(5) opened res] by blast
    have "appended ev res l l' db db'"
      unfolding appended_def
      by (rule exI [of _ ms], rule exI [of _ rs], rule exI [of _ fs])
        (use ms(1) marker pend step in simp)
    moreover have "same_identity l l'" using ms(5) step(6) by (rule same_identity_trans)
    moreover have "events db' = events db @ (ms @ rs)" using ms(1) step(1) by simp
    ultimately show ?thesis using step(4,5) by blast
  qed
qed

end
