(* ===== verification/Ledger_Props.thy ===== *)
theory Ledger_Props
  imports Ledger_Chain
begin

text \<open>
  What the ledger promises: one unforked chain per file whatever the instances writing to it do and
  whichever statement fails, no silent loss of a dropped event, and a head that fixes the history
  (through the \<open>hash_chain\<close> interface).
\<close>

section \<open>The link function commits to its inputs\<close>

definition link_bytes :: "pystr \<times> int \<times> pystr \<Rightarrow> bytes" where
  "link_bytes x = (case x of (p, s, d) \<Rightarrow>
     (case canonicalize (link_doc p s d) of Inl _ \<Rightarrow> [] | Inr b \<Rightarrow> b))"

lemma link_doc_lookup:
  "doc_map (doc_of (link_doc p s d)) (u ''prev_hash'') = Some (DStr p)"
  "doc_map (doc_of (link_doc p s d)) (u ''seq'') = Some (DNum (int_str s))"
  "doc_map (doc_of (link_doc p s d)) (u ''event_digest'') = Some (DStr d)"
  unfolding link_doc_def by (subst doc_map_dict_of; simp)+

lemma link_doc_inject:
  assumes "doc_of (link_doc p s d) = doc_of (link_doc q t e)"
  shows "(p, s, d) = (q, t, e)"
proof -
  note l = link_doc_lookup [of p s d, unfolded assms]
  show ?thesis using l unfolding link_doc_lookup [of q t e] by simp
qed

lemma link_binding_aux:
  assumes "compute_entry_hash sha p s d = Inr h" "compute_entry_hash sha q t e = Inr h"
    and "str_ok p" "str_ok q" "str_ok d" "str_ok e"
  shows "(p, s, d) = (q, t, e) \<or> collision_on sha (link_bytes ` {(p, s, d), (q, t, e)})"
proof -
  obtain b c where b: "canonicalize (link_doc p s d) = Inr b" "h = sha256_hex sha b"
    and c: "canonicalize (link_doc q t e) = Inr c" "h = sha256_hex sha c"
    using assms(1,2) by (auto simp: compute_entry_hash_def rmap_Inr_iff)
  have ok: "pyval_ok (link_doc p s d)" "pyval_ok (link_doc q t e)"
    using assms(3-6) by (simp_all add: link_doc_def pyval_ok_dict_of u_def str_ok_def)
  have "sha b = sha c" using b(2) c(2) by simp
  then consider "b = c" | "collision_on sha {b, c}" using sha_cases [of sha b c "{b, c}"] by auto
  then show ?thesis
  proof cases
    case 1
    with link_doc_inject canonicalize_inject [OF ok b(1)] c(1) show ?thesis by blast
  qed (use b(1) c(1) in \<open>simp add: link_bytes_def\<close>)
qed

lemma compute_entry_hash_ok: "compute_entry_hash sha p s d = Inr h \<Longrightarrow> str_ok h \<and> clean h"
  by (auto simp: compute_entry_hash_def rmap_Inr_iff)

interpretation ledger_chain: hash_chain "compute_entry_hash sha" str_ok str_ok
    "\<lambda>S. collision_on sha (link_bytes ` S)" for sha
proof unfold_locales
  show "(p, s, d) = (q, t, e) \<or> collision_on sha (link_bytes ` {(p, s, d), (q, t, e)})"
    if "compute_entry_hash sha p s d = Inr h" "compute_entry_hash sha q t e = Inr h"
      "str_ok p" "str_ok q" "str_ok d" "str_ok e" for p s d h q t e
    using that by (rule link_binding_aux)
  show "str_ok h" if "compute_entry_hash sha p s d = Inr h" for p s d h
    using compute_entry_hash_ok [OF that] by simp
  show "collision_on sha (link_bytes ` B)"
    if "collision_on sha (link_bytes ` A)" "A \<subseteq> B" for A B :: "(pystr \<times> int \<times> pystr) set"
    using that by (meson collision_on_mono image_mono)
qed

lemma genesis_ok [simp]: "str_ok GENESIS_PREV_HASH" "clean GENESIS_PREV_HASH"
  by (simp_all add: GENESIS_PREV_HASH_def u_def str_ok_def clean_def surrogate_def list_all_iff)

lemma event_digest_ok: "event_digest sha e = Inr d \<Longrightarrow> str_ok d \<and> clean d"
  by (auto simp: event_digest_Inr)

lemma rows_ok_mem_wf:
  "rows_ok sha p n rs \<Longrightarrow> r \<in> set rs \<Longrightarrow>
     row_wf sha r \<and> (\<exists>q. compute_entry_hash sha q (row_seq r) (row_event_digest r) = Inr (row_entry_hash r))"
  by (induction sha p n rs rule: rows_ok.induct) auto

lemma rows_ok_digests:
  assumes "rows_ok sha p n rs"
  shows "\<forall>x\<in>set (links rs). str_ok (fst x)"
  using rows_ok_mem_wf [OF assms] event_digest_ok by (fastforce simp: links_def row_wf_def)

lemma rows_ok_take_Suc: "k < length rs \<Longrightarrow> head_after (take (Suc k) rs) = row_entry_hash (rs ! k)"
  by (simp add: take_Suc_conv_app_nth)

lemma head_after_clean:
  assumes "rows_ok sha GENESIS_PREV_HASH 1 rs"
  shows "clean (head_after rs)"
proof (cases rs rule: rev_cases)
  case (snoc ys r)
  then have "\<exists>q. compute_entry_hash sha q (row_seq r) (row_event_digest r) = Inr (row_entry_hash r)"
    using rows_ok_mem_wf [OF assms, of r] by auto
  then show ?thesis using compute_entry_hash_ok snoc by auto
qed simp

section \<open>An append that nothing disturbs\<close>

lemma jsonable_dict_of:
  "jsonable (dict_of items) \<longleftrightarrow> (\<forall>(k, v)\<in>set items. clean k \<and> jsonable v)"
  by (auto simp: dict_of_def list_all_iff split_def)

lemma jsonable_with_seq: "jsonable (to_dict (with_seq e s)) \<longleftrightarrow> jsonable (to_dict e)"
  by (simp add: with_seq_def to_dict_def jsonable_dict_of event_items_def field_values_def V2_ONLY_FIELDS_def)

lemma jsonable_payload: "jsonable (to_dict e) \<Longrightarrow> jsonable (ev_payload e)"
  by (simp add: to_dict_def jsonable_dict_of event_items_def field_values_def V2_ONLY_FIELDS_def
      split: if_splits)

lemma event_digest_succeeds: "jsonable (to_dict e) \<Longrightarrow> \<exists>d. event_digest sha e = Inr d"
  using jsonable_canonicalize [of "to_dict e"] by (auto simp: event_digest_def)

lemma compute_entry_hash_succeeds: "clean p \<Longrightarrow> clean d \<Longrightarrow> \<exists>h. compute_entry_hash sha p s d = Inr h"
proof -
  assume "clean p" "clean d"
  then have "jsonable (link_doc p s d)"
    by (simp add: link_doc_def jsonable_dict_of u_def clean_def surrogate_def)
  then show ?thesis using jsonable_canonicalize [of "link_doc p s d"] by (auto simp: compute_entry_hash_def)
qed

lemma attempt_succeeds:
  assumes "rows_ok sha GENESIS_PREV_HASH 1 (events db)" "stands_on k l db" "jsonable (to_dict ev)"
  shows "(\<exists>entry l' db'. attempt sha IoOk ev l db = Inr (entry, l', db'))
      \<or> attempt sha IoOk ev l db = Inl IntegrityError
          \<and> (k < length (events db) \<or> ev_event_id ev \<in> row_event_id ` set (events db))"
proof -
  let ?ev = "with_seq ev (next_seq l)"
  obtain d where d: "event_digest sha ?ev = Inr d"
    using assms(3) event_digest_succeeds [of ?ev] by (auto simp: jsonable_with_seq)
  have "clean (head l)"
    using assms(2) head_after_clean [OF rows_ok_take [OF assms(1)], of k] by (simp add: stands_on_def)
  then obtain h where h: "compute_entry_hash sha (head l) (next_seq l) d = Inr h"
    using compute_entry_hash_succeeds event_digest_ok [OF d] by blast
  obtain t where t: "canonical_dumps (ev_payload ev) = Inr t"
    using jsonable_payload [OF assms(3)] by (auto simp: canonical_dumps_def simp flip: serialize_succeeds_aux)
  show ?thesis
  proof (cases "unique_row (row_of ?ev t d (head l) h) db")
    case True
    then show ?thesis using d h t by (simp add: attempt_def Let_def)
  next
    case False
    then have "(\<exists>r\<in>set (events db). row_seq r = next_seq l) \<or> ev_event_id ev \<in> row_event_id ` set (events db)"
      by (auto simp: unique_row_def intro: rev_image_eqI)
    then have "k < length (events db) \<or> ev_event_id ev \<in> row_event_id ` set (events db)"
      using assms(2) unfolding rows_ok_mem [OF assms(1)] by (auto simp: stands_on_def)
    then show ?thesis using False d h t by (simp add: attempt_def Let_def)
  qed
qed

lemma append_locked_succeeds:
  assumes "db_ok sha db" "stands_on k l db" "jsonable (to_dict ev)"
    and "ev_event_id ev \<notin> row_event_id ` set (events db)" "faults = (IoOk, IoOk)"
  shows "\<exists>entry l' db'. append_locked sha faults ev l db = (Inr entry, l', db')"
proof -
  have rows: "rows_ok sha GENESIS_PREV_HASH 1 (events db)" using assms(1) by (simp add: db_ok_def)
  have cur: "stands_on (length (events db)) (resync l db) db"
    using current_resync [OF assms(1)] by (simp add: current_def)
  have second: "\<exists>entry l' db'. attempt sha IoOk ev (resync l db) db = Inr (entry, l', db')"
    using attempt_succeeds [OF rows cur assms(3)] assms(4) by simp
  from attempt_succeeds [OF rows assms(2,3)] assms(5) second show ?thesis
    by (auto simp: append_locked_def Let_def)
qed

section \<open>Many instances on one file\<close>

text \<open>
  One SQLite file and the \<open>Ledger\<close> objects open on it, in one process or several. A step is one
  call of one of them. The transactions and the re-reading of the head that an \<open>append\<close> is made of
  are steps of their own as well, so a writer in another process may come between them; what such
  a writer does is what makes an instance's head stale.
\<close>

record world =
  w_db :: ledger_db
  w_ledgers :: "ledger list"

definition empty_world :: world where
  "empty_world = \<lparr>w_db = \<lparr>events = [], checkpoints = [], sync_state = None\<rparr>, w_ledgers = []\<rparr>"

inductive ledger_step :: "hash \<Rightarrow> world \<Rightarrow> world \<Rightarrow> bool" for sha where
  step_open: "ledger_step sha w (w\<lparr>w_ledgers := w_ledgers w @ [open_ledger device strict (w_db w)]\<rparr>)"
| step_append:
    "i < length (w_ledgers w) \<Longrightarrow> append sha env ev (w_ledgers w ! i) (w_db w) = (res, l', db') \<Longrightarrow>
     ledger_step sha w \<lparr>w_db = db', w_ledgers = (w_ledgers w)[i := l']\<rparr>"
| step_attempt:
    "i < length (w_ledgers w) \<Longrightarrow> attempt sha fault ev (w_ledgers w ! i) (w_db w) = Inr (entry, l', db') \<Longrightarrow>
     ledger_step sha w \<lparr>w_db = db', w_ledgers = (w_ledgers w)[i := l']\<rparr>"
| step_resync:
    "i < length (w_ledgers w) \<Longrightarrow>
     ledger_step sha w (w\<lparr>w_ledgers := (w_ledgers w)[i := resync (w_ledgers w ! i) (w_db w)]\<rparr>)"
| step_synced:
    "i < length (w_ledgers w) \<Longrightarrow> set_synced_up_to now s (w_ledgers w ! i) (w_db w) = Inr db' \<Longrightarrow>
     ledger_step sha w (w\<lparr>w_db := db'\<rparr>)"
| step_synced_checkpoint:
    "i < length (w_ledgers w) \<Longrightarrow>
     set_synced_checkpoint_up_to now s (w_ledgers w ! i) (w_db w) = Inr db' \<Longrightarrow>
     ledger_step sha w (w\<lparr>w_db := db'\<rparr>)"
| step_synced_attestation:
    "i < length (w_ledgers w) \<Longrightarrow>
     set_synced_attestation_up_to now s (w_ledgers w ! i) (w_db w) = Inr db' \<Longrightarrow>
     ledger_step sha w (w\<lparr>w_db := db'\<rparr>)"
| step_checkpoint:
    "i < length (w_ledgers w) \<Longrightarrow> append_checkpoint fault c (w_ledgers w ! i) (w_db w) = Inr db' \<Longrightarrow>
     ledger_step sha w (w\<lparr>w_db := db'\<rparr>)"
| step_close:
    "i < length (w_ledgers w) \<Longrightarrow>
     ledger_step sha w (w\<lparr>w_ledgers := (w_ledgers w)[i := close_ledger (w_ledgers w ! i)]\<rparr>)"

inductive ledger_reach :: "hash \<Rightarrow> world \<Rightarrow> bool" for sha where
  reach_empty: "ledger_reach sha empty_world"
| reach_step: "ledger_reach sha w \<Longrightarrow> ledger_step sha w w' \<Longrightarrow> ledger_reach sha w'"

definition world_ok :: "hash \<Rightarrow> world \<Rightarrow> bool" where
  "world_ok sha w \<longleftrightarrow> db_ok sha (w_db w) \<and> (\<forall>l\<in>set (w_ledgers w). \<exists>k. stands_on k l (w_db w))"

lemma set_synced_events:
  "set_synced_up_to now s l db = Inr db' \<Longrightarrow> events db' = events db"
  "set_synced_checkpoint_up_to now s l db = Inr db' \<Longrightarrow> events db' = events db"
  "set_synced_attestation_up_to now s l db = Inr db' \<Longrightarrow> events db' = events db"
  by (auto simp: set_synced_up_to_def set_synced_checkpoint_up_to_def
      set_synced_attestation_up_to_def upsert_def Let_def split: if_splits)

lemma append_checkpoint_events:
  "append_checkpoint fault c l db = Inr db' \<Longrightarrow> events db' = events db"
  by (auto simp: append_checkpoint_def split: sum.splits if_splits)

lemmas other_steps_events = set_synced_events append_checkpoint_events

lemma world_ok_same_events:
  "world_ok sha w \<Longrightarrow> events db' = events (w_db w) \<Longrightarrow> world_ok sha (w\<lparr>w_db := db'\<rparr>)"
  by (simp add: world_ok_def db_ok_def stands_on_def)

lemma world_ok_update:
  assumes "world_ok sha w" "db_ok sha db'" "events db' = events (w_db w) @ rs" "\<exists>j. stands_on j l' db'"
  shows "world_ok sha \<lparr>w_db = db', w_ledgers = (w_ledgers w)[i := l']\<rparr>"
proof -
  have "\<exists>j. stands_on j l db'" if "l \<in> set ((w_ledgers w)[i := l'])" for l
  proof -
    from that set_update_subset_insert [of "w_ledgers w" i l'] consider "l = l'" | "l \<in> set (w_ledgers w)"
      by blast
    then show ?thesis
    proof cases
      case 2
      with assms(1) obtain k where "stands_on k l (w_db w)" by (auto simp: world_ok_def)
      from stands_on_append [OF this assms(3)] show ?thesis ..
    qed (use assms(4) in simp)
  qed
  with assms(2) show ?thesis by (simp add: world_ok_def)
qed

lemma ledger_step_ok:
  assumes "ledger_step sha w w'" "world_ok sha w"
  shows "world_ok sha w' \<and> (\<exists>rs. events (w_db w') = events (w_db w) @ rs)"
proof -
  have db: "db_ok sha (w_db w)" and at: "i < length (w_ledgers w) \<Longrightarrow> \<exists>k. stands_on k (w_ledgers w ! i) (w_db w)"
    for i using assms(2) by (auto simp: world_ok_def)
  note same = world_ok_update [OF assms(2) db, of "[]", simplified]
  show ?thesis
    using assms(1)
  proof (cases rule: ledger_step.cases)
    case (step_open device strict)
    then show ?thesis
      using assms(2) current_open [of sha "w_db w"] unfolding world_ok_def current_def
      by (simp add: ball_Un) blast
  next
    case (step_append i env ev res l' db')
    then obtain k where k: "stands_on k (w_ledgers w ! i) (w_db w)" using at by blast
    then obtain rs where rs: "db_ok sha db'" "events db' = events (w_db w) @ rs" "\<exists>j. stands_on j l' db'"
      using append_spec [OF db k step_append(3)] by blast
    from world_ok_update [OF assms(2) rs] rs(2) show ?thesis unfolding step_append(1) by simp
  next
    case (step_attempt i fault ev entry l' db')
    then obtain k where k: "stands_on k (w_ledgers w ! i) (w_db w)" using at by blast
    from attempt_commits [OF db k step_attempt(3)] obtain rs where
      rs: "db_ok sha db'" "events db' = events (w_db w) @ rs" "\<exists>j. stands_on j l' db'"
      by (auto simp: current_def commits_def)
    from world_ok_update [OF assms(2) rs] rs(2) show ?thesis unfolding step_attempt(1) by simp
  next
    case (step_resync i)
    have "\<exists>j. stands_on j (resync (w_ledgers w ! i) (w_db w)) (w_db w)"
      using current_resync [OF db] by (auto simp: current_def)
    from same [OF this, of i] show ?thesis unfolding step_resync(1) by (simp add: world_ok_def)
  next
    case (step_close i)
    then have "\<exists>j. stands_on j (close_ledger (w_ledgers w ! i)) (w_db w)"
      using at by (simp add: close_ledger_def stands_on_def)
    from same [OF this, of i] show ?thesis unfolding step_close(1) by (simp add: world_ok_def)
  qed (use assms(2) other_steps_events world_ok_same_events in \<open>auto\<close>)
qed

lemma ledger_reach_ok: "ledger_reach sha w \<Longrightarrow> world_ok sha w"
proof (induction rule: ledger_reach.induct)
  case reach_empty
  then show ?case by (simp add: world_ok_def empty_world_def db_ok_def)
qed (use ledger_step_ok in blast)

lemma ledger_steps_prefix:
  assumes "(ledger_step sha)\<^sup>*\<^sup>* w w'" "world_ok sha w"
  shows "world_ok sha w' \<and> (\<exists>rs. events (w_db w') = events (w_db w) @ rs)"
  using assms
proof (induction rule: rtranclp_induct)
  case (step y z)
  then obtain rs ss where "events (w_db y) = events (w_db w) @ rs" "events (w_db z) = events (w_db y) @ ss"
    "world_ok sha z" using ledger_step_ok by metis
  then show ?case by simp
qed auto

text \<open>A world with one ledger open on an empty file.\<close>

definition one_ledger :: "bool \<Rightarrow> world" where
  "one_ledger strict =
     empty_world\<lparr>w_ledgers := [open_ledger (u ''dev'') strict (w_db empty_world)]\<rparr>"

lemma one_ledger_reach: "ledger_reach sha (one_ledger strict)"
proof -
  have "ledger_step sha empty_world (one_ledger strict)"
    using step_open [of sha empty_world "u ''dev''" strict]
    by (simp add: one_ledger_def empty_world_def)
  then show ?thesis using reach_empty reach_step by blast
qed

definition plain_env :: append_env where
  "plain_env = \<lparr>marker_io = (IoOk, IoOk), event_io = (IoOk, IoOk), marker_event_id = [109],
     marker_trace_id = [], marker_span_id = [], marker_ts = [], marker_ns = 0, failure_ts = [],
     error_text = (\<lambda>_. [])\<rparr>"

section \<open>Properties\<close>

text \<open>
  C1: However many \<open>Ledger\<close> objects write one file, in whatever order, and whichever statements
  fail: the file holds one unforked chain. Its rows have the sequence numbers 1, 2, 3, ..., every
  row names the entry hash of the row before it (the first one genesis), carries the entry hash and
  the digest of the event its columns hold, no event id occurs twice, and every open object stands
  at some point of that chain.
\<close>

theorem ledger_single_chain:
  assumes "ledger_reach sha w"
  shows "rows_ok sha GENESIS_PREV_HASH 1 (events (w_db w)) \<and> distinct (map row_event_id (events (w_db w)))
    \<and> (\<forall>l\<in>set (w_ledgers w). \<exists>k. stands_on k l (w_db w))"
  using ledger_reach_ok [OF assms] by (simp add: world_ok_def db_ok_def)

text \<open>
  The event table is append-only: from any reachable state, whatever the instances go on to do,
  the rows that were there stay, unchanged and in place.
\<close>

theorem ledger_append_only:
  assumes "ledger_reach sha w" "(ledger_step sha)\<^sup>*\<^sup>* w w'"
  shows "take (length (events (w_db w))) (events (w_db w')) = events (w_db w)"
  using ledger_steps_prefix [OF assms(2) ledger_reach_ok [OF assms(1)]] by auto

text \<open>
  C2: \<open>append\<close> accounts for the event it was given. Either it returns the entry, and exactly that
  row is on disk; or it raises and no row of the event is there; or it returns \<open>None\<close>, only when
  not strict, and the event is the newest pending failure (a closed ledger only logs). Failures
  that were pending stay so unless one marker row listing all of them was committed first.
\<close>

theorem append_accounts_for_event:
  assumes "ledger_reach sha w" "l \<in> set (w_ledgers w)" "append sha env ev l (w_db w) = (res, l', db')"
  shows "appended ev res l l' (w_db w) db'"
proof -
  obtain k where "stands_on k l (w_db w)" "db_ok sha (w_db w)"
    using ledger_reach_ok [OF assms(1)] assms(2) by (auto simp: world_ok_def)
  then show ?thesis using append_spec assms(3) by blast
qed

lemma append_succeeds_aux:
  assumes "db_ok sha db" "stands_on k l db" "\<not> closed l" "pending_failures l = []"
    and "event_io env = (IoOk, IoOk)" "jsonable (to_dict ev)"
    and "ev_event_id ev \<notin> row_event_id ` set (events db)"
  shows "\<exists>entry l' db'. append sha env ev l db = (Inr (Some entry), l', db')
      \<and> le_seq entry = int (length (events db)) + 1 \<and> le_prev_hash entry = head_after (events db)"
proof -
  obtain entry l' db' where a: "append_locked sha (event_io env) ev l db = (Inr entry, l', db')"
    using append_locked_succeeds [OF assms(1,2,6,7,5)] by blast
  obtain l0 where c: "commits sha ev entry l0 l' db db'" using append_locked_Inr(1) [OF assms(1,2) a] by blast
  have "append sha env ev l db = (Inr (Some entry), l', db')"
    using append_open_eq [OF assms(3) _ a] assms(4) by simp
  moreover have "le_seq entry = int (length (events db)) + 1" "le_prev_hash entry = head_after (events db)"
    using c by (auto simp: commits_def)
  ultimately show ?thesis by blast
qed

text \<open>
  An \<open>append\<close> that no statement failure disturbs succeeds, also from an instance whose head is
  stale because another process has written: an event JCS can express, with an id not yet in the
  file, is committed at the next sequence number on top of the newest row.
\<close>

theorem append_succeeds:
  assumes "ledger_reach sha w" "l \<in> set (w_ledgers w)" "\<not> closed l" "pending_failures l = []"
    and "event_io env = (IoOk, IoOk)" "jsonable (to_dict ev)"
    and "ev_event_id ev \<notin> row_event_id ` set (events (w_db w))"
  shows "\<exists>entry l' db'. append sha env ev l (w_db w) = (Inr (Some entry), l', db')
      \<and> le_seq entry = int (length (events (w_db w))) + 1
      \<and> le_prev_hash entry = head_after (events (w_db w))"
proof -
  obtain k where "stands_on k l (w_db w)" "db_ok sha (w_db w)"
    using ledger_reach_ok [OF assms(1)] assms(2) by (auto simp: world_ok_def)
  then show ?thesis using append_succeeds_aux assms(3-) by blast
qed

text \<open>
  The head fixes the history: two ledger files, each written by any instances in any way, whose
  heads agree hold the same digests and entry hashes at every sequence number; otherwise two of the
  link documents that were hashed are a SHA-256 collision. So editing, dropping, inserting or
  reordering rows cannot keep a head that was published.
\<close>

theorem ledger_head_fixes_history:
  assumes "ledger_reach sha w" "ledger_reach sha v" "events (w_db w) \<noteq> []" "events (w_db v) \<noteq> []"
    and "head_after (events (w_db w)) = head_after (events (w_db v))"
  shows "links (events (w_db w)) = links (events (w_db v))
    \<or> collision_on sha (link_bytes `
        (link_inputs GENESIS_PREV_HASH 1 (links (events (w_db w)))
          \<union> link_inputs GENESIS_PREV_HASH 1 (links (events (w_db v)))))"
proof -
  have rows: "rows_ok sha GENESIS_PREV_HASH 1 (events (w_db x))" if "ledger_reach sha x" for x
    using ledger_reach_ok [OF that] by (simp add: world_ok_def db_ok_def)
  show ?thesis
    using ledger_chain.head_determines_chain
        [OF rows_ok_linked [OF rows [OF assms(1)]] rows_ok_linked [OF rows [OF assms(2)]]
            genesis_ok(1) _ _ assms(5) [unfolded head_after_def]]
      assms(3,4) rows_ok_digests [OF rows [OF assms(1)]] rows_ok_digests [OF rows [OF assms(2)]]
    by simp
qed

section \<open>The marker path\<close>

lemma surrogate_not_digested:
  assumes "\<not> clean (ev_event_id ev)"
  shows "\<exists>e. event_digest sha (with_seq ev s) = Inl e"
proof -
  have "\<not> jsonable (to_dict (with_seq ev s))"
    unfolding jsonable_with_seq using assms
    by (auto simp: to_dict_def jsonable_dict_of event_items_def field_values_def V2_ONLY_FIELDS_def
        split: if_splits)
  then have "\<nexists>t. serialize (to_dict (with_seq ev s)) = Inr t" unfolding serialize_succeeds_aux .
  then obtain e where "serialize (to_dict (with_seq ev s)) = Inl e"
    by (cases "serialize (to_dict (with_seq ev s))") auto
  then show ?thesis by (simp add: event_digest_def canonicalize_def canonical_dumps_def)
qed

lemma surrogate_append_locked:
  assumes "\<not> clean (ev_event_id ev)"
  shows "\<exists>e. append_locked sha faults ev l db = (Inl (NotCanonical e), l, db)"
proof -
  obtain e where "event_digest sha (with_seq ev (next_seq l)) = Inl e"
    using surrogate_not_digested [OF assms] by blast
  then have "attempt sha (fst faults) ev l db = Inl (NotCanonical e)"
    by (simp add: attempt_def Let_def)
  then show ?thesis by (auto simp: append_locked_def)
qed

lemma surrogate_failure_doc:
  assumes "f \<in> set fs" "\<not> clean (f_event_id f)"
  shows "\<exists>c. canonicalize (marker_payload fs) = Inl c"
proof -
  have "\<not> jsonable (failure_doc f)" using assms(2) by (simp add: failure_doc_def jsonable_dict_of)
  then have "\<not> jsonable (marker_payload fs)"
    using assms(1) by (auto simp: marker_payload_def jsonable_dict_of list_all_iff)
  then have "\<nexists>t. serialize (marker_payload fs) = Inr t" unfolding serialize_succeeds_aux .
  then obtain c where "serialize (marker_payload fs) = Inl c"
    by (cases "serialize (marker_payload fs)") auto
  then show ?thesis by (simp add: canonicalize_def canonical_dumps_def)
qed

lemma wedged_append:
  assumes "\<not> closed l" "f \<in> set (pending_failures l)" "\<not> clean (f_event_id f)"
  shows "\<exists>c. append sha env ev l db = (Inl (UncaughtCanonError c), l, db)"
proof -
  obtain c where "canonicalize (marker_payload (pending_failures l)) = Inl c"
    using surrogate_failure_doc [OF assms(2,3)] by blast
  moreover have "pending_failures l \<noteq> []" using assms(2) by auto
  ultimately show ?thesis using assms(1) by (simp add: append_def drain_failures_def)
qed

text \<open>
  C6: One event whose id holds a lone surrogate stops a non-strict ledger for good. The event itself
  is dropped quietly, as it should be; but its pending failure record cannot be canonicalised, the
  marker's payload hash is computed outside the \<open>try\<close>, and so every later \<open>append\<close>, of any event,
  raises instead of returning, with nothing written.
\<close>

theorem surrogate_event_wedges_ledger:
  assumes "\<not> closed l" "\<not> strict_mode l" "pending_failures l = []" "\<not> clean (ev_event_id ev)"
  shows "\<exists>l'. append sha env ev l db = (Inr None, l', db)
    \<and> (\<forall>env2 ev2 db2. \<exists>c. append sha env2 ev2 l' db2 = (Inl (UncaughtCanonError c), l', db2))"
proof -
  obtain e where a: "append_locked sha (event_io env) ev l db = (Inl (NotCanonical e), l, db)"
    using surrogate_append_locked [OF assms(4)] by blast
  obtain l' f where l': "on_write_failure env ev (NotCanonical e) True l = (Inr None, l')"
      "pending_failures l' = [f]" "f_event_id f = ev_event_id ev" "closed l' = closed l"
    using assms by (auto simp: on_write_failure_def)
  have "append sha env ev l db = (Inr None, l', db)"
    using append_open_eq [OF assms(1) _ a] assms(3) l'(1) by simp
  moreover have "\<exists>c. append sha env2 ev2 l' db2 = (Inl (UncaughtCanonError c), l', db2)" for env2 ev2 db2
    by (rule wedged_append [of l' f]) (use l' assms in simp_all)
  ultimately show ?thesis by blast
qed

theorem surrogate_event_wedges_ledger_witness:
  "\<exists>l'. append id plain_env (sample_event\<lparr>ev_event_id := [0xD800]\<rparr>)
        (open_ledger (u ''dev'') False (w_db empty_world)) (w_db empty_world) = (Inr None, l', w_db empty_world)
    \<and> (\<forall>env2 ev2 db2. \<exists>c. append id env2 ev2 l' db2 = (Inl (UncaughtCanonError c), l', db2))"
  by (rule surrogate_event_wedges_ledger) (simp_all add: open_ledger_def clean_def surrogate_def sample_event_def)

section \<open>Gaps\<close>

definition in_ranges :: "(int \<times> int) list \<Rightarrow> int \<Rightarrow> bool" where
  "in_ranges rs s \<longleftrightarrow> (\<exists>r\<in>set rs. fst r \<le> s \<and> s \<le> snd r)"

lemma in_ranges_simps [simp]:
  "\<not> in_ranges [] s" "in_ranges (r # rs) s \<longleftrightarrow> fst r \<le> s \<and> s \<le> snd r \<or> in_ranges rs s"
  "in_ranges (rs @ qs) s \<longleftrightarrow> in_ranges rs s \<or> in_ranges qs s"
  by (auto simp: in_ranges_def)

lemma sorted_last_max: "sorted_wrt (<) (p # xs) \<Longrightarrow> x \<in> set (p # xs) \<Longrightarrow> x \<le> (last (p # xs) :: int)"
  by (cases xs rule: rev_cases) (auto simp: sorted_wrt_append)

lemma gaps_between_spec:
  assumes "sorted_wrt (<) (p # seqs)"
  shows "in_ranges (gaps_between (p # seqs)) s \<longleftrightarrow> p < s \<and> s < last (p # seqs) \<and> s \<notin> set seqs"
  using assms
proof (induction seqs arbitrary: p)
  case (Cons c rest)
  have tail: "sorted_wrt (<) (c # rest)" and lt: "p < c" using Cons.prems by simp_all
  have last: "c \<le> last (c # rest)" using sorted_last_max [OF tail] by simp
  have mem: "\<forall>x\<in>set rest. c < x" using tail by simp
  have "in_ranges (gaps_between (p # c # rest)) s \<longleftrightarrow>
      (p < s \<and> s < c) \<or> in_ranges (gaps_between (c # rest)) s"
    using lt by auto
  also have "\<dots> \<longleftrightarrow> p < s \<and> s < last (p # c # rest) \<and> s \<notin> set (c # rest)"
    unfolding Cons.IH [OF tail] using lt last mem by (auto split: if_splits)
  finally show ?case .
qed simp

lemma distinct_rows_by_seq:
  "distinct (map row_seq (events db)) \<Longrightarrow> sorted_wrt (<) (map row_seq (rows_by_seq db))"
proof -
  assume "distinct (map row_seq (events db))"
  then have "distinct (map row_seq (rows_by_seq db))"
    by (metis mset_eq_imp_distinct_iff mset_map mset_sort rows_by_seq_def)
  then show ?thesis by (simp add: strict_sorted_iff rows_by_seq_def)
qed

text \<open>
  \<open>missing_ranges\<close> reports exactly the lost sequence numbers: for any table whose sequence numbers
  are positive and unique (rows may have been deleted), a number lies in a reported range iff it is
  at least 1, below the newest sequence number, and no row has it.
\<close>

theorem missing_ranges_exact:
  assumes "\<not> closed l" "distinct (map row_seq (events db))" "\<forall>r\<in>set (events db). row_seq r \<ge> 1"
    and "missing_ranges l db = Inr ranges"
  shows "in_ranges ranges s \<longleftrightarrow>
     1 \<le> s \<and> (\<exists>r\<in>set (events db). s < row_seq r) \<and> s \<notin> row_seq ` set (events db)"
proof -
  let ?seqs = "map row_seq (rows_by_seq db)"
  have set: "set ?seqs = row_seq ` set (events db)" by (simp add: rows_by_seq_def)
  show ?thesis
  proof (cases ?seqs)
    case Nil
    with assms(1,4) have "ranges = []" by (auto simp: missing_ranges_def require_open_def)
    moreover have "events db = []" using Nil set by auto
    ultimately show ?thesis by simp
  next
    case (Cons p seqs)
    have sorted: "sorted_wrt (<) (p # seqs)" using distinct_rows_by_seq [OF assms(2)] Cons by simp
    have "p \<in> row_seq ` set (events db)" using Cons set by (metis list.set_intros(1))
    then have p: "p \<ge> 1" using assms(3) by auto
    have ranges: "ranges = (if p > 1 then [(1, p - 1)] else []) @ gaps_between (p # seqs)"
      using assms(1,4) Cons by (auto simp: missing_ranges_def require_open_def Let_def)
    have "(\<exists>r\<in>set (events db). s < row_seq r) \<longleftrightarrow> (\<exists>x\<in>set (p # seqs). s < x)"
      unfolding Cons [symmetric] set by auto
    also have "\<dots> \<longleftrightarrow> s < last (p # seqs)"
      using sorted_last_max [OF sorted] last_in_set [of "p # seqs"] by fastforce
    finally have newest: "(\<exists>r\<in>set (events db). s < row_seq r) \<longleftrightarrow> s < last (p # seqs)" .
    have first: "\<forall>x\<in>set seqs. p < x" and le: "p \<le> last (p # seqs)"
      using sorted sorted_last_max [OF sorted] by auto
    have "in_ranges ranges s \<longleftrightarrow> (1 \<le> s \<and> s < p) \<or> p < s \<and> s < last (p # seqs) \<and> s \<notin> set seqs"
      unfolding ranges in_ranges_simps gaps_between_spec [OF sorted] by auto
    also have "\<dots> \<longleftrightarrow> 1 \<le> s \<and> s < last (p # seqs) \<and> s \<notin> set (p # seqs)"
      using first le p by auto
    finally show ?thesis unfolding newest set [unfolded Cons, symmetric] .
  qed
qed

section \<open>Watermarks and checkpoints\<close>

text \<open>Where the three watermarks may be, and that \<open>seq_end\<close> is a key of the checkpoint table.\<close>

definition marks_ok :: "ledger_db \<Rightarrow> bool" where
  "marks_ok db \<longleftrightarrow>
     distinct (map cp_seq_end (checkpoints db))
     \<and> 0 \<le> synced_up_to_seq (sync_of db) \<and> synced_up_to_seq (sync_of db) \<le> int (length (events db))
     \<and> (\<forall>m\<in>{synced_checkpoint_up_to_seq (sync_of db), synced_attestation_up_to_seq (sync_of db)}.
          0 \<le> m \<and> (0 < m \<longrightarrow> (\<exists>c\<in>set (checkpoints db). m \<le> cp_seq_end c)))"

lemma sync_of_upsert [simp]:
  "sync_of (upsert f now db) = (f (sync_of db))\<lparr>sync_updated_at := now\<rparr>"
  "events (upsert f now db) = events db" "checkpoints (upsert f now db) = checkpoints db"
  by (simp_all add: upsert_def sync_of_def)

lemma latest_end_Some:
  "latest_end db = Some m \<Longrightarrow> \<exists>c\<in>set (checkpoints db). cp_seq_end c = m"
proof -
  assume "latest_end db = Some m"
  then have "checkpoints db \<noteq> []" "m = Max (cp_seq_end ` set (checkpoints db))"
    by (auto simp: latest_end_def split: list.splits)
  then have "m \<in> cp_seq_end ` set (checkpoints db)" by (metis Max_in List.finite_set finite_imageI image_is_empty set_empty2)
  then show ?thesis by auto
qed

lemma find_checkpoint_None:
  "find_checkpoint e db = None \<longleftrightarrow> e \<notin> cp_seq_end ` set (checkpoints db)"
  by (auto simp: find_checkpoint_def find_None_iff)

lemma append_checkpoint_cases:
  assumes "append_checkpoint fault k l db = Inr db'"
  obtains (kept) c where "find_checkpoint (k_seq_end k) db = Some c" "db' = db"
  | (new) body where "find_checkpoint (k_seq_end k) db = None"
      "canonical_dumps (dict_of (checkpoint_dict k)) = Inr body"
      "db' = db\<lparr>checkpoints := checkpoints db @
        [\<lparr>cp_seq_end = k_seq_end k, cp_device_id = k_device_id k, cp_seq_start = k_seq_start k,
          cp_chain_head = k_chain_head k, cp_ts_device = k_ts_device k, cp_sig = k_sig k, cp_body = body\<rparr>]\<rparr>"
  using assms by (auto simp: append_checkpoint_def split: sum.splits if_splits)

lemma append_checkpoint_marks:
  assumes "append_checkpoint fault k l db = Inr db'" "marks_ok db"
  shows "marks_ok db'"
  using assms(1)
proof (cases rule: append_checkpoint_cases)
  case (new body)
  then have "k_seq_end k \<notin> cp_seq_end ` set (checkpoints db)" by (simp add: find_checkpoint_None)
  moreover have "sync_of db' = sync_of db" using new by (simp add: sync_of_def)
  ultimately show ?thesis using assms(2) new by (auto simp: marks_ok_def)
qed (use assms in simp)

lemma marks_ok_events:
  "marks_ok db \<Longrightarrow> events db' = events db @ rs \<Longrightarrow> checkpoints db' = checkpoints db \<Longrightarrow>
   sync_state db' = sync_state db \<Longrightarrow> marks_ok db'"
  by (auto simp: marks_ok_def sync_of_def)

lemma set_synced_marks:
  assumes "marks_ok db" "stands_on k l db"
  shows "set_synced_up_to now s l db = Inr db' \<Longrightarrow> marks_ok db'"
    "set_synced_checkpoint_up_to now s l db = Inr db' \<Longrightarrow> marks_ok db'"
    "set_synced_attestation_up_to now s l db = Inr db' \<Longrightarrow> marks_ok db'"
proof -
  show "set_synced_up_to now s l db = Inr db' \<Longrightarrow> marks_ok db'"
    using assms by (auto simp: set_synced_up_to_def marks_ok_def stands_on_def split: if_splits)
  show "set_synced_checkpoint_up_to now s l db = Inr db' \<Longrightarrow> marks_ok db'"
    using assms(1) latest_end_Some [of db]
    by (auto simp: set_synced_checkpoint_up_to_def Let_def marks_ok_def not_less split: if_splits)
  show "set_synced_attestation_up_to now s l db = Inr db' \<Longrightarrow> marks_ok db'"
    using assms(1) latest_end_Some [of db]
    by (auto simp: set_synced_attestation_up_to_def Let_def marks_ok_def not_less split: if_splits)
qed

text \<open>An \<open>append\<close> does not touch the other tables.\<close>

definition same_tables :: "ledger_db \<Rightarrow> ledger_db \<Rightarrow> bool" where
  "same_tables db db' \<longleftrightarrow> checkpoints db' = checkpoints db \<and> sync_state db' = sync_state db"

lemma same_tables_refl [simp]: "same_tables db db"
  by (simp add: same_tables_def)

lemma same_tables_trans: "same_tables a b \<Longrightarrow> same_tables b c \<Longrightarrow> same_tables a c"
  by (simp add: same_tables_def)

lemma attempt_tables: "attempt sha fault ev l db = Inr (entry, l', db') \<Longrightarrow> same_tables db db'"
  by (auto simp: attempt_def Let_def same_tables_def split: sum.splits if_splits)

lemma append_locked_tables: "append_locked sha faults ev l db = (r, l', db') \<Longrightarrow> same_tables db db'"
  by (auto simp: append_locked_def Let_def split: sum.splits write_error.splits prod.splits
      dest: attempt_tables)

lemma drain_tables: "drain_failures sha env l db = (r, l', db') \<Longrightarrow> same_tables db db'"
  by (auto simp: drain_failures_def split: sum.splits prod.splits dest: append_locked_tables)

lemma append_tables:
  assumes "append sha env ev l db = (res, l', db')"
  shows "same_tables db db'"
proof (cases "closed l")
  case False
  obtain r0 l1 db1 where d: "(if pending_failures l = [] then (Inr (), l, db)
      else drain_failures sha env l db) = (r0, l1, db1)"
    by (metis prod_cases3)
  then have t: "same_tables db db1" using drain_tables by (auto split: if_splits)
  show ?thesis
  proof (cases r0)
    case (Inl e)
    with False assms d t show ?thesis by (auto simp: append_def)
  next
    case (Inr x)
    obtain r l2 db2 where a: "append_locked sha (event_io env) ev l1 db1 = (r, l2, db2)"
      by (metis prod_cases3)
    then have "db' = db2"
      using append_open_eq [OF False _ a] d assms Inr by (auto split: sum.splits prod.splits)
    with t append_locked_tables [OF a] same_tables_trans show ?thesis by blast
  qed
qed (use assms in \<open>auto simp: append_def split: prod.splits\<close>)

lemma ledger_reach_marks: "ledger_reach sha w \<Longrightarrow> marks_ok (w_db w)"
proof (induction rule: ledger_reach.induct)
  case reach_empty
  then show ?case by (simp add: empty_world_def marks_ok_def sync_of_def no_sync_def)
next
  case (reach_step w w')
  have ok: "world_ok sha w" using reach_step.hyps(1) by (rule ledger_reach_ok)
  then have at: "i < length (w_ledgers w) \<Longrightarrow> \<exists>k. stands_on k (w_ledgers w ! i) (w_db w)" for i
    by (auto simp: world_ok_def)
  obtain rs where rs: "events (w_db w') = events (w_db w) @ rs"
    using ledger_step_ok [OF reach_step.hyps(2) ok] by blast
  have tables: "marks_ok (w_db w')" if "same_tables (w_db w) (w_db w')"
    using marks_ok_events [OF reach_step.IH rs] that by (simp add: same_tables_def)
  from reach_step.hyps(2) show ?case
  proof (cases rule: ledger_step.cases)
    case (step_append i env ev res l' db')
    with tables append_tables show ?thesis by auto
  next
    case (step_attempt i fault ev entry l' db')
    with tables attempt_tables show ?thesis by auto
  next
    case (step_synced i now s db')
    then obtain k where "stands_on k (w_ledgers w ! i) (w_db w)" using at by blast
    with step_synced set_synced_marks(1) reach_step.IH show ?thesis by simp
  next
    case (step_synced_checkpoint i now s db')
    then obtain k where "stands_on k (w_ledgers w ! i) (w_db w)" using at by blast
    with step_synced_checkpoint set_synced_marks(2) reach_step.IH show ?thesis by simp
  next
    case (step_synced_attestation i now s db')
    then obtain k where "stands_on k (w_ledgers w ! i) (w_db w)" using at by blast
    with step_synced_attestation set_synced_marks(3) reach_step.IH show ?thesis by simp
  next
    case (step_checkpoint i fault c db')
    with append_checkpoint_marks reach_step.IH show ?thesis by auto
  qed (use reach_step.IH in simp_all)
qed

text \<open>
  The three watermarks never run ahead of what exists: in every reachable state the entry
  watermark lies between 0 and the newest sequence number, the checkpoint and the attestation
  watermark are 0 or at most some stored \<open>seq_end\<close>; and no two stored checkpoints share a \<open>seq_end\<close>.
\<close>

theorem watermarks_bounded:
  assumes "ledger_reach sha w"
  shows "marks_ok (w_db w)"
  using assms by (rule ledger_reach_marks)

lemma filter_after_last:
  fixes f :: "'a \<Rightarrow> int"
  assumes "sorted_wrt (<) (map f (ys @ zs))" "ys \<noteq> []"
  shows "filter (\<lambda>r. f (last ys) < f r) (ys @ zs) = zs"
proof -
  obtain ys' y where y: "ys = ys' @ [y]" using assms(2) by (cases ys rule: rev_cases) auto
  have "\<forall>r\<in>set ys. \<not> f (last ys) < f r" "\<forall>r\<in>set zs. f (last ys) < f r"
    using assms(1) by (auto simp: y sorted_wrt_append)
  then show ?thesis by (simp add: filter_empty_conv filter_id_conv)
qed

lemma limited_append: "\<exists>zs. xs = limited n xs @ zs"
proof (cases n)
  case (Some k)
  then show ?thesis by (auto simp: limited_def intro!: exI [of _ "drop k xs"])
qed (simp add: limited_def)

text \<open>
  Confirming a batch and reading on loses and repeats nothing: if \<open>read_unsynced\<close> hands out a batch
  (under any limit) and the shipper confirms the last entry of it, then what is unsynced afterwards
  is what was unsynced before without exactly that batch.
\<close>

theorem shipping_loses_nothing:
  assumes "distinct (map row_seq (events db))"
    and "read_unsynced loads n l db = Inr batch" "batch \<noteq> []"
    and "read_unsynced loads None l db = Inr todo"
    and "set_synced_up_to now (le_seq (last batch)) l db = Inr db'"
  shows "\<exists>rest. todo = batch @ rest \<and> read_unsynced loads None l db' = Inr rest"
proof -
  let ?todo = "filter (\<lambda>r. row_seq r > synced_up_to_seq (sync_of db)) (rows_by_seq db)"
  have opened: "\<not> closed l" using assms(2) by (auto simp: read_unsynced_def require_open_def)
  obtain zs where zs: "?todo = limited n ?todo @ zs" using limited_append by blast
  define ys where "ys = limited n ?todo"
  have split: "?todo = ys @ zs" unfolding ys_def by (rule zs)
  have batch: "batch = map (row_to_entry loads) ys"
    using assms(2) opened by (simp add: read_unsynced_def require_open_def ys_def)
  have todo: "todo = map (row_to_entry loads) (ys @ zs)"
    using assms(4) opened unfolding split [symmetric]
    by (simp add: read_unsynced_def require_open_def limited_def)
  have nonempty: "ys \<noteq> []" using assms(3) batch by auto
  have m: "le_seq (last batch) = row_seq (last ys)"
    using nonempty by (simp add: batch last_map row_to_entry_def)
  have db': "rows_by_seq db' = rows_by_seq db" "synced_up_to_seq (sync_of db') = row_seq (last ys)"
    and ge: "synced_up_to_seq (sync_of db) \<le> row_seq (last ys)"
    using assms(5) m by (auto simp: set_synced_up_to_def rows_by_seq_def split: if_splits)
  have "sorted_wrt (<) (map row_seq ?todo)"
    using distinct_rows_by_seq [OF assms(1)] by (simp add: sorted_wrt_map sorted_wrt_filter)
  from filter_after_last [OF this [unfolded split] nonempty]
  have "filter (\<lambda>r. row_seq (last ys) < row_seq r) ?todo = zs" by (simp add: split)
  moreover have "filter (\<lambda>r. row_seq (last ys) < row_seq r) ?todo
      = filter (\<lambda>r. row_seq (last ys) < row_seq r) (rows_by_seq db)"
    using ge unfolding filter_filter by (intro filter_cong) auto
  ultimately have "read_unsynced loads None l db' = Inr (map (row_to_entry loads) zs)"
    using opened db' by (simp add: read_unsynced_def require_open_def limited_def)
  then show ?thesis by (simp add: batch todo)
qed

text \<open>
  A stored checkpoint is never overwritten: after \<open>append_checkpoint\<close>, of any checkpoint and
  whatever its \<open>seq_end\<close>, every checkpoint that could be found by its \<open>seq_end\<close> is still the one
  found, and one is found for the \<open>seq_end\<close> just offered; no other \<open>seq_end\<close> gains one.
\<close>

theorem append_checkpoint_first_wins:
  assumes "append_checkpoint fault k l db = Inr db'"
  shows "(\<forall>e c. find_checkpoint e db = Some c \<longrightarrow> find_checkpoint e db' = Some c)
    \<and> find_checkpoint (k_seq_end k) db' \<noteq> None
    \<and> (\<forall>e. e \<noteq> k_seq_end k \<longrightarrow> find_checkpoint e db' = find_checkpoint e db)"
  using assms
proof (cases rule: append_checkpoint_cases)
  case (new body)
  have find_snoc: "find P (xs @ [x]) = (case find P xs of Some y \<Rightarrow> Some y | None \<Rightarrow> if P x then Some x else None)"
    for P xs and x :: cp_row by (induction xs) auto
  show ?thesis using new(1) unfolding new(3) find_checkpoint_def
    by (auto simp: find_snoc split: option.splits)
qed auto

section \<open>The properties at a concrete ledger\<close>

text \<open>One event appended to an empty file.\<close>

definition fresh :: ledger where
  "fresh = open_ledger (u ''dev'') True (w_db empty_world)"

lemma one_ledger_simps:
  "w_ledgers (one_ledger True) = [fresh]" "w_db (one_ledger True) = w_db empty_world"
  by (simp_all add: one_ledger_def fresh_def)

lemma fresh_simps: "\<not> closed fresh" "pending_failures fresh = []" "strict_mode fresh"
  by (simp_all add: fresh_def open_ledger_def)

lemma empty_world_ok: "db_ok sha (w_db empty_world)" "stands_on 0 fresh (w_db empty_world)"
  by (simp_all add: empty_world_def db_ok_def stands_on_def fresh_def open_ledger_def resume_def rows_by_seq_def)

lemma sample_jsonable: "jsonable (to_dict sample_event)"
  using to_dict_succeeds_aux [of 1] by (simp add: sample_event_def)

lemma first_append:
  obtains entry l' db' where "append id plain_env sample_event fresh (w_db empty_world) = (Inr (Some entry), l', db')"
    "le_seq entry = 1" "length (events db') = 1" "checkpoints db' = []"
    "ledger_step id (one_ledger True) \<lparr>w_db = db', w_ledgers = [l']\<rparr>" "\<not> closed l'" "next_seq l' = 2"
    "sync_state db' = None" "map row_seq (events db') = [1]" "map row_kind (events db') = [u ''message'']"
    "map row_payload (events db') = [u ''{}'']" "map row_event_id (events db') = [[49]]"
proof -
  obtain entry l' db' where a: "append id plain_env sample_event fresh (w_db empty_world) = (Inr (Some entry), l', db')"
      "le_seq entry = 1"
    using append_succeeds_aux [OF empty_world_ok fresh_simps(1,2), of plain_env sample_event id] sample_jsonable
    by (auto simp: plain_env_def empty_world_def)
  from append_spec [OF empty_world_ok a(1)] have sp: "appended sample_event (Inr (Some entry)) fresh l' (w_db empty_world) db'"
      "db_ok id db'" "same_identity fresh l'" by auto
  have len: "length (events db') = 1"
    using sp(1) fresh_simps(2) by (auto simp: appended_def append_outcome_def empty_world_def)
  have seqs: "map row_seq (events db') = [1]"
    using sp(2) len rows_ok_seqs [of id GENESIS_PREV_HASH 1 "events db'"] by (simp add: db_ok_def)
  have "ledger_step id (one_ledger True) \<lparr>w_db = db', w_ledgers = [l']\<rparr>"
    using step_append [of 0 "one_ledger True" id plain_env sample_event "Inr (Some entry)" l' db'] a(1)
    by (simp add: one_ledger_simps)
  then have step: "ledger_step id (one_ledger True) \<lparr>w_db = db', w_ledgers = [l']\<rparr>" .
  have "same_tables (w_db empty_world) db'" by (rule append_tables [OF a(1)])
  then have tables: "checkpoints db' = []" "sync_state db' = None" by (simp_all add: same_tables_def empty_world_def)
  have opened: "\<not> closed l'" using sp(3) fresh_simps by (simp add: same_identity_def)
  have nxt: "next_seq l' = 2 \<and> map row_kind (events db') = [u ''message'']
      \<and> map row_payload (events db') = [u ''{}''] \<and> map row_event_id (events db') = [[49]]"
  proof -
    obtain e0 l0 db0 where al: "append_locked id (event_io plain_env) sample_event fresh (w_db empty_world) = (Inr e0, l0, db0)"
      using append_locked_succeeds [OF empty_world_ok sample_jsonable, of "event_io plain_env" id]
      by (auto simp: plain_env_def empty_world_def)
    have "l' = l0" using append_open_eq [OF fresh_simps(1) _ al] fresh_simps(2) a(1) by simp
    moreover have "current l0 db0" using append_locked_Inr(3) [OF empty_world_ok al] .
    moreover have "db0 = db'" using append_open_eq [OF fresh_simps(1) _ al] fresh_simps(2) a(1) by simp
    moreover obtain l1 row where "events db0 = events (w_db empty_world) @ [row]"
      "row_event_id row = ev_event_id sample_event" "row_kind row = ev_kind sample_event" "canonical_dumps (ev_payload sample_event) = Inr (row_payload row)"
      by (rule append_locked_commits [OF empty_world_ok al])
    ultimately show ?thesis using len
      by (auto simp: current_def stands_on_def empty_world_def sample_event_def canonical_dumps_def u_def)
  qed
  show thesis by (rule that [OF a len tables(1) step opened _ tables(2) seqs]) (use nxt in simp_all)
qed

lemma first_world:
  obtains w where "ledger_reach id w" "length (events (w_db w)) = 1" "map row_seq (events (w_db w)) = [1]"
    "ledger_step id (one_ledger True) w" "map row_kind (events (w_db w)) = [u ''message'']"
    "map row_payload (events (w_db w)) = [u ''{}'']"
  using first_append one_ledger_reach reach_step
  by (metis (no_types, lifting) world.select_convs(1))

theorem ledger_single_chain_witness:
  "\<exists>w::world. length (events (w_db w)) = 1 \<and> rows_ok id GENESIS_PREV_HASH 1 (events (w_db w))"
proof -
  obtain w where w: "ledger_reach id w" "length (events (w_db w)) = 1" by (rule first_world)
  with ledger_single_chain [OF w(1)] show ?thesis by blast
qed

theorem ledger_append_only_witness:
  "\<exists>w::world. length (events (w_db w)) = 1 \<and>
     take (length (events (w_db (one_ledger True)))) (events (w_db w)) = events (w_db (one_ledger True))"
proof -
  obtain w where w: "length (events (w_db w)) = 1" "ledger_step id (one_ledger True) w" by (rule first_world)
  with ledger_append_only [OF one_ledger_reach r_into_rtranclp [of "ledger_step id", OF w(2)]]
  show ?thesis by blast
qed

theorem append_accounts_for_event_witness:
  "\<exists>entry l' db'. appended sample_event (Inr (Some entry)) fresh l' (w_db (one_ledger True)) db'
     \<and> le_seq entry = 1"
proof -
  obtain entry l' db' where a: "append id plain_env sample_event fresh (w_db empty_world) = (Inr (Some entry), l', db')"
    "le_seq entry = 1" by (rule first_append)
  with append_accounts_for_event [OF one_ledger_reach, of fresh True id plain_env sample_event] show ?thesis
    by (auto simp: one_ledger_simps)
qed

theorem append_succeeds_witness:
  "\<exists>entry l' db'. append id plain_env sample_event fresh (w_db (one_ledger True)) = (Inr (Some entry), l', db')
     \<and> le_seq entry = 1"
  using append_succeeds [OF one_ledger_reach [of id True], of fresh plain_env sample_event]
    sample_jsonable fresh_simps
  by (auto simp: one_ledger_simps plain_env_def empty_world_def)

theorem ledger_head_fixes_history_witness:
  "\<exists>(w::world) (v::world). length (events (w_db w)) = 1 \<and> length (w_ledgers v) = Suc (length (w_ledgers w)) \<and>
     (links (events (w_db w)) = links (events (w_db v))
      \<or> collision_on id (link_bytes `
        (link_inputs GENESIS_PREV_HASH 1 (links (events (w_db w)))
          \<union> link_inputs GENESIS_PREV_HASH 1 (links (events (w_db v))))))"
proof -
  obtain w where w: "ledger_reach id w" "length (events (w_db w)) = 1" by (rule first_world)
  let ?v = "w\<lparr>w_ledgers := w_ledgers w @ [open_ledger (u ''two'') False (w_db w)]\<rparr>"
  have v: "ledger_reach id ?v" using w(1) step_open by (rule reach_step)
  have "events (w_db w) \<noteq> []" using w(2) by auto
  with ledger_head_fixes_history [OF w(1) v] show ?thesis
    using w(2) by (intro exI [of _ w] exI [of _ ?v]) simp
qed

definition gap_row :: "int \<Rightarrow> lrow" where
  "gap_row i = row_of (sample_event\<lparr>ev_seq := i\<rparr>) [] [] [] []"

theorem missing_ranges_exact_witness:
  "in_ranges [(1, 2), (4, 5)] 5 \<longleftrightarrow>
     1 \<le> (5::int) \<and> (\<exists>r\<in>set [gap_row 6, gap_row 3]. 5 < row_seq r) \<and> 5 \<notin> row_seq ` set [gap_row 6, gap_row 3]"
  using missing_ranges_exact [of fresh "\<lparr>events = [gap_row 6, gap_row 3], checkpoints = [], sync_state = None\<rparr>"
      "[(1, 2), (4, 5)]" 5] fresh_simps
  by (simp add: missing_ranges_def require_open_def rows_by_seq_def gap_row_def Let_def)

theorem watermarks_bounded_witness:
  "\<exists>w::world. length (events (w_db w)) = 1 \<and> marks_ok (w_db w)"
proof -
  obtain w where w: "ledger_reach id w" "length (events (w_db w)) = 1" by (rule first_world)
  with watermarks_bounded [OF w(1)] show ?thesis by blast
qed

definition two_rows :: ledger_db where
  "two_rows = \<lparr>events = [gap_row 1, gap_row 2], checkpoints = [], sync_state = None\<rparr>"

theorem shipping_loses_nothing_witness:
  "\<exists>rest. map (row_to_entry (\<lambda>_. PNone)) [gap_row 1, gap_row 2]
       = map (row_to_entry (\<lambda>_. PNone)) [gap_row 1] @ rest
     \<and> read_unsynced (\<lambda>_. PNone) None (fresh\<lparr>next_seq := 3\<rparr>)
         (upsert (\<lambda>s. s\<lparr>synced_up_to_seq := 1\<rparr>) [] two_rows) = Inr rest"
  by (rule shipping_loses_nothing [of two_rows _ "Some 1" "fresh\<lparr>next_seq := 3\<rparr>" _ _ "[]"])
    (use fresh_simps in \<open>simp_all add: two_rows_def gap_row_def read_unsynced_def require_open_def
      limited_def rows_by_seq_def sync_of_def no_sync_def set_synced_up_to_def row_to_entry_def\<close>)

definition sample_checkpoint :: checkpoint where
  "sample_checkpoint = \<lparr>k_device_id = [100], k_seq_start = 1, k_seq_end = 4, k_chain_head = [104],
     k_ts_device = [116], k_sig = [115]\<rparr>"

lemma sample_checkpoint_stored:
  "\<exists>db'. append_checkpoint IoOk sample_checkpoint fresh (w_db empty_world) = Inr db'"
proof -
  have "jsonable (dict_of (checkpoint_dict sample_checkpoint))"
    by (simp add: checkpoint_dict_def jsonable_dict_of sample_checkpoint_def u_def clean_def surrogate_def)
  then have "\<exists>t. canonical_dumps (dict_of (checkpoint_dict sample_checkpoint)) = Inr t"
    by (simp add: canonical_dumps_def serialize_succeeds_aux)
  then show ?thesis
    using fresh_simps by (auto simp: append_checkpoint_def find_checkpoint_def empty_world_def)
qed

theorem append_checkpoint_first_wins_witness:
  "\<exists>db'. append_checkpoint IoOk sample_checkpoint fresh (w_db empty_world) = Inr db'
     \<and> find_checkpoint 4 db' \<noteq> None"
proof -
  obtain db' where db': "append_checkpoint IoOk sample_checkpoint fresh (w_db empty_world) = Inr db'"
    using sample_checkpoint_stored by blast
  with append_checkpoint_first_wins [OF db'] show ?thesis by (auto simp: sample_checkpoint_def)
qed

end
