(* ===== verification/Keys.thy ===== *)
theory Keys
  imports Schema
begin

text \<open>
  The identity part of \<open>recorder/keys.py\<close> and what the other components read off a JSON value:
  \<open>derive_device_id\<close>, \<open>DeviceKey.sign\<close> and \<open>DeviceKey.verify\<close>. Base64 decoding and the Ed25519
  primitives are outside the repository and are parameters, gathered in one record.
\<close>

section \<open>JSON values the way Python code looks at them\<close>

fun truthy :: "pyval \<Rightarrow> bool" where
  "truthy PNone = False"
| "truthy (PBool b) = b"
| "truthy (PInt i) = (i \<noteq> 0)"
| "truthy (PFloat (FFin _ ds _)) = (\<not> list_all (\<lambda>d. d = 0) ds)"
| "truthy (PFloat _) = True"
| "truthy (PStr s) = (s \<noteq> [])"
| "truthy (PSeq xs) = (xs \<noteq> [])"
| "truthy (PDict items) = (items \<noteq> [])"
| "truthy POther = True"

fun lookup :: "pystr \<Rightarrow> (pykey \<times> pyval) list \<Rightarrow> pyval option" where
  "lookup k items = map_of items (KStr k)"

text \<open>\<open>d.get(k)\<close>, with \<open>None\<close> for an absent key.\<close>

definition dget :: "pystr \<Rightarrow> (pykey \<times> pyval) list \<Rightarrow> pyval" where
  "dget k items = (case lookup k items of None \<Rightarrow> PNone | Some v \<Rightarrow> v)"

fun is_str :: "pyval \<Rightarrow> bool" where
  "is_str (PStr _) = True" | "is_str _ = False"

fun hashable :: "pyval \<Rightarrow> bool" where
  "hashable (PSeq _) = False" | "hashable (PDict _) = False" | "hashable _ = True"

text \<open>\<open>str(v)\<close>: a string is itself; \<open>repr\<close> stands for the text of any other value.\<close>

fun py_str :: "(pyval \<Rightarrow> pystr) \<Rightarrow> pyval \<Rightarrow> pystr" where
  "py_str repr (PStr s) = s"
| "py_str repr v = repr v"

section \<open>Device keys\<close>

record crypto =
  c_sha :: hash
  c_b64decode :: "pystr \<Rightarrow> bytes option"
  c_b64encode :: "bytes \<Rightarrow> pystr"
  c_ed25519_verify :: "bytes \<Rightarrow> bytes \<Rightarrow> bytes \<Rightarrow> bool"
  c_ed25519_sign :: "bytes \<Rightarrow> bytes \<Rightarrow> bytes"

definition SIG_PREFIX :: pystr where
  "SIG_PREFIX = u ''ed25519:''"

definition DEVICE_ID_LEN :: nat where
  "DEVICE_ID_LEN = 26"

text \<open>\<open>base64.b32encode\<close> without its padding: five bits per character, most significant first.\<close>

definition byte_bits :: "byte \<Rightarrow> bool list" where
  "byte_bits b = map (\<lambda>i. odd (unat b div 2 ^ i)) [7, 6, 5, 4, 3, 2, 1, 0]"

definition b32_char :: "bool list \<Rightarrow> nat" where
  "b32_char bits =
     (let n = foldl (\<lambda>a b. 2 * a + (if b then 1 else 0)) 0 (take 5 (bits @ replicate 5 False))
      in if n < 26 then 65 + n else 24 + n)"

fun b32_text :: "nat \<Rightarrow> bool list \<Rightarrow> pystr" where
  "b32_text 0 bits = []"
| "b32_text (Suc n) bits = (if bits = [] then [] else b32_char bits # b32_text n (drop 5 bits))"

definition b32encode :: "bytes \<Rightarrow> pystr" where
  "b32encode bs = b32_text (2 * length bs) (concat (map byte_bits bs))"

definition derive_device_id :: "crypto \<Rightarrow> pystr \<Rightarrow> pystr option" where
  "derive_device_id c public_key =
     map_option (\<lambda>raw. u ''dev_'' @ take DEVICE_ID_LEN (b32encode (c_sha c raw)))
       (c_b64decode c public_key)"

definition device_key_sign :: "crypto \<Rightarrow> bytes \<Rightarrow> bytes \<Rightarrow> pystr" where
  "device_key_sign c private data = SIG_PREFIX @ c_b64encode c (c_ed25519_sign c private data)"

definition device_key_verify :: "crypto \<Rightarrow> pystr \<Rightarrow> bytes \<Rightarrow> pystr \<Rightarrow> bool" where
  "device_key_verify c public_key data sig =
     (if take (length SIG_PREFIX) sig \<noteq> SIG_PREFIX then False
      else (case c_b64decode c (drop (length SIG_PREFIX) sig) of
              None \<Rightarrow> False
            | Some raw_sig \<Rightarrow>
                (case c_b64decode c public_key of
                   None \<Rightarrow> False
                 | Some raw_pub \<Rightarrow> c_ed25519_verify c raw_pub data raw_sig)))"

lemma dget_simps [simp]:
  "dget k [] = PNone" "dget k ((KStr k', v) # items) = (if k = k' then v else dget k items)"
  "dget k ((KOther, v) # items) = dget k items"
  by (auto simp: dget_def)

lemma is_str_iff: "is_str v \<longleftrightarrow> (\<exists>s. v = PStr s)"
  by (cases v) auto

end
