(* ===== verification/Verify.thy ===== *)
theory Verify
  imports Keys Ledger Merkle "HOL-Library.AList"
begin

text \<open>
  \<open>recorder/verify.py\<close>: the offline verifier of a ledger file. Its input is untrusted: an entry is
  any JSON value. Messages are constructors that keep the values the code puts into the text.
\<close>

section \<open>Rotations\<close>

datatype remark =
    NoTimeline
  | RotationRejected int
  | PinnedKeyDisagrees pystr
  | CrossSignatureNotChecked int
  | CrossSignatureBad int
  | DeviceIdMismatch int
  | NoCheckpoints
  | CheckpointsNotChecked nat
  | RotationNotInTimeline int
  | InvalidSeqEnd pyval
  | CheckpointNotCanonical int
  | CheckpointSignatureBad int
  | CheckpointSignatureMissing int
  | CheckpointNoEntry int
  | CheckpointHeadWrong int
  | CheckpointRowUnparsed int
  | CheckpointTableUnreadable
  | UnsignedTail int int int

datatype walk_error =
    NotAnObject | KeyMissing pystr | SeqNotInt | EventNotObject | HashNotString | Unhashable
  | NotCanonicalizable canon_error

datatype malformed = EntrySkipped walk_error | RotationPayloadNotObject int | RowSkipped int

record rotation =
  rot_seq :: int
  rot_old :: pyval
  rot_new :: pyval
  rot_key :: pyval
  rot_reason :: pyval
  rot_epoch :: pyval
  rot_verified :: "bool option"
  rot_id_matches :: "bool option"
  rot_old_active :: "bool option"
  rot_event_active :: "bool option"
  rot_valid :: "bool option"

definition signed_fields :: "pyval \<Rightarrow> pyval \<Rightarrow> pyval \<Rightarrow> pyval" where
  "signed_fields old_id new_id new_key =
     dict_of [(u ''old_device_id'', old_id), (u ''new_device_id'', new_id),
              (u ''new_public_key'', new_key)]"

text \<open>
  \<open>isinstance(cross_signature, str) and _verify_signature(key, canonicalize(...), cross_signature)\<close>:
  the fields are canonicalised, and may raise, only when the signature is a string.
\<close>

definition cross_verified ::
  "crypto \<Rightarrow> pystr \<Rightarrow> (pykey \<times> pyval) list \<Rightarrow> walk_error + bool" where
  "cross_verified c key payload =
     (case dget (u ''cross_signature'') payload of
        PStr sig \<Rightarrow>
          (case canonicalize (signed_fields (dget (u ''old_device_id'') payload)
                  (dget (u ''new_device_id'') payload) (dget (u ''new_public_key'') payload)) of
             Inl e \<Rightarrow> Inl (NotCanonicalizable e)
           | Inr data \<Rightarrow> Inr (device_key_verify c key data sig))
      | _ \<Rightarrow> Inr False)"

definition id_matches_key :: "crypto \<Rightarrow> pyval \<Rightarrow> pyval \<Rightarrow> bool option" where
  "id_matches_key c new_key new_id =
     (case (new_key, new_id) of
        (PStr k, PStr i) \<Rightarrow> Some (derive_device_id c k = Some i)
      | _ \<Rightarrow> None)"

definition check_rotation ::
  "crypto \<Rightarrow> (pyval \<Rightarrow> pystr) \<Rightarrow> (pystr \<rightharpoonup> pystr) \<Rightarrow> int \<Rightarrow> (pykey \<times> pyval) list \<Rightarrow> walk_error + rotation"
  where
  "check_rotation c repr device_keys seq payload =
     (let old_id = dget (u ''old_device_id'') payload;
          new_id = dget (u ''new_device_id'') payload;
          new_key = dget (u ''new_public_key'') payload;
          old_pubkey = (if truthy old_id then device_keys (py_str repr old_id) else None)
      in rmap (\<lambda>verified.
           \<lparr>rot_seq = seq, rot_old = old_id, rot_new = new_id, rot_key = new_key,
            rot_reason = dget (u ''reason'') payload,
            rot_epoch = dget (u ''effective_epoch'') payload, rot_verified = verified,
            rot_id_matches = id_matches_key c new_key new_id, rot_old_active = None,
            rot_event_active = None, rot_valid = None\<rparr>)
         (case old_pubkey of
            None \<Rightarrow> Inr None
          | Some key \<Rightarrow> rmap Some (cross_verified c key payload)))"

definition check_rotation_live ::
  "crypto \<Rightarrow> pystr \<Rightarrow> pystr \<Rightarrow> pyval \<Rightarrow> int \<Rightarrow> (pykey \<times> pyval) list \<Rightarrow> walk_error + rotation" where
  "check_rotation_live c active_key active_id event_device seq payload =
     (let old_id = dget (u ''old_device_id'') payload;
          new_id = dget (u ''new_device_id'') payload;
          new_key = dget (u ''new_public_key'') payload;
          id_ok = id_matches_key c new_key new_id;
          old_active = (old_id = PStr active_id);
          event_active = (event_device = PStr active_id)
      in rmap (\<lambda>verified.
           \<lparr>rot_seq = seq, rot_old = old_id, rot_new = new_id, rot_key = new_key,
            rot_reason = dget (u ''reason'') payload,
            rot_epoch = dget (u ''effective_epoch'') payload, rot_verified = Some verified,
            rot_id_matches = id_ok, rot_old_active = Some old_active,
            rot_event_active = Some event_active,
            rot_valid = Some (verified \<and> old_active \<and> event_active \<and> id_ok = Some True)\<rparr>)
         (cross_verified c active_key payload))"

definition forged_rotations :: "rotation list \<Rightarrow> rotation list" where
  "forged_rotations = filter (\<lambda>r. rot_verified r = Some False \<or> rot_valid r = Some False)"

section \<open>The chain walk\<close>

record walk =
  w_checked :: nat
  w_broken :: "int list"
  w_gaps :: "(int \<times> int) list"
  w_devices :: "pystr list"
  w_sessions :: "pystr list"
  w_ts :: "pystr list"
  w_tool_uses :: "(pystr \<times> int) list"
  w_tool_results :: "(pystr \<times> int) list"
  w_prev_seq :: "int option"
  w_prev_hash :: pystr
  w_derived :: "(int \<times> pystr) list"
  w_rotations :: "rotation list"
  w_stale :: "int list"
  w_retired :: "(pystr \<times> int) list"
  w_active :: "(pystr \<times> pystr) option"
  w_notes :: "remark list"
  w_malformed :: "malformed list"

text \<open>
  \<open>w_active\<close> is \<open>(active_key, active_id)\<close> when the walk has a usable starting key. \<open>w_derived\<close> and
  \<open>w_retired\<close> are dictionaries, newest binding first.
\<close>

definition start_walk :: "crypto \<Rightarrow> pystr option \<Rightarrow> walk" where
  "start_walk c starting_key =
     (let active = (case starting_key of None \<Rightarrow> None
                    | Some k \<Rightarrow> map_option (\<lambda>i. (k, i)) (derive_device_id c k)) in
      \<lparr>w_checked = 0, w_broken = [], w_gaps = [], w_devices = [], w_sessions = [], w_ts = [],
       w_tool_uses = [], w_tool_results = [], w_prev_seq = None, w_prev_hash = GENESIS_PREV_HASH,
       w_derived = [], w_rotations = [], w_stale = [], w_retired = [], w_active = active,
       w_notes = (if starting_key \<noteq> None \<and> active = None then [NoTimeline] else []),
       w_malformed = []\<rparr>)"

text \<open>The shape checks, in the order the code makes them.\<close>

definition entry_shape :: "pyval \<Rightarrow> walk_error + int \<times> (pykey \<times> pyval) list \<times> pystr \<times> pystr" where
  "entry_shape entry =
     (case entry of
        PDict items \<Rightarrow>
          (case lookup (u ''seq'') items of None \<Rightarrow> Inl (KeyMissing (u ''seq'')) | Some raw_seq \<Rightarrow>
          (case raw_seq of
             PInt seq \<Rightarrow>
               (case (lookup (u ''event'') items, lookup (u ''prev_hash'') items,
                      lookup (u ''entry_hash'') items) of
                  (None, _) \<Rightarrow> Inl (KeyMissing (u ''event''))
                | (Some _, None, _) \<Rightarrow> Inl (KeyMissing (u ''prev_hash''))
                | (Some _, Some _, None) \<Rightarrow> Inl (KeyMissing (u ''entry_hash''))
                | (Some event, Some prev, Some stored) \<Rightarrow>
                    (case event of
                       PDict ev \<Rightarrow>
                         (case (prev, stored) of
                            (PStr p, PStr s) \<Rightarrow> Inr (seq, ev, p, s)
                          | _ \<Rightarrow> Inl HashNotString)
                     | _ \<Rightarrow> Inl EventNotObject))
           | _ \<Rightarrow> Inl SeqNotInt))
      | _ \<Rightarrow> Inl NotAnObject)"

definition walk_gap :: "int \<Rightarrow> walk \<Rightarrow> walk" where
  "walk_gap seq w =
     (case w_prev_seq w of
        None \<Rightarrow> if seq > 1 then w\<lparr>w_gaps := w_gaps w @ [(1, seq - 1)]\<rparr> else w
      | Some p \<Rightarrow> if seq \<noteq> p + 1 then w\<lparr>w_gaps := w_gaps w @ [(p + 1, seq - 1)]\<rparr> else w)"

definition derive_entry ::
  "hash \<Rightarrow> pystr \<Rightarrow> int \<Rightarrow> (pykey \<times> pyval) list \<Rightarrow> walk_error + pystr" where
  "derive_entry sha prev seq event =
     (case canonicalize (PDict event) of Inl e \<Rightarrow> Inl (NotCanonicalizable e) | Inr b \<Rightarrow>
     (case compute_entry_hash sha prev seq (sha256_hex sha b) of
        Inl e \<Rightarrow> Inl (NotCanonicalizable e) | Inr h \<Rightarrow> Inr h))"

definition walk_link :: "int \<Rightarrow> pystr \<Rightarrow> pystr \<Rightarrow> pystr \<Rightarrow> walk \<Rightarrow> walk" where
  "walk_link seq stored_prev stored_entry derived w =
     w\<lparr>w_derived := (seq, derived) # w_derived w,
       w_broken := (if stored_prev \<noteq> w_prev_hash w \<or> derived \<noteq> stored_entry
                    then w_broken w @ [seq] else w_broken w),
       w_prev_seq := Some seq, w_prev_hash := stored_entry\<rparr>"

definition add_name :: "(pyval \<Rightarrow> pystr) \<Rightarrow> pyval \<Rightarrow> pystr list \<Rightarrow> pystr list" where
  "add_name repr v names = (if truthy v \<and> v \<notin> PStr ` set names then names @ [py_str repr v] else names)"

definition walk_names :: "(pyval \<Rightarrow> pystr) \<Rightarrow> (pykey \<times> pyval) list \<Rightarrow> walk \<Rightarrow> walk" where
  "walk_names repr event w =
     (let ts = dget (u ''ts_device'') event in
      w\<lparr>w_devices := add_name repr (dget (u ''device_id'') event) (w_devices w),
        w_sessions := add_name repr (dget (u ''session_id'') event) (w_sessions w),
        w_ts := (if truthy ts then w_ts w @ [py_str repr ts] else w_ts w)\<rparr>)"

definition is_kind :: "event_kind \<Rightarrow> (pykey \<times> pyval) list \<Rightarrow> bool" where
  "is_kind k event \<longleftrightarrow> dget (u ''kind'') event = PStr (kind_value k)"

definition walk_tools ::
  "(pyval \<Rightarrow> pystr) \<Rightarrow> int \<Rightarrow> (pykey \<times> pyval) list \<Rightarrow> walk \<Rightarrow> walk_error + walk" where
  "walk_tools repr seq event w =
     (let tuid = dget (u ''tool_use_id'') event in
      if \<not> truthy tuid then Inr w
      else if is_kind TOOL_USE event then
        (if \<not> hashable tuid then Inl Unhashable
         else if tuid \<in> PStr ` fst ` set (w_tool_uses w) then Inr w
         else Inr (w\<lparr>w_tool_uses := AList.update (py_str repr tuid) seq (w_tool_uses w)\<rparr>))
      else if is_kind TOOL_RESULT event then
        (if \<not> hashable tuid then Inl Unhashable
         else if tuid \<in> PStr ` fst ` set (w_tool_results w) then Inr w
         else Inr (w\<lparr>w_tool_results := AList.update (py_str repr tuid) seq (w_tool_results w)\<rparr>))
      else Inr w)"

definition walk_stale ::
  "(pyval \<Rightarrow> pystr) \<Rightarrow> int \<Rightarrow> (pykey \<times> pyval) list \<Rightarrow> walk \<Rightarrow> walk_error + walk" where
  "walk_stale repr seq event w =
     (let dev = dget (u ''device_id'') event in
      case w_active w of
        Some (_, active_id) \<Rightarrow>
          (if \<not> is_kind KEY_ROTATED event \<and> truthy dev \<and> py_str repr dev \<noteq> active_id
           then Inr (w\<lparr>w_stale := w_stale w @ [seq]\<rparr>) else Inr w)
      | None \<Rightarrow>
          (if \<not> truthy dev then Inr w
           else if \<not> hashable dev then Inl Unhashable
           else (case dev of
                   PStr d \<Rightarrow>
                     (case map_of (w_retired w) d of
                        Some s \<Rightarrow> if seq > s then Inr (w\<lparr>w_stale := w_stale w @ [seq]\<rparr>) else Inr w
                      | None \<Rightarrow> Inr w)
                 | _ \<Rightarrow> Inr w)))"

definition skip :: "walk_error \<Rightarrow> walk \<Rightarrow> walk" where
  "skip e w = w\<lparr>w_malformed := w_malformed w @ [EntrySkipped e]\<rparr>"

definition payload_of :: "(pykey \<times> pyval) list \<Rightarrow> (pykey \<times> pyval) list" where
  "payload_of event = (case dget (u ''payload'') event of PDict items \<Rightarrow> items | _ \<Rightarrow> [])"

definition note_payload :: "int \<Rightarrow> (pykey \<times> pyval) list \<Rightarrow> walk \<Rightarrow> walk" where
  "note_payload seq event w =
     (case dget (u ''payload'') event of PDict _ \<Rightarrow> w | PNone \<Rightarrow> w
      | _ \<Rightarrow> w\<lparr>w_malformed := w_malformed w @ [RotationPayloadNotObject seq]\<rparr>)"

text \<open>A valid rotation has strings for its new key and id, or it would not have matched them.\<close>

definition advance :: "rotation \<Rightarrow> walk \<Rightarrow> walk" where
  "advance r w =
     (case (rot_valid r, rot_key r, rot_new r) of
        (Some True, PStr k, PStr i) \<Rightarrow> w\<lparr>w_active := Some (k, i)\<rparr>
      | _ \<Rightarrow> w\<lparr>w_notes := w_notes w @ [RotationRejected (rot_seq r)]\<rparr>)"

definition note_pinned :: "(pyval \<Rightarrow> pystr) \<Rightarrow> (pystr \<rightharpoonup> pystr) \<Rightarrow> rotation \<Rightarrow> walk \<Rightarrow> walk" where
  "note_pinned repr device_keys r w =
     (let new_id = rot_new r;
          pinned = (if truthy new_id then device_keys (py_str repr new_id) else None)
      in case (pinned, rot_key r) of
           (Some p, PStr k) \<Rightarrow>
             (if p \<noteq> k then w\<lparr>w_notes := w_notes w @ [PinnedKeyDisagrees (py_str repr new_id)]\<rparr> else w)
         | _ \<Rightarrow> w)"

definition retire :: "(pyval \<Rightarrow> pystr) \<Rightarrow> rotation \<Rightarrow> walk \<Rightarrow> walk" where
  "retire repr r w =
     (if truthy (rot_old r) then w\<lparr>w_retired := (py_str repr (rot_old r), rot_seq r) # w_retired w\<rparr> else w)"

definition walk_rotation ::
  "crypto \<Rightarrow> (pyval \<Rightarrow> pystr) \<Rightarrow> (pystr \<rightharpoonup> pystr) \<Rightarrow> int \<Rightarrow> (pykey \<times> pyval) list \<Rightarrow> walk \<Rightarrow> walk" where
  "walk_rotation c repr device_keys seq event w0 =
     (let w = note_payload seq event w0; payload = payload_of event in
      case w_active w of
        Some (active_key, active_id) \<Rightarrow>
          (case check_rotation_live c active_key active_id (dget (u ''device_id'') event) seq payload of
             Inl e \<Rightarrow> skip e w
           | Inr r \<Rightarrow> note_pinned repr device_keys r (advance r (w\<lparr>w_rotations := w_rotations w @ [r]\<rparr>)))
      | None \<Rightarrow>
          (case check_rotation c repr device_keys seq payload of
             Inl e \<Rightarrow> skip e w
           | Inr r \<Rightarrow> retire repr r (w\<lparr>w_rotations := w_rotations w @ [r]\<rparr>)))"

text \<open>One iteration: an exception keeps what the iteration had done before it.\<close>

definition walk_entry ::
  "crypto \<Rightarrow> (pyval \<Rightarrow> pystr) \<Rightarrow> (pystr \<rightharpoonup> pystr) \<Rightarrow> walk \<Rightarrow> pyval \<Rightarrow> walk" where
  "walk_entry c repr device_keys w0 entry =
     (let w = w0\<lparr>w_checked := w_checked w0 + 1\<rparr> in
      case entry_shape entry of Inl e \<Rightarrow> skip e w | Inr (seq, event, stored_prev, stored_entry) \<Rightarrow>
      (let w1 = walk_gap seq w in
       case derive_entry (c_sha c) stored_prev seq event of Inl e \<Rightarrow> skip e w1 | Inr derived \<Rightarrow>
       (let w2 = walk_names repr event (walk_link seq stored_prev stored_entry derived w1) in
        case walk_tools repr seq event w2 of Inl e \<Rightarrow> skip e w2 | Inr w3 \<Rightarrow>
        (case walk_stale repr seq event w3 of Inl e \<Rightarrow> skip e w3 | Inr w4 \<Rightarrow>
         if is_kind KEY_ROTATED event then walk_rotation c repr device_keys seq event w4 else w4))))"

definition rotation_notes :: "rotation \<Rightarrow> remark list" where
  "rotation_notes r =
     (case rot_verified r of
        None \<Rightarrow> [CrossSignatureNotChecked (rot_seq r)]
      | Some v \<Rightarrow> if v then [] else [CrossSignatureBad (rot_seq r)])
     @ (if rot_id_matches r = Some False then [DeviceIdMismatch (rot_seq r)] else [])"

definition walk_chain ::
  "crypto \<Rightarrow> (pyval \<Rightarrow> pystr) \<Rightarrow> (pystr \<rightharpoonup> pystr) \<Rightarrow> pystr option \<Rightarrow> pyval list \<Rightarrow> walk" where
  "walk_chain c repr device_keys starting_key entries =
     (let w = foldl (walk_entry c repr device_keys) (start_walk c starting_key) entries
      in w\<lparr>w_notes := w_notes w @ concat (map rotation_notes (w_rotations w))\<rparr>)"

definition unpaired_tool_uses :: "walk \<Rightarrow> pystr list" where
  "unpaired_tool_uses w =
     sort (filter (\<lambda>t. t \<notin> fst ` set (w_tool_results w)) (map fst (w_tool_uses w)))"

definition orphan_tool_results :: "walk \<Rightarrow> pystr list" where
  "orphan_tool_results w =
     sort (map fst (filter (\<lambda>(t, s).
       case map_of (w_tool_uses w) t of None \<Rightarrow> True | Some s' \<Rightarrow> s' > s) (w_tool_results w)))"

section \<open>Reading the file\<close>

text \<open>
  The columns of \<open>agent_events\<close> in table order, without the chain columns. \<open>loads\<close> is \<open>json.loads\<close>,
  \<open>None\<close> when it raises.
\<close>

definition row_columns :: "lrow \<Rightarrow> pyval \<Rightarrow> (pystr \<times> pyval) list" where
  "row_columns r payload =
     [(u ''seq'', PInt (row_seq r)), (u ''event_id'', PStr (row_event_id r)),
      (u ''schema_version'', PStr (row_schema_version r)), (u ''device_id'', PStr (row_device_id r)),
      (u ''session_id'', PStr (row_session_id r)), (u ''kind'', PStr (row_kind r)),
      (u ''ts_device'', PStr (row_ts_device r)), (u ''ts_monotonic_ns'', PInt (row_ts_monotonic_ns r)),
      (u ''tool_use_id'', opt_str (row_tool_use_id r)), (u ''tool_name'', opt_str (row_tool_name r)),
      (u ''payload'', payload), (u ''payload_hash'', PStr (row_payload_hash r)),
      (u ''model'', opt_str (row_model r)), (u ''provider'', PStr (row_provider r)),
      (u ''trace_id'', opt_str (row_trace_id r)), (u ''span_id'', opt_str (row_span_id r)),
      (u ''parent_span_id'', opt_str (row_parent_span_id r)),
      (u ''continues_from'', opt_str (row_continues_from r))]"

definition row_to_event_dict :: "(pystr \<Rightarrow> pyval option) \<Rightarrow> lrow \<Rightarrow> (pykey \<times> pyval) list option" where
  "row_to_event_dict loads r =
     map_option (\<lambda>payload.
       map (\<lambda>(k, v). (KStr k, v))
         (filter (\<lambda>(k, _). \<not> (row_schema_version r = EVENT_SCHEMA_VERSION_V1 \<and> k \<in> set V2_ONLY_FIELDS))
           (row_columns r payload)))
       (loads (row_payload r))"

definition row_entry :: "lrow \<Rightarrow> (pykey \<times> pyval) list \<Rightarrow> pyval" where
  "row_entry r event =
     PDict [(KStr (u ''seq''), PInt (row_seq r)), (KStr (u ''prev_hash''), PStr (row_prev_hash r)),
            (KStr (u ''entry_hash''), PStr (row_entry_hash r)), (KStr (u ''event''), PDict event)]"

fun row_entries :: "(pystr \<Rightarrow> pyval option) \<Rightarrow> lrow list \<Rightarrow> pyval list \<times> malformed list" where
  "row_entries loads [] = ([], [])"
| "row_entries loads (r # rs) =
     (case row_entries loads rs of (entries, bad) \<Rightarrow>
        (case row_to_event_dict loads r of
           None \<Rightarrow> (entries, RowSkipped (row_seq r) # bad)
         | Some event \<Rightarrow> (row_entry r event # entries, bad)))"

definition entry_seqs :: "(pystr \<Rightarrow> pyval option) \<Rightarrow> lrow list \<Rightarrow> int list" where
  "entry_seqs loads rows = map row_seq (filter (\<lambda>r. row_to_event_dict loads r \<noteq> None) rows)"

fun safe_seq_end :: "pyval \<Rightarrow> int" where
  "safe_seq_end (PInt i) = i"
| "safe_seq_end _ = -1"

text \<open>\<open>cp.get("seq_end", -1)\<close>.\<close>

definition seq_end_of :: "(pykey \<times> pyval) list \<Rightarrow> pyval" where
  "seq_end_of cp = (case lookup (u ''seq_end'') cp of None \<Rightarrow> PInt (-1) | Some v \<Rightarrow> v)"

definition cp_columns :: "cp_row \<Rightarrow> (pykey \<times> pyval) list" where
  "cp_columns r =
     [(KStr (u ''seq_end''), PInt (cp_seq_end r)), (KStr (u ''device_id''), PStr (cp_device_id r)),
      (KStr (u ''seq_start''), PInt (cp_seq_start r)), (KStr (u ''chain_head''), PStr (cp_chain_head r)),
      (KStr (u ''ts_device''), PStr (cp_ts_device r)), (KStr (u ''sig''), PStr (cp_sig r)),
      (KStr (u ''body''), PStr (cp_body r))]"

definition parse_checkpoint :: "(pystr \<Rightarrow> pyval option) \<Rightarrow> cp_row \<Rightarrow> (pykey \<times> pyval) list option" where
  "parse_checkpoint loads r =
     (if cp_body r \<noteq> [] then
        (case loads (cp_body r) of Some (PDict cp) \<Rightarrow> Some cp | _ \<Rightarrow> None)
      else Some (cp_columns r))"

definition checkpoint_rows ::
  "(pystr \<Rightarrow> pyval option) \<Rightarrow> cp_row list \<Rightarrow> (pykey \<times> pyval) list list \<times> int list \<times> remark list" where
  "checkpoint_rows loads rows =
     (let bad = map cp_seq_end (filter (\<lambda>r. parse_checkpoint loads r = None) rows) in
      (sort_key (\<lambda>cp. safe_seq_end (seq_end_of cp)) (List.map_filter (parse_checkpoint loads) rows),
       bad, map CheckpointRowUnparsed bad))"

section \<open>Checkpoint signatures\<close>

text \<open>The key timeline: \<open>(threshold, key)\<close>, the key holding for every \<open>seq_end\<close> above its threshold.\<close>

fun timeline_steps :: "rotation list \<Rightarrow> (int \<times> pystr) list \<times> remark list" where
  "timeline_steps [] = ([], [])"
| "timeline_steps (r # rs) =
     (case timeline_steps rs of (rest, notes) \<Rightarrow>
        (case (rot_verified r, rot_key r) of
           (Some True, PStr k) \<Rightarrow> ((rot_seq r, k) # rest, notes)
         | _ \<Rightarrow> (rest, RotationNotInTimeline (rot_seq r) # notes)))"

definition build_key_timeline :: "pystr \<Rightarrow> rotation list \<Rightarrow> (int \<times> pystr) list \<times> remark list" where
  "build_key_timeline key rotations =
     (case timeline_steps rotations of (rest, notes) \<Rightarrow> ((0, key) # rest, notes))"

fun key_after :: "pystr \<Rightarrow> (int \<times> pystr) list \<Rightarrow> int \<Rightarrow> pystr" where
  "key_after active [] seq_end = active"
| "key_after active ((t, k) # rest) seq_end = (if seq_end > t then key_after k rest seq_end else active)"

definition key_active_at :: "(int \<times> pystr) list \<Rightarrow> int \<Rightarrow> pystr" where
  "key_active_at timeline seq_end = key_after (snd (hd timeline)) (tl timeline) seq_end"

definition signature_remarks ::
  "crypto \<Rightarrow> (int \<times> pystr) list option \<Rightarrow> int \<Rightarrow> (pykey \<times> pyval) list \<Rightarrow> remark list" where
  "signature_remarks c timeline seq_end cp =
     (let sig = dget (u ''sig'') cp in
      case timeline of
        None \<Rightarrow> if is_str sig then [] else [CheckpointSignatureMissing seq_end]
      | Some line \<Rightarrow>
          (case canonicalize (PDict (filter (\<lambda>(k, _). k \<noteq> KStr (u ''sig'')) cp)) of
             Inl _ \<Rightarrow> [CheckpointNotCanonical seq_end]
           | Inr data \<Rightarrow>
               (case sig of
                  PStr s \<Rightarrow> if device_key_verify c (key_active_at line seq_end) data s then []
                            else [CheckpointSignatureBad seq_end]
                | _ \<Rightarrow> [CheckpointSignatureBad seq_end])))"

definition head_remarks :: "(int \<times> pystr) list \<Rightarrow> int \<Rightarrow> (pykey \<times> pyval) list \<Rightarrow> remark list" where
  "head_remarks derived seq_end cp =
     (case map_of derived seq_end of
        None \<Rightarrow> [CheckpointNoEntry seq_end]
      | Some h \<Rightarrow> if dget (u ''chain_head'') cp = PStr h then [] else [CheckpointHeadWrong seq_end])"

definition check_checkpoint ::
  "crypto \<Rightarrow> (int \<times> pystr) list option \<Rightarrow> (int \<times> pystr) list \<Rightarrow> (pykey \<times> pyval) list
     \<Rightarrow> int list \<times> remark list" where
  "check_checkpoint c timeline derived cp =
     (case seq_end_of cp of
        PInt seq_end \<Rightarrow>
          (let notes = signature_remarks c timeline seq_end cp @ head_remarks derived seq_end cp
           in (if notes = [] then [] else [seq_end], notes))
      | PBool b \<Rightarrow> ([if b then 1 else 0], [InvalidSeqEnd (PBool b)])
      | v \<Rightarrow> ([-1], [InvalidSeqEnd v]))"

definition verify_checkpoints ::
  "crypto \<Rightarrow> (pykey \<times> pyval) list list \<Rightarrow> (int \<times> pystr) list \<Rightarrow> pystr option \<Rightarrow> rotation list
     \<Rightarrow> int list \<times> nat \<times> remark list" where
  "verify_checkpoints c cps derived public_key rotations =
     (if cps = [] then ([], 0, [NoCheckpoints])
      else
        (let timeline = map_option (\<lambda>k. build_key_timeline k rotations) public_key;
             first = (case timeline of None \<Rightarrow> [CheckpointsNotChecked (length cps)] | Some (_, notes) \<Rightarrow> notes);
             results = map (check_checkpoint c (map_option fst timeline) derived) cps
         in (concat (map fst results), length cps, first @ concat (map snd results))))"

section \<open>The report\<close>

record verify_report =
  vr_ok :: bool
  vr_entries_checked :: nat
  vr_broken :: "int list"
  vr_bad_signatures :: "int list"
  vr_gaps :: "(int \<times> int) list"
  vr_unpaired :: "pystr list"
  vr_orphans :: "pystr list"
  vr_devices :: "pystr list"
  vr_sessions :: "pystr list"
  vr_seq_start :: "int option"
  vr_seq_end :: "int option"
  vr_ts_first :: "pystr option"
  vr_ts_last :: "pystr option"
  vr_checkpoints_checked :: nat
  vr_signatures_verified :: bool
  vr_notes :: "remark list"
  vr_malformed :: "malformed list"
  vr_rotations :: "rotation list"
  vr_stale :: "int list"
  vr_no_signed :: bool
  vr_unreadable :: bool
  vr_unsigned_tail :: "(int \<times> int) option"

definition unsigned_tail_of :: "(pykey \<times> pyval) list list \<Rightarrow> (int \<times> pystr) list \<Rightarrow> (int \<times> int) option \<times> remark list" where
  "unsigned_tail_of cps derived =
     (let last_end = Max (set (map (\<lambda>cp. safe_seq_end (seq_end_of cp)) cps));
          tail = filter (\<lambda>s. s > last_end) (map fst derived)
      in if tail = [] then (None, [])
         else (Some (Min (set tail), Max (set tail)), [UnsignedTail (Min (set tail)) (Max (set tail)) last_end]))"

text \<open>
  \<open>_verify\<close>. \<open>readable\<close> says whether the checkpoint table could be read at all. The notes of the
  malformed entries are kept apart in \<open>vr_malformed\<close>; the code appends their texts to the notes.
\<close>

definition verify_ledger_db ::
  "crypto \<Rightarrow> (pyval \<Rightarrow> pystr) \<Rightarrow> (pystr \<Rightarrow> pyval option) \<Rightarrow> bool \<Rightarrow> pystr option \<Rightarrow> (pystr \<rightharpoonup> pystr)
     \<Rightarrow> ledger_db \<Rightarrow> verify_report" where
  "verify_ledger_db c repr loads readable public_key device_keys db =
     (let rows = rows_by_seq db;
          (entries, row_malformed) = row_entries loads rows;
          w = walk_chain c repr device_keys public_key entries;
          malformed = row_malformed @ w_malformed w;
          (cps, bad_rows, row_notes) =
            (if readable then checkpoint_rows loads (checkpoints_by_end db)
             else ([], [], [CheckpointTableUnreadable]));
          unreadable = (\<not> readable \<and> public_key \<noteq> None);
          no_signed = (cps = [] \<and> row_notes = [] \<and> public_key \<noteq> None);
          (bad, checked, cp_notes) =
            (if cps = [] \<and> row_notes \<noteq> [] then ([], 0, [])
             else verify_checkpoints c cps (w_derived w) public_key (w_rotations w));
          (tail, tail_notes) =
            (if public_key \<noteq> None \<and> cps \<noteq> [] then unsigned_tail_of cps (w_derived w) else (None, []));
          orphans = orphan_tool_results w;
          forged = forged_rotations (w_rotations w);
          seqs = entry_seqs loads rows
      in \<lparr>vr_ok = (w_broken w = [] \<and> bad_rows @ bad = [] \<and> w_gaps w = [] \<and> orphans = []
                   \<and> w_stale w = [] \<and> forged = [] \<and> malformed = [] \<and> \<not> no_signed \<and> \<not> unreadable),
          vr_entries_checked = w_checked w, vr_broken = w_broken w,
          vr_bad_signatures = bad_rows @ bad, vr_gaps = w_gaps w,
          vr_unpaired = unpaired_tool_uses w, vr_orphans = orphans,
          vr_devices = w_devices w, vr_sessions = w_sessions w,
          vr_seq_start = (if seqs = [] then None else Some (hd seqs)),
          vr_seq_end = (if seqs = [] then None else Some (last seqs)),
          vr_ts_first = (if w_ts w = [] then None else Some (Min (set (w_ts w)))),
          vr_ts_last = (if w_ts w = [] then None else Some (Max (set (w_ts w)))),
          vr_checkpoints_checked = checked,
          vr_signatures_verified = ((case public_key of None \<Rightarrow> False | Some k \<Rightarrow> k \<noteq> []) \<and> checked > 0),
          vr_notes = w_notes w @ row_notes @ cp_notes @ tail_notes, vr_malformed = malformed,
          vr_rotations = w_rotations w, vr_stale = w_stale w, vr_no_signed = no_signed,
          vr_unreadable = unreadable, vr_unsigned_tail = tail\<rparr>)"

section \<open>Inclusion of a checkpoint in an epoch, and the epoch's signature\<close>

definition verify_checkpoint_epoch_inclusion ::
  "hash \<Rightarrow> pyval \<Rightarrow> inclusion_proof \<Rightarrow> bytes \<Rightarrow> merkle_error + bool" where
  "verify_checkpoint_epoch_inclusion sha cp proof expected_root =
     rmap (\<lambda>leaf. leaf = proof_leaf proof \<and> proof_root proof = expected_root \<and> verify_inclusion sha proof)
       (checkpoint_leaf_hash sha cp)"

definition verify_epoch_signature :: "crypto \<Rightarrow> (pykey \<times> pyval) list \<Rightarrow> canon_error + bool option" where
  "verify_epoch_signature c epoch =
     (case (dget (u ''tenant_sig'') epoch, dget (u ''tenant_kms_public_key_b64'') epoch) of
        (PStr sig, PStr key) \<Rightarrow>
          rmap (\<lambda>data. Some (device_key_verify c key data sig))
            (canonicalize (dict_of (map (\<lambda>k. (k, dget k epoch))
               [u ''epoch_index'', u ''root'', u ''epoch_start'', u ''epoch_end'', u ''tenant_id''])))
      | _ \<Rightarrow> Inr None)"

end
