(* ===== verification/Verify_Ledger.thy ===== *)
theory Verify_Ledger
  imports Verify Ledger_Props
begin

text \<open>
  The verifier against the writer: what \<open>_walk_chain\<close> finds on the rows of a ledger that was written
  by \<open>Ledger\<close>, and what an arbitrary file must look like for it to find nothing.
\<close>

section \<open>A dictionary is serialised by its serialised members\<close>

definition member :: "pykey \<times> pyval \<Rightarrow> (nat list \<times> pystr) \<times> (canon_error + pystr)" where
  "member it = ((utf16 (key_of (fst it)), key_of (fst it)), serialize (snd it))"

lemma item_okD: "item_ok it \<Longrightarrow> clean (key_of (fst it)) \<and> fst it = KStr (key_of (fst it))"
  by (cases it; cases "fst it") (auto simp: key_of_def)

lemma serialize_by_members:
  assumes "\<forall>it\<in>set items. item_ok it"
  shows "serialize (PDict items) =
    rmap (\<lambda>ts. [123] @ join 44 ts @ [125])
      (rseq (map serialize_item (sort_key (\<lambda>it. fst (fst it)) (map member items))))"
proof -
  define keys where "keys = map (\<lambda>(k, v). (utf16 (key_of k), key_of k)) items"
  have keys: "map (\<lambda>(k, _). item_key k) items = map Inr keys"
    unfolding keys_def map_map
    by (rule map_cong) (use assms in \<open>auto simp: item_ok_def item_key_eq key_of_def split: pykey.splits\<close>)
  have "zip keys (map (\<lambda>(_, v). serialize v) items) = map member items"
    unfolding keys_def zip_map_map zip_same_conv_map map_map by (simp add: member_def split_def)
  then show ?thesis unfolding serialize.simps keys rseq_map_Inr rbind_simps by simp
qed

lemma serialize_dict_members:
  assumes "\<forall>it\<in>set items. item_ok it" "\<forall>it\<in>set items'. item_ok it"
    and "mset (map member items) = mset (map member items')"
    and "distinct (map fst items)" "\<forall>it\<in>set items. str_ok (key_of (fst it))"
  shows "serialize (PDict items) = serialize (PDict items')"
proof -
  have "inj_on (\<lambda>it. fst (fst it)) (set (map member items))"
  proof (rule inj_onI)
    fix x y assume xy: "x \<in> set (map member items)" "y \<in> set (map member items)" "fst (fst x) = fst (fst y)"
    then obtain a b where ab: "a \<in> set items" "x = member a" "b \<in> set items" "y = member b" by auto
    have "clean (key_of (fst a))" "clean (key_of (fst b))" "fst a = KStr (key_of (fst a))"
      "fst b = KStr (key_of (fst b))"
      using ab(1,3) assms(1) item_okD by blast+
    then have "fst a = fst b"
      using xy(3) ab assms(5) utf16_inject [of "key_of (fst a)" "key_of (fst b)"] by (auto simp: member_def)
    then have "a = b" using ab(1,3) assms(4) by (metis eq_key_imp_eq_value prod.collapse)
    then show "x = y" using ab by simp
  qed
  then have "sort_key (\<lambda>it. fst (fst it)) (map member items) = sort_key (\<lambda>it. fst (fst it)) (map member items')"
    using assms(3) by (intro sort_key_inj_key_eq) auto
  then show ?thesis unfolding serialize_by_members [OF assms(1)] serialize_by_members [OF assms(2)] by simp
qed

section \<open>The event of a row\<close>

lemma keys_distinct: "distinct (map fst items) \<Longrightarrow> distinct (map fst (map (\<lambda>(k, v). (KStr k, v)) items))"
  by (auto simp: distinct_map o_def inj_on_def split_def)

lemma field_keys_ok: "it \<in> set (field_values e) \<Longrightarrow> clean (fst it) \<and> str_ok (fst it)"
  by (auto simp: field_values_def u_def clean_def surrogate_def str_ok_def)

text \<open>The dictionary the verifier rebuilds from a row has the members of the event that was hashed.\<close>

lemma row_members:
  assumes "canonical_dumps (ev_payload e) = Inr t" "loads t = Some v" "canonical_dumps v = Inr t"
    and "row_to_event_dict loads (row_of e t d p h) = Some ev"
  shows "mset (map member ev) = mset (map member (map (\<lambda>(k, v). (KStr k, v)) (event_items e)))"
proof -
  have pay: "member (KStr (u ''payload''), v) = member (KStr (u ''payload''), ev_payload e)"
    using assms(1,3) by (simp add: member_def canonical_dumps_def)
  show ?thesis
  proof (cases "ev_schema_version e = EVENT_SCHEMA_VERSION_V1")
    case True
    with assms(2,4) have "ev = map (\<lambda>(k, v). (KStr k, v))
        (filter (\<lambda>(k, _). k \<notin> set V2_ONLY_FIELDS) (row_columns (row_of e t d p h) v))"
      by (auto simp: row_to_event_dict_def row_of_def)
    with True show ?thesis
      by (simp add: event_items_def field_values_def row_columns_def row_of_def V2_ONLY_FIELDS_def pay
          add_mset_commute)
  next
    case False
    with assms(2,4) have "ev = map (\<lambda>(k, v). (KStr k, v)) (row_columns (row_of e t d p h) v)"
      by (auto simp: row_to_event_dict_def row_of_def)
    with False show ?thesis
      by (simp add: event_items_def field_values_def row_columns_def row_of_def pay opt_str_def
          add_mset_commute)
  qed
qed

lemma row_keys:
  "row_to_event_dict loads r = Some ev \<Longrightarrow>
     distinct (map fst ev) \<and> (\<forall>it\<in>set ev. clean (key_of (fst it)) \<and> str_ok (key_of (fst it)))"
proof -
  assume "row_to_event_dict loads r = Some ev"
  then obtain v where ev: "ev = map (\<lambda>(k, v). (KStr k, v))
      (filter (\<lambda>(k, _). \<not> (row_schema_version r = EVENT_SCHEMA_VERSION_V1 \<and> k \<in> set V2_ONLY_FIELDS))
        (row_columns r v))"
    by (auto simp: row_to_event_dict_def)
  have "distinct (map fst (row_columns r v))" by (simp add: row_columns_def)
  then have "distinct (map fst ev)"
    unfolding ev by (intro keys_distinct distinct_map_filter)
  moreover have "clean k \<and> str_ok k" if "(k, x) \<in> set (row_columns r v)" for k x
    using that by (auto simp: row_columns_def u_def clean_def surrogate_def str_ok_def)
  ultimately show ?thesis unfolding ev by (auto simp: key_of_def)
qed

lemma row_serializes:
  assumes "event_digest sha e = Inr d" "canonical_dumps (ev_payload e) = Inr t"
    and "loads t = Some v" "canonical_dumps v = Inr t"
    and "row_to_event_dict loads (row_of e t d' p h) = Some ev"
  shows "\<exists>b. canonicalize (PDict ev) = Inr b \<and> d = sha256_hex sha b"
proof -
  let ?items = "map (\<lambda>(k, v). (KStr k, v)) (event_items e)"
  obtain b where b: "canonicalize (PDict ?items) = Inr b" "d = sha256_hex sha b"
    using assms(1) by (auto simp: event_digest_Inr to_dict_def dict_of_def)
  then have ok: "\<forall>it\<in>set ?items. item_ok it"
    using serialize_dict_succeeds [of ?items] by (auto simp: canonicalize_def canonical_dumps_def rmap_Inr_iff
        simp del: serialize.simps)
  note ms = row_members [OF assms(2-5)]
  have "item_ok it" if it: "it \<in> set ev" for it
  proof -
    have "set (map member ev) = set (map member ?items)" using ms by (rule mset_eq_setD)
    then have "member it \<in> member ` set ?items" using it by (metis image_eqI image_set)
    then obtain it' where "it' \<in> set ?items" "member it = member it'" by blast
    then have "\<exists>x. serialize (snd it) = Inr x" using ok by (fastforce simp: item_ok_def member_def split: prod.splits)
    moreover have "clean (key_of (fst it))" using row_keys [OF assms(5)] it by blast
    moreover have "fst it = KStr (key_of (fst it))"
      using assms(5) it by (auto simp: row_to_event_dict_def key_of_def)
    ultimately show ?thesis by (cases it) (auto simp: item_ok_def split: pykey.splits)
  qed
  then have "serialize (PDict ev) = serialize (PDict ?items)"
    using row_keys [OF assms(5)] ms ok by (intro serialize_dict_members) auto
  with b show ?thesis by (simp add: canonicalize_def canonical_dumps_def del: serialize.simps)
qed

section \<open>Walking the rows of a ledger\<close>

text \<open>
  What the verifier needs of \<open>json.loads\<close>: a stored payload text is read, and the value read has that
  text as its canonical form.
\<close>

definition reads_payloads :: "(pystr \<Rightarrow> pyval option) \<Rightarrow> lrow list \<Rightarrow> bool" where
  "reads_payloads loads rows \<longleftrightarrow>
     (\<forall>r\<in>set rows. \<exists>v. loads (row_payload r) = Some v \<and> canonical_dumps v = Inr (row_payload r))"

definition rotation_payloads :: "(pystr \<Rightarrow> pyval option) \<Rightarrow> lrow list \<Rightarrow> bool" where
  "rotation_payloads loads rows \<longleftrightarrow>
     (\<forall>r\<in>set rows. row_kind r = kind_value KEY_ROTATED \<longrightarrow> (\<exists>p. loads (row_payload r) = Some (PDict p)))"

lemma row_derive:
  assumes "row_wf sha r" "compute_entry_hash sha p n (row_event_digest r) = Inr h"
    and "reads_payloads loads [r]" "row_to_event_dict loads r = Some ev"
  shows "derive_entry sha p n ev = Inr h"
proof -
  obtain e where e: "event_digest sha e = Inr (row_event_digest r)"
      "canonical_dumps (ev_payload e) = Inr (row_payload r)"
      "r = row_of e (row_payload r) (row_event_digest r) (row_prev_hash r) (row_entry_hash r)"
    using assms(1) unfolding row_wf_def by blast
  obtain v where v: "loads (row_payload r) = Some v" "canonical_dumps v = Inr (row_payload r)"
    using assms(3) by (auto simp: reads_payloads_def)
  have "row_to_event_dict loads
      (row_of e (row_payload r) (row_event_digest r) (row_prev_hash r) (row_entry_hash r)) = Some ev"
    using assms(4) e(3) by metis
  from row_serializes [OF e(1,2) v this] obtain b where
    "canonicalize (PDict ev) = Inr b" "row_event_digest r = sha256_hex sha b" by blast
  with assms(2) show ?thesis by (simp add: derive_entry_def)
qed

lemma row_entries_all:
  assumes "reads_payloads loads rows"
  shows "row_entries loads rows = (map (\<lambda>r. row_entry r (the (row_to_event_dict loads r))) rows, [])
    \<and> (\<forall>r\<in>set rows. row_to_event_dict loads r \<noteq> None)"
  using assms
proof (induction rows)
  case (Cons r rs)
  then obtain v where "loads (row_payload r) = Some v" by (auto simp: reads_payloads_def)
  then obtain ev where ev: "row_to_event_dict loads r = Some ev" by (simp add: row_to_event_dict_def)
  have "reads_payloads loads rs" using Cons.prems by (simp add: reads_payloads_def)
  with Cons.IH ev show ?case by simp
qed simp

lemma row_entry_shape:
  "entry_shape (row_entry r ev) = Inr (row_seq r, ev, row_prev_hash r, row_entry_hash r)"
  by (simp add: entry_shape_def row_entry_def)

text \<open>The fields of the rebuilt event the walk looks at.\<close>

lemma row_event_fields:
  assumes "row_to_event_dict loads r = Some ev"
  shows "dget (u ''kind'') ev = PStr (row_kind r)" "dget (u ''device_id'') ev = PStr (row_device_id r)"
    "dget (u ''tool_use_id'') ev = opt_str (row_tool_use_id r)"
    "dget (u ''session_id'') ev = PStr (row_session_id r)" "dget (u ''ts_device'') ev = PStr (row_ts_device r)"
    "dget (u ''payload'') ev = the (loads (row_payload r))"
proof -
  obtain v where "loads (row_payload r) = Some v" and ev: "ev = map (\<lambda>(k, v). (KStr k, v))
      (filter (\<lambda>(k, _). \<not> (row_schema_version r = EVENT_SCHEMA_VERSION_V1 \<and> k \<in> set V2_ONLY_FIELDS))
        (row_columns r v))"
    using assms by (auto simp: row_to_event_dict_def)
  then show "dget (u ''kind'') ev = PStr (row_kind r)" "dget (u ''device_id'') ev = PStr (row_device_id r)"
    "dget (u ''tool_use_id'') ev = opt_str (row_tool_use_id r)"
    "dget (u ''session_id'') ev = PStr (row_session_id r)" "dget (u ''ts_device'') ev = PStr (row_ts_device r)"
    "dget (u ''payload'') ev = the (loads (row_payload r))"
    by (simp_all add: row_columns_def V2_ONLY_FIELDS_def)
qed

lemma walk_tools_ok:
  "dget (u ''tool_use_id'') ev = opt_str t \<Longrightarrow> \<exists>w'. walk_tools repr s ev w = Inr w'"
  by (cases t) (auto simp: walk_tools_def Let_def opt_str_def)

lemma walk_stale_ok:
  "dget (u ''device_id'') ev = PStr d \<Longrightarrow> \<exists>w'. walk_stale repr s ev w = Inr w'"
  by (auto simp: walk_stale_def Let_def split: option.splits)

section \<open>What a step leaves alone\<close>

definition chain_part :: "walk \<Rightarrow> nat \<times> int list \<times> (int \<times> int) list \<times> int option \<times> pystr \<times> (int \<times> pystr) list" where
  "chain_part w = (w_checked w, w_broken w, w_gaps w, w_prev_seq w, w_prev_hash w, w_derived w)"

lemma walk_names_frame [simp]:
  "chain_part (walk_names repr ev w) = chain_part w" "w_malformed (walk_names repr ev w) = w_malformed w"
  "w_active (walk_names repr ev w) = w_active w" "w_rotations (walk_names repr ev w) = w_rotations w"
  by (simp_all add: chain_part_def walk_names_def Let_def)

lemma walk_tools_frame:
  "walk_tools repr s ev w = Inr w' \<Longrightarrow>
     chain_part w' = chain_part w \<and> w_malformed w' = w_malformed w \<and> w_active w' = w_active w
     \<and> w_rotations w' = w_rotations w \<and> w_stale w' = w_stale w"
  by (auto simp: chain_part_def walk_tools_def Let_def split: if_splits)

lemma walk_stale_frame:
  "walk_stale repr s ev w = Inr w' \<Longrightarrow>
     chain_part w' = chain_part w \<and> w_malformed w' = w_malformed w \<and> w_active w' = w_active w
     \<and> w_rotations w' = w_rotations w"
  by (auto simp: chain_part_def walk_stale_def Let_def split: if_splits option.splits pyval.splits)

lemma skip_frame [simp]:
  "chain_part (skip e w) = chain_part w" "w_active (skip e w) = w_active w"
  "w_malformed (skip e w) = w_malformed w @ [EntrySkipped e]" "w_rotations (skip e w) = w_rotations w"
  by (simp_all add: chain_part_def skip_def)

lemma note_payload_frame [simp]:
  "chain_part (note_payload s ev w) = chain_part w" "w_active (note_payload s ev w) = w_active w"
  "w_rotations (note_payload s ev w) = w_rotations w" "w_stale (note_payload s ev w) = w_stale w"
  "dget (u ''payload'') ev = PDict p \<Longrightarrow> note_payload s ev w = w"
  by (auto simp: note_payload_def chain_part_def split: pyval.splits)

lemma advance_frame [simp]:
  "chain_part (advance r w) = chain_part w" "w_rotations (advance r w) = w_rotations w"
  "w_malformed (advance r w) = w_malformed w" "w_stale (advance r w) = w_stale w"
  by (auto simp: advance_def chain_part_def split: pyval.splits option.splits bool.splits)

lemma note_pinned_frame [simp]:
  "chain_part (note_pinned repr ks r w) = chain_part w" "w_rotations (note_pinned repr ks r w) = w_rotations w"
  "w_malformed (note_pinned repr ks r w) = w_malformed w" "w_active (note_pinned repr ks r w) = w_active w"
  "w_stale (note_pinned repr ks r w) = w_stale w"
  by (auto simp: note_pinned_def chain_part_def Let_def split: pyval.splits option.splits)

lemma retire_frame [simp]:
  "chain_part (retire repr r w) = chain_part w" "w_rotations (retire repr r w) = w_rotations w"
  "w_malformed (retire repr r w) = w_malformed w" "w_active (retire repr r w) = w_active w"
  "w_stale (retire repr r w) = w_stale w"
  by (auto simp: retire_def chain_part_def)

lemma w_rotations_frame [simp]:
  "chain_part (w\<lparr>w_rotations := x\<rparr>) = chain_part w"
  by (simp add: chain_part_def)

lemma walk_rotation_frame [simp]:
  "chain_part (walk_rotation c repr ks s ev w) = chain_part w"
  by (auto simp: walk_rotation_def Let_def split: option.splits sum.splits)

lemma jsonable_dget: "jsonable (PDict items) \<Longrightarrow> jsonable (dget k items)"
  by (induction items) (auto simp: split_def split: pykey.splits)

lemma cross_verified_ok:
  assumes "jsonable (PDict payload)"
  shows "\<exists>b. cross_verified c key payload = Inr b"
proof -
  have "jsonable (signed_fields (dget (u ''old_device_id'') payload) (dget (u ''new_device_id'') payload)
      (dget (u ''new_public_key'') payload))"
    using jsonable_dget [OF assms]
    by (simp add: signed_fields_def jsonable_dict_of u_def clean_def surrogate_def)
  then show ?thesis using jsonable_canonicalize by (auto simp: cross_verified_def split: pyval.splits) fastforce
qed

lemma walk_rotation_malformed:
  assumes "dget (u ''payload'') ev = PDict p" "jsonable (PDict p)"
  shows "w_malformed (walk_rotation c repr ks s ev w) = w_malformed w"
proof -
  have "\<exists>r. check_rotation_live c k i d s p = Inr r" for k i d
    using cross_verified_ok [OF assms(2), of c k] by (auto simp: check_rotation_live_def Let_def)
  moreover have "\<exists>r. check_rotation c repr ks s p = Inr r"
    using cross_verified_ok [OF assms(2), of c]
    by (auto simp: check_rotation_def Let_def split: option.splits) (metis rmap_simps(2))+
  moreover have "payload_of ev = p" using assms(1) by (simp add: payload_of_def)
  ultimately show ?thesis
    using assms(1) by (auto simp: walk_rotation_def Let_def split: option.splits sum.splits)
      (metis Inl_Inr_False)+
qed

section \<open>One entry\<close>

definition count_entry :: "walk \<Rightarrow> walk" where
  "count_entry w = w\<lparr>w_checked := w_checked w + 1\<rparr>"

text \<open>Once its hash has been derived, an entry moves the chain state, whatever goes wrong later on.\<close>

lemma walk_entry_chain:
  assumes "entry_shape entry = Inr (seq, ev, p, s)" "derive_entry (c_sha c) p seq ev = Inr d"
  shows "chain_part (walk_entry c repr ks w entry) = chain_part (walk_link seq p s d (walk_gap seq (count_entry w)))"
  using assms
  by (auto simp: walk_entry_def Let_def count_entry_def split: sum.splits
      dest!: walk_tools_frame walk_stale_frame)

lemma walk_link_malformed [simp]:
  "w_malformed (walk_link seq p s d w) = w_malformed w" "w_malformed (walk_gap seq w) = w_malformed w"
  "w_malformed (count_entry w) = w_malformed w"
  "w_active (walk_link seq p s d w) = w_active w" "w_active (walk_gap seq w) = w_active w"
  "w_active (count_entry w) = w_active w"
  "w_rotations (walk_link seq p s d w) = w_rotations w" "w_rotations (walk_gap seq w) = w_rotations w"
  "w_rotations (count_entry w) = w_rotations w"
  by (auto simp: walk_link_def walk_gap_def count_entry_def split: option.splits)

lemma walk_entry_error:
  assumes "entry_shape entry = Inl e \<or> entry_shape entry = Inr (seq, ev, p, s) \<and> derive_entry (c_sha c) p seq ev = Inl e"
  shows "w_malformed (walk_entry c repr ks w entry) = w_malformed w @ [EntrySkipped e]"
  using assms by (auto simp: walk_entry_def Let_def simp flip: count_entry_def)

lemma walk_row_malformed:
  assumes "derive_entry (c_sha c) (row_prev_hash r) (row_seq r) ev = Inr d"
    and "row_to_event_dict loads r = Some ev" "reads_payloads loads [r]" "rotation_payloads loads [r]"
  shows "w_malformed (walk_entry c repr ks w (row_entry r ev)) = w_malformed w"
proof -
  let ?w2 = "walk_names repr ev (walk_link (row_seq r) (row_prev_hash r) (row_entry_hash r) d
      (walk_gap (row_seq r) (count_entry w)))"
  note f = row_event_fields [OF assms(2)]
  obtain w3 where w3: "walk_tools repr (row_seq r) ev ?w2 = Inr w3" using walk_tools_ok [OF f(3)] by blast
  obtain w4 where w4: "walk_stale repr (row_seq r) ev w3 = Inr w4" using walk_stale_ok [OF f(2)] by blast
  have eq: "walk_entry c repr ks w (row_entry r ev) =
      (if is_kind KEY_ROTATED ev then walk_rotation c repr ks (row_seq r) ev w4 else w4)"
    using assms(1) w3 w4 by (simp add: walk_entry_def row_entry_shape Let_def count_entry_def)
  have same: "w_malformed w4 = w_malformed w"
    using walk_tools_frame [OF w3] walk_stale_frame [OF w4] by simp
  show ?thesis
  proof (cases "is_kind KEY_ROTATED ev")
    case True
    then obtain q where q: "loads (row_payload r) = Some (PDict q)"
      using assms(4) f(1) by (auto simp: is_kind_def rotation_payloads_def)
    then have "canonical_dumps (PDict q) = Inr (row_payload r)" using assms(3) by (auto simp: reads_payloads_def)
    then have "jsonable (PDict q)"
      using serialize_succeeds_aux [of "PDict q"] by (auto simp: canonical_dumps_def simp del: serialize.simps)
    moreover have "dget (u ''payload'') ev = PDict q" using f(6) q by simp
    ultimately show ?thesis using eq True same walk_rotation_malformed by simp
  qed (use eq same in simp)
qed

text \<open>A correctly linked row at its place in the sequence leaves no finding.\<close>

definition at_end :: "pystr \<Rightarrow> int \<Rightarrow> walk \<Rightarrow> bool" where
  "at_end p n w \<longleftrightarrow> w_prev_hash w = p \<and> (w_prev_seq w = Some (n - 1) \<or> w_prev_seq w = None \<and> n = 1)"

lemma walk_good_row:
  assumes "at_end (row_prev_hash r) (row_seq r) w" "entry_shape entry = Inr (row_seq r, ev, row_prev_hash r, row_entry_hash r)"
    and "derive_entry (c_sha c) (row_prev_hash r) (row_seq r) ev = Inr (row_entry_hash r)"
  shows "at_end (row_entry_hash r) (row_seq r + 1) (walk_entry c repr ks w entry)
    \<and> w_broken (walk_entry c repr ks w entry) = w_broken w \<and> w_gaps (walk_entry c repr ks w entry) = w_gaps w
    \<and> w_derived (walk_entry c repr ks w entry) = (row_seq r, row_entry_hash r) # w_derived w
    \<and> w_checked (walk_entry c repr ks w entry) = w_checked w + 1"
  using walk_entry_chain [OF assms(2,3), of repr ks w] assms(1)
  by (auto simp: chain_part_def walk_link_def walk_gap_def count_entry_def at_end_def)

lemma walk_rows:
  assumes "rows_ok (c_sha c) p n rows" "reads_payloads loads rows" "at_end p n w"
  shows "let w' = foldl (walk_entry c repr ks) w (fst (row_entries loads rows)) in
    w_broken w' = w_broken w \<and> w_gaps w' = w_gaps w
    \<and> w_derived w' = rev (map (\<lambda>r. (row_seq r, row_entry_hash r)) rows) @ w_derived w
    \<and> w_checked w' = w_checked w + length rows
    \<and> (rotation_payloads loads rows \<longrightarrow> w_malformed w' = w_malformed w)"
  using assms
proof (induction rows arbitrary: p n w)
  case (Cons r rs)
  have one: "reads_payloads loads [r]" "reads_payloads loads rs"
    and rot: "rotation_payloads loads (r # rs) \<longleftrightarrow> rotation_payloads loads [r] \<and> rotation_payloads loads rs"
    using Cons.prems(2) by (auto simp: reads_payloads_def rotation_payloads_def)
  obtain ev where ev: "row_to_event_dict loads r = Some ev" using row_entries_all [OF one(1)] by auto
  have head: "row_seq r = n" "row_prev_hash r = p" "row_wf (c_sha c) r"
    "compute_entry_hash (c_sha c) p n (row_event_digest r) = Inr (row_entry_hash r)"
    and tail: "rows_ok (c_sha c) (row_entry_hash r) (n + 1) rs"
    using Cons.prems(1) by simp_all
  have d: "derive_entry (c_sha c) (row_prev_hash r) (row_seq r) ev = Inr (row_entry_hash r)"
    using row_derive [OF head(3,4) one(1) ev] head by simp
  let ?w = "walk_entry c repr ks w (row_entry r ev)"
  note good = walk_good_row [OF _ row_entry_shape d, of w repr ks]
  have at: "at_end (row_entry_hash r) (n + 1) ?w" and keep: "w_broken ?w = w_broken w" "w_gaps ?w = w_gaps w"
    "w_derived ?w = (row_seq r, row_entry_hash r) # w_derived w" "w_checked ?w = w_checked w + 1"
    using good Cons.prems(3) head by auto
  have mal: "rotation_payloads loads [r] \<Longrightarrow> w_malformed ?w = w_malformed w"
    using walk_row_malformed [OF d ev one(1)] .
  have fst: "fst (row_entries loads (r # rs)) = row_entry r ev # fst (row_entries loads rs)"
    using ev by (simp add: split_def)
  show ?case
    using Cons.IH [OF tail one(2) at] keep mal rot unfolding fst by (auto simp: Let_def)
qed simp

section \<open>What no finding means\<close>

definition grows :: "walk \<Rightarrow> walk \<Rightarrow> bool" where
  "grows w w' \<longleftrightarrow>
     (w_broken w' = [] \<longrightarrow> w_broken w = []) \<and> (w_gaps w' = [] \<longrightarrow> w_gaps w = [])
     \<and> (w_malformed w' = [] \<longrightarrow> w_malformed w = [])"

definition clean_walk :: "walk \<Rightarrow> bool" where
  "clean_walk w \<longleftrightarrow> w_broken w = [] \<and> w_gaps w = [] \<and> w_malformed w = []"

definition next_ok :: "walk \<Rightarrow> int \<Rightarrow> bool" where
  "next_ok w n \<longleftrightarrow> (case w_prev_seq w of None \<Rightarrow> n \<le> 1 | Some m \<Rightarrow> n = m + 1)"

lemma grows_clean: "grows w w' \<Longrightarrow> clean_walk w' \<Longrightarrow> clean_walk w"
  by (simp add: grows_def clean_walk_def)

lemma note_payload_malformed: "w_malformed (note_payload s ev w) = [] \<Longrightarrow> w_malformed w = []"
  by (auto simp: note_payload_def split: pyval.splits)

lemma walk_rotation_grows: "w_malformed (walk_rotation c repr ks s ev w) = [] \<Longrightarrow> w_malformed w = []"
  by (auto simp: walk_rotation_def Let_def split: option.splits sum.splits dest: note_payload_malformed)

text \<open>A clean step was a well-shaped entry that derives and links.\<close>

lemma clean_step:
  assumes "clean_walk (walk_entry c repr ks w entry)"
  obtains seq ev p where "entry_shape entry = Inr (seq, ev, p, w_prev_hash (walk_entry c repr ks w entry))"
    "derive_entry (c_sha c) p seq ev = Inr (w_prev_hash (walk_entry c repr ks w entry))"
    "p = w_prev_hash w" "next_ok w seq" "w_prev_seq (walk_entry c repr ks w entry) = Some seq" "clean_walk w"
    "w_derived (walk_entry c repr ks w entry) = (seq, w_prev_hash (walk_entry c repr ks w entry)) # w_derived w"
proof -
  let ?w = "walk_entry c repr ks w entry"
  obtain seq ev p s where shape: "entry_shape entry = Inr (seq, ev, p, s)"
    using assms walk_entry_error [of entry] by (cases "entry_shape entry") (auto simp: clean_walk_def)
  obtain d where d: "derive_entry (c_sha c) p seq ev = Inr d"
    using assms shape walk_entry_error [of entry _ seq ev p s c]
    by (cases "derive_entry (c_sha c) p seq ev") (auto simp: clean_walk_def)
  note cp = walk_entry_chain [OF shape d, of repr ks w]
  have br: "w_broken w = []" "p = w_prev_hash w" "d = s" "next_ok w seq" "w_gaps w = []"
      "w_prev_hash ?w = s" "w_prev_seq ?w = Some seq" "w_derived ?w = (seq, d) # w_derived w"
    using cp assms by (auto simp: chain_part_def walk_link_def walk_gap_def count_entry_def clean_walk_def
        next_ok_def split: option.splits if_splits)
  let ?w2 = "walk_names repr ev (walk_link seq p s d (walk_gap seq (count_entry w)))"
  have mal: "w_malformed w = []"
  proof -
    have "w_malformed ?w = [] \<Longrightarrow> w_malformed ?w2 = []"
      using shape d by (auto simp: walk_entry_def Let_def count_entry_def split: sum.splits if_splits
          dest!: walk_tools_frame walk_stale_frame walk_rotation_grows)
    then show ?thesis using assms by (simp add: clean_walk_def)
  qed
  show thesis
    by (rule that [of seq ev p]) (use shape d br mal in \<open>simp_all add: clean_walk_def\<close>)
qed

fun accepted_rows :: "hash \<Rightarrow> (pystr \<Rightarrow> pyval option) \<Rightarrow> pystr \<Rightarrow> int \<Rightarrow> lrow list \<Rightarrow> bool" where
  "accepted_rows sha loads p n [] \<longleftrightarrow> True"
| "accepted_rows sha loads p n (r # rs) \<longleftrightarrow>
     row_seq r = n \<and> row_prev_hash r = p
     \<and> (\<exists>ev. row_to_event_dict loads r = Some ev \<and> derive_entry sha p n ev = Inr (row_entry_hash r))
     \<and> accepted_rows sha loads (row_entry_hash r) (n + 1) rs"

lemma clean_walk_foldl:
  "clean_walk (foldl (walk_entry c repr ks) w entries) \<Longrightarrow> clean_walk w"
proof (induction entries arbitrary: w)
  case (Cons e es)
  then have "clean_walk (walk_entry c repr ks w e)" by simp
  then show ?case by (rule clean_step)
qed simp

lemma clean_derived:
  assumes "snd (row_entries loads rows) = []"
    and "clean_walk (foldl (walk_entry c repr ks) w (fst (row_entries loads rows)))"
  shows "w_derived (foldl (walk_entry c repr ks) w (fst (row_entries loads rows)))
    = rev (map (\<lambda>r. (row_seq r, row_entry_hash r)) rows) @ w_derived w"
  using assms
proof (induction rows arbitrary: w)
  case (Cons r rs)
  obtain ev where ev: "row_to_event_dict loads r = Some ev" and bad: "snd (row_entries loads rs) = []"
    using Cons.prems(1) by (auto split: option.splits prod.splits)
  have fst: "fst (row_entries loads (r # rs)) = row_entry r ev # fst (row_entries loads rs)"
    using ev by (simp add: split_def)
  let ?w = "walk_entry c repr ks w (row_entry r ev)"
  have rest: "clean_walk (foldl (walk_entry c repr ks) ?w (fst (row_entries loads rs)))"
    using Cons.prems(2) unfolding fst by simp
  from clean_step [OF clean_walk_foldl [OF rest]] have "w_derived ?w = (row_seq r, row_entry_hash r) # w_derived w"
    by (metis Pair_inject row_entry_shape sum.inject(2))
  with Cons.IH [OF bad rest] show ?case unfolding fst by simp
qed simp

lemma clean_rows:
  assumes "snd (row_entries loads rows) = []"
    and "clean_walk (foldl (walk_entry c repr ks) w (fst (row_entries loads rows)))"
    and "rows \<noteq> [] \<longrightarrow> n = row_seq (hd rows)"
  shows "accepted_rows (c_sha c) loads (w_prev_hash w) n rows \<and> (rows \<noteq> [] \<longrightarrow> next_ok w n)"
  using assms
proof (induction rows arbitrary: w n)
  case (Cons r rs)
  obtain ev where ev: "row_to_event_dict loads r = Some ev" and bad: "snd (row_entries loads rs) = []"
    using Cons.prems(1) by (auto split: option.splits prod.splits)
  have fst: "fst (row_entries loads (r # rs)) = row_entry r ev # fst (row_entries loads rs)"
    using ev by (simp add: split_def)
  let ?w = "walk_entry c repr ks w (row_entry r ev)"
  have rest: "clean_walk (foldl (walk_entry c repr ks) ?w (fst (row_entries loads rs)))"
    using Cons.prems(2) unfolding fst by simp
  from clean_step [OF clean_walk_foldl [OF rest]] obtain seq e p where
    st: "entry_shape (row_entry r ev) = Inr (seq, e, p, w_prev_hash ?w)"
      "derive_entry (c_sha c) p seq e = Inr (w_prev_hash ?w)" "p = w_prev_hash w" "next_ok w seq"
      "w_prev_seq ?w = Some seq" by metis
  then have eqs: "seq = row_seq r" "e = ev" "p = row_prev_hash r" "w_prev_hash ?w = row_entry_hash r"
    by (simp_all add: row_entry_shape)
  have n: "n = row_seq r" using Cons.prems(3) by simp
  have nxt: "rs \<noteq> [] \<Longrightarrow> row_seq (hd rs) = n + 1"
    using Cons.IH [OF bad rest, of "row_seq (hd rs)"] st(5) eqs(1) n by (simp add: next_ok_def)
  have "accepted_rows (c_sha c) loads (row_entry_hash r) (n + 1) rs"
    using Cons.IH [OF bad rest, of "n + 1"] nxt eqs(4) by auto
  with st eqs n ev show ?case by auto
qed simp

section \<open>The report\<close>

definition final_walk ::
  "crypto \<Rightarrow> (pyval \<Rightarrow> pystr) \<Rightarrow> (pystr \<rightharpoonup> pystr) \<Rightarrow> pystr option \<Rightarrow> pyval list \<Rightarrow> walk" where
  "final_walk c repr ks key entries = foldl (walk_entry c repr ks) (start_walk c key) entries"

lemma walk_chain_final:
  "walk_chain c repr ks key entries = (final_walk c repr ks key entries)
     \<lparr>w_notes := w_notes (final_walk c repr ks key entries)
        @ concat (map rotation_notes (w_rotations (final_walk c repr ks key entries)))\<rparr>"
  by (simp add: walk_chain_def final_walk_def Let_def)

lemma report_fields:
  "vr_broken (verify_ledger_db c repr loads readable key ks db) = w_broken (final_walk c repr ks key (fst (row_entries loads (rows_by_seq db))))"
  "vr_gaps (verify_ledger_db c repr loads readable key ks db) = w_gaps (final_walk c repr ks key (fst (row_entries loads (rows_by_seq db))))"
  "vr_malformed (verify_ledger_db c repr loads readable key ks db) = snd (row_entries loads (rows_by_seq db)) @ w_malformed (final_walk c repr ks key (fst (row_entries loads (rows_by_seq db))))"
  "vr_entries_checked (verify_ledger_db c repr loads readable key ks db) = w_checked (final_walk c repr ks key (fst (row_entries loads (rows_by_seq db))))"
  "vr_rotations (verify_ledger_db c repr loads readable key ks db) = w_rotations (final_walk c repr ks key (fst (row_entries loads (rows_by_seq db))))"
  "vr_stale (verify_ledger_db c repr loads readable key ks db) = w_stale (final_walk c repr ks key (fst (row_entries loads (rows_by_seq db))))"
  by (simp_all add: verify_ledger_db_def Let_def walk_chain_final split_def)

definition unbroken :: "verify_report \<Rightarrow> bool" where
  "unbroken rep \<longleftrightarrow> vr_broken rep = [] \<and> vr_gaps rep = [] \<and> vr_malformed rep = []"

lemma vr_ok_unbroken: "vr_ok (verify_ledger_db c repr loads readable key ks db) \<Longrightarrow>
    unbroken (verify_ledger_db c repr loads readable key ks db)"
  by (simp add: unbroken_def verify_ledger_db_def Let_def split_def)

lemma start_walk_simps [simp]:
  "w_prev_hash (start_walk c key) = GENESIS_PREV_HASH" "w_prev_seq (start_walk c key) = None"
  "w_broken (start_walk c key) = []" "w_gaps (start_walk c key) = []" "w_malformed (start_walk c key) = []"
  "w_checked (start_walk c key) = 0" "w_derived (start_walk c key) = []" "w_rotations (start_walk c key) = []"
  by (simp_all add: start_walk_def Let_def)

lemma unbroken_accepted:
  assumes "unbroken (verify_ledger_db c repr loads readable key ks db)" "rows_by_seq db \<noteq> []"
  shows "accepted_rows (c_sha c) loads GENESIS_PREV_HASH (row_seq (hd (rows_by_seq db))) (rows_by_seq db)
    \<and> row_seq (hd (rows_by_seq db)) \<le> 1"
proof -
  have "clean_walk (foldl (walk_entry c repr ks) (start_walk c key) (fst (row_entries loads (rows_by_seq db))))"
    and "snd (row_entries loads (rows_by_seq db)) = []"
    using assms(1) by (auto simp: unbroken_def report_fields clean_walk_def final_walk_def)
  from clean_rows [OF this(2,1), of "row_seq (hd (rows_by_seq db))"] assms(2) show ?thesis
    by (simp add: next_ok_def)
qed

definition event_bytes :: "(pystr \<Rightarrow> pyval option) \<Rightarrow> lrow \<Rightarrow> bytes" where
  "event_bytes loads r =
     (case row_to_event_dict loads r of None \<Rightarrow> []
      | Some ev \<Rightarrow> (case canonicalize (PDict ev) of Inl _ \<Rightarrow> [] | Inr b \<Rightarrow> b))"

definition derived_links :: "hash \<Rightarrow> (pystr \<Rightarrow> pyval option) \<Rightarrow> lrow list \<Rightarrow> (pystr \<times> pystr) list" where
  "derived_links sha loads rows = map (\<lambda>r. (sha256_hex sha (event_bytes loads r), row_entry_hash r)) rows"

lemma accepted_linked:
  "accepted_rows sha loads p n rows \<Longrightarrow> linked (compute_entry_hash sha) p n (derived_links sha loads rows)"
proof (induction rows arbitrary: p n)
  case (Cons r rs)
  then obtain ev where "row_to_event_dict loads r = Some ev" "derive_entry sha p n ev = Inr (row_entry_hash r)"
    by auto
  then have "compute_entry_hash sha p n (sha256_hex sha (event_bytes loads r)) = Inr (row_entry_hash r)"
    by (auto simp: derive_entry_def event_bytes_def split: sum.splits)
  with Cons show ?case by (simp add: derived_links_def)
qed (simp add: derived_links_def)

lemma derived_links_bytes:
  assumes "derived_links sha loads rs = derived_links sha loads ss"
  shows "map (event_bytes loads) rs = map (event_bytes loads) ss
    \<or> collision_on sha (event_bytes loads ` (set rs \<union> set ss))"
  using assms
proof (induction rs arbitrary: ss)
  case (Cons r rs)
  then obtain s ss' where ss: "ss = s # ss'" by (cases ss) (auto simp: derived_links_def)
  let ?A = "event_bytes loads ` (set (r # rs) \<union> set ss)"
  have sha: "sha (event_bytes loads r) = sha (event_bytes loads s)"
    and rest: "derived_links sha loads rs = derived_links sha loads ss'"
    using Cons.prems ss by (auto simp: derived_links_def sha256_hex_inject)
  from sha sha_cases [of sha "event_bytes loads r" "event_bytes loads s" ?A] have "event_bytes loads r = event_bytes loads s \<or> collision_on sha ?A"
    by (simp add: ss)
  moreover have "map (event_bytes loads) rs = map (event_bytes loads) ss' \<or> collision_on sha ?A"
    using Cons.IH [OF rest] collision_on_mono [of sha _ ?A] by (force simp: ss)
  ultimately show ?case by (auto simp: ss)
qed (auto simp: derived_links_def)

lemma written_verifies_aux:
  assumes db: "db_ok (c_sha c) db" and "reads_payloads loads (events db)" "rotation_payloads loads (events db)"
  shows "unbroken (verify_ledger_db c repr loads readable key ks db)
    \<and> vr_entries_checked (verify_ledger_db c repr loads readable key ks db) = length (events db)"
proof -
  have rows: "rows_ok (c_sha c) GENESIS_PREV_HASH 1 (events db)" using db by (simp add: db_ok_def)
  have "at_end GENESIS_PREV_HASH 1 (start_walk c key)" by (simp add: at_end_def)
  from walk_rows [OF rows assms(2) this, of repr ks] assms(3) row_entries_all [OF assms(2)] show ?thesis
    by (simp add: unbroken_def report_fields final_walk_def resume_db_ok(1) [OF db] Let_def)
qed

section \<open>Properties\<close>

text \<open>
  C7: The verifier agrees with the writer. On any ledger file the ledger's operations can produce, by
  any number of instances and with any failing statements, the verifier reports no broken link, no
  gap and no malformed row, and has checked every row; with or without a starting key, and
  whatever the checkpoint table holds.
\<close>

theorem written_ledger_verifies:
  assumes "ledger_reach (c_sha c) w" "reads_payloads loads (events (w_db w))"
    and "rotation_payloads loads (events (w_db w))"
  shows "unbroken (verify_ledger_db c repr loads readable key ks (w_db w))
    \<and> vr_entries_checked (verify_ledger_db c repr loads readable key ks (w_db w)) = length (events (w_db w))"
  using ledger_reach_ok [OF assms(1)] written_verifies_aux assms(2,3) by (simp add: world_ok_def)

text \<open>
  C8: Two files that both verify without a broken link, gap or malformed row, start at sequence
  number 1 and end in the same entry hash hold the same canonical events in the same order; or
  the hash function has a collision among the link documents or the events that were hashed.
  A head published once pins everything the verifier accepts under it.
\<close>

theorem verified_head_pins_events:
  assumes "unbroken (verify_ledger_db c repr loads readable key ks db)"
    and "unbroken (verify_ledger_db c repr' loads readable' key' ks' db')"
    and "rows_by_seq db \<noteq> []" "rows_by_seq db' \<noteq> []"
    and "row_seq (hd (rows_by_seq db)) = 1" "row_seq (hd (rows_by_seq db')) = 1"
    and "row_entry_hash (last (rows_by_seq db)) = row_entry_hash (last (rows_by_seq db'))"
  shows "map (event_bytes loads) (rows_by_seq db) = map (event_bytes loads) (rows_by_seq db')
    \<or> collision_on (c_sha c) (event_bytes loads ` (set (rows_by_seq db) \<union> set (rows_by_seq db')))
    \<or> collision_on (c_sha c) (link_bytes `
        (link_inputs GENESIS_PREV_HASH 1 (derived_links (c_sha c) loads (rows_by_seq db))
          \<union> link_inputs GENESIS_PREV_HASH 1 (derived_links (c_sha c) loads (rows_by_seq db'))))"
proof -
  let ?a = "derived_links (c_sha c) loads (rows_by_seq db)"
  let ?b = "derived_links (c_sha c) loads (rows_by_seq db')"
  have "linked (compute_entry_hash (c_sha c)) GENESIS_PREV_HASH 1 ?a"
    "linked (compute_entry_hash (c_sha c)) GENESIS_PREV_HASH 1 ?b"
    using unbroken_accepted [OF assms(1,3)] unbroken_accepted [OF assms(2,4)] assms(5,6) accepted_linked by auto
  moreover have "chain_head GENESIS_PREV_HASH ?a = chain_head GENESIS_PREV_HASH ?b" "?a \<noteq> []" "?b \<noteq> []"
    using assms(3,4,7) by (simp_all add: chain_head_def derived_links_def last_map)
  moreover have "\<forall>x\<in>set (derived_links (c_sha c) loads rs). str_ok (fst x)" for rs
    by (auto simp: derived_links_def)
  ultimately have "?a = ?b \<or> collision_on (c_sha c) (link_bytes ` (link_inputs GENESIS_PREV_HASH 1 ?a
      \<union> link_inputs GENESIS_PREV_HASH 1 ?b))"
    by (intro ledger_chain.head_determines_chain) auto
  then show ?thesis using derived_links_bytes by blast
qed

end
