(* ===== verification/Verify_Props.thy ===== *)
theory Verify_Props
  imports Verify_Ledger
begin

text \<open>
  What an accepted file says about keys and checkpoints, and where the verifier looks less closely
  than its documentation says.
\<close>

section \<open>Handing a key over\<close>

text \<open>\<open>key_path c a b\<close>: from \<open>(key, id)\<close> pair \<open>a\<close> to \<open>b\<close> by handovers each signed with the key before.\<close>

inductive key_path :: "crypto \<Rightarrow> pystr \<times> pystr \<Rightarrow> pystr \<times> pystr \<Rightarrow> bool" for c where
  same_key: "key_path c a a"
| handover:
    "key_path c a (k, i) \<Longrightarrow>
     canonicalize (signed_fields (PStr i) (PStr i') (PStr k')) = Inr data \<Longrightarrow>
     device_key_verify c k data sig \<Longrightarrow> derive_device_id c k' = Some i' \<Longrightarrow>
     key_path c a (k', i')"

definition handed_over :: "crypto \<Rightarrow> pystr \<times> pystr \<Rightarrow> pystr \<times> pystr \<Rightarrow> bool" where
  "handed_over c a b \<longleftrightarrow> a = b \<or>
     (\<exists>data sig. canonicalize (signed_fields (PStr (snd a)) (PStr (snd b)) (PStr (fst b))) = Inr data
        \<and> device_key_verify c (fst a) data sig \<and> derive_device_id c (fst b) = Some (snd b))"

lemma key_path_handed_over: "key_path c a b \<Longrightarrow> handed_over c b d \<Longrightarrow> key_path c a d"
  by (cases b; cases d) (auto simp: handed_over_def intro: handover)

lemma cross_verified_True:
  assumes "cross_verified c k payload = Inr True"
  shows "\<exists>data sig. canonicalize (signed_fields (dget (u ''old_device_id'') payload)
      (dget (u ''new_device_id'') payload) (dget (u ''new_public_key'') payload)) = Inr data
    \<and> device_key_verify c k data sig"
  using assms by (auto simp: cross_verified_def split: pyval.splits sum.splits)

lemma check_rotation_live_Inr:
  assumes "check_rotation_live c k i dev seq payload = Inr r"
  shows "rot_seq r = seq" "rot_new r = dget (u ''new_device_id'') payload"
    "rot_key r = dget (u ''new_public_key'') payload"
    "\<exists>v. cross_verified c k payload = Inr v \<and> rot_verified r = Some v \<and>
       rot_valid r = Some (v \<and> dget (u ''old_device_id'') payload = PStr i \<and> dev = PStr i
         \<and> id_matches_key c (rot_key r) (rot_new r) = Some True)"
  using assms by (auto simp: check_rotation_live_def Let_def rmap_Inr_iff)

lemma advance_active:
  assumes "check_rotation_live c k i dev seq payload = Inr r" "w_active w = Some (k, i)"
  shows "\<exists>a. w_active (advance r w) = Some a \<and> handed_over c (k, i) a
    \<and> (rot_valid r \<noteq> Some True \<longrightarrow> a = (k, i)) \<and> (a \<noteq> (k, i) \<longrightarrow> dev = PStr i)"
proof (cases "rot_valid r = Some True")
  case True
  from check_rotation_live_Inr [OF assms(1)] True have
    v: "cross_verified c k payload = Inr True" "dget (u ''old_device_id'') payload = PStr i" "dev = PStr i"
      "id_matches_key c (rot_key r) (rot_new r) = Some True"
    and f: "rot_new r = dget (u ''new_device_id'') payload" "rot_key r = dget (u ''new_public_key'') payload"
    by auto
  then obtain k' i' where n: "rot_key r = PStr k'" "rot_new r = PStr i'" "derive_device_id c k' = Some i'"
    by (auto simp: id_matches_key_def split: pyval.splits)
  have "handed_over c (k, i) (k', i')"
    using cross_verified_True [OF v(1)] v(2) f n by (auto simp: handed_over_def)
  then show ?thesis using n True v(3) by (auto simp: advance_def)
next
  case False
  then show ?thesis
    using assms(2) by (auto simp: advance_def handed_over_def split: option.splits bool.splits pyval.splits)
qed

lemma walk_rotation_active:
  assumes "w_active w = Some (k, i)"
  shows "\<exists>a. w_active (walk_rotation c repr ks seq ev w) = Some a \<and> handed_over c (k, i) a
    \<and> (a \<noteq> (k, i) \<longrightarrow> dget (u ''device_id'') ev = PStr i)"
proof (cases "check_rotation_live c k i (dget (u ''device_id'') ev) seq (payload_of ev)")
  case (Inl e)
  then show ?thesis using assms by (simp add: walk_rotation_def Let_def handed_over_def)
next
  case (Inr r)
  let ?w = "(note_payload seq ev w)\<lparr>w_rotations := w_rotations w @ [r]\<rparr>"
  have "w_active ?w = Some (k, i)" using assms by simp
  from advance_active [OF Inr this] Inr assms show ?thesis
    by (auto simp: walk_rotation_def Let_def)
qed

lemma walk_entry_active:
  assumes "w_active w = Some (k, i)"
  shows "\<exists>a. w_active (walk_entry c repr ks w entry) = Some a \<and> handed_over c (k, i) a"
proof -
  have keep: "\<exists>a. Some (k, i) = Some a \<and> handed_over c (k, i) a" by (auto simp: handed_over_def)
  show ?thesis
    using assms keep walk_rotation_active
    by (auto simp: walk_entry_def Let_def simp flip: count_entry_def split: sum.splits
        dest!: walk_tools_frame walk_stale_frame) (metis (no_types, lifting))+
qed

lemma walk_active:
  assumes "w_active w = Some b" "key_path c a b"
  shows "\<exists>d. w_active (foldl (walk_entry c repr ks) w entries) = Some d \<and> key_path c a d"
  using assms
proof (induction entries arbitrary: w b)
  case (Cons e es)
  obtain k i where b: "b = (k, i)" by (cases b)
  obtain d where d: "w_active (walk_entry c repr ks w e) = Some d" "handed_over c b d"
    using walk_entry_active [of w k i] Cons.prems(1) b by blast
  show ?case using Cons.IH [OF d(1) key_path_handed_over [OF Cons.prems(2) d(2)]] by simp
qed auto

text \<open>
  With a starting key, whatever entries the walk is given, the key it holds active is always
  reached from that key by handovers each of which is signed with the key active before it, names
  the ids of both sides, and hands over to the id that derives from the new key. No entry can take
  the timeline over without such a signature, and \<open>device_public_keys\<close> has no say.
\<close>

theorem active_key_is_handed_over:
  assumes "derive_device_id c k0 = Some i0"
  shows "\<exists>a. w_active (final_walk c repr ks (Some k0) entries) = Some a \<and> key_path c (k0, i0) a"
  unfolding final_walk_def
  by (rule walk_active [of _ "(k0, i0)"]) (simp_all add: start_walk_def Let_def assms same_key)

text \<open>An entry whose hash was derived, from the point where its event is looked at.\<close>

definition after_link ::
  "(pyval \<Rightarrow> pystr) \<Rightarrow> int \<Rightarrow> (pykey \<times> pyval) list \<Rightarrow> pystr \<Rightarrow> pystr \<Rightarrow> pystr \<Rightarrow> walk \<Rightarrow> walk" where
  "after_link repr seq ev p s d w = walk_names repr ev (walk_link seq p s d (walk_gap seq (count_entry w)))"

lemma after_link_simps [simp]:
  "w_active (after_link repr seq ev p s d w) = w_active w"
  "w_malformed (after_link repr seq ev p s d w) = w_malformed w"
  "w_rotations (after_link repr seq ev p s d w) = w_rotations w"
  "w_prev_seq (after_link repr seq ev p s d w) = Some seq"
  "w_prev_hash (after_link repr seq ev p s d w) = s"
  "w_derived (after_link repr seq ev p s d w) = (seq, d) # w_derived (walk_gap seq (count_entry w))"
  by (simp_all add: after_link_def walk_names_def walk_link_def Let_def)

lemma walk_entry_derived:
  assumes "entry_shape entry = Inr (seq, ev, p, s)" "derive_entry (c_sha c) p seq ev = Inr d"
  shows "walk_entry c repr ks w entry =
    (case walk_tools repr seq ev (after_link repr seq ev p s d w) of
       Inl e \<Rightarrow> skip e (after_link repr seq ev p s d w)
     | Inr w3 \<Rightarrow>
         (case walk_stale repr seq ev w3 of Inl e \<Rightarrow> skip e w3
          | Inr w4 \<Rightarrow> if is_kind KEY_ROTATED ev then walk_rotation c repr ks seq ev w4 else w4))"
  unfolding walk_entry_def Let_def after_link_def count_entry_def by (simp add: assms)

lemma rejected_rotation:
  assumes "w_active w = Some (k, i)"
    and "dget (u ''device_id'') ev \<noteq> PStr i \<or> dget (u ''old_device_id'') (payload_of ev) \<noteq> PStr i"
  shows "w_active (walk_rotation c repr ks seq ev w) = Some (k, i)
    \<and> (w_malformed (walk_rotation c repr ks seq ev w) \<noteq> []
        \<or> forged_rotations (w_rotations (walk_rotation c repr ks seq ev w)) \<noteq> [])"
proof (cases "check_rotation_live c k i (dget (u ''device_id'') ev) seq (payload_of ev)")
  case (Inl e)
  then show ?thesis using assms by (simp add: walk_rotation_def Let_def)
next
  case (Inr r)
  let ?w = "(note_payload seq ev w)\<lparr>w_rotations := w_rotations w @ [r]\<rparr>"
  have act: "w_active ?w = Some (k, i)" using assms by simp
  have v: "rot_valid r = Some False" using check_rotation_live_Inr(4) [OF Inr] assms(2) by auto
  with advance_active [OF Inr act] have "w_active (advance r ?w) = Some (k, i)" by auto
  then show ?thesis using Inr assms(1) v by (simp add: walk_rotation_def Let_def forged_rotations_def)
qed

text \<open>What it takes to hand over from the active key \<open>k\<close> with id \<open>i\<close>: labels, ids and a signature of \<open>k\<close>.\<close>

definition hands_over :: "crypto \<Rightarrow> pystr \<Rightarrow> pystr \<Rightarrow> (pykey \<times> pyval) list \<Rightarrow> pystr \<Rightarrow> pystr \<Rightarrow> bool" where
  "hands_over c k i ev k' i' \<longleftrightarrow>
     dget (u ''device_id'') ev = PStr i \<and> dget (u ''old_device_id'') (payload_of ev) = PStr i
     \<and> dget (u ''new_device_id'') (payload_of ev) = PStr i' \<and> dget (u ''new_public_key'') (payload_of ev) = PStr k'
     \<and> derive_device_id c k' = Some i'
     \<and> (\<exists>data sig. canonicalize (signed_fields (PStr i) (PStr i') (PStr k')) = Inr data
          \<and> dget (u ''cross_signature'') (payload_of ev) = PStr sig \<and> device_key_verify c k data sig)"

definition own_finding :: "walk \<Rightarrow> walk \<Rightarrow> bool" where
  "own_finding w w' \<longleftrightarrow> (\<exists>x. x \<noteq> [] \<and> w_malformed w' = w_malformed w @ x)
     \<or> (\<exists>r. w_rotations w' = w_rotations w @ [r] \<and> forged_rotations [r] = [r])"

lemma cross_verified_iff:
  "cross_verified c k payload = Inr True \<longleftrightarrow>
     (\<exists>data sig. canonicalize (signed_fields (dget (u ''old_device_id'') payload) (dget (u ''new_device_id'') payload)
          (dget (u ''new_public_key'') payload)) = Inr data
        \<and> dget (u ''cross_signature'') payload = PStr sig \<and> device_key_verify c k data sig)"
  by (auto simp: cross_verified_def split: pyval.split sum.split)

lemma id_matches_key_iff:
  "id_matches_key c v i = Some True \<longleftrightarrow> (\<exists>k' i'. v = PStr k' \<and> i = PStr i' \<and> derive_device_id c k' = Some i')"
  by (auto simp: id_matches_key_def split: pyval.split)

lemma hands_over_iff:
  "(\<exists>k' i'. hands_over c k i ev k' i') \<longleftrightarrow>
     cross_verified c k (payload_of ev) = Inr True \<and> dget (u ''old_device_id'') (payload_of ev) = PStr i
     \<and> dget (u ''device_id'') ev = PStr i
     \<and> id_matches_key c (dget (u ''new_public_key'') (payload_of ev)) (dget (u ''new_device_id'') (payload_of ev)) = Some True"
  unfolding cross_verified_iff id_matches_key_iff hands_over_def by (rule iffI; elim exE conjE; simp; blast)

lemma live_rotation_valid:
  assumes "check_rotation_live c k i (dget (u ''device_id'') ev) seq (payload_of ev) = Inr r"
  shows "rot_valid r = Some (\<exists>k' i'. hands_over c k i ev k' i') \<and> (rot_valid r = Some True \<longrightarrow> rot_verified r = Some True)"
  unfolding hands_over_iff using check_rotation_live_Inr [OF assms] by auto

lemma live_rotation_raises:
  assumes "check_rotation_live c k i (dget (u ''device_id'') ev) seq (payload_of ev) = Inl e"
  shows "\<not> hands_over c k i ev k' i'"
  using assms
  by (auto simp: check_rotation_live_def Let_def rmap_def rbind_def hands_over_def cross_verified_def split: pyval.splits sum.splits)

lemma hands_over_payload: "hands_over c k i ev k' i' \<Longrightarrow> note_payload seq ev w = w"
  by (auto simp: hands_over_def note_payload_def payload_of_def split: pyval.splits)

lemma walk_rotation_accepts:
  assumes "w_active w = Some (k, i)" "hands_over c k i ev k' i'"
  shows "\<exists>r. w_active (walk_rotation c repr ks seq ev w) = Some (k', i')
    \<and> w_malformed (walk_rotation c repr ks seq ev w) = w_malformed w
    \<and> w_rotations (walk_rotation c repr ks seq ev w) = w_rotations w @ [r] \<and> forged_rotations [r] = []"
proof -
  obtain r where r: "check_rotation_live c k i (dget (u ''device_id'') ev) seq (payload_of ev) = Inr r"
    using live_rotation_raises assms(2) by (cases "check_rotation_live c k i (dget (u ''device_id'') ev) seq (payload_of ev)") blast+
  have valid: "rot_valid r = Some True" "rot_verified r = Some True" using live_rotation_valid [OF r] assms(2) by auto
  have "rot_key r = PStr k'" "rot_new r = PStr i'" using check_rotation_live_Inr(2,3) [OF r] assms(2) by (simp_all add: hands_over_def)
  then show ?thesis using r valid assms(1) hands_over_payload [OF assms(2)]
    by (simp add: walk_rotation_def Let_def advance_def forged_rotations_def)
qed

lemma walk_rotation_refuses:
  assumes "w_active w = Some (k, i)" "\<And>k' i'. \<not> hands_over c k i ev k' i'"
  shows "w_active (walk_rotation c repr ks seq ev w) = Some (k, i) \<and> own_finding w (walk_rotation c repr ks seq ev w)"
proof (cases "check_rotation_live c k i (dget (u ''device_id'') ev) seq (payload_of ev)")
  case (Inl e)
  then show ?thesis using assms(1)
    by (auto simp: walk_rotation_def Let_def own_finding_def skip_def note_payload_def split: pyval.splits)
next
  case (Inr r)
  have v: "rot_valid r = Some False" using live_rotation_valid [OF Inr] assms(2) by simp
  then show ?thesis using Inr assms(1)
    by (auto simp: walk_rotation_def Let_def own_finding_def forged_rotations_def advance_def note_payload_def split: pyval.splits)
qed

lemma walk_entry_rotation:
  assumes "w_active w = Some (k, i)" "entry_shape entry = Inr (seq, ev, p, s)" "is_kind KEY_ROTATED ev"
    and "derive_entry (c_sha c) p seq ev = Inr d"
  shows "walk_entry c repr ks w entry = walk_rotation c repr ks seq ev (after_link repr seq ev p s d w)"
  using assms(1,3)
  by (simp add: walk_entry_derived [OF assms(2,4)] walk_tools_def walk_stale_def is_kind_def Let_def)

text \<open>
  C10: Only the active key rotates. A well-shaped \<open>key_rotated\<close> entry whose hash can be derived makes another key
  active exactly when its event carries the active id, its payload hands over from the active id to the id that derives
  from the new key, and its signature over the two ids and the new key verifies under the active key. A key that was
  retired cannot rotate again, whatever ids it writes into the entry. In every other case the active key stays, and the
  entry adds a finding of its own, a malformed entry or a forged rotation; an accepted one adds none.
\<close>

theorem only_active_key_rotates:
  assumes "w_active w = Some (k, i)" "entry_shape entry = Inr (seq, ev, p, s)" "is_kind KEY_ROTATED ev"
    and "w' = walk_entry c repr ks w entry"
  shows "(\<exists>k' i' d r. hands_over c k i ev k' i' \<and> derive_entry (c_sha c) p seq ev = Inr d \<and> w_active w' = Some (k', i')
        \<and> w_malformed w' = w_malformed w \<and> w_rotations w' = w_rotations w @ [r] \<and> forged_rotations [r] = [])
    \<or> ((\<forall>k' i'. \<not> hands_over c k i ev k' i') \<or> (\<exists>e. derive_entry (c_sha c) p seq ev = Inl e))
        \<and> w_active w' = Some (k, i) \<and> own_finding w w'"
proof (cases "derive_entry (c_sha c) p seq ev")
  case (Inl e)
  then have "w_active w' = Some (k, i) \<and> w_malformed w' = w_malformed w @ [EntrySkipped e]"
    using assms by (simp add: walk_entry_def Let_def skip_def walk_gap_def split: option.split)
  then show ?thesis using Inl by (auto simp: own_finding_def)
next
  case (Inr d)
  note w' = walk_entry_rotation [OF assms(1-3) Inr, of repr ks, folded assms(4)]
  have active: "w_active (after_link repr seq ev p s d w) = Some (k, i)" using assms(1) by simp
  show ?thesis
  proof (cases "\<exists>k' i'. hands_over c k i ev k' i'")
    case True
    then obtain k' i' where "hands_over c k i ev k' i'" by blast
    from this walk_rotation_accepts [OF active this, of repr ks seq] show ?thesis using Inr by (simp add: w')
  next
    case False
    then show ?thesis using walk_rotation_refuses [OF active, of c ev repr ks seq] by (simp add: w' own_finding_def)
  qed
qed

section \<open>Checkpoints of an accepted file\<close>

lemma key_after_spec:
  assumes "sorted_wrt (<) (map fst tl_steps)"
  shows "key_after k tl_steps e = (case rev (filter (\<lambda>(t, _). t < e) tl_steps) of [] \<Rightarrow> k | (_, k') # _ \<Rightarrow> k')"
  using assms
proof (induction tl_steps arbitrary: k)
  case (Cons x tl_steps)
  obtain t k' where x: "x = (t, k')" by (cases x)
  show ?case
  proof (cases "t < e")
    case True
    with Cons x show ?thesis by (auto split: list.splits)
  next
    case False
    then have "filter (\<lambda>(t, _). t < e) tl_steps = []" using Cons.prems x by (fastforce simp: filter_empty_conv)
    with False x show ?thesis by simp
  qed
qed simp

text \<open>
  Which key a checkpoint is checked against: with the rotations at increasing sequence numbers,
  the last one strictly before the checkpoint's \<open>seq_end\<close> decides; a checkpoint that ends on the
  rotation entry itself, or before every rotation, is still checked against the key before it.
\<close>

theorem key_active_at_last_rotation:
  assumes "sorted_wrt (<) (map fst tl_steps)"
  shows "key_active_at ((0, k) # tl_steps) e =
    (case rev (filter (\<lambda>(t, _). t < e) tl_steps) of [] \<Rightarrow> k | (_, k') # _ \<Rightarrow> k')"
  using key_after_spec [OF assms] by (simp add: key_active_at_def)

theorem key_active_at_last_rotation_witness:
  "key_active_at [(0, [65]), (4, [66]), (9, [67])] 9 = [66]"
  using key_active_at_last_rotation [of "[(4, [66]), (9, [67])]" "[65]" 9] by simp

definition checkpoint_holds ::
  "crypto \<Rightarrow> (int \<times> pystr) list \<Rightarrow> lrow list \<Rightarrow> (pykey \<times> pyval) list \<Rightarrow> bool" where
  "checkpoint_holds c timeline rows cp \<longleftrightarrow>
     (\<exists>e sig data r. seq_end_of cp = PInt e \<and> dget (u ''sig'') cp = PStr sig
        \<and> canonicalize (PDict (filter (\<lambda>(k, _). k \<noteq> KStr (u ''sig'')) cp)) = Inr data
        \<and> device_key_verify c (key_active_at timeline e) data sig
        \<and> r \<in> set rows \<and> row_seq r = e \<and> dget (u ''chain_head'') cp = PStr (row_entry_hash r))"

lemma check_checkpoint_ok:
  assumes "fst (check_checkpoint c (Some timeline) derived cp) = []"
    and "set derived \<subseteq> (\<lambda>r. (row_seq r, row_entry_hash r)) ` set rows"
  shows "checkpoint_holds c timeline rows cp"
proof -
  obtain e where e: "seq_end_of cp = PInt e" "signature_remarks c (Some timeline) e cp = []"
      "head_remarks derived e cp = []"
    using assms(1) by (auto simp: check_checkpoint_def Let_def split: pyval.splits if_splits)
  obtain h where h: "map_of derived e = Some h" "dget (u ''chain_head'') cp = PStr h"
    using e(3) by (auto simp: head_remarks_def split: option.splits if_splits)
  then obtain r where "r \<in> set rows" "row_seq r = e" "row_entry_hash r = h"
    using assms(2) by (auto dest!: map_of_SomeD)
  moreover obtain sig data where "dget (u ''sig'') cp = PStr sig"
    "canonicalize (PDict (filter (\<lambda>(k, _). k \<noteq> KStr (u ''sig'')) cp)) = Inr data"
    "device_key_verify c (key_active_at timeline e) data sig"
    using e(2) by (auto simp: signature_remarks_def Let_def split: sum.splits pyval.splits if_splits)
  ultimately show ?thesis using e(1) h(2) unfolding checkpoint_holds_def by blast
qed

lemma length_map_filter: "\<forall>x\<in>set xs. f x \<noteq> None \<Longrightarrow> length (List.map_filter f xs) = length xs"
  by (induction xs) (auto simp: map_filter_simps)

text \<open>
  C9: What \<open>ok\<close> promises about checkpoints when a device key is pinned: there is at least one, every
  row of the checkpoint table was readable, and each checkpoint carries a signature that verifies
  under the key active at its \<open>seq_end\<close> over exactly its other fields, and its \<open>chain_head\<close> is the
  entry hash of the row with that sequence number.
\<close>

theorem ok_checkpoints_hold:
  assumes "vr_ok (verify_ledger_db c repr loads readable (Some k) ks db)"
  shows "\<exists>cps. cps \<noteq> [] \<and> length cps = length (checkpoints db)
    \<and> cps = fst (checkpoint_rows loads (checkpoints_by_end db))
    \<and> (\<forall>cp\<in>set cps. checkpoint_holds c
          (fst (build_key_timeline k (vr_rotations (verify_ledger_db c repr loads readable (Some k) ks db))))
          (rows_by_seq db) cp)"
proof -
  let ?rows = "rows_by_seq db"
  let ?w = "final_walk c repr ks (Some k) (fst (row_entries loads ?rows))"
  have rot: "vr_rotations (verify_ledger_db c repr loads readable (Some k) ks db) = w_rotations ?w"
    by (rule report_fields)
  have clean: "clean_walk ?w" and bad: "snd (row_entries loads ?rows) = []"
    using vr_ok_unbroken [OF assms] by (auto simp: unbroken_def report_fields clean_walk_def)
  have derived: "w_derived ?w = rev (map (\<lambda>r. (row_seq r, row_entry_hash r)) ?rows)"
    using clean_derived [OF bad clean [unfolded final_walk_def]] by (simp add: final_walk_def)
  obtain cps bad_rows rn where cr: "checkpoint_rows loads (checkpoints_by_end db) = (cps, bad_rows, rn)"
    by (metis prod_cases3)
  have rn: "rn = map CheckpointRowUnparsed bad_rows" using cr by (auto simp: checkpoint_rows_def Let_def)
  have ok: "readable" "bad_rows = []" "cps \<noteq> []"
      "fst (verify_checkpoints c cps (w_derived ?w) (Some k) (w_rotations ?w)) = []"
    using assms cr rn
    by (auto simp: verify_ledger_db_def Let_def walk_chain_final split_def split: if_splits)
  have none: "\<forall>r\<in>set (checkpoints_by_end db). parse_checkpoint loads r \<noteq> None"
    using cr ok(2) by (auto simp: checkpoint_rows_def Let_def filter_empty_conv)
  have len: "length cps = length (checkpoints db)"
    using cr length_map_filter [OF none] by (auto simp: checkpoint_rows_def Let_def checkpoints_by_end_def)
  have "checkpoint_holds c (fst (build_key_timeline k (w_rotations ?w))) ?rows cp" if cp: "cp \<in> set cps" for cp
  proof (rule check_checkpoint_ok)
    show "fst (check_checkpoint c (Some (fst (build_key_timeline k (w_rotations ?w)))) (w_derived ?w) cp) = []"
      using ok(3,4) cp by (auto simp: verify_checkpoints_def Let_def split: if_splits)
    show "set (w_derived ?w) \<subseteq> (\<lambda>r. (row_seq r, row_entry_hash r)) ` set ?rows" by (simp add: derived)
  qed
  with ok(3) len cr show ?thesis unfolding rot by (intro exI [of _ cps]) simp
qed

section \<open>Where the verifier does not look\<close>

lemma row_to_event_dict_digest:
  "row_to_event_dict loads (r\<lparr>row_event_digest := x\<rparr>) = row_to_event_dict loads r"
  by (simp add: row_to_event_dict_def row_columns_def)

lemma row_entries_digest:
  "row_entries loads (map (\<lambda>r. r\<lparr>row_event_digest := f r\<rparr>) rows) = row_entries loads rows"
  by (induction rows) (auto simp: row_to_event_dict_digest row_entry_def split: option.splits prod.splits)

text \<open>
  The \<open>event_digest\<close> column is not protected: rewriting it in any way, in any rows, changes
  nothing in the report. The verifier re-derives the digest and never reads the stored one.
\<close>

theorem digest_column_unchecked:
  "verify_ledger_db c repr loads readable key ks
      (db\<lparr>events := map (\<lambda>r. r\<lparr>row_event_digest := f r\<rparr>) (events db)\<rparr>)
    = verify_ledger_db c repr loads readable key ks db"
proof -
  let ?g = "\<lambda>r. r\<lparr>row_event_digest := f r\<rparr>"
  let ?db = "db\<lparr>events := map ?g (events db)\<rparr>"
  have rows: "rows_by_seq ?db = map ?g (rows_by_seq db)"
    using map_sort_key [of ?g row_seq "events db"] by (simp add: rows_by_seq_def)
  have seqs: "entry_seqs loads (map ?g rs) = entry_seqs loads rs" for rs
    unfolding entry_seqs_def by (induction rs) (auto simp: row_to_event_dict_digest)
  have cps: "checkpoints_by_end ?db = checkpoints_by_end db" by (simp add: checkpoints_by_end_def)
  show ?thesis
    unfolding verify_ledger_db_def Let_def rows row_entries_digest seqs cps ..
qed

text \<open>
  A skipped entry is not as if absent. An entry whose \<open>tool_use_id\<close> is a non-empty array raises only
  after it has been linked: it is reported as skipped, and yet its sequence number, its stored hash
  and its derived hash are the ones the next entry and the checkpoints are checked against.
\<close>

theorem skipped_entry_still_links:
  assumes "entry_shape entry = Inr (seq, ev, p, s)" "derive_entry (c_sha c) p seq ev = Inr d"
    and "is_kind TOOL_USE ev" "dget (u ''tool_use_id'') ev = PSeq (x # xs)"
  shows "w_malformed (walk_entry c repr ks w entry) = w_malformed w @ [EntrySkipped Unhashable]
    \<and> w_prev_seq (walk_entry c repr ks w entry) = Some seq \<and> w_prev_hash (walk_entry c repr ks w entry) = s
    \<and> map_of (w_derived (walk_entry c repr ks w entry)) seq = Some d"
proof -
  have "walk_tools repr seq ev (after_link repr seq ev p s d w) = Inl Unhashable"
    using assms(3,4) by (simp add: walk_tools_def Let_def)
  then show ?thesis unfolding walk_entry_derived [OF assms(1,2)] by (simp add: skip_def)
qed

text \<open>
  An entry attributed to no device at all is not reported as stale key usage: with a pinned key
  and an event whose \<open>device_id\<close> is empty, the list of stale entries does not change.
\<close>

theorem empty_device_id_not_stale:
  assumes "w_active w = Some (k, i)" "entry_shape entry = Inr (seq, ev, p, s)"
    and "dget (u ''device_id'') ev = PStr []" "\<not> is_kind KEY_ROTATED ev"
  shows "w_stale (walk_entry c repr ks w entry) = w_stale w"
proof (cases "derive_entry (c_sha c) p seq ev")
  case (Inl e)
  then show ?thesis using assms(2)
    by (simp add: walk_entry_def Let_def skip_def walk_gap_def split: option.splits)
next
  case (Inr d)
  have st: "w_stale (after_link repr seq ev p s d w) = w_stale w"
    by (simp add: after_link_def walk_names_def walk_link_def walk_gap_def count_entry_def Let_def
        split: option.splits)
  have "walk_stale repr seq ev w3 = Inr w3" if "w_active w3 = Some (k, i)" for w3
    using that assms(3) by (simp add: walk_stale_def Let_def)
  then show ?thesis
    unfolding walk_entry_derived [OF assms(2) Inr] using assms(1,4) st
    by (auto simp: skip_def split: sum.splits dest!: walk_tools_frame)
qed

section \<open>The properties at concrete files\<close>

text \<open>A key scheme with the right shape: a signature is the key followed by the data.\<close>

definition toy :: crypto where
  "toy = \<lparr>c_sha = id, c_b64decode = (\<lambda>s. Some (map of_nat s)), c_b64encode = map unat,
          c_ed25519_verify = (\<lambda>pub data sig. sig = pub @ data), c_ed25519_sign = (\<lambda>priv data. priv @ data)\<rparr>"

definition toy_id :: "pystr \<Rightarrow> pystr" where
  "toy_id k = the (derive_device_id toy k)"

lemma toy_simps: "c_sha toy = id" "derive_device_id toy k = Some (toy_id k)"
  by (simp_all add: toy_def toy_id_def derive_device_id_def)

definition no_repr :: "pyval \<Rightarrow> pystr" where
  "no_repr v = []"

lemma one_row_file:
  obtains w where "ledger_reach id w" "length (events (w_db w)) = 1"
    "reads_payloads (\<lambda>_. Some (PDict [])) (events (w_db w))" "rotation_payloads (\<lambda>_. Some (PDict [])) (events (w_db w))"
    "row_seq (hd (events (w_db w))) = 1" "events (w_db w) \<noteq> []"
proof -
  obtain w where w: "ledger_reach id w" "length (events (w_db w)) = 1" "map row_seq (events (w_db w)) = [1]"
      "map row_payload (events (w_db w)) = [u ''{}'']"
    by (rule first_world)
  obtain r where r: "events (w_db w) = [r]" using w(2) by (auto simp: length_Suc_conv)
  show thesis
    by (rule that [OF w(1,2)])
      (use w(3,4) r in \<open>simp_all add: reads_payloads_def rotation_payloads_def canonical_dumps_def u_def\<close>)
qed

theorem written_ledger_verifies_witness:
  "\<exists>w::world. length (events (w_db w)) = 1
     \<and> unbroken (verify_ledger_db toy no_repr (\<lambda>_. Some (PDict [])) True (Some [65]) Map.empty (w_db w))"
proof -
  obtain w where w: "ledger_reach id w" "length (events (w_db w)) = 1"
    "reads_payloads (\<lambda>_. Some (PDict [])) (events (w_db w))" "rotation_payloads (\<lambda>_. Some (PDict [])) (events (w_db w))"
    by (rule one_row_file)
  from written_ledger_verifies [of toy w "\<lambda>_. Some (PDict [])" no_repr True "Some [65]" Map.empty] w show ?thesis
    by (auto simp: toy_simps)
qed

theorem verified_head_pins_events_witness:
  "\<exists>(db::ledger_db) (db'::ledger_db). length (checkpoints db') = Suc (length (checkpoints db)) \<and>
     (map (event_bytes (\<lambda>_. Some (PDict []))) (rows_by_seq db) = map (event_bytes (\<lambda>_. Some (PDict []))) (rows_by_seq db')
      \<or> collision_on id (event_bytes (\<lambda>_. Some (PDict [])) ` (set (rows_by_seq db) \<union> set (rows_by_seq db')))
      \<or> collision_on id (link_bytes `
        (link_inputs GENESIS_PREV_HASH 1 (derived_links id (\<lambda>_. Some (PDict [])) (rows_by_seq db))
          \<union> link_inputs GENESIS_PREV_HASH 1 (derived_links id (\<lambda>_. Some (PDict [])) (rows_by_seq db')))))"
proof -
  let ?loads = "\<lambda>_::pystr. Some (PDict [])"
  obtain w where w: "ledger_reach id w" "length (events (w_db w)) = 1"
      "reads_payloads ?loads (events (w_db w))" "rotation_payloads ?loads (events (w_db w))"
      "row_seq (hd (events (w_db w))) = 1" "events (w_db w) \<noteq> []"
    by (rule one_row_file)
  let ?db = "w_db w"
  have ok: "db_ok id ?db" using ledger_reach_ok [OF w(1)] by (simp add: world_ok_def)
  then have ok': "db_ok id (w_db w\<lparr>checkpoints := cps\<rparr>)" for cps by (simp add: db_ok_def)
  note rows = resume_db_ok(1) [OF ok] resume_db_ok(1) [OF ok']
  have un: "unbroken (verify_ledger_db toy no_repr ?loads True None Map.empty ?db)"
    using written_verifies_aux [of toy ?db ?loads] ok w(3,4) by (simp add: toy_simps)
  have un': "unbroken (verify_ledger_db toy no_repr ?loads True None Map.empty (w_db w\<lparr>checkpoints := cps\<rparr>))" for cps
    using written_verifies_aux [of toy "w_db w\<lparr>checkpoints := cps\<rparr>" ?loads] ok' w(3,4) by (simp add: toy_simps)
  define cps where "cps = undefined # checkpoints (w_db w)"
  show ?thesis
    using verified_head_pins_events [OF un un' [of cps]] rows w(5,6)
    by (intro exI [of _ ?db] exI [of _ "w_db w\<lparr>checkpoints := cps\<rparr>"]) (simp add: toy_simps cps_def)
qed

theorem active_key_is_handed_over_witness:
  "\<exists>a. w_active (final_walk toy no_repr Map.empty (Some [65]) [PNone]) = Some a \<and> key_path toy ([65], toy_id [65]) a"
  by (rule active_key_is_handed_over) (simp add: toy_simps)

text \<open>Under the labels of the active key, and signed with another one.\<close>

definition retired_payload :: "(pykey \<times> pyval) list" where
  "retired_payload =
     [(KStr (u ''old_device_id''), PStr (u ''new'')), (KStr (u ''new_device_id''), PStr (toy_id [67])),
      (KStr (u ''new_public_key''), PStr [67]), (KStr (u ''cross_signature''), PStr (SIG_PREFIX @ [66]))]"

definition retired_event :: "(pykey \<times> pyval) list" where
  "retired_event =
     [(KStr (u ''kind''), PStr (u ''key_rotated'')), (KStr (u ''device_id''), PStr (u ''new'')),
      (KStr (u ''payload''), PDict retired_payload)]"

definition retired_entry :: pyval where
  "retired_entry =
     PDict [(KStr (u ''seq''), PInt 7), (KStr (u ''prev_hash''), PStr [97]), (KStr (u ''entry_hash''), PStr [98]),
       (KStr (u ''event''), PDict retired_event)]"

lemma retired_refused: "\<not> hands_over toy [65] (u ''new'') retired_event k' i'"
proof -
  have "dget (u ''cross_signature'') (payload_of retired_event) = PStr (SIG_PREFIX @ [66])"
    by (simp add: payload_of_def retired_event_def retired_payload_def)
  moreover have "\<not> device_key_verify toy [65] data (SIG_PREFIX @ [66])" for data
    by (simp add: device_key_verify_def toy_def)
  ultimately show ?thesis by (simp add: hands_over_def)
qed

theorem only_active_key_rotates_witness:
  "dget (u ''device_id'') retired_event = PStr (u ''new'')
    \<and> w_active (walk_entry toy no_repr Map.empty ((start_walk toy None)\<lparr>w_active := Some ([65], u ''new'')\<rparr>) retired_entry)
        = Some ([65], u ''new'')"
  using only_active_key_rotates [of "(start_walk toy None)\<lparr>w_active := Some ([65], u ''new'')\<rparr>" "[65]" "u ''new''"
      retired_entry 7 retired_event "[97]" "[98]" _ toy no_repr Map.empty, OF _ _ _ refl] retired_refused
  by (simp add: retired_entry_def entry_shape_def is_kind_def) (simp add: retired_event_def)

lemma derive_entry_succeeds:
  assumes "jsonable (PDict ev)" "clean p"
  shows "\<exists>d. derive_entry sha p seq ev = Inr d"
proof -
  obtain b where "canonicalize (PDict ev) = Inr b" using jsonable_canonicalize [OF assms(1)] by blast
  moreover have "\<exists>h. compute_entry_hash sha p seq (sha256_hex sha b) = Inr h"
    by (rule compute_entry_hash_succeeds) (use assms(2) in simp_all)
  ultimately show ?thesis by (auto simp: derive_entry_def)
qed

definition array_id_event :: "(pykey \<times> pyval) list" where
  "array_id_event = [(KStr (u ''kind''), PStr (u ''tool_use'')), (KStr (u ''tool_use_id''), PSeq [PNone])]"

definition array_id_entry :: pyval where
  "array_id_entry = PDict [(KStr (u ''seq''), PInt 1), (KStr (u ''prev_hash''), PStr GENESIS_PREV_HASH),
     (KStr (u ''entry_hash''), PStr [98]), (KStr (u ''event''), PDict array_id_event)]"

theorem skipped_entry_still_links_witness:
  "\<exists>d. w_malformed (walk_entry toy no_repr Map.empty (start_walk toy None) array_id_entry) = [EntrySkipped Unhashable]
     \<and> w_prev_seq (walk_entry toy no_repr Map.empty (start_walk toy None) array_id_entry) = Some 1
     \<and> map_of (w_derived (walk_entry toy no_repr Map.empty (start_walk toy None) array_id_entry)) 1 = Some d"
proof -
  have "jsonable (PDict array_id_event)" by (simp add: array_id_event_def clean_def surrogate_def u_def)
  then obtain d where d: "derive_entry (c_sha toy) GENESIS_PREV_HASH 1 array_id_event = Inr d"
    using derive_entry_succeeds genesis_ok(2) by blast
  have shape: "entry_shape array_id_entry = Inr (1, array_id_event, GENESIS_PREV_HASH, [98])"
    by (simp add: entry_shape_def array_id_entry_def)
  have "is_kind TOOL_USE array_id_event" "dget (u ''tool_use_id'') array_id_event = PSeq [PNone]"
    by (simp_all add: is_kind_def array_id_event_def)
  from skipped_entry_still_links [OF shape d this, of no_repr Map.empty "start_walk toy None"] show ?thesis by auto
qed

definition no_device_entry :: pyval where
  "no_device_entry = PDict [(KStr (u ''seq''), PInt 1), (KStr (u ''prev_hash''), PStr GENESIS_PREV_HASH),
     (KStr (u ''entry_hash''), PStr [98]),
     (KStr (u ''event''), PDict [(KStr (u ''kind''), PStr (u ''message'')), (KStr (u ''device_id''), PStr [])])]"

theorem empty_device_id_not_stale_witness:
  "w_stale (walk_entry toy no_repr Map.empty ((start_walk toy None)\<lparr>w_active := Some ([65], u ''new'')\<rparr>) no_device_entry) = []"
  using empty_device_id_not_stale [of "(start_walk toy None)\<lparr>w_active := Some ([65], u ''new'')\<rparr>" "[65]" "u ''new''"
      no_device_entry 1 "[(KStr (u ''kind''), PStr (u ''message'')), (KStr (u ''device_id''), PStr [])]"
      GENESIS_PREV_HASH "[98]" toy no_repr Map.empty]
  by (simp add: no_device_entry_def entry_shape_def is_kind_def start_walk_def)

lemma b32_A: "b32encode [65] = [73, 69]"
  by code_simp

lemma toy_id_A: "toy_id [65] = u ''dev_IE''"
  using b32_A by (simp add: toy_id_def derive_device_id_def toy_def DEVICE_ID_LEN_def u_def)

definition dev_event :: agent_event where
  "dev_event = sample_event\<lparr>ev_device_id := u ''dev_IE''\<rparr>"

lemma dev_event_jsonable: "jsonable (to_dict dev_event)"
  by (simp add: to_dict_def dict_of_def dev_event_def sample_event_def event_items_def field_values_def
      opt_str_def clean_def u_def EVENT_SCHEMA_VERSION_V1_def surrogate_def)

lemma dev_file:
  obtains db r where "db_ok id db" "events db = [r]" "row_seq r = 1" "row_device_id r = u ''dev_IE''"
    "row_tool_use_id r = None" "row_kind r = u ''message''" "row_payload r = u ''{}''"
proof -
  obtain entry l' db' where a: "append_locked id (IoOk, IoOk) dev_event fresh (w_db empty_world) = (Inr entry, l', db')"
    using append_locked_succeeds [OF empty_world_ok dev_event_jsonable _ refl, of id]
    by (auto simp: empty_world_def)
  note inr = append_locked_Inr [OF empty_world_ok a]
  obtain row where row: "events db' = [row]"
      "row = row_of (le_event entry) (row_payload row) (le_event_digest entry) (le_prev_hash entry) (le_entry_hash entry)"
      "le_event entry = with_seq dev_event (le_seq entry)" "le_seq entry = 1"
      "canonical_dumps (ev_payload dev_event) = Inr (row_payload row)"
    using inr(1) by (auto simp: commits_def empty_world_def)
  note cols = arg_cong [OF row(2), of row_seq] arg_cong [OF row(2), of row_device_id]
    arg_cong [OF row(2), of row_tool_use_id] arg_cong [OF row(2), of row_kind]
  show thesis
    by (rule that [OF inr(2) row(1)])
      (insert cols row(3,4,5), simp_all add: row_of_def with_seq_def dev_event_def sample_event_def
        canonical_dumps_def u_def split: if_splits)
qed

lemma one_row_walk:
  assumes "row_to_event_dict loads r = Some ev" "derive_entry (c_sha c) (row_prev_hash r) (row_seq r) ev = Inr d"
    and "row_tool_use_id r = None" "row_kind r \<noteq> kind_value KEY_ROTATED" "w_active w = Some (k, row_device_id r)"
  shows "walk_entry c repr ks w (row_entry r ev) = after_link repr (row_seq r) ev (row_prev_hash r) (row_entry_hash r) d w"
proof -
  note f = row_event_fields [OF assms(1)]
  have "walk_tools repr (row_seq r) ev x = Inr x" for x using f(3) assms(3) by (simp add: walk_tools_def opt_str_def)
  moreover have "walk_stale repr (row_seq r) ev x = Inr x" if "w_active x = Some (k, row_device_id r)" for x
    using f(2) that by (simp add: walk_stale_def Let_def)
  moreover have "\<not> is_kind KEY_ROTATED ev" using f(1) assms(4) by (simp add: is_kind_def)
  ultimately show ?thesis unfolding walk_entry_derived [OF row_entry_shape assms(2)] using assms(5) by simp
qed


definition cp_fields :: "pystr \<Rightarrow> (pykey \<times> pyval) list" where
  "cp_fields hd_hash = [(KStr (u ''seq_end''), PInt 1), (KStr (u ''chain_head''), PStr hd_hash)]"

definition signed_cp :: "pystr \<Rightarrow> bytes \<Rightarrow> (pykey \<times> pyval) list" where
  "signed_cp hd_hash data = cp_fields hd_hash @ [(KStr (u ''sig''), PStr (SIG_PREFIX @ map unat (65 # data)))]"

definition stored_cp :: cp_row where
  "stored_cp = \<lparr>cp_seq_end = 1, cp_device_id = [], cp_seq_start = 1, cp_chain_head = [], cp_ts_device = [],
     cp_sig = [], cp_body = [1]\<rparr>"

lemma map_of_nat_unat: "map of_nat (map unat bs) = (bs :: bytes)"
  by (induction bs) simp_all

lemma signed_cp_verifies:
  assumes "canonicalize (PDict (cp_fields h)) = Inr data"
  shows "check_checkpoint toy (Some [(0, [65])]) [(1, h)] (signed_cp h data) = ([], [])"
proof -
  have "filter (\<lambda>(k, _). k \<noteq> KStr (u ''sig'')) (signed_cp h data) = cp_fields h"
    by (simp add: signed_cp_def cp_fields_def)
  moreover have "device_key_verify toy [65] data (SIG_PREFIX @ map unat (65 # data))"
    by (simp add: device_key_verify_def toy_def map_of_nat_unat [simplified])
  ultimately have "signature_remarks toy (Some [(0, [65])]) 1 (signed_cp h data) = []"
    using assms by (simp add: signature_remarks_def signed_cp_def cp_fields_def key_active_at_def)
  moreover have "head_remarks [(1, h)] 1 (signed_cp h data) = []"
    by (simp add: head_remarks_def signed_cp_def cp_fields_def)
  moreover have "seq_end_of (signed_cp h data) = PInt 1" by (simp add: seq_end_of_def signed_cp_def cp_fields_def)
  ultimately show ?thesis by (simp add: check_checkpoint_def)
qed

lemma pinned_file_ok:
  obtains db loads where "vr_ok (verify_ledger_db toy no_repr loads True (Some [65]) Map.empty db)"
    "length (checkpoints db) = 1"
proof -
  obtain db r where db: "db_ok id db" "events db = [r]" "row_seq r = 1" "row_device_id r = u ''dev_IE''"
      "row_tool_use_id r = None" "row_kind r = u ''message''" "row_payload r = u ''{}''"
    by (rule dev_file)
  have "clean (head_after (events db))" using head_after_clean [of id "events db"] db(1) by (simp add: db_ok_def)
  then have "clean (row_entry_hash r)" using db(2) by (simp add: head_after_def)
  then have "jsonable (PDict (cp_fields (row_entry_hash r)))"
    by (simp add: cp_fields_def u_def clean_def surrogate_def)
  then obtain data where data: "canonicalize (PDict (cp_fields (row_entry_hash r))) = Inr data"
    using jsonable_canonicalize by blast
  define loads where "loads = (\<lambda>t::pystr. if t = [1] then Some (PDict (signed_cp (row_entry_hash r) data)) else Some (PDict []))"
  define db2 where "db2 = db\<lparr>checkpoints := [stored_cp]\<rparr>"
  have payload: "loads (row_payload r) = Some (PDict [])" by (simp add: loads_def db(7) u_def)
  have reads: "reads_payloads loads (events db2)"
    using payload db(2,7) by (simp add: reads_payloads_def db2_def canonical_dumps_def u_def)
  obtain ev where ev: "row_to_event_dict loads r = Some ev" using payload by (simp add: row_to_event_dict_def)
  have ok: "db_ok id db2" using db(1) by (simp add: db_ok_def db2_def)
  have rows: "rows_by_seq db2 = [r]" using resume_db_ok(1) [OF ok] db(2) by (simp add: db2_def)
  have rok: "rows_ok id GENESIS_PREV_HASH 1 [r]" using db(1,2) by (simp add: db_ok_def)
  have d: "derive_entry (c_sha toy) (row_prev_hash r) (row_seq r) ev = Inr (row_entry_hash r)"
    using rok reads row_derive [of id r _ _ _ loads ev] ev db(2) by (simp add: toy_simps db2_def)
  have active: "w_active (start_walk toy (Some [65])) = Some ([65], row_device_id r)"
    by (simp add: start_walk_def toy_simps toy_id_A db(4))
  define W where "W = after_link no_repr 1 ev GENESIS_PREV_HASH (row_entry_hash r) (row_entry_hash r) (start_walk toy (Some [65]))"
  have walk: "final_walk toy no_repr Map.empty (Some [65]) (fst (row_entries loads (rows_by_seq db2)))
      = W"
    using one_row_walk [OF ev d db(5) _ active] db(3,6) rok ev by (simp add: final_walk_def rows u_def W_def)
  have rot: "rotation_payloads loads (events db2)" using db(2,6) by (simp add: rotation_payloads_def db2_def)
  have un: "unbroken (verify_ledger_db toy no_repr loads True (Some [65]) Map.empty db2)"
    using written_verifies_aux [of toy db2 loads] ok reads rot by (simp add: toy_simps)
  have cps: "checkpoint_rows loads (checkpoints_by_end db2) = ([signed_cp (row_entry_hash r) data], [], [])"
    by (simp add: checkpoint_rows_def checkpoints_by_end_def db2_def parse_checkpoint_def stored_cp_def loads_def
        map_filter_simps)
  have w: "w_derived W = [(1, row_entry_hash r)]" "w_rotations W = []" "w_stale W = []" "w_tool_results W = []"
    by (simp_all add: W_def after_link_def walk_names_def walk_link_def walk_gap_def count_entry_def start_walk_def Let_def)
  have "verify_checkpoints toy [signed_cp (row_entry_hash r) data] (w_derived W) (Some [65]) (w_rotations W)
      = ([], 1, [])"
    using signed_cp_verifies [OF data] by (simp add: verify_checkpoints_def w build_key_timeline_def)
  then have "vr_ok (verify_ledger_db toy no_repr loads True (Some [65]) Map.empty db2)"
    using un w walk cps
    by (simp add: verify_ledger_db_def Let_def walk_chain_final split_def unbroken_def orphan_tool_results_def
        forged_rotations_def)
  then show thesis using that by (simp add: db2_def)
qed

theorem ok_checkpoints_hold_witness:
  "\<exists>(db :: ledger_db) loads cps. cps \<noteq> [] \<and> length cps = length (checkpoints db)
    \<and> cps = fst (checkpoint_rows loads (checkpoints_by_end db))
    \<and> (\<forall>cp\<in>set cps. checkpoint_holds toy
          (fst (build_key_timeline [65] (vr_rotations (verify_ledger_db toy no_repr loads True (Some [65]) Map.empty db))))
          (rows_by_seq db) cp)"
proof -
  obtain db :: ledger_db and loads where "vr_ok (verify_ledger_db toy no_repr loads True (Some [65]) Map.empty db)"
    by (rule pinned_file_ok)
  from ok_checkpoints_hold [OF this] show ?thesis by blast
qed

end
