(* ===== verification/Checkpoint.thy ===== *)
theory Checkpoint
  imports Keys Ledger_Props
begin

text \<open>
  \<open>recorder/checkpoint.py\<close>: signed checkpoints every \<open>every_events\<close> events or \<open>every_seconds\<close> seconds,
  whichever comes first. The monotonic clock readings a call makes, the wall-clock text and the
  SQLite fault of storing the checkpoint are inputs; the private key is a parameter of signing.
\<close>

section \<open>Signing and verifying\<close>

definition checkpoint_signing_bytes :: "(pykey \<times> pyval) list \<Rightarrow> canon_error + bytes" where
  "checkpoint_signing_bytes cp = canonicalize (PDict (filter (\<lambda>(k, _). k \<noteq> KStr (u ''sig'')) cp))"

definition verify_checkpoint :: "crypto \<Rightarrow> (pykey \<times> pyval) list \<Rightarrow> pystr \<Rightarrow> canon_error + bool" where
  "verify_checkpoint c cp public_key =
     (case dget (u ''sig'') cp of
        PStr sig \<Rightarrow> rmap (\<lambda>data. device_key_verify c public_key data sig) (checkpoint_signing_bytes cp)
      | _ \<Rightarrow> Inr False)"

section \<open>The checkpointer\<close>

record device_key =
  dk_private :: bytes
  dk_public :: pystr
  dk_device_id :: pystr

record checkpointer =
  every_events :: int
  every_seconds :: pyfloat
  pending_start :: "int option"
  pending_end :: "int option"
  pending_count :: int
  window_started_at :: pyfloat
  last_emitted_end :: "int option"

datatype checkpointer_error =
    BadEveryEvents | BadEverySeconds | NothingPending | NotSignable canon_error | NotStored ledger_error

definition DEFAULT_EVERY_EVENTS :: int where
  "DEFAULT_EVERY_EVENTS = 256"

definition DEFAULT_EVERY_SECONDS :: pyfloat where
  "DEFAULT_EVERY_SECONDS = 60"

definition new_checkpointer :: "int \<Rightarrow> pyfloat \<Rightarrow> pyfloat \<Rightarrow> checkpointer_error + checkpointer" where
  "new_checkpointer events_n seconds now =
     (if events_n < 1 then Inl BadEveryEvents
      else if seconds \<le> 0 then Inl BadEverySeconds
      else Inr \<lparr>every_events = events_n, every_seconds = seconds, pending_start = None,
                pending_end = None, pending_count = 0, window_started_at = now,
                last_emitted_end = None\<rparr>)"

text \<open>What one call reads from outside: three clock readings, the time text, the store's fault.\<close>

record cp_env =
  ce_start :: pyfloat
  ce_now :: pyfloat
  ce_reset :: pyfloat
  ce_ts :: pystr
  ce_io :: io_fault

definition unsigned_checkpoint :: "device_key \<Rightarrow> pystr \<Rightarrow> pystr \<Rightarrow> int \<Rightarrow> int \<Rightarrow> checkpoint" where
  "unsigned_checkpoint key chain_head_now ts s e =
     \<lparr>k_device_id = dk_device_id key, k_seq_start = s, k_seq_end = e, k_chain_head = chain_head_now,
      k_ts_device = ts, k_sig = []\<rparr>"

text \<open>
  \<open>_emit\<close>: assert that a window is open, build, sign, store, and only then forget the window. The stored dictionary has \<open>sig\<close> as its
  last key; the bytes that are signed leave it out.
\<close>

definition emit ::
  "crypto \<Rightarrow> device_key \<Rightarrow> cp_env \<Rightarrow> ledger \<Rightarrow> ledger_db \<Rightarrow> checkpointer
     \<Rightarrow> checkpointer_error + (checkpoint \<times> checkpointer \<times> ledger_db)" where
  "emit c key env l db cp =
     (case (pending_start cp, pending_end cp) of
        (Some s, Some e) \<Rightarrow>
          (let unsigned = unsigned_checkpoint key (head l) (ce_ts env) s e in
           case checkpoint_signing_bytes (map (\<lambda>(k, v). (KStr k, v)) (checkpoint_dict unsigned)) of
             Inl err \<Rightarrow> Inl (NotSignable err)
           | Inr data \<Rightarrow>
               (let signed = unsigned\<lparr>k_sig := device_key_sign c (dk_private key) data\<rparr> in
                case append_checkpoint (ce_io env) signed l db of
                  Inl err \<Rightarrow> Inl (NotStored err)
                | Inr db' \<Rightarrow>
                    Inr (signed,
                         cp\<lparr>last_emitted_end := Some e, pending_start := None, pending_end := None,
                            pending_count := 0, window_started_at := ce_reset env\<rparr>, db')))
      | _ \<Rightarrow> Inl NothingPending)"

type_synonym emit_result = "(checkpointer_error + checkpoint option) \<times> checkpointer \<times> ledger_db"

definition emit_or_keep ::
  "crypto \<Rightarrow> device_key \<Rightarrow> cp_env \<Rightarrow> ledger \<Rightarrow> ledger_db \<Rightarrow> checkpointer \<Rightarrow> emit_result" where
  "emit_or_keep c key env l db cp =
     (case emit c key env l db cp of
        Inl err \<Rightarrow> (Inl err, cp, db)
      | Inr (k, cp', db') \<Rightarrow> (Inr (Some k), cp', db'))"

definition note_seq ::
  "crypto \<Rightarrow> device_key \<Rightarrow> cp_env \<Rightarrow> ledger \<Rightarrow> ledger_db \<Rightarrow> int \<Rightarrow> checkpointer \<Rightarrow> emit_result" where
  "note_seq c key env l db seq cp =
     (let cp1 = (if pending_start cp = None
                 then cp\<lparr>pending_start := Some seq, window_started_at := ce_start env\<rparr> else cp);
          cp2 = cp1\<lparr>pending_end := Some seq, pending_count := pending_count cp1 + 1\<rparr>
      in if pending_count cp2 \<ge> every_events cp2 then emit_or_keep c key env l db cp2
         else if ce_now env - window_started_at cp2 \<ge> every_seconds cp2 then emit_or_keep c key env l db cp2
         else (Inr None, cp2, db))"

definition tick ::
  "crypto \<Rightarrow> device_key \<Rightarrow> cp_env \<Rightarrow> ledger \<Rightarrow> ledger_db \<Rightarrow> checkpointer \<Rightarrow> emit_result" where
  "tick c key env l db cp =
     (if pending_count cp = 0 then (Inr None, cp, db)
      else if ce_now env - window_started_at cp \<ge> every_seconds cp then emit_or_keep c key env l db cp
      else (Inr None, cp, db))"

definition flush ::
  "crypto \<Rightarrow> device_key \<Rightarrow> cp_env \<Rightarrow> ledger \<Rightarrow> ledger_db \<Rightarrow> checkpointer \<Rightarrow> emit_result" where
  "flush c key env l db cp =
     (if pending_count cp = 0 then (Inr None, cp, db) else emit_or_keep c key env l db cp)"

end
