(* ===== verification/Checkpoint_Props.thy ===== *)
theory Checkpoint_Props
  imports Checkpoint Verify_Props
begin

text \<open>
  The windows a checkpointer emits partition what it was told about, and what an emitted checkpoint
  is worth to the verifier.
\<close>

section \<open>One call\<close>

lemma emit_cases:
  assumes "emit c key env l db cp = Inr (k, cp', db')"
  obtains s e data where "pending_start cp = Some s" "pending_end cp = Some e"
    "checkpoint_signing_bytes (map (\<lambda>(k, v). (KStr k, v))
       (checkpoint_dict (unsigned_checkpoint key (head l) (ce_ts env) s e))) = Inr data"
    "k = (unsigned_checkpoint key (head l) (ce_ts env) s e)\<lparr>k_sig := device_key_sign c (dk_private key) data\<rparr>"
    "append_checkpoint (ce_io env) k l db = Inr db'"
    "cp' = cp\<lparr>last_emitted_end := Some e, pending_start := None, pending_end := None,
       pending_count := 0, window_started_at := ce_reset env\<rparr>"
  using assms by (auto simp: emit_def Let_def split: option.splits sum.splits)

text \<open>Every operation either keeps the window (possibly extended) or emits exactly it.\<close>

definition window :: "checkpointer \<Rightarrow> (int \<times> int) option" where
  "window cp = (case (pending_start cp, pending_end cp) of (Some s, Some e) \<Rightarrow> Some (s, e) | _ \<Rightarrow> None)"

definition cp_ok :: "checkpointer \<Rightarrow> bool" where
  "cp_ok cp \<longleftrightarrow> 0 \<le> pending_count cp \<and> 1 \<le> every_events cp
     \<and> (pending_count cp = 0 \<longleftrightarrow> pending_start cp = None) \<and> (pending_start cp = None \<longleftrightarrow> pending_end cp = None)"

definition emitted_or_kept :: "checkpointer \<Rightarrow> emit_result \<Rightarrow> bool" where
  "emitted_or_kept cp res \<longleftrightarrow>
     (case res of (r, cp', _) \<Rightarrow>
        (case r of
           Inr (Some k) \<Rightarrow> window cp = Some (k_seq_start k, k_seq_end k) \<and> window cp' = None
             \<and> pending_count cp' = 0 \<and> last_emitted_end cp' = Some (k_seq_end k)
         | _ \<Rightarrow> window cp' = window cp \<and> last_emitted_end cp' = last_emitted_end cp)
        \<and> (cp_ok cp \<longrightarrow> cp_ok cp'))"

lemma emit_or_keep_spec: "emitted_or_kept cp (emit_or_keep c key env l db cp)"
proof (cases "emit c key env l db cp")
  case (Inl err)
  then show ?thesis by (simp add: emit_or_keep_def emitted_or_kept_def)
next
  case (Inr x)
  obtain k cp' db' where x: "x = (k, cp', db')" by (cases x)
  from emit_cases [OF Inr [unfolded x]] obtain s e data where
    "pending_start cp = Some s" "pending_end cp = Some e"
    "k = (unsigned_checkpoint key (head l) (ce_ts env) s e)\<lparr>k_sig := device_key_sign c (dk_private key) data\<rparr>"
    "cp' = cp\<lparr>last_emitted_end := Some e, pending_start := None, pending_end := None,
       pending_count := 0, window_started_at := ce_reset env\<rparr>" by metis
  then show ?thesis using Inr x
    by (auto simp: emit_or_keep_def emitted_or_kept_def window_def cp_ok_def unsigned_checkpoint_def)
qed

lemma tick_spec: "emitted_or_kept cp (tick c key env l db cp)"
  using emit_or_keep_spec by (simp add: tick_def) (simp add: emitted_or_kept_def)

lemma flush_spec: "emitted_or_kept cp (flush c key env l db cp)"
  using emit_or_keep_spec by (simp add: flush_def) (simp add: emitted_or_kept_def)

definition noted :: "pyfloat \<Rightarrow> int \<Rightarrow> checkpointer \<Rightarrow> checkpointer" where
  "noted t seq cp =
     (let cp1 = (if pending_start cp = None
                 then cp\<lparr>pending_start := Some seq, window_started_at := t\<rparr> else cp)
      in cp1\<lparr>pending_end := Some seq, pending_count := pending_count cp1 + 1\<rparr>)"

lemma note_seq_spec: "emitted_or_kept (noted (ce_start env) seq cp) (note_seq c key env l db seq cp)"
  using emit_or_keep_spec [of "noted (ce_start env) seq cp" c key env l db]
  unfolding note_seq_def noted_def Let_def by (auto simp: emitted_or_kept_def)

lemma noted_window:
  "cp_ok cp \<Longrightarrow> window (noted t seq cp) = Some (case window cp of None \<Rightarrow> seq | Some (s, _) \<Rightarrow> s, seq)
     \<and> cp_ok (noted t seq cp) \<and> last_emitted_end (noted t seq cp) = last_emitted_end cp"
  by (auto simp: noted_def window_def cp_ok_def Let_def split: option.splits)

section \<open>Runs\<close>

text \<open>A checkpointer in use: the sequence numbers it was told, in order, and the windows it has emitted.\<close>

record cp_run =
  run_cp :: checkpointer
  run_noted :: "int list"
  run_emitted :: "(int \<times> int) list"

definition run_after :: "cp_run \<Rightarrow> int list \<Rightarrow> emit_result \<Rightarrow> cp_run" where
  "run_after st ns res = \<lparr>run_cp = fst (snd res), run_noted = run_noted st @ ns,
     run_emitted = run_emitted st @ (case fst res of Inr (Some k) \<Rightarrow> [(k_seq_start k, k_seq_end k)] | _ \<Rightarrow> [])\<rparr>"

inductive checkpointing :: "crypto \<Rightarrow> device_key \<Rightarrow> cp_run \<Rightarrow> bool" for c key where
  run_new: "new_checkpointer n secs now = Inr cp \<Longrightarrow>
     checkpointing c key \<lparr>run_cp = cp, run_noted = [], run_emitted = []\<rparr>"
| run_note: "checkpointing c key st \<Longrightarrow> (\<forall>m\<in>set (run_noted st). m < seq) \<Longrightarrow>
     checkpointing c key (run_after st [seq] (note_seq c key env l db seq (run_cp st)))"
| run_tick: "checkpointing c key st \<Longrightarrow> checkpointing c key (run_after st [] (tick c key env l db (run_cp st)))"
| run_flush: "checkpointing c key st \<Longrightarrow> checkpointing c key (run_after st [] (flush c key env l db (run_cp st)))"

definition windows_of :: "cp_run \<Rightarrow> (int \<times> int) list" where
  "windows_of st = run_emitted st @ (case window (run_cp st) of None \<Rightarrow> [] | Some w \<Rightarrow> [w])"

definition partitions :: "(int \<times> int) list \<Rightarrow> int list \<Rightarrow> bool" where
  "partitions ws ns \<longleftrightarrow>
     sorted_wrt (\<lambda>a b. snd a < fst b) ws \<and> (\<forall>w\<in>set ws. fst w \<le> snd w \<and> fst w \<in> set ns \<and> snd w \<in> set ns)
     \<and> (\<forall>n\<in>set ns. \<exists>w\<in>set ws. fst w \<le> n \<and> n \<le> snd w)"

lemma partitions_new_window:
  assumes "partitions ws ns" "\<forall>m\<in>set ns. m < seq"
  shows "partitions (ws @ [(seq, seq)]) (ns @ [seq])"
  using assms by (auto simp: partitions_def sorted_wrt_append)

lemma partitions_extend:
  assumes "partitions (ws @ [(s, e)]) ns" "\<forall>m\<in>set ns. m < seq"
  shows "partitions (ws @ [(s, seq)]) (ns @ [seq])"
proof -
  have p: "sorted_wrt (\<lambda>a b. snd a < fst b) ws" "\<forall>w\<in>set ws. snd w < s"
      "\<forall>w\<in>set ws. fst w \<le> snd w \<and> fst w \<in> set ns \<and> snd w \<in> set ns" "s \<in> set ns"
    and cover: "\<forall>n\<in>set ns. (\<exists>w\<in>set ws. fst w \<le> n \<and> n \<le> snd w) \<or> s \<le> n \<and> n \<le> e"
    using assms(1) by (auto simp: partitions_def sorted_wrt_append)
  have s: "s \<le> seq" using assms(2) p(4) by auto
  have "\<forall>n\<in>set (ns @ [seq]). (\<exists>w\<in>set ws. fst w \<le> n \<and> n \<le> snd w) \<or> s \<le> n \<and> n \<le> seq"
    using cover assms(2) s by force
  with p s show ?thesis by (auto simp: partitions_def sorted_wrt_append)
qed

definition run_ok :: "cp_run \<Rightarrow> bool" where
  "run_ok st \<longleftrightarrow> cp_ok (run_cp st) \<and> partitions (windows_of st) (run_noted st)
     \<and> last_emitted_end (run_cp st) = (if run_emitted st = [] then None else Some (snd (last (run_emitted st))))"

lemma run_after_windows:
  assumes "emitted_or_kept cp res" "last_emitted_end cp = last_emitted_end (run_cp st)"
    and "last_emitted_end (run_cp st) = (if run_emitted st = [] then None else Some (snd (last (run_emitted st))))"
    and "cp_ok cp" "partitions (run_emitted st @ (case window cp of None \<Rightarrow> [] | Some w \<Rightarrow> [w])) (run_noted st @ ns)"
  shows "run_ok (run_after st ns res)"
  using assms by (cases res)
    (auto simp: emitted_or_kept_def run_ok_def run_after_def windows_of_def split: sum.splits option.splits)

lemma checkpointing_ok: "checkpointing c key st \<Longrightarrow> run_ok st"
proof (induction rule: checkpointing.induct)
  case (run_new n secs now cp)
  then show ?case
    by (auto simp: new_checkpointer_def run_ok_def cp_ok_def windows_of_def window_def partitions_def split: if_splits)
next
  case (run_note st seq env l db)
  let ?cp = "noted (ce_start env) seq (run_cp st)"
  have ok: "cp_ok (run_cp st)" and parts: "partitions (windows_of st) (run_noted st)"
    and last: "last_emitted_end (run_cp st) = (if run_emitted st = [] then None else Some (snd (last (run_emitted st))))"
    using run_note.IH by (simp_all add: run_ok_def)
  note nw = noted_window [OF ok, of "ce_start env" seq]
  have "partitions (run_emitted st @ (case window ?cp of None \<Rightarrow> [] | Some w \<Rightarrow> [w])) (run_noted st @ [seq])"
  proof (cases "window (run_cp st)")
    case None
    with nw parts run_note.hyps(2) partitions_new_window show ?thesis by (simp add: windows_of_def)
  next
    case (Some w)
    obtain s e where "w = (s, e)" by (cases w)
    with Some nw parts run_note.hyps(2) partitions_extend [of "run_emitted st" s e] show ?thesis
      by (simp add: windows_of_def)
  qed
  then show ?case using run_after_windows [OF note_seq_spec _ last] nw by simp
next
  case (run_tick st env l db)
  then show ?case using run_after_windows [OF tick_spec refl, of st "[]"] by (simp add: run_ok_def windows_of_def)
next
  case (run_flush st env l db)
  then show ?case using run_after_windows [OF flush_spec refl, of st "[]"] by (simp add: run_ok_def windows_of_def)
qed

section \<open>What a checkpoint is worth\<close>

definition keypair :: "crypto \<Rightarrow> device_key \<Rightarrow> bool" where
  "keypair c key \<longleftrightarrow>
     (\<forall>b. c_b64decode c (c_b64encode c b) = Some b)
     \<and> (\<exists>raw. c_b64decode c (dk_public key) = Some raw
          \<and> (\<forall>data. c_ed25519_verify c raw data (c_ed25519_sign c (dk_private key) data)))"

definition stored_dict :: "checkpoint \<Rightarrow> (pykey \<times> pyval) list" where
  "stored_dict k = map (\<lambda>(k, v). (KStr k, v)) (checkpoint_dict k)"

lemma signing_bytes_ignore_sig:
  "checkpoint_signing_bytes (stored_dict (k\<lparr>k_sig := s\<rparr>)) = checkpoint_signing_bytes (stored_dict k)"
  by (simp add: checkpoint_signing_bytes_def stored_dict_def checkpoint_dict_def)

lemma sign_verifies: "keypair c key \<Longrightarrow> device_key_verify c (dk_public key) data (device_key_sign c (dk_private key) data)"
  by (auto simp: keypair_def device_key_verify_def device_key_sign_def)

lemma stored_dict_get:
  "dget (u ''sig'') (stored_dict k) = PStr (k_sig k)" "seq_end_of (stored_dict k) = PInt (k_seq_end k)"
  "dget (u ''chain_head'') (stored_dict k) = PStr (k_chain_head k)"
  by (simp_all add: stored_dict_def checkpoint_dict_def seq_end_of_def)

lemma emit_signed:
  assumes "emit c key env l db cp = Inr (k, cp', db')"
  obtains data where "checkpoint_signing_bytes (stored_dict k) = Inr data"
    "k_sig k = device_key_sign c (dk_private key) data" "k_chain_head k = head l"
    "pending_end cp = Some (k_seq_end k)" "append_checkpoint (ce_io env) k l db = Inr db'"
proof -
  from emit_cases [OF assms] obtain s e data where
    "pending_end cp = Some e"
    "checkpoint_signing_bytes (map (\<lambda>(k, v). (KStr k, v))
       (checkpoint_dict (unsigned_checkpoint key (head l) (ce_ts env) s e))) = Inr data"
    "k = (unsigned_checkpoint key (head l) (ce_ts env) s e)\<lparr>k_sig := device_key_sign c (dk_private key) data\<rparr>"
    "append_checkpoint (ce_io env) k l db = Inr db'" by metis
  then show thesis
    by (intro that) (simp_all add: signing_bytes_ignore_sig flip: stored_dict_def, simp_all add: unsigned_checkpoint_def)
qed

lemma emit_signature_ok:
  assumes "emit c key env l db cp = Inr (k, cp', db')" "keypair c key"
  shows "signature_remarks c (Some [(0, dk_public key)]) e (stored_dict k) = []"
    "verify_checkpoint c (stored_dict k) (dk_public key) = Inr True"
proof -
  obtain data where d: "checkpoint_signing_bytes (stored_dict k) = Inr data"
      "k_sig k = device_key_sign c (dk_private key) data"
    using emit_signed [OF assms(1)] by metis
  note v = sign_verifies [OF assms(2), of data]
  show "signature_remarks c (Some [(0, dk_public key)]) e (stored_dict k) = []"
    using d v by (simp add: signature_remarks_def stored_dict_get key_active_at_def checkpoint_signing_bytes_def)
  show "verify_checkpoint c (stored_dict k) (dk_public key) = Inr True"
    using d v by (simp add: verify_checkpoint_def stored_dict_get)
qed

definition row_table :: "lrow list \<Rightarrow> (int \<times> pystr) list" where
  "row_table rows = rev (map (\<lambda>r. (row_seq r, row_entry_hash r)) rows)"

lemma row_table_lookup:
  assumes "rows_ok sha p 1 rows" "1 \<le> e" "e \<le> int (length rows)"
  shows "map_of (row_table rows) e = Some (row_entry_hash (rows ! nat (e - 1)))"
proof -
  have "distinct (map row_seq rows)" unfolding rows_ok_seqs [OF assms(1)] by (simp add: distinct_map inj_on_def)
  then have "distinct (map fst (row_table rows))" by (simp add: row_table_def rev_map o_def flip: rev_map)
  moreover have "(e, row_entry_hash (rows ! nat (e - 1))) \<in> set (row_table rows)"
    using assms rows_ok_nth_seq [OF assms(1), of "nat (e - 1)"] nth_mem [of "nat (e - 1)" rows]
    by (auto simp: row_table_def intro!: rev_image_eqI)
  ultimately show ?thesis by simp
qed

lemma stands_on_head:
  assumes "stands_on n l db" "0 < n"
  shows "head l = row_entry_hash (events db ! (n - 1))"
proof -
  have "n - 1 < length (events db)" using assms by (auto simp: stands_on_def)
  from rows_ok_take_Suc [OF this] show ?thesis using assms by (simp add: stands_on_def)
qed

lemma rows_ok_mem_link:
  "rows_ok sha p n rs \<Longrightarrow> str_ok p \<Longrightarrow> r \<in> set rs \<Longrightarrow>
     str_ok (row_prev_hash r) \<and> str_ok (row_event_digest r)
     \<and> compute_entry_hash sha (row_prev_hash r) (row_seq r) (row_event_digest r) = Inr (row_entry_hash r)"
proof (induction sha p n rs rule: rows_ok.induct)
  case (2 sha prev n x rs)
  have "str_ok (row_entry_hash x)" using 2(2) compute_entry_hash_ok by auto
  moreover have "str_ok (row_event_digest x)" using 2(2) event_digest_ok by (auto simp: row_wf_def)
  ultimately show ?case using 2 by auto
qed simp

definition row_links :: "lrow list \<Rightarrow> (pystr \<times> int \<times> pystr) set" where
  "row_links rows = (\<lambda>r. (row_prev_hash r, row_seq r, row_event_digest r)) ` set rows"

lemma distinct_entry_hashes:
  assumes "rows_ok sha GENESIS_PREV_HASH 1 rows" "i < j" "j < length rows"
    and "row_entry_hash (rows ! i) = row_entry_hash (rows ! j)"
  shows "collision_on sha (link_bytes ` row_links rows)"
proof -
  let ?a = "rows ! i" and ?b = "rows ! j"
  have mem: "?a \<in> set rows" "?b \<in> set rows" using assms(2,3) by auto
  note la = rows_ok_mem_link [OF assms(1) genesis_ok(1) mem(1)] and lb = rows_ok_mem_link [OF assms(1) genesis_ok(1) mem(2)]
  have "row_seq ?a \<noteq> row_seq ?b" using assms(2,3) by (simp add: rows_ok_nth_seq [OF assms(1)])
  then have "collision_on sha (link_bytes `
      {(row_prev_hash ?a, row_seq ?a, row_event_digest ?a), (row_prev_hash ?b, row_seq ?b, row_event_digest ?b)})"
    using link_binding_aux [of sha "row_prev_hash ?a" "row_seq ?a" "row_event_digest ?a" "row_entry_hash ?a"
        "row_prev_hash ?b" "row_seq ?b" "row_event_digest ?b"] la lb assms(4) by auto
  then show ?thesis by (rule collision_on_mono) (use mem in \<open>auto simp: row_links_def\<close>)
qed

section \<open>Properties\<close>

text \<open>
  However \<open>note\<close>, \<open>tick\<close> and \<open>flush\<close> are called, with whatever clock readings and whatever failures
  of signing or storing, the windows emitted and the one still open partition what was noted: they
  are disjoint and in order, start and end at noted sequence numbers, and every noted number is in
  one of them. No event is checkpointed twice, and none is dropped.
\<close>

theorem checkpoint_windows_partition:
  assumes "checkpointing c key st"
  shows "partitions (windows_of st) (run_noted st)"
  using checkpointing_ok [OF assms] by (simp add: run_ok_def)

text \<open>
  A checkpoint that \<open>flush\<close> emits while the ledger's head is still the entry it ends with passes every
  check of the verifier: its signature verifies under the device's key and its chain head is the
  entry hash stored at its \<open>seq_end\<close>.
\<close>

theorem flushed_checkpoint_verifies:
  assumes "ledger_reach (c_sha c) w" "l \<in> set (w_ledgers w)" "keypair c key"
    and "flush c key env l (w_db w) cp = (Inr (Some k), cp', db')"
    and "k_seq_end k = next_seq l - 1" "1 \<le> k_seq_end k"
  shows "check_checkpoint c (Some [(0, dk_public key)]) (row_table (events (w_db w))) (stored_dict k) = ([], [])"
proof -
  obtain n where n: "stands_on n l (w_db w)" and rows: "rows_ok (c_sha c) GENESIS_PREV_HASH 1 (events (w_db w))"
    using ledger_reach_ok [OF assms(1)] assms(2) by (auto simp: world_ok_def db_ok_def)
  have e: "emit c key env l (w_db w) cp = Inr (k, cp', db')"
    using assms(4) by (auto simp: flush_def emit_or_keep_def split: if_splits sum.splits)
  have "k_chain_head k = head l" using emit_signed [OF e] by metis
  moreover have "k_seq_end k = int n" "0 < n" "n \<le> length (events (w_db w))"
    using n assms(5,6) by (auto simp: stands_on_def)
  ultimately have "head_remarks (row_table (events (w_db w))) (k_seq_end k) (stored_dict k) = []"
    using row_table_lookup [OF rows, of "int n"] stands_on_head [OF n]
    by (simp add: head_remarks_def stored_dict_get nat_diff_distrib)
  then show ?thesis
    using emit_signature_ok(1) [OF e assms(3)] by (simp add: check_checkpoint_def stored_dict_get)
qed

text \<open>
  A checkpoint is rejected when anything was appended after the event it ends with. The chain head
  is read from the ledger at emission, not recorded with the last noted event: if the ledger has
  since moved on (a mandate verdict or a rotation, which are appended without being noted, or an
  append by another thread), the signed head belongs to a later entry, and the verifier reports
  the honest checkpoint as failed; unless two of the links hashed are a collision.
\<close>

theorem late_checkpoint_rejected:
  assumes "ledger_reach (c_sha c) w" "l \<in> set (w_ledgers w)"
    and "flush c key env l (w_db w) cp = (Inr (Some k), cp', db')"
    and "1 \<le> k_seq_end k" "k_seq_end k < next_seq l - 1"
  shows "fst (check_checkpoint c timeline (row_table (events (w_db w))) (stored_dict k)) = [k_seq_end k]
    \<or> collision_on (c_sha c) (link_bytes ` row_links (events (w_db w)))"
proof -
  let ?rows = "events (w_db w)"
  obtain n where n: "stands_on n l (w_db w)" and rows: "rows_ok (c_sha c) GENESIS_PREV_HASH 1 ?rows"
    using ledger_reach_ok [OF assms(1)] assms(2) by (auto simp: world_ok_def db_ok_def)
  have e: "emit c key env l (w_db w) cp = Inr (k, cp', db')"
    using assms(3) by (auto simp: flush_def emit_or_keep_def split: if_splits sum.splits)
  let ?i = "nat (k_seq_end k - 1)"
  have i: "?i < n - 1" "n \<le> length ?rows" "0 < n" "k_seq_end k \<le> int (length ?rows)"
    using n assms(4,5) by (auto simp: stands_on_def)
  have look: "map_of (row_table ?rows) (k_seq_end k) = Some (row_entry_hash (?rows ! ?i))"
    using row_table_lookup [OF rows assms(4) i(4)] .
  have head: "k_chain_head k = row_entry_hash (?rows ! (n - 1))"
    using emit_signed [OF e] stands_on_head [OF n i(3)] by metis
  show ?thesis
  proof (cases "row_entry_hash (?rows ! ?i) = row_entry_hash (?rows ! (n - 1))")
    case True
    with distinct_entry_hashes [OF rows i(1)] i(2,3) show ?thesis by simp
  next
    case False
    then have "head_remarks (row_table ?rows) (k_seq_end k) (stored_dict k) \<noteq> []"
      using look head by (auto simp: head_remarks_def stored_dict_get)
    then show ?thesis by (simp add: check_checkpoint_def stored_dict_get)
  qed
qed

text \<open>
  \<open>flush\<close> emits nothing exactly when no event is waiting: it never writes an empty checkpoint, and a
  second \<open>flush\<close> after one that emitted writes no duplicate.
\<close>

theorem flush_emits_iff_pending:
  assumes "checkpointing ck key st"
  shows "(pending_count (run_cp st) = 0 \<longrightarrow> flush c key env l db (run_cp st) = (Inr None, run_cp st, db))
    \<and> (\<forall>k cp' db'. flush c key env l db (run_cp st) = (Inr (Some k), cp', db') \<longrightarrow>
         window (run_cp st) = Some (k_seq_start k, k_seq_end k)
         \<and> flush c key env2 l2 db2 cp' = (Inr None, cp', db2))"
proof (intro conjI allI impI)
  fix k cp' db' assume f: "flush c key env l db (run_cp st) = (Inr (Some k), cp', db')"
  with flush_spec [of "run_cp st" c key env l db] show "window (run_cp st) = Some (k_seq_start k, k_seq_end k)"
    by (simp add: emitted_or_kept_def)
  from f flush_spec [of "run_cp st" c key env l db] have "pending_count cp' = 0"
    by (simp add: emitted_or_kept_def)
  then show "flush c key env2 l2 db2 cp' = (Inr None, cp', db2)" by (simp add: flush_def)
qed (simp add: flush_def)

section \<open>The properties at a concrete checkpointer\<close>

definition toy_key :: device_key where
  "toy_key = \<lparr>dk_private = [65], dk_public = [65], dk_device_id = u ''dev_IE''\<rparr>"

definition toy_env :: cp_env where
  "toy_env = \<lparr>ce_start = 0, ce_now = 1, ce_reset = 1, ce_ts = u ''now'', ce_io = IoOk\<rparr>"

definition pending_one :: checkpointer where
  "pending_one = \<lparr>every_events = 2, every_seconds = 60, pending_start = Some 1, pending_end = Some 1,
     pending_count = 1, window_started_at = 0, last_emitted_end = None\<rparr>"

lemma toy_keypair: "keypair toy toy_key"
  using map_of_nat_unat by (simp add: keypair_def toy_def toy_key_def)

lemma pending_one_run: "checkpointing c key \<lparr>run_cp = pending_one, run_noted = [1], run_emitted = []\<rparr>"
proof -
  let ?cp = "pending_one\<lparr>pending_start := None, pending_end := None, pending_count := 0\<rparr>"
  have "new_checkpointer 2 60 0 = Inr ?cp" by (simp add: new_checkpointer_def pending_one_def)
  then have "checkpointing c key \<lparr>run_cp = ?cp, run_noted = [], run_emitted = []\<rparr>" by (rule run_new)
  from run_note [OF this, of 1 toy_env fresh "w_db empty_world"] show ?thesis
    by (simp add: run_after_def note_seq_def Let_def pending_one_def toy_env_def)
qed

lemma clean_simps: "clean (a @ b) \<longleftrightarrow> clean a \<and> clean b"
  by (simp add: clean_def)

lemma unat_byte_clean: "clean (map unat (bs :: bytes))"
proof -
  have "\<not> surrogate (unat b)" for b :: byte
    using unsigned_less [of b, where 'a = nat] by (simp add: surrogate_def)
  then show ?thesis by (simp add: clean_def list_all_iff)
qed

lemma toy_emit:
  assumes "clean (head l)" "\<not> closed l" "find_checkpoint 1 db = None"
  shows "\<exists>k cp' db'. flush toy toy_key toy_env l db pending_one = (Inr (Some k), cp', db') \<and> k_seq_end k = 1"
proof -
  let ?k = "unsigned_checkpoint toy_key (head l) (ce_ts toy_env) 1 1"
  have "jsonable (PDict (filter (\<lambda>(k, _). k \<noteq> KStr (u ''sig'')) (stored_dict ?k)))"
    using assms(1) by (simp add: stored_dict_def checkpoint_dict_def unsigned_checkpoint_def toy_key_def toy_env_def
        u_def clean_def surrogate_def)
  then obtain data where data: "checkpoint_signing_bytes (stored_dict ?k) = Inr data"
    using jsonable_canonicalize unfolding checkpoint_signing_bytes_def by blast
  let ?s = "?k\<lparr>k_sig := device_key_sign toy (dk_private toy_key) data\<rparr>"
  have sig: "clean (device_key_sign toy (dk_private toy_key) data)"
    using unat_byte_clean by (simp add: device_key_sign_def toy_def SIG_PREFIX_def clean_simps)
      (simp add: u_def clean_def surrogate_def)
  have "jsonable (dict_of (checkpoint_dict ?s))"
    using assms(1) sig by (simp add: jsonable_dict_of checkpoint_dict_def unsigned_checkpoint_def toy_key_def toy_env_def
        u_def clean_def surrogate_def)
  then have "\<exists>t. canonical_dumps (dict_of (checkpoint_dict ?s)) = Inr t"
    using serialize_succeeds_aux by (simp add: canonical_dumps_def)
  then have "\<exists>db'. append_checkpoint IoOk ?s l db = Inr db'"
    using assms(2,3) by (auto simp: append_checkpoint_def unsigned_checkpoint_def)
  then show ?thesis
    using data [unfolded stored_dict_def]
    by (auto simp: flush_def emit_or_keep_def emit_def pending_one_def Let_def toy_env_def unsigned_checkpoint_def)
qed

theorem checkpoint_windows_partition_witness: "partitions [(1, 1)] [1]"
  using checkpoint_windows_partition [OF pending_one_run]
  by (simp add: windows_of_def window_def pending_one_def)

theorem flush_emits_iff_pending_witness:
  "\<forall>k cp' db'. flush toy toy_key toy_env fresh (w_db empty_world) pending_one = (Inr (Some k), cp', db') \<longrightarrow>
     k_seq_start k = 1 \<and> flush toy toy_key toy_env fresh (w_db empty_world) cp' = (Inr None, cp', w_db empty_world)"
  using flush_emits_iff_pending [OF pending_one_run [of toy toy_key], where c = toy and env = toy_env and l = fresh
      and db = "w_db empty_world" and ?env2.0 = toy_env and ?l2.0 = fresh and ?db2.0 = "w_db empty_world"]
  by (simp add: window_def pending_one_def)

lemma clean_head:
  assumes "ledger_reach sha w" "l \<in> set (w_ledgers w)"
  shows "clean (head l)"
proof -
  obtain n where n: "stands_on n l (w_db w)" and rows: "rows_ok sha GENESIS_PREV_HASH 1 (events (w_db w))"
    using ledger_reach_ok [OF assms(1)] assms(2) by (auto simp: world_ok_def db_ok_def)
  then show ?thesis using head_after_clean [OF rows_ok_take [OF rows, of n]] by (simp add: stands_on_def)
qed

theorem flushed_checkpoint_verifies_witness:
  "\<exists>(w::world) l k cp' db'. flush toy toy_key toy_env l (w_db w) pending_one = (Inr (Some k), cp', db')
     \<and> check_checkpoint toy (Some [(0, [65])]) (row_table (events (w_db w))) (stored_dict k) = ([], [])"
proof -
  obtain l' db' where a: "checkpoints db' = []"
    "ledger_step id (one_ledger True) \<lparr>w_db = db', w_ledgers = [l']\<rparr>" "\<not> closed l'" "next_seq l' = 2"
    by (rule first_append)
  let ?w = "\<lparr>w_db = db', w_ledgers = [l']\<rparr>"
  have w: "ledger_reach id ?w" using one_ledger_reach a(2) by (rule reach_step)
  obtain k cp' db2 where f: "flush toy toy_key toy_env l' db' pending_one = (Inr (Some k), cp', db2)" "k_seq_end k = 1"
    using toy_emit [OF clean_head [OF w, of l'] a(3), of db'] a(1) by (auto simp: find_checkpoint_def)
  have "check_checkpoint toy (Some [(0, dk_public toy_key)]) (row_table (events (w_db ?w))) (stored_dict k) = ([], [])"
    by (rule flushed_checkpoint_verifies [OF _ _ toy_keypair])
      (use w f a(4) in \<open>simp_all add: toy_simps\<close>)
  then show ?thesis using f(1) by (intro exI [of _ ?w] exI [of _ l'] exI [of _ k]) (auto simp: toy_key_def)
qed

text \<open>A second event, appended without the checkpointer being told.\<close>

lemma second_append:
  obtains w l where "ledger_reach id w" "l \<in> set (w_ledgers w)" "next_seq l = 3" "\<not> closed l" "checkpoints (w_db w) = []"
proof -
  obtain l' db' where a: "length (events db') = 1" "checkpoints db' = []"
    "ledger_step id (one_ledger True) \<lparr>w_db = db', w_ledgers = [l']\<rparr>" "\<not> closed l'"
    "map row_event_id (events db') = [[49]]" by (rule first_append)
  let ?w = "\<lparr>w_db = db', w_ledgers = [l']\<rparr>" and ?ev = "sample_event\<lparr>ev_event_id := [50]\<rparr>"
  have w: "ledger_reach id ?w" using one_ledger_reach a(3) by (rule reach_step)
  obtain n where n: "stands_on n l' db'" "db_ok id db'" using ledger_reach_ok [OF w] by (auto simp: world_ok_def)
  have json: "jsonable (to_dict ?ev)"
    by (simp add: to_dict_def dict_of_def sample_event_def event_items_def field_values_def opt_str_def
        clean_def u_def EVENT_SCHEMA_VERSION_V1_def surrogate_def)
  have fresh_id: "ev_event_id ?ev \<notin> row_event_id ` set (events db')"
    using arg_cong [OF a(5), of set] by simp
  obtain e l2 db2 where s: "append_locked id (IoOk, IoOk) ?ev l' db' = (Inr e, l2, db2)"
    using append_locked_succeeds [OF n(2,1) json fresh_id refl] by blast
  note inr = append_locked_Inr [OF n(2,1) s]
  obtain l0 where c: "commits id ?ev e l0 l2 db' db2" using inr(1) by blast
  have len: "length (events db2) = 2" "checkpoints db2 = []" using c a(1,2) by (auto simp: commits_def)
  obtain fault where at: "\<exists>l1. attempt id fault ?ev l1 db' = Inr (e, l2, db2) \<and> (l1 = l' \<or> l1 = resync l' db')"
    using s by (auto simp: append_locked_def Let_def split: sum.splits write_error.splits prod.splits)
  let ?w1 = "\<lparr>w_db = db', w_ledgers = [resync l' db']\<rparr>" and ?w2 = "\<lparr>w_db = db2, w_ledgers = [l2]\<rparr>"
  have w1: "ledger_reach id ?w1" using reach_step [OF w step_resync [of 0 ?w]] by simp
  have "ledger_reach id ?w2"
    using at reach_step [OF w step_attempt [of 0 ?w id fault ?ev e l2 db2]]
      reach_step [OF w1 step_attempt [of 0 ?w1 id fault ?ev e l2 db2]] by auto
  moreover have "next_seq l2 = 3" using inr(3) len by (simp add: current_def stands_on_def)
  moreover have "\<not> closed l2" using inr(4) a(4) by (simp add: same_identity_def)
  ultimately show thesis using that [of ?w2 l2] len by simp
qed

theorem late_checkpoint_rejected_witness:
  "\<exists>(w::world) l k cp' db'. flush toy toy_key toy_env l (w_db w) pending_one = (Inr (Some k), cp', db')
     \<and> (fst (check_checkpoint toy (Some [(0, [65])]) (row_table (events (w_db w))) (stored_dict k)) = [k_seq_end k]
        \<or> collision_on id (link_bytes ` row_links (events (w_db w))))"
proof -
  obtain w l where w: "ledger_reach id w" "l \<in> set (w_ledgers w)" "next_seq l = 3" "\<not> closed l"
    "checkpoints (w_db w) = []" by (rule second_append)
  obtain k cp' db' where f: "flush toy toy_key toy_env l (w_db w) pending_one = (Inr (Some k), cp', db')" "k_seq_end k = 1"
    using toy_emit [OF clean_head [OF w(1,2)] w(4), of "w_db w"] w(5) by (auto simp: find_checkpoint_def)
  have "fst (check_checkpoint toy (Some [(0, [65])]) (row_table (events (w_db w))) (stored_dict k)) = [k_seq_end k]
      \<or> collision_on (c_sha toy) (link_bytes ` row_links (events (w_db w)))"
    by (rule late_checkpoint_rejected [OF _ w(2) f(1)]) (use w f(2) in \<open>simp_all add: toy_simps\<close>)
  with f(1) show ?thesis by (intro exI [of _ w] exI [of _ l] exI [of _ k]) (auto simp: toy_simps)
qed

end
