(* ===== verification/Mandate.thy ===== *)
theory Mandate
  imports Keys "HOL-Library.AList"
begin

text \<open>
  \<open>recorder/mandate.py\<close>: the local mandate gate. Clock readings, the answers of the mandate source
  and whether a callback raises are inputs. A verdict keeps every field of the code's but
  \<open>detail\<close>, the operator's text, which repeats the other fields in words.
\<close>

section \<open>Numbers and conversions\<close>

text \<open>
  A float that came in from outside may be an infinity or NaN. \<open>pyconv\<close> gathers \<open>repr\<close>, \<open>float()\<close> and
  \<open>int()\<close>; the latter two answer, raise \<open>TypeError\<close> or \<open>ValueError\<close> (\<open>Refused\<close>), or raise
  \<open>OverflowError\<close>, which the code does not catch.
\<close>

datatype xfloat = XNan | XNegInf | XFin pyfloat | XInf

fun xless :: "xfloat \<Rightarrow> xfloat \<Rightarrow> bool" where
  "xless XNan _ = False"
| "xless _ XNan = False"
| "xless (XFin a) (XFin b) = (a < b)"
| "xless XNegInf y = (y \<noteq> XNegInf)"
| "xless (XFin _) y = (y = XInf)"
| "xless XInf _ = False"

definition xle :: "xfloat \<Rightarrow> xfloat \<Rightarrow> bool" where
  "xle x y \<longleftrightarrow> xless x y \<or> (x = y \<and> x \<noteq> XNan)"

fun xadd :: "xfloat \<Rightarrow> xfloat \<Rightarrow> xfloat" where
  "xadd (XFin a) (XFin b) = XFin (a + b)"
| "xadd XNan _ = XNan"
| "xadd _ XNan = XNan"
| "xadd XInf XNegInf = XNan"
| "xadd XNegInf XInf = XNan"
| "xadd XInf _ = XInf"
| "xadd _ XInf = XInf"
| "xadd XNegInf _ = XNegInf"
| "xadd _ XNegInf = XNegInf"

text \<open>\<open>x * REFRESH_FRACTION\<close>.\<close>

definition REFRESH_FRACTION :: pyfloat where
  "REFRESH_FRACTION = 1 / 2"

fun xhalf :: "xfloat \<Rightarrow> xfloat" where
  "xhalf (XFin a) = XFin (a * REFRESH_FRACTION)"
| "xhalf x = x"

datatype 'a converted = Converted 'a | Refused | Overflowed

record pyconv =
  cv_repr :: "pyval \<Rightarrow> pystr"
  cv_float :: "pyval \<Rightarrow> xfloat converted"
  cv_int :: "pyval \<Rightarrow> int converted"

section \<open>Constants\<close>

definition DEFAULT_MAX_STALENESS_S :: xfloat where "DEFAULT_MAX_STALENESS_S = XFin 300"
definition MIN_REFRESH_INTERVAL_S :: pyfloat where "MIN_REFRESH_INTERVAL_S = 1"
definition MAX_REPORTED_APPROVAL_REQUESTS :: nat where "MAX_REPORTED_APPROVAL_REQUESTS = 10000"
definition CALL_RATE_WINDOW_S :: pyfloat where "CALL_RATE_WINDOW_S = 60"
definition MAX_TRACKED_TRAJECTORIES :: nat where "MAX_TRACKED_TRAJECTORIES = 10000"

definition BLOCKING_STATUSES :: "pystr list" where
  "BLOCKING_STATUSES = [u ''suspended'', u ''retired'', u ''revoked'', u ''decommissioned'']"

definition FAIL_OPEN :: pystr where "FAIL_OPEN = u ''fail_open''"
definition FAIL_CLOSED :: pystr where "FAIL_CLOSED = u ''fail_closed''"
definition ENFORCE :: pystr where "ENFORCE = u ''enforce''"
definition OBSERVE :: pystr where "OBSERVE = u ''observe''"

datatype reason =
    IN_SCOPE | UNRESTRICTED | OUT_OF_SCOPE | OUT_OF_SCOPE_OBSERVED | SNAPSHOT_STALE | NO_SNAPSHOT
  | AGENT_SUSPENDED | ENFORCEMENT_UNCONFIGURED | REPEAT_DENIED | RUN_HALTED | DELEGATED_OUT_OF_SCOPE
  | DELEGATED_OUT_OF_SCOPE_OBSERVED | AGENT_UNRESOLVED | APPROVAL_REQUIRED | REASSESSMENT_REQUIRED
  | APPROVAL_GRANTED | APPROVAL_REFUSED | BUDGET_COST_EXCEEDED | BUDGET_CALL_RATE_EXCEEDED
  | BUDGET_STEP_LIMIT_EXCEEDED

section \<open>Actions, verdicts, snapshots\<close>

record action =
  a_tool :: pystr
  a_trajectory :: "pystr option"
  a_step :: "int option"
  a_arguments :: "(pykey \<times> pyval) list option"

record verdict_info =
  v_reason :: reason
  v_version :: "pystr option"
  v_age :: "pyfloat option"
  v_tool :: pystr
  v_posture :: pystr
  v_enforcement :: "pystr option"
  v_trajectory :: "pystr option"
  v_step :: "int option"

datatype verdict =
    Allow verdict_info
  | Flag verdict_info
  | Deny verdict_info
  | RequireApproval verdict_info pystr

fun info_of :: "verdict \<Rightarrow> verdict_info" where
  "info_of (Allow i) = i" | "info_of (Flag i) = i" | "info_of (Deny i) = i"
| "info_of (RequireApproval i _) = i"

fun allowed :: "verdict \<Rightarrow> bool" where
  "allowed (Allow _) = True" | "allowed (Flag _) = True" | "allowed (Deny _) = False"
| "allowed (RequireApproval _ _) = False"

fun flagged :: "verdict \<Rightarrow> bool" where
  "flagged (Allow _) = False" | "flagged (Flag _) = True" | "flagged (Deny _) = True"
| "flagged (RequireApproval _ _) = True"

fun verdict_word :: "verdict \<Rightarrow> pystr" where
  "verdict_word (Allow _) = u ''allowed''" | "verdict_word (Flag _) = u ''flagged''"
| "verdict_word (Deny _) = u ''blocked''"
| "verdict_word (RequireApproval _ _) = u ''pending_approval''"

record snapshot =
  sn_allowed_tools :: "pystr list option"
  sn_approval_required_tools :: "pystr list"
  sn_resolved_approvals :: "(pystr \<times> pystr) list"
  sn_max_run_cost_usd :: "xfloat option"
  sn_max_calls_per_minute :: "int option"
  sn_max_run_steps :: "int option"
  sn_mandate_version_id :: "pystr option"
  sn_status :: "pystr option"
  sn_mandate_enforcement :: pystr
  sn_enforcement_posture :: pystr
  sn_max_staleness_s :: xfloat
  sn_delegation_policy :: "pystr option"
  sn_max_delegation_depth :: "int option"
  sn_served_at :: "pystr option"
  sn_reassessment_required :: bool
  sn_received_at :: pyfloat
  sn_raw :: "(pykey \<times> pyval) list"

text \<open>
  \<open>str.lower()\<close> as far as a comparison with an ASCII word sees it: the capitals, and the Kelvin
  sign, the only other character whose lower case is an ASCII letter.
\<close>

definition lower_char :: "nat \<Rightarrow> nat" where
  "lower_char c = (if 65 \<le> c \<and> c \<le> 90 then c + 32 else if c = 0x212A then 107 else c)"

definition suspended :: "snapshot \<Rightarrow> bool" where
  "suspended s \<longleftrightarrow> map lower_char (case sn_status s of None \<Rightarrow> [] | Some t \<Rightarrow> t) \<in> set BLOCKING_STATUSES"

definition unrestricted :: "snapshot \<Rightarrow> bool" where
  "unrestricted s \<longleftrightarrow> sn_allowed_tools s = None"

definition observing :: "snapshot \<Rightarrow> bool" where
  "observing s \<longleftrightarrow> sn_mandate_enforcement s = OBSERVE"

definition age_s :: "pyfloat \<Rightarrow> snapshot \<Rightarrow> pyfloat" where
  "age_s now s = max 0 (now - sn_received_at s)"

definition is_stale :: "pyfloat \<Rightarrow> snapshot \<Rightarrow> bool" where
  "is_stale now s \<longleftrightarrow> xless (sn_max_staleness_s s) (XFin (age_s now s))"

definition permits :: "pystr \<Rightarrow> snapshot \<Rightarrow> bool" where
  "permits tool s = (case sn_allowed_tools s of None \<Rightarrow> True | Some tools \<Rightarrow> tool \<in> set tools)"

definition requires_approval :: "pystr \<Rightarrow> snapshot \<Rightarrow> bool" where
  "requires_approval tool s \<longleftrightarrow> tool \<in> set (sn_approval_required_tools s)"

definition approval_decision :: "pystr \<Rightarrow> snapshot \<Rightarrow> pystr option" where
  "approval_decision rid s = map_of (sn_resolved_approvals s) rid"

section \<open>Reading a payload\<close>

datatype gate_error =
    SnapshotNotObject | AllowedToolsNotList | NotIterable | ConversionOverflow
  | ArgumentsNotCanonical canon_error | KeyNotEncodable | FetchRaised

definition opt_str_of :: "pyconv \<Rightarrow> pyval \<Rightarrow> pystr option" where
  "opt_str_of cv v = (if v = PNone then None else Some (py_str (cv_repr cv) v))"

definition opt_num :: "(pyval \<Rightarrow> 'a converted) \<Rightarrow> pyval \<Rightarrow> gate_error + 'a option" where
  "opt_num conv v =
     (if v = PNone then Inr None
      else case conv v of
        Converted x \<Rightarrow> Inr (Some x) | Refused \<Rightarrow> Inr None | Overflowed \<Rightarrow> Inl ConversionOverflow)"

definition coerce_float :: "pyconv \<Rightarrow> pyval \<Rightarrow> xfloat \<Rightarrow> gate_error + xfloat" where
  "coerce_float cv v fallback =
     (case cv_float cv v of
        Converted x \<Rightarrow> Inr (if xless (XFin 0) x then x else fallback)
      | Refused \<Rightarrow> Inr fallback
      | Overflowed \<Rightarrow> Inl ConversionOverflow)"

definition or_default :: "pystr option \<Rightarrow> pystr \<Rightarrow> pystr" where
  "or_default v d = (case v of None \<Rightarrow> d | Some s \<Rightarrow> if s = [] then d else s)"

fun key_text :: "(pyval \<Rightarrow> pystr) \<Rightarrow> pykey \<Rightarrow> pystr" where
  "key_text repr (KStr k) = k" | "key_text repr KOther = repr POther"

text \<open>Iterating over a value: a list's elements, a dictionary's keys, a string's characters.\<close>

fun iterate :: "pyval \<Rightarrow> pyval list option" where
  "iterate (PSeq xs) = Some xs"
| "iterate (PDict items) = Some (map (\<lambda>(k, _). case k of KStr s \<Rightarrow> PStr s | KOther \<Rightarrow> POther) items)"
| "iterate (PStr s) = Some (map (\<lambda>c. PStr [c]) s)"
| "iterate _ = None"

definition allowed_tools_of :: "pyconv \<Rightarrow> pyval \<Rightarrow> gate_error + pystr list option" where
  "allowed_tools_of cv v =
     (if v = PNone then Inr None
      else if is_str v then Inl AllowedToolsNotList
      else case iterate v of
        None \<Rightarrow> Inl AllowedToolsNotList
      | Some xs \<Rightarrow> Inr (Some (map (py_str (cv_repr cv)) xs)))"

definition approval_tools_of :: "pyconv \<Rightarrow> pyval \<Rightarrow> gate_error + pystr list" where
  "approval_tools_of cv v =
     (if \<not> truthy v then Inr []
      else case iterate v of
        None \<Rightarrow> Inl NotIterable
      | Some xs \<Rightarrow> Inr (map (py_str (cv_repr cv)) xs))"

text \<open>A dictionary built item by item: the last value of a key wins.\<close>

definition resolved_of :: "pyconv \<Rightarrow> pyval \<Rightarrow> (pystr \<times> pystr) list" where
  "resolved_of cv v =
     (case v of
        PDict items \<Rightarrow>
          foldl (\<lambda>d (k, x). AList.update (key_text (cv_repr cv) k) (py_str (cv_repr cv) x) d) [] items
      | _ \<Rightarrow> [])"

definition from_payload :: "pyconv \<Rightarrow> pyval \<Rightarrow> pyfloat \<Rightarrow> gate_error + snapshot" where
  "from_payload cv payload received_at =
     (case payload of
        PDict p \<Rightarrow>
          rbind (allowed_tools_of cv (dget (u ''allowed_tools'') p)) (\<lambda>tools.
          rbind (approval_tools_of cv (dget (u ''approval_required_tools'') p)) (\<lambda>approval_tools.
          rbind (opt_num (cv_float cv) (dget (u ''max_run_cost_usd'') p)) (\<lambda>cost.
          rbind (opt_num (cv_int cv) (dget (u ''max_calls_per_minute'') p)) (\<lambda>calls.
          rbind (opt_num (cv_int cv) (dget (u ''max_run_steps'') p)) (\<lambda>steps.
          rbind (coerce_float cv (dget (u ''max_staleness_s'') p) DEFAULT_MAX_STALENESS_S) (\<lambda>staleness.
          rmap (\<lambda>depth.
            \<lparr>sn_allowed_tools = tools, sn_approval_required_tools = approval_tools,
             sn_resolved_approvals = resolved_of cv (dget (u ''resolved_approvals'') p),
             sn_max_run_cost_usd = cost, sn_max_calls_per_minute = calls, sn_max_run_steps = steps,
             sn_mandate_version_id = opt_str_of cv (dget (u ''mandate_version_id'') p),
             sn_status = opt_str_of cv (dget (u ''status'') p),
             sn_mandate_enforcement =
               or_default (opt_str_of cv (dget (u ''mandate_enforcement'') p)) ENFORCE,
             sn_enforcement_posture =
               or_default (opt_str_of cv (dget (u ''enforcement_posture'') p)) FAIL_OPEN,
             sn_max_staleness_s = staleness,
             sn_delegation_policy = opt_str_of cv (dget (u ''delegation_policy'') p),
             sn_max_delegation_depth = depth,
             sn_served_at = opt_str_of cv (dget (u ''served_at'') p),
             sn_reassessment_required = truthy (dget (u ''reassessment_required'') p),
             sn_received_at = received_at, sn_raw = p\<rparr>)
            (opt_num (cv_int cv) (dget (u ''max_delegation_depth'') p))))))))
      | _ \<Rightarrow> Inl SnapshotNotObject)"

text \<open>\<open>str.encode("utf-8")\<close> raises on a lone surrogate.\<close>

definition utf8_encode :: "pystr \<Rightarrow> gate_error + bytes" where
  "utf8_encode s = (if \<exists>c\<in>set s. surrogate c then Inl KeyNotEncodable else Inr (utf8 s))"

definition approval_key ::
  "pystr \<Rightarrow> pystr option \<Rightarrow> int option \<Rightarrow> (pykey \<times> pyval) list option \<Rightarrow> gate_error + pystr" where
  "approval_key tool trajectory step args =
     rmap (\<lambda>args_part.
        tool @ u '':'' @ (case trajectory of None \<Rightarrow> [] | Some t \<Rightarrow> t) @ u '':''
          @ (case step of None \<Rightarrow> [] | Some i \<Rightarrow> int_str i) @ u '':'' @ args_part)
       (case args of
          None \<Rightarrow> Inr []
        | Some items \<Rightarrow>
            if items = [] then Inr []
            else (case canonical_dumps (PDict items) of
                    Inl e \<Rightarrow> Inl (ArgumentsNotCanonical e) | Inr t \<Rightarrow> Inr t))"

definition approval_request_id ::
  "hash \<Rightarrow> pystr \<Rightarrow> pystr option \<Rightarrow> int option \<Rightarrow> (pykey \<times> pyval) list option \<Rightarrow> gate_error + pystr" where
  "approval_request_id sha tool trajectory step args =
     rbind (approval_key tool trajectory step args) (\<lambda>key.
       rmap (\<lambda>b. take 32 (hex (sha b))) (utf8_encode key))"

end
