(* ===== verification/Gate.thy ===== *)
theory Gate
  imports Mandate
begin

text \<open>
  The \<open>MandateGate\<close> of \<open>recorder/mandate.py\<close>: its state, \<open>decide\<close> with its budgets, the snapshot and
  refresh operations and the two reports. An ordered dictionary is an association list, oldest
  entry first; a deque is a list, its left end first.
\<close>

record gate =
  g_has_source :: bool
  g_has_suspend_callback :: bool
  g_has_report_callback :: bool
  g_has_attest_callback :: bool
  g_default_posture :: pystr
  g_default_max_staleness :: xfloat
  g_min_refresh_interval :: pyfloat
  g_snapshot :: "snapshot option"
  g_etag :: "pystr option"
  g_refresh_failed :: bool
  g_noop_logged :: bool
  g_last_digest :: "pystr option"
  g_reported :: "pystr list"
  g_calls :: "pyfloat list"
  g_steps :: "(pystr \<times> int list) list"
  g_costs :: "(pystr \<times> xfloat) list"

definition new_gate :: "bool \<Rightarrow> bool \<Rightarrow> bool \<Rightarrow> bool \<Rightarrow> pystr \<Rightarrow> xfloat \<Rightarrow> pyfloat \<Rightarrow> gate" where
  "new_gate has_source on_suspend report attest posture staleness min_refresh =
     \<lparr>g_has_source = has_source, g_has_suspend_callback = on_suspend, g_has_report_callback = report,
      g_has_attest_callback = attest, g_default_posture = posture, g_default_max_staleness = staleness,
      g_min_refresh_interval = min_refresh, g_snapshot = None, g_etag = None, g_refresh_failed = False,
      g_noop_logged = False, g_last_digest = None, g_reported = [], g_calls = [], g_steps = [],
      g_costs = []\<rparr>"

text \<open>\<open>_env_posture\<close> of the stripped, lower-cased variable.\<close>

definition env_posture :: "pystr \<Rightarrow> pystr" where
  "env_posture value = (if value = FAIL_OPEN \<or> value = FAIL_CLOSED then value else FAIL_OPEN)"

definition posture :: "gate \<Rightarrow> pystr" where
  "posture g = (case g_snapshot g of None \<Rightarrow> g_default_posture g | Some s \<Rightarrow> sn_enforcement_posture s)"

definition latch_version :: "gate \<Rightarrow> pystr option" where
  "latch_version g = (case g_snapshot g of None \<Rightarrow> None | Some s \<Rightarrow> sn_mandate_version_id s)"

definition snapshot_age_s :: "pyfloat \<Rightarrow> gate \<Rightarrow> pyfloat option" where
  "snapshot_age_s now g = map_option (age_s now) (g_snapshot g)"

section \<open>Installing a snapshot\<close>

text \<open>The result says whether the suspend callback was called; one that raises changes nothing.\<close>

definition apply_snapshot ::
  "pyconv \<Rightarrow> pyfloat \<Rightarrow> pyval \<Rightarrow> pystr option \<Rightarrow> gate \<Rightarrow> (gate_error + snapshot \<times> bool) \<times> gate" where
  "apply_snapshot cv now payload etag g =
     (case from_payload cv payload now of
        Inl e \<Rightarrow> (Inl e, g)
      | Inr s0 \<Rightarrow>
          (let items = sn_raw s0;
               s1 = (if dget (u ''max_staleness_s'') items = PNone
                     then s0\<lparr>sn_max_staleness_s := g_default_max_staleness g\<rparr> else s0);
               s = (if dget (u ''enforcement_posture'') items = PNone
                    then s1\<lparr>sn_enforcement_posture := g_default_posture g\<rparr> else s1);
               was_suspended = (case g_snapshot g of None \<Rightarrow> False | Some p \<Rightarrow> suspended p)
           in (Inr (s, suspended s \<and> \<not> was_suspended \<and> g_has_suspend_callback g),
               g\<lparr>g_snapshot := Some s, g_etag := etag, g_refresh_failed := False\<rparr>)))"

section \<open>Budgets\<close>

definition info :: "reason \<Rightarrow> pyfloat \<Rightarrow> snapshot \<Rightarrow> action \<Rightarrow> verdict_info" where
  "info r age s a =
     \<lparr>v_reason = r, v_version = sn_mandate_version_id s, v_age = Some age, v_tool = a_tool a,
      v_posture = sn_enforcement_posture s, v_enforcement = Some (sn_mandate_enforcement s),
      v_trajectory = a_trajectory a, v_step = a_step a\<rparr>"

definition move_to_end :: "'k \<Rightarrow> ('k \<times> 'v) list \<Rightarrow> ('k \<times> 'v) list" where
  "move_to_end k d = (case map_of d k of None \<Rightarrow> d | Some v \<Rightarrow> AList.delete k d @ [(k, v)])"

definition evict_oldest :: "'k \<Rightarrow> ('k \<times> 'v) list \<Rightarrow> ('k \<times> 'v) list" where
  "evict_oldest k d = (if length d \<ge> MAX_TRACKED_TRAJECTORIES \<and> map_of d k = None then tl d else d)"

definition mark_trajectory_seen :: "pystr \<Rightarrow> gate \<Rightarrow> gate" where
  "mark_trajectory_seen t g =
     g\<lparr>g_steps := evict_oldest t (move_to_end t (g_steps g)),
       g_costs := evict_oldest t (move_to_end t (g_costs g))\<rparr>"

definition prune_calls :: "pyfloat \<Rightarrow> pyfloat list \<Rightarrow> pyfloat list" where
  "prune_calls now ts = dropWhile (\<lambda>t. t < now - CALL_RATE_WINDOW_S) ts"

definition steps_seen :: "pystr \<Rightarrow> gate \<Rightarrow> int list" where
  "steps_seen t g = (case map_of (g_steps g) t of None \<Rightarrow> [] | Some ss \<Rightarrow> ss)"

definition spent :: "pystr \<Rightarrow> gate \<Rightarrow> xfloat" where
  "spent t g = (case map_of (g_costs g) t of None \<Rightarrow> XFin 0 | Some c \<Rightarrow> c)"

text \<open>
  \<open>_check_budgets\<close>: \<open>Some\<close> reason when a ceiling is reached. Expired call times are dropped when the
  snapshot names a call rate, also if the call is then refused.
\<close>

definition over_rate :: "snapshot \<Rightarrow> gate \<Rightarrow> bool" where
  "over_rate s g = (case sn_max_calls_per_minute s of None \<Rightarrow> False | Some n \<Rightarrow> int (length (g_calls g)) \<ge> n)"

definition over_steps :: "snapshot \<Rightarrow> action \<Rightarrow> gate \<Rightarrow> bool" where
  "over_steps s a g =
     (case (a_trajectory a, sn_max_run_steps s, a_step a) of
        (Some t, Some n, Some i) \<Rightarrow> i \<notin> set (steps_seen t g) \<and> int (length (steps_seen t g)) \<ge> n
      | _ \<Rightarrow> False)"

definition over_cost :: "snapshot \<Rightarrow> action \<Rightarrow> gate \<Rightarrow> bool" where
  "over_cost s a g =
     (case (a_trajectory a, sn_max_run_cost_usd s) of
        (Some t, Some limit) \<Rightarrow> xle limit (spent t g)
      | _ \<Rightarrow> False)"

definition record_step :: "pystr \<Rightarrow> int \<Rightarrow> gate \<Rightarrow> gate" where
  "record_step t i g0 =
     (let g = mark_trajectory_seen t g0;
          seen = steps_seen t g
      in g\<lparr>g_steps := AList.update t (if i \<in> set seen then seen else seen @ [i]) (g_steps g)\<rparr>)"

definition record_call :: "action \<Rightarrow> pyfloat \<Rightarrow> gate \<Rightarrow> gate" where
  "record_call a now g =
     (let g1 = g\<lparr>g_calls := g_calls g @ [now]\<rparr> in
      case (a_trajectory a, a_step a) of
        (Some t, Some i) \<Rightarrow> record_step t i g1
      | _ \<Rightarrow> g1)"

definition check_budgets :: "action \<Rightarrow> snapshot \<Rightarrow> pyfloat \<Rightarrow> pyfloat \<Rightarrow> gate \<Rightarrow> verdict option \<times> gate" where
  "check_budgets a s age now g0 =
     (let g = (if sn_max_calls_per_minute s = None then g0
               else g0\<lparr>g_calls := prune_calls now (g_calls g0)\<rparr>)
      in if over_rate s g then (Some (Deny (info BUDGET_CALL_RATE_EXCEEDED age s a)), g)
         else if over_steps s a g then (Some (Deny (info BUDGET_STEP_LIMIT_EXCEEDED age s a)), g)
         else if over_cost s a g then (Some (Deny (info BUDGET_COST_EXCEEDED age s a)), g)
         else (None, record_call a now g))"

definition within_budget :: "action \<Rightarrow> snapshot \<Rightarrow> pyfloat \<Rightarrow> pyfloat \<Rightarrow> verdict \<Rightarrow> gate \<Rightarrow> verdict \<times> gate" where
  "within_budget a s age now v g =
     (case check_budgets a s age now g of
        (Some denied, g') \<Rightarrow> (denied, g')
      | (None, g') \<Rightarrow> (v, g'))"

definition record_actual_cost :: "pystr \<Rightarrow> xfloat \<Rightarrow> gate \<Rightarrow> gate" where
  "record_actual_cost t cost g0 =
     (let g = mark_trajectory_seen t g0
      in g\<lparr>g_costs := AList.update t (xadd (spent t g) cost) (g_costs g)\<rparr>)"

section \<open>The decision\<close>

definition unevaluable ::
  "gate \<Rightarrow> action \<Rightarrow> reason \<Rightarrow> pyfloat option \<Rightarrow> pystr option \<Rightarrow> pystr option \<Rightarrow> pystr option \<Rightarrow> verdict" where
  "unevaluable g a r age version enforcement given_posture =
     (let effective = or_default given_posture (g_default_posture g);
          i = \<lparr>v_reason = r, v_version = version, v_age = age, v_tool = a_tool a,
               v_posture = effective, v_enforcement = enforcement,
               v_trajectory = a_trajectory a, v_step = a_step a\<rparr>
      in if effective = FAIL_CLOSED then Deny i else Flag i)"

definition noop_verdict :: "gate \<Rightarrow> action \<Rightarrow> verdict" where
  "noop_verdict g a =
     Allow \<lparr>v_reason = ENFORCEMENT_UNCONFIGURED, v_version = None, v_age = None, v_tool = a_tool a,
            v_posture = g_default_posture g, v_enforcement = None,
            v_trajectory = a_trajectory a, v_step = a_step a\<rparr>"

text \<open>The branch of a tool that needs a human: its request id may fail to compute.\<close>

definition decide_approval ::
  "hash \<Rightarrow> action \<Rightarrow> snapshot \<Rightarrow> pyfloat \<Rightarrow> pyfloat \<Rightarrow> gate \<Rightarrow> (gate_error + verdict) \<times> gate" where
  "decide_approval sha a s age now g =
     (case approval_request_id sha (a_tool a) (a_trajectory a) (a_step a) (a_arguments a) of
        Inl e \<Rightarrow> (Inl e, g)
      | Inr rid \<Rightarrow>
          (if approval_decision rid s = Some (u ''approved'') then
             map_prod Inr id (within_budget a s age now (Allow (info APPROVAL_GRANTED age s a)) g)
           else if approval_decision rid s = Some (u ''denied'') then
             (Inr (Deny (info APPROVAL_REFUSED age s a)), g)
           else (Inr (RequireApproval (info APPROVAL_REQUIRED age s a) rid), g)))"

definition decide_scope :: "action \<Rightarrow> snapshot \<Rightarrow> pyfloat \<Rightarrow> pyfloat \<Rightarrow> gate \<Rightarrow> verdict \<times> gate" where
  "decide_scope a s age now g =
     (if permits (a_tool a) s then
        within_budget a s age now
          (Allow (info (if unrestricted s then UNRESTRICTED else IN_SCOPE) age s a)) g
      else if observing s then
        within_budget a s age now (Flag (info OUT_OF_SCOPE_OBSERVED age s a)) g
      else (Deny (info OUT_OF_SCOPE age s a), g))"

definition decide_reassessment :: "action \<Rightarrow> snapshot \<Rightarrow> pyfloat \<Rightarrow> pyfloat \<Rightarrow> gate \<Rightarrow> verdict \<times> gate" where
  "decide_reassessment a s age now g =
     (if sn_enforcement_posture s = FAIL_CLOSED then (Deny (info REASSESSMENT_REQUIRED age s a), g)
      else within_budget a s age now (Flag (info REASSESSMENT_REQUIRED age s a)) g)"

definition decide_snapshot ::
  "hash \<Rightarrow> pyfloat \<Rightarrow> action \<Rightarrow> snapshot \<Rightarrow> gate \<Rightarrow> (gate_error + verdict) \<times> gate" where
  "decide_snapshot sha now a s g =
     (let age = age_s now s in
      if suspended s then (Inr (Deny (info AGENT_SUSPENDED age s a)), g)
      else if sn_reassessment_required s then map_prod Inr id (decide_reassessment a s age now g)
      else if is_stale now s then
        (Inr (unevaluable g a SNAPSHOT_STALE (Some age) (sn_mandate_version_id s)
                (Some (sn_mandate_enforcement s)) (Some (sn_enforcement_posture s))), g)
      else if requires_approval (a_tool a) s then decide_approval sha a s age now g
      else map_prod Inr id (decide_scope a s age now g))"

definition decide :: "hash \<Rightarrow> pyfloat \<Rightarrow> action \<Rightarrow> gate \<Rightarrow> (gate_error + verdict) \<times> gate" where
  "decide sha now a g =
     (if \<not> g_has_source g then (Inr (noop_verdict g a), g\<lparr>g_noop_logged := True\<rparr>)
      else case g_snapshot g of
        None \<Rightarrow> (Inr (unevaluable g a NO_SNAPSHOT None None None None), g)
      | Some s \<Rightarrow> decide_snapshot sha now a s g)"

section \<open>Reports\<close>

text \<open>The result says whether the callback was called; \<open>raises\<close> is how it went.\<close>

definition mark_approval_reported :: "pystr \<Rightarrow> gate \<Rightarrow> gate" where
  "mark_approval_reported rid g =
     (let r = (if rid \<in> set (g_reported g) then g_reported g else g_reported g @ [rid])
      in g\<lparr>g_reported := (if length r > MAX_REPORTED_APPROVAL_REQUESTS then tl r else r)\<rparr>)"

definition report_approval_request :: "bool \<Rightarrow> pystr \<Rightarrow> gate \<Rightarrow> bool \<times> gate" where
  "report_approval_request raises rid g =
     (if rid \<in> set (g_reported g) then (False, g)
      else if \<not> g_has_report_callback g then (False, g)
      else if raises then (True, g)
      else (True, mark_approval_reported rid g))"

text \<open>\<open>digest\<close> is what \<open>capability_digest.py\<close> computed. The result: called, and the return value.\<close>

definition attest_capabilities :: "bool \<Rightarrow> bool \<Rightarrow> pystr \<Rightarrow> gate \<Rightarrow> bool \<times> bool \<times> gate" where
  "attest_capabilities raises force digest g =
     (if \<not> force \<and> g_last_digest g = Some digest then (False, False, g)
      else if \<not> g_has_attest_callback g then (False, False, g)
      else if raises then (True, False, g)
      else (True, True, g\<lparr>g_last_digest := Some digest\<rparr>))"

section \<open>Refreshing\<close>

text \<open>What the mandate source answered: an exception, Coriqo's 304, or a payload.\<close>

datatype fetched = Raised | NotModified "pystr option" | Fetched pyval "pystr option"

definition not_modified :: "pyfloat \<Rightarrow> pystr option \<Rightarrow> gate \<Rightarrow> gate" where
  "not_modified now new_etag g =
     g\<lparr>g_snapshot := map_option (\<lambda>s. s\<lparr>sn_received_at := now\<rparr>) (g_snapshot g),
       g_etag := (case new_etag of None \<Rightarrow> g_etag g | Some t \<Rightarrow> if t = [] then g_etag g else Some t),
       g_refresh_failed := False\<rparr>"

text \<open>\<open>refresh\<close> reads the clock once after the answer and \<open>apply_snapshot\<close> once more.\<close>

definition refresh ::
  "pyconv \<Rightarrow> pyfloat \<Rightarrow> pyfloat \<Rightarrow> fetched \<Rightarrow> gate \<Rightarrow> (gate_error + snapshot option \<times> bool) \<times> gate" where
  "refresh cv now now2 answer g =
     (if \<not> g_has_source g then (Inr (None, False), g)
      else case answer of
        Raised \<Rightarrow> (Inl FetchRaised, g)
      | NotModified etag \<Rightarrow> (let g' = not_modified now etag g in (Inr (g_snapshot g', False), g'))
      | Fetched payload etag \<Rightarrow>
          (case apply_snapshot cv now2 payload etag g of
             (Inl e, g') \<Rightarrow> (Inl e, g')
           | (Inr (s, fired), g') \<Rightarrow> (Inr (Some s, fired), g')))"

definition refresh_safely ::
  "pyconv \<Rightarrow> pyfloat \<Rightarrow> pyfloat \<Rightarrow> fetched \<Rightarrow> gate \<Rightarrow> bool \<times> gate" where
  "refresh_safely cv now now2 answer g =
     (case refresh cv now now2 answer g of
        (Inl _, g') \<Rightarrow> (False, g'\<lparr>g_refresh_failed := True\<rparr>)
      | (Inr _, g') \<Rightarrow> (True, g'))"

definition refresh_interval_s :: "gate \<Rightarrow> xfloat" where
  "refresh_interval_s g =
     (let budget = xhalf (case g_snapshot g of None \<Rightarrow> g_default_max_staleness g
                                             | Some s \<Rightarrow> sn_max_staleness_s s)
      in if xless (XFin (g_min_refresh_interval g)) budget then budget
         else XFin (g_min_refresh_interval g))"

end
