(* ===== verification/Gate_Props.thy ===== *)
theory Gate_Props
  imports Gate Canonical_Doc
begin

text \<open>
  What the mandate gate's verdicts mean: which calls may run, what a suspension, an approval and
  a budget are worth over a whole run of the gate, and where the fail-open paths go around them.
\<close>

section \<open>One decision\<close>

definition pruned :: "snapshot \<Rightarrow> pyfloat \<Rightarrow> gate \<Rightarrow> gate" where
  "pruned s now g = (if sn_max_calls_per_minute s = None then g else g\<lparr>g_calls := prune_calls now (g_calls g)\<rparr>)"

definition exhausted :: "action \<Rightarrow> snapshot \<Rightarrow> pyfloat \<Rightarrow> gate \<Rightarrow> bool" where
  "exhausted a s now g \<longleftrightarrow> over_rate s (pruned s now g) \<or> over_steps s a g \<or> over_cost s a g"

lemma pruned_simps [simp]:
  "g_steps (pruned s now g) = g_steps g" "g_costs (pruned s now g) = g_costs g"
  "g_reported (pruned s now g) = g_reported g" "g_snapshot (pruned s now g) = g_snapshot g"
  "g_has_source (pruned s now g) = g_has_source g" "g_default_posture (pruned s now g) = g_default_posture g"
  "over_steps s a (pruned s now g) = over_steps s a g" "over_cost s a (pruned s now g) = over_cost s a g"
  by (auto simp: pruned_def over_steps_def over_cost_def steps_seen_def spent_def cong: option.case_cong)

lemma within_budget_eq:
  "within_budget a s age now v g =
     (if exhausted a s now g
      then (Deny (info (if over_rate s (pruned s now g) then BUDGET_CALL_RATE_EXCEEDED
                        else if over_steps s a g then BUDGET_STEP_LIMIT_EXCEEDED
                        else BUDGET_COST_EXCEEDED) age s a), pruned s now g)
      else (v, record_call a now (pruned s now g)))"
  by (simp add: within_budget_def check_budgets_def exhausted_def Let_def flip: pruned_def)

text \<open>What Coriqo decided about this call, with a fresh snapshot in hand.\<close>

definition approved :: "hash \<Rightarrow> action \<Rightarrow> snapshot \<Rightarrow> bool" where
  "approved sha a s \<longleftrightarrow>
     (\<exists>rid. approval_request_id sha (a_tool a) (a_trajectory a) (a_step a) (a_arguments a) = Inr rid
        \<and> approval_decision rid s = Some (u ''approved''))"

definition in_mandate :: "hash \<Rightarrow> action \<Rightarrow> snapshot \<Rightarrow> bool" where
  "in_mandate sha a s \<longleftrightarrow>
     (if requires_approval (a_tool a) s then approved sha a s else permits (a_tool a) s \<or> observing s)"

lemma decide_scope_allowed:
  "\<not> requires_approval (a_tool a) s \<Longrightarrow>
   allowed (fst (decide_scope a s age now g)) \<longleftrightarrow> in_mandate sha a s \<and> \<not> exhausted a s now g"
  by (auto simp: decide_scope_def within_budget_eq in_mandate_def)

lemma decide_approval_allowed:
  "requires_approval (a_tool a) s \<Longrightarrow> decide_approval sha a s age now g = (Inr v, g') \<Longrightarrow>
   allowed v \<longleftrightarrow> in_mandate sha a s \<and> \<not> exhausted a s now g"
  by (auto simp: decide_approval_def within_budget_eq in_mandate_def approved_def
      split: sum.splits if_splits)

text \<open>
  C11: Which calls a fail-closed gate lets run, exactly: the agent is not suspended and not due for
  reassessment, the snapshot is fresh, the tool is in scope (or the scope is only observed), or
  was approved by a human for this very call when it is on the approval list; and no budget of
  the call is used up. With no snapshot at all, nothing runs.
\<close>

theorem fail_closed_allows_iff:
  assumes "g_has_source g" "posture g = FAIL_CLOSED" "decide sha now a g = (Inr v, g')"
  shows "allowed v \<longleftrightarrow>
    (\<exists>s. g_snapshot g = Some s \<and> \<not> suspended s \<and> \<not> sn_reassessment_required s \<and> \<not> is_stale now s
       \<and> in_mandate sha a s \<and> \<not> exhausted a s now g)"
proof (cases "g_snapshot g")
  case None
  then show ?thesis using assms
    by (auto simp: decide_def unevaluable_def posture_def or_default_def Let_def)
next
  case (Some s)
  have closed: "or_default (Some FAIL_CLOSED) p = FAIL_CLOSED" for p by (simp add: or_default_def FAIL_CLOSED_def)
  have d: "decide_snapshot sha now a s g = (Inr v, g')" using assms(1,3) Some by (simp add: decide_def)
  consider "suspended s \<or> sn_reassessment_required s \<or> is_stale now s"
    | "\<not> suspended s" "\<not> sn_reassessment_required s" "\<not> is_stale now s" "requires_approval (a_tool a) s"
    | "\<not> suspended s" "\<not> sn_reassessment_required s" "\<not> is_stale now s" "\<not> requires_approval (a_tool a) s"
    by blast
  then show ?thesis
  proof cases
    case 1
    then show ?thesis using d assms(2) Some
      by (auto simp: decide_snapshot_def decide_reassessment_def unevaluable_def posture_def closed Let_def
          split: if_splits)
  next
    case 2
    then show ?thesis using d Some decide_approval_allowed [of a s sha "age_s now s" now g v g']
      by (simp add: decide_snapshot_def)
  next
    case 3
    then have "v = fst (decide_scope a s (age_s now s) now g)"
      using d by (simp add: decide_snapshot_def map_prod_def split: prod.splits)
    then show ?thesis using 3 Some decide_scope_allowed [OF 3(4)] by simp
  qed
qed

lemma decide_scope_refused:
  "decide_scope a s age now g = (v, g') \<Longrightarrow> \<not> allowed v \<Longrightarrow> g' = g \<or> g' = pruned s now g"
  by (auto simp: decide_scope_def within_budget_eq split: if_splits)

lemma decide_approval_refused:
  "decide_approval sha a s age now g = (r, g') \<Longrightarrow> (case r of Inr v \<Rightarrow> \<not> allowed v | Inl _ \<Rightarrow> True) \<Longrightarrow>
   g' = g \<or> g' = pruned s now g"
  by (auto simp: decide_approval_def within_budget_eq split: if_splits sum.splits)

lemma decide_reassessment_refused:
  "decide_reassessment a s age now g = (v, g') \<Longrightarrow> \<not> allowed v \<Longrightarrow> g' = g \<or> g' = pruned s now g"
  by (auto simp: decide_reassessment_def within_budget_eq split: if_splits)

lemma decide_cases:
  assumes "decide sha now a g = (r, g')" "g_has_source g" "g_snapshot g = Some s" "\<not> suspended s"
  obtains "r = Inr (unevaluable g a SNAPSHOT_STALE (Some (age_s now s)) (sn_mandate_version_id s)
      (Some (sn_mandate_enforcement s)) (Some (sn_enforcement_posture s)))" "g' = g" "is_stale now s"
      "\<not> sn_reassessment_required s"
    | v where "r = Inr v" "decide_reassessment a s (age_s now s) now g = (v, g')" "sn_reassessment_required s"
    | "decide_approval sha a s (age_s now s) now g = (r, g')" "requires_approval (a_tool a) s"
      "\<not> is_stale now s" "\<not> sn_reassessment_required s"
    | v where "r = Inr v" "decide_scope a s (age_s now s) now g = (v, g')" "\<not> is_stale now s"
      "\<not> sn_reassessment_required s" "\<not> requires_approval (a_tool a) s"
proof -
  have d: "decide_snapshot sha now a s g = (r, g')" using assms(1-3) by (simp add: decide_def)
  consider "sn_reassessment_required s"
    | "\<not> sn_reassessment_required s" "is_stale now s"
    | "\<not> sn_reassessment_required s" "\<not> is_stale now s" "requires_approval (a_tool a) s"
    | "\<not> sn_reassessment_required s" "\<not> is_stale now s" "\<not> requires_approval (a_tool a) s"
    by blast
  then show thesis
  proof cases
    case 1
    show thesis
    proof (cases "decide_reassessment a s (age_s now s) now g")
      case (Pair v h)
      show thesis by (rule that(2) [of v]) (use d 1 assms(4) Pair in \<open>simp_all add: decide_snapshot_def Let_def\<close>)
    qed
  next
    case 2
    show thesis by (rule that(1)) (use d 2 assms(4) in \<open>auto simp: decide_snapshot_def Let_def\<close>)
  next
    case 3
    show thesis by (rule that(3)) (use d 3 assms(4) in \<open>simp_all add: decide_snapshot_def Let_def\<close>)
  next
    case 4
    show thesis
    proof (cases "decide_scope a s (age_s now s) now g")
      case (Pair v h)
      show thesis by (rule that(4) [of v]) (use d 4 assms(4) Pair in \<open>simp_all add: decide_snapshot_def Let_def\<close>)
    qed
  qed
qed

lemma decide_suspended:
  "g_has_source g \<Longrightarrow> g_snapshot g = Some s \<Longrightarrow> suspended s \<Longrightarrow>
   decide sha now a g = (Inr (Deny (info AGENT_SUSPENDED (age_s now s) s a)), g)"
  by (simp add: decide_def decide_snapshot_def)

lemma decide_no_snapshot:
  "g_has_source g \<Longrightarrow> g_snapshot g = None \<Longrightarrow>
   decide sha now a g = (Inr (unevaluable g a NO_SNAPSHOT None None None None), g)"
  by (simp add: decide_def)

definition refused :: "gate_error + verdict \<Rightarrow> bool" where
  "refused r \<longleftrightarrow> (case r of Inr v \<Rightarrow> \<not> allowed v | Inl _ \<Rightarrow> True)"

text \<open>
  A call that is refused, parked for approval, or whose decision raises uses up nothing: the steps and
  costs of every trajectory stay as they are, and of the call times only those that have left the
  window are dropped. Only the call that runs is charged.
\<close>

theorem refused_calls_consume_nothing:
  assumes "decide sha now a g = (r, g')" "refused r"
  shows "g_steps g' = g_steps g \<and> g_costs g' = g_costs g
    \<and> (g_calls g' = g_calls g \<or> g_calls g' = prune_calls now (g_calls g))"
proof -
  have noop: "g' = g\<lparr>g_noop_logged := True\<rparr>" if "\<not> g_has_source g" using assms(1) that by (simp add: decide_def)
  have "g' = g \<or> (\<exists>s. g' = pruned s now g)" if "g_has_source g"
  proof (cases "g_snapshot g")
    case None
    then show ?thesis using assms(1) that by (simp add: decide_no_snapshot)
  next
    case (Some s)
    show ?thesis
    proof (cases "suspended s")
      case True
      then show ?thesis using assms(1) that Some by (simp add: decide_suspended)
    next
      case False
      show ?thesis using assms(1) that Some False
        by (cases rule: decide_cases)
          (use assms(2) in \<open>auto simp: refused_def dest: decide_scope_refused decide_approval_refused
             decide_reassessment_refused\<close>)
    qed
  qed
  then show ?thesis using noop by (cases "g_has_source g") (auto simp: pruned_def)
qed

section \<open>What goes around the approval list\<close>

text \<open>
  Under fail-open, a snapshot that is stale, or that asks for reassessment while a budget is
  left, lets a tool on the approval list run without any approval, also one a human has refused:
  the fork on the posture comes before the list is looked at.
\<close>

theorem fail_open_runs_unapproved_tool:
  assumes "g_has_source g" "g_snapshot g = Some s" "\<not> suspended s" "sn_enforcement_posture s = FAIL_OPEN"
    and "is_stale now s \<and> \<not> sn_reassessment_required s
      \<or> sn_reassessment_required s \<and> \<not> exhausted a s now g"
  shows "\<exists>i g'. decide sha now a g = (Inr (Flag i), g') \<and> v_tool i = a_tool a
    \<and> (is_stale now s \<and> \<not> sn_reassessment_required s \<longrightarrow> g' = g)"
  using assms
  by (auto simp: decide_def decide_snapshot_def decide_reassessment_def within_budget_eq unevaluable_def
      info_def or_default_def FAIL_OPEN_def FAIL_CLOSED_def Let_def)

section \<open>Approval request ids\<close>

definition args_ok :: "action \<Rightarrow> bool" where
  "args_ok a \<longleftrightarrow> (case a_arguments a of None \<Rightarrow> True | Some items \<Rightarrow> pyval_ok (PDict items))"

definition args_doc :: "action \<Rightarrow> doc" where
  "args_doc a = doc_of (PDict (case a_arguments a of None \<Rightarrow> [] | Some items \<Rightarrow> items))"

definition key_of_action :: "action \<Rightarrow> gate_error + pystr" where
  "key_of_action a = approval_key (a_tool a) (a_trajectory a) (a_step a) (a_arguments a)"

definition text_of :: "pystr option \<Rightarrow> pystr" where
  "text_of t = (case t of None \<Rightarrow> [] | Some s \<Rightarrow> s)"

definition no_colon :: "action \<Rightarrow> bool" where
  "no_colon a \<longleftrightarrow> 58 \<notin> set (a_tool a) \<and> 58 \<notin> set (text_of (a_trajectory a))"

lemma split_colon:
  "58 \<notin> set s \<Longrightarrow> 58 \<notin> set t \<Longrightarrow> s @ 58 # x = t @ 58 # y \<longleftrightarrow> s = t \<and> x = (y::nat list)"
proof (induction s arbitrary: t)
  case Nil
  then show ?case by (cases t) auto
next
  case (Cons c s)
  then show ?case by (cases t) auto
qed

definition step_text :: "int option \<Rightarrow> pystr" where
  "step_text i = (case i of None \<Rightarrow> [] | Some j \<Rightarrow> int_str j)"

lemma step_text: "58 \<notin> set (step_text i)" "step_text i = step_text j \<longleftrightarrow> i = j"
  by (auto simp: step_text_def int_str_nonempty [symmetric] dest: int_str_chars int_str_inject
      split: option.splits)

definition args_text :: "action \<Rightarrow> gate_error + pystr" where
  "args_text a =
     (case a_arguments a of
        None \<Rightarrow> Inr []
      | Some items \<Rightarrow>
          if items = [] then Inr []
          else (case canonical_dumps (PDict items) of
                  Inl e \<Rightarrow> Inl (ArgumentsNotCanonical e) | Inr t \<Rightarrow> Inr t))"

lemma key_of_action_eq:
  "key_of_action a =
     rmap (\<lambda>x. a_tool a @ 58 # text_of (a_trajectory a) @ 58 # step_text (a_step a) @ 58 # x) (args_text a)"
  by (simp add: key_of_action_def approval_key_def args_text_def text_of_def step_text_def u_def)

lemma canonical_text:
  assumes "pyval_ok v" "canonical_dumps v = Inr t"
  shows "t = doc_text (doc_of v)" "doc_ok (doc_of v)"
  using assms serialize_refines_aux [OF assms(1)] by (auto simp: canonical_dumps_def)

lemma dict_doc_nonempty: "items \<noteq> [] \<Longrightarrow> doc_of (PDict items) \<noteq> DObj []"
proof -
  have "sort_key f (map g items) = [] \<longleftrightarrow> items = []" for f :: "pystr \<times> doc \<Rightarrow> nat list" and g
    by (metis length_0_conv length_map length_sort)
  then show "items \<noteq> [] \<Longrightarrow> doc_of (PDict items) \<noteq> DObj []" by simp
qed

lemma args_text_doc:
  assumes "args_ok a" "args_text a = Inr t"
  shows "args_doc a = DObj [] \<and> t = [] \<or> args_doc a \<noteq> DObj [] \<and> t = doc_text (args_doc a) \<and> doc_ok (args_doc a)"
proof (cases "a_arguments a")
  case None
  then show ?thesis using assms by (simp add: args_text_def args_doc_def)
next
  case (Some items)
  show ?thesis
  proof (cases "items = []")
    case True
    then show ?thesis using assms Some by (simp add: args_text_def args_doc_def)
  next
    case False
    then show ?thesis using assms Some dict_doc_nonempty [OF False]
        canonical_text [of "PDict items" t]
      by (auto simp: args_text_def args_doc_def args_ok_def split: sum.splits)
  qed
qed

definition action_ok :: "action \<Rightarrow> bool" where
  "action_ok a \<longleftrightarrow> args_ok a \<and> no_colon a \<and> str_ok (a_tool a) \<and> str_ok (text_of (a_trajectory a))"

definition same_call :: "action \<Rightarrow> action \<Rightarrow> bool" where
  "same_call a b \<longleftrightarrow> a_tool a = a_tool b \<and> text_of (a_trajectory a) = text_of (a_trajectory b)
     \<and> a_step a = a_step b \<and> args_doc a = args_doc b"

lemma args_text_eq:
  assumes "args_ok a" "args_ok b" "args_text a = Inr t" "args_text b = Inr t"
  shows "args_doc a = args_doc b"
proof -
  have ne: "doc_text d \<noteq> []" if "doc_ok d" for d using doc_text_tag [OF that] by auto
  show ?thesis
    using args_text_doc [OF assms(1,3)] args_text_doc [OF assms(2,4)] ne [of "args_doc a"] ne [of "args_doc b"]
      doc_text_inject [of "args_doc a" "args_doc b"] by auto
qed

lemma same_key_same_call:
  assumes "action_ok a" "action_ok b" "key_of_action a = Inr k" "key_of_action b = Inr k"
  shows "same_call a b"
proof -
  obtain s t where args: "args_text a = Inr s" "args_text b = Inr t"
    and eq: "a_tool a @ 58 # text_of (a_trajectory a) @ 58 # step_text (a_step a) @ 58 # s
           = a_tool b @ 58 # text_of (a_trajectory b) @ 58 # step_text (a_step b) @ 58 # t"
    using assms(3,4) by (auto simp: key_of_action_eq rmap_Inr_iff)
  have "a_tool a = a_tool b" "text_of (a_trajectory a) = text_of (a_trajectory b)"
      "step_text (a_step a) = step_text (a_step b)" "s = t"
    using eq assms(1,2) by (auto simp: split_colon action_ok_def no_colon_def step_text(1))
  then show ?thesis
    using args_text_eq [of a b t] args assms(1,2) by (simp add: same_call_def step_text(2) action_ok_def)
qed

lemma str_ok_args_text:
  assumes "args_ok a" "args_text a = Inr t"
  shows "str_ok t"
proof (cases "a_arguments a")
  case None
  then show ?thesis using assms by (simp add: args_text_def)
next
  case (Some items)
  then show ?thesis
    using assms canonical_text [of "PDict items" t] str_ok_doc_text [of "doc_of (PDict items)"]
      doc_str_ok_of [of "PDict items"]
    by (auto simp: args_text_def args_ok_def split: sum.splits if_splits)
qed

lemma str_ok_key:
  assumes "action_ok a" "key_of_action a = Inr k"
  shows "str_ok k"
proof -
  have small: "str_ok (step_text (a_step a))"
    by (fastforce simp: str_ok_def list_all_iff step_text_def dest: int_str_chars split: option.splits)
  show ?thesis
    using assms small str_ok_args_text [of a]
    by (auto simp: key_of_action_eq rmap_Inr_iff action_ok_def)
qed

lemma take_hex: "take (2 * n) (hex bs) = hex (take n bs)"
proof (induction bs arbitrary: n)
  case Nil
  then show ?case by (simp add: hex_def)
next
  case (Cons b bs)
  then show ?case by (cases n) (simp_all add: hex_def hex_byte_def)
qed

definition request_id_of :: "hash \<Rightarrow> action \<Rightarrow> gate_error + pystr" where
  "request_id_of sha a = approval_request_id sha (a_tool a) (a_trajectory a) (a_step a) (a_arguments a)"

text \<open>
  An approval is for one call. Two calls whose tool and trajectory names hold no colon get the
  same request id only if they agree in tool, trajectory, step and canonical arguments (a missing
  trajectory counts as an empty one, missing arguments as none), or the first 16 bytes of the
  two SHA-256 digests collide.
\<close>

theorem approval_id_identifies_call:
  assumes "action_ok a" "action_ok b" "key_of_action a = Inr k" "key_of_action b = Inr k'"
    and "request_id_of sha a = Inr rid" "request_id_of sha b = Inr rid"
  shows "same_call a b \<or> collision_on (\<lambda>x. take 16 (sha x)) {utf8 k, utf8 k'}"
proof -
  have id_of: "request_id_of sha c = Inr rid \<Longrightarrow> key_of_action c = Inr x \<Longrightarrow> rid = hex (take 16 (sha (utf8 x)))"
    for c x
    using take_hex [of 16]
    by (auto simp: request_id_of_def approval_request_id_def key_of_action_def utf8_encode_def rmap_Inr_iff
        split: if_splits)
  have "hex (take 16 (sha (utf8 k))) = hex (take 16 (sha (utf8 k')))"
    using id_of [OF assms(5,3)] id_of [OF assms(6,4)] by simp
  then have eq: "take 16 (sha (utf8 k)) = take 16 (sha (utf8 k'))" by (rule hex_inject)
  show ?thesis
  proof (cases "utf8 k = utf8 k'")
    case True
    then have "k = k'" using utf8_inject str_ok_key assms(1-4) by blast
    then show ?thesis using same_key_same_call assms(1-4) by blast
  next
    case False
    then show ?thesis using eq by (auto simp: collision_on_def)
  qed
qed

text \<open>
  With a colon in a name the separator is ambiguous: for every pair of tools where one name
  extends the other by a colon and more, there are two different calls, on the two different
  tools, with one request id; approving the one approves the other.
\<close>

theorem approval_id_ambiguous_colon:
  assumes "a_tool a = t @ 58 # x" "a_trajectory a = Some y"
    and "b = a\<lparr>a_tool := t, a_trajectory := Some (x @ 58 # y)\<rparr>"
  shows "request_id_of sha a = request_id_of sha b \<and> a_tool a \<noteq> a_tool b
    \<and> (approved sha a s \<longleftrightarrow> approved sha b s)"
proof -
  have "request_id_of sha a = request_id_of sha b"
    using assms by (simp add: request_id_of_def approval_request_id_def approval_key_def u_def)
  then show ?thesis using assms by (auto simp: approved_def request_id_of_def)
qed

end
