(* ===== verification/Gate_Run.thy ===== *)
theory Gate_Run
  imports Gate_Props
begin

text \<open>
  Whole runs of a mandate gate: decisions, costs, refreshes and reports in any order, with the
  charges they make. The budgets hold over every run, and a suspension holds until another
  snapshot is installed.
\<close>

section \<open>Runs\<close>

datatype charge = Ran pyfloat action | Paid pystr xfloat

text \<open>A call that runs is metered unless it ran for want of a mandate to evaluate.\<close>

definition metered :: "verdict \<Rightarrow> bool" where
  "metered v \<longleftrightarrow> allowed v \<and> v_reason (info_of v) \<notin> {SNAPSHOT_STALE, NO_SNAPSHOT, ENFORCEMENT_UNCONFIGURED}"

definition charges :: "pyfloat \<Rightarrow> action \<Rightarrow> gate_error + verdict \<Rightarrow> charge list" where
  "charges t a r = (case r of Inr v \<Rightarrow> if metered v then [Ran t a] else [] | Inl _ \<Rightarrow> [])"

text \<open>One operation at time \<open>t\<close>; the flag says whether it installed a snapshot.\<close>

inductive gate_step ::
  "hash \<Rightarrow> pyconv \<Rightarrow> pyfloat \<Rightarrow> gate \<Rightarrow> charge list \<Rightarrow> bool \<Rightarrow> gate \<Rightarrow> bool" for sha cv where
  step_decide: "decide sha t a g = (r, g') \<Longrightarrow> gate_step sha cv t g (charges t a r) False g'"
| step_cost: "gate_step sha cv t g [Paid tr c] False (record_actual_cost tr c g)"
| step_install: "apply_snapshot cv t payload etag g = (Inr x, g') \<Longrightarrow> gate_step sha cv t g [] True g'"
| step_refresh: "refresh_safely cv t t2 answer g = (ok, g') \<Longrightarrow>
    gate_step sha cv t g [] (ok \<and> (\<exists>p e. answer = Fetched p e)) g'"
| step_report: "report_approval_request raises rid g = (called, g') \<Longrightarrow> gate_step sha cv t g [] False g'"
| step_attest: "attest_capabilities raises force d g = (called, x, g') \<Longrightarrow> gate_step sha cv t g [] False g'"

inductive gate_run :: "hash \<Rightarrow> pyconv \<Rightarrow> gate \<Rightarrow> charge list \<Rightarrow> pyfloat \<Rightarrow> bool" for sha cv where
  run_start: "gate_run sha cv (new_gate src sus rep att p st mi) [] t"
| run_wait: "gate_run sha cv g h t \<Longrightarrow> t \<le> t' \<Longrightarrow> gate_run sha cv g h t'"
| run_step: "gate_run sha cv g h t \<Longrightarrow> gate_step sha cv t g cs inst g' \<Longrightarrow> gate_run sha cv g' (h @ cs) t"

section \<open>What a step does to the state\<close>

text \<open>What \<open>decide\<close> leaves alone, and the call it charges.\<close>

definition same_mandate :: "gate \<Rightarrow> gate \<Rightarrow> bool" where
  "same_mandate g g' \<longleftrightarrow> g_snapshot g' = g_snapshot g \<and> g_has_source g' = g_has_source g
     \<and> g_default_posture g' = g_default_posture g \<and> g_reported g' = g_reported g"

lemma record_call_simps [simp]:
  "g_snapshot (record_call a t g) = g_snapshot g" "g_has_source (record_call a t g) = g_has_source g"
  "g_default_posture (record_call a t g) = g_default_posture g" "g_reported (record_call a t g) = g_reported g"
  "g_calls (record_call a t g) = g_calls g @ [t]"
  by (auto simp: record_call_def record_step_def mark_trajectory_seen_def Let_def split: option.splits)

lemma same_mandate_simps [simp]:
  "same_mandate g g" "same_mandate g (pruned s t g)" "same_mandate g (record_call a t (pruned s t g))"
  "same_mandate g (g\<lparr>g_noop_logged := b\<rparr>)"
  by (auto simp: same_mandate_def pruned_def)

definition idle :: "pyfloat \<Rightarrow> gate \<Rightarrow> gate \<Rightarrow> bool" where
  "idle t g g' \<longleftrightarrow> g_steps g' = g_steps g \<and> g_costs g' = g_costs g
     \<and> (g_calls g' = g_calls g \<or> g_calls g' = prune_calls t (g_calls g))"

lemma idle_simps [simp]: "idle t g g" "idle t g (pruned s t g)" "idle t g (g\<lparr>g_noop_logged := b\<rparr>)"
  by (auto simp: idle_def pruned_def)

definition charged :: "pyfloat \<Rightarrow> action \<Rightarrow> gate \<Rightarrow> gate \<Rightarrow> bool" where
  "charged t a g g' \<longleftrightarrow>
     (\<exists>s. g_snapshot g = Some s \<and> \<not> exhausted a s t g \<and> g' = record_call a t (pruned s t g))"

lemma within_budget_effect:
  assumes "within_budget a s age t v g = (v', g')" "g_snapshot g = Some s" "metered v"
  shows "same_mandate g g' \<and> (if metered v' then charged t a g g' else idle t g g')"
  using assms by (auto simp: within_budget_eq charged_def metered_def split: if_splits)

lemma metered_simps [simp]:
  "\<not> metered (Deny i)" "\<not> metered (RequireApproval i rid)"
  "metered (Allow i) \<longleftrightarrow> v_reason i \<notin> {SNAPSHOT_STALE, NO_SNAPSHOT, ENFORCEMENT_UNCONFIGURED}"
  "metered (Flag i) \<longleftrightarrow> v_reason i \<notin> {SNAPSHOT_STALE, NO_SNAPSHOT, ENFORCEMENT_UNCONFIGURED}"
  by (auto simp: metered_def)

lemma v_reason_info [simp]: "v_reason (info r age s a) = r"
  by (simp add: info_def)

lemma unevaluable_unmetered:
  "r \<in> {SNAPSHOT_STALE, NO_SNAPSHOT} \<Longrightarrow> \<not> metered (unevaluable g a r x y z p)"
  by (auto simp: unevaluable_def Let_def)

definition is_metered :: "gate_error + verdict \<Rightarrow> bool" where
  "is_metered r \<longleftrightarrow> (case r of Inr v \<Rightarrow> metered v | Inl _ \<Rightarrow> False)"

lemma decide_scope_effect:
  "decide_scope a s age t g = (v, g') \<Longrightarrow> g_snapshot g = Some s \<Longrightarrow>
   same_mandate g g' \<and> (if metered v then charged t a g g' else idle t g g')"
  by (auto simp: decide_scope_def split: if_splits dest: within_budget_effect)

lemma decide_reassessment_effect:
  "decide_reassessment a s age t g = (v, g') \<Longrightarrow> g_snapshot g = Some s \<Longrightarrow>
   same_mandate g g' \<and> (if metered v then charged t a g g' else idle t g g')"
  by (auto simp: decide_reassessment_def split: if_splits dest: within_budget_effect)

lemma decide_approval_effect:
  assumes "decide_approval sha a s age t g = (r, g')" "g_snapshot g = Some s"
  shows "same_mandate g g' \<and> (if is_metered r then charged t a g g' else idle t g g')"
proof (cases "request_id_of sha a")
  case (Inl e)
  then show ?thesis using assms by (simp add: decide_approval_def is_metered_def flip: request_id_of_def) auto
next
  case (Inr rid)
  show ?thesis
  proof (cases "approval_decision rid s = Some (u ''approved'')")
    case True
    obtain v g2 where w: "within_budget a s age t (Allow (info APPROVAL_GRANTED age s a)) g = (v, g2)"
      by (cases "within_budget a s age t (Allow (info APPROVAL_GRANTED age s a)) g")
    then have "r = Inr v" "g' = g2"
      using assms(1) Inr True by (auto simp: decide_approval_def request_id_of_def)
    then show ?thesis using within_budget_effect [OF w assms(2)] by (simp add: is_metered_def)
  next
    case False
    then show ?thesis using assms Inr
      by (auto simp: decide_approval_def request_id_of_def is_metered_def split: if_splits)
  qed
qed

lemma decide_effect:
  assumes "decide sha t a g = (r, g')"
  shows "same_mandate g g' \<and> (if is_metered r then charged t a g g' else idle t g g')"
proof -
  consider "\<not> g_has_source g" | "g_has_source g" "g_snapshot g = None"
    | s where "g_has_source g" "g_snapshot g = Some s" "suspended s"
    | s where "g_has_source g" "g_snapshot g = Some s" "\<not> suspended s" by (cases "g_snapshot g") auto
  then show ?thesis
  proof cases
    case 1
    then show ?thesis using assms by (auto simp: decide_def noop_verdict_def is_metered_def)
  next
    case 2
    then show ?thesis using assms unevaluable_unmetered
      by (auto simp: decide_no_snapshot is_metered_def)
  next
    case 3
    then show ?thesis using assms by (auto simp: decide_suspended is_metered_def)
  next
    case 4
    from assms 4(1,2,3) show ?thesis
    proof (cases rule: decide_cases)
      case 1
      then show ?thesis by (simp add: is_metered_def unevaluable_unmetered)
    next
      case (2 v)
      then show ?thesis using decide_reassessment_effect 4(2) by (simp add: is_metered_def)
    next
      case 3
      then show ?thesis using decide_approval_effect 4(2) by blast
    next
      case (4 v)
      then show ?thesis using decide_scope_effect \<open>g_snapshot g = Some s\<close> by (simp add: is_metered_def)
    qed
  qed
qed

text \<open>The other operations leave the budgets alone.\<close>

definition same_budgets :: "gate \<Rightarrow> gate \<Rightarrow> bool" where
  "same_budgets g g' \<longleftrightarrow> g_steps g' = g_steps g \<and> g_costs g' = g_costs g \<and> g_calls g' = g_calls g"

lemma apply_snapshot_budgets: "apply_snapshot cv t p e g = (r, g') \<Longrightarrow> same_budgets g g' \<and> g_reported g' = g_reported g"
  by (auto simp: apply_snapshot_def same_budgets_def Let_def split: sum.splits)

lemma refresh_budgets:
  assumes "refresh_safely cv t t2 answer g = (ok, g')"
  shows "same_budgets g g' \<and> g_reported g' = g_reported g"
proof (cases answer)
  case (Fetched p e)
  obtain r h where a: "apply_snapshot cv t2 p e g = (r, h)" by (cases "apply_snapshot cv t2 p e g")
  then show ?thesis using assms Fetched apply_snapshot_budgets [OF a]
    by (cases r) (auto simp: refresh_safely_def refresh_def same_budgets_def split: if_splits)
qed (use assms in \<open>auto simp: refresh_safely_def refresh_def not_modified_def same_budgets_def Let_def split: if_splits\<close>)

section \<open>The call rate\<close>

fun times :: "charge list \<Rightarrow> pyfloat list" where
  "times [] = []" | "times (Ran t a # h) = t # times h" | "times (Paid tr c # h) = times h"

lemma times_append [simp]: "times (h @ h') = times h @ times h'"
  by (induction h rule: times.induct) auto

text \<open>The call times kept are the last ones of the history, none still inside the window is missing.\<close>

definition calls_ok :: "gate \<Rightarrow> charge list \<Rightarrow> pyfloat \<Rightarrow> bool" where
  "calls_ok g h t \<longleftrightarrow> sorted (times h) \<and> (\<forall>x\<in>set (times h). x \<le> t)
     \<and> (\<exists>old. times h = old @ g_calls g \<and> (\<forall>x\<in>set old. x < t - CALL_RATE_WINDOW_S))"

lemma prune_split: "\<exists>old. ts = old @ prune_calls t ts \<and> (\<forall>x\<in>set old. x < t - CALL_RATE_WINDOW_S)"
  unfolding prune_calls_def
  by (rule exI [of _ "takeWhile (\<lambda>x. x < t - CALL_RATE_WINDOW_S) ts"]) (auto dest: set_takeWhileD)

lemma calls_ok_prune:
  assumes "calls_ok g h t" "g_calls g' = g_calls g \<or> g_calls g' = prune_calls t (g_calls g)"
  shows "calls_ok g' h t"
proof -
  obtain old where old: "times h = old @ g_calls g" "\<forall>x\<in>set old. x < t - CALL_RATE_WINDOW_S"
    using assms(1) by (auto simp: calls_ok_def)
  obtain more where more: "g_calls g = more @ prune_calls t (g_calls g)"
      "\<forall>x\<in>set more. x < t - CALL_RATE_WINDOW_S"
    using prune_split by blast
  have "times h = (old @ more) @ prune_calls t (g_calls g)" using old(1) more(1) by simp
  moreover have "\<forall>x\<in>set (old @ more). x < t - CALL_RATE_WINDOW_S" using old(2) more(2) by auto
  ultimately show ?thesis using assms old unfolding calls_ok_def by metis
qed

lemma pruned_calls: "g_calls (pruned s t g) = g_calls g \<or> g_calls (pruned s t g) = prune_calls t (g_calls g)"
  by (simp add: pruned_def)

lemma calls_ok_charged: "calls_ok g h t \<Longrightarrow> charged t a g g' \<Longrightarrow> calls_ok g' (h @ [Ran t a]) t"
  using calls_ok_prune [OF _ pruned_calls, of g h t]
  by (fastforce simp: charged_def calls_ok_def sorted_append)

lemma calls_ok_step:
  assumes "gate_step sha cv t g cs inst g'" "calls_ok g h t"
  shows "calls_ok g' (h @ cs) t"
  using assms
proof (cases rule: gate_step.cases)
  case (step_decide a r)
  show ?thesis
  proof (cases "is_metered r")
    case True
    then have "cs = [Ran t a]" using step_decide(1) by (cases r) (simp_all add: charges_def is_metered_def)
    then show ?thesis using calls_ok_charged [OF assms(2)] decide_effect [OF step_decide(3)] True by simp
  next
    case False
    then have "cs = []" using step_decide(1) by (cases r) (simp_all add: charges_def is_metered_def)
    then show ?thesis using calls_ok_prune [OF assms(2)] decide_effect [OF step_decide(3)] False by (simp add: idle_def)
  qed
next
  case (step_cost tr c)
  then show ?thesis using assms(2)
    by (simp add: calls_ok_def record_actual_cost_def mark_trajectory_seen_def Let_def)
next
  case (step_install payload etag x)
  then show ?thesis using assms(2) apply_snapshot_budgets by (fastforce simp: same_budgets_def calls_ok_def)
next
  case (step_refresh t2 answer ok)
  then show ?thesis using assms(2) refresh_budgets by (fastforce simp: same_budgets_def calls_ok_def)
qed (auto simp: calls_ok_def report_approval_request_def mark_approval_reported_def attest_capabilities_def
    Let_def split: if_splits)

lemma gate_run_calls: "gate_run sha cv g h t \<Longrightarrow> calls_ok g h t"
proof (induction rule: gate_run.induct)
  case (run_start src sus rep att p st mi t)
  show ?case by (simp add: calls_ok_def new_gate_def)
next
  case (run_wait g h t t')
  then show ?case by (force simp: calls_ok_def)
next
  case (run_step g h t cs inst g')
  then show ?case by (blast intro: calls_ok_step)
qed

text \<open>
  The call-rate ceiling holds over every run of the gate, whatever else happens to it: when a call is
  metered while the snapshot allows \<open>n\<close> calls a minute, fewer than \<open>n\<close> calls were metered in the
  sixty seconds before it, also those decided under earlier snapshots.
\<close>

theorem call_rate_respected:
  assumes "gate_run sha cv g h t" "decide sha t a g = (Inr v, g')" "metered v"
    and "g_snapshot g = Some s" "sn_max_calls_per_minute s = Some n"
  shows "int (length (filter (\<lambda>x. t - CALL_RATE_WINDOW_S \<le> x) (times h))) < n"
proof -
  let ?g = "pruned s t g"
  have ok: "calls_ok ?g h t" by (rule calls_ok_prune [OF gate_run_calls [OF assms(1)] pruned_calls])
  then obtain old where old: "times h = old @ g_calls ?g" "\<forall>x\<in>set old. x < t - CALL_RATE_WINDOW_S"
    by (auto simp: calls_ok_def)
  have "filter (\<lambda>x. t - CALL_RATE_WINDOW_S \<le> x) old = []" using old(2) by (auto simp: filter_empty_conv)
  then have "length (filter (\<lambda>x. t - CALL_RATE_WINDOW_S \<le> x) (times h)) \<le> length (g_calls ?g)"
    using old(1) by simp
  moreover have "charged t a g g'" using decide_effect [OF assms(2)] assms(3) by (simp add: is_metered_def)
  then have "\<not> over_rate s ?g" using assms(4) by (simp add: charged_def exhausted_def)
  ultimately show ?thesis using assms(5) by (simp add: over_rate_def)
qed

section \<open>Steps and costs of a trajectory\<close>

text \<open>The ordered dictionaries: reordering and evicting.\<close>

lemma map_of_move_to_end [simp]: "map_of (move_to_end k d) = map_of d"
  by (auto simp: move_to_end_def delete_conv map_add_def fun_eq_iff split: option.splits)

lemma keys_map_of: "fst ` set d = dom (map_of d)"
  by (simp add: dom_map_of_conv_image_fst)

lemma keys_move_to_end [simp]: "fst ` set (move_to_end k d) = fst ` set d"
  by (simp add: keys_map_of)

lemma distinct_move_to_end [simp]: "distinct (map fst d) \<Longrightarrow> distinct (map fst (move_to_end k d))"
  by (auto simp: move_to_end_def delete_keys distinct_removeAll split: option.splits)

definition keyed :: "('k \<times> 'v) list \<Rightarrow> 'k set \<Rightarrow> bool" where
  "keyed d A \<longleftrightarrow> distinct (map fst d) \<and> fst ` set d \<subseteq> A \<and> length d \<le> MAX_TRACKED_TRAJECTORIES"

lemma keyed_length: "keyed d A \<Longrightarrow> length d = card (fst ` set d)"
  by (metis distinct_card keyed_def length_map list.set_map)

lemma keyed_mono: "keyed d A \<Longrightarrow> A \<subseteq> B \<Longrightarrow> keyed d B"
  by (auto simp: keyed_def)

lemma keyed_move_to_end [simp]: "keyed d A \<Longrightarrow> keyed (move_to_end k d) A"
  unfolding keyed_def
  by (metis distinct_card distinct_move_to_end keys_move_to_end length_map list.set_map)

lemma keyed_evict: "keyed d A \<Longrightarrow> keyed (evict_oldest k d) A"
  by (cases d) (auto simp: keyed_def evict_oldest_def)

lemma keyed_update_evict:
  assumes "keyed d A" "k \<in> A"
  shows "keyed (AList.update k v (evict_oldest k (move_to_end k d))) A"
proof -
  let ?m = "move_to_end k d" and ?e = "evict_oldest k (move_to_end k d)"
  have m: "keyed ?m A" using assms(1) by simp
  have e: "keyed ?e A" by (rule keyed_evict [OF m])
  have room: "length ?e < MAX_TRACKED_TRAJECTORIES" if "map_of ?e k = None"
  proof (cases "map_of ?m k")
    case None
    then show ?thesis using m
      by (cases ?m) (auto simp: evict_oldest_def keyed_def MAX_TRACKED_TRAJECTORIES_def)
  next
    case (Some v)
    then show ?thesis using that by (simp add: evict_oldest_def)
  qed
  have dist: "distinct (map fst (AList.update k v ?e))" using e by (simp add: keyed_def distinct_update)
  have keys: "fst ` set (AList.update k v ?e) = insert k (fst ` set ?e)"
    by (auto simp: keys_map_of update_conv' dom_def)
  have "length (AList.update k v ?e) = card (insert k (fst ` set ?e))"
    using dist keys by (metis distinct_card length_map list.set_map)
  moreover have "\<dots> \<le> MAX_TRACKED_TRAJECTORIES"
  proof (cases "k \<in> fst ` set ?e")
    case True
    then show ?thesis using e keyed_length [OF e] by (simp add: insert_absorb keyed_def)
  next
    case False
    then have "map_of ?e k = None" by (simp add: keys_map_of domIff)
    then show ?thesis using room keyed_length [OF e] False by simp
  qed
  ultimately show ?thesis using dist keys e assms(2) by (auto simp: keyed_def)
qed

text \<open>As long as no more trajectories were ever seen than are tracked, nothing is evicted.\<close>

lemma no_eviction:
  assumes "keyed d A" "k \<in> A" "finite A" "card A \<le> MAX_TRACKED_TRAJECTORIES"
  shows "map_of (evict_oldest k (move_to_end k d)) = map_of d"
proof -
  have "length (move_to_end k d) < MAX_TRACKED_TRAJECTORIES" if "map_of d k = None"
  proof -
    have "k \<notin> fst ` set d" using that by (simp add: keys_map_of domIff)
    moreover have "fst ` set d \<subseteq> A" using assms(1) by (simp add: keyed_def)
    ultimately have "fst ` set d \<subset> A" using assms(2) by blast
    then have "card (fst ` set d) < card A" using assms(3) by (simp add: psubset_card_mono)
    then show ?thesis using assms(1,4) keyed_length [of "move_to_end k d" A] by simp
  qed
  then show ?thesis by (auto simp: evict_oldest_def)
qed

text \<open>What a history says of a trajectory.\<close>

fun charged_to :: "charge \<Rightarrow> pystr option" where
  "charged_to (Ran t a) = a_trajectory a" | "charged_to (Paid tr c) = Some tr"

definition trajectories :: "charge list \<Rightarrow> pystr set" where
  "trajectories h = {tr. Some tr \<in> charged_to ` set h}"

fun step_of :: "charge \<Rightarrow> (pystr \<times> int) option" where
  "step_of (Ran t a) = (case (a_trajectory a, a_step a) of (Some tr, Some i) \<Rightarrow> Some (tr, i) | _ \<Rightarrow> None)"
| "step_of (Paid tr c) = None"

definition steps_of :: "pystr \<Rightarrow> charge list \<Rightarrow> int set" where
  "steps_of tr h = {i. Some (tr, i) \<in> step_of ` set h}"

fun paid :: "pystr \<Rightarrow> charge list \<Rightarrow> xfloat \<Rightarrow> xfloat" where
  "paid tr [] acc = acc"
| "paid tr (Ran t a # h) acc = paid tr h acc"
| "paid tr (Paid tr' c # h) acc = paid tr h (if tr' = tr then xadd acc c else acc)"

lemma paid_append: "paid tr (h @ h') acc = paid tr h' (paid tr h acc)"
  by (induction tr h acc rule: paid.induct) auto

lemma finite_trajectories [simp]: "finite (trajectories h)"
  unfolding trajectories_def by (rule finite_vimageI [unfolded vimage_def]) simp_all

lemma trajectories_append [simp]: "trajectories (h @ h') = trajectories h \<union> trajectories h'"
  by (auto simp: trajectories_def)

lemma steps_of_append [simp]: "steps_of tr (h @ h') = steps_of tr h \<union> steps_of tr h'"
  by (auto simp: steps_of_def)

definition steps_wf :: "gate \<Rightarrow> bool" where
  "steps_wf g \<longleftrightarrow> (\<forall>tr. distinct (steps_seen tr g))"

definition budget_ok :: "gate \<Rightarrow> charge list \<Rightarrow> bool" where
  "budget_ok g h \<longleftrightarrow> keyed (g_steps g) (trajectories h) \<and> keyed (g_costs g) (trajectories h) \<and> steps_wf g
     \<and> (card (trajectories h) \<le> MAX_TRACKED_TRAJECTORIES \<longrightarrow>
         (\<forall>tr. set (steps_seen tr g) = steps_of tr h \<and> spent tr g = paid tr h (XFin 0)))"

lemma budget_ok_same: "budget_ok g h \<Longrightarrow> g_steps g' = g_steps g \<Longrightarrow> g_costs g' = g_costs g \<Longrightarrow> budget_ok g' h"
  by (simp add: budget_ok_def steps_wf_def steps_seen_def spent_def)

lemma keyed_grow: "keyed d (trajectories h) \<Longrightarrow> keyed d (trajectories (h @ cs))"
  by (erule keyed_mono) simp

lemma card_grow: "card (trajectories (h @ cs)) \<le> n \<Longrightarrow> card (trajectories h) \<le> n"
  by (rule le_trans [OF card_mono]) auto

text \<open>\<open>_mark_trajectory_seen\<close> before a charge.\<close>

lemma mark_keeps:
  assumes "budget_ok g h" "tr \<in> trajectories (h @ cs)"
    and "card (trajectories (h @ cs)) \<le> MAX_TRACKED_TRAJECTORIES"
  shows "steps_seen x (mark_trajectory_seen tr g) = steps_seen x g"
    and "spent x (mark_trajectory_seen tr g) = spent x g"
proof -
  have "keyed (g_steps g) (trajectories (h @ cs))" "keyed (g_costs g) (trajectories (h @ cs))"
    using assms(1) keyed_grow by (auto simp: budget_ok_def simp del: trajectories_append)
  note maps = this [THEN no_eviction, OF assms(2) finite_trajectories assms(3)]
  show "steps_seen x (mark_trajectory_seen tr g) = steps_seen x g" "spent x (mark_trajectory_seen tr g) = spent x g"
    by (simp_all add: mark_trajectory_seen_def steps_seen_def spent_def maps)
qed

lemma steps_seen_update:
  "steps_seen x (g\<lparr>g_steps := AList.update tr ss d\<rparr>) =
     (if x = tr then ss else case map_of d x of None \<Rightarrow> [] | Some s \<Rightarrow> s)"
  by (simp add: steps_seen_def update_conv')

lemma spent_update:
  "spent x (g\<lparr>g_costs := AList.update tr c d\<rparr>) =
     (if x = tr then c else case map_of d x of None \<Rightarrow> XFin 0 | Some s \<Rightarrow> s)"
  by (simp add: spent_def update_conv')

lemma map_of_evict_subset: "map_of (evict_oldest k d) x = Some v \<Longrightarrow> distinct (map fst d) \<Longrightarrow> map_of d x = Some v"
proof (cases d)
  case (Cons p d')
  assume "map_of (evict_oldest k d) x = Some v" "distinct (map fst d)"
  then show ?thesis using Cons by (cases p) (force simp: evict_oldest_def split: if_splits dest: map_of_SomeD)
qed (simp add: evict_oldest_def)

lemma mark_steps_wf:
  assumes "budget_ok g h"
  shows "steps_wf (mark_trajectory_seen tr g)"
proof -
  have "distinct (map fst (move_to_end tr (g_steps g)))" using assms by (simp add: budget_ok_def keyed_def)
  note sub = map_of_evict_subset [OF _ this]
  have "distinct ss" if "map_of (evict_oldest tr (move_to_end tr (g_steps g))) x = Some ss" for x ss
    using sub [OF that] assms by (simp add: budget_ok_def steps_wf_def steps_seen_def) (metis option.simps(5))
  then show ?thesis by (auto simp: steps_wf_def steps_seen_def mark_trajectory_seen_def split: option.splits)
qed

lemma budget_ok_step:
  assumes "budget_ok g h" "a_trajectory a = Some tr" "a_step a = Some i"
  shows "budget_ok (record_step tr i g) (h @ [Ran t a])"
proof -
  let ?h = "h @ [Ran t a]" and ?m = "mark_trajectory_seen tr g"
  have tr: "tr \<in> trajectories ?h" using assms(2) by (simp add: trajectories_def)
  define ss where "ss = (if i \<in> set (steps_seen tr ?m) then steps_seen tr ?m else steps_seen tr ?m @ [i])"
  have r: "record_step tr i g = ?m\<lparr>g_steps := AList.update tr ss (g_steps ?m)\<rparr>"
    by (simp add: record_step_def Let_def ss_def)
  have k: "keyed (g_steps g) (trajectories ?h)" "keyed (g_costs g) (trajectories ?h)"
    using assms(1) keyed_grow by (auto simp: budget_ok_def simp del: trajectories_append)
  have "keyed (g_steps (record_step tr i g)) (trajectories ?h)"
    using keyed_update_evict [OF k(1) tr] by (simp add: r mark_trajectory_seen_def)
  moreover have "keyed (g_costs (record_step tr i g)) (trajectories ?h)"
    using keyed_evict [OF keyed_move_to_end [OF k(2)]] by (simp add: r mark_trajectory_seen_def)
  moreover have "distinct ss" using mark_steps_wf [OF assms(1)] by (simp add: ss_def steps_wf_def)
  then have "steps_wf (record_step tr i g)"
    using mark_steps_wf [OF assms(1), of tr] by (simp add: steps_wf_def r steps_seen_update flip: steps_seen_def)
  moreover have "set (steps_seen x (record_step tr i g)) = steps_of x ?h \<and> spent x (record_step tr i g) = paid x ?h (XFin 0)"
    if few: "card (trajectories ?h) \<le> MAX_TRACKED_TRAJECTORIES" for x
  proof -
    note keep = mark_keeps [OF assms(1) tr few]
    have old: "set (steps_seen y g) = steps_of y h" "spent y g = paid y h (XFin 0)" for y
      using assms(1) card_grow [OF few] by (simp_all add: budget_ok_def)
    have "set ss = insert i (steps_of tr h)" by (auto simp: ss_def keep old)
    then have "set (steps_seen x (record_step tr i g)) = steps_of x ?h"
      using keep old(1) assms(2,3) by (auto simp: r steps_seen_update steps_of_def [of _ "[_]"] simp flip: steps_seen_def)
    moreover have "spent x (record_step tr i g) = spent x ?m" by (simp add: r spent_def)
    ultimately show ?thesis by (simp add: keep old paid_append)
  qed
  ultimately show ?thesis by (simp add: budget_ok_def)
qed

lemma budget_ok_cost:
  assumes "budget_ok g h"
  shows "budget_ok (record_actual_cost tr c g) (h @ [Paid tr c])"
proof -
  let ?h = "h @ [Paid tr c]" and ?m = "mark_trajectory_seen tr g"
  have tr: "tr \<in> trajectories ?h" by (simp add: trajectories_def)
  have r: "record_actual_cost tr c g = ?m\<lparr>g_costs := AList.update tr (xadd (spent tr ?m) c) (g_costs ?m)\<rparr>"
    by (simp add: record_actual_cost_def Let_def)
  have k: "keyed (g_steps g) (trajectories ?h)" "keyed (g_costs g) (trajectories ?h)"
    using assms(1) keyed_grow by (auto simp: budget_ok_def simp del: trajectories_append)
  have "keyed (g_costs (record_actual_cost tr c g)) (trajectories ?h)"
    using keyed_update_evict [OF k(2) tr] by (simp add: r mark_trajectory_seen_def)
  moreover have "keyed (g_steps (record_actual_cost tr c g)) (trajectories ?h)"
    using keyed_evict [OF keyed_move_to_end [OF k(1)]] by (simp add: r mark_trajectory_seen_def)
  moreover have "steps_wf (record_actual_cost tr c g)"
    using mark_steps_wf [OF assms(1), of tr] by (simp add: r steps_wf_def steps_seen_def)
  moreover have "set (steps_seen x (record_actual_cost tr c g)) = steps_of x ?h
      \<and> spent x (record_actual_cost tr c g) = paid x ?h (XFin 0)"
    if few: "card (trajectories ?h) \<le> MAX_TRACKED_TRAJECTORIES" for x
  proof -
    note keep = mark_keeps [OF assms(1) tr few]
    have old: "set (steps_seen y g) = steps_of y h" "spent y g = paid y h (XFin 0)" for y
      using assms(1) card_grow [OF few] by (simp_all add: budget_ok_def)
    have "spent x (record_actual_cost tr c g) = paid x ?h (XFin 0)"
      using keep old by (simp add: r spent_update paid_append flip: spent_def)
    moreover have "steps_seen x (record_actual_cost tr c g) = steps_seen x ?m" by (simp add: r steps_seen_def)
    moreover have "steps_of x [Paid tr c] = {}" by (simp add: steps_of_def)
    ultimately show ?thesis by (simp add: keep old)
  qed
  ultimately show ?thesis by (simp add: budget_ok_def)
qed

lemma budget_ok_stepless:
  assumes "budget_ok g h" "a_trajectory a = None \<or> a_step a = None"
  shows "budget_ok g (h @ [Ran t a])"
proof -
  have "steps_of x [Ran t a] = {}" for x using assms(2) by (auto simp: steps_of_def split: option.splits)
  moreover have "keyed (g_steps g) (trajectories (h @ [Ran t a]))" "keyed (g_costs g) (trajectories (h @ [Ran t a]))"
    using assms(1) keyed_grow by (auto simp: budget_ok_def simp del: trajectories_append)
  ultimately show ?thesis using assms(1) card_grow [of h "[Ran t a]"]
    by (simp add: budget_ok_def paid_append)
qed

lemma budget_ok_charged:
  assumes "budget_ok g h" "charged t a g g'"
  shows "budget_ok g' (h @ [Ran t a])"
proof -
  obtain s where g': "g' = record_call a t (pruned s t g)" using assms(2) by (auto simp: charged_def)
  let ?g = "(pruned s t g)\<lparr>g_calls := g_calls (pruned s t g) @ [t]\<rparr>"
  have ok: "budget_ok ?g h" by (rule budget_ok_same [OF assms(1)]) simp_all
  show ?thesis
  proof (cases "\<exists>tr i. a_trajectory a = Some tr \<and> a_step a = Some i")
    case True
    then obtain tr i where ti: "a_trajectory a = Some tr" "a_step a = Some i" by blast
    show ?thesis using budget_ok_step [OF ok ti] by (simp add: g' record_call_def ti)
  next
    case False
    then have "g' = ?g" by (auto simp: g' record_call_def Let_def split: option.splits)
    then show ?thesis using budget_ok_stepless [OF ok] False by auto
  qed
qed

lemma gate_step_budgets:
  assumes "gate_step sha cv t g cs inst g'" "budget_ok g h"
  shows "budget_ok g' (h @ cs)"
  using assms(1)
proof (cases rule: gate_step.cases)
  case (step_decide a r)
  show ?thesis
  proof (cases "is_metered r")
    case True
    then have "cs = [Ran t a]" using step_decide(1) by (cases r) (simp_all add: charges_def is_metered_def)
    then show ?thesis using budget_ok_charged [OF assms(2)] decide_effect [OF step_decide(3)] True by simp
  next
    case False
    then have "cs = []" using step_decide(1) by (cases r) (simp_all add: charges_def is_metered_def)
    then show ?thesis using budget_ok_same [OF assms(2)] decide_effect [OF step_decide(3)] False
      by (simp add: idle_def)
  qed
next
  case (step_cost tr c)
  then show ?thesis using budget_ok_cost [OF assms(2)] by simp
next
  case (step_install payload etag x)
  then show ?thesis using budget_ok_same [OF assms(2)] apply_snapshot_budgets by (fastforce simp: same_budgets_def)
next
  case (step_refresh t2 answer ok)
  then show ?thesis using budget_ok_same [OF assms(2)] refresh_budgets by (fastforce simp: same_budgets_def)
qed (use assms(2) in \<open>auto simp: report_approval_request_def mark_approval_reported_def
       attest_capabilities_def Let_def intro: budget_ok_same split: if_splits\<close>)

lemma gate_run_budgets: "gate_run sha cv g h t \<Longrightarrow> budget_ok g h"
proof (induction rule: gate_run.induct)
  case (run_start src sus rep att p st mi t)
  show ?case by (simp add: budget_ok_def keyed_def new_gate_def steps_wf_def steps_seen_def spent_def steps_of_def)
qed (auto intro: gate_step_budgets)

text \<open>
  C12: The ceilings of a trajectory hold over every run in which no more than ten thousand
  trajectories took part: a call metered under a step ceiling \<open>n\<close> repeats one of the trajectory's
  earlier steps or comes after fewer than \<open>n\<close> of them; and under a cost ceiling, the costs
  recorded for the trajectory have not reached it.
\<close>

theorem trajectory_budgets_respected:
  assumes "gate_run sha cv g h t" "card (trajectories h) \<le> MAX_TRACKED_TRAJECTORIES"
    and "decide sha t a g = (Inr v, g')" "metered v" "g_snapshot g = Some s" "a_trajectory a = Some tr"
  shows "(\<forall>n i. sn_max_run_steps s = Some n \<and> a_step a = Some i \<longrightarrow>
           i \<in> steps_of tr h \<or> int (card (steps_of tr h)) < n)
    \<and> (\<forall>limit. sn_max_run_cost_usd s = Some limit \<longrightarrow> \<not> xle limit (paid tr h (XFin 0)))"
proof -
  have ok: "budget_ok g h" by (rule gate_run_budgets [OF assms(1)])
  have seen: "set (steps_seen tr g) = steps_of tr h" "spent tr g = paid tr h (XFin 0)"
    using ok assms(2) by (simp_all add: budget_ok_def)
  have len: "length (steps_seen tr g) = card (steps_of tr h)"
    using ok distinct_card [of "steps_seen tr g"] seen(1) by (simp add: budget_ok_def steps_wf_def)
  have "charged t a g g'" using decide_effect [OF assms(3)] assms(4) by (simp add: is_metered_def)
  then have "\<not> over_steps s a g" "\<not> over_cost s a g" using assms(5) by (simp_all add: charged_def exhausted_def)
  then show ?thesis using assms(6) by (auto simp: over_steps_def over_cost_def not_le seen(2) len simp flip: seen(1))
qed

section \<open>Bounds of what is kept\<close>

definition reported_ok :: "gate \<Rightarrow> bool" where
  "reported_ok g \<longleftrightarrow> distinct (g_reported g) \<and> length (g_reported g) \<le> MAX_REPORTED_APPROVAL_REQUESTS"

lemma mark_reported_ok: "reported_ok g \<Longrightarrow> reported_ok (mark_approval_reported rid g)"
  by (auto simp: reported_ok_def mark_approval_reported_def Let_def distinct_tl)

lemma gate_step_reported:
  assumes "gate_step sha cv t g cs inst g'" "reported_ok g"
  shows "reported_ok g'"
  using assms(1)
proof (cases rule: gate_step.cases)
  case (step_decide a r)
  then show ?thesis using decide_effect [OF step_decide(3)] assms(2) by (simp add: same_mandate_def reported_ok_def)
next
  case (step_install payload etag x)
  then show ?thesis using assms(2) apply_snapshot_budgets by (fastforce simp: reported_ok_def)
next
  case (step_refresh t2 answer ok)
  then show ?thesis using assms(2) refresh_budgets by (fastforce simp: reported_ok_def)
next
  case (step_report raises rid called)
  then show ?thesis using assms(2) mark_reported_ok
    by (auto simp: report_approval_request_def split: if_splits)
qed (use assms(2) in \<open>auto simp: record_actual_cost_def mark_trajectory_seen_def attest_capabilities_def
       reported_ok_def Let_def split: if_splits\<close>)

text \<open>
  What a gate remembers of trajectories and reported approvals stays within the two caps of ten
  thousand over every run, with one entry per trajectory and request.
\<close>

theorem gate_memory_bounded:
  assumes "gate_run sha cv g h t"
  shows "length (g_steps g) \<le> MAX_TRACKED_TRAJECTORIES \<and> distinct (map fst (g_steps g))
    \<and> length (g_costs g) \<le> MAX_TRACKED_TRAJECTORIES \<and> distinct (map fst (g_costs g))
    \<and> length (g_reported g) \<le> MAX_REPORTED_APPROVAL_REQUESTS \<and> distinct (g_reported g)"
proof -
  have "reported_ok g"
    using assms
  proof (induction rule: gate_run.induct)
    case (run_start src sus rep att p st mi t)
    show ?case by (simp add: reported_ok_def new_gate_def)
  qed (auto intro: gate_step_reported)
  then show ?thesis using gate_run_budgets [OF assms] by (simp add: budget_ok_def keyed_def reported_ok_def)
qed

text \<open>
  The call times have no such cap: while the snapshot names no call rate, every metered call adds
  one and none is ever dropped, however old.
\<close>

theorem call_times_kept_without_rate:
  assumes "decide sha t a g = (Inr v, g')" "metered v" "g_snapshot g = Some s"
    and "sn_max_calls_per_minute s = None"
  shows "g_calls g' = g_calls g @ [t]"
  using decide_effect [OF assms(1)] assms(2-4) by (auto simp: charged_def is_metered_def pruned_def)

section \<open>A suspension holds\<close>

definition quiet :: "hash \<Rightarrow> pyconv \<Rightarrow> gate \<Rightarrow> gate \<Rightarrow> bool" where
  "quiet sha cv g g' \<longleftrightarrow> (\<exists>t cs. gate_step sha cv t g cs False g')"

definition holds_suspended :: "gate \<Rightarrow> bool" where
  "holds_suspended g \<longleftrightarrow> g_has_source g \<and> (\<exists>s. g_snapshot g = Some s \<and> suspended s)"

lemma suspended_received [simp]: "suspended (s\<lparr>sn_received_at := t\<rparr>) = suspended s"
  by (simp add: suspended_def)

lemma failed_refresh:
  assumes "refresh_safely cv t t2 answer g = (False, g')"
  shows "g' = g\<lparr>g_refresh_failed := True\<rparr>"
proof (cases answer)
  case (Fetched p e)
  then show ?thesis using assms
    by (auto simp: refresh_safely_def refresh_def apply_snapshot_def Let_def split: if_splits sum.splits prod.splits)
qed (use assms in \<open>auto simp: refresh_safely_def refresh_def Let_def split: if_splits\<close>)

lemma quiet_refresh:
  assumes "refresh_safely cv t t2 answer g = (ok, g')" "\<not> (ok \<and> (\<exists>p e. answer = Fetched p e))" "holds_suspended g"
  shows "holds_suspended g'"
proof (cases ok)
  case True
  then show ?thesis using assms
    by (cases answer) (auto simp: refresh_safely_def refresh_def not_modified_def holds_suspended_def Let_def split: if_splits)
next
  case False
  then show ?thesis using failed_refresh [of cv t t2 answer g g'] assms(1,3) by (simp add: holds_suspended_def)
qed

lemma quiet_holds:
  assumes "quiet sha cv g g'" "holds_suspended g"
  shows "holds_suspended g'"
proof -
  obtain t cs inst where "gate_step sha cv t g cs inst g'" "\<not> inst" using assms(1) by (auto simp: quiet_def)
  then show ?thesis
  proof (cases rule: gate_step.cases)
    case (step_decide a r)
    then show ?thesis using decide_effect [OF step_decide(3)] assms(2) by (auto simp: same_mandate_def holds_suspended_def)
  next
    case (step_refresh t2 answer ok)
    then show ?thesis using quiet_refresh [OF step_refresh(3)] assms(2) \<open>\<not> inst\<close> by simp
  qed (use assms(2) in \<open>auto simp: record_actual_cost_def mark_trajectory_seen_def attest_capabilities_def
         report_approval_request_def mark_approval_reported_def holds_suspended_def Let_def split: if_splits\<close>)
qed

text \<open>
  C13: Once a gate holds a suspended snapshot, every call is denied with the suspension as its reason,
  under either posture, however old the snapshot grows and whatever happens to the gate, until
  another snapshot is installed: decisions, recorded costs, reports, failed or malformed
  refreshes and 304 answers do not lift it.
\<close>

theorem suspension_holds:
  assumes "(quiet sha cv)\<^sup>*\<^sup>* g g'" "g_has_source g" "g_snapshot g = Some s" "suspended s"
  shows "\<exists>i. decide sha' t a g' = (Inr (Deny i), g') \<and> v_reason i = AGENT_SUSPENDED"
proof -
  have "holds_suspended g'"
    using assms(1)
  proof (induction rule: rtranclp_induct)
    case base
    show ?case using assms(2-4) by (auto simp: holds_suspended_def)
  qed (rule quiet_holds)
  then show ?thesis by (auto simp: holds_suspended_def decide_suspended)
qed

lemma failed_budgets:
  "over_steps s a (g\<lparr>g_refresh_failed := b\<rparr>) = over_steps s a g"
  "over_cost s a (g\<lparr>g_refresh_failed := b\<rparr>) = over_cost s a g"
  "over_rate s (g\<lparr>g_refresh_failed := b\<rparr>) = over_rate s g"
  "pruned s now (g\<lparr>g_refresh_failed := b\<rparr>) = (pruned s now g)\<lparr>g_refresh_failed := b\<rparr>"
  by (auto simp: over_steps_def over_cost_def over_rate_def steps_seen_def spent_def pruned_def cong: option.case_cong)

lemma failed_frame:
  "exhausted a s now (g\<lparr>g_refresh_failed := b\<rparr>) = exhausted a s now g"
  "over_rate s (pruned s now (g\<lparr>g_refresh_failed := b\<rparr>)) = over_rate s (pruned s now g)"
  "over_steps s a (g\<lparr>g_refresh_failed := b\<rparr>) = over_steps s a g"
  "unevaluable (g\<lparr>g_refresh_failed := b\<rparr>) a = unevaluable g a"
  "noop_verdict (g\<lparr>g_refresh_failed := b\<rparr>) a = noop_verdict g a"
  by (simp_all add: exhausted_def failed_budgets unevaluable_def noop_verdict_def fun_eq_iff)

lemma failed_within_budget:
  "fst (within_budget a s age now v (g\<lparr>g_refresh_failed := b\<rparr>)) = fst (within_budget a s age now v g)"
  by (simp add: within_budget_eq failed_frame)

lemma failed_decide:
  "fst (decide_scope a s age now (g\<lparr>g_refresh_failed := b\<rparr>)) = fst (decide_scope a s age now g)"
  "fst (decide_reassessment a s age now (g\<lparr>g_refresh_failed := b\<rparr>)) = fst (decide_reassessment a s age now g)"
  "fst (decide_approval sha a s age now (g\<lparr>g_refresh_failed := b\<rparr>)) = fst (decide_approval sha a s age now g)"
  by (simp_all add: decide_scope_def decide_reassessment_def decide_approval_def failed_within_budget
      split: sum.splits)

text \<open>
  A failed refresh, be it an exception of the source or a payload that cannot be read, changes no
  decision: the snapshot in hand, its age and every budget stay, and each call is decided as
  if the refresh had not been tried.
\<close>

theorem failed_refresh_changes_no_decision:
  assumes "refresh_safely cv t t2 answer g = (False, g')"
  shows "g_snapshot g' = g_snapshot g \<and> g_etag g' = g_etag g
    \<and> fst (decide sha now a g') = fst (decide sha now a g)"
proof -
  have frame: "fst (decide sha now a (g\<lparr>g_refresh_failed := True\<rparr>)) = fst (decide sha now a g)"
    by (simp add: decide_def decide_snapshot_def failed_frame failed_decide Let_def split: option.splits)
  show ?thesis using failed_refresh [OF assms] frame by simp
qed

end
