(* ===== verification/Gate_Witness.thy ===== *)
theory Gate_Witness
  imports Gate_Run
begin

text \<open>One gate, one payload, one call: concrete inputs of the mandate gate's properties.\<close>

definition plain_conv :: pyconv where
  "plain_conv = \<lparr>cv_repr = (\<lambda>_. []),
     cv_float = (\<lambda>v. case v of PInt i \<Rightarrow> Converted (XFin (of_int i)) | _ \<Rightarrow> Refused),
     cv_int = (\<lambda>v. case v of PInt i \<Rightarrow> Converted i | _ \<Rightarrow> Refused)\<rparr>"

definition payload_with :: "pystr \<Rightarrow> (pykey \<times> pyval) list \<Rightarrow> pyval" where
  "payload_with status extra =
     PDict ([(KStr (u ''allowed_tools''), PSeq [PStr (u ''search'')]),
             (KStr (u ''approval_required_tools''), PSeq [PStr (u ''pay'')]),
             (KStr (u ''max_run_cost_usd''), PInt 5), (KStr (u ''max_calls_per_minute''), PInt 2),
             (KStr (u ''max_run_steps''), PInt 3), (KStr (u ''status''), PStr status),
             (KStr (u ''enforcement_posture''), PStr (u ''fail_closed'')),
             (KStr (u ''max_staleness_s''), PInt 60)] @ extra)"

definition sample_snapshot :: "pystr \<Rightarrow> snapshot" where
  "sample_snapshot status =
     \<lparr>sn_allowed_tools = Some [u ''search''], sn_approval_required_tools = [u ''pay''],
      sn_resolved_approvals = [], sn_max_run_cost_usd = Some (XFin 5),
      sn_max_calls_per_minute = Some 2, sn_max_run_steps = Some 3, sn_mandate_version_id = None,
      sn_status = Some status, sn_mandate_enforcement = ENFORCE, sn_enforcement_posture = FAIL_CLOSED,
      sn_max_staleness_s = XFin 60, sn_delegation_policy = None, sn_max_delegation_depth = None,
      sn_served_at = None, sn_reassessment_required = False, sn_received_at = 0,
      sn_raw = (case payload_with status [] of PDict p \<Rightarrow> p | _ \<Rightarrow> [])\<rparr>"

lemma sample_from_payload:
  "from_payload plain_conv (payload_with status []) 0 = Inr (sample_snapshot status)"
  by (simp add: from_payload_def payload_with_def sample_snapshot_def allowed_tools_of_def approval_tools_of_def
      resolved_of_def opt_num_def coerce_float_def opt_str_of_def or_default_def dget_def plain_conv_def
      FAIL_CLOSED_def ENFORCE_def)

definition gate0 :: gate where
  "gate0 = new_gate True True True True FAIL_OPEN (XFin 300) 1"

definition gate_with :: "snapshot \<Rightarrow> gate" where
  "gate_with s = gate0\<lparr>g_snapshot := Some s\<rparr>"

lemma sample_installed:
  "apply_snapshot plain_conv 0 (payload_with (u ''active'') []) None gate0
     = (Inr (sample_snapshot (u ''active''), False), gate_with (sample_snapshot (u ''active'')))"
proof -
  have raw: "dget (u ''max_staleness_s'') (sn_raw (sample_snapshot (u ''active''))) = PInt 60"
    "dget (u ''enforcement_posture'') (sn_raw (sample_snapshot (u ''active''))) = PStr (u ''fail_closed'')"
    by (simp_all add: sample_snapshot_def payload_with_def dget_def)
  have "\<not> suspended (sample_snapshot (u ''active''))"
    by (simp add: suspended_def sample_snapshot_def BLOCKING_STATUSES_def u_def lower_char_def)
  then show ?thesis
    by (simp add: apply_snapshot_def sample_from_payload raw gate_with_def gate0_def new_gate_def Let_def)
qed

definition search_call :: action where
  "search_call = \<lparr>a_tool = u ''search'', a_trajectory = Some [84], a_step = Some 1, a_arguments = None\<rparr>"

abbreviation active :: snapshot where
  "active \<equiv> sample_snapshot (u ''active'')"

abbreviation stopped :: snapshot where
  "stopped \<equiv> sample_snapshot (u ''Suspended'')"

lemma sample_run: "gate_run id plain_conv (gate_with active) [] 10"
proof -
  have "gate_run id plain_conv gate0 [] 0" unfolding gate0_def by (rule run_start)
  from run_step [OF this step_install [OF sample_installed]]
  have "gate_run id plain_conv (gate_with active) [] 0" by simp
  then show ?thesis by (rule run_wait) simp
qed

lemma active_simps [simp]:
  "\<not> suspended active" "suspended stopped" "\<not> is_stale 10 (sample_snapshot st)"
  "\<not> sn_reassessment_required (sample_snapshot st)"
  "\<not> requires_approval (u ''search'') (sample_snapshot st)" "permits (u ''search'') (sample_snapshot st)"
  "sn_max_calls_per_minute (sample_snapshot st) = Some 2" "sn_max_run_steps (sample_snapshot st) = Some 3"
  "sn_max_run_cost_usd (sample_snapshot st) = Some (XFin 5)" "\<not> unrestricted (sample_snapshot st)"
  by (simp_all add: suspended_def sample_snapshot_def BLOCKING_STATUSES_def u_def lower_char_def is_stale_def
      age_s_def requires_approval_def permits_def unrestricted_def)

lemma gate_with_simps [simp]:
  "g_has_source (gate_with s)" "g_snapshot (gate_with s) = Some s" "g_calls (gate_with s) = []"
  "g_steps (gate_with s) = []" "g_costs (gate_with s) = []"
  by (simp_all add: gate_with_def gate0_def new_gate_def)

lemma not_exhausted [simp]: "\<not> exhausted search_call (sample_snapshot st) 10 (gate_with s)"
  by (simp add: exhausted_def over_rate_def over_steps_def over_cost_def pruned_def prune_calls_def
      steps_seen_def spent_def search_call_def xle_def)

lemma sample_decision:
  "decide id 10 search_call (gate_with active)
     = (Inr (Allow (info IN_SCOPE (age_s 10 active) active search_call)),
        record_call search_call 10 (pruned active 10 (gate_with active)))"
  by (simp add: decide_def decide_snapshot_def decide_scope_def within_budget_eq Let_def)
    (simp add: search_call_def)

section \<open>Witnesses\<close>

abbreviation allow_sample :: verdict where
  "allow_sample \<equiv> Allow (info IN_SCOPE (age_s 10 active) active search_call)"

theorem fail_closed_allows_iff_witness:
  "allowed allow_sample \<longleftrightarrow>
    (\<exists>s. g_snapshot (gate_with active) = Some s \<and> \<not> suspended s \<and> \<not> sn_reassessment_required s
       \<and> \<not> is_stale 10 s \<and> in_mandate id search_call s \<and> \<not> exhausted search_call s 10 (gate_with active))"
  by (rule fail_closed_allows_iff [OF _ _ sample_decision]) (simp_all add: posture_def sample_snapshot_def)

theorem refused_calls_consume_nothing_witness:
  "g_steps (gate_with stopped) = g_steps (gate_with stopped) \<and> g_costs (gate_with stopped) = g_costs (gate_with stopped)
    \<and> (g_calls (gate_with stopped) = g_calls (gate_with stopped)
       \<or> g_calls (gate_with stopped) = prune_calls 10 (g_calls (gate_with stopped)))"
  by (rule refused_calls_consume_nothing [of id 10 search_call "gate_with stopped"
        "Inr (Deny (info AGENT_SUSPENDED (age_s 10 stopped) stopped search_call))"])
    (simp_all add: decide_suspended refused_def)

definition open_snapshot :: snapshot where
  "open_snapshot = active\<lparr>sn_enforcement_posture := FAIL_OPEN\<rparr>"

theorem fail_open_runs_unapproved_tool_witness:
  "requires_approval (u ''pay'') open_snapshot \<and>
   (\<exists>i g'. decide id 100 (search_call\<lparr>a_tool := u ''pay''\<rparr>) (gate_with open_snapshot) = (Inr (Flag i), g')
     \<and> v_tool i = u ''pay'' \<and> g' = gate_with open_snapshot)"
proof -
  have stale: "is_stale 100 open_snapshot \<and> \<not> sn_reassessment_required open_snapshot"
    by (simp add: is_stale_def age_s_def open_snapshot_def sample_snapshot_def)
  have "\<not> suspended open_snapshot" using active_simps(1) by (simp add: open_snapshot_def suspended_def)
  then have "\<exists>i g'. decide id 100 (search_call\<lparr>a_tool := u ''pay''\<rparr>) (gate_with open_snapshot) = (Inr (Flag i), g')
     \<and> v_tool i = a_tool (search_call\<lparr>a_tool := u ''pay''\<rparr>)
     \<and> (is_stale 100 open_snapshot \<and> \<not> sn_reassessment_required open_snapshot \<longrightarrow> g' = gate_with open_snapshot)"
    by (intro fail_open_runs_unapproved_tool) (use stale in \<open>simp_all add: open_snapshot_def\<close>)
  then show ?thesis using stale by (simp add: requires_approval_def open_snapshot_def sample_snapshot_def)
qed

theorem approval_id_identifies_call_witness:
  "\<exists>k k'. key_of_action search_call = Inr k \<and> key_of_action (search_call\<lparr>a_step := Some 2\<rparr>) = Inr k'
    \<and> (same_call search_call (search_call\<lparr>a_step := Some 2\<rparr>) \<or> collision_on (\<lambda>x. take 16 []) {utf8 k, utf8 k'})"
proof -
  have k: "key_of_action search_call = Inr (u ''search:T:1:'')"
      "key_of_action (search_call\<lparr>a_step := Some 2\<rparr>) = Inr (u ''search:T:2:'')"
    by (simp_all add: key_of_action_eq args_text_def search_call_def text_of_def step_text_def int_str_def
        nat_digits.simps u_def)
  have ok: "action_ok search_call" "action_ok (search_call\<lparr>a_step := Some 2\<rparr>)"
    by (simp_all add: action_ok_def args_ok_def no_colon_def search_call_def text_of_def u_def)
  have rid: "request_id_of (\<lambda>_. []) search_call = Inr []" "request_id_of (\<lambda>_. []) (search_call\<lparr>a_step := Some 2\<rparr>) = Inr []"
    using k by (simp_all add: request_id_of_def approval_request_id_def key_of_action_def utf8_encode_def u_def
        surrogate_def hex_def)
  show ?thesis using approval_id_identifies_call [OF ok k rid] k by blast
qed

theorem approval_id_ambiguous_colon_witness:
  "request_id_of id (search_call\<lparr>a_tool := u ''pay:x''\<rparr>)
     = request_id_of id (search_call\<lparr>a_tool := u ''pay'', a_trajectory := Some (u ''x:T'')\<rparr>)
   \<and> u ''pay:x'' \<noteq> u ''pay''"
  using approval_id_ambiguous_colon [of "search_call\<lparr>a_tool := u ''pay:x''\<rparr>" "u ''pay''" "u ''x''" "[84]"
      "search_call\<lparr>a_tool := u ''pay'', a_trajectory := Some (u ''x:T'')\<rparr>" id]
  by (simp add: search_call_def u_def)

theorem call_rate_respected_witness:
  "int (length (filter (\<lambda>x. 10 - CALL_RATE_WINDOW_S \<le> x) (times []))) < 2"
  by (rule call_rate_respected [OF sample_run sample_decision, where s = active]) simp_all

theorem trajectory_budgets_respected_witness:
  "(1 \<in> steps_of [84] [] \<or> int (card (steps_of [84] [])) < 3) \<and> \<not> xle (XFin 5) (paid [84] [] (XFin 0))"
  using trajectory_budgets_respected [OF sample_run _ sample_decision, where s = active and tr = "[84]"]
  by (simp add: trajectories_def search_call_def)

theorem gate_memory_bounded_witness:
  "length (g_steps (gate_with active)) \<le> MAX_TRACKED_TRAJECTORIES \<and> distinct (map fst (g_steps (gate_with active)))
    \<and> length (g_costs (gate_with active)) \<le> MAX_TRACKED_TRAJECTORIES \<and> distinct (map fst (g_costs (gate_with active)))
    \<and> length (g_reported (gate_with active)) \<le> MAX_REPORTED_APPROVAL_REQUESTS
    \<and> distinct (g_reported (gate_with active))"
  by (rule gate_memory_bounded [OF sample_run])

theorem call_times_kept_without_rate_witness:
  "\<exists>g'. decide id 10 search_call (gate_with (active\<lparr>sn_max_calls_per_minute := None\<rparr>)) =
       (Inr (Allow (info IN_SCOPE 10 (active\<lparr>sn_max_calls_per_minute := None\<rparr>) search_call)), g')
     \<and> g_calls g' = [] @ [10]"
proof -
  let ?s = "active\<lparr>sn_max_calls_per_minute := None\<rparr>"
  have s: "\<not> suspended ?s" "\<not> sn_reassessment_required ?s" "\<not> is_stale 10 ?s" "age_s 10 ?s = 10"
      "\<not> requires_approval (u ''search'') ?s" "permits (u ''search'') ?s" "\<not> unrestricted ?s"
      "\<not> exhausted search_call ?s 10 (gate_with ?s)"
    using active_simps(1)
    by (simp_all add: suspended_def is_stale_def age_s_def requires_approval_def permits_def unrestricted_def
        sample_snapshot_def exhausted_def over_rate_def over_steps_def over_cost_def pruned_def steps_seen_def
        spent_def search_call_def xle_def)
  have tool: "a_tool search_call = u ''search''" by (simp add: search_call_def)
  obtain g' where d: "decide id 10 search_call (gate_with ?s) = (Inr (Allow (info IN_SCOPE 10 ?s search_call)), g')"
    using s by (simp add: decide_def decide_snapshot_def decide_scope_def within_budget_eq tool Let_def)
  have "g_calls g' = g_calls (gate_with ?s) @ [10]"
    by (rule call_times_kept_without_rate [OF d, where s = ?s]) simp_all
  then show ?thesis using d by simp
qed

theorem suspension_holds_witness:
  "\<exists>i. decide id 99999 search_call (record_actual_cost [84] (XFin 1) (gate_with stopped))
      = (Inr (Deny i), record_actual_cost [84] (XFin 1) (gate_with stopped)) \<and> v_reason i = AGENT_SUSPENDED"
proof -
  have "quiet id plain_conv (gate_with stopped) (record_actual_cost [84] (XFin 1) (gate_with stopped))"
    unfolding quiet_def by (blast intro: step_cost)
  from suspension_holds [OF r_into_rtranclp [of "quiet id plain_conv", OF this], of stopped id 99999 search_call]
  show ?thesis by simp
qed

theorem failed_refresh_changes_no_decision_witness:
  "refresh_safely plain_conv 20 20 (Fetched (PStr []) None) (gate_with active) = (False, (gate_with active)\<lparr>g_refresh_failed := True\<rparr>)
   \<and> fst (decide id 10 search_call ((gate_with active)\<lparr>g_refresh_failed := True\<rparr>)) = Inr allow_sample"
proof -
  have f: "refresh_safely plain_conv 20 20 (Fetched (PStr []) None) (gate_with active)
      = (False, (gate_with active)\<lparr>g_refresh_failed := True\<rparr>)"
    by (simp add: refresh_safely_def refresh_def apply_snapshot_def from_payload_def)
  show ?thesis
    using f failed_refresh_changes_no_decision [OF f, of id 10 search_call] sample_decision by simp
qed

end
