(* ===== verification/Latch.thy ===== *)
theory Latch
  imports Gate
begin

text \<open>
  \<open>recorder/denial_latch.py\<close>: which tools were already denied, per run. Buckets are keyed by run,
  principal and tool; the dictionaries are finite maps, the ordered one of the runs is a list, oldest
  first. The texts of the verdicts and the log lines are left out.
\<close>

section \<open>State\<close>

type_synonym run_id = pystr
type_synonym principal = pystr
type_synonym bucket = "run_id \<times> principal \<times> pystr"

record latch =
  l_threshold :: int
  l_max_runs :: nat
  l_runs :: "run_id list"
  l_versions :: "run_id \<times> principal \<rightharpoonup> pystr option"
  l_attempts :: "bucket \<rightharpoonup> int"
  l_first :: "bucket \<rightharpoonup> verdict_info"
  l_halted :: "run_id \<rightharpoonup> principal \<times> pystr \<times> int"

record latched =
  ld_run :: run_id
  ld_principal :: principal
  ld_tool :: pystr
  ld_attempts :: int
  ld_halted :: bool
  ld_verdict :: verdict_info

definition DEFAULT_HALT_THRESHOLD :: int where "DEFAULT_HALT_THRESHOLD = 3"
definition DEFAULT_MAX_RUNS :: int where "DEFAULT_MAX_RUNS = 1024"
definition UNIDENTIFIED :: pystr where "UNIDENTIFIED = u ''unidentified-agent''"

definition LATCHABLE_REASONS :: "reason list" where
  "LATCHABLE_REASONS = [OUT_OF_SCOPE, DELEGATED_OUT_OF_SCOPE]"

definition is_latchable :: "verdict_info \<Rightarrow> bool" where
  "is_latchable i \<longleftrightarrow> v_reason i \<in> set LATCHABLE_REASONS"

text \<open>\<open>parse\<close> is \<open>int()\<close> of the stripped environment variable, \<open>None\<close> when it raises \<open>ValueError\<close>.\<close>

definition env_threshold :: "(pystr \<Rightarrow> int option) \<Rightarrow> pystr \<Rightarrow> int" where
  "env_threshold parse raw =
     (if raw = [] then DEFAULT_HALT_THRESHOLD
      else case parse raw of
        None \<Rightarrow> DEFAULT_HALT_THRESHOLD
      | Some value \<Rightarrow> if value < 1 then DEFAULT_HALT_THRESHOLD else value)"

definition new_latch :: "int \<Rightarrow> int option \<Rightarrow> int \<Rightarrow> latch" where
  "new_latch env threshold max_runs =
     \<lparr>l_threshold = (case threshold of None \<Rightarrow> env | Some t \<Rightarrow> max 1 t), l_max_runs = nat (max 1 max_runs),
      l_runs = [], l_versions = (\<lambda>_. None), l_attempts = (\<lambda>_. None), l_first = (\<lambda>_. None),
      l_halted = (\<lambda>_. None)\<rparr>"

section \<open>Which run, which agent\<close>

text \<open>\<open>gate_ids\<close> is the weak dictionary of fallback ids, one per gate object.\<close>

definition resolve_run_id ::
  "pystr option \<Rightarrow> pystr option \<Rightarrow> nat option \<Rightarrow> pystr \<Rightarrow> (nat \<rightharpoonup> pystr) \<Rightarrow> run_id \<times> (nat \<rightharpoonup> pystr)" where
  "resolve_run_id trajectory bound gate fresh gate_ids =
     (if trajectory \<noteq> None \<and> trajectory \<noteq> Some [] then (the trajectory, gate_ids)
      else if bound \<noteq> None \<and> bound \<noteq> Some [] then (the bound, gate_ids)
      else case gate of
        None \<Rightarrow> (u ''anon-run-'' @ fresh, gate_ids)
      | Some g \<Rightarrow>
          (case gate_ids g of
             Some r \<Rightarrow> (r, gate_ids)
           | None \<Rightarrow> (u ''gate-run-'' @ fresh, gate_ids(g \<mapsto> u ''gate-run-'' @ fresh))))"

definition resolve_principal :: "pystr option \<Rightarrow> principal" where
  "resolve_principal agent_id = or_default agent_id UNIDENTIFIED"

section \<open>Forgetting\<close>

definition forget :: "run_id \<Rightarrow> latch \<Rightarrow> latch" where
  "forget r l =
     l\<lparr>l_versions := (\<lambda>k. if fst k = r then None else l_versions l k),
       l_runs := removeAll r (l_runs l), l_halted := (l_halted l)(r := None),
       l_attempts := (\<lambda>k. if fst k = r then None else l_attempts l k),
       l_first := (\<lambda>k. if fst k = r \<and> l_attempts l k \<noteq> None then None else l_first l k)\<rparr>"

definition owns :: "run_id \<Rightarrow> principal \<Rightarrow> bucket \<Rightarrow> bool" where
  "owns r p k \<longleftrightarrow> fst k = r \<and> fst (snd k) = p"

definition forget_principal :: "run_id \<Rightarrow> principal \<Rightarrow> latch \<Rightarrow> latch" where
  "forget_principal r p l =
     l\<lparr>l_attempts := (\<lambda>k. if owns r p k then None else l_attempts l k),
       l_first := (\<lambda>k. if owns r p k \<and> l_attempts l k \<noteq> None then None else l_first l k),
       l_halted := (case l_halted l r of
                      Some (q, _) \<Rightarrow> if q = p then (l_halted l)(r := None) else l_halted l
                    | None \<Rightarrow> l_halted l)\<rparr>"

definition reconcile_version :: "run_id \<Rightarrow> principal \<Rightarrow> pystr option \<Rightarrow> latch \<Rightarrow> latch" where
  "reconcile_version r p version l =
     (case l_versions l (r, p) of
        None \<Rightarrow> l\<lparr>l_versions := (l_versions l)((r, p) \<mapsto> version)\<rparr>
      | Some old \<Rightarrow>
          if old = version then l
          else (forget_principal r p l)\<lparr>l_versions := (l_versions l)((r, p) \<mapsto> version)\<rparr>)"

lemma forget_shortens: "l_runs l \<noteq> [] \<Longrightarrow> length (l_runs (forget (hd (l_runs l)) l)) < length (l_runs l)"
  by (cases "l_runs l") (auto simp: forget_def length_removeAll_less_eq le_imp_less_Suc)

function evict_runs :: "latch \<Rightarrow> latch" where
  "evict_runs l = (if length (l_runs l) > l_max_runs l then evict_runs (forget (hd (l_runs l)) l) else l)"
  by pat_completeness auto

termination
  by (relation "measure (\<lambda>l. length (l_runs l))") (auto intro!: forget_shortens)

declare evict_runs.simps [simp del]

definition touch :: "run_id \<Rightarrow> latch \<Rightarrow> latch" where
  "touch r l = evict_runs (l\<lparr>l_runs := removeAll r (l_runs l) @ [r]\<rparr>)"

definition reset :: "run_id option \<Rightarrow> latch \<Rightarrow> latch" where
  "reset r l =
     (case r of
        None \<Rightarrow> l\<lparr>l_attempts := (\<lambda>_. None), l_first := (\<lambda>_. None), l_halted := (\<lambda>_. None),
                  l_runs := [], l_versions := (\<lambda>_. None)\<rparr>
      | Some run \<Rightarrow> forget run l)"

section \<open>Recording and checking\<close>

definition attempts_at :: "bucket \<Rightarrow> latch \<Rightarrow> int" where
  "attempts_at k l = (case l_attempts l k of None \<Rightarrow> 0 | Some n \<Rightarrow> n)"

definition is_halted :: "run_id \<Rightarrow> latch \<Rightarrow> bool" where
  "is_halted r l \<longleftrightarrow> l_halted l r \<noteq> None"

text \<open>One more attempt at a bucket; at the threshold the run is halted, by the first to get there.\<close>

definition count_attempt :: "bucket \<Rightarrow> latch \<Rightarrow> latch" where
  "count_attempt k l =
     (let n = attempts_at k l + 1 in
      l\<lparr>l_attempts := (l_attempts l)(k \<mapsto> n),
        l_halted := (if n \<ge> l_threshold l \<and> l_halted l (fst k) = None
                     then (l_halted l)(fst k \<mapsto> (fst (snd k), snd (snd k), n)) else l_halted l)\<rparr>)"

definition set_first :: "bucket \<Rightarrow> verdict_info \<Rightarrow> latch \<Rightarrow> latch" where
  "set_first k i l = (if l_first l k = None then l\<lparr>l_first := (l_first l)(k \<mapsto> i)\<rparr> else l)"

definition tool_of :: "verdict_info \<Rightarrow> pystr" where
  "tool_of i = (if v_tool i = [] then u ''?'' else v_tool i)"

definition record_denial ::
  "run_id \<Rightarrow> principal \<Rightarrow> verdict_info \<Rightarrow> pystr option \<Rightarrow> latch \<Rightarrow> latched \<times> latch" where
  "record_denial r p i version l =
     (if \<not> is_latchable i then
        (\<lparr>ld_run = r, ld_principal = p, ld_tool = tool_of i, ld_attempts = 1, ld_halted = False, ld_verdict = i\<rparr>, l)
      else
        (let k = (r, p, tool_of i);
             l1 = reconcile_version r p version l;
             n = attempts_at k l1 + 1
         in (\<lparr>ld_run = r, ld_principal = p, ld_tool = tool_of i, ld_attempts = n,
              ld_halted = (n \<ge> l_threshold l1), ld_verdict = i\<rparr>,
             touch r (set_first k i (count_attempt k l1)))))"

definition halt_verdict :: "verdict_info option \<Rightarrow> pystr \<Rightarrow> verdict_info" where
  "halt_verdict original tool =
     (case original of
        None \<Rightarrow> \<lparr>v_reason = RUN_HALTED, v_version = None, v_age = None, v_tool = tool, v_posture = FAIL_OPEN,
                v_enforcement = None, v_trajectory = None, v_step = None\<rparr>
      | Some o' \<Rightarrow> \<lparr>v_reason = RUN_HALTED, v_version = None, v_age = None, v_tool = tool,
                  v_posture = v_posture o', v_enforcement = v_enforcement o',
                  v_trajectory = None, v_step = None\<rparr>)"

definition relabel :: "verdict_info \<Rightarrow> pystr \<Rightarrow> reason \<Rightarrow> verdict_info" where
  "relabel original tool r = original\<lparr>v_reason := r, v_tool := tool\<rparr>"

definition check ::
  "run_id \<Rightarrow> principal \<Rightarrow> pystr \<Rightarrow> pystr option \<Rightarrow> latch \<Rightarrow> latched option \<times> latch" where
  "check r p tool version l0 =
     (let l = reconcile_version r p version l0 in
      case l_halted l r of
        Some (q, halt_tool, n) \<Rightarrow>
          (Some \<lparr>ld_run = r, ld_principal = p, ld_tool = tool, ld_attempts = n, ld_halted = True,
                 ld_verdict = halt_verdict (l_first l (r, q, halt_tool)) tool\<rparr>,
           touch r l)
      | None \<Rightarrow>
          (case l_first l (r, p, tool) of
             None \<Rightarrow> (None, l)
           | Some original \<Rightarrow>
               (let n = attempts_at (r, p, tool) l + 1; halted = (n \<ge> l_threshold l) in
                (Some \<lparr>ld_run = r, ld_principal = p, ld_tool = tool, ld_attempts = n, ld_halted = halted,
                       ld_verdict = relabel original tool (if halted then RUN_HALTED else REPEAT_DENIED)\<rparr>,
                 touch r (count_attempt (r, p, tool) l)))))"

end
