(* ===== verification/Delegation.thy ===== *)
theory Delegation
  imports Latch
begin

text \<open>
  \<open>recorder/delegation.py\<close>: the scope a delegated agent works in, and the gate that asks the delegator
  first. Gate objects are addresses into a store, so that one gate can be the parent of several
  delegations and its budgets are shared.
\<close>

section \<open>Effective scopes\<close>

definition intersect_tools :: "pystr list option \<Rightarrow> pystr list option \<Rightarrow> pystr list option" where
  "intersect_tools parent child =
     (case (parent, child) of
        (None, None) \<Rightarrow> None
      | (None, Some c) \<Rightarrow> Some c
      | (Some p, None) \<Rightarrow> Some p
      | (Some p, Some c) \<Rightarrow> Some (filter (\<lambda>tool. tool \<in> set c) p))"

record effective_scope =
  es_allowed_tools :: "pystr list option"
  es_mandate_version_id :: "pystr option"
  es_agent_id :: "pystr option"
  es_depth :: int
  es_enforcement :: "pystr option"
  es_max_depth :: "int option"
  es_delegated :: bool
  es_chain :: "pystr list"

definition scope_observing :: "effective_scope \<Rightarrow> bool" where
  "scope_observing s \<longleftrightarrow> es_enforcement s = Some OBSERVE"

definition scope_permits :: "pystr \<Rightarrow> effective_scope \<Rightarrow> bool" where
  "scope_permits tool s = (case es_allowed_tools s of None \<Rightarrow> True | Some tools \<Rightarrow> tool \<in> set tools)"

text \<open>A depth that was sent but could not be read as an integer counts as zero.\<close>

definition declared_depth :: "snapshot \<Rightarrow> int option" where
  "declared_depth s =
     (case sn_max_delegation_depth s of
        Some d \<Rightarrow> Some d
      | None \<Rightarrow> if dget (u ''max_delegation_depth'') (sn_raw s) = PNone then None else Some 0)"

definition scope_from_snapshot :: "snapshot \<Rightarrow> pystr option \<Rightarrow> effective_scope" where
  "scope_from_snapshot s agent =
     \<lparr>es_allowed_tools = sn_allowed_tools s, es_mandate_version_id = sn_mandate_version_id s,
      es_agent_id = agent, es_depth = 0, es_enforcement = Some (sn_mandate_enforcement s),
      es_max_depth = declared_depth s, es_delegated = False,
      es_chain = (case agent of None \<Rightarrow> [] | Some i \<Rightarrow> [i])\<rparr>"

definition tightest :: "int option \<Rightarrow> int option \<Rightarrow> int option" where
  "tightest left right =
     (case (left, right) of (None, r) \<Rightarrow> r | (Some l, None) \<Rightarrow> Some l | (Some l, Some r) \<Rightarrow> Some (min l r))"

definition strictest :: "pystr option \<Rightarrow> pystr option \<Rightarrow> pystr" where
  "strictest left right =
     (let values = (case left of None \<Rightarrow> [] | Some l \<Rightarrow> [l]) @ (case right of None \<Rightarrow> [] | Some r \<Rightarrow> [r])
      in if values = [] then ENFORCE
         else if list_all (\<lambda>v. v = OBSERVE) values then OBSERVE else ENFORCE)"

datatype delegation_error = PolicyForbids | TooDeep int int | NoParentSnapshot

definition delegate ::
  "effective_scope \<Rightarrow> snapshot \<Rightarrow> pystr \<Rightarrow> pystr list option \<Rightarrow> bool \<Rightarrow> delegation_error + effective_scope" where
  "delegate parent snap child_id child_tools declared =
     (if map lower_char (or_default (sn_delegation_policy snap) (u ''none'')) \<noteq> u ''attenuated''
      then Inl PolicyForbids
      else
        (let depth = es_depth parent + 1;
             limit = tightest (es_max_depth parent) (declared_depth snap)
         in case limit of
              Some m \<Rightarrow> if depth > m then Inl (TooDeep depth m) else
                Inr \<lparr>es_allowed_tools = (if declared then intersect_tools (es_allowed_tools parent) child_tools else Some []),
                     es_mandate_version_id = es_mandate_version_id parent, es_agent_id = Some child_id,
                     es_depth = depth,
                     es_enforcement = Some (strictest (es_enforcement parent) (Some (sn_mandate_enforcement snap))),
                     es_max_depth = limit, es_delegated = True, es_chain = es_chain parent @ [child_id]\<rparr>
            | None \<Rightarrow>
                Inr \<lparr>es_allowed_tools = (if declared then intersect_tools (es_allowed_tools parent) child_tools else Some []),
                     es_mandate_version_id = es_mandate_version_id parent, es_agent_id = Some child_id,
                     es_depth = depth,
                     es_enforcement = Some (strictest (es_enforcement parent) (Some (sn_mandate_enforcement snap))),
                     es_max_depth = limit, es_delegated = True, es_chain = es_chain parent @ [child_id]\<rparr>))"

section \<open>Gates\<close>

text \<open>
  \<open>Plain i n\<close> is a \<open>MandateGate\<close> for agent \<open>i\<close> at address \<open>n\<close>. \<open>Delegated sc p g n\<close> is a \<open>DelegatedGate\<close>
  over the inner gate \<open>g\<close> with the delegator \<open>p\<close>; it is a gate object itself, at address \<open>n\<close>, whose own
  inherited state \<open>decide\<close> never reads.
\<close>

datatype agent_gate =
    Plain "pystr option" nat
  | Delegated effective_scope "agent_gate option" agent_gate nat

type_synonym store = "nat \<Rightarrow> gate"

fun address :: "agent_gate \<Rightarrow> nat" where
  "address (Plain i n) = n" | "address (Delegated sc p g n) = n"

fun agent_of :: "agent_gate \<Rightarrow> pystr option" where
  "agent_of (Plain i n) = i"
| "agent_of (Delegated sc p g n) =
     (case es_agent_id sc of None \<Rightarrow> agent_of g | Some i \<Rightarrow> if i = [] then agent_of g else Some i)"

fun snapshot_of :: "store \<Rightarrow> agent_gate \<Rightarrow> snapshot option" where
  "snapshot_of st (Plain i n) = g_snapshot (st n)"
| "snapshot_of st (Delegated sc p g n) = snapshot_of st g"

text \<open>\<open>f"{x}"\<close> of an optional string.\<close>

definition shown :: "pystr option \<Rightarrow> pystr" where
  "shown v = (case v of None \<Rightarrow> u ''None'' | Some s \<Rightarrow> s)"

fun gate_version :: "store \<Rightarrow> agent_gate \<Rightarrow> pystr option" where
  "gate_version st (Plain i n) = latch_version (st n)"
| "gate_version st (Delegated sc None g n) =
     Some (u ''None|'' @ shown (es_mandate_version_id sc) @ u ''|'' @ shown (gate_version st g))"
| "gate_version st (Delegated sc (Some p) g n) =
     Some (shown (gate_version st p) @ u ''|'' @ shown (es_mandate_version_id sc) @ u ''|''
           @ shown (gate_version st g))"

fun with_version :: "pystr option \<Rightarrow> verdict \<Rightarrow> verdict" where
  "with_version v (Allow i) = Allow (i\<lparr>v_version := v\<rparr>)"
| "with_version v (Flag i) = Flag (i\<lparr>v_version := v\<rparr>)"
| "with_version v (Deny i) = Deny (i\<lparr>v_version := v\<rparr>)"
| "with_version v (RequireApproval i r) = RequireApproval (i\<lparr>v_version := v\<rparr>) r"

definition narrow :: "effective_scope \<Rightarrow> action \<Rightarrow> verdict \<Rightarrow> verdict" where
  "narrow sc a v0 =
     (let base = with_version (es_mandate_version_id sc) v0;
          i = (info_of base)\<lparr>v_version := es_mandate_version_id sc, v_tool := a_tool a,
                 v_enforcement := es_enforcement sc, v_trajectory := a_trajectory a, v_step := a_step a\<rparr>
      in if \<not> allowed base then base
         else if scope_permits (a_tool a) sc then base
         else if scope_observing sc then Flag (i\<lparr>v_reason := DELEGATED_OUT_OF_SCOPE_OBSERVED\<rparr>)
         else Deny (i\<lparr>v_reason := DELEGATED_OUT_OF_SCOPE\<rparr>))"

text \<open>\<open>clock n\<close> is what the gate at \<open>n\<close> reads from its clock during the call.\<close>

definition then_narrow ::
  "effective_scope \<Rightarrow> action \<Rightarrow> (gate_error + verdict) \<times> store \<Rightarrow> (gate_error + verdict) \<times> store" where
  "then_narrow sc a r = map_prod (rmap (narrow sc a)) id r"

fun decide_gate ::
  "hash \<Rightarrow> (nat \<Rightarrow> pyfloat) \<Rightarrow> action \<Rightarrow> agent_gate \<Rightarrow> store \<Rightarrow> (gate_error + verdict) \<times> store" where
  "decide_gate sha clock a (Plain i n) st =
     (case decide sha (clock n) a (st n) of (r, g') \<Rightarrow> (r, st(n := g')))"
| "decide_gate sha clock a (Delegated sc None g n) st = then_narrow sc a (decide_gate sha clock a g st)"
| "decide_gate sha clock a (Delegated sc (Some p) g n) st =
     (case decide_gate sha clock a p st of
        (Inl e, st1) \<Rightarrow> (Inl e, st1)
      | (Inr upstream, st1) \<Rightarrow>
          if \<not> allowed upstream then (Inr upstream, st1)
          else then_narrow sc a (decide_gate sha clock a g st1))"

text \<open>\<open>record_actual_cost\<close> is inherited: it charges the object it is called on.\<close>

definition pay :: "agent_gate \<Rightarrow> pystr \<Rightarrow> xfloat \<Rightarrow> store \<Rightarrow> store" where
  "pay g trajectory cost st = st(address g := record_actual_cost trajectory cost (st (address g)))"

definition delegated_gate ::
  "store \<Rightarrow> agent_gate \<Rightarrow> agent_gate \<Rightarrow> pystr option \<Rightarrow> effective_scope option \<Rightarrow> bool \<Rightarrow> nat
     \<Rightarrow> delegation_error + agent_gate" where
  "delegated_gate st parent child child_id parent_scope declared n =
     (case snapshot_of st parent of
        None \<Rightarrow> Inl NoParentSnapshot
      | Some ps \<Rightarrow>
          (let scope = (case parent_scope of None \<Rightarrow> scope_from_snapshot ps (agent_of parent) | Some s \<Rightarrow> s);
               cs = snapshot_of st child
           in rmap (\<lambda>sc. Delegated sc (Some parent) child n)
                (delegate scope ps (or_default child_id (or_default (agent_of child) (u ''?'')))
                   (case cs of None \<Rightarrow> None | Some s \<Rightarrow> sn_allowed_tools s) (declared \<and> cs \<noteq> None))))"

end
