(* ===== verification/Governed.thy ===== *)
theory Governed
  imports Delegation
begin

text \<open>
  \<open>recorder/governed_tool.py\<close>: \<open>_check\<close>, the seam between a verdict and what happens to the call. The
  wrapper runs the tool exactly when \<open>_check\<close> returns. Recording the verdict is not part of it.
\<close>

datatype outcome =
    RunsUngated
  | Runs verdict
  | DeniedError verdict_info
  | HaltedError verdict_info int
  | CheckRaised gate_error

text \<open>\<open>MandateRunHaltedError\<close> when the latch says the run is over, an ordinary denial otherwise.\<close>

definition denial :: "verdict_info \<Rightarrow> latched \<Rightarrow> outcome" where
  "denial i d = (if ld_halted d then HaltedError i (ld_attempts d) else DeniedError i)"

record governed =
  gv_store :: store
  gv_latch :: latch
  gv_run_ids :: "nat \<rightharpoonup> pystr"

definition after_decision ::
  "run_id \<Rightarrow> principal \<Rightarrow> pystr option \<Rightarrow> gate_error + verdict \<Rightarrow> governed \<Rightarrow> outcome \<times> governed" where
  "after_decision run p version r s =
     (case r of
        Inl e \<Rightarrow> (CheckRaised e, s)
      | Inr (Deny i) \<Rightarrow>
          (case record_denial run p i version (gv_latch s) of
             (d, l') \<Rightarrow> (denial i d, s\<lparr>gv_latch := l'\<rparr>))
      | Inr v \<Rightarrow> (Runs v, s))"

text \<open>\<open>_check\<close> of an action. \<open>bound\<close> is the run id of the context, \<open>fresh\<close> the random part of a new one.\<close>

definition governed_check ::
  "hash \<Rightarrow> (nat \<Rightarrow> pyfloat) \<Rightarrow> pystr option \<Rightarrow> pystr \<Rightarrow> agent_gate option \<Rightarrow> action \<Rightarrow> governed
     \<Rightarrow> outcome \<times> governed" where
  "governed_check sha clock bound fresh gate a s0 =
     (case gate of
        None \<Rightarrow> (RunsUngated, s0)
      | Some g \<Rightarrow>
          (let (run, ids) = resolve_run_id (a_trajectory a) bound (Some (address g)) fresh (gv_run_ids s0);
               p = resolve_principal (agent_of g);
               version = gate_version (gv_store s0) g;
               s = s0\<lparr>gv_run_ids := ids\<rparr>
           in case check run p (a_tool a) version (gv_latch s) of
                (Some d, l') \<Rightarrow> (denial (ld_verdict d) d, s\<lparr>gv_latch := l'\<rparr>)
              | (None, l') \<Rightarrow>
                  (case decide_gate sha clock a g (gv_store s) of
                     (r, st') \<Rightarrow> after_decision run p version r (s\<lparr>gv_latch := l', gv_store := st'\<rparr>))))"

text \<open>The action \<open>@governed_tool\<close> builds: no step index, arguments only when captured.\<close>

definition governed_action :: "pystr \<Rightarrow> pystr option \<Rightarrow> (pykey \<times> pyval) list option \<Rightarrow> action" where
  "governed_action tool bound captured =
     \<lparr>a_tool = tool, a_trajectory = bound, a_step = None, a_arguments = captured\<rparr>"

end
