(* ===== verification/Latch_Props.thy ===== *)
theory Latch_Props
  imports Latch
begin

text \<open>
  The denial latch over any sequence of its operations: what it keeps, when it refuses, how a run
  comes to its halt and what lifts it.
\<close>

section \<open>Invariant\<close>

text \<open>
  Buckets have a first denial, a decided-against version and a count of at least one, and belong to
  a remembered run; a halt is backed by a bucket of that run at or past the threshold.
\<close>

definition latch_ok :: "latch \<Rightarrow> bool" where
  "latch_ok l \<longleftrightarrow> 1 \<le> l_max_runs l \<and> 1 \<le> l_threshold l
     \<and> distinct (l_runs l) \<and> length (l_runs l) \<le> l_max_runs l
     \<and> dom (l_first l) = dom (l_attempts l)
     \<and> (\<forall>k n. l_attempts l k = Some n \<longrightarrow>
          1 \<le> n \<and> fst k \<in> set (l_runs l) \<and> l_versions l (fst k, fst (snd k)) \<noteq> None)
     \<and> (\<forall>k i. l_first l k = Some i \<longrightarrow> is_latchable i)
     \<and> (\<forall>r p t n. l_halted l r = Some (p, t, n) \<longrightarrow>
          l_threshold l \<le> n \<and> (\<exists>m. l_attempts l (r, p, t) = Some m \<and> n \<le> m))"

text \<open>The same without the bound on the runs, as it holds between a new run and the eviction.\<close>

definition latch_core :: "latch \<Rightarrow> bool" where
  "latch_core l \<longleftrightarrow> 1 \<le> l_max_runs l \<and> 1 \<le> l_threshold l \<and> distinct (l_runs l)
     \<and> dom (l_first l) = dom (l_attempts l)
     \<and> (\<forall>k n. l_attempts l k = Some n \<longrightarrow>
          1 \<le> n \<and> fst k \<in> set (l_runs l) \<and> l_versions l (fst k, fst (snd k)) \<noteq> None)
     \<and> (\<forall>k i. l_first l k = Some i \<longrightarrow> is_latchable i)
     \<and> (\<forall>r p t n. l_halted l r = Some (p, t, n) \<longrightarrow>
          l_threshold l \<le> n \<and> (\<exists>m. l_attempts l (r, p, t) = Some m \<and> n \<le> m))"

lemma latch_ok_core: "latch_ok l \<longleftrightarrow> latch_core l \<and> length (l_runs l) \<le> l_max_runs l"
  by (auto simp: latch_ok_def latch_core_def)

lemma forget_simps [simp]:
  "l_max_runs (forget r l) = l_max_runs l" "l_threshold (forget r l) = l_threshold l"
  "l_runs (forget r l) = removeAll r (l_runs l)"
  by (simp_all add: forget_def)

lemma forget_other:
  "fst k \<noteq> r \<Longrightarrow> l_attempts (forget r l) k = l_attempts l k"
  "fst k \<noteq> r \<Longrightarrow> l_first (forget r l) k = l_first l k"
  "fst v \<noteq> r \<Longrightarrow> l_versions (forget r l) v = l_versions l v"
  "r' \<noteq> r \<Longrightarrow> l_halted (forget r l) r' = l_halted l r'"
  by (simp_all add: forget_def)

lemma core_bucket:
  "latch_core l \<Longrightarrow> l_attempts l k = Some n \<Longrightarrow>
   1 \<le> n \<and> fst k \<in> set (l_runs l) \<and> l_versions l (fst k, fst (snd k)) \<noteq> None"
  unfolding latch_core_def by blast

lemma core_first: "latch_core l \<Longrightarrow> l_first l k = Some i \<Longrightarrow> is_latchable i"
  unfolding latch_core_def by blast

lemma core_halt:
  "latch_core l \<Longrightarrow> l_halted l r = Some (p, t, n) \<Longrightarrow>
   l_threshold l \<le> n \<and> (\<exists>m. l_attempts l (r, p, t) = Some m \<and> n \<le> m)"
  unfolding latch_core_def by blast

lemma core_sizes: "latch_core l \<Longrightarrow> 1 \<le> l_max_runs l \<and> 1 \<le> l_threshold l \<and> distinct (l_runs l)"
  unfolding latch_core_def by blast

lemma latch_coreI:
  assumes "1 \<le> l_max_runs l \<and> 1 \<le> l_threshold l \<and> distinct (l_runs l)"
    and "\<And>k. l_first l k = None \<longleftrightarrow> l_attempts l k = None"
    and "\<And>k n. l_attempts l k = Some n \<Longrightarrow>
      1 \<le> n \<and> fst k \<in> set (l_runs l) \<and> l_versions l (fst k, fst (snd k)) \<noteq> None"
    and "\<And>k i. l_first l k = Some i \<Longrightarrow> is_latchable i"
    and "\<And>r p t n. l_halted l r = Some (p, t, n) \<Longrightarrow>
      l_threshold l \<le> n \<and> (\<exists>m. l_attempts l (r, p, t) = Some m \<and> n \<le> m)"
  shows "latch_core l"
proof -
  have "dom (l_first l) = dom (l_attempts l)" using assms(2) unfolding dom_def by simp
  then show ?thesis using assms unfolding latch_core_def by blast
qed

lemma latch_core_first: "latch_core l \<Longrightarrow> l_first l k = None \<longleftrightarrow> l_attempts l k = None"
  unfolding latch_core_def by (metis domIff)

lemma forget_core:
  assumes core: "latch_core l"
  shows "latch_core (forget r l)"
proof (rule latch_coreI)
  show "1 \<le> l_max_runs (forget r l) \<and> 1 \<le> l_threshold (forget r l) \<and> distinct (l_runs (forget r l))"
    using core_sizes [OF core] by (simp add: distinct_removeAll)
next
  fix k
  show "l_first (forget r l) k = None \<longleftrightarrow> l_attempts (forget r l) k = None"
    using latch_core_first [OF core, of k] by (simp add: forget_def)
next
  fix k n assume "l_attempts (forget r l) k = Some n"
  then show "1 \<le> n \<and> fst k \<in> set (l_runs (forget r l)) \<and> l_versions (forget r l) (fst k, fst (snd k)) \<noteq> None"
    using core_bucket [OF core, of k n] by (simp add: forget_def split: if_splits)
next
  fix k i assume "l_first (forget r l) k = Some i"
  then show "is_latchable i" using core_first [OF core, of k i] by (simp add: forget_def split: if_splits)
next
  fix r' p t n assume "l_halted (forget r l) r' = Some (p, t, n)"
  then show "l_threshold (forget r l) \<le> n \<and> (\<exists>m. l_attempts (forget r l) (r', p, t) = Some m \<and> n \<le> m)"
    using core_halt [OF core, of r' p t n] by (simp add: forget_def split: if_splits)
qed

lemma evict_core: "latch_core l \<Longrightarrow> latch_core (evict_runs l)"
proof (induction l rule: evict_runs.induct)
  case (1 l)
  then show ?case by (subst evict_runs.simps) (simp add: forget_core)
qed

lemma evict_simps [simp]:
  "l_max_runs (evict_runs l) = l_max_runs l \<and> l_threshold (evict_runs l) = l_threshold l"
proof (induction l rule: evict_runs.induct)
  case (1 l)
  then show ?case by (subst (1 2) evict_runs.simps) simp
qed

lemma evict_bound: "length (l_runs (evict_runs l)) \<le> l_max_runs l"
proof (induction l rule: evict_runs.induct)
  case (1 l)
  then show ?case by (subst evict_runs.simps) simp
qed

text \<open>Eviction drops a prefix of the runs, and touches nothing of the runs it keeps.\<close>

definition keeps_run :: "run_id \<Rightarrow> latch \<Rightarrow> latch \<Rightarrow> bool" where
  "keeps_run r l l' \<longleftrightarrow> l_halted l' r = l_halted l r
     \<and> (\<forall>k. fst k = r \<longrightarrow> l_attempts l' k = l_attempts l k \<and> l_first l' k = l_first l k)
     \<and> (\<forall>p. l_versions l' (r, p) = l_versions l (r, p))"

lemma keeps_run_trans: "keeps_run r a b \<Longrightarrow> keeps_run r b c \<Longrightarrow> keeps_run r a c"
  by (simp add: keeps_run_def)

lemma keeps_run_forget: "r' \<noteq> r \<Longrightarrow> keeps_run r l (forget r' l)"
  by (auto simp: keeps_run_def forget_def)

lemma evict_keeps: "r \<in> set (l_runs (evict_runs l)) \<Longrightarrow> keeps_run r l (evict_runs l)"
proof (induction l rule: evict_runs.induct)
  case (1 l)
  show ?case
  proof (cases "length (l_runs l) > l_max_runs l")
    case True
    have eq: "evict_runs l = evict_runs (forget (hd (l_runs l)) l)"
      using True by (subst evict_runs.simps) simp
    have sub: "set (l_runs (evict_runs m)) \<subseteq> set (l_runs m)" for m
    proof (induction m rule: evict_runs.induct)
      case (1 m)
      then show ?case by (subst evict_runs.simps) auto
    qed
    have "r \<noteq> hd (l_runs l)" using sub [of "forget (hd (l_runs l)) l"] "1.prems" eq by auto
    then have k1: "keeps_run r l (forget (hd (l_runs l)) l)" by (simp add: keeps_run_forget)
    have k2: "keeps_run r (forget (hd (l_runs l)) l) (evict_runs (forget (hd (l_runs l)) l))"
      by (rule "1.IH" [OF True]) (use "1.prems" eq in simp)
    show ?thesis unfolding eq by (rule keeps_run_trans [OF k1 k2])
  next
    case False
    then show ?thesis by (subst evict_runs.simps) (simp add: keeps_run_def)
  qed
qed

lemma evict_last:
  assumes "l_runs l = rs @ [r]" "r \<notin> set rs" "1 \<le> l_max_runs l"
  shows "r \<in> set (l_runs (evict_runs l))"
  using assms
proof (induction l arbitrary: rs rule: evict_runs.induct)
  case (1 l)
  show ?case
  proof (cases "length (l_runs l) > l_max_runs l")
    case True
    then obtain x xs where rs: "rs = x # xs" using "1.prems" by (cases rs) auto
    have runs: "l_runs (forget (hd (l_runs l)) l) = removeAll x xs @ [r]" using "1.prems"(1,2) rs by auto
    have "r \<in> set (l_runs (evict_runs (forget (hd (l_runs l)) l)))"
      by (rule "1.IH" [OF True runs]) (use "1.prems"(2,3) rs in auto)
    then show ?thesis using True by (subst evict_runs.simps) simp
  next
    case False
    then show ?thesis using "1.prems" by (subst evict_runs.simps) simp
  qed
qed

lemma touch_keeps: "1 \<le> l_max_runs l \<Longrightarrow> keeps_run r l (touch r l) \<and> r \<in> set (l_runs (touch r l))"
proof -
  let ?m = "l\<lparr>l_runs := removeAll r (l_runs l) @ [r]\<rparr>"
  assume "1 \<le> l_max_runs l"
  then have m: "r \<in> set (l_runs (evict_runs ?m))"
    by (intro evict_last [of _ "removeAll r (l_runs l)"]) auto
  have "keeps_run r l ?m" by (simp add: keeps_run_def)
  then show ?thesis using m evict_keeps [OF m] keeps_run_trans by (auto simp: touch_def)
qed

definition with_run :: "run_id \<Rightarrow> latch \<Rightarrow> latch" where
  "with_run r l = l\<lparr>l_runs := removeAll r (l_runs l) @ [r]\<rparr>"

lemma with_run_simps [simp]:
  "with_run r (count_attempt k l) = count_attempt k (with_run r l)"
  "with_run r (set_first k i l) = set_first k i (with_run r l)"
  "l_versions (with_run r l) = l_versions l" "l_first (with_run r l) = l_first l"
  "l_halted (with_run r l) = l_halted l" "l_attempts (with_run r l) = l_attempts l"
  "l_max_runs (with_run r l) = l_max_runs l" "l_threshold (with_run r l) = l_threshold l"
  "r \<in> set (l_runs (with_run r l))"
  by (simp_all add: with_run_def count_attempt_def set_first_def attempts_at_def Let_def)

lemma touch_eq: "touch r l = evict_runs (with_run r l)"
  by (simp add: touch_def with_run_def)

lemma with_run_core: "latch_core l \<Longrightarrow> latch_core (with_run r l)"
  by (simp add: latch_core_def with_run_def distinct_removeAll)

lemma count_simps [simp]:
  "l_runs (count_attempt k l) = l_runs l" "l_versions (count_attempt k l) = l_versions l"
  "l_first (count_attempt k l) = l_first l" "l_max_runs (count_attempt k l) = l_max_runs l"
  "l_threshold (count_attempt k l) = l_threshold l"
  "l_attempts (count_attempt k l) = (l_attempts l)(k \<mapsto> attempts_at k l + 1)"
  by (simp_all add: count_attempt_def Let_def)

lemma set_first_simps [simp]:
  "l_runs (set_first k i l) = l_runs l" "l_versions (set_first k i l) = l_versions l"
  "l_attempts (set_first k i l) = l_attempts l" "l_max_runs (set_first k i l) = l_max_runs l"
  "l_threshold (set_first k i l) = l_threshold l" "l_halted (set_first k i l) = l_halted l"
  "l_first (set_first k i l) = (if l_first l k = None then (l_first l)(k \<mapsto> i) else l_first l)"
  by (simp_all add: set_first_def)

lemma attempts_at_pos: "latch_core l \<Longrightarrow> 0 \<le> attempts_at k l"
  using core_bucket [of l k] by (auto simp: attempts_at_def split: option.splits)

lemma count_halted:
  "l_halted (count_attempt k l) r =
     (if r = fst k \<and> l_threshold l \<le> attempts_at k l + 1 \<and> l_halted l r = None
      then Some (fst (snd k), snd (snd k), attempts_at k l + 1) else l_halted l r)"
  by (auto simp: count_attempt_def Let_def)

lemma count_core:
  assumes core: "latch_core l" and run: "fst k \<in> set (l_runs l)"
    and ver: "l_versions l (fst k, fst (snd k)) \<noteq> None" and lat: "is_latchable i"
  shows "latch_core (set_first k i (count_attempt k l))"
proof (rule latch_coreI)
  let ?l = "set_first k i (count_attempt k l)"
  show "1 \<le> l_max_runs ?l \<and> 1 \<le> l_threshold ?l \<and> distinct (l_runs ?l)"
    using core_sizes [OF core] by simp
  fix j
  show "l_first ?l j = None \<longleftrightarrow> l_attempts ?l j = None"
    using latch_core_first [OF core, of j] by simp
  show "1 \<le> n \<and> fst j \<in> set (l_runs ?l) \<and> l_versions ?l (fst j, fst (snd j)) \<noteq> None"
    if "l_attempts ?l j = Some n" for n
  proof (cases "j = k")
    case True
    then show ?thesis using that attempts_at_pos [OF core, of k] run ver by auto
  next
    case False
    then show ?thesis using that core_bucket [OF core, of j n] by simp
  qed
  show "is_latchable x" if "l_first ?l j = Some x" for x
    using that lat core_first [OF core, of j] by (simp split: if_splits)
  show "l_threshold ?l \<le> n \<and> (\<exists>m. l_attempts ?l (r, p, t) = Some m \<and> n \<le> m)"
    if "l_halted ?l r = Some (p, t, n)" for r p t n
  proof (cases "r = fst k \<and> l_threshold l \<le> attempts_at k l + 1 \<and> l_halted l r = None")
    case True
    then have "(r, p, t) = k" "n = attempts_at k l + 1" using that by (auto simp: count_halted)
    then show ?thesis using True by simp
  next
    case False
    then have "l_halted l r = Some (p, t, n)" using that by (auto simp: count_halted split: if_splits)
    then obtain m where "l_attempts l (r, p, t) = Some m" "n \<le> m" "l_threshold l \<le> n"
      using core_halt [OF core] by blast
    then show ?thesis by (auto simp: attempts_at_def)
  qed
qed

lemma latch_core_known: "latch_core l \<Longrightarrow> l_first l k = Some i \<Longrightarrow> is_latchable i \<and> set_first k i l = l"
  using core_first [of l k i] by (simp add: set_first_def)

lemma forget_principal_core:
  assumes core: "latch_core l"
  shows "latch_core (forget_principal r p l)"
proof (rule latch_coreI)
  let ?l = "forget_principal r p l"
  show "1 \<le> l_max_runs ?l \<and> 1 \<le> l_threshold ?l \<and> distinct (l_runs ?l)"
    using core_sizes [OF core] by (simp add: forget_principal_def)
  fix k
  show "l_first ?l k = None \<longleftrightarrow> l_attempts ?l k = None"
    using latch_core_first [OF core, of k] by (simp add: forget_principal_def)
  show "1 \<le> n \<and> fst k \<in> set (l_runs ?l) \<and> l_versions ?l (fst k, fst (snd k)) \<noteq> None"
    if "l_attempts ?l k = Some n" for n
    using that core_bucket [OF core, of k n] by (simp add: forget_principal_def split: if_splits)
  show "is_latchable i" if "l_first ?l k = Some i" for i
    using that core_first [OF core, of k i] by (simp add: forget_principal_def split: if_splits)
  show "l_threshold ?l \<le> n \<and> (\<exists>m. l_attempts ?l (r', q, t) = Some m \<and> n \<le> m)"
    if h: "l_halted ?l r' = Some (q, t, n)" for r' q t n
  proof -
    have old: "l_halted l r' = Some (q, t, n)" and other: "\<not> (r' = r \<and> q = p)"
      using h by (auto simp: forget_principal_def split: option.splits if_splits)
    then show ?thesis using core_halt [OF core old] by (simp add: forget_principal_def owns_def)
  qed
qed

lemma version_core: "latch_core l \<Longrightarrow> latch_core (l\<lparr>l_versions := (l_versions l)(x \<mapsto> v)\<rparr>)"
  by (rule latch_coreI)
    (use core_sizes [of l] in \<open>auto simp: latch_core_first dest: core_bucket core_first core_halt\<close>)

lemma reconcile_eq:
  "reconcile_version r p v l =
     (if l_versions l (r, p) = Some v then l
      else (if l_versions l (r, p) = None then l else forget_principal r p l)
             \<lparr>l_versions := (l_versions l)((r, p) \<mapsto> v)\<rparr>)"
  by (auto simp: reconcile_version_def split: option.splits)

lemma forget_principal_simps [simp]:
  "l_versions (forget_principal r p l) = l_versions l" "l_runs (forget_principal r p l) = l_runs l"
  "l_threshold (forget_principal r p l) = l_threshold l" "l_max_runs (forget_principal r p l) = l_max_runs l"
  by (simp_all add: forget_principal_def)

lemma reconcile_core: "latch_core l \<Longrightarrow> latch_core (reconcile_version r p v l)"
  using version_core [of "forget_principal r p l"] by (auto simp: reconcile_eq version_core forget_principal_core)

lemma reconcile_simps [simp]:
  "l_versions (reconcile_version r p v l) (r, p) = Some v" "l_runs (reconcile_version r p v l) = l_runs l"
  "l_threshold (reconcile_version r p v l) = l_threshold l" "l_max_runs (reconcile_version r p v l) = l_max_runs l"
  by (auto simp: reconcile_eq)

lemma touched_ok: "latch_core (with_run r l) \<Longrightarrow> latch_ok (touch r l)"
  using evict_bound [of "with_run r l"] by (simp add: latch_ok_core touch_eq evict_core)

lemma record_ok:
  assumes "latch_ok l" "record_denial r p i v l = (ld, l')"
  shows "latch_ok l'"
proof (cases "is_latchable i")
  case True
  let ?l = "with_run r (reconcile_version r p v l)" and ?k = "(r, p, tool_of i)"
  have "latch_core ?l" using assms(1) by (simp add: latch_ok_core reconcile_core with_run_core)
  then have "latch_core (set_first ?k i (count_attempt ?k ?l))" by (rule count_core) (simp_all add: True)
  then have "latch_ok (touch r (set_first ?k i (count_attempt ?k (reconcile_version r p v l))))"
    by (intro touched_ok) simp
  then show ?thesis using assms(2) True by (auto simp: record_denial_def Let_def)
qed (use assms in \<open>simp add: record_denial_def\<close>)

lemma check_ok:
  assumes "latch_ok l" "check r p t v l = (ld, l')"
  shows "latch_ok l'"
proof -
  let ?m = "reconcile_version r p v l"
  have core: "latch_core ?m" using assms(1) by (simp add: latch_ok_core reconcile_core)
  have bound: "length (l_runs ?m) \<le> l_max_runs ?m" using assms(1) by (simp add: latch_ok_core)
  consider q where "l_halted ?m r = Some q" | "l_halted ?m r = None" "l_first ?m (r, p, t) = None"
    | i where "l_halted ?m r = None" "l_first ?m (r, p, t) = Some i" by fastforce
  then show ?thesis
  proof cases
    case 1
    then have "l' = touch r ?m" using assms(2) by (cases q) (auto simp: check_def Let_def)
    then show ?thesis using touched_ok with_run_core [OF core] by simp
  next
    case 2
    then show ?thesis using assms(2) core bound by (simp add: check_def Let_def latch_ok_core)
  next
    case 3
    let ?w = "with_run r ?m" and ?k = "(r, p, t)"
    have l': "l' = touch r (count_attempt ?k ?m)" using 3 assms(2) by (auto simp: check_def Let_def)
    have "latch_core (set_first ?k i (count_attempt ?k ?w))"
      by (rule count_core) (use with_run_core [OF core] core_first [OF core 3(2)] in simp_all)
    moreover have "set_first ?k i (count_attempt ?k ?w) = count_attempt ?k ?w"
      using 3(2) by (simp add: set_first_def)
    ultimately have "latch_core (with_run r (count_attempt ?k ?m))" by simp
    then show ?thesis using touched_ok l' by simp
  qed
qed

lemma reset_ok: "latch_ok l \<Longrightarrow> latch_ok (reset r l)"
proof (cases r)
  case None
  assume "latch_ok l"
  then show ?thesis using None by (simp add: latch_ok_def reset_def)
next
  case (Some x)
  assume "latch_ok l"
  then show ?thesis using Some forget_core [of l x] le_trans [OF length_filter_le, of "l_runs l"]
    by (simp add: latch_ok_core reset_def removeAll_filter_not_eq)
qed

section \<open>Sequences of operations\<close>

datatype latch_op =
    Record run_id principal verdict_info "pystr option"
  | Check run_id principal pystr "pystr option"
  | Reset "run_id option"

fun apply_op :: "latch_op \<Rightarrow> latch \<Rightarrow> latch" where
  "apply_op (Record r p i v) l = snd (record_denial r p i v l)"
| "apply_op (Check r p t v) l = snd (check r p t v l)"
| "apply_op (Reset r) l = reset r l"

lemma apply_op_ok: "latch_ok l \<Longrightarrow> latch_ok (apply_op op l)"
proof (cases op)
  case (Record r p i v)
  assume "latch_ok l"
  then show ?thesis using record_ok [of l r p i v] Record by (cases "record_denial r p i v l") auto
next
  case (Check r p t v)
  assume "latch_ok l"
  then show ?thesis using check_ok [of l r p t v] Check by (cases "check r p t v l") auto
qed (auto intro: reset_ok)

lemma new_latch_ok: "1 \<le> env \<Longrightarrow> latch_ok (new_latch env t m)"
  by (auto simp: latch_ok_def new_latch_def split: option.splits)

definition latch_after :: "int \<Rightarrow> int option \<Rightarrow> int \<Rightarrow> latch_op list \<Rightarrow> latch" where
  "latch_after env t m ops = foldl (\<lambda>l op. apply_op op l) (new_latch env t m) ops"

text \<open>
  C14: Over every sequence of operations a latch remembers at most its bound of runs; every bucket
  belongs to one of them, holds a scope denial and a count of at least one; and a run is halted only
  if one of its buckets has reached the threshold.
\<close>

theorem latch_invariant:
  assumes "1 \<le> env"
  shows "latch_ok (latch_after env t m ops)"
proof (induction ops rule: rev_induct)
  case Nil
  show ?case using assms by (simp add: latch_after_def new_latch_ok)
qed (simp add: latch_after_def apply_op_ok)

section \<open>Repeats end the run\<close>

text \<open>The state of one bucket of a run that is not halted for another reason.\<close>

definition bucket_at :: "bucket \<Rightarrow> pystr option \<Rightarrow> verdict_info \<Rightarrow> int \<Rightarrow> latch \<Rightarrow> bool" where
  "bucket_at k v i n l \<longleftrightarrow> latch_ok l \<and> l_versions l (fst k, fst (snd k)) = Some v \<and> l_first l k = Some i
     \<and> l_attempts l k = Some n
     \<and> l_halted l (fst k) = (if n \<ge> l_threshold l then Some (fst (snd k), snd (snd k), n) else None)"

lemma touch_threshold [simp]: "l_threshold (touch r l) = l_threshold l" "l_max_runs (touch r l) = l_max_runs l"
  by (simp_all add: touch_eq)

lemma touch_run:
  assumes "1 \<le> l_max_runs l"
  shows "l_halted (touch r l) r = l_halted l r"
    and "fst k = r \<Longrightarrow> l_attempts (touch r l) k = l_attempts l k"
    and "fst k = r \<Longrightarrow> l_first (touch r l) k = l_first l k"
    and "l_versions (touch r l) (r, p) = l_versions l (r, p)"
  using touch_keeps [OF assms, of r] unfolding keeps_run_def by blast+

lemma record_first:
  assumes "latch_ok l" "\<not> is_halted r l" "l_attempts l (r, p, tool_of i) = None" "is_latchable i"
    and "record_denial r p i v l = (ld, l1)"
  shows "bucket_at (r, p, tool_of i) v i 1 l1 \<and> l_threshold l1 = l_threshold l"
proof -
  let ?m = "reconcile_version r p v l" and ?k = "(r, p, tool_of i)"
  have core: "latch_core ?m" using assms(1) by (simp add: latch_ok_core reconcile_core)
  have max: "1 \<le> l_max_runs (set_first ?k i (count_attempt ?k ?m))" using core_sizes [OF core] by simp
  have none: "l_attempts ?m ?k = None" "l_halted ?m r = None"
    using assms(2,3) by (auto simp: reconcile_eq forget_principal_def is_halted_def split: option.splits)
  then have first: "l_first ?m ?k = None" using latch_core_first [OF core] by simp
  have l1: "l1 = touch r (set_first ?k i (count_attempt ?k ?m))"
    using assms(4,5) by (auto simp: record_denial_def Let_def)
  show ?thesis
    using record_ok [OF assms(1,5)] none first
    by (simp add: l1 bucket_at_def touch_run [OF max] count_halted attempts_at_def)
qed

lemma check_bucket:
  assumes "bucket_at (r, p, t) v i n l" "n < l_threshold l"
  shows "fst (check r p t v l) = Some \<lparr>ld_run = r, ld_principal = p, ld_tool = t, ld_attempts = n + 1,
      ld_halted = (n + 1 \<ge> l_threshold l),
      ld_verdict = relabel i t (if n + 1 \<ge> l_threshold l then RUN_HALTED else REPEAT_DENIED)\<rparr>"
    and "bucket_at (r, p, t) v i (n + 1) (snd (check r p t v l))"
    and "l_threshold (snd (check r p t v l)) = l_threshold l"
proof -
  have b: "latch_ok l" "l_versions l (r, p) = Some v" "l_first l (r, p, t) = Some i"
    "l_attempts l (r, p, t) = Some n" "l_halted l r = None"
    using assms by (auto simp: bucket_at_def)
  have rec: "reconcile_version r p v l = l" using b(2) by (simp add: reconcile_eq)
  have max: "1 \<le> l_max_runs (count_attempt (r, p, t) l)" using b(1) by (simp add: latch_ok_def)
  have c: "check r p t v l =
      (Some \<lparr>ld_run = r, ld_principal = p, ld_tool = t, ld_attempts = n + 1,
         ld_halted = (n + 1 \<ge> l_threshold l),
         ld_verdict = relabel i t (if n + 1 \<ge> l_threshold l then RUN_HALTED else REPEAT_DENIED)\<rparr>,
       touch r (count_attempt (r, p, t) l))"
    using b by (simp add: check_def rec attempts_at_def Let_def)
  then show "fst (check r p t v l) = Some \<lparr>ld_run = r, ld_principal = p, ld_tool = t, ld_attempts = n + 1,
      ld_halted = (n + 1 \<ge> l_threshold l),
      ld_verdict = relabel i t (if n + 1 \<ge> l_threshold l then RUN_HALTED else REPEAT_DENIED)\<rparr>" by simp
  have ok: "latch_ok (touch r (count_attempt (r, p, t) l))" using check_ok [OF b(1) c] .
  show "bucket_at (r, p, t) v i (n + 1) (snd (check r p t v l))"
    using ok b by (simp add: c bucket_at_def touch_run [OF max] count_halted attempts_at_def)
  show "l_threshold (snd (check r p t v l)) = l_threshold l" by (simp add: c)
qed

definition ask :: "run_id \<Rightarrow> principal \<Rightarrow> pystr \<Rightarrow> pystr option \<Rightarrow> nat \<Rightarrow> latch \<Rightarrow> latch" where
  "ask r p t v n = (\<lambda>l. snd (check r p t v l)) ^^ n"

lemma ask_bucket:
  assumes "bucket_at (r, p, t) v i 1 l" "int n < l_threshold l"
  shows "bucket_at (r, p, t) v i (int n + 1) (ask r p t v n l) \<and> l_threshold (ask r p t v n l) = l_threshold l"
  using assms(2)
proof (induction n)
  case 0
  then show ?case using assms(1) by (simp add: ask_def)
next
  case (Suc n)
  then have ih: "bucket_at (r, p, t) v i (int n + 1) (ask r p t v n l)" "l_threshold (ask r p t v n l) = l_threshold l"
    by simp_all
  have lt: "int n + 1 < l_threshold (ask r p t v n l)" using Suc.prems ih(2) by simp
  have "ask r p t v (Suc n) l = snd (check r p t v (ask r p t v n l))" by (simp add: ask_def)
  then show ?case using check_bucket(2,3) [OF ih(1) lt] ih(2) by (simp add: add.commute)
qed

text \<open>
  A tool once denied is never evaluated again in its run while the mandate version stands, and
  repeats end the run: after a first denial, the \<open>n\<close>-th further attempt is refused from memory and
  counted as attempt \<open>n + 1\<close>; it is the attempt that reaches the threshold, and no earlier one,
  that halts the run.
\<close>

theorem repeated_denials_halt_run:
  assumes "latch_ok l" "\<not> is_halted r l" "l_attempts l (r, p, tool_of i) = None" "is_latchable i"
    and "record_denial r p i v l = (ld, l1)" "1 \<le> n" "int n < l_threshold l"
  shows "\<exists>d. fst (check r p (tool_of i) v (ask r p (tool_of i) v (n - 1) l1)) = Some d
    \<and> ld_attempts d = int n + 1 \<and> ld_halted d = (int n + 1 = l_threshold l)
    \<and> v_reason (ld_verdict d) = (if int n + 1 = l_threshold l then RUN_HALTED else REPEAT_DENIED)
    \<and> is_halted r (ask r p (tool_of i) v n l1) = (int n + 1 = l_threshold l)"
proof -
  have b: "bucket_at (r, p, tool_of i) v i 1 l1" "l_threshold l1 = l_threshold l"
    using record_first [OF assms(1-5)] by auto
  let ?m = "ask r p (tool_of i) v (n - 1) l1"
  have m: "bucket_at (r, p, tool_of i) v i (int n) ?m" "l_threshold ?m = l_threshold l"
    using ask_bucket [OF b(1), of "n - 1"] b(2) assms(6,7) by auto
  have now: "bucket_at (r, p, tool_of i) v i (int n + 1) (ask r p (tool_of i) v n l1)"
      "l_threshold (ask r p (tool_of i) v n l1) = l_threshold l"
    using ask_bucket [OF b(1), of n] b(2) assms(7) by auto
  have "is_halted r (ask r p (tool_of i) v n l1) = (int n + 1 = l_threshold l)"
    using now assms(7) by (auto simp: bucket_at_def is_halted_def)
  then show ?thesis using check_bucket(1) [OF m(1)] m(2) assms(7) by (auto simp: relabel_def)
qed

section \<open>What lifts a halt\<close>

lemma evict_one:
  assumes "length (l_runs l) \<le> Suc (l_max_runs l)"
  shows "evict_runs l = (if length (l_runs l) > l_max_runs l then forget (hd (l_runs l)) l else l)"
proof (cases "length (l_runs l) > l_max_runs l")
  case True
  then have "length (l_runs (forget (hd (l_runs l)) l)) < length (l_runs l)"
    by (intro forget_shortens) auto
  then have "\<not> l_max_runs (forget (hd (l_runs l)) l) < length (l_runs (forget (hd (l_runs l)) l))"
    using assms by simp
  then have "evict_runs (forget (hd (l_runs l)) l) = forget (hd (l_runs l)) l"
    by (subst evict_runs.simps) simp
  then show ?thesis using True by (subst evict_runs.simps) simp
qed (subst evict_runs.simps, simp)

text \<open>The one run a touch may forget: the least recently seen, of a latch that is full.\<close>

definition evicts :: "run_id \<Rightarrow> latch \<Rightarrow> run_id \<Rightarrow> bool" where
  "evicts r l x \<longleftrightarrow> r \<notin> set (l_runs l) \<and> length (l_runs l) = l_max_runs l \<and> l_runs l \<noteq> [] \<and> x = hd (l_runs l)"

lemma touch_other:
  assumes "latch_ok l" "\<not> evicts r l x" "x \<noteq> r" "l_runs m = l_runs l" "l_max_runs m = l_max_runs l"
  shows "l_halted (touch r m) x = l_halted m x"
proof -
  let ?w = "with_run r m"
  have len: "length (l_runs ?w) \<le> Suc (l_max_runs ?w)"
    using assms(1,4,5) le_trans [OF length_filter_le, of "l_runs l" "l_max_runs l"]
    by (simp add: with_run_def latch_ok_def removeAll_filter_not_eq)
  show ?thesis
  proof (cases "length (l_runs ?w) > l_max_runs ?w")
    case True
    have "r \<notin> set (l_runs l)"
    proof
      assume "r \<in> set (l_runs l)"
      then have "length (removeAll r (l_runs l)) < length (l_runs l)" by (rule length_removeAll_less)
      then show False using True assms(1,4,5) by (simp add: with_run_def latch_ok_def)
    qed
    then have rem: "removeAll r (l_runs l) = l_runs l" by (rule removeAll_id)
    have full: "length (l_runs l) = l_max_runs l" "l_runs l \<noteq> []"
      using True rem assms(1,4,5) by (auto simp: with_run_def latch_ok_def)
    then have "x \<noteq> hd (l_runs ?w)"
      using assms(2,4) \<open>r \<notin> set (l_runs l)\<close> rem by (simp add: with_run_def evicts_def)
    then show ?thesis using evict_one [OF len] True by (simp add: touch_eq forget_other)
  next
    case False
    then show ?thesis using evict_one [OF len] by (simp add: touch_eq)
  qed
qed

fun lifts :: "latch \<Rightarrow> run_id \<Rightarrow> principal \<Rightarrow> latch_op \<Rightarrow> bool" where
  "lifts l r q (Record r' p i v) \<longleftrightarrow>
     is_latchable i \<and> (r' = r \<and> p = q \<and> l_versions l (r, q) \<noteq> Some v \<or> evicts r' l r)"
| "lifts l r q (Check r' p t v) \<longleftrightarrow> r' = r \<and> p = q \<and> l_versions l (r, q) \<noteq> Some v \<or> evicts r' l r"
| "lifts l r q (Reset x) \<longleftrightarrow> x = None \<or> x = Some r"

lemma reconcile_halted:
  assumes "l_halted l r = Some (q, t, n)" "\<not> (r' = r \<and> p = q \<and> l_versions l (r, q) \<noteq> Some v)"
  shows "l_halted (reconcile_version r' p v l) r = Some (q, t, n)"
  using assms by (auto simp: reconcile_eq forget_principal_def split: option.splits)

lemma touch_halted:
  assumes "latch_ok l" "\<not> evicts r' l r" "l_runs m = l_runs l" "l_max_runs m = l_max_runs l"
  shows "l_halted (touch r' m) r = l_halted m r"
  using touch_run(1) [of m r] touch_other [OF assms(1,2) _ assms(3,4)] assms(1,4)
  by (cases "r = r'") (auto simp: latch_ok_def)

lemma record_keeps_halt:
  assumes "latch_ok l" "l_halted l r = Some (q, t, n)" "\<not> lifts l r q (Record r' p i v)"
  shows "l_halted (snd (record_denial r' p i v l)) r = Some (q, t, n)"
proof (cases "is_latchable i")
  case True
  let ?m = "reconcile_version r' p v l"
  have "l_halted ?m r = Some (q, t, n)" by (rule reconcile_halted) (use assms(2,3) True in auto)
  then have "l_halted (set_first k i (count_attempt k ?m)) r = Some (q, t, n)" for k by (simp add: count_halted)
  then show ?thesis using True assms(3)
    by (simp add: record_denial_def Let_def touch_halted [OF assms(1)])
qed (use assms in \<open>simp add: record_denial_def\<close>)

lemma check_keeps_halt:
  assumes "latch_ok l" "l_halted l r = Some (q, t, n)" "\<not> lifts l r q (Check r' p t' v)"
  shows "l_halted (snd (check r' p t' v l)) r = Some (q, t, n)"
proof -
  let ?m = "reconcile_version r' p v l"
  have m: "l_halted ?m r = Some (q, t, n)" by (rule reconcile_halted) (use assms(2,3) in auto)
  have keep: "l_halted (touch r' x) r = l_halted x r" if "l_runs x = l_runs l" "l_max_runs x = l_max_runs l" for x
    by (rule touch_halted [OF assms(1) _ that]) (use assms(3) in auto)
  have count: "l_halted (count_attempt k ?m) r = Some (q, t, n)" for k using m by (simp add: count_halted)
  show ?thesis
    using m count by (simp add: check_def Let_def keep split: option.splits prod.splits)
qed

text \<open>
  A halt stays, and stops everyone: until the halting principal comes back with another mandate
  version, the run is reset, or it is the least recently seen of a full latch, a halted run stays
  halted over every operation, and each check of any tool by any principal is refused with
  the halt as its reason and the attempts that caused it.
\<close>

theorem halt_stops_everyone:
  assumes "latch_ok l" "l_halted l r = Some (q, t, n)"
  shows "(\<forall>op. lifts l r q op \<or> l_halted (apply_op op l) r = Some (q, t, n))
    \<and> (\<forall>p tool v. lifts l r q (Check r p tool v)
        \<or> (\<exists>d. fst (check r p tool v l) = Some d \<and> ld_halted d \<and> ld_attempts d = n
             \<and> v_reason (ld_verdict d) = RUN_HALTED \<and> v_tool (ld_verdict d) = tool))"
proof (intro conjI allI)
  fix op
  show "lifts l r q op \<or> l_halted (apply_op op l) r = Some (q, t, n)"
  proof (cases op)
    case (Record r' p i v)
    then show ?thesis using record_keeps_halt [OF assms, of r' p i v] by (simp del: lifts.simps) blast
  next
    case (Check r' p t' v)
    then show ?thesis using check_keeps_halt [OF assms, of r' p t' v] by (simp del: lifts.simps) blast
  next
    case (Reset x)
    then show ?thesis using assms(2) by (cases x) (auto simp: reset_def forget_def)
  qed
next
  fix p tool v
  show "lifts l r q (Check r p tool v)
      \<or> (\<exists>d. fst (check r p tool v l) = Some d \<and> ld_halted d \<and> ld_attempts d = n
             \<and> v_reason (ld_verdict d) = RUN_HALTED \<and> v_tool (ld_verdict d) = tool)"
  proof (cases "lifts l r q (Check r p tool v)")
    case False
    have "l_halted (reconcile_version r p v l) r = Some (q, t, n)"
      by (rule reconcile_halted [OF assms(2)]) (use False in auto)
    then show ?thesis by (simp add: check_def Let_def halt_verdict_def split: option.splits)
  qed simp
qed

text \<open>
  A new mandate version gives a principal a fresh start in its run: unless another principal
  halted the run, the gate decides again, with no attempt remembered for any tool.
\<close>

theorem new_version_decides_again:
  assumes "latch_ok l" "l_versions l (r, p) = Some old" "old \<noteq> v"
    and "l_halted l r = None \<or> (\<exists>t n. l_halted l r = Some (p, t, n))"
  shows "\<exists>l'. check r p tool v l = (None, l') \<and> \<not> is_halted r l' \<and> (\<forall>t. attempts_at (r, p, t) l' = 0)"
proof -
  let ?m = "reconcile_version r p v l"
  have core: "latch_core ?m" using assms(1) by (simp add: latch_ok_core reconcile_core)
  have none: "l_attempts ?m (r, p, t) = None" for t
    using assms(2,3) by (simp add: reconcile_eq forget_principal_def owns_def)
  have first: "l_first ?m (r, p, tool) = None" using none latch_core_first [OF core] by simp
  have halt: "l_halted ?m r = None"
    using assms(2-4) by (auto simp: reconcile_eq forget_principal_def)
  show ?thesis using none first halt by (simp add: check_def Let_def is_halted_def attempts_at_def)
qed

definition check_all :: "principal \<Rightarrow> pystr \<Rightarrow> pystr option \<Rightarrow> run_id list \<Rightarrow> latch \<Rightarrow> latch" where
  "check_all p tool v runs l = foldl (\<lambda>l r. snd (check r p tool v l)) l runs"

lemma check_undenied:
  assumes "l_first l = (\<lambda>_. None)" "l_halted l = (\<lambda>_. None)" "l_runs l = []" "l_versions l (r, p) = None"
  shows "snd (check r p tool v l) = l\<lparr>l_versions := (l_versions l)((r, p) \<mapsto> v)\<rparr>"
  using assms by (simp add: check_def reconcile_eq Let_def)

text \<open>
  The bound on runs does not bound the versions: checking \<open>n\<close> different runs in which nothing is ever
  denied leaves \<open>n\<close> entries in the version table of a latch that remembers no run at all.
\<close>

theorem versions_outlive_bound:
  assumes "distinct runs"
  shows "l_runs (check_all p tool v runs (new_latch env t m)) = []
    \<and> card (dom (l_versions (check_all p tool v runs (new_latch env t m)))) = length runs"
proof -
  define L where "L rs = check_all p tool v rs (new_latch env t m)" for rs
  have "l_first (L rs) = (\<lambda>_. None) \<and> l_halted (L rs) = (\<lambda>_. None) \<and> l_runs (L rs) = []
      \<and> dom (l_versions (L rs)) = (\<lambda>r. (r, p)) ` set rs" if "distinct rs" for rs
    using that
  proof (induction rs rule: rev_induct)
    case Nil
    show ?case by (simp add: L_def check_all_def new_latch_def)
  next
    case (snoc r rs)
    then have ih: "l_first (L rs) = (\<lambda>_. None)" "l_halted (L rs) = (\<lambda>_. None)" "l_runs (L rs) = []"
        "dom (l_versions (L rs)) = (\<lambda>r. (r, p)) ` set rs" by simp_all
    have "(r, p) \<notin> dom (l_versions (L rs))" using ih(4) snoc.prems by auto
    then have "L (rs @ [r]) = (L rs)\<lparr>l_versions := (l_versions (L rs))((r, p) \<mapsto> v)\<rparr>"
      using check_undenied [OF ih(1-3)] by (simp add: L_def check_all_def domIff)
    moreover have "dom ((l_versions (L rs))((r, p) \<mapsto> v)) = insert (r, p) (dom (l_versions (L rs)))" by auto
    ultimately show ?case using ih by (simp del: fun_upd_apply)
  qed
  from this [OF assms] have "l_runs (L runs) = []" "dom (l_versions (L runs)) = (\<lambda>r. (r, p)) ` set runs" by auto
  moreover have "card ((\<lambda>r. (r, p)) ` set runs) = length runs"
    using assms by (simp add: card_image inj_on_def distinct_card)
  ultimately show ?thesis by (simp add: L_def)
qed

end
