(* ===== verification/Delegation_Props.thy ===== *)
theory Delegation_Props
  imports Delegation Gate_Witness
begin

text \<open>
  Delegation only narrows: along a chain of scopes, and through the gate that asks the delegator
  first. And where the delegated gate loses what the gates underneath it keep.
\<close>

section \<open>Chains of scopes\<close>

fun tools_permit :: "pystr \<Rightarrow> pystr list option \<Rightarrow> bool" where
  "tools_permit t None = True"
| "tools_permit t (Some tools) = (t \<in> set tools)"

lemma scope_permits_eq: "scope_permits t s = tools_permit t (es_allowed_tools s)"
  by (simp add: scope_permits_def split: option.splits)

lemma intersect_permits: "tools_permit t (intersect_tools p c) \<longleftrightarrow> tools_permit t p \<and> tools_permit t c"
  by (cases p; cases c) (auto simp: intersect_tools_def)

lemma tightest_le:
  "tightest l r = Some m \<Longrightarrow> (\<forall>x. l = Some x \<longrightarrow> m \<le> x) \<and> (\<forall>x. r = Some x \<longrightarrow> m \<le> x)"
  "tightest l r = None \<longleftrightarrow> l = None \<and> r = None"
  by (auto simp: tightest_def split: option.splits)

lemma OBSERVE_ENFORCE [simp]: "OBSERVE \<noteq> ENFORCE" "ENFORCE \<noteq> OBSERVE"
  by (simp_all add: OBSERVE_def ENFORCE_def)

lemma strictest_observe:
  "strictest l r = OBSERVE \<longleftrightarrow> (l, r) \<noteq> (None, None) \<and> l \<in> {None, Some OBSERVE} \<and> r \<in> {None, Some OBSERVE}"
  by (auto simp: strictest_def Let_def split: option.splits)

lemma delegate_spec:
  assumes "delegate p snap i tools declared = Inr c"
  shows "(\<forall>t. scope_permits t c \<longleftrightarrow> declared \<and> scope_permits t p \<and> tools_permit t tools)
    \<and> es_mandate_version_id c = es_mandate_version_id p \<and> es_depth c = es_depth p + 1
    \<and> es_max_depth c = tightest (es_max_depth p) (declared_depth snap)
    \<and> (\<forall>m. es_max_depth c = Some m \<longrightarrow> es_depth c \<le> m)
    \<and> (scope_observing c \<longleftrightarrow> es_enforcement p \<in> {None, Some OBSERVE} \<and> observing snap)
    \<and> es_enforcement c \<noteq> None \<and> es_chain c = es_chain p @ [i]"
proof -
  have permits: "scope_permits t c \<longleftrightarrow> declared \<and> scope_permits t p \<and> tools_permit t tools" for t
    using assms
    by (auto simp: delegate_def Let_def scope_permits_eq intersect_permits split: if_splits option.splits)
  have rest: "es_mandate_version_id c = es_mandate_version_id p" "es_depth c = es_depth p + 1"
    "es_max_depth c = tightest (es_max_depth p) (declared_depth snap)"
    "es_enforcement c = Some (strictest (es_enforcement p) (Some (sn_mandate_enforcement snap)))"
    "es_chain c = es_chain p @ [i]"
    using assms by (auto simp: delegate_def Let_def split: if_splits option.splits)
  have depth: "es_depth c \<le> m" if "es_max_depth c = Some m" for m
    using assms that by (auto simp: delegate_def Let_def split: if_splits option.splits)
  show ?thesis
    using permits rest depth by (auto simp: scope_observing_def observing_def strictest_observe)
qed

inductive descends :: "effective_scope \<Rightarrow> effective_scope \<Rightarrow> bool" where
  descends_self: "descends s s"
| descends_step: "descends s p \<Longrightarrow> delegate p snap i tools declared = Inr c \<Longrightarrow> descends s c"

text \<open>
  C15: However long a chain of delegations grows, and whatever mandates the agents on it have, the scope
  at its end permits only tools the first scope permits, answers to the first scope's mandate
  version, is observed rather than enforced only if the first scope is, and is no deeper than any
  depth limit at its start.
\<close>

theorem delegation_chain_narrows:
  assumes "descends s c" "es_enforcement s \<noteq> None"
  shows "(scope_permits t c \<longrightarrow> scope_permits t s) \<and> es_mandate_version_id c = es_mandate_version_id s
    \<and> (scope_observing c \<longrightarrow> scope_observing s)
    \<and> (c = s \<or> (\<forall>m. es_max_depth s = Some m \<longrightarrow> es_depth s < es_depth c \<and> es_depth c \<le> m))"
proof -
  have "(\<forall>t. scope_permits t c \<longrightarrow> scope_permits t s) \<and> es_mandate_version_id c = es_mandate_version_id s
    \<and> (scope_observing c \<longrightarrow> scope_observing s) \<and> es_enforcement c \<noteq> None
    \<and> (\<forall>m. es_max_depth s = Some m \<longrightarrow> (\<exists>m'. es_max_depth c = Some m' \<and> m' \<le> m))
    \<and> (c = s \<or> es_depth s < es_depth c \<and> (\<forall>m. es_max_depth c = Some m \<longrightarrow> es_depth c \<le> m))"
    using assms
  proof (induction rule: descends.induct)
    case (descends_self s)
    then show ?case by simp
  next
    case (descends_step s p snap i tools declared c)
    note d = delegate_spec [OF descends_step.hyps(2)]
    have limit: "\<exists>m'. es_max_depth c = Some m' \<and> m' \<le> m" if lim: "es_max_depth s = Some m" for m
    proof -
      obtain m' where m': "es_max_depth p = Some m'" "m' \<le> m"
        using descends_step.IH descends_step.prems lim by blast
      then obtain x where "es_max_depth c = Some x" using d tightest_le(2) by (metis not_None_eq option.distinct(1))
      then show ?thesis using d tightest_le(1) m' by fastforce
    qed
    show ?case using descends_step.IH descends_step.prems d limit
      by (auto simp: scope_observing_def)
  qed
  then show ?thesis by fastforce
qed

section \<open>The delegated gate\<close>

fun leaves :: "agent_gate \<Rightarrow> nat set" where
  "leaves (Plain i n) = {n}"
| "leaves (Delegated sc None g n) = leaves g"
| "leaves (Delegated sc (Some p) g n) = leaves p \<union> leaves g"

fun scopes :: "agent_gate \<Rightarrow> effective_scope set" where
  "scopes (Plain i n) = {}"
| "scopes (Delegated sc None g n) = insert sc (scopes g)"
| "scopes (Delegated sc (Some p) g n) = insert sc (scopes p \<union> scopes g)"

lemma allowed_with_version [simp]: "allowed (with_version x v) = allowed v"
  by (cases v) auto

lemma narrow_allowed:
  "allowed (narrow sc a v) \<longleftrightarrow> allowed v \<and> (scope_permits (a_tool a) sc \<or> scope_observing sc)"
  by (auto simp: narrow_def Let_def)

lemma then_narrow_Inr:
  "then_narrow sc a r = (Inr v, st) \<longleftrightarrow> (\<exists>v0. r = (Inr v0, st) \<and> v = narrow sc a v0)"
  by (cases r) (auto simp: then_narrow_def rmap_Inr_iff)

lemma decide_keeps_mandate:
  assumes "decide_gate sha clock a T st = (r, st')"
  shows "same_mandate (st n) (st' n)"
  using assms
proof (induction sha clock a T st arbitrary: r st' rule: decide_gate.induct)
  case (1 sha clock a i m st)
  obtain x g' where d: "decide sha (clock m) a (st m) = (x, g')" by (cases "decide sha (clock m) a (st m)")
  then show ?case using decide_effect [OF d] "1.prems" by auto
next
  case (2 sha clock a sc g m st)
  then show ?case by (cases "decide_gate sha clock a g st") (auto simp: then_narrow_def)
next
  case (3 sha clock a sc p g m st)
  obtain x st1 where u: "decide_gate sha clock a p st = (x, st1)" by (cases "decide_gate sha clock a p st")
  note first = "3.IH"(1) [OF u]
  show ?case
  proof (cases x)
    case (Inl e)
    then show ?thesis using "3.prems" u first by simp
  next
    case (Inr up)
    show ?thesis
    proof (cases "allowed up")
      case True
      obtain y st2 where g: "decide_gate sha clock a g st1 = (y, st2)" by (cases "decide_gate sha clock a g st1")
      have "same_mandate (st1 n) (st2 n)" using "3.IH"(2) [OF u [symmetric] Inr _ g] True by simp
      moreover have "st' = st2" using "3.prems" u Inr True g by (simp add: then_narrow_def)
      ultimately show ?thesis using first by (simp add: same_mandate_def)
    next
      case False
      then show ?thesis using "3.prems" u Inr first by simp
    qed
  qed
qed

lemma suspended_leaf:
  "holds_suspended g \<Longrightarrow> decide sha t a g = (r, g') \<Longrightarrow> \<exists>i. r = Inr (Deny i)"
  by (auto simp: holds_suspended_def decide_suspended)

lemma same_mandate_suspended: "same_mandate g g' \<Longrightarrow> holds_suspended g \<Longrightarrow> holds_suspended g'"
  by (auto simp: same_mandate_def holds_suspended_def)

text \<open>
  A delegated call runs only if everyone on the chain lets it: when the gate of a chain allows a call,
  no gate on the chain, the delegator's or the child's own, at any depth, holds a suspended
  snapshot, and every scope on the chain permits the tool or is only observed. So a revocation
  reaches every agent that was lent authority as soon as the revoked gate knows of it.
\<close>

theorem delegated_call_needs_everyone:
  assumes "decide_gate sha clock a T st = (Inr v, st')" "allowed v"
  shows "{n \<in> leaves T. holds_suspended (st n)} = {}
    \<and> {sc \<in> scopes T. \<not> scope_permits (a_tool a) sc \<and> \<not> scope_observing sc} = {}"
  using assms
proof (induction sha clock a T st arbitrary: v st' rule: decide_gate.induct)
  case (1 sha clock a i m st)
  obtain x g' where d: "decide sha (clock m) a (st m) = (x, g')" by (cases "decide sha (clock m) a (st m)")
  then show ?case using suspended_leaf [OF _ d] "1.prems" by auto
next
  case (2 sha clock a sc g m st)
  then obtain v0 where v0: "decide_gate sha clock a g st = (Inr v0, st')" "v = narrow sc a v0"
    by (auto simp: then_narrow_Inr)
  then show ?case using "2.IH" [OF v0(1)] "2.prems"(2) by (auto simp: narrow_allowed)
next
  case (3 sha clock a sc p g m st)
  obtain x st1 where u: "decide_gate sha clock a p st = (x, st1)" by (cases "decide_gate sha clock a p st")
  then obtain up where up: "x = Inr up" "allowed up" using "3.prems" by (cases x) (auto split: if_splits)
  then obtain v0 where v0: "decide_gate sha clock a g st1 = (Inr v0, st')" "v = narrow sc a v0"
    using "3.prems"(1) u by (auto simp: then_narrow_Inr)
  have "allowed v0" and sc: "scope_permits (a_tool a) sc \<or> scope_observing sc"
    using v0(2) "3.prems"(2) by (auto simp: narrow_allowed)
  have parent: "{n \<in> leaves p. holds_suspended (st n)} = {}
      \<and> {s \<in> scopes p. \<not> scope_permits (a_tool a) s \<and> \<not> scope_observing s} = {}"
    using "3.IH"(1) [of up st1] u up by simp
  have child: "{n \<in> leaves g. holds_suspended (st1 n)} = {}
      \<and> {s \<in> scopes g. \<not> scope_permits (a_tool a) s \<and> \<not> scope_observing s} = {}"
    using "3.IH"(2) [OF u [symmetric] up(1) _ v0(1)] up(2) \<open>allowed v0\<close> by simp
  have "holds_suspended (st1 n)" if "holds_suspended (st n)" for n
    using same_mandate_suspended [OF decide_keeps_mandate [OF u]] that .
  then show ?case using parent child sc by auto
qed

section \<open>Budgets under delegation\<close>

lemma suspended_not_metered:
  "decide sha t a g = (Inr v, g') \<Longrightarrow> metered v \<Longrightarrow> \<exists>old. g_calls g' = old @ [t]"
  using decide_effect [of sha t a g "Inr v" g'] by (auto simp: is_metered_def charged_def)

text \<open>
  A delegated call that the child's own gate refuses is still charged to the delegator: with the child
  suspended, every call its delegator would have run is denied, and each adds to the delegator's
  call times.
\<close>

theorem delegated_refusal_charges_delegator:
  assumes "decide sha (clock m) a (st m) = (Inr up, g1)" "metered up"
    and "m \<noteq> k" "holds_suspended (st k)"
  shows "\<exists>i st' old. decide_gate sha clock a (Delegated sc (Some (Plain x m)) (Plain y k) n) st = (Inr (Deny i), st')
    \<and> v_reason i = AGENT_SUSPENDED \<and> g_calls (st' m) = old @ [clock m]"
proof -
  have up: "allowed up" using assms(2) by (simp add: metered_def)
  obtain s where s: "g_has_source (st k)" "g_snapshot (st k) = Some s" "suspended s"
    using assms(4) by (auto simp: holds_suspended_def)
  obtain old where old: "g_calls g1 = old @ [clock m]" using suspended_not_metered [OF assms(1,2)] by blast
  show ?thesis using assms(1,3) up old decide_suspended [OF s, of sha "clock k" a]
    by (auto simp: then_narrow_def narrow_def info_def Let_def)
qed

lemma decide_other_address:
  "n \<notin> leaves T \<Longrightarrow>
   decide_gate sha clock a T (st(n := h)) = apsnd (\<lambda>s. s(n := h)) (decide_gate sha clock a T st)"
proof (induction sha clock a T st rule: decide_gate.induct)
  case (1 sha clock a i m st)
  then show ?case by (cases "decide sha (clock m) a (st m)") (auto simp: fun_upd_twist)
next
  case (2 sha clock a sc g m st)
  then show ?case by (cases "decide_gate sha clock a g st") (simp add: then_narrow_def)
next
  case (3 sha clock a sc p g m st)
  obtain x st1 where u: "decide_gate sha clock a p st = (x, st1)" by (cases "decide_gate sha clock a p st")
  have first: "decide_gate sha clock a p (st(n := h)) = (x, st1(n := h))" using "3.IH"(1) "3.prems" u by (simp del: fun_upd_apply)
  show ?case
  proof (cases x)
    case (Inl e)
    then show ?thesis using u first by (simp del: fun_upd_apply)
  next
    case (Inr up)
    show ?thesis
    proof (cases "allowed up")
      case True
      have "decide_gate sha clock a g (st1(n := h)) = apsnd (\<lambda>s. s(n := h)) (decide_gate sha clock a g st1)"
        using "3.IH"(2) [OF u [symmetric] Inr] True "3.prems" by (simp del: fun_upd_apply)
      then show ?thesis using u first Inr True
        by (cases "decide_gate sha clock a g st1") (simp add: then_narrow_def del: fun_upd_apply)
    next
      case False
      then show ?thesis using u first Inr by (simp del: fun_upd_apply)
    qed
  qed
qed

text \<open>
  Costs recorded on a delegated gate are lost: \<open>record_actual_cost\<close> is inherited and charges the wrapper's
  own table, which no decision reads, so no cost, however large, changes what the gate decides.
\<close>

theorem delegated_costs_ignored:
  assumes "n \<notin> leaves (Delegated sc p g n)"
  shows "fst (decide_gate sha clock a (Delegated sc p g n) (pay (Delegated sc p g n) tr cost st))
    = fst (decide_gate sha clock a (Delegated sc p g n) st)"
  using decide_other_address [OF assms] by (simp add: pay_def)

section \<open>Witnesses\<close>

definition attenuated :: snapshot where
  "attenuated = active\<lparr>sn_delegation_policy := Some (u ''Attenuated''), sn_max_delegation_depth := Some 2\<rparr>"

definition root_scope :: effective_scope where
  "root_scope = scope_from_snapshot attenuated (Some (u ''root''))"

lemma root_delegates:
  "\<exists>c. delegate root_scope attenuated (u ''kid'') (Some [u ''search'', u ''pay'']) True = Inr c"
  by (simp add: delegate_def root_scope_def scope_from_snapshot_def attenuated_def declared_depth_def
      tightest_def or_default_def lower_char_def u_def)

theorem delegation_chain_narrows_witness:
  "\<exists>c. delegate root_scope attenuated (u ''kid'') (Some [u ''search'', u ''pay'']) True = Inr c
    \<and> \<not> scope_permits (u ''pay'') c"
proof -
  obtain c where c: "delegate root_scope attenuated (u ''kid'') (Some [u ''search'', u ''pay'']) True = Inr c"
    using root_delegates by blast
  have "descends root_scope c" by (rule descends_step [OF descends_self c])
  moreover have "\<not> scope_permits (u ''pay'') root_scope" "es_enforcement root_scope \<noteq> None"
    by (simp_all add: root_scope_def scope_from_snapshot_def attenuated_def sample_snapshot_def scope_permits_def)
  ultimately show ?thesis using delegation_chain_narrows [of root_scope c "u ''pay''"] c by blast
qed

definition two_gates :: "snapshot \<Rightarrow> snapshot \<Rightarrow> store" where
  "two_gates s s' = (\<lambda>n. if n = 0 then gate_with s else gate_with s')"

abbreviation child_gate :: agent_gate where
  "child_gate \<equiv> Delegated root_scope (Some (Plain None 0)) (Plain None 1) 2"

lemma search_permitted: "scope_permits (u ''search'') root_scope"
  by (simp add: root_scope_def scope_from_snapshot_def attenuated_def sample_snapshot_def scope_permits_def)

lemma child_runs:
  "\<exists>v st'. decide_gate id (\<lambda>_. 10) search_call child_gate (two_gates active active) = (Inr v, st') \<and> allowed v"
  using search_permitted
  by (simp add: two_gates_def sample_decision then_narrow_def narrow_allowed)
    (simp add: search_call_def)

theorem delegated_call_needs_everyone_witness:
  "\<exists>v st'. decide_gate id (\<lambda>_. 10) search_call child_gate (two_gates active active) = (Inr v, st') \<and> allowed v
    \<and> {n \<in> leaves child_gate. holds_suspended (two_gates active active n)} = {}"
  using child_runs delegated_call_needs_everyone by blast

lemma stopped_holds: "holds_suspended (gate_with stopped)"
  by (simp add: holds_suspended_def)

theorem delegated_refusal_charges_delegator_witness:
  "\<exists>i st' old. decide_gate id (\<lambda>_. 10) search_call child_gate (two_gates active stopped) = (Inr (Deny i), st')
    \<and> v_reason i = AGENT_SUSPENDED \<and> g_calls (st' 0) = old @ [10]"
  by (rule delegated_refusal_charges_delegator [where clock = "\<lambda>_. 10"])
    (use sample_decision stopped_holds in \<open>auto simp: two_gates_def\<close>)

theorem delegated_costs_ignored_witness:
  "fst (decide_gate id (\<lambda>_. 10) search_call child_gate (pay child_gate [84] (XFin 999) (two_gates active active)))
    = fst (decide_gate id (\<lambda>_. 10) search_call child_gate (two_gates active active))"
  by (rule delegated_costs_ignored) simp

end
