(* ===== verification/Governed_Props.thy ===== *)
theory Governed_Props
  imports Governed Latch_Props Delegation_Props
begin

text \<open>
  What \<open>@governed_tool\<close> makes of the gate and the latch together, and the witnesses of the latch.
\<close>

section \<open>A denied tool never runs again\<close>

lemma decide_tool:
  assumes "decide sha t a g = (Inr v, g')"
  shows "v_tool (info_of v) = a_tool a"
proof -
  have un: "v_tool (info_of (unevaluable g a r x y z p)) = a_tool a" for r x y z p
    by (simp add: unevaluable_def Let_def)
  have inf: "v_tool (info r x s a) = a_tool a" for r x s by (simp add: info_def)
  consider "\<not> g_has_source g" | "g_has_source g" "g_snapshot g = None"
    | s where "g_has_source g" "g_snapshot g = Some s" "suspended s"
    | s where "g_has_source g" "g_snapshot g = Some s" "\<not> suspended s" by (cases "g_snapshot g") auto
  then show ?thesis
  proof cases
    case 1
    then show ?thesis using assms by (auto simp: decide_def noop_verdict_def)
  next
    case 2
    then show ?thesis using assms un by (auto simp: decide_no_snapshot)
  next
    case 3
    then show ?thesis using assms inf by (auto simp: decide_suspended)
  next
    case 4
    from assms 4 show ?thesis
      by (cases rule: decide_cases)
        (auto simp: un inf decide_reassessment_def decide_scope_def decide_approval_def within_budget_eq
          split: if_splits sum.splits)
  qed
qed

lemma info_with_version [simp]: "v_tool (info_of (with_version x v)) = v_tool (info_of v)"
  by (cases v) auto

lemma decide_gate_tool:
  assumes "decide_gate sha clock a T st = (Inr v, st')"
  shows "v_tool (info_of v) = a_tool a"
  using assms
proof (induction sha clock a T st arbitrary: v st' rule: decide_gate.induct)
  case (1 sha clock a i m st)
  then show ?case using decide_tool by (auto split: prod.splits)
next
  case (2 sha clock a sc g m st)
  then obtain v0 where "decide_gate sha clock a g st = (Inr v0, st')" "v = narrow sc a v0"
    by (auto simp: then_narrow_Inr)
  then show ?case using "2.IH" by (auto simp: narrow_def Let_def)
next
  case (3 sha clock a sc p g m st)
  obtain x st1 where u: "decide_gate sha clock a p st = (x, st1)" by (cases "decide_gate sha clock a p st")
  then obtain up where up: "x = Inr up" using "3.prems" by (cases x) auto
  show ?case
  proof (cases "allowed up")
    case True
    then obtain v0 where v0: "decide_gate sha clock a g st1 = (Inr v0, st')" "v = narrow sc a v0"
      using "3.prems" u up by (auto simp: then_narrow_Inr)
    then show ?thesis using "3.IH"(2) [OF u [symmetric] up _ v0(1)] True by (auto simp: narrow_def Let_def)
  next
    case False
    then show ?thesis using "3.prems" "3.IH"(1) [of up st1] u up by simp
  qed
qed

lemma resolve_again:
  "resolve_run_id tr b (Some n) fresh ids = (r, ids') \<Longrightarrow> resolve_run_id tr b (Some n) fresh' ids' = (r, ids')"
  by (auto simp: resolve_run_id_def split: if_splits option.splits)

lemma record_remembers:
  assumes "latch_ok l" "is_latchable i" "record_denial r p i v l = (d, l1)"
  shows "latch_ok l1 \<and> l_first l1 (r, p, tool_of i) \<noteq> None \<and> l_versions l1 (r, p) = Some v"
proof -
  let ?k = "(r, p, tool_of i)"
  let ?m = "set_first ?k i (count_attempt ?k (reconcile_version r p v l))"
  have max: "1 \<le> l_max_runs ?m" using assms(1) by (simp add: latch_ok_def)
  have "l1 = touch r ?m" using assms(2,3) by (auto simp: record_denial_def Let_def)
  then show ?thesis using record_ok [OF assms(1,3)] by (auto simp: touch_run [OF max])
qed

lemma check_refuses:
  assumes "l_first l (r, p, t) \<noteq> None" "l_versions l (r, p) = Some v"
  shows "\<exists>d. fst (check r p t v l) = Some d"
  using assms by (auto simp: check_def reconcile_eq Let_def split: option.splits prod.splits)

lemma check_reason:
  assumes "check r p t v l = (Some d, l')"
  shows "v_reason (ld_verdict d) \<in> {RUN_HALTED, REPEAT_DENIED}"
proof -
  have "v_reason (halt_verdict x tool) = RUN_HALTED" for x tool
    by (simp add: halt_verdict_def split: option.splits)
  moreover have "v_reason (relabel x tool y) = y" for x tool y by (simp add: relabel_def)
  ultimately show ?thesis
    using assms by (auto simp: check_def Let_def split: option.splits prod.splits if_splits)
qed

definition refuses :: "outcome \<Rightarrow> bool" where
  "refuses x \<longleftrightarrow> (\<exists>i. x = DeniedError i) \<or> (\<exists>i n. x = HaltedError i n)"

lemma refusal_denial [simp]: "refuses (denial i d)"
  by (simp add: refuses_def denial_def)

text \<open>
  C16: Once a governed tool call was denied for its scope, the same tool is refused for the same agent in
  the same run as long as the mandate version in hand is the same, whatever the gates, their
  clocks and budgets have come to be meanwhile; and the refuses comes without asking any gate.
\<close>

theorem governed_denial_sticks:
  assumes "latch_ok (gv_latch s)" "a_tool a \<noteq> []"
    and "governed_check sha clock bound fresh (Some g) a s = (DeniedError i, s1)" "is_latchable i"
    and "gate_version st g = gate_version (gv_store s) g"
  shows "\<exists>x s2. governed_check sha' clock' bound fresh' (Some g) a (s1\<lparr>gv_store := st\<rparr>) = (x, s2)
    \<and> refuses x \<and> gv_store s2 = st"
proof -
  define p where "p = resolve_principal (agent_of g)"
  define v where "v = gate_version (gv_store s) g"
  obtain run ids where run: "resolve_run_id (a_trajectory a) bound (Some (address g)) fresh (gv_run_ids s) = (run, ids)"
    by (cases "resolve_run_id (a_trajectory a) bound (Some (address g)) fresh (gv_run_ids s)")
  note again = resolve_again [OF run, of fresh']
  obtain c l' where c: "check run p (a_tool a) v (gv_latch s) = (c, l')"
    by (cases "check run p (a_tool a) v (gv_latch s)")
  have l': "latch_ok l'" by (rule check_ok [OF assms(1) c])
  have "c = None"
  proof (rule ccontr)
    assume "c \<noteq> None"
    then obtain d where d: "c = Some d" by blast
    then have "ld_verdict d = i" using assms(3) run c
      by (auto simp: governed_check_def p_def v_def denial_def Let_def split: if_splits)
    moreover have "v_reason (ld_verdict d) \<in> {RUN_HALTED, REPEAT_DENIED}"
      using check_reason c d by blast
    ultimately show False using assms(4) by (auto simp: is_latchable_def LATCHABLE_REASONS_def)
  qed
  obtain r st1 where r: "decide_gate sha clock a g (gv_store s) = (r, st1)"
    by (cases "decide_gate sha clock a g (gv_store s)")
  have after: "after_decision run p v r (s\<lparr>gv_run_ids := ids, gv_latch := l', gv_store := st1\<rparr>) = (DeniedError i, s1)"
    using assms(3) run c \<open>c = None\<close> r by (simp add: governed_check_def p_def v_def Let_def)
  then have "r = Inr (Deny i)"
    by (auto simp: after_decision_def denial_def split: sum.splits verdict.splits prod.splits if_splits)
  then have tool: "tool_of i = a_tool a"
    using decide_gate_tool [of sha clock a g "gv_store s" "Deny i" st1] r assms(2) by (simp add: tool_of_def)
  obtain d l1 where d: "record_denial run p i v l' = (d, l1)" by (cases "record_denial run p i v l'")
  have s1: "gv_latch s1 = l1" "gv_run_ids s1 = ids"
    using after \<open>r = Inr (Deny i)\<close> d by (auto simp: after_decision_def)
  have "l_first l1 (run, p, a_tool a) \<noteq> None" "l_versions l1 (run, p) = Some v"
    using record_remembers [OF l' assms(4) d] tool by simp_all
  from check_refuses [OF this] obtain d2 l2 where "check run p (a_tool a) v l1 = (Some d2, l2)"
    by (metis prod.collapse)
  then show ?thesis
    using again assms(5) s1 by (simp add: governed_check_def p_def v_def Let_def)
qed

section \<open>A pending approval runs\<close>

text \<open>
  \<open>@governed_tool\<close> runs a tool that is waiting for a human: with a fresh snapshot that names the tool
  as needing approval and no decision on the request, the gate answers \<open>RequireApproval\<close>, which
  is not a \<open>Deny\<close>, and the check returns instead of raising.
\<close>

theorem governed_tool_runs_pending_approval:
  assumes "g_has_source (st n)" "g_snapshot (st n) = Some s" "\<not> suspended s"
    and "\<not> sn_reassessment_required s" "\<not> is_stale (clock n) s" "requires_approval (a_tool a) s"
    and "request_id_of sha a = Inr rid" "approval_decision rid s = None"
    and "gv_store w = st" "gv_latch w = new_latch env thr m"
  shows "\<exists>i w'. governed_check sha clock bound fresh (Some (Plain agent n)) a w
    = (Runs (RequireApproval i rid), w') \<and> \<not> allowed (RequireApproval i rid)"
proof -
  have d: "decide sha (clock n) a (st n) = (Inr (RequireApproval (info APPROVAL_REQUIRED (age_s (clock n) s) s a) rid), st n)"
    using assms(1-8) by (simp add: decide_def decide_snapshot_def decide_approval_def request_id_of_def Let_def)
  have c: "fst (check r p t v (new_latch env thr m)) = None" for r p t v
    by (simp add: check_def reconcile_eq new_latch_def Let_def)
  obtain run ids where run: "resolve_run_id (a_trajectory a) bound (Some n) fresh (gv_run_ids w) = (run, ids)"
    by (cases "resolve_run_id (a_trajectory a) bound (Some n) fresh (gv_run_ids w)")
  obtain l' where l': "check run (resolve_principal agent) (a_tool a) (latch_version (st n)) (new_latch env thr m) = (None, l')"
    using c by (metis prod.collapse)
  show ?thesis using run l' d assms(9,10) by (simp add: governed_check_def after_decision_def Let_def)
qed

text \<open>The calls \<open>@governed_tool\<close> makes name no step, so a step ceiling never stops one of them.\<close>

lemma governed_calls_ignore_steps: "\<not> over_steps s (governed_action tool bound captured) g"
  by (simp add: over_steps_def governed_action_def split: option.splits)

section \<open>Witnesses\<close>

definition rm_call :: action where
  "rm_call = search_call\<lparr>a_tool := u ''rm''\<rparr>"

definition rm_denied :: verdict_info where
  "rm_denied = info OUT_OF_SCOPE (age_s 10 active) active rm_call"

lemma rm_simps [simp]: "is_latchable rm_denied" "tool_of rm_denied = u ''rm''" "v_tool rm_denied = u ''rm''"
  by (simp_all add: is_latchable_def LATCHABLE_REASONS_def tool_of_def rm_denied_def info_def rm_call_def)

lemma fresh_latch_simps [simp]:
  "latch_ok (new_latch 3 x m)" "\<not> is_halted r (new_latch 3 x m)" "l_attempts (new_latch 3 x m) k = None"
  "l_first (new_latch 3 x m) k = None" "l_halted (new_latch 3 x m) r = None" "l_versions (new_latch 3 x m) y = None"
  by (simp_all add: new_latch_ok) (simp_all add: is_halted_def new_latch_def)

lemma fresh_threshold [simp]: "l_threshold (new_latch 3 None m) = 3" "l_threshold (new_latch 3 (Some 1) m) = 1"
  by (simp_all add: new_latch_def)

theorem latch_invariant_witness:
  "latch_ok (latch_after 3 None 2 [Record [82] [65] rm_denied None, Check [82] [65] (u ''rm'') None])"
  by (rule latch_invariant) simp

theorem repeated_denials_halt_run_witness:
  "\<exists>ld l1. record_denial [82] [65] rm_denied None (new_latch 3 None 9) = (ld, l1)
    \<and> (\<exists>d. fst (check [82] [65] (u ''rm'') None (ask [82] [65] (u ''rm'') None 1 l1)) = Some d
         \<and> ld_attempts d = 3 \<and> ld_halted d)"
proof -
  obtain ld l1 where r: "record_denial [82] [65] rm_denied None (new_latch 3 None 9) = (ld, l1)"
    by (cases "record_denial [82] [65] rm_denied None (new_latch 3 None 9)")
  show ?thesis
    using repeated_denials_halt_run [OF _ _ _ _ r, of 2] r by (auto simp del: fun_upd_apply)
qed

lemma halted_at_once:
  obtains l where "latch_ok l" "l_halted l [82] = Some ([65], u ''rm'', 1)" "l_versions l ([82], [65]) = Some None"
    "[82] \<in> set (l_runs l)"
proof -
  obtain ld l1 where r: "record_denial [82] [65] rm_denied None (new_latch 3 (Some 1) 9) = (ld, l1)"
    by (cases "record_denial [82] [65] rm_denied None (new_latch 3 (Some 1) 9)")
  have b: "bucket_at ([82], [65], tool_of rm_denied) None rm_denied 1 l1 \<and> l_threshold l1 = l_threshold (new_latch 3 (Some 1) 9)"
    by (rule record_first [OF _ _ _ _ r]) simp_all
  then have "latch_ok l1" "l_attempts l1 ([82], [65], u ''rm'') = Some 1" by (simp_all add: bucket_at_def)
  then have "[82] \<in> set (l_runs l1)" using core_bucket [of l1 "([82], [65], u ''rm'')" 1] by (simp add: latch_ok_core)
  then show thesis using b that [of l1] by (simp add: bucket_at_def)
qed

theorem halt_stops_everyone_witness:
  "\<exists>l d. l_halted l [82] = Some ([65], u ''rm'', 1) \<and> fst (check [82] [66] (u ''ls'') None l) = Some d
    \<and> ld_halted d \<and> v_reason (ld_verdict d) = RUN_HALTED"
proof -
  obtain l where l: "latch_ok l" "l_halted l [82] = Some ([65], u ''rm'', 1)" "[82] \<in> set (l_runs l)"
    by (rule halted_at_once)
  have "\<not> lifts l [82] [65] (Check [82] [66] (u ''ls'') None)" using l(3) by (simp add: evicts_def)
  then show ?thesis using halt_stops_everyone [OF l(1,2)] l(2) by blast
qed

theorem new_version_decides_again_witness:
  "\<exists>l l'. is_halted [82] l \<and> check [82] [65] (u ''rm'') (Some [2]) l = (None, l') \<and> \<not> is_halted [82] l'"
proof -
  obtain l where l: "latch_ok l" "l_halted l [82] = Some ([65], u ''rm'', 1)" "l_versions l ([82], [65]) = Some None"
    by (rule halted_at_once)
  then have "is_halted [82] l" by (simp add: is_halted_def)
  then show ?thesis using new_version_decides_again [OF l(1,3), of "Some [2]" "u ''rm''"] l(2) by blast
qed

theorem versions_outlive_bound_witness:
  "l_runs (check_all [65] (u ''ls'') None [[1], [2], [3]] (new_latch 3 None 1)) = []
    \<and> card (dom (l_versions (check_all [65] (u ''ls'') None [[1], [2], [3]] (new_latch 3 None 1)))) = 3"
  using versions_outlive_bound [of "[[1], [2], [3]]" "[65]" "u ''ls''" None 3 None 1] by simp

definition start_state :: "snapshot \<Rightarrow> governed" where
  "start_state s = \<lparr>gv_store = (\<lambda>_. gate_with s), gv_latch = new_latch 3 None 9, gv_run_ids = (\<lambda>_. None)\<rparr>"

lemma rm_decided: "decide id 10 rm_call (gate_with active) = (Inr (Deny rm_denied), gate_with active)"
proof -
  have "\<not> requires_approval (u ''rm'') active" "\<not> permits (u ''rm'') active" "\<not> observing active"
    by (simp_all add: requires_approval_def permits_def observing_def sample_snapshot_def OBSERVE_def ENFORCE_def)
  then show ?thesis
    by (simp add: decide_def decide_snapshot_def decide_scope_def rm_denied_def Let_def) (simp add: rm_call_def)
qed

lemma rm_governed:
  "\<exists>s1. governed_check id (\<lambda>_. 10) None [] (Some (Plain None 0)) rm_call (start_state active) = (DeniedError rm_denied, s1)"
proof -
  obtain d l1 where r: "record_denial [84] UNIDENTIFIED rm_denied None (reconcile_version [84] UNIDENTIFIED None (new_latch 3 None 9)) = (d, l1)"
    by (cases "record_denial [84] UNIDENTIFIED rm_denied None (reconcile_version [84] UNIDENTIFIED None (new_latch 3 None 9))")
  have nothalted: "\<not> ld_halted d"
    using r by (auto simp: record_denial_def Let_def reconcile_eq attempts_at_def split: if_splits)
  have c: "check [84] UNIDENTIFIED (u ''rm'') None (new_latch 3 None 9)
      = (None, reconcile_version [84] UNIDENTIFIED None (new_latch 3 None 9))"
    by (simp add: check_def reconcile_eq Let_def)
  have a: "a_trajectory rm_call = Some [84]" "a_tool rm_call = u ''rm''" by (simp_all add: rm_call_def search_call_def)
  have v: "latch_version (gate_with active) = None" by (simp add: latch_version_def sample_snapshot_def)
  show ?thesis using r nothalted c v a rm_decided
    by (simp add: governed_check_def start_state_def resolve_run_id_def resolve_principal_def or_default_def
        after_decision_def denial_def Let_def)
qed

theorem governed_denial_sticks_witness:
  "\<exists>s1 x s2. governed_check id (\<lambda>_. 10) None [] (Some (Plain None 0)) rm_call (start_state active) = (DeniedError rm_denied, s1)
    \<and> governed_check id (\<lambda>_. 50) None [7] (Some (Plain None 0)) rm_call (s1\<lparr>gv_store := (\<lambda>_. gate_with active)\<rparr>) = (x, s2)
    \<and> refuses x"
proof -
  obtain s1 where s1: "governed_check id (\<lambda>_. 10) None [] (Some (Plain None 0)) rm_call (start_state active) = (DeniedError rm_denied, s1)"
    using rm_governed by blast
  have "\<exists>x s2. governed_check id (\<lambda>_. 50) None [7] (Some (Plain None 0)) rm_call (s1\<lparr>gv_store := (\<lambda>_. gate_with active)\<rparr>) = (x, s2)
      \<and> refuses x \<and> gv_store s2 = (\<lambda>_. gate_with active)"
    by (rule governed_denial_sticks [OF _ _ s1]) (simp_all add: start_state_def rm_call_def)
  then show ?thesis using s1 by blast
qed

theorem governed_tool_runs_pending_approval_witness:
  "\<exists>rid i w'. governed_check id (\<lambda>_. 10) None [] (Some (Plain None 0)) (search_call\<lparr>a_tool := u ''pay''\<rparr>) (start_state active)
    = (Runs (RequireApproval i rid), w') \<and> \<not> allowed (RequireApproval i rid)"
proof -
  have "\<exists>rid. request_id_of id (search_call\<lparr>a_tool := u ''pay''\<rparr>) = Inr rid"
    by (simp add: request_id_of_def approval_request_id_def approval_key_def search_call_def utf8_encode_def u_def
        int_str_def nat_digits.simps surrogate_def)
  then obtain rid where rid: "request_id_of id (search_call\<lparr>a_tool := u ''pay''\<rparr>) = Inr rid" by blast
  have "requires_approval (u ''pay'') active" "approval_decision rid active = None"
    by (simp_all add: requires_approval_def approval_decision_def sample_snapshot_def)
  then have "\<exists>i w'. governed_check id (\<lambda>_. 10) None [] (Some (Plain None 0)) (search_call\<lparr>a_tool := u ''pay''\<rparr>) (start_state active)
    = (Runs (RequireApproval i rid), w') \<and> \<not> allowed (RequireApproval i rid)"
    by (intro governed_tool_runs_pending_approval [where s = active and st = "\<lambda>_. gate_with active" and env = 3 and thr = None and m = 9])
      (simp_all add: rid start_state_def)
  then show ?thesis by blast
qed

end
