(* ===== verification/Key_Files.thy ===== *)
theory Key_Files
  imports Checkpoint "HOL-Library.AList"
begin

unbundle bit_operations_syntax

text \<open>
  The key directory of a device (\<open>recorder/keys.py\<close>): where the key is, how it is loaded or created, and how
  a staged rotation is promoted. A directory is a finite table of files; a run of the code yields the
  list of file system calls it makes, so that a crash is a prefix of that list. Ed25519 key
  generation, decoding of the marker file and whether an unlink succeeds are inputs.
\<close>

section \<open>Files\<close>

datatype part = Private | Public

text \<open>
  \<open>Live p\<close> is \<open>device_ed25519.key\<close> or \<open>.pub\<close>, \<open>Pending p\<close> the same names under \<open>.pending-rotation\<close>, \<open>Marker\<close>
  the \<open>.promotion-confirmed\<close> in there, and \<open>Archive n p\<close> the file \<open>.rotated-\<close>\<open>n\<close>\<open>.device_ed25519.key\<close> or \<open>.pub\<close>.
\<close>

datatype key_file = Live part | Pending part | Marker | Archive pystr part

record file_data =
  fd_bytes :: bytes
  fd_mode :: "16 word"

type_synonym key_dir = "(key_file \<times> file_data) list"

datatype fs_op =
    WriteFile key_file file_data
  | CopyFile key_file key_file
  | ReplaceFile key_file key_file
  | UnlinkFile key_file

definition put :: "key_file \<Rightarrow> file_data \<Rightarrow> key_dir \<Rightarrow> key_dir" where
  "put f x d = AList.update f x d"

definition put_or_drop :: "key_file \<Rightarrow> file_data option \<Rightarrow> key_dir \<Rightarrow> key_dir" where
  "put_or_drop f x d = (case x of None \<Rightarrow> AList.delete f d | Some y \<Rightarrow> put f y d)"

fun do_op :: "fs_op \<Rightarrow> key_dir \<Rightarrow> key_dir" where
  "do_op (WriteFile f x) d = put f x d"
| "do_op (CopyFile f g) d = put_or_drop g (map_of d f) d"
| "do_op (ReplaceFile f g) d = AList.delete f (put_or_drop g (map_of d f) d)"
| "do_op (UnlinkFile f) d = AList.delete f d"

definition run_ops :: "fs_op list \<Rightarrow> key_dir \<Rightarrow> key_dir" where
  "run_ops ops d = fold do_op ops d"

text \<open>
  What a crash, or an exception of the operating system, can leave behind: the calls made so far. A write and
  a replace are atomic (a temporary file and \<open>os.replace\<close>); \<open>shutil.copy2\<close> is not, and may leave any part
  of its target.
\<close>

inductive interrupted :: "fs_op list \<Rightarrow> key_dir \<Rightarrow> key_dir \<Rightarrow> bool" where
  stop: "interrupted ops d d"
| torn: "interrupted (CopyFile f g # ops) d (put g x d)"
| go_on: "interrupted (x # ops) d d'" if "interrupted ops (do_op x d) d'"

section \<open>Loading\<close>

record key_crypto = crypto +
  c_public :: "bytes \<Rightarrow> bytes"

definition PRIVATE_KEY_MODE :: "16 word" where "PRIVATE_KEY_MODE = 0x180"
definition RAW_PRIVATE_KEY_LEN :: nat where "RAW_PRIVATE_KEY_LEN = 32"

datatype key_error = InsecureKeyPermissions | CorruptKey | PublicKeyNotBase64 | MarkerNotText
  | NotAReason | NotSealable canon_error | LedgerRaised ledger_error | RotationNotAppended

definition check_permissions :: "file_data \<Rightarrow> bool" where
  "check_permissions f \<longleftrightarrow> fd_mode f AND NOT PRIVATE_KEY_MODE = 0"

definition new_device_key :: "key_crypto \<Rightarrow> bytes \<Rightarrow> key_error + device_key" where
  "new_device_key c private =
     (let public = c_b64encode c (c_public c private) in
      case derive_device_id (crypto.truncate c) public of
        None \<Rightarrow> Inl PublicKeyNotBase64
      | Some i \<Rightarrow> Inr \<lparr>dk_private = private, dk_public = public, dk_device_id = i\<rparr>)"

definition load :: "key_crypto \<Rightarrow> file_data \<Rightarrow> key_error + device_key" where
  "load c f =
     (if \<not> check_permissions f then Inl InsecureKeyPermissions
      else if length (fd_bytes f) \<noteq> RAW_PRIVATE_KEY_LEN then Inl CorruptKey
      else new_device_key c (fd_bytes f))"

section \<open>Promoting a staged key\<close>

text \<open>\<open>str.strip()\<close>.\<close>

definition py_space :: "nat \<Rightarrow> bool" where
  "py_space c \<longleftrightarrow> c \<in> {9..13} \<or> c \<in> {28..32} \<or> c \<in> {0x2000..0x200A}
     \<or> c \<in> set [0x85, 0xA0, 0x1680, 0x2028, 0x2029, 0x202F, 0x205F, 0x3000]"

definition strip :: "pystr \<Rightarrow> pystr" where
  "strip s = rev (dropWhile py_space (rev (dropWhile py_space s)))"

text \<open>The first suffix whose archive name is free, counting from \<open>n\<close>.\<close>

definition archive_name :: "pystr \<Rightarrow> nat \<Rightarrow> pystr" where
  "archive_name i n = (if n < 2 then i else i @ u ''-'' @ int_str (int n))"

definition taken :: "key_dir \<Rightarrow> pystr \<Rightarrow> nat \<Rightarrow> bool" where
  "taken d i n \<longleftrightarrow> map_of d (Archive (archive_name i n) Private) \<noteq> None"

lemma archive_name_inject: "2 \<le> m \<Longrightarrow> 2 \<le> n \<Longrightarrow> archive_name i m = archive_name i n \<Longrightarrow> m = n"
  by (simp add: archive_name_def)

lemma finite_taken: "finite {n. 2 \<le> n \<and> taken d i n}"
proof (rule finite_imageD)
  have "(\<lambda>n. Archive (archive_name i n) Private) ` {n. 2 \<le> n \<and> taken d i n} \<subseteq> dom (map_of d)"
    by (auto simp: taken_def dom_def)
  then show "finite ((\<lambda>n. Archive (archive_name i n) Private) ` {n. 2 \<le> n \<and> taken d i n})"
    by (rule finite_subset) (rule finite_dom_map_of)
  show "inj_on (\<lambda>n. Archive (archive_name i n) Private) {n. 2 \<le> n \<and> taken d i n}"
    by (rule inj_onI) (auto intro: archive_name_inject)
qed

function free_suffix :: "key_dir \<Rightarrow> pystr \<Rightarrow> nat \<Rightarrow> nat" where
  "free_suffix d i n = (if 2 \<le> n \<and> taken d i n then free_suffix d i (n + 1) else n)"
  by pat_completeness auto

termination
proof (relation "measure (\<lambda>(d, i, n). card {m. n \<le> m \<and> 2 \<le> m \<and> taken d i m})")
  fix d i and n :: nat
  assume n: "2 \<le> n \<and> taken d i n"
  have "{m. n + 1 \<le> m \<and> 2 \<le> m \<and> taken d i m} \<subset> {m. n \<le> m \<and> 2 \<le> m \<and> taken d i m}"
    using n by (intro psubsetI) (auto dest: eqset_imp_iff [of _ _ n])
  moreover have "finite {m. n \<le> m \<and> 2 \<le> m \<and> taken d i m}"
    by (rule finite_subset [OF _ finite_taken [of d i]]) auto
  ultimately show "((d, i, n + 1), d, i, n) \<in> measure (\<lambda>(d, i, n). card {m. n \<le> m \<and> 2 \<le> m \<and> taken d i m})"
    by (simp add: psubset_card_mono)
qed simp

declare free_suffix.simps [simp del]

definition archive_for :: "key_dir \<Rightarrow> pystr \<Rightarrow> pystr" where
  "archive_for d i = (if taken d i 1 then archive_name i (free_suffix d i 2) else i)"

record key_env =
  ke_decode :: "bytes \<Rightarrow> pystr option"
  ke_unlink_ok :: bool
  ke_generated :: bytes

definition marker_id :: "key_env \<Rightarrow> file_data \<Rightarrow> key_error + pystr option" where
  "marker_id env m =
     (case ke_decode env (fd_bytes m) of
        None \<Rightarrow> Inl MarkerNotText
      | Some t \<Rightarrow> Inr (let s = strip t in if s = [] then None else Some s))"

definition archived_id :: "key_crypto \<Rightarrow> pystr option \<Rightarrow> file_data \<Rightarrow> pystr" where
  "archived_id c old live =
     (case old of
        Some i \<Rightarrow> i
      | None \<Rightarrow> (case load c live of Inl _ \<Rightarrow> u ''unknown'' | Inr k \<Rightarrow> dk_device_id k))"

definition archive_ops :: "key_crypto \<Rightarrow> pystr option \<Rightarrow> key_dir \<Rightarrow> fs_op list" where
  "archive_ops c old d =
     (case map_of d (Live Private) of
        None \<Rightarrow> []
      | Some live \<Rightarrow>
          (let n = archive_for d (archived_id c old live)
           in CopyFile (Live Private) (Archive n Private)
              # (if map_of d (Live Public) \<noteq> None then [CopyFile (Live Public) (Archive n Public)] else [])))"

definition promote_ops :: "key_crypto \<Rightarrow> pystr option \<Rightarrow> key_dir \<Rightarrow> fs_op list" where
  "promote_ops c old d =
     (if map_of d (Pending Private) = None then []
      else archive_ops c old d
        @ (if map_of d (Pending Public) \<noteq> None then [ReplaceFile (Pending Public) (Live Public)] else [])
        @ [ReplaceFile (Pending Private) (Live Private)])"

definition finish_pending_rotation ::
  "key_crypto \<Rightarrow> key_env \<Rightarrow> pystr option \<Rightarrow> key_dir \<Rightarrow> (key_error + bool) \<times> fs_op list" where
  "finish_pending_rotation c env given d =
     (case map_of d Marker of
        None \<Rightarrow> (Inr False, [])
      | Some m \<Rightarrow>
          (case (case given of Some i \<Rightarrow> Inr (Some i) | None \<Rightarrow> marker_id env m) of
             Inl e \<Rightarrow> (Inl e, [])
           | Inr old \<Rightarrow>
               (Inr True, promote_ops c old d @ (if ke_unlink_ok env then [UnlinkFile Marker] else []))))"

section \<open>Loading or creating\<close>

definition load_device_key ::
  "key_crypto \<Rightarrow> key_env \<Rightarrow> key_dir \<Rightarrow> (key_error + device_key option) \<times> fs_op list" where
  "load_device_key c env d =
     (case finish_pending_rotation c env None d of
        (Inl e, ops) \<Rightarrow> (Inl e, ops)
      | (Inr _, ops) \<Rightarrow>
          (case map_of (run_ops ops d) (Live Private) of
             None \<Rightarrow> (Inr None, ops)
           | Some f \<Rightarrow> (rmap Some (load c f), ops)))"

definition public_text :: "pystr \<Rightarrow> bytes" where
  "public_text public = map of_nat (public @ [10])"

definition load_or_create_device_key ::
  "key_crypto \<Rightarrow> key_env \<Rightarrow> key_dir \<Rightarrow> (key_error + device_key) \<times> fs_op list" where
  "load_or_create_device_key c env d =
     (case finish_pending_rotation c env None d of
        (Inl e, ops) \<Rightarrow> (Inl e, ops)
      | (Inr _, ops) \<Rightarrow>
          (case map_of (run_ops ops d) (Live Private) of
             Some f \<Rightarrow> (load c f, ops)
           | None \<Rightarrow>
               (let ops' = ops @ [WriteFile (Live Private) \<lparr>fd_bytes = ke_generated env, fd_mode = 0x180\<rparr>] in
                case new_device_key c (ke_generated env) of
                  Inl e \<Rightarrow> (Inl e, ops')
                | Inr k \<Rightarrow>
                    (Inr k, ops' @ [WriteFile (Live Public) \<lparr>fd_bytes = public_text (dk_public k), fd_mode = 0x1A4\<rparr>]))))"

end
