(* ===== verification/Rotation.thy ===== *)
theory Rotation
  imports Key_Files
begin

text \<open>
  \<open>recorder/rotation.py\<close>: \<open>rotate_key\<close>. The current key signs the new one, the new key is staged, the
  hand-over is appended to the ledger, and only then is the staged key confirmed and promoted. The
  result lists the file system calls before and after the append, so that a crash can fall between any two.
\<close>

definition VALID_REASONS :: "pystr list" where
  "VALID_REASONS = [u ''rotation'', u ''revocation'', u ''compromise'']"

definition ROTATION_SESSION_ID :: pystr where
  "ROTATION_SESSION_ID = u ''_key_rotation''"

text \<open>What a run reads from outside: the generated key, clocks and fresh identifiers.\<close>

record rotation_env =
  re_new_private :: bytes
  re_effective :: pystr
  re_event_id :: pystr
  re_ts :: pystr
  re_ns :: int
  re_trace :: pystr
  re_span :: pystr

definition handover_fields :: "device_key \<Rightarrow> device_key \<Rightarrow> (pystr \<times> pyval) list" where
  "handover_fields old new =
     [(u ''old_device_id'', PStr (dk_device_id old)), (u ''new_device_id'', PStr (dk_device_id new)),
      (u ''new_public_key'', PStr (dk_public new))]"

definition rotation_payload :: "device_key \<Rightarrow> device_key \<Rightarrow> pystr \<Rightarrow> pystr \<Rightarrow> pystr \<Rightarrow> pyval" where
  "rotation_payload old new signature reason effective =
     dict_of (handover_fields old new @
       [(u ''cross_signature'', PStr signature), (u ''reason'', PStr reason), (u ''effective_epoch'', PStr effective)])"

definition rotation_event :: "rotation_env \<Rightarrow> device_key \<Rightarrow> pyval \<Rightarrow> pystr \<Rightarrow> agent_event" where
  "rotation_event env old payload payload_hash =
     \<lparr>ev_schema_version = EVENT_SCHEMA_VERSION, ev_event_id = re_event_id env,
      ev_device_id = dk_device_id old, ev_session_id = ROTATION_SESSION_ID, ev_seq = 0,
      ev_kind = kind_value KEY_ROTATED, ev_ts_device = re_ts env, ev_ts_monotonic_ns = re_ns env,
      ev_tool_use_id = None, ev_tool_name = None, ev_payload = payload, ev_payload_hash = payload_hash,
      ev_model = None, ev_provider = u ''recorder'', ev_trace_id = re_trace env,
      ev_span_id = re_span env, ev_parent_span_id = None, ev_continues_from = None\<rparr>"

text \<open>The event a rotation from \<open>old\<close> to \<open>new\<close> appends.\<close>

definition make_rotation_event ::
  "key_crypto \<Rightarrow> rotation_env \<Rightarrow> pystr \<Rightarrow> device_key \<Rightarrow> device_key \<Rightarrow> canon_error + agent_event" where
  "make_rotation_event c env reason old new =
     (case canonicalize (dict_of (handover_fields old new)) of
        Inl e \<Rightarrow> Inl e
      | Inr data \<Rightarrow>
          (let payload = rotation_payload old new (device_key_sign (crypto.truncate c) (dk_private old) data)
                           reason (re_effective env)
           in rmap (\<lambda>b. rotation_event env old payload (sha256_hex (c_sha c) b)) (canonicalize payload)))"

definition stage_new_key :: "device_key \<Rightarrow> fs_op list" where
  "stage_new_key new =
     [WriteFile (Pending Private) \<lparr>fd_bytes = dk_private new, fd_mode = 0x180\<rparr>,
      WriteFile (Pending Public) \<lparr>fd_bytes = public_text (dk_public new), fd_mode = 0x1A4\<rparr>]"

definition mark_promotion_confirmed :: "pystr \<Rightarrow> fs_op" where
  "mark_promotion_confirmed old_id = WriteFile Marker \<lparr>fd_bytes = map of_nat old_id, fd_mode = 0x180\<rparr>"

record rotation_run =
  rr_result :: "key_error + device_key"
  rr_before :: "fs_op list"
  rr_after :: "fs_op list"
  rr_ledger :: ledger
  rr_db :: ledger_db

definition rotate_from ::
  "key_crypto \<Rightarrow> key_env \<Rightarrow> rotation_env \<Rightarrow> append_env \<Rightarrow> agent_event \<Rightarrow> device_key \<Rightarrow> device_key \<Rightarrow> fs_op list
     \<Rightarrow> key_dir \<Rightarrow> ledger \<Rightarrow> ledger_db \<Rightarrow> rotation_run" where
  "rotate_from c env renv aenv ev old new ops d l db =
     (case append (c_sha c) aenv ev l db of
        (Inl e, l', db') \<Rightarrow>
          \<lparr>rr_result = Inl (LedgerRaised e), rr_before = ops, rr_after = [], rr_ledger = l', rr_db = db'\<rparr>
      | (Inr None, l', db') \<Rightarrow>
          \<lparr>rr_result = Inl RotationNotAppended, rr_before = ops, rr_after = [], rr_ledger = l', rr_db = db'\<rparr>
      | (Inr (Some _), l', db') \<Rightarrow>
          (let confirm = mark_promotion_confirmed (dk_device_id old);
               (r, promote) = finish_pending_rotation c env (Some (dk_device_id old)) (do_op confirm (run_ops ops d))
           in \<lparr>rr_result = rmap (\<lambda>_. new) r, rr_before = ops, rr_after = confirm # promote,
               rr_ledger = l', rr_db = db'\<rparr>))"

definition rotate_key ::
  "key_crypto \<Rightarrow> key_env \<Rightarrow> rotation_env \<Rightarrow> append_env \<Rightarrow> pystr \<Rightarrow> key_dir \<Rightarrow> ledger \<Rightarrow> ledger_db
     \<Rightarrow> rotation_run" where
  "rotate_key c env renv aenv reason d l db =
     (let failed = (\<lambda>e ops. \<lparr>rr_result = Inl e, rr_before = ops, rr_after = [], rr_ledger = l, rr_db = db\<rparr>) in
      if reason \<notin> set VALID_REASONS then failed NotAReason []
      else case load_or_create_device_key c env d of
        (Inl e, ops) \<Rightarrow> failed e ops
      | (Inr old, ops) \<Rightarrow>
          (case new_device_key c (re_new_private renv) of
             Inl e \<Rightarrow> failed e ops
           | Inr new \<Rightarrow>
               (case make_rotation_event c renv reason old new of
                  Inl e \<Rightarrow> failed (NotSealable e) ops
                | Inr ev \<Rightarrow> rotate_from c env renv aenv ev old new (ops @ stage_new_key new) d l db)))"

end
