(* ===== verification/Rotation_Props.thy ===== *)
theory Rotation_Props
  imports Rotation Verify_Props
begin

text \<open>
  What a crash can do to a device key. The slots that decide who the device is (live private key, staged
  private key, marker) are followed through every prefix of the file system calls of a boot or a
  rotation; the other files never matter.
\<close>

section \<open>Directories\<close>

lemma map_of_put [simp]: "map_of (put f x d) g = (if g = f then Some x else map_of d g)"
  by (simp add: put_def update_conv')

lemma map_of_put_or_drop [simp]: "map_of (put_or_drop f x d) g = (if g = f then x else map_of d g)"
  by (auto simp: put_or_drop_def delete_conv' split: option.splits)

lemma map_of_delete [simp]: "map_of (AList.delete f d) g = (if g = f then None else map_of d g)"
  by (simp add: delete_conv')

lemma run_ops_simps [simp]:
  "run_ops [] d = d" "run_ops (x # xs) d = run_ops xs (do_op x d)"
  "run_ops (xs @ ys) d = run_ops ys (run_ops xs d)"
  by (simp_all add: run_ops_def)

inductive_cases interrupted_NilE: "interrupted [] d d'"
inductive_cases interrupted_ConsE: "interrupted (x # xs) d d'"

lemma interrupted_Nil [simp]: "interrupted [] d d' \<longleftrightarrow> d' = d"
  by (auto elim: interrupted_NilE intro: interrupted.intros)

lemma interrupted_all: "interrupted ops d (run_ops ops d)"
  by (induction ops arbitrary: d) (auto intro: interrupted.intros)

lemma interrupted_append:
  "interrupted (xs @ ys) d d' \<Longrightarrow> interrupted xs d d' \<or> interrupted ys (run_ops xs d) d'"
proof (induction xs arbitrary: d)
  case (Cons x xs)
  from Cons.prems have "interrupted (x # xs @ ys) d d'" by simp
  then show ?case by (cases rule: interrupted_ConsE) (use Cons.IH in \<open>auto intro: interrupted.intros\<close>)
qed simp

section \<open>The slots that decide the identity\<close>

definition core :: "key_dir \<Rightarrow> file_data option \<times> file_data option \<times> file_data option" where
  "core d = (map_of d (Live Private), map_of d (Pending Private), map_of d Marker)"

fun side_op :: "fs_op \<Rightarrow> bool" where
  "side_op (CopyFile f (Archive n p)) = True"
| "side_op (ReplaceFile (Pending Public) (Live Public)) = True"
| "side_op (WriteFile (Pending Public) x) = True"
| "side_op (WriteFile (Live Public) x) = True"
| "side_op x = False"

lemma side_core: "side_op x \<Longrightarrow> core (do_op x d) = core d"
  by (cases x rule: side_op.cases) (auto simp: core_def)

lemma sides_core: "list_all side_op xs \<Longrightarrow> core (run_ops xs d) = core d"
  by (induction xs arbitrary: d) (auto simp: side_core)

lemma sides_interrupted: "interrupted xs d d' \<Longrightarrow> list_all side_op xs \<Longrightarrow> core d' = core d"
proof (induction rule: interrupted.induct)
  case (torn f g ops d x)
  then show ?case by (cases g) (auto simp: core_def)
qed (auto simp: side_core)

lemma archive_ops_side: "list_all side_op (archive_ops c old d)"
  by (auto simp: archive_ops_def Let_def split: option.splits)

lemma promote_split:
  assumes "map_of d (Pending Private) = Some p"
  obtains side where "list_all side_op side"
    "promote_ops c old d = side @ [ReplaceFile (Pending Private) (Live Private)]"
  by (rule that [of "archive_ops c old d @ (if map_of d (Pending Public) \<noteq> None
        then [ReplaceFile (Pending Public) (Live Public)] else [])"])
    (use assms archive_ops_side in \<open>auto simp: promote_ops_def\<close>)

lemma replaced_core:
  assumes "core d = (L, Some p, m)"
  shows "core (do_op (ReplaceFile (Pending Private) (Live Private)) d) = (Some p, None, m)"
  using assms by (auto simp: core_def)

lemma unlink_interrupted:
  assumes "interrupted (if ok then [UnlinkFile Marker] else []) d d'" "core d = (L, P, M)"
  shows "core d' = (L, P, M) \<or> core d' = (L, P, None)"
  using assms by (auto simp: core_def split: if_splits elim!: interrupted_ConsE)

lemma promote_interrupted:
  assumes "core d = (L, Some p, M)" "interrupted (promote_ops c old d) d d'"
  shows "core d' = (L, Some p, M) \<or> core d' = (Some p, None, M)"
proof -
  have "map_of d (Pending Private) = Some p" using assms(1) by (simp add: core_def)
  from promote_split [OF this, of c old] obtain side where s: "list_all side_op side"
    "promote_ops c old d = side @ [ReplaceFile (Pending Private) (Live Private)]" by metis
  from interrupted_append [OF assms(2) [unfolded s(2)]] show ?thesis
  proof
    assume "interrupted side d d'"
    then show ?thesis using sides_interrupted [OF _ s(1)] assms(1) by simp
  next
    assume "interrupted [ReplaceFile (Pending Private) (Live Private)] (run_ops side d) d'"
    moreover have "core (run_ops side d) = (L, Some p, M)" using sides_core [OF s(1)] assms(1) by simp
    ultimately show ?thesis using replaced_core by (auto elim!: interrupted_ConsE)
  qed
qed

lemma promote_done:
  assumes "core d = (L, Some p, M)"
  shows "core (run_ops (promote_ops c old d) d) = (Some p, None, M)"
proof -
  have "map_of d (Pending Private) = Some p" using assms(1) by (simp add: core_def)
  from promote_split [OF this, of c old] obtain side where s: "list_all side_op side"
    "promote_ops c old d = side @ [ReplaceFile (Pending Private) (Live Private)]" by metis
  have "core (run_ops side d) = (L, Some p, M)" using sides_core [OF s(1)] assms(1) by simp
  then show ?thesis using replaced_core s(2) by simp
qed

lemma promote_nothing [simp]: "map_of d (Pending Private) = None \<Longrightarrow> promote_ops c old d = []"
  by (simp add: promote_ops_def)

text \<open>\<open>_finish_pending_rotation\<close> seen from the slots: one promotion, then the marker goes.\<close>

lemma finish_interrupted:
  assumes "finish_pending_rotation c env given d = (r, ops)" "interrupted ops d d'" "core d = (L, P, M)"
  shows "core d' = (L, P, M)
    \<or> (M \<noteq> None \<and> (\<exists>p. P = Some p \<and> (core d' = (Some p, None, M) \<or> core d' = (Some p, None, None))))
    \<or> (M \<noteq> None \<and> P = None \<and> core d' = (L, None, None))"
proof (cases M)
  case None
  then show ?thesis using assms by (auto simp: finish_pending_rotation_def core_def)
next
  case (Some m)
  then have m: "map_of d Marker = Some m" using assms(3) by (simp add: core_def)
  have P: "map_of d (Pending Private) = P" using assms(3) by (simp add: core_def)
  let ?un = "if ke_unlink_ok env then [UnlinkFile Marker] else []"
  have "ops = [] \<or> (\<exists>old. ops = promote_ops c old d @ ?un)"
    using assms(1) m by (auto simp: finish_pending_rotation_def split: sum.splits option.splits)
  then show ?thesis
  proof
    assume "ops = []"
    then show ?thesis using assms by simp
  next
    assume "\<exists>old. ops = promote_ops c old d @ ?un"
    then obtain old where ops: "ops = promote_ops c old d @ ?un" by blast
    show ?thesis
    proof (cases P)
      case None
      then show ?thesis using ops P assms(2,3) unlink_interrupted [of "ke_unlink_ok env" d d' L None M] Some by auto
    next
      case p: (Some p)
      then have cd: "core d = (L, Some p, M)" using assms(3) by simp
      from interrupted_append [OF assms(2) [unfolded ops]] show ?thesis
      proof
        assume "interrupted (promote_ops c old d) d d'"
        from promote_interrupted [OF cd this] show ?thesis using p Some by auto
      next
        assume "interrupted ?un (run_ops (promote_ops c old d) d) d'"
        from unlink_interrupted [OF this promote_done [OF cd]] show ?thesis using p Some by auto
      qed
    qed
  qed
qed

text \<open>Run to its end without an error.\<close>

lemma finish_done:
  assumes "finish_pending_rotation c env given d = (Inr b, ops)" "core d = (L, P, M)"
  shows "core (run_ops ops d) =
    (if M = None then (L, P, None)
     else (if P = None then L else P, None, if ke_unlink_ok env then None else M))"
proof (cases M)
  case None
  then show ?thesis using assms by (auto simp: finish_pending_rotation_def core_def)
next
  case (Some m)
  then have m: "map_of d Marker = Some m" and P: "map_of d (Pending Private) = P"
    using assms(2) by (simp_all add: core_def)
  have un: "core (run_ops (if ok then [UnlinkFile Marker] else []) e) = (L', P', if ok then None else M')"
    if "core e = (L', P', M')" for e ok L' P' M' using that by (auto simp: core_def)
  obtain old where ops: "ops = promote_ops c old d @ (if ke_unlink_ok env then [UnlinkFile Marker] else [])"
    using assms(1) m by (auto simp: finish_pending_rotation_def split: sum.splits option.splits)
  show ?thesis
  proof (cases P)
    case None
    then show ?thesis using ops un [OF assms(2)] P Some by simp
  next
    case p: (Some p)
    then have "core d = (L, Some p, M)" using assms(2) by simp
    from un [OF promote_done [OF this]] show ?thesis using ops p Some by simp
  qed
qed

section \<open>What an append leaves in the file\<close>

definition sealed :: "ledger_db \<Rightarrow> agent_event \<Rightarrow> bool" where
  "sealed db ev \<longleftrightarrow> (\<exists>r\<in>set (events db). row_kind r = ev_kind ev \<and> row_device_id r = ev_device_id ev
     \<and> canonical_dumps (ev_payload ev) = Inr (row_payload r))"

lemma attempt_seals: "attempt sha f ev l db = Inr (entry, l', db') \<Longrightarrow> sealed db' ev \<and> set (events db) \<subseteq> set (events db')"
  by (auto simp: attempt_def sealed_def row_of_def with_seq_def Let_def split: sum.splits if_splits)

lemma append_locked_seals:
  "append_locked sha fs ev l db = (r, l', db') \<Longrightarrow>
     set (events db) \<subseteq> set (events db') \<and> (case r of Inr _ \<Rightarrow> sealed db' ev | Inl _ \<Rightarrow> True)"
  by (auto simp: append_locked_def Let_def dest: attempt_seals split: sum.splits write_error.splits prod.splits)

lemma drain_grows: "drain_failures sha env l db = (r, l', db') \<Longrightarrow> set (events db) \<subseteq> set (events db')"
  by (auto simp: drain_failures_def dest!: append_locked_seals split: sum.splits prod.splits)

lemma append_seals:
  assumes "append sha env ev l db = (r, l', db')"
  shows "set (events db) \<subseteq> set (events db') \<and> (\<forall>entry. r = Inr (Some entry) \<longrightarrow> sealed db' ev)"
proof (cases "closed l")
  case True
  then show ?thesis using assms by (auto simp: append_def on_write_failure_def split: if_splits)
next
  case False
  obtain r0 l1 db1 where d: "(if pending_failures l = [] then (Inr (), l, db) else drain_failures sha env l db) = (r0, l1, db1)"
    by (metis prod_cases3)
  have grow: "set (events db) \<subseteq> set (events db1)"
    using d drain_grows by (cases "pending_failures l = []") auto
  show ?thesis
  proof (cases r0)
    case (Inl e)
    then have "r = Inl e" "db' = db1" using assms False d by (auto simp: append_def)
    then show ?thesis using grow by simp
  next
    case (Inr x)
    obtain a l2 db2 where a: "append_locked sha (event_io env) ev l1 db1 = (a, l2, db2)" by (metis prod_cases3)
    note b = append_locked_seals [OF a]
    show ?thesis using assms False d grow a b Inr
      by (cases a) (auto simp: append_def on_write_failure_def split: if_splits prod.splits)
  qed
qed

section \<open>Hand-overs\<close>

text \<open>
  \<open>handover_sealed c db a b\<close>: the file holds a \<open>key_rotated\<close> row of the device of key \<open>a\<close> whose payload names
  the public key of \<open>b\<close> and is signed with \<open>a\<close>.
\<close>

definition handover_sealed :: "key_crypto \<Rightarrow> ledger_db \<Rightarrow> bytes \<Rightarrow> bytes \<Rightarrow> bool" where
  "handover_sealed c db a b \<longleftrightarrow> (\<exists>old new env reason ev. new_device_key c a = Inr old \<and> new_device_key c b = Inr new
     \<and> make_rotation_event c env reason old new = Inr ev \<and> sealed db ev)"

lemma handover_sealedI:
  "new_device_key c a = Inr old \<Longrightarrow> new_device_key c b = Inr new \<Longrightarrow> make_rotation_event c env reason old new = Inr ev
     \<Longrightarrow> sealed db ev \<Longrightarrow> handover_sealed c db a b"
  unfolding handover_sealed_def by blast

lemma handover_sealed_mono: "handover_sealed c db a b \<Longrightarrow> set (events db) \<subseteq> set (events db') \<Longrightarrow> handover_sealed c db' a b"
  unfolding handover_sealed_def sealed_def by blast

lemma handover_sealed_star_mono:
  "(handover_sealed c db)\<^sup>*\<^sup>* a b \<Longrightarrow> set (events db) \<subseteq> set (events db') \<Longrightarrow> (handover_sealed c db')\<^sup>*\<^sup>* a b"
  by (induction rule: rtranclp_induct) (auto intro: rtranclp.rtrancl_into_rtrancl handover_sealed_mono)

section \<open>Everything that can happen to a key\<close>

definition usable :: "file_data \<Rightarrow> bool" where
  "usable f \<longleftrightarrow> check_permissions f \<and> length (fd_bytes f) = RAW_PRIVATE_KEY_LEN"

lemma load_usable: "load c f = Inr k \<Longrightarrow> usable f \<and> new_device_key c (fd_bytes f) = Inr k"
  by (auto simp: load_def usable_def split: if_splits)

lemma usable_load: "usable f \<Longrightarrow> load c f = new_device_key c (fd_bytes f)"
  by (simp add: load_def usable_def)

lemma device_key_private: "new_device_key c p = Inr k \<Longrightarrow> dk_private k = p"
  by (auto simp: new_device_key_def Let_def split: option.splits)

lemma device_key_error: "new_device_key c p = Inl e \<Longrightarrow> e \<noteq> RotationNotAppended"
  by (auto simp: new_device_key_def Let_def split: option.splits)

lemma fresh_usable [simp]: "usable \<lparr>fd_bytes = b, fd_mode = 0x180\<rparr> \<longleftrightarrow> length b = RAW_PRIVATE_KEY_LEN"
  by (simp add: usable_def check_permissions_def PRIVATE_KEY_MODE_def)

text \<open>
  A boot that could not remove the marker of the last rotation leaves it behind. The next rotation then stages its key
  under that marker, where any boot will promote it, sealed or not.
\<close>

definition no_leftover :: "key_crypto \<Rightarrow> key_env \<Rightarrow> key_dir \<Rightarrow> bool" where
  "no_leftover c env d \<longleftrightarrow> map_of (run_ops (snd (load_or_create_device_key c env d)) d) Marker = None"

text \<open>
  Removing the marker may fail in every step. \<open>strict\<close> says that no rotation runs over a marker that its own boot
  could not remove.
\<close>

inductive key_step :: "bool \<Rightarrow> key_crypto \<Rightarrow> key_dir \<times> ledger_db \<Rightarrow> key_dir \<times> ledger_db \<Rightarrow> bool" for strict c where
  boot: "key_step strict c (d, db) (d', db)"
    if "load_or_create_device_key c env d = (r, ops)" "interrupted ops d d'"
| enrolled_boot: "key_step strict c (d, db) (d', db)"
    if "load_device_key c env d = (q, ops)" "interrupted ops d d'"
| before_append: "key_step strict c (d, db) (d', db)"
    if "strict \<longrightarrow> no_leftover c env d" "length (re_new_private renv) = RAW_PRIVATE_KEY_LEN"
      "interrupted (rr_before (rotate_key c env renv aenv reason d l db)) d d'"
| after_append: "key_step strict c (d, db) (d', rr_db (rotate_key c env renv aenv reason d l db))"
    if "strict \<longrightarrow> no_leftover c env d" "length (re_new_private renv) = RAW_PRIVATE_KEY_LEN"
      "interrupted (rr_after (rotate_key c env renv aenv reason d l db))
         (run_ops (rr_before (rotate_key c env renv aenv reason d l db)) d) d'"
| other_event: "key_step strict c (d, db) (d, db')"
    if "append (c_sha c) aenv ev l db = (w, l', db')"

text \<open>The live key is usable, and so is a staged one that is marked; under \<open>strict\<close> both are handed over to.\<close>

definition slots_ok ::
  "bool \<Rightarrow> key_crypto \<Rightarrow> bytes \<Rightarrow> ledger_db \<Rightarrow> file_data option \<times> file_data option \<times> file_data option \<Rightarrow> bool" where
  "slots_ok strict c k0 db s \<longleftrightarrow> (\<exists>f. fst s = Some f \<and> usable f \<and> (strict \<longrightarrow> (handover_sealed c db)\<^sup>*\<^sup>* k0 (fd_bytes f))
     \<and> (\<forall>p m. snd s = (Some p, Some m) \<longrightarrow> usable p \<and> (strict \<longrightarrow> handover_sealed c db (fd_bytes f) (fd_bytes p))))"

lemma slots_ok_promoted:
  assumes "slots_ok strict c k0 db (L, Some p, Some m)"
  shows "slots_ok strict c k0 db (Some p, None, m')"
proof -
  from assms obtain f :: file_data where "strict \<longrightarrow> (handover_sealed c db)\<^sup>*\<^sup>* k0 (fd_bytes f)"
    and "usable p" "strict \<longrightarrow> handover_sealed c db (fd_bytes f) (fd_bytes p)"
    unfolding slots_ok_def by auto
  then show ?thesis by (auto simp: slots_ok_def intro: rtranclp.rtrancl_into_rtrancl)
qed

lemma slots_ok_unmarked: "slots_ok strict c k0 db (L, P, M) \<Longrightarrow> slots_ok strict c k0 db (L, P', None)"
  by (auto simp: slots_ok_def)

lemma slots_ok_no_pending: "slots_ok strict c k0 db (L, P, M) \<Longrightarrow> slots_ok strict c k0 db (L, None, M')"
  by (auto simp: slots_ok_def)

lemma slots_ok_mono: "slots_ok strict c k0 db s \<Longrightarrow> set (events db) \<subseteq> set (events db') \<Longrightarrow> slots_ok strict c k0 db' s"
  unfolding slots_ok_def by (blast intro: handover_sealed_mono handover_sealed_star_mono)

lemma finish_slots:
  assumes "finish_pending_rotation c env given d = (r, ops)" "interrupted ops d d'" "slots_ok strict c k0 db (core d)"
  shows "slots_ok strict c k0 db (core d')"
proof -
  obtain L P M where cd: "core d = (L, P, M)" by (cases "core d") auto
  with assms(3) have ok: "slots_ok strict c k0 db (L, P, M)" by simp
  from finish_interrupted [OF assms(1,2) cd] consider "core d' = (L, P, M)"
    | p m m' where "M = Some m" "P = Some p" "core d' = (Some p, None, m')"
    | "core d' = (L, None, None)" by auto
  then show ?thesis
  proof cases
    case 1
    then show ?thesis using ok by simp
  next
    case 2
    then show ?thesis using ok slots_ok_promoted by simp
  next
    case 3
    then show ?thesis using ok slots_ok_no_pending by simp
  qed
qed

text \<open>A boot of a device that has a key runs the promotion and nothing else.\<close>

lemma boot_ops:
  assumes "load_or_create_device_key c env d = (r, ops)" "slots_ok strict c k0 db (core d)"
  shows "\<exists>q. finish_pending_rotation c env None d = (q, ops)
    \<and> (\<forall>k. r = Inr k \<longrightarrow> (\<exists>b f. q = Inr b \<and> map_of (run_ops ops d) (Live Private) = Some f \<and> load c f = Inr k))"
proof -
  obtain q ops0 where q: "finish_pending_rotation c env None d = (q, ops0)" by fastforce
  have "slots_ok strict c k0 db (core (run_ops ops0 d))" by (rule finish_slots [OF q interrupted_all assms(2)])
  then obtain f where f: "map_of (run_ops ops0 d) (Live Private) = Some f" by (auto simp: slots_ok_def core_def)
  show ?thesis
  proof (cases q)
    case (Inl e)
    then have "r = Inl e" "ops = ops0" using assms(1) q by (auto simp: load_or_create_device_key_def)
    then show ?thesis using q by simp
  next
    case (Inr b)
    then have "r = load c f" "ops = ops0" using assms(1) q f by (auto simp: load_or_create_device_key_def)
    then show ?thesis using q Inr f by simp
  qed
qed

lemma boot_slots:
  assumes "load_or_create_device_key c env d = (r, ops)" "interrupted ops d d'" "slots_ok strict c k0 db (core d)"
  shows "slots_ok strict c k0 db (core d')"
proof -
  obtain q where "finish_pending_rotation c env None d = (q, ops)"
    using boot_ops [OF assms(1,3)] by (elim exE conjE)
  then show ?thesis by (rule finish_slots [OF _ assms(2,3)])
qed

text \<open>After a boot that loaded a key, that key is the live one.\<close>

lemma booted:
  assumes "load_or_create_device_key c env d = (Inr k, ops)" "slots_ok strict c k0 db (core d)"
  shows "\<exists>f P M. core (run_ops ops d) = (Some f, P, M) \<and> usable f \<and> new_device_key c (fd_bytes f) = Inr k
    \<and> (strict \<longrightarrow> (handover_sealed c db)\<^sup>*\<^sup>* k0 (fd_bytes f)) \<and> M = map_of (run_ops ops d) Marker"
proof -
  obtain q b f where q: "finish_pending_rotation c env None d = (q, ops)"
    and bf: "q = Inr b" "map_of (run_ops ops d) (Live Private) = Some f" "load c f = Inr k"
    using boot_ops [OF assms] by (elim exE conjE allE [of _ k] impE exE) simp
  have "slots_ok strict c k0 db (core (run_ops ops d))" by (rule finish_slots [OF q interrupted_all assms(2)])
  moreover have "fst (core (run_ops ops d)) = Some f" using bf(2) by (simp add: core_def)
  moreover have "snd (snd (core (run_ops ops d))) = map_of (run_ops ops d) Marker" by (simp add: core_def)
  ultimately show ?thesis using load_usable [OF bf(3)]
    by (cases "core (run_ops ops d)") (auto simp: slots_ok_def)
qed

lemma staged:
  assumes "core d = (L, P, M)" "interrupted (stage_new_key new) d d'"
  shows "core d' = (L, P, M) \<or> core d' = (L, Some \<lparr>fd_bytes = dk_private new, fd_mode = 0x180\<rparr>, M)"
  using assms by (auto simp: stage_new_key_def core_def elim!: interrupted_ConsE)

lemma staged_all:
  "core d = (L, P, M) \<Longrightarrow>
     core (run_ops (stage_new_key new) d) = (L, Some \<lparr>fd_bytes = dk_private new, fd_mode = 0x180\<rparr>, M)"
  by (auto simp: stage_new_key_def core_def)

lemma marked:
  "core d = (L, P, M) \<Longrightarrow> core (do_op (mark_promotion_confirmed i) d) = (L, P, Some \<lparr>fd_bytes = map of_nat i, fd_mode = 0x180\<rparr>)"
  by (simp add: core_def mark_promotion_confirmed_def)

text \<open>How far a rotation gets: its boot, its staging, its append.\<close>

lemma rotate_cases:
  obtains (none) "rr_before (rotate_key c env renv aenv reason d l db) = []"
      "rr_after (rotate_key c env renv aenv reason d l db) = []" "rr_db (rotate_key c env renv aenv reason d l db) = db"
      "rr_result (rotate_key c env renv aenv reason d l db) = Inl NotAReason"
  | (booting) r ops e where "load_or_create_device_key c env d = (r, ops)"
      "rr_before (rotate_key c env renv aenv reason d l db) = ops"
      "rr_after (rotate_key c env renv aenv reason d l db) = []" "rr_db (rotate_key c env renv aenv reason d l db) = db"
      "rr_result (rotate_key c env renv aenv reason d l db) = Inl e"
      "r = Inl e \<or> new_device_key c (re_new_private renv) = Inl e \<or> (\<exists>x. e = NotSealable x)"
  | (appending) old ops new ev where "load_or_create_device_key c env d = (Inr old, ops)"
      "new_device_key c (re_new_private renv) = Inr new" "make_rotation_event c renv reason old new = Inr ev"
      "rotate_key c env renv aenv reason d l db = rotate_from c env renv aenv ev old new (ops @ stage_new_key new) d l db"
proof (cases "reason \<in> set VALID_REASONS")
  case False
  then show thesis using none by (simp add: rotate_key_def)
next
  case ok: True
  obtain r ops where boot: "load_or_create_device_key c env d = (r, ops)" by fastforce
  show thesis
  proof (cases r)
    case (Inl e)
    then show thesis using booting [OF boot] ok boot by (simp add: rotate_key_def)
  next
    case (Inr old)
    show thesis
    proof (cases "new_device_key c (re_new_private renv)")
      case (Inl e)
      then show thesis using booting [OF boot] ok boot Inr by (simp add: rotate_key_def)
    next
      case new: (Inr new)
      show thesis
      proof (cases "make_rotation_event c renv reason old new")
        case (Inl e)
        then show thesis using booting [OF boot] ok boot Inr new by (simp add: rotate_key_def)
      next
        case ev: (Inr ev)
        show thesis by (rule appending [OF boot [unfolded Inr] new ev]) (use ok boot Inr new ev in \<open>simp add: rotate_key_def\<close>)
      qed
    qed
  qed
qed

lemma rotate_from_before: "rr_before (rotate_from c env renv aenv ev old new ops d l db) = ops"
  by (auto simp: rotate_from_def Let_def split: prod.splits sum.splits option.splits)

lemma rotate_from_cases:
  obtains (failed) "rr_after (rotate_from c env renv aenv ev old new ops d l db) = []"
      "set (events db) \<subseteq> set (events (rr_db (rotate_from c env renv aenv ev old new ops d l db)))"
  | (appended) q promote where
      "finish_pending_rotation c env (Some (dk_device_id old))
         (do_op (mark_promotion_confirmed (dk_device_id old)) (run_ops ops d)) = (q, promote)"
      "rr_after (rotate_from c env renv aenv ev old new ops d l db) = mark_promotion_confirmed (dk_device_id old) # promote"
      "rr_result (rotate_from c env renv aenv ev old new ops d l db) = rmap (\<lambda>_. new) q"
      "set (events db) \<subseteq> set (events (rr_db (rotate_from c env renv aenv ev old new ops d l db)))"
      "sealed (rr_db (rotate_from c env renv aenv ev old new ops d l db)) ev"
proof -
  obtain r l' db' where a: "append (c_sha c) aenv ev l db = (r, l', db')" by (metis prod_cases3)
  note grown = append_seals [OF a]
  obtain q promote where q: "finish_pending_rotation c env (Some (dk_device_id old))
      (do_op (mark_promotion_confirmed (dk_device_id old)) (run_ops ops d)) = (q, promote)" by fastforce
  show thesis
  proof (cases "\<exists>entry. r = Inr (Some entry)")
    case True
    then show thesis using appended [OF q] a q grown by (auto simp: rotate_from_def)
  next
    case False
    then show thesis using failed a grown
      by (cases r) (auto simp: rotate_from_def split: option.splits)
  qed
qed

lemma staged_slots:
  assumes "load_or_create_device_key c env d = (Inr old, ops)" "strict \<longrightarrow> no_leftover c env d" "slots_ok strict c k0 db (core d)"
  shows "\<exists>f P M. core (run_ops ops d) = (Some f, P, M) \<and> usable f \<and> new_device_key c (fd_bytes f) = Inr old
    \<and> (strict \<longrightarrow> (handover_sealed c db)\<^sup>*\<^sup>* k0 (fd_bytes f) \<and> M = None)
    \<and> core (run_ops (ops @ stage_new_key new) d) = (Some f, Some \<lparr>fd_bytes = dk_private new, fd_mode = 0x180\<rparr>, M)"
proof -
  from booted [OF assms(1,3)] obtain f :: file_data and P M where b: "core (run_ops ops d) = (Some f, P, M)" "usable f"
    "new_device_key c (fd_bytes f) = Inr old" "strict \<longrightarrow> (handover_sealed c db)\<^sup>*\<^sup>* k0 (fd_bytes f)"
    "M = map_of (run_ops ops d) Marker" by blast
  have "strict \<longrightarrow> M = None" using assms(1,2) b(5) by (simp add: no_leftover_def)
  then show ?thesis using b(1-4) staged_all [OF b(1), of new] by auto
qed

lemma before_slots:
  assumes "strict \<longrightarrow> no_leftover c env d" "length (re_new_private renv) = RAW_PRIVATE_KEY_LEN"
    and "interrupted (rr_before (rotate_key c env renv aenv reason d l db)) d d'"
    and "slots_ok strict c k0 db (core d)"
  shows "slots_ok strict c k0 db (core d')"
proof (cases rule: rotate_cases [of c env renv aenv reason d l db])
  case none
  then show ?thesis using assms by simp
next
  case (booting r ops e)
  then show ?thesis using boot_slots assms by metis
next
  case (appending old ops new ev)
  then have "interrupted (ops @ stage_new_key new) d d'" using assms(3) by (simp add: rotate_from_before)
  from interrupted_append [OF this] show ?thesis
  proof
    assume "interrupted ops d d'"
    then show ?thesis using boot_slots appending(1) assms(4) by metis
  next
    assume i: "interrupted (stage_new_key new) (run_ops ops d) d'"
    obtain f :: file_data and P M where c: "core (run_ops ops d) = (Some f, P, M)" "usable f"
      "strict \<longrightarrow> (handover_sealed c db)\<^sup>*\<^sup>* k0 (fd_bytes f) \<and> M = None"
      using staged_slots [OF appending(1) assms(1,4)] by blast
    have "slots_ok strict c k0 db (core (run_ops ops d))"
      by (rule boot_slots [OF appending(1) interrupted_all assms(4)])
    then show ?thesis using staged [OF c(1) i] c device_key_private [OF appending(2)] assms(2) by (auto simp: slots_ok_def)
  qed
qed

lemma after_slots:
  assumes "strict \<longrightarrow> no_leftover c env d" "length (re_new_private renv) = RAW_PRIVATE_KEY_LEN"
    and "interrupted (rr_after (rotate_key c env renv aenv reason d l db))
           (run_ops (rr_before (rotate_key c env renv aenv reason d l db)) d) d'"
    and "slots_ok strict c k0 db (core d)"
  shows "slots_ok strict c k0 (rr_db (rotate_key c env renv aenv reason d l db)) (core d')"
proof -
  let ?run = "rotate_key c env renv aenv reason d l db"
  have stays: "slots_ok strict c k0 db (core (run_ops (rr_before ?run) d))"
    by (rule before_slots [OF assms(1,2) interrupted_all assms(4)])
  show ?thesis
  proof (cases rule: rotate_cases [of c env renv aenv reason d l db])
    case none
    then show ?thesis using assms(3,4) by simp
  next
    case (booting r ops e)
    then show ?thesis using stays assms(3) by simp
  next
    case (appending old ops new ev)
    let ?from = "rotate_from c env renv aenv ev old new (ops @ stage_new_key new) d l db"
    have eq: "?run = ?from" by (rule appending(4))
    show ?thesis
    proof (cases rule: rotate_from_cases [of c env renv aenv ev old new "ops @ stage_new_key new" d l db])
      case failed
      then show ?thesis using stays slots_ok_mono assms(3) by (simp add: eq)
    next
      case (appended q promote)
      obtain f :: file_data and P M where c: "new_device_key c (fd_bytes f) = Inr old"
        "core (run_ops (ops @ stage_new_key new) d) = (Some f, Some \<lparr>fd_bytes = dk_private new, fd_mode = 0x180\<rparr>, M)"
        using staged_slots [OF appending(1) assms(1,4), of new] by blast
      let ?d1 = "run_ops (ops @ stage_new_key new) d"
      let ?d2 = "do_op (mark_promotion_confirmed (dk_device_id old)) ?d1"
      have priv: "dk_private new = re_new_private renv" by (rule device_key_private [OF appending(2)])
      have hand: "handover_sealed c (rr_db ?from) (fd_bytes f) (re_new_private renv)"
        using c(1) appending(2,3) appended(5) unfolding handover_sealed_def by blast
      have ok1: "slots_ok strict c k0 (rr_db ?from) (core ?d1)"
        using slots_ok_mono [OF stays appended(4)] by (simp add: eq rotate_from_before)
      then have ok2: "slots_ok strict c k0 (rr_db ?from) (core ?d2)"
        using marked [OF c(2)] hand assms(2) priv c(2) by (auto simp: slots_ok_def)
      have "interrupted (mark_promotion_confirmed (dk_device_id old) # promote) ?d1 d'"
        using assms(3) appended(2) by (simp add: eq rotate_from_before)
      then consider "d' = ?d1" | "interrupted promote ?d2 d'"
        by (auto simp: mark_promotion_confirmed_def elim!: interrupted_ConsE)
      then show ?thesis
      proof cases
        case 1
        then show ?thesis using ok1 by (simp add: eq)
      next
        case 2
        from finish_slots [OF appended(1) 2 ok2] show ?thesis by (simp add: eq)
      qed
    qed
  qed
qed

lemma key_step_slots:
  assumes "key_step strict c w w'" "slots_ok strict c k0 (snd w) (core (fst w))"
  shows "slots_ok strict c k0 (snd w') (core (fst w'))"
  using assms
proof (induction rule: key_step.induct)
  case (boot env d r ops d' db)
  then show ?case using boot_slots [of c env d r ops d' strict k0 db] by simp
next
  case (enrolled_boot env d q ops d' db)
  obtain q0 ops0 where f: "finish_pending_rotation c env None d = (q0, ops0)" by fastforce
  have "ops = ops0" using enrolled_boot(1) f
    by (auto simp: load_device_key_def split: sum.splits option.splits)
  then show ?case using enrolled_boot finish_slots [OF f] by simp
next
  case (before_append env d renv aenv reason l db d')
  then show ?case using before_slots by simp
next
  case (after_append env d renv aenv reason l db d')
  then show ?case using after_slots by simp
next
  case (other_event aenv ev l db q l' db' d)
  then show ?case using slots_ok_mono append_seals [OF other_event(1)] by simp
qed

lemma key_steps_slots:
  "(key_step strict c)\<^sup>*\<^sup>* w w' \<Longrightarrow> slots_ok strict c k0 (snd w) (core (fst w)) \<Longrightarrow> slots_ok strict c k0 (snd w') (core (fst w'))"
  by (induction rule: rtranclp_induct) (auto intro: key_step_slots)

section \<open>Crashes\<close>

text \<open>
  C17: However often a device boots, rotates its key and appends events, wherever each of these is cut off by a crash or a
  failing call, and whether or not the marker of a rotation can be removed, it always has a usable live key, and a
  boot that returns a key returns the one that was live or the one that was staged, never one it has just generated. As
  long as no rotation runs over a marker that its own boot could not remove (\<open>strict\<close>), that key descends from the
  first one by hand-overs that are in the ledger. (Over such a marker a key can be promoted that no event announces.)
\<close>

theorem crash_keeps_identity:
  assumes "(key_step strict c)\<^sup>*\<^sup>* (d0, db0) (d, db)"
    and "map_of d0 (Live Private) = Some f0" "usable f0" "map_of d0 Marker = None"
  shows "(\<exists>f. map_of d (Live Private) = Some f \<and> usable f \<and> (strict \<longrightarrow> (handover_sealed c db)\<^sup>*\<^sup>* (fd_bytes f0) (fd_bytes f)))
    \<and> (\<forall>env k ops. load_or_create_device_key c env d = (Inr k, ops)
         \<longrightarrow> (\<exists>f. Some f \<in> {map_of d (Live Private), map_of d (Pending Private)} \<and> fd_bytes f = dk_private k)
           \<and> (strict \<longrightarrow> (handover_sealed c db)\<^sup>*\<^sup>* (fd_bytes f0) (dk_private k)))"
proof -
  have start: "slots_ok strict c (fd_bytes f0) db0 (core d0)" using assms(2-4) by (simp add: slots_ok_def core_def)
  then have now: "slots_ok strict c (fd_bytes f0) db (core d)" using key_steps_slots [OF assms(1)] by simp
  have "(\<exists>f. Some f \<in> {map_of d (Live Private), map_of d (Pending Private)} \<and> fd_bytes f = dk_private k)
      \<and> (strict \<longrightarrow> (handover_sealed c db)\<^sup>*\<^sup>* (fd_bytes f0) (dk_private k))"
    if boot: "load_or_create_device_key c env d = (Inr k, ops)" for env k ops
  proof -
    obtain q b f where f: "finish_pending_rotation c env None d = (q, ops)" "q = Inr b"
      "map_of (run_ops ops d) (Live Private) = Some f" "load c f = Inr k"
      using boot_ops [OF boot now] by (elim exE conjE allE [of _ k] impE exE) simp_all
    have bytes: "fd_bytes f = dk_private k" using load_usable [OF f(4)] by (auto dest: device_key_private)
    have "Some f \<in> {map_of d (Live Private), map_of d (Pending Private)}"
      using finish_done [OF f(1) [unfolded f(2)], of "map_of d (Live Private)" "map_of d (Pending Private)" "map_of d Marker"] f(3)
      by (auto simp: core_def split: if_splits)
    moreover have "slots_ok strict c (fd_bytes f0) db (core (run_ops ops d))" by (rule boot_slots [OF boot interrupted_all now])
    ultimately show ?thesis using f(3) bytes by (fastforce simp: slots_ok_def core_def)
  qed
  then show ?thesis using now by (auto simp: slots_ok_def core_def)
qed

lemma free_suffix_free: "2 \<le> n \<Longrightarrow> 2 \<le> free_suffix d i n \<and> \<not> taken d i (free_suffix d i n)"
  by (induction d i n rule: free_suffix.induct) (subst (1 2) free_suffix.simps, auto)

lemma archive_for_free: "map_of d (Archive (archive_for d i) Private) = None"
  using free_suffix_free [of 2 d i] by (auto simp: archive_for_def taken_def archive_name_def)

text \<open>The archive of a promotion: a new name for the key that was live, every other private archive as it was.\<close>

lemma promote_archives:
  assumes "map_of d (Live Private) = Some f" "map_of d (Pending Private) = Some p"
  obtains n where "map_of d (Archive n Private) = None"
    "\<And>m. map_of (run_ops (promote_ops c old d) d) (Archive m Private)
        = (if m = n then Some f else map_of d (Archive m Private))"
proof -
  let ?n = "archive_for d (archived_id c old f)"
  have "map_of (run_ops (promote_ops c old d) d) (Archive m Private)
      = (if m = ?n then Some f else map_of d (Archive m Private))" for m
    using assms by (auto simp: promote_ops_def archive_ops_def Let_def)
  then show thesis using that archive_for_free by blast
qed

text \<open>
  C18: A confirmed rotation is finished by the next boot: it returns the staged key, whether or not the
  marker can be removed. The key that was live is kept under an archive name that was free, and no
  archived private key is overwritten.
\<close>

theorem confirmed_rotation_finishes:
  assumes "map_of d Marker = Some m" "ke_decode env (fd_bytes m) = Some t"
    and "map_of d (Live Private) = Some f" "map_of d (Pending Private) = Some p" "usable p"
    and "load_or_create_device_key c env d = (r, ops)"
  shows "r = new_device_key c (fd_bytes p) \<and> map_of (run_ops ops d) (Live Private) = Some p
    \<and> (\<exists>n. map_of d (Archive n Private) = None \<and> map_of (run_ops ops d) (Archive n Private) = Some f)
    \<and> (\<forall>n x. map_of d (Archive n Private) = Some x \<longrightarrow> map_of (run_ops ops d) (Archive n Private) = Some x)"
proof -
  let ?un = "if ke_unlink_ok env then [UnlinkFile Marker] else []"
  obtain old where fin: "finish_pending_rotation c env None d = (Inr True, promote_ops c old d @ ?un)"
    using assms(1,2) by (simp add: finish_pending_rotation_def marker_id_def)
  have un: "map_of (run_ops ?un e) g = map_of e g" if "g \<noteq> Marker" for e g using that by simp
  have "core d = (Some f, Some p, Some m)" using assms by (simp add: core_def)
  from promote_done [OF this, of c old] have live: "map_of (run_ops (promote_ops c old d @ ?un) d) (Live Private) = Some p"
    using un by (simp add: core_def)
  have ops: "ops = promote_ops c old d @ ?un" "r = load c p"
    using assms(6) fin live by (auto simp: load_or_create_device_key_def)
  obtain n where n: "map_of d (Archive n Private) = None"
    "\<And>m. map_of (run_ops (promote_ops c old d) d) (Archive m Private)
        = (if m = n then Some f else map_of d (Archive m Private))"
    using promote_archives [OF assms(3,4), of c old] by blast
  have "map_of (run_ops ops d) (Archive m Private) = (if m = n then Some f else map_of d (Archive m Private))" for m
    using n(2) un ops(1) by simp
  then show ?thesis using live ops usable_load [OF assms(5)] n(1) by auto
qed

text \<open>
  A rotation either happens completely or not at all: when it returns the new key, that key is live,
  nothing is staged or marked, and the hand-over is in the ledger; when it raises, the key that was
  live after its boot still is, and nothing is confirmed.
\<close>

theorem rotation_all_or_nothing:
  assumes "map_of d (Live Private) = Some f" "usable f" "map_of d Marker = None" "ke_unlink_ok env"
    and "run = rotate_key c env renv aenv reason d l db" "d' = run_ops (rr_before run @ rr_after run) d"
  shows "case rr_result run of
      Inr k \<Rightarrow> dk_private k = re_new_private renv \<and> handover_sealed c (rr_db run) (fd_bytes f) (re_new_private renv)
        \<and> map_option fd_bytes (map_of d' (Live Private)) = Some (re_new_private renv)
        \<and> map_of d' (Pending Private) = None \<and> map_of d' Marker = None
    | Inl e \<Rightarrow> map_of d' (Live Private) = Some f \<and> map_of d' Marker = None"
proof -
  have ok: "slots_ok True c (fd_bytes f) db (core d)" using assms(1-3) by (simp add: slots_ok_def core_def)
  obtain P where cd: "core d = (Some f, P, None)" using assms(1,3) by (simp add: core_def)
  have boot_core: "core (run_ops ops d) = (Some f, P, None)" if "load_or_create_device_key c env d = (r, ops)" for r ops
  proof -
    from boot_ops [OF that ok] have "\<exists>q. finish_pending_rotation c env None d = (q, ops)" by (elim exE conjE) (rule exI)
    then have "ops = []" using assms(3) by (auto simp: finish_pending_rotation_def)
    then show ?thesis using cd by simp
  qed
  show ?thesis
  proof (cases rule: rotate_cases [of c env renv aenv reason d l db])
    case none
    then show ?thesis using assms(1,3,5,6) by simp
  next
    case (booting r ops e)
    then show ?thesis using boot_core [OF booting(1)] assms(5,6) by (simp add: core_def)
  next
    case (appending old ops new ev)
    let ?from = "rotate_from c env renv aenv ev old new (ops @ stage_new_key new) d l db"
    let ?d1 = "run_ops (ops @ stage_new_key new) d"
    let ?new = "\<lparr>fd_bytes = dk_private new, fd_mode = 0x180\<rparr>"
    have c1: "core ?d1 = (Some f, Some ?new, None)"
      using staged_all [OF boot_core [OF appending(1)], of new] by simp
    have old: "new_device_key c (fd_bytes f) = Inr old"
      using booted [OF appending(1) ok] boot_core [OF appending(1)] by auto
    have priv: "dk_private new = re_new_private renv" by (rule device_key_private [OF appending(2)])
    have eq: "run = ?from" using appending(4) assms(5) by simp
    show ?thesis
    proof (cases rule: rotate_from_cases [of c env renv aenv ev old new "ops @ stage_new_key new" d l db])
      case failed
      then have "\<exists>e. rr_result run = Inl e"
        by (auto simp: eq rotate_from_def Let_def split: sum.splits prod.splits option.splits)
      then show ?thesis using failed c1 assms(6) by (auto simp: eq rotate_from_before core_def)
    next
      case (appended q promote)
      let ?d2 = "do_op (mark_promotion_confirmed (dk_device_id old)) ?d1"
      have q: "q = Inr True" using appended(1) by (auto simp: finish_pending_rotation_def mark_promotion_confirmed_def)
      have "core (run_ops promote ?d2) = (Some ?new, None, None)"
        using finish_done [OF appended(1) [unfolded q] marked [OF c1]] assms(4) by simp
      moreover have "handover_sealed c (rr_db run) (fd_bytes f) (re_new_private renv)"
        using old appending(2,3) appended(5) eq unfolding handover_sealed_def by blast
      ultimately show ?thesis using appended(2,3) q priv assms(6)
        by (simp add: eq rotate_from_before core_def)
    qed
  qed
qed

text \<open>
  One crash point is not covered: between the append and the marker. The hand-over is then in the
  ledger, but every later boot returns the old key and changes nothing, and whatever rotation the
  device announces next, the verifier, for whom the new key is active, rejects it.
\<close>

theorem rotation_lost_after_append:
  assumes "map_of d (Live Private) = Some f" "usable f" "map_of d Marker = None" "ke_unlink_ok env"
    and "run = rotate_key c env renv aenv reason d l db" "rr_result run = Inr new" "new_device_key c (fd_bytes f) = Inr old"
    and "dk_device_id new \<noteq> dk_device_id old"
    and "w_active w = Some (dk_public new, dk_device_id new)" "dget (u ''device_id'') ev = PStr (dk_device_id old)"
  shows "handover_sealed c (rr_db run) (fd_bytes f) (dk_private new)
    \<and> load_or_create_device_key c env' (run_ops (rr_before run) d) = (Inr old, [])
    \<and> w_active (walk_rotation (crypto.truncate c) repr ks seq ev w) = Some (dk_public new, dk_device_id new)
    \<and> (w_malformed (walk_rotation (crypto.truncate c) repr ks seq ev w) \<noteq> []
       \<or> forged_rotations (w_rotations (walk_rotation (crypto.truncate c) repr ks seq ev w)) \<noteq> [])"
proof -
  have ok: "slots_ok True c (fd_bytes f) db (core d)" using assms(1-3) by (simp add: slots_ok_def core_def)
  have idle_boot: "load_or_create_device_key c e x = (Inr old, [])"
    if "map_of x (Live Private) = Some f" "map_of x Marker = None" for e x
    using that assms(2,7) by (simp add: load_or_create_device_key_def finish_pending_rotation_def usable_load)
  have "\<exists>ev. make_rotation_event c renv reason old new = Inr ev \<and> new_device_key c (re_new_private renv) = Inr new
      \<and> sealed (rr_db run) ev \<and> core (run_ops (rr_before run) d) = (Some f, Some \<lparr>fd_bytes = dk_private new, fd_mode = 0x180\<rparr>, None)"
  proof (cases rule: rotate_cases [of c env renv aenv reason d l db])
    case none
    then show ?thesis using assms(5,6) by simp
  next
    case (booting r ops e)
    then show ?thesis using assms(5,6) by simp
  next
    case (appending old' ops new' ev')
    have n: "load_or_create_device_key c env d = (Inr old, [])" by (rule idle_boot) (use assms(1,3) in simp_all)
    have "(Inr old' :: key_error + device_key, ops) = (Inr old, [])"
      by (rule trans [OF appending(1) [symmetric] n])
    then have o: "old' = old" "ops = []" by simp_all
    have run: "run = rotate_from c env renv aenv ev' old new' (stage_new_key new') d l db"
      using appending(4) assms(5) o by simp
    show ?thesis
    proof (cases rule: rotate_from_cases [of c env renv aenv ev' old new' "stage_new_key new'" d l db])
      case failed
      then show ?thesis using assms(6)
        by (auto simp: run rotate_from_def Let_def split: sum.splits prod.splits option.splits)
    next
      case (appended q promote)
      have "new' = new" using appended(3) assms(6) run by (cases q) auto
      moreover have "core d = (Some f, map_of d (Pending Private), None)" using assms(1,3) by (simp add: core_def)
      ultimately show ?thesis using appending(2,3) appended(5) o run staged_all [of d]
        by (simp add: rotate_from_before)
    qed
  qed
  then obtain ev' where e: "make_rotation_event c renv reason old new = Inr ev'" "new_device_key c (re_new_private renv) = Inr new"
    "sealed (rr_db run) ev'" "core (run_ops (rr_before run) d) = (Some f, Some \<lparr>fd_bytes = dk_private new, fd_mode = 0x180\<rparr>, None)"
    by blast
  have "handover_sealed c (rr_db run) (fd_bytes f) (dk_private new)"
    by (rule handover_sealedI [OF assms(7) _ e(1,3)]) (use e(2) device_key_private [OF e(2)] in simp)
  moreover have "load_or_create_device_key c env' (run_ops (rr_before run) d) = (Inr old, [])"
    by (rule idle_boot) (use e(4) in \<open>simp_all add: core_def\<close>)
  ultimately show ?thesis using rejected_rotation [OF assms(9), of ev] assms(8,10) by simp
qed

text \<open>
  A marker that could not be removed outlives its rotation: the next rotation whose append fails
  raises, saying that the old key stays live, and still the boot after it promotes the key that no
  event announces.
\<close>

theorem leftover_marker_promotes_unsealed_key:
  assumes "map_of d (Live Private) = Some f" "usable f" "map_of d Marker = Some m" "map_of d (Pending Private) = None"
    and "\<not> ke_unlink_ok env" "ke_decode env (fd_bytes m) = Some t" "length (re_new_private renv) = RAW_PRIVATE_KEY_LEN"
    and "run = rotate_key c env renv aenv reason d l db" "rr_result run = Inl RotationNotAppended"
  shows "fst (load_or_create_device_key c env (run_ops (rr_before run @ rr_after run) d))
    = new_device_key c (re_new_private renv)"
proof (cases rule: rotate_cases [of c env renv aenv reason d l db])
  case none
  then show ?thesis using assms(8,9) by simp
next
  case (booting r ops e)
  have "load_or_create_device_key c env d = (load c f, [])"
    using assms(1-6) by (simp add: load_or_create_device_key_def finish_pending_rotation_def marker_id_def)
  then have "r = new_device_key c (fd_bytes f)" using booting(1) assms(2) by (simp add: usable_load)
  then have "e \<noteq> RotationNotAppended" using booting(6) by (auto dest: device_key_error)
  then show ?thesis using booting(5) assms(8,9) by simp
next
  case (appending old ops new ev)
  let ?new = "\<lparr>fd_bytes = dk_private new, fd_mode = 0x180\<rparr>"
  have "load_or_create_device_key c env d = (load c f, [])"
    using assms(1-6) by (simp add: load_or_create_device_key_def finish_pending_rotation_def marker_id_def)
  then have ops: "ops = []" using appending(1) by simp
  have run: "run = rotate_from c env renv aenv ev old new (stage_new_key new) d l db"
    using appending(4) assms(8) ops by simp
  have priv: "dk_private new = re_new_private renv" by (rule device_key_private [OF appending(2)])
  have "core d = (Some f, None, Some m)" using assms(1,3,4) by (simp add: core_def)
  from staged_all [OF this, of new] have c1: "core (run_ops (stage_new_key new) d) = (Some f, Some ?new, Some m)" .
  have "rr_after run = []" using assms(9) unfolding run
    by (cases rule: rotate_from_cases [of c env renv aenv ev old new "stage_new_key new" d l db])
      (auto simp: finish_pending_rotation_def mark_promotion_confirmed_def)
  then have d': "run_ops (rr_before run @ rr_after run) d = run_ops (stage_new_key new) d"
    by (simp add: run rotate_from_before)
  obtain q o' where f: "finish_pending_rotation c env None (run_ops (stage_new_key new) d) = (q, o')" by fastforce
  have q: "q = Inr True" using f c1 assms(6) by (auto simp: finish_pending_rotation_def marker_id_def core_def)
  have "map_of (run_ops o' (run_ops (stage_new_key new) d)) (Live Private) = Some ?new"
    using finish_done [OF f [unfolded q] c1] by (simp add: core_def)
  moreover have "load c ?new = new_device_key c (re_new_private renv)"
    using assms(7) priv by (simp add: usable_load)
  ultimately show ?thesis using f q d' by (simp add: load_or_create_device_key_def)
qed

end
