(* ===== verification/Rotation_Witness.thy ===== *)
theory Rotation_Witness
  imports Rotation_Props
begin

text \<open>A device with a toy key pair rotating its key on an empty ledger: the witnesses of \<open>Rotation_Props\<close>.\<close>

definition toy_keys :: key_crypto where
  "toy_keys = \<lparr>c_sha = id, c_b64decode = (\<lambda>s. Some (map of_nat s)), c_b64encode = map unat,
     c_ed25519_verify = (\<lambda>_ _ _. True), c_ed25519_sign = (\<lambda>_ _. []), c_public = take 1\<rparr>"

definition key_a :: device_key where
  "key_a = \<lparr>dk_private = replicate 32 7, dk_public = [7], dk_device_id = u ''dev_A4''\<rparr>"

definition key_b :: device_key where
  "key_b = \<lparr>dk_private = replicate 32 9, dk_public = [9], dk_device_id = u ''dev_BE''\<rparr>"

lemma b32_7: "b32encode [7] = [65, 52]" by code_simp
lemma b32_9: "b32encode [9] = [66, 69]" by code_simp

lemma toy_device_keys [simp]:
  "new_device_key toy_keys (replicate 32 7) = Inr key_a" "new_device_key toy_keys (replicate 32 9) = Inr key_b"
  using b32_7 b32_9
  by (simp_all add: new_device_key_def derive_device_id_def toy_keys_def key_crypto.defs crypto.defs
      DEVICE_ID_LEN_def key_a_def key_b_def u_def)

definition home :: key_dir where
  "home = [(Live Private, \<lparr>fd_bytes = replicate 32 7, fd_mode = 0x180\<rparr>)]"

definition boot_env :: key_env where
  "boot_env = \<lparr>ke_decode = (\<lambda>b. Some (map unat b)), ke_unlink_ok = True, ke_generated = []\<rparr>"

definition to_b :: rotation_env where
  "to_b = \<lparr>re_new_private = replicate 32 9, re_effective = [], re_event_id = u ''e'', re_ts = [], re_ns = 0,
     re_trace = [], re_span = []\<rparr>"

lemma home_simps [simp]:
  "map_of home (Live Private) = Some \<lparr>fd_bytes = replicate 32 7, fd_mode = 0x180\<rparr>"
  "map_of home Marker = None" "map_of home (Pending Private) = None"
  "usable \<lparr>fd_bytes = replicate 32 7, fd_mode = 0x180\<rparr>" "usable \<lparr>fd_bytes = replicate 32 9, fd_mode = 0x180\<rparr>"
  "ke_unlink_ok boot_env"
  by (simp_all add: home_def boot_env_def RAW_PRIVATE_KEY_LEN_def)

lemma to_b_event:
  obtains ev where "make_rotation_event toy_keys to_b (u ''rotation'') key_a key_b = Inr ev" "jsonable (to_dict ev)"
    "ev_event_id ev = u ''e''"
proof -
  have "jsonable (dict_of (handover_fields key_a key_b))"
    by (simp add: dict_of_def handover_fields_def key_a_def key_b_def clean_def u_def surrogate_def)
  then obtain data where data: "canonicalize (dict_of (handover_fields key_a key_b)) = Inr data"
    using jsonable_canonicalize by blast
  let ?p = "rotation_payload key_a key_b (device_key_sign (crypto.truncate toy_keys) (dk_private key_a) data) (u ''rotation'') []"
  have p: "jsonable ?p"
    by (simp add: rotation_payload_def dict_of_def handover_fields_def key_a_def key_b_def clean_def u_def surrogate_def
        device_key_sign_def SIG_PREFIX_def toy_keys_def crypto.defs)
  then obtain b where b: "canonicalize ?p = Inr b" using jsonable_canonicalize by blast
  let ?ev = "rotation_event to_b key_a ?p (sha256_hex (c_sha toy_keys) b)"
  have "make_rotation_event toy_keys to_b (u ''rotation'') key_a key_b = Inr ?ev"
    using data b by (simp add: make_rotation_event_def to_b_def Let_def)
  moreover have "jsonable (to_dict ?ev)"
    using p sha256_hex_ok(2) [of "c_sha toy_keys" b] by (simp add: to_dict_def dict_of_def rotation_event_def event_items_def field_values_def
        opt_str_def clean_def u_def EVENT_SCHEMA_VERSION_V1_def EVENT_SCHEMA_VERSION_def surrogate_def
        to_b_def key_a_def ROTATION_SESSION_ID_def)
  ultimately show thesis using that [of ?ev] by (simp add: rotation_event_def to_b_def)
qed

definition first_rotation :: rotation_run where
  "first_rotation = rotate_key toy_keys boot_env to_b plain_env (u ''rotation'') home fresh (w_db empty_world)"

lemma first_rotation_result: "rr_result first_rotation = Inr key_b"
proof -
  obtain ev where ev: "make_rotation_event toy_keys to_b (u ''rotation'') key_a key_b = Inr ev" "jsonable (to_dict ev)"
    "ev_event_id ev = u ''e''" by (rule to_b_event)
  have boot: "load_or_create_device_key toy_keys boot_env home = (Inr key_a, [])"
    by (simp add: load_or_create_device_key_def finish_pending_rotation_def usable_load RAW_PRIVATE_KEY_LEN_def)
  obtain entry l' db' where "append id plain_env ev fresh (w_db empty_world) = (Inr (Some entry), l', db')"
    using append_succeeds_aux [OF empty_world_ok fresh_simps(1,2), of plain_env ev id] ev(2)
    by (auto simp: plain_env_def empty_world_def)
  then have a: "append (c_sha toy_keys) plain_env ev fresh (w_db empty_world) = (Inr (Some entry), l', db')"
    by (simp add: toy_keys_def)
  have "u ''rotation'' \<in> set VALID_REASONS" by (simp add: VALID_REASONS_def)
  moreover have "new_device_key toy_keys (re_new_private to_b) = Inr key_b" by (simp add: to_b_def)
  ultimately show ?thesis
    using boot ev(1) a by (auto simp: first_rotation_def rotate_key_def rotate_from_def
        finish_pending_rotation_def mark_promotion_confirmed_def Let_def split: prod.splits)
qed

section \<open>The witnesses\<close>

lemma home_usable: "usable \<lparr>fd_bytes = replicate 32 7, fd_mode = 0x180\<rparr>"
  by (simp add: RAW_PRIVATE_KEY_LEN_def)

lemma ids_differ: "dk_device_id key_b \<noteq> dk_device_id key_a"
  by (simp add: key_a_def key_b_def u_def)

theorem crash_keeps_identity_witness:
  "(\<exists>f. map_of (run_ops (rr_before first_rotation @ rr_after first_rotation) home) (Live Private) = Some f
     \<and> (handover_sealed toy_keys (rr_db first_rotation))\<^sup>*\<^sup>* (replicate 32 7) (fd_bytes f))"
proof -
  have "load_or_create_device_key toy_keys boot_env home = (Inr key_a, [])"
    by (simp add: load_or_create_device_key_def finish_pending_rotation_def usable_load RAW_PRIVATE_KEY_LEN_def)
  then have "no_leftover toy_keys boot_env home" by (simp add: no_leftover_def)
  then have "key_step True toy_keys (home, w_db empty_world)
      (run_ops (rr_after first_rotation) (run_ops (rr_before first_rotation) home), rr_db first_rotation)"
    unfolding first_rotation_def
    by (intro key_step.after_append [OF _ _ interrupted_all]) (simp_all add: to_b_def RAW_PRIVATE_KEY_LEN_def)
  then have "(key_step True toy_keys)\<^sup>*\<^sup>* (home, w_db empty_world)
      (run_ops (rr_before first_rotation @ rr_after first_rotation) home, rr_db first_rotation)" by simp
  from crash_keeps_identity [OF this home_simps(1) home_usable] show ?thesis by auto
qed

theorem confirmed_rotation_finishes_witness:
  "\<exists>d::key_dir. map_of d (Live Private) = Some \<lparr>fd_bytes = replicate 32 7, fd_mode = 0x180\<rparr>
    \<and> fst (load_or_create_device_key toy_keys boot_env d) = Inr key_b"
proof -
  let ?p = "\<lparr>fd_bytes = replicate 32 9, fd_mode = 0x180\<rparr>"
  let ?d = "put Marker \<lparr>fd_bytes = [], fd_mode = 0x180\<rparr> (put (Pending Private) ?p home)"
  obtain r ops where r: "load_or_create_device_key toy_keys boot_env ?d = (r, ops)" by fastforce
  have "r = new_device_key toy_keys (replicate 32 9)"
    using confirmed_rotation_finishes [of ?d "\<lparr>fd_bytes = [], fd_mode = 0x180\<rparr>" boot_env "[]"
        "\<lparr>fd_bytes = replicate 32 7, fd_mode = 0x180\<rparr>" ?p toy_keys r ops] r
    by (simp add: boot_env_def RAW_PRIVATE_KEY_LEN_def)
  then show ?thesis using r by (intro exI [of _ ?d]) simp
qed

theorem rotation_all_or_nothing_witness:
  "dk_private key_b = replicate 32 9
    \<and> handover_sealed toy_keys (rr_db first_rotation) (replicate 32 7) (replicate 32 9)
    \<and> map_option fd_bytes (map_of (run_ops (rr_before first_rotation @ rr_after first_rotation) home) (Live Private))
        = Some (replicate 32 9)"
  using rotation_all_or_nothing [OF home_simps(1) home_usable home_simps(2,6) first_rotation_def refl]
    first_rotation_result
  by (simp add: to_b_def)

theorem rotation_lost_after_append_witness:
  "rr_result first_rotation = Inr key_b
    \<and> load_or_create_device_key toy_keys boot_env (run_ops (rr_before first_rotation) home) = (Inr key_a, [])
    \<and> w_active (walk_rotation (crypto.truncate toy_keys) no_repr Map.empty 2
          [(KStr (u ''device_id''), PStr (u ''dev_A4''))] ((start_walk toy None)\<lparr>w_active := Some ([9], u ''dev_BE'')\<rparr>))
       = Some ([9], u ''dev_BE'')"
  using rotation_lost_after_append [OF home_simps(1) home_usable home_simps(2,6) first_rotation_def first_rotation_result,
      of key_a "(start_walk toy None)\<lparr>w_active := Some ([9], u ''dev_BE'')\<rparr>" "[(KStr (u ''device_id''), PStr (u ''dev_A4''))]"
        boot_env no_repr Map.empty 2]
    first_rotation_result ids_differ
  by (simp add: key_a_def key_b_def)

definition broken_env :: key_env where
  "broken_env = boot_env\<lparr>ke_unlink_ok := False\<rparr>"

definition marked_home :: key_dir where
  "marked_home = put Marker \<lparr>fd_bytes = [], fd_mode = 0x180\<rparr> home"

definition failed_rotation :: rotation_run where
  "failed_rotation = rotate_key toy_keys broken_env to_b plain_env (u ''rotation'') marked_home
     (fresh\<lparr>closed := True, strict_mode := False\<rparr>) (w_db empty_world)"

lemma failed_rotation_result: "rr_result failed_rotation = Inl RotationNotAppended"
proof -
  obtain ev where ev: "make_rotation_event toy_keys to_b (u ''rotation'') key_a key_b = Inr ev" by (rule to_b_event)
  have boot: "load_or_create_device_key toy_keys broken_env marked_home = (Inr key_a, [])"
    by (simp add: load_or_create_device_key_def finish_pending_rotation_def marker_id_def marked_home_def broken_env_def
        boot_env_def usable_load RAW_PRIVATE_KEY_LEN_def)
  have "u ''rotation'' \<in> set VALID_REASONS" by (simp add: VALID_REASONS_def)
  moreover have "new_device_key toy_keys (re_new_private to_b) = Inr key_b" by (simp add: to_b_def)
  ultimately show ?thesis using boot ev
    by (simp add: failed_rotation_def rotate_key_def rotate_from_def append_def on_write_failure_def)
qed

theorem leftover_marker_promotes_unsealed_key_witness:
  "rr_result failed_rotation = Inl RotationNotAppended
    \<and> fst (load_or_create_device_key toy_keys broken_env (run_ops (rr_before failed_rotation @ rr_after failed_rotation) marked_home))
      = Inr key_b"
  using leftover_marker_promotes_unsealed_key [of marked_home "\<lparr>fd_bytes = replicate 32 7, fd_mode = 0x180\<rparr>"
      "\<lparr>fd_bytes = [], fd_mode = 0x180\<rparr>" broken_env "[]" to_b failed_rotation toy_keys plain_env "u ''rotation''"
      "fresh\<lparr>closed := True, strict_mode := False\<rparr>" "w_db empty_world", OF _ home_usable _ _ _ _ _ failed_rotation_def
      failed_rotation_result] failed_rotation_result
  by (simp add: marked_home_def broken_env_def boot_env_def to_b_def RAW_PRIVATE_KEY_LEN_def)

end
