(* ===== verification/Outbox.thy ===== *)
theory Outbox
  imports Delegation
begin

text \<open>
  \<open>recorder/verdicts.py\<close>: the durable queue of verdicts and the shipper that drains it. The table is its
  rows in the order of their ids; a body column holds the value whose JSON text is stored. What the
  endpoint answers, fresh batch keys, and whether an SQLite statement fails are inputs.
\<close>

section \<open>The queue\<close>

definition MAX_VERDICT_BATCH :: int where "MAX_VERDICT_BATCH = 200"

datatype row_state = Pending_Row | Shipped_Row | Rejected_Row

record vrow =
  v_id :: int
  v_agent :: pystr
  v_key :: "pystr option"
  v_state :: row_state
  v_body :: pyval
  v_note :: "pystr option"

record outbox =
  ob_rows :: "vrow list"
  ob_last :: int

record claimed =
  cb_agent :: pystr
  cb_key :: pystr
  cb_ids :: "int list"
  cb_verdicts :: "pyval list"

definition empty_outbox :: outbox where
  "empty_outbox = \<lparr>ob_rows = [], ob_last = 0\<rparr>"

text \<open>\<open>AUTOINCREMENT\<close> never gives an id twice.\<close>

definition add :: "pystr \<Rightarrow> pyval \<Rightarrow> outbox \<Rightarrow> int \<times> outbox" where
  "add agent body ob =
     (let i = ob_last ob + 1 in
      (i, ob\<lparr>ob_rows := ob_rows ob @ [\<lparr>v_id = i, v_agent = agent, v_key = None, v_state = Pending_Row,
                                        v_body = body, v_note = None\<rparr>],
            ob_last := i\<rparr>))"

definition pending :: "vrow \<Rightarrow> bool" where
  "pending r \<longleftrightarrow> v_state r = Pending_Row"

definition pending_count :: "outbox \<Rightarrow> nat" where
  "pending_count ob = length (filter pending (ob_rows ob))"

definition batch_of :: "pystr \<Rightarrow> pystr \<Rightarrow> vrow list \<Rightarrow> claimed" where
  "batch_of agent key rows =
     \<lparr>cb_agent = agent, cb_key = key, cb_ids = map v_id rows, cb_verdicts = map v_body rows\<rparr>"

definition claimed_rows :: "pystr \<Rightarrow> pystr \<Rightarrow> outbox \<Rightarrow> vrow list" where
  "claimed_rows key agent ob =
     filter (\<lambda>r. pending r \<and> v_key r = Some key \<and> v_agent r = agent) (ob_rows ob)"

definition resume_claimed :: "outbox \<Rightarrow> claimed option" where
  "resume_claimed ob =
     (case filter (\<lambda>r. pending r \<and> v_key r \<noteq> None) (ob_rows ob) of
        [] \<Rightarrow> None
      | r # _ \<Rightarrow> Some (batch_of (v_agent r) (the (v_key r)) (claimed_rows (the (v_key r)) (v_agent r) ob)))"

definition assign_key :: "int list \<Rightarrow> pystr \<Rightarrow> outbox \<Rightarrow> outbox" where
  "assign_key ids key ob =
     ob\<lparr>ob_rows := map (\<lambda>r. if v_id r \<in> set ids then r\<lparr>v_key := Some key\<rparr> else r) (ob_rows ob)\<rparr>"

text \<open>\<open>limit\<close> rows are read for whatever agents they are, then cut down to those of the first one.\<close>

definition next_rows :: "int \<Rightarrow> outbox \<Rightarrow> vrow list" where
  "next_rows limit ob =
     (case take (nat limit) (filter (\<lambda>r. pending r \<and> v_key r = None) (ob_rows ob)) of
        [] \<Rightarrow> []
      | r # rows \<Rightarrow> filter (\<lambda>x. v_agent x = v_agent r) (r # rows))"

definition clamp_limit :: "int \<Rightarrow> int" where
  "clamp_limit limit = max 1 (min limit MAX_VERDICT_BATCH)"

text \<open>A failing statement rolls the transaction back and raises: \<open>Inl\<close>.\<close>

definition claim :: "bool \<Rightarrow> pystr \<Rightarrow> int \<Rightarrow> outbox \<Rightarrow> (unit + claimed option) \<times> outbox" where
  "claim fails key limit ob =
     (case resume_claimed ob of
        Some b \<Rightarrow> (Inr (Some b), ob)
      | None \<Rightarrow>
          if fails then (Inl (), ob)
          else (case next_rows (clamp_limit limit) ob of
                  [] \<Rightarrow> (Inr None, ob)
                | r # rows \<Rightarrow>
                    (Inr (Some (batch_of (v_agent r) key (r # rows))), assign_key (map v_id (r # rows)) key ob)))"

definition set_state :: "int list \<Rightarrow> row_state \<Rightarrow> pystr option \<Rightarrow> outbox \<Rightarrow> outbox" where
  "set_state ids s n ob =
     ob\<lparr>ob_rows := map (\<lambda>r. if v_id r \<in> set ids then r\<lparr>v_state := s, v_note := n\<rparr> else r) (ob_rows ob)\<rparr>"

definition mark_shipped :: "int list \<Rightarrow> outbox \<Rightarrow> outbox" where
  "mark_shipped ids ob = set_state ids Shipped_Row None ob"

definition mark_rejected :: "int list \<Rightarrow> pystr \<Rightarrow> outbox \<Rightarrow> outbox" where
  "mark_rejected ids n ob = set_state ids Rejected_Row (Some (take 500 n)) ob"

definition rows_in_state :: "row_state option \<Rightarrow> outbox \<Rightarrow> vrow list" where
  "rows_in_state s ob = filter (\<lambda>r. s = None \<or> s = Some (v_state r)) (ob_rows ob)"

section \<open>The shipper\<close>

text \<open>
  What the client's \<open>record_verdict_batch\<close> does: returns a JSON object, returns something else, raises an
  error that says the batch is malformed (422 or \<open>ValueError\<close>), or raises any other.
\<close>

datatype answer = Body "(pykey \<times> pyval) list" | NoObject | Unprocessable pystr | OtherFailure

record ship_result =
  sr_agent :: pystr
  sr_key :: pystr
  sr_shipped :: nat
  sr_duplicate :: bool
  sr_accepted :: int
  sr_stale :: int
  sr_anchor :: pyval
  sr_rejected :: bool

datatype ship_error = ClaimFailed | ClientFailed | CountOverflow

text \<open>\<open>_int\<close>: 0 for what \<open>int()\<close> refuses; an infinite float still raises \<open>OverflowError\<close>.\<close>

definition safe_int :: "pyconv \<Rightarrow> pyval \<Rightarrow> ship_error + int" where
  "safe_int cv v = (case cv_int cv v of Converted i \<Rightarrow> Inr i | Refused \<Rightarrow> Inr 0 | Overflowed \<Rightarrow> Inl CountOverflow)"

definition replay_note :: "claimed \<Rightarrow> int \<Rightarrow> pystr" where
  "replay_note b n =
     u ''Coriqo replayed batch '' @ cb_key b @ u '' holding '' @ int_str n @ u '' verdicts, but this host has ''
     @ int_str (int (length (cb_ids b))) @ u '' under that key''"

definition rejected_result :: "claimed \<Rightarrow> bool \<Rightarrow> int \<Rightarrow> pyval \<Rightarrow> ship_result" where
  "rejected_result b duplicate stale anchor =
     \<lparr>sr_agent = cb_agent b, sr_key = cb_key b, sr_shipped = length (cb_ids b), sr_duplicate = duplicate,
      sr_accepted = 0, sr_stale = stale, sr_anchor = anchor, sr_rejected = True\<rparr>"

definition settle_body ::
  "pyconv \<Rightarrow> claimed \<Rightarrow> (pykey \<times> pyval) list \<Rightarrow> outbox \<Rightarrow> (ship_error + ship_result) \<times> outbox" where
  "settle_body cv b body ob =
     (let duplicate = truthy (dget (u ''duplicate'') body);
          anchor = dget (u ''anchor_mandate_version_id'') body;
          stored = dget (u ''verdict_count'') body
      in case safe_int cv (dget (u ''stale_mandate_version_count'') body) of
           Inl e \<Rightarrow> (Inl e, ob)
         | Inr stale \<Rightarrow>
             (case (if duplicate \<and> stored \<noteq> PNone then rmap Some (safe_int cv stored) else Inr None) of
                Inl e \<Rightarrow> (Inl e, ob)
              | Inr held \<Rightarrow>
                  if held \<noteq> None \<and> the held \<noteq> int (length (cb_ids b)) then
                    (Inr (rejected_result b True stale anchor),
                     mark_rejected (cb_ids b) (replay_note b (the held)) ob)
                  else
                    (case (case lookup (u ''accepted'') body of
                             None \<Rightarrow> Inr (int (length (cb_ids b))) | Some a \<Rightarrow> safe_int cv a) of
                       Inl e \<Rightarrow> (Inl e, ob)
                     | Inr accepted \<Rightarrow>
                         (Inr \<lparr>sr_agent = cb_agent b, sr_key = cb_key b, sr_shipped = length (cb_ids b),
                               sr_duplicate = duplicate, sr_accepted = accepted, sr_stale = stale,
                               sr_anchor = anchor, sr_rejected = False\<rparr>,
                          mark_shipped (cb_ids b) ob))))"

definition settle :: "pyconv \<Rightarrow> claimed \<Rightarrow> answer \<Rightarrow> outbox \<Rightarrow> (ship_error + ship_result) \<times> outbox" where
  "settle cv b ans ob =
     (case ans of
        OtherFailure \<Rightarrow> (Inl ClientFailed, ob)
      | Unprocessable text \<Rightarrow> (Inr (rejected_result b False 0 PNone), mark_rejected (cb_ids b) text ob)
      | NoObject \<Rightarrow> settle_body cv b [] ob
      | Body body \<Rightarrow> settle_body cv b body ob)"

text \<open>\<open>ship_once\<close>; \<open>max_batch\<close> was clamped when the shipper was built.\<close>

definition ship_once ::
  "pyconv \<Rightarrow> bool \<Rightarrow> pystr \<Rightarrow> int \<Rightarrow> (claimed \<Rightarrow> answer) \<Rightarrow> outbox \<Rightarrow> (ship_error + ship_result option) \<times> outbox" where
  "ship_once cv fails key max_batch client ob =
     (case claim fails key (clamp_limit max_batch) ob of
        (Inl _, ob1) \<Rightarrow> (Inl ClaimFailed, ob1)
      | (Inr None, ob1) \<Rightarrow> (Inr None, ob1)
      | (Inr (Some b), ob1) \<Rightarrow>
          (case settle cv b (client b) ob1 of (r, ob2) \<Rightarrow> (rmap Some r, ob2)))"

text \<open>One attempt per element: the key a fresh batch would get, and how the client answers.\<close>

fun drain ::
  "pyconv \<Rightarrow> int \<Rightarrow> (pystr \<times> (claimed \<Rightarrow> answer)) list \<Rightarrow> outbox \<Rightarrow> (ship_error + ship_result list) \<times> outbox" where
  "drain cv max_batch [] ob = (Inr [], ob)"
| "drain cv max_batch ((key, client) # rest) ob =
     (case ship_once cv False key max_batch client ob of
        (Inl e, ob1) \<Rightarrow> (Inl e, ob1)
      | (Inr None, ob1) \<Rightarrow> (Inr [], ob1)
      | (Inr (Some r), ob1) \<Rightarrow> (case drain cv max_batch rest ob1 of (rs, ob2) \<Rightarrow> (rmap ((#) r) rs, ob2)))"

end
