(* ===== verification/Outbox_Props.thy ===== *)
theory Outbox_Props
  imports Outbox "HOL-Library.Sublist"
begin

text \<open>
  Delivery of verdicts: any number of shippers on one outbox, crashes between any two of their steps, an
  endpoint that may answer or not. A batch is the set of rows that carry its key, and stays that.
\<close>

section \<open>A queue that is worked off\<close>

fun attempts ::
  "('k \<Rightarrow> 'q \<Rightarrow> ('b \<times> 'q) option) \<Rightarrow> ('r \<Rightarrow> 'b \<Rightarrow> 'q \<Rightarrow> 'q) \<Rightarrow> ('k \<times> ('b \<Rightarrow> 'q \<Rightarrow> 'r)) list \<Rightarrow> 'q \<Rightarrow> 'q" where
  "attempts take_next finish [] q = q"
| "attempts take_next finish ((k, answer) # rest) q =
     (case take_next k q of
        None \<Rightarrow> q
      | Some (b, q') \<Rightarrow> attempts take_next finish rest (finish (answer b q') b q'))"

locale work_queue =
  fixes take_next :: "'k \<Rightarrow> 'q \<Rightarrow> ('b \<times> 'q) option"
    and finish :: "'r \<Rightarrow> 'b \<Rightarrow> 'q \<Rightarrow> 'q"
    and backlog :: "'q \<Rightarrow> nat"
  assumes nothing_left: "take_next k q = None \<longleftrightarrow> backlog q = 0"
    and finish_less: "take_next k q = Some (b, q') \<Longrightarrow> backlog (finish r b q') < backlog q"
begin

lemma attempts_empty: "backlog q \<le> length jobs \<Longrightarrow> backlog (attempts take_next finish jobs q) = 0"
proof (induction jobs arbitrary: q)
  case (Cons a jobs)
  obtain k answer where a: "a = (k, answer)" by fastforce
  show ?case
  proof (cases "take_next k q")
    case None
    then have "backlog q = 0" using nothing_left by blast
    then show ?thesis using a None by simp
  next
    case (Some bq)
    obtain b q' where bq: "bq = (b, q')" by fastforce
    have "backlog (finish (answer b q') b q') < backlog q" using finish_less Some bq by blast
    then show ?thesis using Cons.IH Cons.prems a Some bq by simp
  qed
qed simp

end

section \<open>Claiming\<close>

lemma next_rows_None: "1 \<le> limit \<Longrightarrow> next_rows limit ob = [] \<longleftrightarrow> filter (\<lambda>r. pending r \<and> v_key r = None) (ob_rows ob) = []"
  by (cases "nat limit"; cases "filter (\<lambda>r. pending r \<and> v_key r = None) (ob_rows ob)")
    (auto simp: next_rows_def split: list.splits)

lemma next_rows_cases:
  assumes "r \<in> set (next_rows limit ob)"
  obtains x xs where "take (nat limit) (filter (\<lambda>r. pending r \<and> v_key r = None) (ob_rows ob)) = x # xs"
    "r \<in> set (x # xs)" "v_agent r = v_agent x" "next_rows limit ob = filter (\<lambda>y. v_agent y = v_agent x) (x # xs)"
  using assms
  by (cases "take (nat limit) (filter (\<lambda>r. pending r \<and> v_key r = None) (ob_rows ob))")
    (auto simp: next_rows_def split: if_splits)

lemma next_rows_mem:
  assumes "r \<in> set (next_rows limit ob)"
  shows "r \<in> set (ob_rows ob) \<and> pending r \<and> v_key r = None"
proof -
  let ?f = "filter (\<lambda>r. pending r \<and> v_key r = None) (ob_rows ob)"
  obtain x xs where "take (nat limit) ?f = x # xs" "r \<in> set (x # xs)" by (rule next_rows_cases [OF assms])
  then have "r \<in> set (take (nat limit) ?f)" by simp
  then have "r \<in> set ?f" by (rule in_set_takeD)
  then show ?thesis by simp
qed

lemma next_rows_agent:
  assumes "r \<in> set (next_rows limit ob)" "r' \<in> set (next_rows limit ob)"
  shows "v_agent r' = v_agent r"
proof -
  obtain x xs where "v_agent r = v_agent x" "next_rows limit ob = filter (\<lambda>y. v_agent y = v_agent x) (x # xs)"
    by (rule next_rows_cases [OF assms(1)])
  then show ?thesis using assms(2) by (auto split: if_splits)
qed

lemma filter_map_same: "(\<And>x. Q (f x) = Q x) \<Longrightarrow> filter Q (map f xs) = map f (filter Q xs)"
  by (induction xs) auto

lemma clamp_pos [simp]: "1 \<le> clamp_limit n"
  by (simp add: clamp_limit_def)

lemma resume_None: "resume_claimed ob = None \<longleftrightarrow> filter (\<lambda>r. pending r \<and> v_key r \<noteq> None) (ob_rows ob) = []"
  by (auto simp: resume_claimed_def split: list.splits)

lemma resume_Some:
  assumes "resume_claimed ob = Some b"
  obtains r k where "r \<in> set (ob_rows ob)" "pending r" "v_key r = Some k"
    "b = batch_of (v_agent r) k (claimed_rows k (v_agent r) ob)"
proof -
  obtain r rs where f: "filter (\<lambda>r. pending r \<and> v_key r \<noteq> None) (ob_rows ob) = r # rs"
    and b: "b = batch_of (v_agent r) (the (v_key r)) (claimed_rows (the (v_key r)) (v_agent r) ob)"
    using assms by (auto simp: resume_claimed_def split: list.splits)
  have "r \<in> set (filter (\<lambda>r. pending r \<and> v_key r \<noteq> None) (ob_rows ob))" using f by simp
  then show thesis using that [of r "the (v_key r)"] b by auto
qed

lemma claim_cases:
  assumes "claim False key limit ob = (x, ob')"
  obtains (resumed) b where "x = Inr (Some b)" "ob' = ob" "resume_claimed ob = Some b"
  | (nothing_pending) "x = Inr None" "ob' = ob" "pending_count ob = 0"
  | (fresh_batch) r rows where "resume_claimed ob = None" "next_rows (clamp_limit limit) ob = r # rows"
      "x = Inr (Some (batch_of (v_agent r) key (r # rows)))" "ob' = assign_key (map v_id (r # rows)) key ob"
proof (cases "resume_claimed ob")
  case None
  show thesis
  proof (cases "next_rows (clamp_limit limit) ob")
    case Nil
    then have "filter (\<lambda>r. pending r \<and> v_key r = None) (ob_rows ob) = []" by (simp add: next_rows_None)
    moreover have "filter (\<lambda>r. pending r \<and> v_key r \<noteq> None) (ob_rows ob) = []" using None by (simp add: resume_None)
    ultimately have "pending_count ob = 0" by (auto simp: pending_count_def filter_empty_conv)
    then show thesis using nothing_pending assms None Nil by (simp add: claim_def)
  next
    case (Cons r rows)
    then show thesis using fresh_batch [OF None Cons] assms None by (simp add: claim_def)
  qed
next
  case (Some b)
  then have "x = Inr (Some b)" "ob' = ob" using assms by (simp_all add: claim_def)
  then show thesis using resumed Some by blast
qed

lemma claimed_pending:
  assumes "claim False key limit ob = (Inr (Some b), ob')"
  shows "\<exists>r\<in>set (ob_rows ob'). pending r \<and> v_id r \<in> set (cb_ids b)" "pending_count ob' = pending_count ob"
proof -
  have "(\<exists>r\<in>set (ob_rows ob'). pending r \<and> v_id r \<in> set (cb_ids b)) \<and> pending_count ob' = pending_count ob"
  proof (cases rule: claim_cases [OF assms])
    case (1 b')
    then have b: "resume_claimed ob = Some b" by simp
    obtain r k where "r \<in> set (ob_rows ob)" "pending r" "v_key r = Some k"
      "b = batch_of (v_agent r) k (claimed_rows k (v_agent r) ob)" by (rule resume_Some [OF b])
    then show ?thesis using 1 by (auto simp: batch_of_def claimed_rows_def)
  next
    case 2
    then show ?thesis by simp
  next
    case (3 r rows)
    have "r \<in> set (ob_rows ob) \<and> pending r" using next_rows_mem [of r "clamp_limit limit" ob] 3(2) by simp
    moreover have "pending_count ob' = pending_count ob"
      using 3(4) by (simp add: pending_count_def assign_key_def filter_map_same [where Q = pending] pending_def)
    moreover have "r\<lparr>v_key := Some key\<rparr> \<in> set (ob_rows ob')"
      using calculation(1) 3(4) by (auto simp: assign_key_def image_iff intro!: bexI [of _ r])
    ultimately show ?thesis using 3(3)
      by (auto simp: batch_of_def pending_def intro!: bexI [of _ "r\<lparr>v_key := Some key\<rparr>"])
  qed
  then show "\<exists>r\<in>set (ob_rows ob'). pending r \<and> v_id r \<in> set (cb_ids b)" "pending_count ob' = pending_count ob" by simp_all
qed

section \<open>Settling\<close>

lemma set_state_simps [simp]:
  "ob_rows (set_state ids s n ob) = map (\<lambda>r. if v_id r \<in> set ids then r\<lparr>v_state := s, v_note := n\<rparr> else r) (ob_rows ob)"
  "ob_last (set_state ids s n ob) = ob_last ob"
  by (simp_all add: set_state_def)

lemma set_state_pending:
  assumes "r \<in> set (ob_rows ob)" "pending r" "v_id r \<in> set ids" "s \<noteq> Pending_Row"
  shows "pending_count (set_state ids s n ob) < pending_count ob"
proof -
  let ?f = "\<lambda>r. if v_id r \<in> set ids then r\<lparr>v_state := s, v_note := n\<rparr> else r"
  have le: "length (filter pending (map ?f xs)) \<le> length (filter pending xs)" for xs
    using assms(4) by (induction xs) (auto simp: pending_def)
  have less: "x \<in> set xs \<Longrightarrow> pending x \<Longrightarrow> v_id x \<in> set ids
      \<Longrightarrow> length (filter pending (map ?f xs)) < length (filter pending xs)" for x xs
  proof (induction xs)
    case (Cons y ys)
    show ?case
    proof (cases "x = y")
      case True
      then have "filter pending (map ?f (y # ys)) = filter pending (map ?f ys)" "filter pending (y # ys) = y # filter pending ys"
        using Cons.prems assms(4) by (simp_all add: pending_def)
      then show ?thesis using le [of ys] by (simp only: list.size)
    next
      case False
      then have "length (filter pending (map ?f ys)) < length (filter pending ys)" using Cons by simp
      moreover have "pending (?f y) \<Longrightarrow> pending y" using assms(4) by (auto simp: pending_def split: if_splits)
      ultimately show ?thesis by (simp only: list.map filter.simps split: if_splits) auto
    qed
  qed simp
  show ?thesis using less [OF assms(1-3)] by (simp add: pending_count_def)
qed

text \<open>Every way an answer can settle a batch is one \<open>set_state\<close> of its rows.\<close>

definition settled :: "claimed \<Rightarrow> outbox \<Rightarrow> ship_error + ship_result \<Rightarrow> outbox \<Rightarrow> bool" where
  "settled b ob r ob' \<longleftrightarrow>
     (case r of
        Inl e \<Rightarrow> ob' = ob
      | Inr res \<Rightarrow> if sr_rejected res then \<exists>n. ob' = set_state (cb_ids b) Rejected_Row n ob
                  else ob' = set_state (cb_ids b) Shipped_Row None ob)"

lemma settle_body_settled: "settled b ob (fst (settle_body cv b body ob)) (snd (settle_body cv b body ob))"
  unfolding settle_body_def Let_def
  by (auto simp: settled_def mark_rejected_def mark_shipped_def rejected_result_def simp del: set_state_simps
      split: sum.split option.split)

lemma settle_settled:
  assumes "settle cv b ans ob = (r, ob')"
  shows "settled b ob r ob'"
proof -
  have body: "settled b ob r ob'" if "settle_body cv b body ob = (r, ob')" for body
    using settle_body_settled [of b ob cv body] that by simp
  show ?thesis
    using assms body by (cases ans) (auto simp: settle_def settled_def mark_rejected_def rejected_result_def)
qed

lemma delivered_answer:
  assumes "settle cv b ans ob = (Inr res, ob')" "\<not> sr_rejected res"
  shows "ans = NoObject \<or> (\<exists>body. ans = Body body)"
  using assms by (cases ans) (auto simp: settle_def rejected_result_def)

text \<open>The queue of the shipper: a key per attempt, and how the batch is settled.\<close>

definition take_batch :: "int \<Rightarrow> pystr \<Rightarrow> outbox \<Rightarrow> (claimed \<times> outbox) option" where
  "take_batch max_batch key ob =
     (case claim False key (clamp_limit max_batch) ob of
        (Inr (Some b), ob') \<Rightarrow> Some (b, ob') | _ \<Rightarrow> None)"

definition finish_batch :: "pystr option option \<Rightarrow> claimed \<Rightarrow> outbox \<Rightarrow> outbox" where
  "finish_batch parked b ob =
     (case parked of None \<Rightarrow> set_state (cb_ids b) Shipped_Row None ob | Some n \<Rightarrow> set_state (cb_ids b) Rejected_Row n ob)"

interpretation verdict_queue: work_queue "take_batch max_batch" finish_batch pending_count for max_batch
proof unfold_locales
  fix k ob
  show "take_batch max_batch k ob = None \<longleftrightarrow> pending_count ob = 0"
  proof -
    obtain x ob' where c: "claim False k (clamp_limit max_batch) ob = (x, ob')" by fastforce
    show ?thesis
    proof (cases rule: claim_cases [OF c])
      case (1 b)
      then have "pending_count ob \<noteq> 0" using claimed_pending [of k "clamp_limit max_batch" ob b ob'] c
        by (auto simp: pending_count_def filter_empty_conv)
      then show ?thesis using 1 c by (simp add: take_batch_def)
    next
      case 2
      then show ?thesis using c by (simp add: take_batch_def)
    next
      case (3 r rows)
      then have "r \<in> set (ob_rows ob) \<and> pending r" using next_rows_mem [of r "clamp_limit (clamp_limit max_batch)" ob] by simp
      then have "pending_count ob \<noteq> 0" by (auto simp: pending_count_def filter_empty_conv)
      then show ?thesis using 3 c by (simp add: take_batch_def)
    qed
  qed
next
  fix k ob b ob' r
  assume "take_batch max_batch k ob = Some (b, ob')"
  then have c: "claim False k (clamp_limit max_batch) ob = (Inr (Some b), ob')"
    by (auto simp: take_batch_def split: prod.splits sum.splits option.splits)
  obtain x where "x \<in> set (ob_rows ob')" "pending x" "v_id x \<in> set (cb_ids b)" using claimed_pending(1) [OF c] by blast
  then show "pending_count (finish_batch r b ob') < pending_count ob"
    using claimed_pending(2) [OF c] set_state_pending [of x ob' "cb_ids b"]
    by (cases r) (simp_all add: finish_batch_def)
qed

section \<open>Draining\<close>

text \<open>A client that always answers: it never fails, and the counts it sends are finite.\<close>

definition conclusive :: "pyconv \<Rightarrow> (claimed \<Rightarrow> answer) \<Rightarrow> bool" where
  "conclusive cv client \<longleftrightarrow> (\<forall>b ob. \<exists>res. fst (settle cv b (client b) ob) = Inr res)"

definition how_settled :: "pyconv \<Rightarrow> (claimed \<Rightarrow> answer) \<Rightarrow> claimed \<Rightarrow> outbox \<Rightarrow> pystr option option" where
  "how_settled cv client b ob = (SOME h. snd (settle cv b (client b) ob) = finish_batch h b ob)"

lemma conclusive_settle:
  assumes "conclusive cv client"
  obtains res where "settle cv b (client b) ob = (Inr res, finish_batch (how_settled cv client b ob) b ob)"
proof -
  obtain res where res: "fst (settle cv b (client b) ob) = Inr res" using assms by (auto simp: conclusive_def)
  then have s: "settle cv b (client b) ob = (Inr res, snd (settle cv b (client b) ob))" by (metis prod.collapse)
  have "\<exists>h. snd (settle cv b (client b) ob) = finish_batch h b ob"
  proof (cases "sr_rejected res")
    case True
    then obtain n where "snd (settle cv b (client b) ob) = set_state (cb_ids b) Rejected_Row n ob"
      using settle_settled [OF s] by (auto simp: settled_def)
    then show ?thesis by (intro exI [of _ "Some n"]) (simp add: finish_batch_def)
  next
    case False
    then show ?thesis using settle_settled [OF s] by (intro exI [of _ None]) (simp add: finish_batch_def settled_def)
  qed
  then have "snd (settle cv b (client b) ob) = finish_batch (how_settled cv client b ob) b ob"
    unfolding how_settled_def by (rule someI_ex)
  then show thesis using that s by simp
qed

lemma ship_once_take:
  assumes "conclusive cv client"
  shows "case take_batch max_batch key ob of
      None \<Rightarrow> ship_once cv False key max_batch client ob = (Inr None, ob)
    | Some (b, ob1) \<Rightarrow> \<exists>res. ship_once cv False key max_batch client ob
        = (Inr (Some res), finish_batch (how_settled cv client b ob1) b ob1)"
proof -
  obtain x ob1 where c: "claim False key (clamp_limit max_batch) ob = (x, ob1)" by fastforce
  show ?thesis
  proof (cases rule: claim_cases [OF c])
    case (1 b)
    obtain res where "settle cv b (client b) ob1 = (Inr res, finish_batch (how_settled cv client b ob1) b ob1)"
      by (rule conclusive_settle [OF assms])
    then show ?thesis using 1 c by (simp add: take_batch_def ship_once_def)
  next
    case 2
    then show ?thesis using c by (simp add: take_batch_def ship_once_def)
  next
    case (3 r rows)
    let ?b = "batch_of (v_agent r) key (r # rows)"
    obtain res where "settle cv ?b (client ?b) ob1 = (Inr res, finish_batch (how_settled cv client ?b ob1) ?b ob1)"
      by (rule conclusive_settle [OF assms])
    then show ?thesis using 3(3) c by (simp add: take_batch_def ship_once_def)
  qed
qed

lemma drain_attempts:
  assumes "\<forall>a\<in>set inputs. conclusive cv (snd a)"
  shows "\<exists>rs. drain cv max_batch inputs ob =
    (Inr rs, attempts (take_batch max_batch) finish_batch (map (apsnd (how_settled cv)) inputs) ob)"
  using assms
proof (induction inputs arbitrary: ob)
  case (Cons a inputs)
  obtain key client where a: "a = (key, client)" by fastforce
  have once: "conclusive cv client" using Cons.prems a by simp
  show ?case
  proof (cases "take_batch max_batch key ob")
    case None
    then show ?thesis using ship_once_take [OF once, where max_batch = max_batch and key = key and ob = ob] a by simp
  next
    case (Some t)
    obtain b ob1 where t: "t = (b, ob1)" by fastforce
    obtain res where s: "ship_once cv False key max_batch client ob
        = (Inr (Some res), finish_batch (how_settled cv client b ob1) b ob1)"
      using ship_once_take [OF once, where max_batch = max_batch and key = key and ob = ob] Some t by auto
    obtain rs where "drain cv max_batch inputs (finish_batch (how_settled cv client b ob1) b ob1) =
        (Inr rs, attempts (take_batch max_batch) finish_batch (map (apsnd (how_settled cv)) inputs)
           (finish_batch (how_settled cv client b ob1) b ob1))"
      using Cons.IH Cons.prems by fastforce
    then show ?thesis using s Some t a by simp
  qed
qed simp

text \<open>
  C20: Draining ends with an empty queue: when the endpoint answers every attempt, be it by accepting,
  replaying or refusing, a drain that may make as many attempts as verdicts are pending
  returns without an exception and leaves nothing pending.
\<close>

theorem drain_empties_queue:
  assumes "\<forall>a\<in>set inputs. conclusive cv (snd a)" "pending_count ob \<le> length inputs"
  shows "\<exists>rs ob'. drain cv max_batch inputs ob = (Inr rs, ob') \<and> pending_count ob' = 0"
  using drain_attempts [OF assms(1), where max_batch = max_batch and ob = ob] verdict_queue.attempts_empty [where q = ob and jobs = "map (apsnd (how_settled cv)) inputs" and max_batch = max_batch] assms(2)
  by auto

section \<open>Delivery\<close>

definition members :: "pystr \<Rightarrow> outbox \<Rightarrow> vrow list" where
  "members k ob = filter (\<lambda>r. v_key r = Some k) (ob_rows ob)"

text \<open>
  \<open>dl_held\<close> is what the endpoint has sealed, one batch per key, \<open>dl_flight\<close> the batches some shipper holds
  between its claim and its answer. The endpoint keeps the promise of \<open>record_verdict_batch\<close>: it seals a
  batch only under a key it does not hold, and answers without an error only for a key it holds.
\<close>

record delivery =
  dl_box :: outbox
  dl_held :: "pystr \<rightharpoonup> claimed"
  dl_flight :: "claimed set"

inductive delivery_step :: "delivery \<Rightarrow> delivery \<Rightarrow> bool" where
  queue: "delivery_step w (w\<lparr>dl_box := snd (add agent body (dl_box w))\<rparr>)"
| claims: "delivery_step w (w\<lparr>dl_box := box', dl_flight := insert b (dl_flight w)\<rparr>)"
    if "claim fails key limit (dl_box w) = (Inr (Some b), box')" "members key (dl_box w) = []"
| seals: "delivery_step w (w\<lparr>dl_held := (dl_held w)(cb_key b \<mapsto> b)\<rparr>)"
    if "b \<in> dl_flight w" "dl_held w (cb_key b) = None"
| answers: "delivery_step w (w\<lparr>dl_box := box'\<rparr>)"
    if "b \<in> dl_flight w" "settle cv b ans (dl_box w) = (r, box')"
      "(ans = NoObject \<or> (\<exists>body. ans = Body body)) \<longrightarrow> dl_held w (cb_key b) \<noteq> None"
| gives_up: "delivery_step w (w\<lparr>dl_flight := dl_flight w - {b}\<rparr>)"

definition nothing_delivered :: delivery where
  "nothing_delivered = \<lparr>dl_box = empty_outbox, dl_held = (\<lambda>_. None), dl_flight = {}\<rparr>"

text \<open>The invariant: keyed rows of one key agree, and a batch is all the rows of its key.\<close>

definition box_ok :: "outbox \<Rightarrow> bool" where
  "box_ok ob \<longleftrightarrow> distinct (map v_id (ob_rows ob)) \<and> (\<forall>r\<in>set (ob_rows ob). v_id r \<le> ob_last ob)
     \<and> (\<forall>r\<in>set (ob_rows ob). \<forall>r'\<in>set (ob_rows ob). v_key r \<noteq> None \<longrightarrow> v_key r' = v_key r
          \<longrightarrow> v_agent r' = v_agent r \<and> pending r' = pending r)"

lemma box_ok_ids: "box_ok ob \<Longrightarrow> distinct (map v_id (ob_rows ob)) \<and> (\<forall>r\<in>set (ob_rows ob). v_id r \<le> ob_last ob)"
  by (simp add: box_ok_def)

lemma box_ok_agree:
  assumes "box_ok ob" "r \<in> set (ob_rows ob)" "r' \<in> set (ob_rows ob)" "v_key r = Some k" "v_key r' = Some k"
  shows "v_agent r' = v_agent r" "pending r' = pending r"
proof -
  have "\<forall>r\<in>set (ob_rows ob). \<forall>r'\<in>set (ob_rows ob). v_key r \<noteq> None \<longrightarrow> v_key r' = v_key r
      \<longrightarrow> v_agent r' = v_agent r \<and> pending r' = pending r"
    using assms(1) unfolding box_ok_def by (elim conjE)
  from bspec [OF bspec [OF this assms(2)] assms(3)] show "v_agent r' = v_agent r" "pending r' = pending r" using assms(4,5) by simp_all
qed

lemma box_okI:
  assumes "distinct (map v_id (ob_rows ob))" "\<And>r. r \<in> set (ob_rows ob) \<Longrightarrow> v_id r \<le> ob_last ob"
    and "\<And>r r' k. r \<in> set (ob_rows ob) \<Longrightarrow> r' \<in> set (ob_rows ob) \<Longrightarrow> v_key r = Some k \<Longrightarrow> v_key r' = Some k
          \<Longrightarrow> v_agent r' = v_agent r \<and> pending r' = pending r"
  shows "box_ok ob"
  unfolding box_ok_def
proof (intro conjI ballI impI)
  fix r r'
  assume r: "r \<in> set (ob_rows ob)" "r' \<in> set (ob_rows ob)" "v_key r \<noteq> None" "v_key r' = v_key r"
  then obtain k where "v_key r = Some k" by blast
  with assms(3) [OF r(1,2)] r(4) show "v_agent r' = v_agent r" "pending r' = pending r" by simp_all
qed (use assms in simp_all)

definition whole :: "outbox \<Rightarrow> claimed \<Rightarrow> bool" where
  "whole ob b \<longleftrightarrow> members (cb_key b) ob \<noteq> [] \<and> (\<forall>r\<in>set (members (cb_key b) ob). v_agent r = cb_agent b)
     \<and> cb_ids b = map v_id (members (cb_key b) ob) \<and> cb_verdicts b = map v_body (members (cb_key b) ob)"

definition delivery_ok :: "delivery \<Rightarrow> bool" where
  "delivery_ok w \<longleftrightarrow> box_ok (dl_box w) \<and> (\<forall>b\<in>dl_flight w. whole (dl_box w) b)
     \<and> (\<forall>k b. dl_held w k = Some b \<longrightarrow> cb_key b = k \<and> whole (dl_box w) b)
     \<and> (\<forall>r\<in>set (ob_rows (dl_box w)). v_state r = Shipped_Row \<longrightarrow> (\<exists>k. v_key r = Some k \<and> dl_held w k \<noteq> None))"

text \<open>A change of the rows that leaves ids, agents, bodies and the rows of a key alone keeps its batch whole.\<close>

lemma members_map:
  assumes "ob_rows ob' = map f (ob_rows ob)" "\<And>r. v_key (f r) = v_key r"
  shows "members k ob' = map f (members k ob)"
  using assms by (simp add: members_def filter_map_same)

lemma whole_map:
  assumes "ob_rows ob' = map f (ob_rows ob)"
    "\<And>r. v_key (f r) = v_key r \<and> v_id (f r) = v_id r \<and> v_agent (f r) = v_agent r \<and> v_body (f r) = v_body r"
  shows "whole ob' b \<longleftrightarrow> whole ob b"
  using members_map [OF assms(1), of "cb_key b"] assms(2) by (simp add: whole_def comp_def)

lemma set_subseq: "subseq ys xs \<Longrightarrow> set ys \<subseteq> set xs"
  by (induction rule: list_emb.induct) auto

lemma filter_subseq:
  "subseq ys xs \<Longrightarrow> distinct (map g xs) \<Longrightarrow> filter (\<lambda>x. g x \<in> g ` set ys) xs = ys"
proof (induction rule: list_emb.induct)
  case (list_emb_Cons ys xs x)
  have "set ys \<subseteq> set xs" using list_emb_Cons.hyps by (rule set_subseq)
  then have "g x \<notin> g ` set ys" using list_emb_Cons.prems by auto
  then show ?case using list_emb_Cons by simp
next
  case (list_emb_Cons2 x y ys xs)
  have "filter (\<lambda>z. g z \<in> insert (g y) (g ` set ys)) xs = filter (\<lambda>z. g z \<in> g ` set ys) xs"
    using list_emb_Cons2.prems by (intro filter_cong refl) (metis distinct.simps(2) image_eqI insert_iff list.set_map list.simps(9))
  then show ?case using list_emb_Cons2 by simp
qed simp

lemma next_rows_subseq: "subseq (next_rows limit ob) (ob_rows ob)"
proof -
  let ?f = "filter (\<lambda>r. pending r \<and> v_key r = None) (ob_rows ob)"
  have "subseq (take (nat limit) ?f) (ob_rows ob)"
    by (rule subseq_order.trans [OF prefix_imp_subseq [OF take_is_prefix] subseq_filter_left])
  then show ?thesis
    by (cases "take (nat limit) ?f")
      (auto simp: next_rows_def simp del: filter.simps intro: subseq_order.trans [OF subseq_filter_left])
qed

lemma same_id: "distinct (map v_id rows) \<Longrightarrow> x \<in> set rows \<Longrightarrow> y \<in> set rows \<Longrightarrow> v_id x = v_id y \<Longrightarrow> x = y"
  by (auto simp: distinct_map dest: inj_onD)

text \<open>Claiming a fresh batch under an unused key.\<close>

lemma assign_members:
  assumes "box_ok ob" "next_rows limit ob = r # rows" "members key ob = []"
    and "ob' = assign_key (map v_id (r # rows)) key ob"
  shows "members key ob' = map (\<lambda>x. x\<lparr>v_key := Some key\<rparr>) (r # rows)"
    and "k \<noteq> key \<Longrightarrow> members k ob' = members k ob"
proof -
  let ?ids = "set (map v_id (r # rows))"
  let ?f = "\<lambda>x. if v_id x \<in> ?ids then x\<lparr>v_key := Some key\<rparr> else x"
  have rows': "ob_rows ob' = map ?f (ob_rows ob)" using assms(4) by (simp add: assign_key_def)
  have d: "distinct (map v_id (ob_rows ob))" using assms(1) by (simp add: box_ok_def)
  have sub: "subseq (r # rows) (ob_rows ob)" using next_rows_subseq [of limit ob] assms(2) by simp
  have chosen: "filter (\<lambda>x. v_id x \<in> ?ids) (ob_rows ob) = r # rows" using filter_subseq [OF sub d] by simp
  have nokey: "v_key x = None" if "x \<in> set (ob_rows ob)" "v_id x \<in> ?ids" for x
  proof -
    have "x \<in> set (filter (\<lambda>x. v_id x \<in> ?ids) (ob_rows ob))" using that by simp
    then show ?thesis using next_rows_mem [of x limit ob] assms(2) unfolding chosen by simp
  qed
  have unused: "v_key x \<noteq> Some key" if "x \<in> set (ob_rows ob)" for x
    using assms(3) that by (auto simp: members_def filter_empty_conv)
  have "filter (\<lambda>x. v_key x = Some key) (map ?f (ob_rows ob)) = map (\<lambda>x. x\<lparr>v_key := Some key\<rparr>) (filter (\<lambda>x. v_id x \<in> ?ids) (ob_rows ob))"
    using unused by (induction "ob_rows ob") (auto simp: filter_map comp_def intro!: map_cong filter_cong)
  then show "members key ob' = map (\<lambda>x. x\<lparr>v_key := Some key\<rparr>) (r # rows)"
    unfolding members_def rows' chosen .
  have "filter (\<lambda>x. v_key x = Some k) (map ?f xs) = filter (\<lambda>x. v_key x = Some k) xs"
    if "set xs \<subseteq> set (ob_rows ob)" "k \<noteq> key" for xs
    using that nokey by (induction xs) auto
  then show "members k ob' = members k ob" if "k \<noteq> key" using that by (simp add: members_def rows')
qed

lemma assign_rows:
  assumes "box_ok ob" "next_rows limit ob = r # rows"
    and "ob' = assign_key (map v_id (r # rows)) key ob" "y \<in> set (ob_rows ob')"
  shows "(y \<in> set (ob_rows ob) \<and> v_id y \<notin> set (map v_id (r # rows)))
    \<or> (\<exists>x\<in>set (r # rows). y = x\<lparr>v_key := Some key\<rparr>)"
proof -
  let ?ids = "set (map v_id (r # rows))"
  obtain x where x: "x \<in> set (ob_rows ob)" "y = (if v_id x \<in> ?ids then x\<lparr>v_key := Some key\<rparr> else x)"
    using assms(3,4) by (auto simp: assign_key_def)
  have d: "distinct (map v_id (ob_rows ob))" using assms(1) by (simp add: box_ok_def)
  have "x \<in> set (r # rows)" if i: "v_id x \<in> ?ids"
  proof -
    obtain z where z: "v_id x = v_id z" "z \<in> set (r # rows)" using i unfolding set_map by (rule imageE)
    have "z \<in> set (ob_rows ob)" using next_rows_mem [of z limit ob] z(2) assms(2) by simp
    from same_id [OF d this x(1)] show ?thesis using z by simp
  qed
  then show ?thesis using x by auto
qed

lemma unused_key: "members k ob = [] \<Longrightarrow> x \<in> set (ob_rows ob) \<Longrightarrow> v_key x \<noteq> Some k"
  by (auto simp: members_def filter_empty_conv)

lemma assign_box_ok:
  assumes "box_ok ob" "next_rows limit ob = r # rows" "members key ob = []"
    and "ob' = assign_key (map v_id (r # rows)) key ob"
  shows "box_ok ob'"
proof (rule box_okI)
  note rows = assign_rows [OF assms(1,2,4)]
  have map_ids: "map v_id (ob_rows ob') = map v_id (ob_rows ob)" "ob_last ob' = ob_last ob"
    using assms(4) by (simp_all add: assign_key_def)
  then show "distinct (map v_id (ob_rows ob'))" using box_ok_ids [OF assms(1)] by simp
  have "v_id ` set (ob_rows ob') = v_id ` set (ob_rows ob)" using arg_cong [OF map_ids(1), of set] by simp
  then show "v_id y \<le> ob_last ob'" if "y \<in> set (ob_rows ob')" for y
  proof -
    have "v_id y \<in> v_id ` set (ob_rows ob)" using that \<open>v_id ` set (ob_rows ob') = v_id ` set (ob_rows ob)\<close> by blast
    then show ?thesis using box_ok_ids [OF assms(1)] map_ids(2) by auto
  qed
  have chosen: "pending x \<and> v_agent x = v_agent r" if "x \<in> set (r # rows)" for x
    using next_rows_mem [of x limit ob] next_rows_agent [of r limit ob x] that assms(2) by simp
  fix y y' k
  assume y: "y \<in> set (ob_rows ob')" "y' \<in> set (ob_rows ob')" "v_key y = Some k" "v_key y' = Some k"
  show "v_agent y' = v_agent y \<and> pending y' = pending y"
  proof (cases "k = key")
    case True
    have "\<exists>x\<in>set (r # rows). z = x\<lparr>v_key := Some key\<rparr>" if "z \<in> set (ob_rows ob')" "v_key z = Some k" for z
      using rows [OF that(1)] that(2) unused_key [OF assms(3)] True by blast
    then obtain x x' where "x \<in> set (r # rows)" "y = x\<lparr>v_key := Some key\<rparr>" "x' \<in> set (r # rows)" "y' = x'\<lparr>v_key := Some key\<rparr>"
      using y by blast
    then show ?thesis using chosen [of x] chosen [of x'] by (simp add: pending_def)
  next
    case False
    have "z \<in> set (ob_rows ob)" if "z \<in> set (ob_rows ob')" "v_key z = Some k" for z
      using rows [OF that(1)] that(2) False by auto
    then show ?thesis using box_ok_agree [OF assms(1), of y y' k] y by blast
  qed
qed

lemma resumed_whole:
  assumes "box_ok ob" "resume_claimed ob = Some b"
  shows "whole ob b"
proof -
  obtain r k where r: "r \<in> set (ob_rows ob)" "pending r" "v_key r = Some k"
    "b = batch_of (v_agent r) k (claimed_rows k (v_agent r) ob)" by (rule resume_Some [OF assms(2)])
  have same: "v_agent x = v_agent r \<and> pending x" if "x \<in> set (ob_rows ob)" "v_key x = Some k" for x
    using box_ok_agree [OF assms(1) r(1) that(1) r(3) that(2)] r(2) by simp
  have "claimed_rows k (v_agent r) ob = members k ob"
    unfolding claimed_rows_def members_def by (rule filter_cong) (use same in auto)
  moreover have "members k ob \<noteq> []" using r(1,3) by (auto simp: members_def filter_empty_conv)
  moreover have "\<forall>x\<in>set (members k ob). v_agent x = v_agent r" using same by (auto simp: members_def)
  ultimately show ?thesis using r(4) by (simp add: whole_def batch_of_def)
qed

text \<open>The parts of \<open>delivery_ok\<close>, to be put together again step by step.\<close>

lemma delivery_okD:
  assumes "delivery_ok w"
  shows "box_ok (dl_box w)" "b \<in> dl_flight w \<Longrightarrow> whole (dl_box w) b"
    "dl_held w k = Some b \<Longrightarrow> cb_key b = k \<and> whole (dl_box w) b"
    "r \<in> set (ob_rows (dl_box w)) \<Longrightarrow> v_state r = Shipped_Row \<Longrightarrow> \<exists>k. v_key r = Some k \<and> dl_held w k \<noteq> None"
  using assms unfolding delivery_ok_def by blast+

lemma delivery_okI:
  assumes "box_ok (dl_box w)" "\<And>b. b \<in> dl_flight w \<Longrightarrow> whole (dl_box w) b"
    "\<And>k b. dl_held w k = Some b \<Longrightarrow> cb_key b = k \<and> whole (dl_box w) b"
    "\<And>r. r \<in> set (ob_rows (dl_box w)) \<Longrightarrow> v_state r = Shipped_Row \<Longrightarrow> \<exists>k. v_key r = Some k \<and> dl_held w k \<noteq> None"
  shows "delivery_ok w"
  using assms unfolding delivery_ok_def by blast

lemma whole_members: "whole ob b \<Longrightarrow> members (cb_key b) ob' = members (cb_key b) ob \<Longrightarrow> whole ob' b"
  by (simp add: whole_def)

lemma claim_ok:
  assumes "delivery_ok w" "claim fails key limit (dl_box w) = (Inr (Some b), box')" "members key (dl_box w) = []"
  shows "delivery_ok (w\<lparr>dl_box := box', dl_flight := insert b (dl_flight w)\<rparr>)"
proof -
  note ok = delivery_okD [OF assms(1)]
  have c: "claim False key limit (dl_box w) = (Inr (Some b), box')"
    using assms(2) by (auto simp: claim_def split: option.splits if_splits)
  show ?thesis
  proof (cases rule: claim_cases [OF c])
    case (1 b')
    then have "box' = dl_box w" "whole (dl_box w) b" using resumed_whole [OF ok(1), of b] by auto
    then show ?thesis by (intro delivery_okI) (use ok in auto)
  next
    case 2
    then show ?thesis by simp
  next
    case (3 r rows)
    note mem = assign_members [OF ok(1) 3(2) assms(3) 3(4)]
    have keep: "whole box' x" if "whole (dl_box w) x" for x
    proof (rule whole_members [OF that mem(2)])
      show "cb_key x \<noteq> key" using that assms(3) by (auto simp: whole_def)
    qed
    have agent: "v_agent x = v_agent r" if "x \<in> set rows" for x
      using next_rows_agent [of r "clamp_limit limit" "dl_box w" x] that 3(2) by simp
    have b: "b = batch_of (v_agent r) key (r # rows)" using 3(3) by simp
    have "whole box' b"
      unfolding whole_def b batch_of_def using mem(1) agent by (simp add: comp_def)
    moreover have "\<exists>k. v_key y = Some k \<and> dl_held w k \<noteq> None"
      if "y \<in> set (ob_rows box')" "v_state y = Shipped_Row" for y
    proof -
      have "\<not> (\<exists>x\<in>set (r # rows). y = x\<lparr>v_key := Some key\<rparr>)"
        using next_rows_mem [of _ "clamp_limit limit" "dl_box w"] that(2) 3(2) by (auto simp: pending_def)
      then have "y \<in> set (ob_rows (dl_box w))" using assign_rows [OF ok(1) 3(2,4) that(1)] by blast
      then show ?thesis using ok(4) that(2) by blast
    qed
    ultimately show ?thesis using assign_box_ok [OF ok(1) 3(2) assms(3) 3(4)] keep ok
      by (intro delivery_okI) auto
  qed
qed

lemma add_ok:
  assumes "delivery_ok w"
  shows "delivery_ok (w\<lparr>dl_box := snd (add agent body (dl_box w))\<rparr>)"
proof -
  note ok = delivery_okD [OF assms]
  let ?box = "snd (add agent body (dl_box w))"
  obtain new where new: "ob_rows ?box = ob_rows (dl_box w) @ [new]" "v_key new = None" "v_state new = Pending_Row"
    "v_id new = ob_last (dl_box w) + 1" "ob_last ?box = ob_last (dl_box w) + 1"
    by (simp add: add_def Let_def)
  have fresh: "v_id new \<notin> v_id ` set (ob_rows (dl_box w))" using box_ok_ids [OF ok(1)] new(4) by force
  have "box_ok ?box"
  proof (rule box_okI)
    show "distinct (map v_id (ob_rows ?box))" using box_ok_ids [OF ok(1)] fresh new(1) by simp
    show "v_id r \<le> ob_last ?box" if "r \<in> set (ob_rows ?box)" for r
      using that box_ok_ids [OF ok(1)] new by force
    show "v_agent r' = v_agent r \<and> pending r' = pending r"
      if "r \<in> set (ob_rows ?box)" "r' \<in> set (ob_rows ?box)" "v_key r = Some k" "v_key r' = Some k" for r r' k
    proof -
      have "r \<in> set (ob_rows (dl_box w))" "r' \<in> set (ob_rows (dl_box w))" using that new(1,2) by auto
      from box_ok_agree [OF ok(1) this that(3,4)] show ?thesis by simp
    qed
  qed
  moreover have "members k ?box = members k (dl_box w)" for k using new(1,2) by (simp add: members_def)
  then have "whole ?box b" if "whole (dl_box w) b" for b using whole_members [OF that] by blast
  moreover have "\<exists>k. v_key r = Some k \<and> dl_held w k \<noteq> None" if "r \<in> set (ob_rows ?box)" "v_state r = Shipped_Row" for r
    using that ok(4) new(1,3) by auto
  ultimately show ?thesis using ok by (intro delivery_okI) auto
qed

lemma whole_ids:
  assumes "box_ok ob" "whole ob b" "x \<in> set (ob_rows ob)"
  shows "v_id x \<in> set (cb_ids b) \<longleftrightarrow> v_key x = Some (cb_key b)"
proof
  assume i: "v_id x \<in> set (cb_ids b)"
  have "set (cb_ids b) = v_id ` set (members (cb_key b) ob)" using assms(2) by (simp add: whole_def)
  then have "v_id x \<in> v_id ` set (members (cb_key b) ob)" using i by simp
  then obtain z where z: "v_id x = v_id z" "z \<in> set (members (cb_key b) ob)" by (rule imageE)
  then have "z \<in> set (ob_rows ob)" "v_key z = Some (cb_key b)" by (simp_all add: members_def)
  moreover have "z = x" using same_id [OF _ calculation(1) assms(3)] z(1) box_ok_ids [OF assms(1)] by simp
  ultimately show "v_key x = Some (cb_key b)" by simp
next
  assume "v_key x = Some (cb_key b)"
  then have "x \<in> set (members (cb_key b) ob)" using assms(3) by (simp add: members_def)
  moreover have "set (cb_ids b) = v_id ` set (members (cb_key b) ob)" using assms(2) by (simp add: whole_def)
  ultimately show "v_id x \<in> set (cb_ids b)" by blast
qed

lemma set_state_ok:
  assumes "delivery_ok w" "whole (dl_box w) b" "s \<noteq> Pending_Row" "s = Shipped_Row \<Longrightarrow> dl_held w (cb_key b) \<noteq> None"
  shows "delivery_ok (w\<lparr>dl_box := set_state (cb_ids b) s n (dl_box w)\<rparr>)"
proof -
  note ok = delivery_okD [OF assms(1)]
  let ?box = "set_state (cb_ids b) s n (dl_box w)"
  define f :: "vrow \<Rightarrow> vrow" where "f = (\<lambda>r. if v_id r \<in> set (cb_ids b) then r\<lparr>v_state := s, v_note := n\<rparr> else r)"
  have rows: "ob_rows ?box = map f (ob_rows (dl_box w))" by (simp add: f_def)
  note ids = whole_ids [OF ok(1) assms(2)]
  have same: "v_key (f r) = v_key r \<and> v_id (f r) = v_id r \<and> v_agent (f r) = v_agent r \<and> v_body (f r) = v_body r" for r
    by (simp add: f_def)
  have whole: "whole ?box x = whole (dl_box w) x" for x by (rule whole_map [OF rows same])
  have old: "\<exists>x\<in>set (ob_rows (dl_box w)). y = f x" if "y \<in> set (ob_rows ?box)" for y using that unfolding rows by auto
  have pend: "pending (f x) \<longleftrightarrow> pending x \<and> v_key x \<noteq> Some (cb_key b)" if "x \<in> set (ob_rows (dl_box w))" for x
    using ids [OF that] assms(3) by (auto simp: pending_def f_def)
  have "box_ok ?box"
  proof (rule box_okI)
    have "map v_id (ob_rows ?box) = map v_id (ob_rows (dl_box w))" unfolding rows using same by simp
    then show "distinct (map v_id (ob_rows ?box))" using box_ok_ids [OF ok(1)] by (simp only:)
    show "v_id r \<le> ob_last ?box" if r: "r \<in> set (ob_rows ?box)" for r
    proof -
      obtain x where "x \<in> set (ob_rows (dl_box w))" "r = f x" using old [OF r] by blast
      then show ?thesis using box_ok_ids [OF ok(1)] same by simp
    qed
    show "v_agent r' = v_agent r \<and> pending r' = pending r"
      if r: "r \<in> set (ob_rows ?box)" "r' \<in> set (ob_rows ?box)" "v_key r = Some k" "v_key r' = Some k" for r r' k
    proof -
      obtain x x' where x: "x \<in> set (ob_rows (dl_box w))" "r = f x" "x' \<in> set (ob_rows (dl_box w))" "r' = f x'"
        using old [OF r(1)] old [OF r(2)] by blast
      have k: "v_key x = Some k" "v_key x' = Some k" using r(3,4) same x(2,4) by simp_all
      from box_ok_agree [OF ok(1) x(1,3) k] show ?thesis
        using pend [OF x(1)] pend [OF x(3)] same k unfolding x(2,4) by simp
    qed
  qed
  moreover have "\<exists>k. v_key r = Some k \<and> dl_held w k \<noteq> None" if r: "r \<in> set (ob_rows ?box)" "v_state r = Shipped_Row" for r
  proof -
    obtain x where x: "x \<in> set (ob_rows (dl_box w))" "r = f x" using old [OF r(1)] by blast
    show ?thesis
    proof (cases "v_id x \<in> set (cb_ids b)")
      case True
      then have "s = Shipped_Row" using x(2) r(2) by (simp add: f_def)
      then show ?thesis using ids [OF x(1)] True x(2) same assms(4) by simp
    next
      case False
      then show ?thesis using ok(4) [OF x(1)] x(2) r(2) by (simp add: f_def)
    qed
  qed
  ultimately show ?thesis using whole ok by (intro delivery_okI) auto
qed

lemma delivery_step_ok: "delivery_step w w' \<Longrightarrow> delivery_ok w \<Longrightarrow> delivery_ok w'"
proof (induction rule: delivery_step.induct)
  case (queue w agent body)
  then show ?case by (rule add_ok)
next
  case (claims fails key limit w b box')
  then show ?case using claim_ok by blast
next
  case (seals b w)
  note ok = delivery_okD [OF seals(3)]
  have "cb_key x = k \<and> whole (dl_box w) x" if "((dl_held w)(cb_key b \<mapsto> b)) k = Some x" for k x
    using that ok(2) [OF seals(1)] ok(3) by (auto split: if_splits)
  moreover have "\<exists>k. v_key r = Some k \<and> ((dl_held w)(cb_key b \<mapsto> b)) k \<noteq> None"
    if "r \<in> set (ob_rows (dl_box w))" "v_state r = Shipped_Row" for r
    using ok(4) [OF that] by auto
  ultimately show ?case using ok by (intro delivery_okI) (simp_all del: fun_upd_apply)
next
  case (answers b w cv ans r box')
  note ok = delivery_okD [OF answers(4)]
  have whole: "whole (dl_box w) b" using ok(2) answers(1) by blast
  show ?case
  proof (cases r)
    case (Inl e)
    then have "box' = dl_box w" using settle_settled [OF answers(2)] by (simp add: settled_def)
    then show ?thesis using answers(4) by simp
  next
    case (Inr res)
    show ?thesis
    proof (cases "sr_rejected res")
      case True
      then obtain n where "box' = set_state (cb_ids b) Rejected_Row n (dl_box w)"
        using settle_settled [OF answers(2)] Inr by (auto simp: settled_def)
      then show ?thesis using set_state_ok [OF answers(4) whole, of Rejected_Row] by simp
    next
      case False
      then have "box' = set_state (cb_ids b) Shipped_Row None (dl_box w)"
        using settle_settled [OF answers(2)] Inr by (simp add: settled_def)
      moreover have "dl_held w (cb_key b) \<noteq> None"
        using answers(3) delivered_answer [OF answers(2) [unfolded Inr] False] by blast
      ultimately show ?thesis using set_state_ok [OF answers(4) whole, of Shipped_Row] by simp
    qed
  qed
next
  case (gives_up w b)
  note ok = delivery_okD [OF gives_up]
  show ?case by (rule delivery_okI) (use ok in auto)
qed

lemma delivery_reach_ok: "delivery_step\<^sup>*\<^sup>* w w' \<Longrightarrow> delivery_ok w \<Longrightarrow> delivery_ok w'"
  by (induction rule: rtranclp_induct) (auto intro: delivery_step_ok)

lemma nothing_delivered_ok: "delivery_ok nothing_delivered"
  by (rule delivery_okI) (auto simp: nothing_delivered_def empty_outbox_def box_ok_def)

text \<open>
  C19: Verdicts are delivered exactly once, whatever shippers interleave on the outbox and wherever they
  crash: a row marked as shipped is in a batch the endpoint holds; every batch it holds is the rows of
  its key, all of them and in order; and no row is in two of them.
\<close>

theorem verdicts_delivered_once:
  assumes "delivery_step\<^sup>*\<^sup>* nothing_delivered w"
  shows "(\<forall>r\<in>set (ob_rows (dl_box w)). v_state r = Shipped_Row \<longrightarrow>
        (\<exists>k b. v_key r = Some k \<and> dl_held w k = Some b \<and> v_id r \<in> set (cb_ids b)))
    \<and> (\<forall>k b. dl_held w k = Some b \<longrightarrow> cb_ids b = map v_id (members k (dl_box w))
        \<and> cb_verdicts b = map v_body (members k (dl_box w)) \<and> distinct (cb_ids b))
    \<and> (\<forall>k k' b b'. dl_held w k = Some b \<longrightarrow> dl_held w k' = Some b' \<longrightarrow> k \<noteq> k' \<longrightarrow> set (cb_ids b) \<inter> set (cb_ids b') = {})"
proof (intro conjI ballI allI impI)
  note ok = delivery_okD [OF delivery_reach_ok [OF assms nothing_delivered_ok]]
  note dist = box_ok_ids [OF ok(1)]
  {
    fix r assume r: "r \<in> set (ob_rows (dl_box w))" "v_state r = Shipped_Row"
    then obtain k b where k: "v_key r = Some k" "dl_held w k = Some b" using ok(4) by blast
    then have "v_id r \<in> set (cb_ids b)" using whole_ids [OF ok(1) _ r(1), of b] ok(3) [OF k(2)] by simp
    then show "\<exists>k b. v_key r = Some k \<and> dl_held w k = Some b \<and> v_id r \<in> set (cb_ids b)" using k by blast
  }
  {
    fix k b assume b: "dl_held w k = Some b"
    show ids: "cb_ids b = map v_id (members k (dl_box w))" "cb_verdicts b = map v_body (members k (dl_box w))"
      using ok(3) [OF b] by (auto simp: whole_def)
    show "distinct (cb_ids b)" unfolding ids members_def using dist by (simp add: distinct_map_filter)
  }
  {
    fix k k' b b' assume b: "dl_held w k = Some b" "dl_held w k' = Some b'" "k \<noteq> k'"
    show "set (cb_ids b) \<inter> set (cb_ids b') = {}"
    proof (rule ccontr)
      assume "set (cb_ids b) \<inter> set (cb_ids b') \<noteq> {}"
      then obtain i where i: "i \<in> set (cb_ids b)" "i \<in> set (cb_ids b')" by blast
      obtain x where x: "x \<in> set (ob_rows (dl_box w))" "i = v_id x"
        using i(1) ok(3) [OF b(1)] by (auto simp: whole_def members_def)
      have "v_key x = Some k" "v_key x = Some k'"
        using whole_ids [OF ok(1) _ x(1), of b] whole_ids [OF ok(1) _ x(1), of b'] ok(3) [OF b(1)] ok(3) [OF b(2)] i x(2)
        by simp_all
      then show False using b(3) by simp
    qed
  }
qed

end
