(* ===== verification/Outbox_Witness.thy ===== *)
theory Outbox_Witness
  imports Outbox_Props Gate_Witness
begin

text \<open>
  The batch that goes out after a failure, and concrete outboxes for the properties of the queue.
\<close>

section \<open>Sending again\<close>

lemma resume_fresh:
  assumes "box_ok ob" "members key ob = []" "resume_claimed ob = None"
    and "next_rows limit ob = r # rows" "ob' = assign_key (map v_id (r # rows)) key ob"
  shows "resume_claimed ob' = Some (batch_of (v_agent r) key (r # rows))"
proof -
  note mem = assign_members(1) [OF assms(1,4,2,5)]
  have chosen: "pending x \<and> v_agent x = v_agent r" if "x \<in> set (r # rows)" for x
    using next_rows_mem [of x limit ob] next_rows_agent [of r limit ob x] that assms(4) by simp
  have keyed: "pending y \<and> v_key y \<noteq> None \<longleftrightarrow> v_key y = Some key" if y: "y \<in> set (ob_rows ob')" for y
  proof -
    have "\<not> (pending y \<and> v_key y \<noteq> None) \<and> v_key y \<noteq> Some key" if "y \<in> set (ob_rows ob)"
      using that assms(3) unused_key [OF assms(2) that] by (auto simp: resume_None filter_empty_conv)
    moreover have "pending (x\<lparr>v_key := Some key\<rparr>)" if "x \<in> set (r # rows)" for x
      using chosen [OF that] by (simp add: pending_def)
    ultimately show ?thesis using assign_rows [OF assms(1,4,5) y] by auto
  qed
  have all: "filter (\<lambda>y. pending y \<and> v_key y \<noteq> None) (ob_rows ob') = members key ob'"
    unfolding members_def by (rule filter_cong) (use keyed in auto)
  have agents: "v_agent y = v_agent r \<and> pending y" if y: "y \<in> set (members key ob')" for y
  proof -
    obtain x where "x \<in> set (r # rows)" "y = x\<lparr>v_key := Some key\<rparr>" using y unfolding mem set_map by blast
    then show ?thesis using chosen [of x] by (simp add: pending_def)
  qed
  have "claimed_rows key (v_agent r) ob' = members key ob'"
    unfolding claimed_rows_def members_def
    by (rule filter_cong) (use agents in \<open>auto simp: members_def\<close>)
  then show ?thesis using all unfolding resume_claimed_def mem by (simp add: batch_of_def comp_def)
qed

lemma resume_add: "resume_claimed (snd (add agent body ob)) = resume_claimed ob"
proof -
  have same: "claimed_rows k a (snd (add agent body ob)) = claimed_rows k a ob" for k a
    by (simp add: claimed_rows_def add_def Let_def)
  have "filter (\<lambda>r. pending r \<and> v_key r \<noteq> None) (ob_rows (snd (add agent body ob)))
      = filter (\<lambda>r. pending r \<and> v_key r \<noteq> None) (ob_rows ob)"
    by (simp add: add_def Let_def)
  then show ?thesis unfolding resume_claimed_def same by (simp only:)
qed

definition queue_all :: "(pystr \<times> pyval) list \<Rightarrow> outbox \<Rightarrow> outbox" where
  "queue_all xs = fold (\<lambda>(agent, body). snd \<circ> add agent body) xs"

lemma resume_queue_all: "resume_claimed (queue_all xs ob) = resume_claimed ob"
  by (induction xs arbitrary: ob) (auto simp: queue_all_def resume_add)

lemma claim_resumes:
  assumes "box_ok ob" "members key ob = []" "claim False key limit ob = (Inr (Some b), ob')"
  shows "resume_claimed ob' = Some b"
proof (cases rule: claim_cases [OF assms(3)])
  case (3 r rows)
  then show ?thesis using resume_fresh [OF assms(1,2) 3(1,2,4)] by simp
qed auto

text \<open>
  A batch whose delivery failed goes out again as it was, whatever was queued since and however the
  shipper was restarted: the same key, the same rows, the same verdicts.
\<close>

theorem failed_batch_resent:
  assumes "delivery_step\<^sup>*\<^sup>* nothing_delivered w" "members key (dl_box w) = []"
    and "ship_once cv fails key max_batch client (dl_box w) = (Inl ClientFailed, ob')"
  shows "\<exists>b. client b = OtherFailure
    \<and> (\<forall>xs fails' key' limit'. claim fails' key' limit' (queue_all xs ob') = (Inr (Some b), queue_all xs ob'))"
proof -
  have ok: "box_ok (dl_box w)" by (rule delivery_okD(1) [OF delivery_reach_ok [OF assms(1) nothing_delivered_ok]])
  obtain b ob1 where c: "claim fails key (clamp_limit max_batch) (dl_box w) = (Inr (Some b), ob1)"
    and s: "settle cv b (client b) ob1 = (Inl ClientFailed, ob')"
    using assms(3) by (auto simp: ship_once_def rmap_def rbind_def split: sum.splits option.splits prod.splits)
  have c': "claim False key (clamp_limit max_batch) (dl_box w) = (Inr (Some b), ob1)"
    using c by (auto simp: claim_def split: option.splits if_splits)
  have "client b = OtherFailure \<and> ob' = ob1"
    using s by (auto simp: settle_def settle_body_def safe_int_def rmap_def Let_def split: answer.splits sum.splits option.splits if_splits converted.splits)
  then show ?thesis using claim_resumes [OF ok assms(2) c'] resume_queue_all [where ob = ob']
    by (intro exI [of _ b]) (simp add: claim_def)
qed

section \<open>Witnesses\<close>

definition two_agents :: outbox where
  "two_agents = queue_all [(u ''a'', PInt 1), (u ''b'', PInt 2), (u ''a'', PInt 3)] empty_outbox"

lemma two_agents_count: "pending_count two_agents = 3"
  by (simp add: two_agents_def queue_all_def add_def empty_outbox_def pending_count_def pending_def)

lemma conclusive_plain: "conclusive plain_conv (\<lambda>_. NoObject)" "conclusive plain_conv (\<lambda>_. Unprocessable e)"
  by (auto simp: conclusive_def settle_def settle_body_def safe_int_def plain_conv_def dget_def Let_def)

theorem drain_empties_queue_witness:
  "\<exists>rs ob'. drain plain_conv 200 [(u ''k1'', \<lambda>_. NoObject), (u ''k2'', \<lambda>_. Unprocessable (u ''422'')), (u ''k3'', \<lambda>_. NoObject)]
     two_agents = (Inr rs, ob') \<and> pending_count ob' = 0"
  by (rule drain_empties_queue) (simp_all add: conclusive_plain two_agents_count)

definition queued :: delivery where
  "queued = nothing_delivered\<lparr>dl_box := snd (add (u ''a'') (PInt 1) empty_outbox)\<rparr>"

definition first_batch :: claimed where
  "first_batch = \<lparr>cb_agent = u ''a'', cb_key = u ''k'', cb_ids = [1], cb_verdicts = [PInt 1]\<rparr>"

definition in_flight :: delivery where
  "in_flight = \<lparr>dl_box = snd (claim False (u ''k'') 200 (dl_box queued)), dl_held = (\<lambda>_. None), dl_flight = {first_batch}\<rparr>"

definition sealed :: delivery where
  "sealed = in_flight\<lparr>dl_held := [u ''k'' \<mapsto> first_batch]\<rparr>"

definition delivered :: delivery where
  "delivered = sealed\<lparr>dl_box := mark_shipped [1] (dl_box sealed)\<rparr>"

lemmas run_defs = queued_def in_flight_def sealed_def delivered_def nothing_delivered_def empty_outbox_def add_def first_batch_def

lemma queued_box: "dl_box queued = \<lparr>ob_rows = [\<lparr>v_id = 1, v_agent = u ''a'', v_key = None, v_state = Pending_Row,
    v_body = PInt 1, v_note = None\<rparr>], ob_last = 1\<rparr>"
  by (simp add: run_defs Let_def)

lemma claim_queued: "claim False (u ''k'') 200 (dl_box queued) = (Inr (Some first_batch), dl_box in_flight)"
  unfolding in_flight_def
  by (simp add: queued_box claim_def resume_claimed_def next_rows_def clamp_limit_def MAX_VERDICT_BATCH_def
      pending_def batch_of_def first_batch_def)

lemma queued_reached: "delivery_step\<^sup>*\<^sup>* nothing_delivered queued"
  using delivery_step.queue [of nothing_delivered "u ''a''" "PInt 1"]
  by (intro r_into_rtranclp) (simp add: queued_def nothing_delivered_def)

lemma delivered_reached: "delivery_step\<^sup>*\<^sup>* nothing_delivered delivered"
proof -
  have unkeyed: "members (u ''k'') (dl_box queued) = []" by (simp add: queued_box members_def)
  have "delivery_step queued in_flight"
    using delivery_step.claims [OF claim_queued unkeyed]
    by (simp add: in_flight_def) (simp add: queued_def nothing_delivered_def)
  moreover have "delivery_step in_flight sealed"
    using delivery_step.seals [of first_batch in_flight] by (simp add: sealed_def in_flight_def first_batch_def)
  moreover have "delivery_step sealed delivered"
  proof -
    have "settle plain_conv first_batch NoObject (dl_box sealed)
        = (Inr \<lparr>sr_agent = u ''a'', sr_key = u ''k'', sr_shipped = 1, sr_duplicate = False, sr_accepted = 1,
             sr_stale = 0, sr_anchor = PNone, sr_rejected = False\<rparr>, mark_shipped [1] (dl_box sealed))"
      by (simp add: settle_def settle_body_def safe_int_def plain_conv_def dget_def first_batch_def Let_def)
    moreover have "first_batch \<in> dl_flight sealed" "dl_held sealed (cb_key first_batch) \<noteq> None"
      by (simp_all add: sealed_def in_flight_def first_batch_def)
    ultimately show ?thesis unfolding delivered_def by (rule_tac delivery_step.answers) auto
  qed
  ultimately show ?thesis using queued_reached by (auto intro: rtranclp.rtrancl_into_rtrancl)
qed

theorem verdicts_delivered_once_witness:
  "cb_ids first_batch = map v_id (members (u ''k'') (dl_box delivered)) \<and> distinct (cb_ids first_batch)"
proof -
  have "dl_held delivered (u ''k'') = Some first_batch" by (simp add: delivered_def sealed_def)
  then show ?thesis using verdicts_delivered_once [OF delivered_reached] by blast
qed

theorem failed_batch_resent_witness:
  "\<exists>b ob'. ship_once plain_conv False (u ''k'') 200 (\<lambda>_. OtherFailure) (dl_box queued) = (Inl ClientFailed, ob')
    \<and> claim False (u ''other'') 1 (queue_all [(u ''b'', PInt 2)] ob') = (Inr (Some b), queue_all [(u ''b'', PInt 2)] ob')"
proof -
  have s: "ship_once plain_conv False (u ''k'') 200 (\<lambda>_. OtherFailure) (dl_box queued) = (Inl ClientFailed, dl_box in_flight)"
    using claim_queued by (simp add: ship_once_def settle_def clamp_limit_def MAX_VERDICT_BATCH_def rmap_def)
  have "members (u ''k'') (dl_box queued) = []" by (simp add: queued_box members_def)
  from failed_batch_resent [OF queued_reached this s] show ?thesis using s by blast
qed

end
