(* ===== verification/Shield_Store.thy ===== *)
theory Shield_Store
  imports Keys
begin

text \<open>
  \<open>shield_server/store.py\<close>: enrolment tokens, the append-only table of signed policies with its one
  version counter, and what each device last reported. Every method holds the store's lock from its first
  statement to its last and is one step here. A JSON column holds the value that was stored.
\<close>

section \<open>Numbers and sequences as Python compares them\<close>

definition digits_value :: "nat list \<Rightarrow> int" where
  "digits_value ds = foldl (\<lambda>a d. 10 * a + int d) 0 ds"

text \<open>\<open>v == n\<close> for an integer \<open>n\<close>: booleans and floats with that value are equal to it.\<close>

fun num_eq :: "pyval \<Rightarrow> int \<Rightarrow> bool" where
  "num_eq (PInt i) n = (i = n)"
| "num_eq (PBool b) n = ((if b then 1 else 0) = n)"
| "num_eq (PFloat (FFin neg ds ex)) n =
     (let s = (if neg then - digits_value ds else digits_value ds)
      in if 0 \<le> ex then s * 10 ^ nat ex = n else s = n * 10 ^ nat (- ex))"
| "num_eq _ n = False"

text \<open>\<open>a < b\<close> on strings, by code points.\<close>

fun str_less :: "pystr \<Rightarrow> pystr \<Rightarrow> bool" where
  "str_less [] ys = (ys \<noteq> [])"
| "str_less (x # xs) [] = False"
| "str_less (x # xs) (y # ys) = (x < y \<or> x = y \<and> str_less xs ys)"

text \<open>What \<open>for x in v\<close> runs over; \<open>None\<close> where Python raises \<open>TypeError\<close>.\<close>

fun key_val :: "pykey \<Rightarrow> pyval" where
  "key_val (KStr k) = PStr k" | "key_val KOther = POther"

fun py_iter :: "pyval \<Rightarrow> pyval list option" where
  "py_iter (PStr s) = Some (map (\<lambda>c. PStr [c]) s)"
| "py_iter (PSeq xs) = Some xs"
| "py_iter (PDict items) = Some (map (key_val \<circ> fst) items)"
| "py_iter _ = None"

section \<open>The tables\<close>

record token_row =
  tk_hash :: pystr
  tk_label :: "pystr option"
  tk_created :: pystr
  tk_expires :: "pystr option"
  tk_used :: "pystr option"
  tk_device :: "pystr option"
  tk_revoked :: "pystr option"

record policy_row =
  pr_id :: int
  pr_device :: "pystr option"
  pr_version :: int
  pr_document :: "(pykey \<times> pyval) list"
  pr_signature :: pystr
  pr_created :: pystr
  pr_author :: "pystr option"

record device_state =
  ds_protecting :: "bool option"
  ds_reasons :: "pystr list"
  ds_mode :: "pystr option"
  ds_version :: "int option"
  ds_seen :: pystr
  ds_label :: "pystr option"

record shield_db =
  sd_tokens :: "token_row list"
  sd_policies :: "policy_row list"
  sd_last_id :: int
  sd_states :: "pystr \<rightharpoonup> device_state"

definition empty_shield :: shield_db where
  "empty_shield = \<lparr>sd_tokens = [], sd_policies = [], sd_last_id = 0, sd_states = Map.empty\<rparr>"

datatype store_error =
    DuplicateToken
  | WrongVersionStamp
  | VersionNotInt
  | UnknownVersionRace
  | SigningFailed canon_error
  | ReasonsNotIterable
  | IntTooLarge

section \<open>Tokens\<close>

text \<open>An empty string in a column counts as absent, as in \<open>if row["revoked_at"]\<close>.\<close>

definition present :: "pystr option \<Rightarrow> bool" where
  "present x \<longleftrightarrow> x \<noteq> None \<and> x \<noteq> Some []"

definition expired :: "pystr \<Rightarrow> token_row \<Rightarrow> bool" where
  "expired now t \<longleftrightarrow> present (tk_expires t) \<and> str_less (the (tk_expires t)) now"

datatype token_status = Revoked | Used | Expired | Active

definition status_of :: "pystr \<Rightarrow> token_row \<Rightarrow> token_status" where
  "status_of now t =
     (if present (tk_revoked t) then Revoked
      else if present (tk_used t) then Used
      else if expired now t then Expired
      else Active)"

definition hash_token :: "hash \<Rightarrow> pystr \<Rightarrow> pystr" where
  "hash_token sha token = hex (sha (utf8 token))"

text \<open>\<open>token\<close> is the fresh random token, \<open>ttl_end\<close> the time that a \<open>ttl_seconds\<close> argument leads to.\<close>

definition mint_token ::
  "hash \<Rightarrow> pystr \<Rightarrow> pystr \<Rightarrow> pystr option \<Rightarrow> pystr option \<Rightarrow> pystr option \<Rightarrow> shield_db \<Rightarrow> (store_error + pystr) \<times> shield_db" where
  "mint_token sha token now label ttl_end expires_at db =
     (let h = hash_token sha token;
          e = (if expires_at = None then ttl_end else expires_at)
      in if h \<in> tk_hash ` set (sd_tokens db) then (Inl DuplicateToken, db)
         else (Inr token, db\<lparr>sd_tokens := sd_tokens db @
                 [\<lparr>tk_hash = h, tk_label = label, tk_created = now, tk_expires = e, tk_used = None,
                   tk_device = None, tk_revoked = None\<rparr>]\<rparr>))"

definition find_token_by_hash :: "pystr \<Rightarrow> shield_db \<Rightarrow> token_row option" where
  "find_token_by_hash h db = find (\<lambda>t. tk_hash t = h) (sd_tokens db)"

text \<open>The id shown for a token is a prefix of its hash; an ambiguous one finds nothing.\<close>

definition find_token_by_id :: "pystr \<Rightarrow> shield_db \<Rightarrow> token_row option" where
  "find_token_by_id i db =
     (case filter (\<lambda>t. take (length i) (tk_hash t) = i) (sd_tokens db) of [t] \<Rightarrow> Some t | _ \<Rightarrow> None)"

definition update_token :: "(token_row \<Rightarrow> bool) \<Rightarrow> (token_row \<Rightarrow> token_row) \<Rightarrow> shield_db \<Rightarrow> nat \<times> shield_db" where
  "update_token P f db =
     (length (filter P (sd_tokens db)), db\<lparr>sd_tokens := map (\<lambda>t. if P t then f t else t) (sd_tokens db)\<rparr>)"

definition revoke_token :: "pystr \<Rightarrow> pystr \<Rightarrow> shield_db \<Rightarrow> bool \<times> shield_db" where
  "revoke_token now h db =
     (case update_token (\<lambda>t. tk_hash t = h \<and> tk_revoked t = None) (\<lambda>t. t\<lparr>tk_revoked := Some now\<rparr>) db of
        (n, db') \<Rightarrow> (0 < n, db'))"

definition revoke_token_by_id :: "pystr \<Rightarrow> pystr \<Rightarrow> shield_db \<Rightarrow> bool \<times> shield_db" where
  "revoke_token_by_id now i db =
     (case find_token_by_id i db of None \<Rightarrow> (False, db) | Some t \<Rightarrow> revoke_token now (tk_hash t) db)"

text \<open>\<open>Inl\<close> is the reason of a refusal, \<open>Inr\<close> the label of the token.\<close>

definition redeem_token ::
  "hash \<Rightarrow> pystr \<Rightarrow> pystr \<Rightarrow> pystr \<Rightarrow> shield_db \<Rightarrow> (pystr + pystr option) \<times> shield_db" where
  "redeem_token sha now token device_id db =
     (let h = hash_token sha token in
      case find_token_by_hash h db of
        None \<Rightarrow> (Inl (u ''invalid''), db)
      | Some t \<Rightarrow>
          if present (tk_revoked t) then (Inl (u ''revoked''), db)
          else if present (tk_used t) then (Inl (u ''used''), db)
          else if expired now t then (Inl (u ''expired''), db)
          else
            (case update_token (\<lambda>t. tk_hash t = h \<and> tk_used t = None \<and> tk_revoked t = None)
                    (\<lambda>t. t\<lparr>tk_used := Some now, tk_device := Some device_id\<rparr>) db of
               (n, db') \<Rightarrow> if n = 0 then (Inl (u ''used''), db') else (Inr (tk_label t), db')))"

section \<open>Policies\<close>

fun max_version :: "policy_row list \<Rightarrow> int" where
  "max_version [] = 0"
| "max_version (r # rs) = foldl max (pr_version r) (map pr_version rs)"

definition next_version :: "shield_db \<Rightarrow> int" where
  "next_version db = max_version (sd_policies db) + 1"

text \<open>\<open>isinstance(v, int) and not isinstance(v, bool)\<close>\<close>

fun as_int :: "pyval \<Rightarrow> int option" where
  "as_int (PInt i) = Some i" | "as_int _ = None"

text \<open>The unique index on the version is what turns a race into an error.\<close>

definition insert_policy ::
  "pystr \<Rightarrow> pystr option \<Rightarrow> (pykey \<times> pyval) list \<Rightarrow> pystr \<Rightarrow> pystr option \<Rightarrow> shield_db
     \<Rightarrow> (store_error + policy_row) \<times> shield_db" where
  "insert_policy now device_id document signature author db =
     (case as_int (dget (u ''version'') document) of
        None \<Rightarrow> (Inl VersionNotInt, db)
      | Some v \<Rightarrow>
          if v \<in> pr_version ` set (sd_policies db) then (Inl UnknownVersionRace, db)
          else
            (let row = \<lparr>pr_id = sd_last_id db + 1, pr_device = device_id, pr_version = v, pr_document = document,
                        pr_signature = signature, pr_created = now, pr_author = author\<rparr>
             in (Inr row, db\<lparr>sd_policies := sd_policies db @ [row], sd_last_id := sd_last_id db + 1\<rparr>)))"

definition write_policy_locked ::
  "pystr \<Rightarrow> pystr option \<Rightarrow> (int \<Rightarrow> (pykey \<times> pyval) list) \<Rightarrow> ((pykey \<times> pyval) list \<Rightarrow> canon_error + pystr)
     \<Rightarrow> pystr option \<Rightarrow> shield_db \<Rightarrow> (store_error + policy_row) \<times> shield_db" where
  "write_policy_locked now device_id build sign author db =
     (let version = next_version db; document = build version in
      if \<not> num_eq (dget (u ''version'') document) version then (Inl WrongVersionStamp, db)
      else (case sign document of
              Inl e \<Rightarrow> (Inl (SigningFailed e), db)
            | Inr signature \<Rightarrow> insert_policy now device_id document signature author db))"

fun newest :: "policy_row list \<Rightarrow> policy_row option" where
  "newest [] = None"
| "newest (r # rs) = Some (foldl (\<lambda>a b. if pr_version a < pr_version b then b else a) r rs)"

definition latest_row :: "pystr option \<Rightarrow> shield_db \<Rightarrow> policy_row option" where
  "latest_row device_id db = newest (filter (\<lambda>r. pr_device r = device_id) (sd_policies db))"

text \<open>The rows are read in ascending order, so the last one wins.\<close>

definition all_latest_device_overrides :: "shield_db \<Rightarrow> pystr \<rightharpoonup> policy_row" where
  "all_latest_device_overrides db =
     map_of (rev (map (\<lambda>r. (the (pr_device r), r))
       (sort_key pr_version (filter (\<lambda>r. pr_device r \<noteq> None) (sd_policies db)))))"

section \<open>What devices report\<close>

text \<open>\<open>INSERT ... ON CONFLICT DO UPDATE\<close> that keeps an old label where no new one is given.\<close>

definition or_label :: "pystr option \<Rightarrow> device_state option \<Rightarrow> pystr option" where
  "or_label new old = (case new of Some l \<Rightarrow> Some l | None \<Rightarrow> (case old of None \<Rightarrow> None | Some s \<Rightarrow> ds_label s))"

definition touch_device :: "pystr \<Rightarrow> pystr option \<Rightarrow> device_state option \<Rightarrow> device_state" where
  "touch_device now label old =
     (case old of
        None \<Rightarrow> \<lparr>ds_protecting = None, ds_reasons = [], ds_mode = None, ds_version = None, ds_seen = now, ds_label = label\<rparr>
      | Some s \<Rightarrow> s\<lparr>ds_seen := now, ds_label := or_label label old\<rparr>)"

fun is_text_or_number :: "pyval \<Rightarrow> bool" where
  "is_text_or_number (PStr _) = True" | "is_text_or_number (PInt _) = True"
| "is_text_or_number (PFloat _) = True" | "is_text_or_number (PBool _) = True"
| "is_text_or_number _ = False"

definition reasons_of :: "(pyval \<Rightarrow> pystr) \<Rightarrow> pyval \<Rightarrow> store_error + pystr list" where
  "reasons_of repr v =
     (case (if truthy v then py_iter v else Some []) of
        None \<Rightarrow> Inl ReasonsNotIterable
      | Some xs \<Rightarrow> Inr (map (py_str repr) (filter is_text_or_number xs)))"

text \<open>
  \<open>record_shield_state\<close>: a block that is no object or has no boolean \<open>protecting\<close> only marks the device as
  seen. An integer outside 64 bits cannot be bound to the statement.
\<close>

definition record_shield_state ::
  "(pyval \<Rightarrow> pystr) \<Rightarrow> pystr \<Rightarrow> pystr \<Rightarrow> pyval \<Rightarrow> pystr option \<Rightarrow> shield_db \<Rightarrow> (store_error + unit) \<times> shield_db" where
  "record_shield_state repr now device_id block label db =
     (let touched = db\<lparr>sd_states := (sd_states db)(device_id \<mapsto> touch_device now label (sd_states db device_id))\<rparr> in
      case block of
        PDict b \<Rightarrow>
          (case dget (u ''protecting'') b of
             PBool p \<Rightarrow>
               (case reasons_of repr (dget (u ''reasons'') b) of
                  Inl e \<Rightarrow> (Inl e, db)
                | Inr reasons \<Rightarrow>
                    (let mode = dget (u ''mode'') b;
                         version = as_int (dget (u ''policy_version'') b)
                     in if version \<noteq> None \<and> \<not> (- (2 ^ 63) \<le> the version \<and> the version < 2 ^ 63) then (Inl IntTooLarge, db)
                        else
                          (Inr (), db\<lparr>sd_states := (sd_states db)(device_id \<mapsto>
                             \<lparr>ds_protecting = Some p, ds_reasons = reasons,
                              ds_mode = (if mode = PNone then None else Some (py_str repr mode)),
                              ds_version = version, ds_seen = now,
                              ds_label = or_label label (sd_states db device_id)\<rparr>)\<rparr>)))
           | _ \<Rightarrow> (Inr (), touched))
      | _ \<Rightarrow> (Inr (), touched))"

end
