(* ===== verification/Shield_Tokens.thy ===== *)
theory Shield_Tokens
  imports Shield_Store
begin

text \<open>Enrolment tokens over whole runs of the store.\<close>

datatype token_op =
    Mint pystr pystr "pystr option" "pystr option" "pystr option"
  | Revoke pystr pystr
  | RevokeById pystr pystr
  | Redeem pystr pystr pystr

text \<open>The log keeps which token was redeemed for which device.\<close>

fun do_token :: "hash \<Rightarrow> token_op \<Rightarrow> (pystr \<times> pystr) list \<times> shield_db \<Rightarrow> (pystr \<times> pystr) list \<times> shield_db" where
  "do_token sha (Mint token now label ttl_end expires_at) (hist, db) = (hist, snd (mint_token sha token now label ttl_end expires_at db))"
| "do_token sha (Revoke now h) (hist, db) = (hist, snd (revoke_token now h db))"
| "do_token sha (RevokeById now i) (hist, db) = (hist, snd (revoke_token_by_id now i db))"
| "do_token sha (Redeem now token device_id) (hist, db) =
     (case redeem_token sha now token device_id db of
        (Inl _, db') \<Rightarrow> (hist, db')
      | (Inr _, db') \<Rightarrow> ((hash_token sha token, device_id) # hist, db'))"

definition run_tokens :: "hash \<Rightarrow> token_op list \<Rightarrow> (pystr \<times> pystr) list \<times> shield_db \<Rightarrow> (pystr \<times> pystr) list \<times> shield_db" where
  "run_tokens sha ops s = fold (do_token sha) ops s"

text \<open>One row per hash; a token in the log is used, for the device the log names.\<close>

definition used_by :: "shield_db \<Rightarrow> pystr \<Rightarrow> pystr \<Rightarrow> bool" where
  "used_by db h d \<longleftrightarrow> (\<exists>t\<in>set (sd_tokens db). tk_hash t = h \<and> tk_device t = Some d \<and> tk_used t \<noteq> None)"

definition tokens_ok :: "(pystr \<times> pystr) list \<times> shield_db \<Rightarrow> bool" where
  "tokens_ok s \<longleftrightarrow> distinct (map tk_hash (sd_tokens (snd s))) \<and> distinct (map fst (fst s))
     \<and> (\<forall>x\<in>set (fst s). used_by (snd s) (fst x) (snd x))"

lemma update_token_snd [simp]:
  "sd_tokens (snd (update_token P f db)) = map (\<lambda>t. if P t then f t else t) (sd_tokens db)"
  by (simp add: update_token_def)

lemma used_by_map:
  assumes "used_by db h d" "sd_tokens db' = map f (sd_tokens db) @ new"
    and "\<And>t. tk_hash (f t) = tk_hash t" "\<And>t. tk_used t \<noteq> None \<Longrightarrow> tk_used (f t) \<noteq> None \<and> tk_device (f t) = tk_device t"
  shows "used_by db' h d"
proof -
  obtain t where "t \<in> set (sd_tokens db)" "tk_hash t = h" "tk_device t = Some d" "tk_used t \<noteq> None"
    using assms(1) by (auto simp: used_by_def)
  then have "f t \<in> set (sd_tokens db')" "tk_hash (f t) = h" "tk_device (f t) = Some d" "tk_used (f t) \<noteq> None"
    using assms(2-) by simp_all
  then show ?thesis unfolding used_by_def by blast
qed

lemma mapped_ok:
  assumes "tokens_ok (hist, db)" "sd_tokens db' = map f (sd_tokens db) @ new" "distinct (map tk_hash (sd_tokens db @ new))"
    and "\<And>t. tk_hash (f t) = tk_hash t" "\<And>t. tk_used t \<noteq> None \<Longrightarrow> tk_used (f t) \<noteq> None \<and> tk_device (f t) = tk_device t"
  shows "tokens_ok (hist, db')"
proof -
  have "map tk_hash (sd_tokens db') = map tk_hash (sd_tokens db @ new)" using assms(2,4) by simp
  then have "distinct (map tk_hash (sd_tokens db'))" using assms(3) by (simp only:)
  then show ?thesis using assms(1) used_by_map [OF _ assms(2,4,5)] by (auto simp: tokens_ok_def)
qed

lemma redeem_cases:
  assumes "redeem_token sha now token d db = (r, db')"
  obtains (refused) reason where "r = Inl reason" "db' = db"
  | (redeemed) t t' :: token_row where "t \<in> set (sd_tokens db)" "tk_hash t = hash_token sha token" "tk_used t = None" "tk_revoked t = None"
      "r = Inr (tk_label t')" "sd_tokens db' = map (\<lambda>x. if tk_hash x = hash_token sha token \<and> tk_used x = None \<and> tk_revoked x = None
         then x\<lparr>tk_used := Some now, tk_device := Some d\<rparr> else x) (sd_tokens db)"
proof (cases "find_token_by_hash (hash_token sha token) db")
  case None
  then show thesis using assms by (intro refused [of "u ''invalid''"]) (simp_all add: redeem_token_def)
next
  case (Some t)
  have t: "(t :: token_row) \<in> set (sd_tokens db)" "tk_hash t = hash_token sha token"
    using Some by (auto simp: find_token_by_hash_def find_Some_iff)
  let ?P = "\<lambda>x. tk_hash x = hash_token sha token \<and> tk_used x = None \<and> tk_revoked x = None"
  show thesis
  proof (cases "present (tk_revoked t) \<or> present (tk_used t) \<or> expired now t")
    case True
    then have "\<exists>reason. r = Inl reason \<and> db' = db" using assms Some by (auto simp: redeem_token_def Let_def split: if_splits)
    then show thesis using refused by blast
  next
    case False
    show thesis
    proof (cases "filter ?P (sd_tokens db) = []")
      case True
      then have "map (\<lambda>x. if ?P x then x\<lparr>tk_used := Some now, tk_device := Some d\<rparr> else x) (sd_tokens db) = sd_tokens db"
        by (intro map_idI) (auto simp: filter_empty_conv)
      then show thesis using assms Some False True
        by (intro refused [of "u ''used''"]) (simp_all add: redeem_token_def Let_def update_token_def)
    next
      case nonempty: False
      then obtain x where x: "x \<in> set (sd_tokens db)" "?P x" by (auto simp: filter_empty_conv)
      have "(r, db') = (Inr (tk_label t), snd (update_token ?P (\<lambda>x. x\<lparr>tk_used := Some now, tk_device := Some d\<rparr>) db))"
        using assms Some False nonempty by (simp add: redeem_token_def Let_def update_token_def)
      then show thesis using x by (intro redeemed [of x t]) auto
    qed
  qed
qed

lemma revoke_ok: "tokens_ok (hist, db) \<Longrightarrow> tokens_ok (hist, snd (revoke_token now h db))"
  by (rule mapped_ok [where f = "\<lambda>t. if tk_hash t = h \<and> tk_revoked t = None then t\<lparr>tk_revoked := Some now\<rparr> else t" and new = "[]"])
    (auto simp: revoke_token_def update_token_def tokens_ok_def)

lemma do_token_ok: "tokens_ok s \<Longrightarrow> tokens_ok (do_token sha tok s)"
proof (cases s)
  case (Pair hist db)
  assume "tokens_ok s"
  then have ok: "tokens_ok (hist, db)" using Pair by simp
  then have dist: "distinct (map tk_hash (sd_tokens db))" by (simp add: tokens_ok_def)
  show ?thesis
  proof (cases tok)
    case (Mint token now label ttl_end expires_at)
    have "tokens_ok (hist, snd (mint_token sha token now label ttl_end expires_at db))"
    proof (cases "hash_token sha token \<in> tk_hash ` set (sd_tokens db)")
      case False
      then show ?thesis using dist
        by (intro mapped_ok [OF ok, where f = "\<lambda>t. t" and new = "[\<lparr>tk_hash = hash_token sha token, tk_label = label,
              tk_created = now, tk_expires = (if expires_at = None then ttl_end else expires_at), tk_used = None,
              tk_device = None, tk_revoked = None\<rparr>]"]) (auto simp: mint_token_def)
    qed (use ok in \<open>simp add: mint_token_def\<close>)
    then show ?thesis using Mint Pair by simp
  next
    case (Revoke now h)
    then show ?thesis using revoke_ok [OF ok] Pair by simp
  next
    case (RevokeById now i)
    then show ?thesis using revoke_ok [OF ok] ok Pair
      by (auto simp: revoke_token_by_id_def split: option.splits)
  next
    case (Redeem now token d)
    obtain r db' where r: "redeem_token sha now token d db = (r, db')" by fastforce
    show ?thesis using r
    proof (cases rule: redeem_cases)
      case (refused reason)
      then show ?thesis using Redeem Pair r ok by simp
    next
      case (redeemed t t')
      let ?h = "hash_token sha token"
      let ?f = "\<lambda>x. if tk_hash x = ?h \<and> tk_used x = None \<and> tk_revoked x = None
         then x\<lparr>tk_used := Some now, tk_device := Some d\<rparr> else x"
      have ok': "tokens_ok (hist, db')"
        by (rule mapped_ok [OF ok, where f = ?f and new = "[]"]) (use redeemed(6) dist in auto)
      have "?f t \<in> set (sd_tokens db')" using redeemed(1,6) by simp
      moreover have "tk_hash (?f t) = ?h \<and> tk_device (?f t) = Some d \<and> tk_used (?f t) \<noteq> None" using redeemed(2,3,4) by simp
      ultimately have "used_by db' ?h d" unfolding used_by_def by blast
      moreover have "?h \<notin> fst ` set hist"
      proof
        assume "?h \<in> fst ` set hist"
        then obtain d' where "used_by db ?h d'" using ok by (auto simp: tokens_ok_def)
        then obtain x where "x \<in> set (sd_tokens db)" "tk_hash x = tk_hash t" "tk_used x \<noteq> None"
          using redeemed(2) by (auto simp: used_by_def)
        then show False using dist redeemed(1,3) by (metis distinct_map inj_on_contraD)
      qed
      ultimately show ?thesis using ok' Redeem Pair r redeemed(5) by (auto simp: tokens_ok_def)
    qed
  qed
qed

text \<open>
  An enrolment token is redeemed at most once, whatever minting, revoking and redeeming goes on, and
  the table says for which device.
\<close>

theorem token_single_use:
  "distinct (map fst (fst (run_tokens sha ops ([], empty_shield))))
    \<and> list_all (\<lambda>x. used_by (snd (run_tokens sha ops ([], empty_shield))) (fst x) (snd x))
        (fst (run_tokens sha ops ([], empty_shield)))"
proof -
  have "tokens_ok (fold (do_token sha) ops s)" if "tokens_ok s" for s
    using that
  proof (induction ops arbitrary: s)
    case (Cons tok ops)
    show ?case using Cons.IH [OF do_token_ok [OF Cons.prems]] by simp
  qed simp
  moreover have "tokens_ok ([], empty_shield)" by (simp add: tokens_ok_def empty_shield_def)
  ultimately have "tokens_ok (run_tokens sha ops ([], empty_shield))" unfolding run_tokens_def by blast
  then show ?thesis by (simp add: tokens_ok_def list_all_iff)
qed

end
