(* ===== verification/Shield_Policy.thy ===== *)
theory Shield_Policy
  imports Shield_Store
begin

text \<open>
  \<open>shield_server/policy.py\<close>: validating a policy, building and signing its document, and deciding which
  document a device gets. Policy ids and clock readings are inputs.
\<close>

definition MODES :: "pystr list" where
  "MODES = [u ''observe'', u ''redact'', u ''block'']"

definition RETENTION_DAYS :: "int list" where
  "RETENTION_DAYS = [7, 30, 90, 365]"

definition LOCKABLE_KEYS :: "pystr list" where
  "LOCKABLE_KEYS = [u ''mode'', u ''apps'', u ''keep_text'', u ''retention_days'', u ''notice'']"

text \<open>Everything but the last two is a \<open>PolicyValidationError\<close>.\<close>

datatype policy_error =
    PolicyNotAnObject | BadMode | BadRetention | BadKeepText | BadNotice | BadApps
  | LockedNotStrings | UnknownLocked "pystr list"
  | UnhashableValue
  | StoreRaised store_error

fun is_bool :: "pyval \<Rightarrow> bool" where
  "is_bool (PBool _) = True" | "is_bool _ = False"

fun is_key_str :: "pykey \<Rightarrow> bool" where
  "is_key_str (KStr _) = True" | "is_key_str KOther = False"

fun dict_of_bools :: "pyval \<Rightarrow> bool" where
  "dict_of_bools (PDict items) = (items \<noteq> [] \<and> (\<forall>(k, v)\<in>set items. is_key_str k \<and> is_bool v))"
| "dict_of_bools _ = False"

text \<open>Membership in a set hashes the value first: a list or an object raises \<open>TypeError\<close> there.\<close>

definition validate_policy :: "pyval \<Rightarrow> policy_error + (pykey \<times> pyval) list" where
  "validate_policy policy =
     (case policy of
        PDict p \<Rightarrow>
          (let mode = dget (u ''mode'') p; days = dget (u ''retention_days'') p;
               keep = dget (u ''keep_text'') p; notice = dget (u ''notice'') p; apps = dget (u ''apps'') p
           in if \<not> hashable mode then Inl UnhashableValue
              else if mode \<notin> PStr ` set MODES then Inl BadMode
              else if \<not> hashable days then Inl UnhashableValue
              else if \<not> list_ex (num_eq days) RETENTION_DAYS then Inl BadRetention
              else if \<not> is_bool keep then Inl BadKeepText
              else if \<not> is_bool notice then Inl BadNotice
              else if \<not> dict_of_bools apps then Inl BadApps
              else Inr [(KStr (u ''mode''), mode), (KStr (u ''apps''), apps), (KStr (u ''keep_text''), keep),
                        (KStr (u ''retention_days''), days), (KStr (u ''notice''), notice)])
      | _ \<Rightarrow> Inl PolicyNotAnObject)"

fun str_of :: "pyval \<Rightarrow> pystr" where
  "str_of (PStr s) = s" | "str_of _ = []"

definition validate_locked :: "pyval \<Rightarrow> policy_error + pystr list" where
  "validate_locked locked =
     (case locked of
        PNone \<Rightarrow> Inr LOCKABLE_KEYS
      | PSeq xs \<Rightarrow>
          if \<not> list_all is_str xs then Inl LockedNotStrings
          else (let unknown = filter (\<lambda>k. k \<notin> set LOCKABLE_KEYS) (map str_of xs)
                in if unknown = [] then Inr (map str_of xs) else Inl (UnknownLocked (remdups unknown)))
      | _ \<Rightarrow> Inl LockedNotStrings)"

section \<open>The signer\<close>

record signer =
  sg_private :: bytes
  sg_public :: bytes

definition signer_key_id :: "signer \<Rightarrow> pystr" where
  "signer_key_id s = u ''shield-server-'' @ take 8 (hex (sg_public s))"

definition sign_document :: "crypto \<Rightarrow> signer \<Rightarrow> (pykey \<times> pyval) list \<Rightarrow> canon_error + pystr" where
  "sign_document c s doc = rmap (\<lambda>b. hex (c_ed25519_sign c (sg_private s) b)) (canonicalize (PDict doc))"

text \<open>The key file: 32 raw bytes, or a fresh key that is then written there.\<close>

definition load_or_create_signing_key ::
  "(bytes \<Rightarrow> bytes) \<Rightarrow> bytes \<Rightarrow> bytes option \<Rightarrow> (unit + signer) \<times> bytes option" where
  "load_or_create_signing_key public fresh file =
     (case file of
        Some raw \<Rightarrow>
          (if length raw \<noteq> 32 then (Inl (), file)
           else (Inr \<lparr>sg_private = raw, sg_public = public raw\<rparr>, file))
      | None \<Rightarrow> (Inr \<lparr>sg_private = fresh, sg_public = public fresh\<rparr>, Some fresh))"

section \<open>Writing\<close>

record write_env =
  we_policy_id :: pystr
  we_issued :: pystr
  we_now :: pystr

definition build_document ::
  "write_env \<Rightarrow> signer \<Rightarrow> pystr \<Rightarrow> pystr option \<Rightarrow> pyval \<Rightarrow> (pykey \<times> pyval) list option \<Rightarrow> pystr list \<Rightarrow> int
     \<Rightarrow> (pykey \<times> pyval) list" where
  "build_document env s org device_id managed_by policy locked version =
     [(KStr (u ''policy_id''), PStr (u ''pol_'' @ we_policy_id env)),
      (KStr (u ''version''), PInt version),
      (KStr (u ''tenant_slug''), PStr org),
      (KStr (u ''device_id''), case device_id of None \<Rightarrow> PNone | Some d \<Rightarrow> PStr d),
      (KStr (u ''issued_at''), PStr (we_issued env)),
      (KStr (u ''key_id''), PStr (signer_key_id s)),
      (KStr (u ''managed_by''), managed_by),
      (KStr (u ''policy''), case policy of None \<Rightarrow> PNone | Some p \<Rightarrow> PDict p),
      (KStr (u ''locked''), PSeq (if policy = None then [] else map PStr locked))]"

definition write_policy ::
  "crypto \<Rightarrow> write_env \<Rightarrow> signer \<Rightarrow> pystr \<Rightarrow> pystr option \<Rightarrow> pyval \<Rightarrow> pyval \<Rightarrow> pyval \<Rightarrow> pystr option \<Rightarrow> shield_db
     \<Rightarrow> (policy_error + policy_row) \<times> shield_db" where
  "write_policy c env s org device_id policy managed_by locked author db =
     (case (if policy = PNone then Inr None else rmap Some (validate_policy policy)) of
        Inl e \<Rightarrow> (Inl e, db)
      | Inr normalized \<Rightarrow>
          (case (if normalized = None then Inr [] else validate_locked locked) of
             Inl e \<Rightarrow> (Inl e, db)
           | Inr keys \<Rightarrow>
               (case write_policy_locked (we_now env) device_id (build_document env s org device_id managed_by normalized keys)
                       (sign_document c s) author db of
                  (Inl e, db') \<Rightarrow> (Inl (StoreRaised e), db')
                | (Inr row, db') \<Rightarrow> (Inr row, db'))))"

section \<open>Deciding what a device gets\<close>

definition live :: "policy_row option \<Rightarrow> bool" where
  "live r \<longleftrightarrow> r \<noteq> None \<and> dget (u ''policy'') (pr_document (the r)) \<noteq> PNone"

definition pick_effective :: "policy_row option \<Rightarrow> policy_row option \<Rightarrow> policy_row option" where
  "pick_effective override fallback =
     (if live override then override
      else if live fallback then fallback
      else (case (override, fallback) of
              (None, _) \<Rightarrow> fallback
            | (_, None) \<Rightarrow> override
            | (Some a, Some b) \<Rightarrow> if pr_version a < pr_version b then Some b else Some a))"

definition resolve_effective :: "pystr \<Rightarrow> shield_db \<Rightarrow> policy_row option" where
  "resolve_effective device_id db = pick_effective (latest_row (Some device_id) db) (latest_row None db)"

definition or_value :: "pyval \<Rightarrow> pyval \<Rightarrow> pyval" where
  "or_value a b = (if truthy a then a else b)"

text \<open>
  \<open>_reissue_default_above\<close>: it reads the newest default row, and writes its policy again under the next version
  when that row is live. Reading and writing lock the store one after the other, so they are two definitions.
\<close>

definition default_to_reissue :: "shield_db \<Rightarrow> policy_row option" where
  "default_to_reissue db =
     (case latest_row None db of
        None \<Rightarrow> None
      | Some row \<Rightarrow> if dget (u ''policy'') (pr_document row) = PNone then None else Some row)"

definition reissue ::
  "crypto \<Rightarrow> write_env \<Rightarrow> signer \<Rightarrow> pystr \<Rightarrow> pystr option \<Rightarrow> policy_row \<Rightarrow> shield_db \<Rightarrow> (policy_error + policy_row) \<times> shield_db" where
  "reissue c env s org author row db =
     (let doc = pr_document row in
      write_policy c env s org None (dget (u ''policy'') doc) (or_value (dget (u ''managed_by'') doc) (PStr []))
        (dget (u ''locked'') doc) author db)"

definition reissue_default_above ::
  "crypto \<Rightarrow> write_env \<Rightarrow> signer \<Rightarrow> pystr \<Rightarrow> pystr option \<Rightarrow> shield_db \<Rightarrow> (policy_error + policy_row option) \<times> shield_db" where
  "reissue_default_above c env s org author db =
     (case default_to_reissue db of
        None \<Rightarrow> (Inr None, db)
      | Some row \<Rightarrow> (case reissue c env s org author row db of (r, db') \<Rightarrow> (rmap Some r, db')))"

definition write_tombstone ::
  "crypto \<Rightarrow> write_env \<Rightarrow> signer \<Rightarrow> pystr \<Rightarrow> pystr \<Rightarrow> pystr option \<Rightarrow> shield_db \<Rightarrow> (policy_error + policy_row) \<times> shield_db" where
  "write_tombstone c env s org device_id author db =
     write_policy c env s org (Some device_id) PNone (PStr []) PNone author db"

text \<open>
  A release with nobody else at work. Its three parts (the tombstone, the read and the write of the default) are the
  steps that \<open>policy_change\<close> interleaves with what others do.
\<close>

definition release_device_override ::
  "crypto \<Rightarrow> write_env \<Rightarrow> write_env \<Rightarrow> signer \<Rightarrow> pystr \<Rightarrow> pystr \<Rightarrow> pystr option \<Rightarrow> shield_db
     \<Rightarrow> (policy_error + policy_row) \<times> shield_db" where
  "release_device_override c env env' s org device_id author db =
     (case write_tombstone c env s org device_id author db of
        (Inl e, db1) \<Rightarrow> (Inl e, db1)
      | (Inr tombstone, db1) \<Rightarrow>
          (case reissue_default_above c env' s org author db1 of
             (Inl e, db2) \<Rightarrow> (Inl e, db2)
           | (Inr None, db2) \<Rightarrow> (Inr tombstone, db2)
           | (Inr (Some row), db2) \<Rightarrow> (Inr row, db2)))"

section \<open>The routes\<close>

text \<open>\<open>_policy_body\<close>: the policy fields of a request body, its \<open>managed_by\<close> and its \<open>locked\<close>.\<close>

definition policy_body :: "(pykey \<times> pyval) list \<Rightarrow> pyval \<times> pyval \<times> pyval" where
  "policy_body body =
     (PDict (concat (map (\<lambda>k. case lookup k body of None \<Rightarrow> [] | Some v \<Rightarrow> [(KStr k, v)])
               [u ''mode'', u ''apps'', u ''keep_text'', u ''retention_days'', u ''notice''])),
      or_value (dget (u ''managed_by'') body) (PStr []), dget (u ''locked'') body)"

definition put_policy ::
  "crypto \<Rightarrow> write_env \<Rightarrow> signer \<Rightarrow> pystr \<Rightarrow> pystr option \<Rightarrow> (pykey \<times> pyval) list \<Rightarrow> shield_db
     \<Rightarrow> (policy_error + policy_row) \<times> shield_db" where
  "put_policy c env s org device_id body db =
     (case policy_body body of (policy, managed_by, locked) \<Rightarrow> write_policy c env s org device_id policy managed_by locked None db)"

definition delete_default_policy ::
  "crypto \<Rightarrow> write_env \<Rightarrow> signer \<Rightarrow> pystr \<Rightarrow> shield_db \<Rightarrow> (policy_error + policy_row) \<times> shield_db" where
  "delete_default_policy c env s org db = write_policy c env s org None PNone (PStr []) PNone None db"

text \<open>The answer to a device's poll; \<open>have_version\<close> that is no integer is a 400.\<close>

datatype poll_answer = BadRequest | Unchanged pyval | Changed policy_row

definition shield_policy :: "pystr \<Rightarrow> pyval \<Rightarrow> shield_db \<Rightarrow> poll_answer" where
  "shield_policy device_id have db =
     (if have \<noteq> PNone \<and> as_int have = None then BadRequest
      else (case resolve_effective device_id db of
              None \<Rightarrow> Unchanged PNone
            | Some row \<Rightarrow>
                (let version = dget (u ''version'') (pr_document row) in
                 if have \<noteq> PNone \<and> have = version then Unchanged version else Changed row)))"

definition drift :: "pystr \<Rightarrow> shield_db \<Rightarrow> bool" where
  "drift device_id db =
     (let assigned = (case pick_effective (all_latest_device_overrides db device_id) (latest_row None db) of
                        None \<Rightarrow> PNone | Some r \<Rightarrow> dget (u ''version'') (pr_document r));
          reported = (case sd_states db device_id of
                        None \<Rightarrow> PNone | Some s \<Rightarrow> (case ds_version s of None \<Rightarrow> PNone | Some v \<Rightarrow> PInt v))
      in assigned \<noteq> PNone \<and> assigned \<noteq> reported)"

end
