(* ===== verification/Managed.thy ===== *)
theory Managed
  imports Shield_Policy Key_Files "HOL-Library.AList"
begin

text \<open>
  The device's side of managed policies: \<open>integrations/shield.py\<close> (accepting, keeping and applying a signed
  policy) and \<open>integrations/shield_publish.py\<close> (polling for one, pinning the key it is signed with). A file
  is the JSON value in it, or \<open>None\<close> when it is missing or does not parse.
\<close>

datatype py_raise = AttributeError | TypeErrorRaised | OSErrorRaised

section \<open>Hexadecimal text\<close>

definition hex_value :: "nat \<Rightarrow> nat option" where
  "hex_value ch =
     (if 48 \<le> ch \<and> ch \<le> 57 then Some (ch - 48)
      else if 97 \<le> ch \<and> ch \<le> 102 then Some (ch - 87)
      else if 65 \<le> ch \<and> ch \<le> 70 then Some (ch - 55)
      else None)"

text \<open>\<open>bytes.fromhex\<close> skips ASCII white space between two bytes.\<close>

fun fromhex :: "pystr \<Rightarrow> bytes option" where
  "fromhex [] = Some []"
| "fromhex [a] = (if a \<in> {9, 10, 11, 12, 13, 32} then Some [] else None)"
| "fromhex (a # b # cs) =
     (if a \<in> {9, 10, 11, 12, 13, 32} then fromhex (b # cs)
      else case (hex_value a, hex_value b) of
             (Some x, Some y) \<Rightarrow> map_option ((#) (of_nat (16 * x + y))) (fromhex cs)
           | _ \<Rightarrow> None)"

section \<open>The stored policy\<close>

text \<open>\<open>(v or {}).get(k)\<close>: a value that is no object and counts as true has no \<open>get\<close>.\<close>

definition get_in :: "pystr \<Rightarrow> pyval \<Rightarrow> py_raise + pyval" where
  "get_in k v =
     (if \<not> truthy v then Inr PNone
      else (case v of PDict items \<Rightarrow> Inr (dget k items) | _ \<Rightarrow> Inl AttributeError))"

definition load_managed_policy :: "pyval option \<Rightarrow> py_raise + (pykey \<times> pyval) list option" where
  "load_managed_policy file =
     (case file of
        Some (PDict d) \<Rightarrow>
          rmap (\<lambda>doc. case doc of PDict _ \<Rightarrow> Some d | _ \<Rightarrow> None) (get_in (u ''document'') (dget (u ''envelope'') d))
      | _ \<Rightarrow> Inr None)"

text \<open>\<open>managed["envelope"]["document"]\<close>, of a value that \<open>load_managed_policy\<close> returned.\<close>

definition items_of :: "pyval \<Rightarrow> (pykey \<times> pyval) list" where
  "items_of v = (case v of PDict items \<Rightarrow> items | _ \<Rightarrow> [])"

definition document_of :: "(pykey \<times> pyval) list \<Rightarrow> (pykey \<times> pyval) list" where
  "document_of managed = items_of (dget (u ''document'') (items_of (dget (u ''envelope'') managed)))"

section \<open>Accepting an envelope\<close>

definition MANAGED_MODES :: "pystr list" where
  "MANAGED_MODES = [u ''observe'', u ''redact'', u ''block'']"

definition RETENTION_CHOICES :: "int list" where
  "RETENTION_CHOICES = [7, 30, 90, 365]"

definition SYNC_LEVELS :: "pystr list" where
  "SYNC_LEVELS = [u ''seal'', u ''daily'', u ''events'']"

text \<open>A field that is absent passes; otherwise its value has to.\<close>

definition given :: "pystr \<Rightarrow> (pyval \<Rightarrow> bool) \<Rightarrow> (pykey \<times> pyval) list \<Rightarrow> bool" where
  "given k ok p = (case lookup k p of None \<Rightarrow> True | Some v \<Rightarrow> ok v)"

definition one_of :: "pystr list \<Rightarrow> pyval \<Rightarrow> bool" where
  "one_of xs v \<longleftrightarrow> v \<in> PStr ` set xs"

fun values_bool :: "pyval \<Rightarrow> bool" where
  "values_bool (PDict items) = list_all (is_bool \<circ> snd) items" | "values_bool _ = False"

definition validate_managed_policy :: "pyval \<Rightarrow> bool" where
  "validate_managed_policy policy =
     (case policy of
        PDict p \<Rightarrow>
          given (u ''mode'') (one_of MANAGED_MODES) p \<and> given (u ''apps'') values_bool p
          \<and> given (u ''retention_days'') (\<lambda>v. list_ex (num_eq v) RETENTION_CHOICES) p
          \<and> given (u ''keep_text'') is_bool p \<and> given (u ''notice'') is_bool p
          \<and> given (u ''sync'') (one_of SYNC_LEVELS) p
      | _ \<Rightarrow> False)"

datatype refusal =
    MalformedEnvelope | UnknownKey | BadSignature | OtherTenant | OtherDevice | MalformedVersion
  | RollbackRefused | InvalidPolicy

definition signature_ok :: "crypto \<Rightarrow> pystr \<Rightarrow> pystr \<Rightarrow> (pykey \<times> pyval) list \<Rightarrow> bool" where
  "signature_ok c public_key sig doc =
     (case (fromhex public_key, fromhex sig, canonicalize (PDict doc)) of
        (Some raw_pub, Some raw_sig, Inr text) \<Rightarrow> length raw_pub = 32 \<and> c_ed25519_verify c raw_pub text raw_sig
      | _ \<Rightarrow> False)"

text \<open>The version a stored policy has, \<open>-1\<close> when there is none.\<close>

definition version_of :: "(pykey \<times> pyval) list option \<Rightarrow> int" where
  "version_of held =
     (case held of
        None \<Rightarrow> -1
      | Some m \<Rightarrow> (case as_int (dget (u ''version'') (document_of m)) of None \<Rightarrow> -1 | Some v \<Rightarrow> v))"

definition stored :: "pyval \<Rightarrow> pystr \<Rightarrow> pyval" where
  "stored envelope fetched_at = PDict [(KStr (u ''envelope''), envelope), (KStr (u ''fetched_at''), PStr fetched_at)]"

text \<open>
  \<open>apply_managed_envelope\<close> from the tenant check on. The result is what is reported as the error; the file
  is written last, and a failing write raises.
\<close>

definition accept_document ::
  "pystr option \<Rightarrow> pystr \<Rightarrow> pystr \<Rightarrow> bool \<Rightarrow> pyval \<Rightarrow> (pykey \<times> pyval) list \<Rightarrow> pyval option
     \<Rightarrow> (py_raise + refusal option) \<times> pyval option" where
  "accept_document tenant device_id fetched_at writes envelope doc file =
     (let doc_device = dget (u ''device_id'') doc in
      if dget (u ''tenant_slug'') doc \<noteq> (case tenant of None \<Rightarrow> PNone | Some t \<Rightarrow> PStr t) then (Inr (Some OtherTenant), file)
      else if doc_device \<noteq> PNone \<and> doc_device \<noteq> PStr device_id then (Inr (Some OtherDevice), file)
      else (case as_int (dget (u ''version'') doc) of
              None \<Rightarrow> (Inr (Some MalformedVersion), file)
            | Some v \<Rightarrow>
                (case load_managed_policy file of
                   Inl e \<Rightarrow> (Inl e, file)
                 | Inr held \<Rightarrow>
                     if v \<le> version_of held then (Inr (Some RollbackRefused), file)
                     else if dget (u ''policy'') doc \<noteq> PNone \<and> \<not> validate_managed_policy (dget (u ''policy'') doc)
                       then (Inr (Some InvalidPolicy), file)
                     else if \<not> writes then (Inl OSErrorRaised, file)
                     else (Inr None, Some (stored envelope fetched_at)))))"

definition apply_managed_envelope ::
  "crypto \<Rightarrow> pystr option \<Rightarrow> pystr \<Rightarrow> pystr option \<Rightarrow> pystr \<Rightarrow> bool \<Rightarrow> pyval \<Rightarrow> pyval option
     \<Rightarrow> (py_raise + refusal option) \<times> pyval option" where
  "apply_managed_envelope c tenant device_id public_key fetched_at writes envelope file =
     (case envelope of
        PDict e \<Rightarrow>
          (case (dget (u ''document'') e, dget (u ''signature'') e) of
             (PDict doc, PStr (s # sig)) \<Rightarrow>
               (case public_key of
                  None \<Rightarrow> (Inr (Some UnknownKey), file)
                | Some [] \<Rightarrow> (Inr (Some UnknownKey), file)
                | Some key \<Rightarrow>
                    if \<not> signature_ok c key (s # sig) doc then (Inr (Some BadSignature), file)
                    else accept_document tenant device_id fetched_at writes envelope doc file)
           | _ \<Rightarrow> (Inr (Some MalformedEnvelope), file))
      | _ \<Rightarrow> (Inr (Some MalformedEnvelope), file))"

section \<open>The pinned key\<close>

text \<open>Reading a PEM public key, and \<open>base64.b64decode(validate=True)\<close>.\<close>

record key_readers =
  kr_pem :: "pystr \<Rightarrow> bytes option"
  kr_b64 :: "pystr \<Rightarrow> bytes option"

record enrolment =
  en_device :: pystr
  en_tenant :: "pystr option"
  en_policy_key :: "(pykey \<times> pyval) list"

record publish_state =
  ps_last_poll :: rat
  ps_key_id :: pyval
  ps_public_key :: "pystr option"
  ps_key_tried :: bool
  ps_fetch_failed :: bool

definition public_key_hex :: "key_readers \<Rightarrow> (pykey \<times> pyval) list \<Rightarrow> pystr option" where
  "public_key_hex r entry =
     (let pem = dget (u ''public_key_pem'') entry; raw = dget (u ''public_key'') entry in
      if is_str pem \<and> strip (str_of pem) \<noteq> [] then map_option hex (kr_pem r (str_of pem))
      else if is_str raw \<and> strip (str_of raw) \<noteq> [] then
        (let t = strip (str_of raw) in
         case (case fromhex t of Some b \<Rightarrow> Some b | None \<Rightarrow> kr_b64 r t) of
           None \<Rightarrow> None
         | Some b \<Rightarrow> if length b = 32 then Some (hex b) else None)
      else None)"

text \<open>The first entry under the id decides; a revoked or unreadable one pins nothing.\<close>

fun pin_from :: "key_readers \<Rightarrow> pyval \<Rightarrow> pyval list \<Rightarrow> publish_state \<Rightarrow> publish_state" where
  "pin_from r key_id [] s = s"
| "pin_from r key_id (k # ks) s =
     (case k of
        PDict entry \<Rightarrow>
          if dget (u ''key_id'') entry \<noteq> key_id then pin_from r key_id ks s
          else if truthy (dget (u ''revoked'') entry) then s
          else (case public_key_hex r entry of
                  None \<Rightarrow> s
                | Some h \<Rightarrow> s\<lparr>ps_key_id := dget (u ''key_id'') entry, ps_public_key := Some h\<rparr>)
      | _ \<Rightarrow> pin_from r key_id ks s)"

definition has_text :: "pystr option \<Rightarrow> bool" where
  "has_text x \<longleftrightarrow> x \<noteq> None \<and> x \<noteq> Some []"

text \<open>\<open>fetched\<close> is the list of public keys as Coriqo answers it, \<open>None\<close> when the request fails.\<close>

definition trusted_key ::
  "key_readers \<Rightarrow> enrolment \<Rightarrow> pyval option \<Rightarrow> pyval \<Rightarrow> publish_state \<Rightarrow> (py_raise + pystr option) \<times> publish_state" where
  "trusted_key r en fetched key_id s =
     (if en_policy_key en \<noteq> [] \<and> dget (u ''key_id'') (en_policy_key en) = key_id
        then (Inr (public_key_hex r (en_policy_key en)), s)
      else if ps_key_id s = key_id \<and> has_text (ps_public_key s) then (Inr (ps_public_key s), s)
      else if ps_key_tried s then (Inr None, s)
      else (case fetched of
              None \<Rightarrow> (Inr None, s\<lparr>ps_key_tried := False, ps_fetch_failed := True\<rparr>)
            | Some data \<Rightarrow>
                (let s1 = s\<lparr>ps_key_tried := True\<rparr>;
                     keys = (case data of PDict d \<Rightarrow> dget (u ''keys'') d | _ \<Rightarrow> data)
                 in case (if truthy keys then py_iter keys else Some []) of
                      None \<Rightarrow> (Inl TypeErrorRaised, s1)
                    | Some ks \<Rightarrow>
                        (let s2 = pin_from r key_id ks s1
                         in (Inr (if ps_key_id s2 = key_id then ps_public_key s2 else None), s2)))))"

section \<open>Polling\<close>

definition POLICY_POLL_S :: rat where "POLICY_POLL_S = 600"

datatype poll_error = Unreachable | KeysUnreachable | RefusedFor refusal

record device =
  dv_publish :: publish_state
  dv_error :: "poll_error option"
  dv_file :: "pyval option"

definition policy_due :: "rat \<Rightarrow> publish_state \<Rightarrow> bool" where
  "policy_due now s \<longleftrightarrow> ps_last_poll s = 0 \<or> now - ps_last_poll s \<ge> POLICY_POLL_S"

definition have_version :: "pyval option \<Rightarrow> py_raise + pyval" where
  "have_version file =
     rmap (\<lambda>m. case m of
                 None \<Rightarrow> PNone
               | Some d \<Rightarrow> (case as_int (dget (u ''version'') (document_of d)) of None \<Rightarrow> PNone | Some v \<Rightarrow> PInt v))
       (load_managed_policy file)"

text \<open>What is done with an answer that says the policy changed.\<close>

definition take_envelope ::
  "crypto \<Rightarrow> key_readers \<Rightarrow> enrolment \<Rightarrow> pyval option \<Rightarrow> pystr \<Rightarrow> bool \<Rightarrow> rat \<Rightarrow> pyval \<Rightarrow> device
     \<Rightarrow> (py_raise + unit) \<times> device" where
  "take_envelope c r en fetched fetched_at writes now envelope d =
     (case rbind (get_in (u ''document'') envelope) (get_in (u ''key_id'')) of
        Inl e \<Rightarrow> (Inl e, d)
      | Inr key_id \<Rightarrow>
          (case (if truthy key_id then trusted_key r en fetched key_id ((dv_publish d)\<lparr>ps_fetch_failed := False\<rparr>)
                 else (Inr None, (dv_publish d)\<lparr>ps_fetch_failed := False\<rparr>)) of
             (Inl e, s) \<Rightarrow> (Inl e, d\<lparr>dv_publish := s\<rparr>)
           | (Inr key, s) \<Rightarrow>
               if key = None \<and> ps_fetch_failed s then
                 (Inr (), d\<lparr>dv_publish := s\<lparr>ps_last_poll := now - POLICY_POLL_S + 60\<rparr>, dv_error := Some KeysUnreachable\<rparr>)
               else
                 (case apply_managed_envelope c (en_tenant en) (en_device en) key fetched_at writes envelope (dv_file d) of
                    (Inl e, file) \<Rightarrow> (Inl e, d\<lparr>dv_publish := s, dv_file := file\<rparr>)
                  | (Inr res, file) \<Rightarrow>
                      (Inr (), d\<lparr>dv_publish := s, dv_file := file, dv_error := map_option RefusedFor res\<rparr>))))"

text \<open>
  \<open>poll_policy\<close>. \<open>ask\<close> maps \<open>have_version\<close> to the answer, \<open>None\<close> when the request fails.
\<close>

definition poll_policy ::
  "crypto \<Rightarrow> key_readers \<Rightarrow> enrolment option \<Rightarrow> (pyval \<Rightarrow> pyval option) \<Rightarrow> pyval option \<Rightarrow> pystr \<Rightarrow> bool \<Rightarrow> rat \<Rightarrow> bool
     \<Rightarrow> device \<Rightarrow> (py_raise + unit) \<times> device" where
  "poll_policy c r enrolled ask fetched fetched_at writes now force d =
     (if \<not> force \<and> \<not> policy_due now (dv_publish d) then (Inr (), d)
      else (case enrolled of
              None \<Rightarrow> (Inr (), d)
            | Some en \<Rightarrow>
                (let d1 = d\<lparr>dv_publish := (dv_publish d)\<lparr>ps_last_poll := now\<rparr>\<rparr> in
                 case have_version (dv_file d1) of
                   Inl e \<Rightarrow> (Inl e, d1)
                 | Inr have \<Rightarrow>
                     (case ask have of
                        None \<Rightarrow> (Inr (), d1\<lparr>dv_error := Some Unreachable\<rparr>)
                      | Some (PDict resp) \<Rightarrow>
                          if \<not> truthy (dget (u ''changed'') resp) then (Inr (), d1\<lparr>dv_error := None\<rparr>)
                          else take_envelope c r en fetched fetched_at writes now (dget (u ''envelope'') resp) d1
                      | Some _ \<Rightarrow> (Inl AttributeError, d1)))))"

section \<open>Applying the stored policy\<close>

text \<open>\<open>{**a, **b}\<close>: \<open>b\<close> wins, a key keeps the place it has.\<close>

definition dict_merge :: "(pykey \<times> pyval) list \<Rightarrow> (pykey \<times> pyval) list \<Rightarrow> (pykey \<times> pyval) list" where
  "dict_merge a b = foldl (\<lambda>d (k, v). AList.update k v d) a b"

fun put_locked :: "(pykey \<times> pyval) list \<Rightarrow> pyval list \<Rightarrow> (pykey \<times> pyval) list \<Rightarrow> py_raise + (pykey \<times> pyval) list" where
  "put_locked policy [] out = Inr out"
| "put_locked policy (key # keys) out =
     (case (key, dget (u ''apps'') policy) of
        (PStr k, PDict apps) \<Rightarrow>
          if k = u ''apps'' then
            (case (case lookup (u ''apps'') out of None \<Rightarrow> PDict [] | Some v \<Rightarrow> v) of
               PDict old \<Rightarrow> put_locked policy keys (AList.update (KStr k) (PDict (dict_merge old apps)) out)
             | _ \<Rightarrow> Inl TypeErrorRaised)
          else (case lookup k policy of
                  None \<Rightarrow> put_locked policy keys out
                | Some v \<Rightarrow> put_locked policy keys (AList.update (KStr k) v out))
      | (PStr k, _) \<Rightarrow>
          (case lookup k policy of
             None \<Rightarrow> put_locked policy keys out
           | Some v \<Rightarrow> put_locked policy keys (AList.update (KStr k) v out))
      | _ \<Rightarrow> if hashable key then put_locked policy keys out else Inl TypeErrorRaised)"

text \<open>
  \<open>load_policy\<close>, on the local policy that \<open>read_policy\<close> returned. A stored policy is \<open>null\<close> or an object,
  since \<open>apply_managed_envelope\<close> stores no other.
\<close>

definition load_policy :: "(pykey \<times> pyval) list \<Rightarrow> pyval option \<Rightarrow> py_raise + (pykey \<times> pyval) list" where
  "load_policy local_policy managed_file =
     (let loc = AList.update (KStr (u ''sync'')) (PStr (u ''seal'')) local_policy in
      case load_managed_policy managed_file of
        Inl e \<Rightarrow> Inl e
      | Inr None \<Rightarrow> Inr loc
      | Inr (Some m) \<Rightarrow>
          (let doc = document_of m; locked = dget (u ''locked'') doc in
           case dget (u ''policy'') doc of
             PDict policy \<Rightarrow>
               if \<not> truthy locked then Inr loc
               else (case py_iter locked of None \<Rightarrow> Inl TypeErrorRaised | Some keys \<Rightarrow> put_locked policy keys loc)
           | _ \<Rightarrow> Inr loc))"

definition managed_summary :: "(pykey \<times> pyval) list option \<Rightarrow> (pyval \<times> pyval \<times> pyval \<times> pyval) option" where
  "managed_summary managed =
     (case managed of
        None \<Rightarrow> None
      | Some m \<Rightarrow>
          (let doc = document_of m; active = dget (u ''policy'') doc \<noteq> PNone in
           Some (if active then dget (u ''managed_by'') doc else PNone, dget (u ''version'') doc,
                 if active then or_value (dget (u ''locked'') doc) (PSeq []) else PSeq [], dget (u ''fetched_at'') m)))"

end
