(* ===== verification/Shield_Policy_Props.thy ===== *)
theory Shield_Policy_Props
  imports Shield_Policy Canonical_Doc
begin

text \<open>
  The server side of managed policies: versions only grow, every row is signed and would be written
  again, and what a device is served never falls behind what it was served before.
\<close>

section \<open>A source of versioned documents\<close>

text \<open>\<open>behind h s\<close>: what a reader holds is what is served, or older than it.\<close>

fun behind :: "(int \<times> 'd) option \<Rightarrow> (int \<times> 'd) option \<Rightarrow> bool" where
  "behind None x = True"
| "behind (Some (v, d)) None = False"
| "behind (Some (v, d)) (Some (v', d')) = (v = v' \<and> d = d' \<or> v < v')"

lemma behind_refl [simp]: "behind x x"
  by (cases x) auto

lemma behind_trans: "behind x y \<Longrightarrow> behind y z \<Longrightarrow> behind x z"
  by (cases x; cases y; cases z) auto

text \<open>
  \<open>within s h\<close>: a reader that holds \<open>h\<close> has not run ahead of the source for good. While \<open>s\<close> is unsettled, less than \<open>h\<close>
  may be served for a time.
\<close>

locale document_source =
  fixes serve :: "'s \<Rightarrow> (int \<times> 'd) option"
    and change :: "'s \<Rightarrow> 's \<Rightarrow> bool"
    and sound :: "'s \<Rightarrow> bool"
    and within_reach :: "'s \<Rightarrow> (int \<times> 'd) option \<Rightarrow> bool"
    and unsettled :: "'s \<Rightarrow> bool"
  assumes keeps_sound: "sound s \<Longrightarrow> change s s' \<Longrightarrow> sound s'"
    and serves_reach: "sound s \<Longrightarrow> within_reach s (serve s)"
    and keeps_reach: "sound s \<Longrightarrow> change s s' \<Longrightarrow> within_reach s h \<Longrightarrow> within_reach s' h"
    and settled: "sound s \<Longrightarrow> within_reach s h \<Longrightarrow> \<not> unsettled s \<Longrightarrow> behind h (serve s)"
begin

lemma run_sound: "change\<^sup>*\<^sup>* s s' \<Longrightarrow> sound s \<Longrightarrow> sound s'"
  by (induction rule: rtranclp_induct) (auto dest: keeps_sound)

lemma run_reach: "change\<^sup>*\<^sup>* s s' \<Longrightarrow> sound s \<Longrightarrow> within_reach s h \<Longrightarrow> within_reach s' h"
  by (induction rule: rtranclp_induct) (auto dest: keeps_reach run_sound)

lemma run_moves_on: "change\<^sup>*\<^sup>* s s' \<Longrightarrow> sound s \<Longrightarrow> \<not> unsettled s' \<Longrightarrow> behind (serve s) (serve s')"
  using settled [OF run_sound run_reach] serves_reach by blast

end

section \<open>Rows\<close>

lemma foldl_max_ge: "(a :: int) \<le> foldl max a xs \<and> (\<forall>x\<in>set xs. x \<le> foldl max a xs)"
proof (induction xs arbitrary: a)
  case (Cons x xs)
  from Cons.IH [of "max a x"] show ?case by auto
qed simp

lemma max_version_ge: "r \<in> set rs \<Longrightarrow> pr_version r \<le> max_version rs"
  using foldl_max_ge [of "pr_version (hd rs)" "map pr_version (tl rs)"] by (cases rs) auto

lemma next_version_fresh: "r \<in> set (sd_policies db) \<Longrightarrow> pr_version r < next_version db"
  using max_version_ge by (fastforce simp: next_version_def)

lemma foldl_pick_in: "foldl (\<lambda>a b. if pr_version a < pr_version b then b else a) r rs \<in> set (r # rs)"
proof (induction rs arbitrary: r)
  case (Cons x rs)
  from Cons.IH [of "if pr_version r < pr_version x then x else r"] show ?case by (auto split: if_splits)
qed simp

lemma newest_in: "newest rs = Some r \<Longrightarrow> r \<in> set rs"
  using foldl_pick_in by (cases rs) auto

lemma newest_append:
  assumes "\<forall>x\<in>set rs. pr_version x < pr_version r"
  shows "newest (rs @ [r]) = Some r"
proof (cases rs)
  case (Cons x xs)
  have "foldl (\<lambda>a b. if pr_version a < pr_version b then b else a) x xs \<in> set rs"
    using foldl_pick_in [of x xs] Cons by (simp only:)
  then have "pr_version (foldl (\<lambda>a b. if pr_version a < pr_version b then b else a) x xs) < pr_version r"
    using assms by blast
  then show ?thesis using Cons by simp
qed simp

lemma latest_row_in: "latest_row k db = Some r \<Longrightarrow> r \<in> set (sd_policies db) \<and> pr_device r = k"
  unfolding latest_row_def by (drule newest_in) auto

lemma latest_row_append:
  assumes "sd_policies db' = sd_policies db @ [row]" "\<forall>x\<in>set (sd_policies db). pr_version x < pr_version row"
  shows "latest_row k db' = (if pr_device row = k then Some row else latest_row k db)"
  using assms newest_append [of "filter (\<lambda>r. pr_device r = k) (sd_policies db)" row]
  by (auto simp: latest_row_def)

lemma resolve_in: "resolve_effective d db = Some r \<Longrightarrow> r \<in> set (sd_policies db) \<and> pr_device r \<in> {None, Some d}"
  by (auto simp: resolve_effective_def pick_effective_def dest!: latest_row_in split: if_splits option.splits)

section \<open>Writing a row\<close>

text \<open>What \<open>write_policy\<close> normalises to, it accepts again unchanged.\<close>

lemma is_bool_iff: "is_bool v \<longleftrightarrow> (\<exists>b. v = PBool b)"
  by (cases v) auto

lemma dict_of_bools_dict: "dict_of_bools v \<Longrightarrow> \<exists>items. v = PDict items"
  by (cases v) auto

lemma validate_policy_fields:
  assumes "validate_policy policy = Inr p"
  obtains mode apps keep days notice where
    "p = [(KStr (u ''mode''), PStr mode), (KStr (u ''apps''), PDict apps), (KStr (u ''keep_text''), PBool keep),
          (KStr (u ''retention_days''), days), (KStr (u ''notice''), PBool notice)]"
    "mode \<in> set MODES" "hashable days" "list_ex (num_eq days) RETENTION_DAYS" "dict_of_bools (PDict apps)"
proof -
  obtain q where q: "policy = PDict q"
    using assms by (auto simp: validate_policy_def split: pyval.splits)
  have ok: "is_bool (dget (u ''keep_text'') q)" "is_bool (dget (u ''notice'') q)" "dict_of_bools (dget (u ''apps'') q)"
    "dget (u ''mode'') q \<in> PStr ` set MODES"
    using assms unfolding q validate_policy_def by (auto simp: Let_def split: if_splits)
  then obtain keep notice apps mode where "dget (u ''keep_text'') q = PBool keep" "dget (u ''notice'') q = PBool notice"
    "dget (u ''apps'') q = PDict apps" "dget (u ''mode'') q = PStr mode" "mode \<in> set MODES"
    by (auto simp: is_bool_iff dest: dict_of_bools_dict)
  with assms ok show thesis unfolding q validate_policy_def
    by (intro that [of mode apps keep "dget (u ''retention_days'') q" notice]) (auto simp: Let_def split: if_splits)
qed

lemma validate_policy_again:
  assumes "validate_policy policy = Inr p"
  shows "validate_policy (PDict p) = Inr p"
proof -
  obtain mode apps keep days notice where
    p: "p = [(KStr (u ''mode''), PStr mode), (KStr (u ''apps''), PDict apps), (KStr (u ''keep_text''), PBool keep),
          (KStr (u ''retention_days''), days), (KStr (u ''notice''), PBool notice)]"
    and ok: "mode \<in> set MODES" "hashable days" "list_ex (num_eq days) RETENTION_DAYS" "dict_of_bools (PDict apps)"
    using validate_policy_fields [OF assms] by blast
  have "dget (u ''mode'') p = PStr mode" "dget (u ''retention_days'') p = days" "dget (u ''keep_text'') p = PBool keep"
    "dget (u ''notice'') p = PBool notice" "dget (u ''apps'') p = PDict apps"
    unfolding p by (simp_all add: u_def)
  then show ?thesis unfolding p [symmetric] validate_policy_def using ok p by (simp add: Let_def)
qed

lemma validate_locked_again: "set ks \<subseteq> set LOCKABLE_KEYS \<Longrightarrow> validate_locked (PSeq (map PStr ks)) = Inr ks"
proof -
  assume ks: "set ks \<subseteq> set LOCKABLE_KEYS"
  then have "filter (\<lambda>k. k \<notin> set LOCKABLE_KEYS) ks = []" by (auto simp: filter_empty_conv)
  then show ?thesis by (simp add: validate_locked_def list_all_iff comp_def Let_def)
qed

lemma validate_locked_set: "validate_locked v = Inr ks \<Longrightarrow> set ks \<subseteq> set LOCKABLE_KEYS"
  by (auto simp: validate_locked_def filter_empty_conv Let_def split: pyval.splits if_splits)

text \<open>The row that a document belongs to: built, signed and valid.\<close>

definition env_ok :: "write_env \<Rightarrow> bool" where
  "env_ok env \<longleftrightarrow> clean (we_policy_id env) \<and> clean (we_issued env)"

definition signed_row :: "crypto \<Rightarrow> signer \<Rightarrow> pystr \<Rightarrow> policy_row \<Rightarrow> bool" where
  "signed_row c s org r \<longleftrightarrow> (\<exists>env by_whom policy locked.
     pr_document r = build_document env s org (pr_device r) by_whom policy locked (pr_version r)
     \<and> sign_document c s (pr_document r) = Inr (pr_signature r)
     \<and> (\<forall>p. policy = Some p \<longrightarrow> validate_policy (PDict p) = Inr p \<and> set locked \<subseteq> set LOCKABLE_KEYS))"

definition policies_ok :: "crypto \<Rightarrow> signer \<Rightarrow> pystr \<Rightarrow> shield_db \<Rightarrow> bool" where
  "policies_ok c s org db \<longleftrightarrow> (\<forall>r\<in>set (sd_policies db). signed_row c s org r \<and> 0 < pr_version r) \<and> sorted_wrt (<) (map pr_version (sd_policies db))"

lemma document_fields:
  "dget (u ''version'') (build_document env s org dev by_whom policy locked v) = PInt v"
  "dget (u ''tenant_slug'') (build_document env s org dev by_whom policy locked v) = PStr org"
  "dget (u ''device_id'') (build_document env s org dev by_whom policy locked v) = (case dev of None \<Rightarrow> PNone | Some d \<Rightarrow> PStr d)"
  "dget (u ''key_id'') (build_document env s org dev by_whom policy locked v) = PStr (signer_key_id s)"
  "dget (u ''managed_by'') (build_document env s org dev by_whom policy locked v) = by_whom"
  "dget (u ''policy'') (build_document env s org dev by_whom policy locked v) = (case policy of None \<Rightarrow> PNone | Some p \<Rightarrow> PDict p)"
  "dget (u ''locked'') (build_document env s org dev by_whom policy locked v) = PSeq (if policy = None then [] else map PStr locked)"
  by (simp_all add: build_document_def u_def)

lemma write_policy_cases:
  assumes "write_policy c env s org dev policy by_whom locked author db = (res, db')"
  obtains (failed) e where "res = Inl e" "db' = db"
  | (written) row normalized keys where "res = Inr row" "sd_policies db' = sd_policies db @ [row]"
      "pr_device row = dev" "pr_version row = next_version db"
      "pr_document row = build_document env s org dev by_whom normalized keys (next_version db)"
      "sign_document c s (pr_document row) = Inr (pr_signature row)"
      "normalized = None \<longleftrightarrow> policy = PNone"
      "\<And>p. normalized = Some p \<Longrightarrow> validate_policy (PDict p) = Inr p \<and> set keys \<subseteq> set LOCKABLE_KEYS"
proof -
  define norm where "norm = (if policy = PNone then Inr None else rmap Some (validate_policy policy))"
  show thesis
  proof (cases norm)
    case (Inl e)
    then show thesis using assms by (intro failed [of e]) (simp_all add: write_policy_def norm_def)
  next
    case (Inr normalized)
    define ks where "ks = (if normalized = None then Inr [] else validate_locked locked)"
    have none: "normalized = None \<longleftrightarrow> policy = PNone"
      using Inr by (auto simp: norm_def rmap_Inr_iff split: if_splits)
    show thesis
    proof (cases ks)
      case (Inl e)
      then show thesis using assms Inr by (intro failed [of e]) (simp_all add: write_policy_def norm_def ks_def)
    next
      case keys: (Inr keys)
      let ?doc = "build_document env s org dev by_whom normalized keys (next_version db)"
      have valid: "validate_policy (PDict p) = Inr p \<and> set keys \<subseteq> set LOCKABLE_KEYS" if "normalized = Some p" for p
        using that Inr keys validate_policy_again validate_locked_set
        by (auto simp: norm_def ks_def rmap_Inr_iff split: if_splits)
      show thesis
      proof (cases "sign_document c s ?doc")
        case (Inl e)
        then show thesis using assms Inr keys
          by (intro failed [of "StoreRaised (SigningFailed e)"]) (simp_all add: write_policy_def norm_def ks_def write_policy_locked_def document_fields Let_def)
      next
        case sig: (Inr sig)
        have "next_version db \<notin> pr_version ` set (sd_policies db)" using next_version_fresh by fastforce
        then show thesis using assms Inr keys sig none valid
          by (intro written [of "\<lparr>pr_id = sd_last_id db + 1, pr_device = dev, pr_version = next_version db,
              pr_document = ?doc, pr_signature = sig, pr_created = we_now env, pr_author = author\<rparr>" normalized keys])
            (auto simp: write_policy_def norm_def ks_def write_policy_locked_def insert_policy_def document_fields Let_def)
      qed
    qed
  qed
qed

lemma live_row: "live (Some r) \<longleftrightarrow> dget (u ''policy'') (pr_document r) \<noteq> PNone"
  by (simp add: live_def)

lemma write_keeps_ok:
  assumes "policies_ok c s org db" "write_policy c env s org dev policy by_whom locked author db = (res, db')"
  shows "policies_ok c s org db'"
  using assms(2)
proof (cases rule: write_policy_cases)
  case failed
  then show ?thesis using assms(1) by simp
next
  case (written row normalized keys)
  have "signed_row c s org row"
    unfolding signed_row_def using written by metis
  moreover have "0 < pr_version row"
  proof (cases "sd_policies db")
    case (Cons x xs)
    then have "0 < pr_version x" "pr_version x < next_version db"
      using assms(1) next_version_fresh [of x db] by (auto simp: policies_ok_def)
    then show ?thesis using written(4) by simp
  qed (use written(4) in \<open>simp add: next_version_def\<close>)
  moreover have "sorted_wrt (<) (map pr_version (sd_policies db @ [row]))"
    using assms(1) written(4) next_version_fresh [of _ db] by (auto simp: policies_ok_def sorted_wrt_append)
  ultimately show ?thesis using assms(1) written(2) by (simp add: policies_ok_def)
qed

section \<open>Issuing the default again\<close>

lemma sign_document_succeeds: "(\<exists>sig. sign_document c s doc = Inr sig) \<longleftrightarrow> jsonable (PDict doc)"
  using serialize_succeeds_aux [of "PDict doc"]
  by (auto simp: sign_document_def canonicalize_def canonical_dumps_def rmap_Inr_iff simp del: serialize.simps jsonable.simps)

lemma document_jsonable:
  "jsonable (PDict (build_document env s org dev by_whom policy locked v)) \<longleftrightarrow>
     env_ok env \<and> clean org \<and> (\<forall>d. dev = Some d \<longrightarrow> clean d) \<and> clean (signer_key_id s) \<and> jsonable by_whom
     \<and> (\<forall>p. policy = Some p \<longrightarrow> jsonable (PDict p) \<and> list_all clean locked)"
proof -
  have "clean (u k)" if "list_all (\<lambda>ch. \<not> surrogate (of_char ch)) k" for k
    using that by (auto simp: clean_def u_def list_all_iff)
  then have keys: "clean (u ''policy_id'')" "clean (u ''version'')" "clean (u ''tenant_slug'')" "clean (u ''device_id'')"
    "clean (u ''issued_at'')" "clean (u ''key_id'')" "clean (u ''managed_by'')" "clean (u ''policy'')" "clean (u ''locked'')"
    "clean (u ''pol_'')"
    by (simp_all add: surrogate_def)
  moreover have "clean (xs @ ys) \<longleftrightarrow> clean xs \<and> clean ys" for xs ys by (simp add: clean_def)
  ultimately show ?thesis
    unfolding build_document_def env_ok_def
    by (cases dev; cases policy) (auto simp: list_all_iff)
qed

text \<open>A live default of the table can always be issued again: it is valid, and it could be signed before.\<close>

lemma reissue_succeeds:
  assumes "policies_ok c s org db" "env_ok env" "row \<in> set (sd_policies db)" "pr_device row = None" "live (Some row)"
  shows "\<exists>row' db'. reissue c env s org author row db = (Inr row', db')"
proof -
  have "signed_row c s org row" using assms(1,3) by (auto simp: policies_ok_def)
  then obtain env0 by_whom pol locked where
    doc: "pr_document row = build_document env0 s org (pr_device row) by_whom pol locked (pr_version row)"
    and sig: "sign_document c s (pr_document row) = Inr (pr_signature row)"
    and valid: "\<And>p. pol = Some p \<Longrightarrow> validate_policy (PDict p) = Inr p \<and> set locked \<subseteq> set LOCKABLE_KEYS"
    unfolding signed_row_def by blast
  obtain p where p: "pol = Some p" using assms(5) unfolding live_row doc document_fields by (cases pol) auto
  have ok: "jsonable (PDict (pr_document row))" using sig sign_document_succeeds by blast
  let ?who = "or_value by_whom (PStr [])"
  have who: "jsonable ?who" using ok unfolding doc document_jsonable by (simp add: or_value_def clean_def)
  let ?doc = "build_document env s org None ?who (Some p) locked (next_version db)"
  have "jsonable (PDict ?doc)" using ok who assms(2) p unfolding doc document_jsonable by auto
  then obtain sig' where sig': "sign_document c s ?doc = Inr sig'" using sign_document_succeeds by blast
  have fresh: "next_version db \<notin> pr_version ` set (sd_policies db)" using next_version_fresh by fastforce
  have "\<exists>row' db'. write_policy c env s org None (PDict p) ?who (PSeq (map PStr locked)) author db = (Inr row', db')"
    using valid [OF p] validate_locked_again [of locked] sig' fresh
    by (simp add: write_policy_def write_policy_locked_def insert_policy_def document_fields Let_def rmap_def)
  then show ?thesis using p by (simp add: reissue_def doc document_fields)
qed

section \<open>What administrators and devices do to the store\<close>

text \<open>
  The server: its store, and the releases that have begun and are not through, each with its device and, once it is
  read, the default row to be issued again. A release that a crash or a failing write cuts off stays in the list for
  good.
\<close>

record policy_server =
  sv_db :: shield_db
  sv_releases :: "(pystr \<times> policy_row option) list"

definition releasing :: "policy_server \<Rightarrow> pystr set" where
  "releasing w = fst ` set (sv_releases w)"

definition empty_server :: policy_server where
  "empty_server = \<lparr>sv_db = empty_shield, sv_releases = []\<rparr>"

text \<open>
  What can happen between any two steps: a put, a deletion, a step of some release, and whatever leaves the table of
  policies alone. A write that fails changes nothing.
\<close>

inductive policy_change :: "crypto \<Rightarrow> signer \<Rightarrow> pystr \<Rightarrow> policy_server \<Rightarrow> policy_server \<Rightarrow> bool" for c s org where
  puts: "policy_change c s org w (w\<lparr>sv_db := db'\<rparr>)"
    if "env_ok env" "put_policy c env s org dev body (sv_db w) = (res, db')"
| clears: "policy_change c s org w (w\<lparr>sv_db := db'\<rparr>)"
    if "env_ok env" "delete_default_policy c env s org (sv_db w) = (res, db')"
| tombstones: "policy_change c s org w \<lparr>sv_db = db', sv_releases = (dev, None) # sv_releases w\<rparr>"
    if "env_ok env" "write_tombstone c env s org dev author (sv_db w) = (Inr row, db')"
| reads: "policy_change c s org w (w\<lparr>sv_releases := xs @ (dev, Some row) # ys\<rparr>)"
    if "sv_releases w = xs @ (dev, None) # ys" "default_to_reissue (sv_db w) = Some row"
| needs_none: "policy_change c s org w (w\<lparr>sv_releases := xs @ ys\<rparr>)"
    if "sv_releases w = xs @ (dev, None) # ys" "default_to_reissue (sv_db w) = None"
| reissues: "policy_change c s org w \<lparr>sv_db = db', sv_releases = xs @ ys\<rparr>"
    if "sv_releases w = xs @ (dev, Some row) # ys" "env_ok env" "reissue c env s org author row (sv_db w) = (Inr row', db')"
| elsewhere: "policy_change c s org w (w\<lparr>sv_db := db'\<rparr>)"
    if "sd_policies db' = sd_policies (sv_db w)" "sd_last_id db' = sd_last_id (sv_db w)"

definition serves :: "pystr \<Rightarrow> shield_db \<Rightarrow> (int \<times> policy_row) option" where
  "serves d db = map_option (\<lambda>r. (pr_version r, r)) (resolve_effective d db)"

definition server_ok :: "crypto \<Rightarrow> signer \<Rightarrow> pystr \<Rightarrow> policy_server \<Rightarrow> bool" where
  "server_ok c s org w \<longleftrightarrow> policies_ok c s org (sv_db w)
     \<and> (\<forall>dev row. (dev, Some row) \<in> set (sv_releases w)
          \<longrightarrow> row \<in> set (sd_policies (sv_db w)) \<and> pr_device row = None \<and> live (Some row))"

lemma empty_policies_ok: "policies_ok c s org empty_shield"
  by (simp add: policies_ok_def empty_shield_def)

lemma empty_server_ok: "server_ok c s org empty_server"
  by (simp add: server_ok_def empty_server_def empty_policies_ok)

lemma resolve_same: "sd_policies db' = sd_policies db \<Longrightarrow> resolve_effective d db' = resolve_effective d db"
  by (simp add: resolve_effective_def latest_row_def)

lemma default_to_reissue_Some:
  "default_to_reissue db = Some row \<longleftrightarrow> latest_row None db = Some row \<and> live (Some row)"
  by (auto simp: default_to_reissue_def live_row split: option.splits if_splits)

lemma default_to_reissue_None: "default_to_reissue db = None \<longleftrightarrow> \<not> live (latest_row None db)"
  by (auto simp: default_to_reissue_def live_def split: option.splits if_splits)

text \<open>
  The gap in a release of \<open>d\<close>: its override is gone, and the default that is served instead is not issued again yet.
\<close>

definition in_gap :: "pystr \<Rightarrow> policy_server \<Rightarrow> bool" where
  "in_gap d w \<longleftrightarrow> d \<in> releasing w \<and> \<not> live (latest_row (Some d) (sv_db w)) \<and> live (latest_row None (sv_db w))"

definition held_row :: "shield_db \<Rightarrow> (int \<times> policy_row) option \<Rightarrow> bool" where
  "held_row db h \<longleftrightarrow> (case h of None \<Rightarrow> True | Some (v, r) \<Rightarrow> r \<in> set (sd_policies db) \<and> v = pr_version r)"

definition follows :: "pystr \<Rightarrow> policy_server \<Rightarrow> (int \<times> policy_row) option \<Rightarrow> bool" where
  "follows d w h \<longleftrightarrow> held_row (sv_db w) h \<and> (behind h (serves d (sv_db w)) \<or> in_gap d w)"

lemma follows_serves: "follows d w (serves d (sv_db w))"
  using resolve_in by (auto simp: follows_def held_row_def serves_def split: option.splits)

text \<open>A new row on top: what is served stays, becomes the new row, or falls into the gap of a release.\<close>

lemma follows_append:
  assumes "sd_policies (sv_db w') = sd_policies (sv_db w) @ [row]"
    and "\<forall>x\<in>set (sd_policies (sv_db w)). pr_version x < pr_version row"
    and "pr_device row = Some d \<Longrightarrow> \<not> live (Some row) \<Longrightarrow> d \<in> releasing w'"
    and "d \<in> releasing w \<Longrightarrow> d \<in> releasing w' \<or> pr_device row = None \<and> live (Some row)"
    and "follows d w h"
  shows "follows d w' h"
proof -
  note latest = latest_row_append [OF assms(1,2)]
  have held: "held_row (sv_db w') h" using assms(1,5) by (auto simp: follows_def held_row_def split: option.splits)
  have top: "behind h (serves d (sv_db w'))" if "resolve_effective d (sv_db w') = Some row"
    using that assms(2,5) by (cases h) (auto simp: serves_def follows_def held_row_def)
  have older: "pr_version a < pr_version row" if "latest_row k (sv_db w) = Some a" for a k
    using latest_row_in [OF that] assms(2) by blast
  have stays: "behind h (serves d (sv_db w')) \<or> in_gap d w'"
    if "resolve_effective d (sv_db w') = resolve_effective d (sv_db w)" "in_gap d w \<Longrightarrow> in_gap d w'"
    using that assms(5) by (auto simp: follows_def serves_def)
  have "behind h (serves d (sv_db w')) \<or> in_gap d w'"
  proof (cases "pr_device row = Some d")
    case True
    then show ?thesis
    proof (cases "live (Some row) \<or> \<not> live (latest_row None (sv_db w))")
      case True
      then have "resolve_effective d (sv_db w') = Some row"
        using \<open>pr_device row = Some d\<close> older [of None]
        by (auto simp: resolve_effective_def pick_effective_def latest live_def split: option.splits)
      then show ?thesis using top by simp
    next
      case False
      then have "in_gap d w'" using \<open>pr_device row = Some d\<close> assms(3) latest by (simp add: in_gap_def)
      then show ?thesis by simp
    qed
  next
    case dev: False
    show ?thesis
    proof (cases "pr_device row = None \<and> \<not> live (latest_row (Some d) (sv_db w))")
      case True
      then have "resolve_effective d (sv_db w') = Some row"
        using older [of "Some d"] by (auto simp: resolve_effective_def pick_effective_def latest live_def split: option.splits)
      then show ?thesis using top by simp
    next
      case False
      then have "resolve_effective d (sv_db w') = resolve_effective d (sv_db w)"
        using dev by (auto simp: resolve_effective_def pick_effective_def latest)
      moreover have "in_gap d w'" if "in_gap d w"
        using that False dev assms(4) latest by (auto simp: in_gap_def)
      ultimately show ?thesis using stays by blast
    qed
  qed
  then show ?thesis using held by (simp add: follows_def)
qed

lemma follows_same:
  assumes "sd_policies (sv_db w') = sd_policies (sv_db w)" "in_gap d w \<Longrightarrow> d \<in> releasing w'" "follows d w h"
  shows "follows d w' h"
  using assms resolve_same [OF assms(1), of d]
  by (auto simp: follows_def held_row_def serves_def in_gap_def latest_row_def split: option.splits)

text \<open>Every write that succeeds puts one row on top, live unless it says \<open>None\<close>.\<close>

lemma written_row:
  assumes "write_policy c env s org dev policy by_whom locked author db = (Inr row, db')"
  shows "sd_policies db' = sd_policies db @ [row] \<and> pr_device row = dev \<and> (live (Some row) \<longleftrightarrow> policy \<noteq> PNone)
    \<and> (\<forall>x\<in>set (sd_policies db). pr_version x < pr_version row)"
  using assms
proof (cases rule: write_policy_cases)
  case (written row' normalized keys)
  then show ?thesis using next_version_fresh [of _ db] by (auto simp: live_row document_fields split: option.splits)
qed simp

lemma write_same_or_row:
  assumes "write_policy c env s org dev policy by_whom locked author db = (res, db')"
  shows "db' = db \<or> (\<exists>row. res = Inr row)"
  using assms by (rule write_policy_cases) auto

lemma releasing_simps [simp]:
  "releasing (w\<lparr>sv_db := db\<rparr>) = releasing w" "releasing \<lparr>sv_db = db, sv_releases = r # rs\<rparr> = insert (fst r) (fst ` set rs)"
  "releasing \<lparr>sv_db = db, sv_releases = xs @ ys\<rparr> = fst ` set xs \<union> fst ` set ys"
  "releasing (w\<lparr>sv_releases := xs @ ys\<rparr>) = fst ` set xs \<union> fst ` set ys"
  by (simp_all add: releasing_def image_Un)

lemma write_follows:
  assumes "write_policy c env s org dev policy by_whom locked author (sv_db w) = (res, db')" "policy \<noteq> PNone \<or> dev = None"
    and "follows d w h"
  shows "follows d (w\<lparr>sv_db := db'\<rparr>) h"
proof (cases "db' = sv_db w")
  case False
  then obtain row where "res = Inr row" using write_same_or_row [OF assms(1)] by blast
  note row = written_row [OF assms(1) [unfolded this]]
  show ?thesis using row assms(2) by (intro follows_append [OF _ _ _ _ assms(3), where row = row]) auto
qed (use assms(3) in simp)

lemma put_policy_writes:
  assumes "put_policy c env s org dev body db = (res, db')"
  obtains p who locked where "write_policy c env s org dev (PDict p) who locked None db = (res, db')"
  using assms by (simp add: put_policy_def policy_body_def)

lemma policy_change_follows:
  assumes "policy_change c s org w w'" "server_ok c s org w" "follows d w h"
  shows "follows d w' h"
  using assms(1)
proof cases
  case (puts env dev body res db')
  obtain p who locked where wr: "write_policy c env s org dev (PDict p) who locked None (sv_db w) = (res, db')"
    using puts(3) by (rule put_policy_writes)
  show ?thesis using write_follows [OF wr _ assms(3)] puts(1) by simp
next
  case (clears env res db')
  then show ?thesis using write_follows [OF _ _ assms(3)] by (simp add: delete_default_policy_def)
next
  case (tombstones env dev author row db')
  note row = written_row [OF tombstones(3) [unfolded write_tombstone_def]]
  show ?thesis using row by (intro follows_append [OF _ _ _ _ assms(3), where row = row]) (auto simp: tombstones(1) releasing_def)
next
  case (reads xs dev ys row)
  then show ?thesis by (intro follows_same [OF _ _ assms(3)]) (auto simp: in_gap_def releasing_def)
next
  case (needs_none xs dev ys)
  have "\<not> in_gap d w" using needs_none(3) by (simp add: in_gap_def default_to_reissue_None)
  then show ?thesis by (intro follows_same [OF _ _ assms(3)]) (simp_all add: needs_none(1))
next
  case (reissues xs dev row ys env author row' db')
  have "(dev, Some row) \<in> set (sv_releases w)" using reissues(2) by simp
  then have "live (Some row)" using assms(2) unfolding server_ok_def by blast
  then have "live (Some row') \<and> pr_device row' = None"
    using written_row [OF reissues(4) [unfolded reissue_def Let_def]] by (simp add: live_row)
  then show ?thesis using written_row [OF reissues(4) [unfolded reissue_def Let_def]]
    by (intro follows_append [OF _ _ _ _ assms(3), where row = row']) (auto simp: reissues(1))
next
  case (elsewhere db')
  then show ?thesis by (intro follows_same [OF _ _ assms(3)]) (auto simp: in_gap_def)
qed

lemma policy_change_writes:
  assumes "policy_change c s org w w'"
  shows "sd_policies (sv_db w') = sd_policies (sv_db w)
    \<or> (\<exists>env dev policy who locked author res. write_policy c env s org dev policy who locked author (sv_db w) = (res, sv_db w'))"
  using assms
proof cases
  case (puts env dev body res db')
  from puts(3) show ?thesis unfolding puts(1) by (rule put_policy_writes) auto
qed (auto simp: delete_default_policy_def write_tombstone_def reissue_def Let_def)

lemma write_policy_grows:
  "write_policy c env s org dev policy who locked author db = (res, db') \<Longrightarrow> \<exists>rows. sd_policies db' = sd_policies db @ rows"
  by (erule write_policy_cases) auto

lemma policy_change_grows:
  assumes "policy_change c s org w w'"
  shows "\<exists>rows. sd_policies (sv_db w') = sd_policies (sv_db w) @ rows"
  using policy_change_writes [OF assms] by (auto dest: write_policy_grows)

lemma policy_change_ok:
  assumes "policy_change c s org w w'" "server_ok c s org w"
  shows "server_ok c s org w'"
proof -
  have old: "policies_ok c s org (sv_db w)" using assms(2) by (simp add: server_ok_def)
  have "policies_ok c s org (sv_db w')"
    using policy_change_writes [OF assms(1)]
  proof (elim disjE exE)
    assume "sd_policies (sv_db w') = sd_policies (sv_db w)"
    then show ?thesis using old by (simp add: policies_ok_def)
  qed (rule write_keeps_ok [OF old])
  moreover have kept: "set (sd_policies (sv_db w)) \<subseteq> set (sd_policies (sv_db w'))" using policy_change_grows [OF assms(1)] by auto
  moreover have "set (sv_releases w') \<subseteq> set (sv_releases w) \<union> range (\<lambda>dev. (dev, None))
      \<union> {(dev, Some row) |dev row. latest_row None (sv_db w) = Some row \<and> live (Some row)}"
    using assms(1) by cases (auto simp: default_to_reissue_Some)
  ultimately show ?thesis using assms(2) latest_row_in unfolding server_ok_def by fastforce
qed

interpretation shield: document_source "\<lambda>w. serves d (sv_db w)" "policy_change c s org" "server_ok c s org" "follows d" "in_gap d"
  for c s org d
proof unfold_locales
  fix w h
  show "follows d w h \<Longrightarrow> \<not> in_gap d w \<Longrightarrow> behind h (serves d (sv_db w))" by (simp add: follows_def)
qed (auto intro: policy_change_ok follows_serves policy_change_follows)

lemma as_int_Some: "as_int v = Some i \<longleftrightarrow> v = PInt i"
  by (cases v) auto

text \<open>
  C23: The policy a device is served moves forward, whatever puts, deletions and releases of overrides, for it, for
  others or for the whole organisation, run and in whichever order their steps fall: what it is served later is the
  same signed document or one with a higher version. There is one exception: a release of its own override has written the
  tombstone and not the default that replaces it (because it is still running, or was cut off there). Then, and only
  as long as neither an override nor a default is written, it is served the default from before the release.
\<close>

theorem served_policy_moves_forward:
  assumes "(policy_change c s org)\<^sup>*\<^sup>* empty_server w" "(policy_change c s org)\<^sup>*\<^sup>* w w'"
    and "resolve_effective d (sv_db w) = Some r"
  shows "\<exists>r'. resolve_effective d (sv_db w') = Some r'
    \<and> (r' = r \<or> pr_version r < pr_version r'
       \<or> d \<in> releasing w' \<and> latest_row None (sv_db w') = Some r' \<and> live (Some r') \<and> \<not> live (latest_row (Some d) (sv_db w')))"
proof -
  have ok: "server_ok c s org w" using shield.run_sound [OF assms(1) empty_server_ok] .
  have "follows d w' (Some (pr_version r, r))"
    using shield.run_reach [OF assms(2) ok follows_serves [of d]] assms(3) by (simp add: serves_def)
  then show ?thesis unfolding follows_def
  proof (elim conjE disjE)
    assume "behind (Some (pr_version r, r)) (serves d (sv_db w'))"
    then show ?thesis by (cases "resolve_effective d (sv_db w')") (auto simp: serves_def)
  next
    assume gap: "in_gap d w'"
    then obtain r' where "latest_row None (sv_db w') = Some r'" by (cases "latest_row None (sv_db w')") (auto simp: in_gap_def live_def)
    then show ?thesis using gap by (auto simp: in_gap_def resolve_effective_def pick_effective_def)
  qed
qed

text \<open>
  The policy table is append-only with strictly increasing versions and signed rows, whoever writes;
  the unique index never refuses a write.
\<close>

theorem policies_append_only:
  assumes "(policy_change c s org)\<^sup>*\<^sup>* empty_server w" "policy_change c s org w w'"
  shows "\<exists>rows. sd_policies (sv_db w') = sd_policies (sv_db w) @ rows
    \<and> sorted_wrt (<) (map pr_version (sd_policies (sv_db w')))
    \<and> (\<forall>r\<in>set (sd_policies (sv_db w')). sign_document c s (pr_document r) = Inr (pr_signature r)
        \<and> dget (u ''version'') (pr_document r) = PInt (pr_version r))"
proof -
  have "server_ok c s org w'"
    using shield.run_sound [OF rtranclp.rtrancl_into_rtrancl [OF assms] empty_server_ok] .
  moreover have "\<exists>rows. sd_policies (sv_db w') = sd_policies (sv_db w) @ rows" by (rule policy_change_grows [OF assms(2)])
  ultimately show ?thesis by (auto simp: server_ok_def policies_ok_def signed_row_def document_fields)
qed

text \<open>A release that nobody interrupts is these steps in order.\<close>

lemma undisturbed_release:
  assumes "server_ok c s org w" "env_ok env" "env_ok env'"
    and "release_device_override c env env' s org dev author (sv_db w) = (Inr row, db')"
  shows "(policy_change c s org)\<^sup>*\<^sup>* w (w\<lparr>sv_db := db'\<rparr>)"
proof -
  obtain t db1 where t: "write_tombstone c env s org dev author (sv_db w) = (Inr t, db1)"
    using assms(4) by (auto simp: release_device_override_def split: prod.splits sum.splits)
  let ?w1 = "\<lparr>sv_db = db1, sv_releases = (dev, None) # sv_releases w\<rparr>"
  have one: "policy_change c s org w ?w1" by (rule policy_change.tombstones [OF assms(2) t])
  show ?thesis
  proof (cases "default_to_reissue db1")
    case None
    then have "db' = db1" using assms(4) t by (simp add: release_device_override_def reissue_default_above_def)
    moreover have "policy_change c s org ?w1 (?w1\<lparr>sv_releases := [] @ sv_releases w\<rparr>)"
      by (rule policy_change.needs_none) (use None in simp_all)
    ultimately show ?thesis using one by (cases w) (auto intro: rtranclp.rtrancl_into_rtrancl)
  next
    case (Some default)
    obtain r where r: "reissue c env' s org author default db1 = (Inr r, db')"
      using assms(4) t Some
      by (cases "reissue c env' s org author default db1"; cases "fst (reissue c env' s org author default db1)")
        (auto simp: release_device_override_def reissue_default_above_def)
    let ?w2 = "?w1\<lparr>sv_releases := [] @ (dev, Some default) # sv_releases w\<rparr>"
    have "policy_change c s org ?w1 ?w2" by (rule policy_change.reads) (use Some in simp_all)
    moreover have "policy_change c s org ?w2 \<lparr>sv_db = db', sv_releases = [] @ sv_releases w\<rparr>"
      by (rule policy_change.reissues [OF _ assms(3)]) (use r in simp_all)
    ultimately show ?thesis using one by (cases w) (auto intro: rtranclp.rtrancl_into_rtrancl)
  qed
qed

end
