(* ===== verification/Managed_Props.thy ===== *)
theory Managed_Props
  imports Managed Shield_Policy_Props
begin

text \<open>
  Server and device together: a device that polls holds what the server resolves for it; whatever answers
  it gets, it stores only authentic documents with growing versions.
\<close>

section \<open>Hexadecimal text reads back\<close>

lemma hex_value_digit: "n < 16 \<Longrightarrow> hex_value (hex_digit n) = Some n"
  by (auto simp: hex_value_def hex_digit_def)

lemma hex_digit_range: "n < 16 \<Longrightarrow> hex_digit n \<in> {48..57} \<union> {97..102}"
  by (auto simp: hex_digit_def)

lemma nibbles: "unat (b :: byte) div 16 < 16" "unat b mod 16 < 16"
proof -
  have "unat b < 256" using unsigned_less [of b, where 'a = nat] by simp
  then show "unat b div 16 < 16" "unat b mod 16 < 16" by (simp_all add: less_mult_imp_div_less)
qed

lemma fromhex_hex: "fromhex (hex bs) = Some bs"
proof (induction bs)
  case (Cons b bs)
  have lt: "unat b div 16 < 16" "unat b mod 16 < 16" by (rule nibbles)+
  have "hex_digit (unat b div 16) \<notin> {9, 10, 11, 12, 13, 32}" using hex_digit_range [OF lt(1)] by auto
  moreover have "of_nat (16 * (unat b div 16) + unat b mod 16) = b" by simp
  ultimately show ?case using Cons hex_value_digit [OF lt(1)] hex_value_digit [OF lt(2)]
    by (simp add: hex_def hex_byte_def)
qed (simp add: hex_def)

lemma hex_text_range: "ch \<in> set (hex bs) \<Longrightarrow> ch \<in> {48..57} \<union> {97..102}"
proof -
  assume "ch \<in> set (hex bs)"
  then have "\<exists>b :: byte. ch = hex_digit (unat b div 16) \<or> ch = hex_digit (unat b mod 16)"
    by (auto simp: hex_def hex_byte_def)
  then show ?thesis using hex_digit_range nibbles by metis
qed

lemma hex_no_space: "ch \<in> set (hex bs) \<Longrightarrow> \<not> py_space ch"
  using hex_text_range [of ch bs] by (auto simp: py_space_def)

lemma clean_signer_key_id: "clean (signer_key_id s)"
proof -
  have "\<not> surrogate ch" if "ch \<in> set (take 8 (hex (sg_public s)))" for ch
    using hex_text_range [OF in_set_takeD [OF that]] by (auto simp: surrogate_def)
  then have "clean (take 8 (hex (sg_public s)))" by (simp add: clean_def list_all_iff)
  moreover have "clean (u ''shield-server-'')" by (simp add: clean_def u_def surrogate_def)
  ultimately show ?thesis by (simp add: signer_key_id_def clean_def)
qed

lemma dropWhile_none: "\<forall>x\<in>set xs. \<not> P x \<Longrightarrow> dropWhile P xs = xs"
  by (cases xs) auto

lemma strip_hex: "strip (hex bs) = hex bs"
  using hex_no_space dropWhile_none [of "hex bs" py_space] dropWhile_none [of "rev (hex bs)" py_space]
  by (simp add: strip_def)

lemma hex_Nil: "hex bs = [] \<longleftrightarrow> bs = []"
  by (cases bs) (auto simp: hex_def hex_byte_def)

section \<open>The device takes what the server signed\<close>

text \<open>Ed25519 as documented: a signature of 64 bytes verifies under the 32 byte public key.\<close>

definition ed25519_ok :: "crypto \<Rightarrow> signer \<Rightarrow> bool" where
  "ed25519_ok c s \<longleftrightarrow> length (sg_public s) = 32
     \<and> (\<forall>m. c_ed25519_sign c (sg_private s) m \<noteq> [] \<and> c_ed25519_verify c (sg_public s) m (c_ed25519_sign c (sg_private s) m))"

text \<open>What the enrolment route hands out, and the wire form of an answer to a poll.\<close>

definition enrolled_with :: "signer \<Rightarrow> pystr \<Rightarrow> pystr \<Rightarrow> enrolment" where
  "enrolled_with s org d =
     \<lparr>en_device = d, en_tenant = Some org,
      en_policy_key = [(KStr (u ''key_id''), PStr (signer_key_id s)), (KStr (u ''public_key''), PStr (hex (sg_public s)))]\<rparr>"

definition envelope_of :: "policy_row \<Rightarrow> pyval" where
  "envelope_of r = PDict [(KStr (u ''document''), PDict (pr_document r)), (KStr (u ''signature''), PStr (pr_signature r))]"

fun wire :: "poll_answer \<Rightarrow> pyval option" where
  "wire BadRequest = None"
| "wire (Unchanged v) = Some (PDict [(KStr (u ''changed''), PBool False), (KStr (u ''version''), v)])"
| "wire (Changed r) = Some (PDict [(KStr (u ''changed''), PBool True), (KStr (u ''envelope''), envelope_of r)])"

definition holds :: "policy_row \<Rightarrow> pyval option \<Rightarrow> bool" where
  "holds r file \<longleftrightarrow> (\<exists>t. file = Some (stored (envelope_of r) t))"

lemma signed_row_document:
  assumes "signed_row c s org r"
  shows "pr_document r \<noteq> []" "dget (u ''version'') (pr_document r) = PInt (pr_version r)"
    "dget (u ''tenant_slug'') (pr_document r) = PStr org"
    "dget (u ''device_id'') (pr_document r) = (case pr_device r of None \<Rightarrow> PNone | Some d \<Rightarrow> PStr d)"
    "dget (u ''key_id'') (pr_document r) = PStr (signer_key_id s)"
    "sign_document c s (pr_document r) = Inr (pr_signature r)"
  using assms by (auto simp: signed_row_def document_fields build_document_def)

lemma values_bool_apps: "dict_of_bools (PDict apps) \<Longrightarrow> values_bool (PDict apps)"
  by (fastforce simp: list_all_iff)

text \<open>The server never signs a policy the device would refuse.\<close>

lemma signed_policy_valid:
  assumes "signed_row c s org r" "dget (u ''policy'') (pr_document r) \<noteq> PNone"
  shows "validate_managed_policy (dget (u ''policy'') (pr_document r))"
proof -
  obtain p where p: "dget (u ''policy'') (pr_document r) = PDict p" "validate_policy (PDict p) = Inr p"
    using assms unfolding signed_row_def by (auto simp: document_fields split: option.splits)
  obtain mode apps keep days notice where
    f: "p = [(KStr (u ''mode''), PStr mode), (KStr (u ''apps''), PDict apps), (KStr (u ''keep_text''), PBool keep),
          (KStr (u ''retention_days''), days), (KStr (u ''notice''), PBool notice)]"
    and ok: "mode \<in> set MODES" "list_ex (num_eq days) RETENTION_DAYS" "dict_of_bools (PDict apps)"
    using validate_policy_fields [OF p(2)] by metis
  have "lookup (u ''mode'') p = Some (PStr mode)" "lookup (u ''retention_days'') p = Some days"
    "lookup (u ''keep_text'') p = Some (PBool keep)" "lookup (u ''notice'') p = Some (PBool notice)"
    "lookup (u ''apps'') p = Some (PDict apps)" "lookup (u ''sync'') p = None"
    unfolding f by (simp_all add: u_def)
  then show ?thesis unfolding p(1)
    using ok values_bool_apps [OF ok(3)]
    by (simp add: validate_managed_policy_def given_def one_of_def MANAGED_MODES_def MODES_def RETENTION_CHOICES_def
        RETENTION_DAYS_def del: values_bool.simps lookup.simps)
qed

lemma signed_row_accepted:
  assumes "signed_row c s org r" "ed25519_ok c s"
  shows "signature_ok c (hex (sg_public s)) (pr_signature r) (pr_document r)" "pr_signature r \<noteq> []"
proof -
  obtain msg where t: "canonicalize (PDict (pr_document r)) = Inr msg"
    "pr_signature r = hex (c_ed25519_sign c (sg_private s) msg)"
    using signed_row_document(6) [OF assms(1)] by (auto simp: sign_document_def rmap_Inr_iff)
  show "signature_ok c (hex (sg_public s)) (pr_signature r) (pr_document r)"
    using assms(2) t by (simp add: signature_ok_def fromhex_hex ed25519_ok_def)
  show "pr_signature r \<noteq> []" using assms(2) t(2) by (simp add: hex_Nil ed25519_ok_def)
qed

lemma load_stored:
  assumes "pr_document r \<noteq> []"
  shows "load_managed_policy (Some (stored (envelope_of r) t)) = Inr (Some [(KStr (u ''envelope''), envelope_of r), (KStr (u ''fetched_at''), PStr t)])"
    and "document_of [(KStr (u ''envelope''), envelope_of r), (KStr (u ''fetched_at''), PStr t)] = pr_document r"
  by (simp_all add: load_managed_policy_def stored_def get_in_def envelope_of_def document_of_def items_of_def rmap_def)

lemma holds_version:
  assumes "holds r file" "signed_row c s org r"
  shows "\<exists>m. load_managed_policy file = Inr (Some m) \<and> version_of (Some m) = pr_version r" "have_version file = Inr (PInt (pr_version r))"
proof -
  obtain t where t: "file = Some (stored (envelope_of r) t)" using assms(1) by (auto simp: holds_def)
  note d = signed_row_document [OF assms(2)]
  show "\<exists>m. load_managed_policy file = Inr (Some m) \<and> version_of (Some m) = pr_version r" "have_version file = Inr (PInt (pr_version r))"
    using load_stored [OF d(1), of t] d(2) t by (simp_all add: version_of_def have_version_def rmap_def)
qed

section \<open>One poll\<close>

lemma get_key_id:
  assumes "signed_row c s org r"
  shows "rbind (get_in (u ''document'') (envelope_of r)) (get_in (u ''key_id'')) = Inr (PStr (signer_key_id s))"
  using signed_row_document(1,5) [OF assms] by (simp add: get_in_def envelope_of_def)

lemma trusted_enrolled:
  assumes "ed25519_ok c s"
  shows "trusted_key r (enrolled_with s org d) fetched (PStr (signer_key_id s)) st = (Inr (Some (hex (sg_public s))), st)"
proof -
  have "hex (sg_public s) \<noteq> []" "length (sg_public s) = 32" using assms by (auto simp: hex_Nil ed25519_ok_def)
  moreover have "dget (u ''key_id'') (en_policy_key (enrolled_with s org d)) = PStr (signer_key_id s)"
    by (simp add: enrolled_with_def u_def)
  moreover have "dget (u ''public_key_pem'') (en_policy_key (enrolled_with s org d)) = PNone"
    "dget (u ''public_key'') (en_policy_key (enrolled_with s org d)) = PStr (hex (sg_public s))"
    "en_policy_key (enrolled_with s org d) \<noteq> []"
    by (simp_all add: enrolled_with_def u_def)
  ultimately show ?thesis
    by (simp add: trusted_key_def public_key_hex_def strip_hex fromhex_hex Let_def)
qed

text \<open>A newer row of the server's for this device is stored.\<close>

lemma take_newer:
  assumes "signed_row c s org r" "ed25519_ok c s" "pr_device r \<in> {None, Some d}" "0 \<le> pr_version r"
    and "dv_file dev = None \<or> (\<exists>h. holds h (dv_file dev) \<and> signed_row c s org h \<and> pr_version h < pr_version r)"
  shows "\<exists>dev'. take_envelope c kr (enrolled_with s org d) fetched t True now (envelope_of r) dev = (Inr (), dev')
    \<and> dv_error dev' = None \<and> dv_file dev' = Some (stored (envelope_of r) t)"
proof -
  note f = signed_row_document [OF assms(1)]
  note acc = signed_row_accepted [OF assms(1,2)]
  have held: "\<exists>m. load_managed_policy (dv_file dev) = Inr m \<and> version_of m < pr_version r"
  proof (cases "dv_file dev = None")
    case True
    then show ?thesis using assms(4) by (simp add: load_managed_policy_def version_of_def)
  next
    case False
    then show ?thesis using assms(5) holds_version(1) by fastforce
  qed
  obtain ch sig where sig: "pr_signature r = ch # sig" using acc(2) by (cases "pr_signature r") auto
  obtain k ks where key: "hex (sg_public s) = k # ks"
    using assms(2) by (cases "hex (sg_public s)") (auto simp: hex_Nil ed25519_ok_def)
  have "accept_document (Some org) d t True (envelope_of r) (pr_document r) (dv_file dev)
      = (Inr None, Some (stored (envelope_of r) t))"
    using held f(2,3,4) assms(3) signed_policy_valid [OF assms(1)]
    by (auto simp: accept_document_def Let_def split: option.splits)
  then have "apply_managed_envelope c (Some org) d (Some (hex (sg_public s))) t True (envelope_of r) (dv_file dev)
      = (Inr None, Some (stored (envelope_of r) t))"
    using acc(1) sig by (simp add: key apply_managed_envelope_def envelope_of_def u_def)
  then show ?thesis
    using trusted_enrolled [OF assms(2)] get_key_id [OF assms(1)]
    by (simp add: take_envelope_def enrolled_with_def signer_key_id_def u_def)
qed

text \<open>The device's file: nothing yet, or a row of the table for it.\<close>

definition file_ok :: "crypto \<Rightarrow> signer \<Rightarrow> pystr \<Rightarrow> shield_db \<Rightarrow> pyval option \<Rightarrow> (int \<times> policy_row) option \<Rightarrow> bool" where
  "file_ok c s org db file h \<longleftrightarrow>
     (case h of
        None \<Rightarrow> file = None
      | Some (v, r) \<Rightarrow> holds r file \<and> r \<in> set (sd_policies db) \<and> v = pr_version r)"

text \<open>Asking the server at its current state.\<close>

definition ask_server :: "pystr \<Rightarrow> shield_db \<Rightarrow> pyval \<Rightarrow> pyval option" where
  "ask_server d db have_v = wire (shield_policy d have_v db)"

lemma poll_syncs:
  assumes "policies_ok c s org db" "ed25519_ok c s"
    and "file_ok c s org db (dv_file dev) h" "behind h (serves d db)"
  shows "\<exists>dev'. poll_policy c kr (Some (enrolled_with s org d)) (ask_server d db) fetched t True now True dev = (Inr (), dev')
    \<and> dv_error dev' = None
    \<and> (case resolve_effective d db of None \<Rightarrow> dv_file dev' = None | Some r \<Rightarrow> holds r (dv_file dev'))"
proof -
  have signed: "signed_row c s org r \<and> 0 < pr_version r" if "r \<in> set (sd_policies db)" for r
    using assms(1) that by (simp add: policies_ok_def)
  obtain have_v where have_v: "have_version (dv_file dev) = Inr have_v"
    and hv: "have_v = (case h of None \<Rightarrow> PNone | Some (v, r) \<Rightarrow> PInt v)"
  proof (cases h)
    case None
    then show thesis using that assms(3) by (simp add: file_ok_def have_version_def load_managed_policy_def rmap_def)
  next
    case (Some x)
    then obtain r where r: "h = Some (pr_version r, r)" "holds r (dv_file dev)" "r \<in> set (sd_policies db)"
      using assms(3) by (cases x) (auto simp: file_ok_def)
    have sr: "signed_row c s org r" using signed [OF r(3)] by (rule conjunct1)
    show thesis by (rule that [OF holds_version(2) [OF r(2) sr]]) (simp add: r(1))
  qed
  define dev1 where "dev1 = dev\<lparr>dv_publish := (dv_publish dev)\<lparr>ps_last_poll := now\<rparr>\<rparr>"
  show ?thesis
  proof (cases "resolve_effective d db")
    case None
    then have "h = None" using assms(4) by (cases h) (auto simp: serves_def)
    then show ?thesis using None assms(3) have_v hv
      by (simp add: poll_policy_def ask_server_def shield_policy_def u_def file_ok_def)
  next
    case (Some r)
    note r = resolve_in [OF Some]
    have sr: "signed_row c s org r" "0 < pr_version r" using signed r by auto
    note ver = signed_row_document(2) [OF sr(1)]
    show ?thesis
    proof (cases "h = Some (pr_version r, r)")
      case True
      then show ?thesis using Some assms(3) have_v hv ver
        by (simp add: poll_policy_def ask_server_def shield_policy_def u_def file_ok_def)
    next
      case False
      have older: "v < pr_version r" if "h = Some (v, x)" for v x
        using that assms(4) Some False by (auto simp: serves_def)
      have neq: "have_v = PNone \<or> have_v \<noteq> PInt (pr_version r)" using hv older by (auto split: option.splits)
      have "dv_file dev1 = None \<or> (\<exists>x. holds x (dv_file dev1) \<and> signed_row c s org x \<and> pr_version x < pr_version r)"
        using assms(3) older signed by (cases h) (auto simp: file_ok_def dev1_def)
      from take_newer [OF sr(1) assms(2) _ _ this, of d kr fetched t now] r sr(2)
      obtain dev' where "take_envelope c kr (enrolled_with s org d) fetched t True now (envelope_of r) dev1 = (Inr (), dev')"
        "dv_error dev' = None" "dv_file dev' = Some (stored (envelope_of r) t)" by auto
      moreover have "ask_server d db have_v = Some (PDict [(KStr (u ''changed''), PBool True), (KStr (u ''envelope''), envelope_of r)])"
        using Some neq ver hv by (auto simp: ask_server_def shield_policy_def Let_def split: option.splits)
      moreover have "have_version (dv_file dev1) = Inr have_v" using have_v by (simp add: dev1_def)
      moreover have "dget (u ''envelope'') [(KStr (u ''changed''), PBool True), (KStr (u ''envelope''), envelope_of r)] = envelope_of r"
        by (simp add: u_def)
      ultimately show ?thesis using Some
        by (auto simp: poll_policy_def dev1_def [symmetric] Let_def holds_def)
    qed
  qed
qed

section \<open>A device and its server\<close>

record fleet =
  fl_server :: policy_server
  fl_device :: device

text \<open>
  The server changes as administrators and other devices please, a step at a time; the device polls when it likes, is
  answered by the server or not at all, and its disk may fail. An answer reads the override and the default together.
\<close>

inductive fleet_step :: "crypto \<Rightarrow> key_readers \<Rightarrow> signer \<Rightarrow> pystr \<Rightarrow> pystr \<Rightarrow> fleet \<Rightarrow> fleet \<Rightarrow> bool" for c kr s org d where
  administers: "fleet_step c kr s org d w (w\<lparr>fl_server := sv'\<rparr>)" if "policy_change c s org (fl_server w) sv'"
| polls: "fleet_step c kr s org d w (w\<lparr>fl_device := dev'\<rparr>)"
    if "poll_policy c kr (Some (enrolled_with s org d)) ask fetched t writes now force (fl_device w) = (res, dev')"
      "ask \<in> {ask_server d (sv_db (fl_server w)), \<lambda>_. None}"

definition fleet_ok :: "crypto \<Rightarrow> signer \<Rightarrow> pystr \<Rightarrow> pystr \<Rightarrow> fleet \<Rightarrow> bool" where
  "fleet_ok c s org d w \<longleftrightarrow> server_ok c s org (fl_server w)
     \<and> (\<exists>h. file_ok c s org (sv_db (fl_server w)) (dv_file (fl_device w)) h \<and> follows d (fl_server w) h)"

text \<open>What a poll does to the file, whatever it is answered.\<close>

lemma accept_file:
  "accept_document tenant d t writes envelope doc file = (res, file') \<Longrightarrow>
     file' = file \<or> file' = Some (stored envelope t) \<and> dget (u ''tenant_slug'') doc = (case tenant of None \<Rightarrow> PNone | Some x \<Rightarrow> PStr x)
       \<and> dget (u ''device_id'') doc \<in> {PNone, PStr d}
       \<and> (\<exists>m v. load_managed_policy file = Inr m \<and> dget (u ''version'') doc = PInt v \<and> version_of m < v)"
  by (auto simp: accept_document_def Let_def as_int_Some split: if_splits option.splits sum.splits)

definition file_version :: "pyval option \<Rightarrow> int" where
  "file_version file = (case load_managed_policy file of Inr m \<Rightarrow> version_of m | Inl _ \<Rightarrow> -1)"

text \<open>An envelope for this device, signed with \<open>key\<close>.\<close>

definition authentic :: "crypto \<Rightarrow> enrolment \<Rightarrow> pystr \<Rightarrow> pyval \<Rightarrow> bool" where
  "authentic c en key envelope \<longleftrightarrow> (\<exists>e doc sig. envelope = PDict e \<and> dget (u ''document'') e = PDict doc
     \<and> dget (u ''signature'') e = PStr sig \<and> signature_ok c key sig doc
     \<and> dget (u ''tenant_slug'') doc = (case en_tenant en of None \<Rightarrow> PNone | Some x \<Rightarrow> PStr x)
     \<and> dget (u ''device_id'') doc \<in> {PNone, PStr (en_device en)})"

lemma load_stored_envelope:
  assumes "dget (u ''document'') e = PDict doc" "dget (u ''version'') doc = PInt v"
  shows "file_version (Some (stored (PDict e) t)) = v"
proof -
  have "e \<noteq> []" using assms(1) by auto
  then have "load_managed_policy (Some (stored (PDict e) t)) = Inr (Some [(KStr (u ''envelope''), PDict e), (KStr (u ''fetched_at''), PStr t)])"
    using assms(1) by (simp add: load_managed_policy_def stored_def get_in_def rmap_def)
  then show ?thesis using assms by (simp add: file_version_def version_of_def document_of_def items_of_def)
qed

lemma apply_file:
  assumes "apply_managed_envelope c (en_tenant en) (en_device en) key t writes envelope file = (res, file')"
  shows "file' = file \<or> (\<exists>k. key = Some k \<and> file' = Some (stored envelope t) \<and> authentic c en k envelope
    \<and> file_version file < file_version file')"
proof (cases "file' = file")
  case False
  then obtain e doc ch sig k where e: "envelope = PDict e" "dget (u ''document'') e = PDict doc"
    "dget (u ''signature'') e = PStr (ch # sig)" "key = Some k" "signature_ok c k (ch # sig) doc"
    and a: "accept_document (en_tenant en) (en_device en) t writes envelope doc file = (res, file')"
    using assms unfolding apply_managed_envelope_def
    by (auto split: pyval.splits list.splits option.splits if_splits)
  from accept_file [OF a] False obtain m v where f: "file' = Some (stored envelope t)"
    "load_managed_policy file = Inr m" "dget (u ''version'') doc = PInt v" "version_of m < v"
    "dget (u ''tenant_slug'') doc = (case en_tenant en of None \<Rightarrow> PNone | Some x \<Rightarrow> PStr x)"
    "dget (u ''device_id'') doc \<in> {PNone, PStr (en_device en)}" by blast
  have "file_version file < file_version file'"
    using f load_stored_envelope [OF e(2) f(3), of t] e(1) by (simp add: file_version_def)
  moreover have "authentic c en k envelope" unfolding authentic_def using e f by blast
  ultimately show ?thesis using e f by blast
qed simp

text \<open>The keys a device trusts: the one pinned at enrolment, and one it pinned from the list.\<close>

definition trusts :: "key_readers \<Rightarrow> enrolment \<Rightarrow> publish_state \<Rightarrow> pystr \<Rightarrow> bool" where
  "trusts kr en st key \<longleftrightarrow> public_key_hex kr (en_policy_key en) = Some key \<or> ps_public_key st = Some key"

definition pinned_once :: "publish_state \<Rightarrow> bool" where
  "pinned_once st \<longleftrightarrow> (ps_public_key st \<noteq> None \<longrightarrow> ps_key_tried st)"

lemma pin_from_tried: "ps_key_tried (pin_from kr k ks st) = ps_key_tried st"
  by (induction ks arbitrary: st) (auto split: pyval.splits option.splits)

lemma pin_from_tried': "pin_from kr k ks st = st' \<Longrightarrow> ps_key_tried st' = ps_key_tried st"
  using pin_from_tried by blast

lemma trusted_key_effect:
  assumes "trusted_key kr en fetched k st = (res, st')" "pinned_once st"
  shows "pinned_once st' \<and> (ps_public_key st \<noteq> None \<longrightarrow> ps_public_key st' = ps_public_key st)
    \<and> (\<forall>key. res = Inr (Some key) \<longrightarrow> trusts kr en st' key)"
  using assms unfolding trusted_key_def
  by (auto simp: trusts_def pinned_once_def pin_from_tried Let_def split: if_splits option.splits) (drule pin_from_tried', simp)+

lemma take_envelope_effect:
  assumes "take_envelope c kr en fetched t writes now envelope d = (res, d')" "pinned_once (dv_publish d)"
  shows "pinned_once (dv_publish d')
    \<and> (ps_public_key (dv_publish d) \<noteq> None \<longrightarrow> ps_public_key (dv_publish d') = ps_public_key (dv_publish d))
    \<and> (dv_file d' = dv_file d \<or> (\<exists>key. dv_file d' = Some (stored envelope t) \<and> authentic c en key envelope
          \<and> trusts kr en (dv_publish d') key \<and> file_version (dv_file d) < file_version (dv_file d')))"
proof (cases "rbind (get_in (u ''document'') envelope) (get_in (u ''key_id''))")
  case (Inl e)
  then show ?thesis using assms by (simp add: take_envelope_def)
next
  case (Inr k)
  define st where "st = (dv_publish d)\<lparr>ps_fetch_failed := False\<rparr>"
  define tk where "tk = (if truthy k then trusted_key kr en fetched k st else (Inr None, st))"
  obtain kres st' where k: "tk = (kres, st')" by fastforce
  have st: "pinned_once st" "ps_public_key st = ps_public_key (dv_publish d)"
    using assms(2) by (simp_all add: st_def pinned_once_def)
  have eff: "pinned_once st' \<and> (ps_public_key st \<noteq> None \<longrightarrow> ps_public_key st' = ps_public_key st)
    \<and> (\<forall>key. kres = Inr (Some key) \<longrightarrow> trusts kr en st' key)"
    using trusted_key_effect [OF _ st(1)] k st(1) by (auto simp: tk_def split: if_splits)
  show ?thesis
  proof (cases kres)
    case (Inl e)
    then have "d' = d\<lparr>dv_publish := st'\<rparr>" using assms(1) Inr k unfolding tk_def st_def take_envelope_def by simp
    then show ?thesis using eff st(2) by simp
  next
    case key: (Inr key)
    show ?thesis
    proof (cases "key = None \<and> ps_fetch_failed st'")
      case True
      then have "d' = d\<lparr>dv_publish := st'\<lparr>ps_last_poll := now - POLICY_POLL_S + 60\<rparr>, dv_error := Some KeysUnreachable\<rparr>"
        using assms(1) Inr k key True unfolding tk_def st_def take_envelope_def by simp
      then show ?thesis using eff st(2) by (simp add: pinned_once_def)
    next
      case False
      obtain ares file' where a: "apply_managed_envelope c (en_tenant en) (en_device en) key t writes envelope (dv_file d) = (ares, file')"
        by fastforce
      have "dv_publish d' = st' \<and> dv_file d' = file'"
        using assms(1) Inr k key False a unfolding tk_def st_def take_envelope_def by (auto split: sum.splits if_splits)
      then show ?thesis using eff st(2) key apply_file [OF a] by auto
    qed
  qed
qed

lemma poll_effect:
  assumes "poll_policy c kr (Some en) ask fetched t writes now force d = (res, d')" "pinned_once (dv_publish d)"
  shows "pinned_once (dv_publish d')
    \<and> (ps_public_key (dv_publish d) \<noteq> None \<longrightarrow> ps_public_key (dv_publish d') = ps_public_key (dv_publish d))
    \<and> (dv_file d' = dv_file d \<or> (\<exists>envelope key have_v resp. ask have_v = Some (PDict resp) \<and> truthy (dget (u ''changed'') resp)
          \<and> dget (u ''envelope'') resp = envelope
          \<and> dv_file d' = Some (stored envelope t) \<and> authentic c en key envelope
          \<and> trusts kr en (dv_publish d') key \<and> file_version (dv_file d) < file_version (dv_file d')))"
proof -
  define d1 where "d1 = d\<lparr>dv_publish := (dv_publish d)\<lparr>ps_last_poll := now\<rparr>\<rparr>"
  have d1: "pinned_once (dv_publish d1)" "ps_public_key (dv_publish d1) = ps_public_key (dv_publish d)" "dv_file d1 = dv_file d"
    using assms(2) by (simp_all add: d1_def pinned_once_def)
  show ?thesis
  proof (cases "\<exists>have_v resp. ask have_v = Some (PDict resp) \<and> truthy (dget (u ''changed'') resp)
      \<and> take_envelope c kr en fetched t writes now (dget (u ''envelope'') resp) d1 = (res, d')")
    case True
    then obtain have_v resp where r: "ask have_v = Some (PDict resp)" "truthy (dget (u ''changed'') resp)"
      "take_envelope c kr en fetched t writes now (dget (u ''envelope'') resp) d1 = (res, d')" by blast
    from take_envelope_effect [OF r(3) d1(1)] r(1,2) d1(2,3) show ?thesis by auto
  next
    case False
    then have "d' = d \<or> (\<exists>e. d' = d1\<lparr>dv_error := e\<rparr>) \<or> d' = d1"
      using assms(1) unfolding poll_policy_def d1_def [symmetric]
      by (auto simp: Let_def split: if_splits sum.splits option.splits pyval.splits)
    then show ?thesis using d1 assms(2) by auto
  qed
qed

lemma fleet_step_ok:
  assumes "fleet_step c kr s org d w w'" "fleet_ok c s org d w"
    "pinned_once (dv_publish (fl_device w))"
  shows "fleet_ok c s org d w' \<and> pinned_once (dv_publish (fl_device w'))"
  using assms(1)
proof cases
  case (administers sv')
  obtain h where h: "file_ok c s org (sv_db (fl_server w)) (dv_file (fl_device w)) h" "follows d (fl_server w) h"
    and ok: "server_ok c s org (fl_server w)" using assms(2) by (auto simp: fleet_ok_def)
  have "follows d sv' h" by (rule shield.keeps_reach [OF ok administers(2) h(2)])
  moreover have "set (sd_policies (sv_db (fl_server w))) \<subseteq> set (sd_policies (sv_db sv'))"
    using policy_change_grows [OF administers(2)] by auto
  then have "file_ok c s org (sv_db sv') (dv_file (fl_device w)) h" using h(1) by (auto simp: file_ok_def split: option.splits)
  moreover have "server_ok c s org sv'" using shield.keeps_sound [OF ok administers(2)] .
  ultimately show ?thesis using assms(3) administers(1) by (auto simp: fleet_ok_def)
next
  case (polls ask fetched t writes now force res dev')
  let ?db = "sv_db (fl_server w)"
  obtain h where h: "file_ok c s org ?db (dv_file (fl_device w)) h" "follows d (fl_server w) h"
    and ok: "server_ok c s org (fl_server w)" using assms(2) by (auto simp: fleet_ok_def)
  from poll_effect [OF polls(2) assms(3)] have pin: "pinned_once (dv_publish dev')"
    and cases: "dv_file dev' = dv_file (fl_device w) \<or> (\<exists>envelope have_v resp. ask have_v = Some (PDict resp)
        \<and> truthy (dget (u ''changed'') resp) \<and> dget (u ''envelope'') resp = envelope \<and> dv_file dev' = Some (stored envelope t))"
    by blast+
  from cases have "\<exists>h'. file_ok c s org ?db (dv_file dev') h' \<and> follows d (fl_server w) h'"
  proof
    assume "\<exists>envelope have_v resp. ask have_v = Some (PDict resp)
        \<and> truthy (dget (u ''changed'') resp) \<and> dget (u ''envelope'') resp = envelope \<and> dv_file dev' = Some (stored envelope t)"
    then obtain have_v resp where a: "ask_server d ?db have_v = Some (PDict resp)" "truthy (dget (u ''changed'') resp)"
      "dv_file dev' = Some (stored (dget (u ''envelope'') resp) t)" using polls(3) by auto
    then obtain r where r: "resolve_effective d ?db = Some r" "dget (u ''envelope'') resp = envelope_of r"
      by (auto simp: ask_server_def shield_policy_def Let_def u_def split: if_splits option.splits)
    then have "file_ok c s org ?db (dv_file dev') (Some (pr_version r, r))"
      using a(3) resolve_in [OF r(1)] by (auto simp: file_ok_def holds_def)
    moreover have "follows d (fl_server w) (Some (pr_version r, r))"
      using follows_serves [of d "fl_server w"] r(1) by (simp add: serves_def)
    ultimately show ?thesis by blast
  qed (use h in auto)
  then show ?thesis using ok pin polls(1) by (auto simp: fleet_ok_def)
qed

text \<open>A device that holds a newer document than it is offered refuses it as a rollback.\<close>

lemma poll_refused:
  assumes "ed25519_ok c s" "holds r (dv_file dev)" "signed_row c s org r"
    and "resolve_effective d db = Some r0" "signed_row c s org r0" "pr_device r0 \<in> {None, Some d}" "pr_version r0 < pr_version r"
  shows "\<exists>dev'. poll_policy c kr (Some (enrolled_with s org d)) (ask_server d db) fetched t writes now True dev = (Inr (), dev')
    \<and> dv_error dev' = Some (RefusedFor RollbackRefused) \<and> dv_file dev' = dv_file dev"
proof -
  note f = signed_row_document [OF assms(5)]
  note acc = signed_row_accepted [OF assms(5,1)]
  define dev1 where "dev1 = dev\<lparr>dv_publish := (dv_publish dev)\<lparr>ps_last_poll := now\<rparr>\<rparr>"
  obtain m where m: "load_managed_policy (dv_file dev) = Inr (Some m)" "version_of (Some m) = pr_version r"
    using holds_version(1) [OF assms(2,3)] by blast
  have "accept_document (Some org) d t writes (envelope_of r0) (pr_document r0) (dv_file dev) = (Inr (Some RollbackRefused), dv_file dev)"
    using m f(2,3,4) assms(6,7) by (auto simp: accept_document_def)
  moreover obtain ch sig where "pr_signature r0 = ch # sig" using acc(2) by (cases "pr_signature r0") auto
  moreover obtain k ks where key: "hex (sg_public s) = k # ks"
    using assms(1) by (cases "hex (sg_public s)") (auto simp: hex_Nil ed25519_ok_def)
  ultimately have applied: "apply_managed_envelope c (Some org) d (Some (hex (sg_public s))) t writes (envelope_of r0) (dv_file dev)
      = (Inr (Some RollbackRefused), dv_file dev)"
    using acc(1) by (simp add: key apply_managed_envelope_def envelope_of_def u_def)
  have "take_envelope c kr (enrolled_with s org d) fetched t writes now (envelope_of r0) dev1
      = (Inr (), dev1\<lparr>dv_publish := (dv_publish dev1)\<lparr>ps_fetch_failed := False\<rparr>, dv_error := Some (RefusedFor RollbackRefused)\<rparr>)"
    using trusted_enrolled [OF assms(1)] get_key_id [OF assms(5)] applied
    by (simp add: take_envelope_def enrolled_with_def signer_key_id_def u_def dev1_def)
  moreover have "ask_server d db (PInt (pr_version r))
      = Some (PDict [(KStr (u ''changed''), PBool True), (KStr (u ''envelope''), envelope_of r0)])"
    using assms(4,7) f(2) by (simp add: ask_server_def shield_policy_def Let_def)
  moreover have "have_version (dv_file dev1) = Inr (PInt (pr_version r))"
    using holds_version(2) [OF assms(2,3)] by (simp add: dev1_def)
  moreover have "dget (u ''envelope'') [(KStr (u ''changed''), PBool True), (KStr (u ''envelope''), envelope_of r0)] = envelope_of r0"
    by (simp add: u_def)
  ultimately show ?thesis
    by (auto simp: poll_policy_def dev1_def [symmetric] Let_def) (simp_all add: dev1_def)
qed

lemma versions_identify:
  assumes "policies_ok c s org db" "r \<in> set (sd_policies db)" "r' \<in> set (sd_policies db)" "pr_version r = pr_version r'"
  shows "r = r'"
proof -
  have "distinct (map pr_version (sd_policies db))" using assms(1) by (auto simp: policies_ok_def strict_sorted_iff)
  then show ?thesis using assms(2-4) by (auto simp: distinct_map dest: inj_onD)
qed

definition new_device :: "publish_state \<Rightarrow> device" where
  "new_device st = \<lparr>dv_publish = st, dv_error = None, dv_file = None\<rparr>"

text \<open>
  C21: A managed device follows its server: whatever puts, deletions and releases administrators make, for whichever
  device and in whichever order their steps fall, and whatever polls failed before, a poll that goes through ends
  without an error and leaves the device holding exactly the document the server resolves for it (none when it is not
  managed). There is one exception: a release of the device's own override that has written the tombstone and not the
  default, because it is still running or was cut off there. Then the poll may end in the refusal of a rollback, and
  the device keeps what it holds.
\<close>

theorem managed_device_follows:
  assumes "ed25519_ok c s" "pinned_once st"
    and "(fleet_step c kr s org d)\<^sup>*\<^sup>* \<lparr>fl_server = empty_server, fl_device = new_device st\<rparr> w"
  shows "\<exists>dev'. poll_policy c kr (Some (enrolled_with s org d)) (ask_server d (sv_db (fl_server w))) fetched t True now True (fl_device w)
        = (Inr (), dev')
    \<and> (dv_error dev' = None
         \<and> (case resolve_effective d (sv_db (fl_server w)) of None \<Rightarrow> dv_file dev' = None | Some r \<Rightarrow> holds r (dv_file dev'))
       \<or> in_gap d (fl_server w) \<and> dv_error dev' = Some (RefusedFor RollbackRefused) \<and> dv_file dev' = dv_file (fl_device w))"
proof -
  have "fleet_ok c s org d \<lparr>fl_server = empty_server, fl_device = new_device st\<rparr>"
    using empty_server_ok by (auto simp: fleet_ok_def file_ok_def new_device_def follows_def held_row_def intro!: exI [of _ None])
  then have "fleet_ok c s org d w \<and> pinned_once (dv_publish (fl_device w))"
    using assms(3)
  proof (induction rule: rtranclp_induct [OF assms(3)])
    case 1
    then show ?case using assms(2) by (simp add: new_device_def)
  next
    case (2 w1 w2)
    then show ?case using fleet_step_ok by blast
  qed
  then obtain h where ok: "policies_ok c s org (sv_db (fl_server w))" and held: "file_ok c s org (sv_db (fl_server w)) (dv_file (fl_device w)) h"
    and h: "follows d (fl_server w) h" by (auto simp: fleet_ok_def server_ok_def)
  show ?thesis
  proof (cases "behind h (serves d (sv_db (fl_server w)))")
    case True
    then show ?thesis using poll_syncs [OF ok assms(1) held] by blast
  next
    case False
    then have gap: "in_gap d (fl_server w)" using h by (simp add: follows_def)
    then obtain r0 where r0: "resolve_effective d (sv_db (fl_server w)) = Some r0"
      by (auto simp: in_gap_def resolve_effective_def pick_effective_def live_def)
    obtain v r where r: "h = Some (v, r)" using False by (cases h) auto
    then have r': "holds r (dv_file (fl_device w))" "r \<in> set (sd_policies (sv_db (fl_server w)))" "v = pr_version r"
      using held by (simp_all add: file_ok_def)
    have "pr_version r0 < pr_version r"
      using False r r0 r'(3) versions_identify [OF ok r'(2)] resolve_in [OF r0]
      by (auto simp: serves_def not_less_iff_gr_or_eq)
    moreover have "signed_row c s org r" "signed_row c s org r0" "pr_device r0 \<in> {None, Some d}"
      using ok r'(2) resolve_in [OF r0] by (auto simp: policies_ok_def)
    ultimately show ?thesis using poll_refused [OF assms(1) r'(1) _ r0] gap by blast
  qed
qed

section \<open>Whatever it is answered\<close>

inductive polled :: "crypto \<Rightarrow> key_readers \<Rightarrow> enrolment \<Rightarrow> device \<Rightarrow> device \<Rightarrow> bool" for c kr en where
  "polled c kr en d d'" if "poll_policy c kr (Some en) ask fetched t writes now force d = (res, d')"

inductive_cases polled_cases: "polled c kr en d d'"

text \<open>
  C22: Nobody can make a device take a policy it should not: whatever the polls of a device are answered,
  and whatever list of keys it is shown, its stored policy is the one it had, or an envelope with a
  higher version for its tenant and for it or for everyone, signed with the key pinned at enrolment or
  with the one key it pinned itself; and that pin is never replaced.
\<close>

theorem managed_policy_authentic:
  assumes "(polled c kr en)\<^sup>*\<^sup>* d d'" "pinned_once (dv_publish d)"
  shows "(dv_file d' = dv_file d \<or> (\<exists>envelope t key. dv_file d' = Some (stored envelope t) \<and> authentic c en key envelope
        \<and> trusts kr en (dv_publish d') key \<and> file_version (dv_file d) < file_version (dv_file d')))
    \<and> (ps_public_key (dv_publish d) \<noteq> None \<longrightarrow> ps_public_key (dv_publish d') = ps_public_key (dv_publish d))"
proof -
  let ?P = "\<lambda>d'. pinned_once (dv_publish d')
    \<and> (dv_file d' = dv_file d \<or> (\<exists>envelope t key. dv_file d' = Some (stored envelope t) \<and> authentic c en key envelope
        \<and> trusts kr en (dv_publish d') key \<and> file_version (dv_file d) < file_version (dv_file d')))
    \<and> (ps_public_key (dv_publish d) \<noteq> None \<longrightarrow> ps_public_key (dv_publish d') = ps_public_key (dv_publish d))"
  have "?P d'"
    using assms(1)
  proof (induction rule: rtranclp_induct)
    case base
    then show ?case using assms(2) by simp
  next
    case (step d1 d2)
    from step.hyps(2) obtain ask fetched t writes now force res
      where poll: "poll_policy c kr (Some en) ask fetched t writes now force d1 = (res, d2)" by (rule polled_cases)
    have pin: "pinned_once (dv_publish d1)" using step.IH by blast
    note eff = poll_effect [OF poll pin]
    have keeps: "trusts kr en (dv_publish d1) key \<Longrightarrow> trusts kr en (dv_publish d2) key" for key
      using eff by (auto simp: trusts_def)
    show ?case
    proof (cases "dv_file d2 = dv_file d1")
      case True
      then show ?thesis using eff step.IH keeps by auto
    next
      case False
      then obtain envelope key where new: "dv_file d2 = Some (stored envelope t)" "authentic c en key envelope"
        "trusts kr en (dv_publish d2) key" "file_version (dv_file d1) < file_version (dv_file d2)" using eff by blast
      have "file_version (dv_file d) \<le> file_version (dv_file d1)" using step.IH by auto
      then have "file_version (dv_file d) < file_version (dv_file d2)" using new(4) by simp
      then show ?thesis using new eff step.IH by auto
    qed
  qed
  then show ?thesis by simp
qed

section \<open>A release that is cut short\<close>

text \<open>
  The exception is real. When the server stops after the tombstone, a device that holds the override is offered the
  default from before, below the version it holds, and refuses it at every poll until somebody writes a policy: it
  stays under the override that was released.
\<close>

theorem interrupted_release_strands_device:
  assumes "(policy_change c s org)\<^sup>*\<^sup>* empty_server w" "ed25519_ok c s"
    and "resolve_effective d (sv_db w) = Some r" "holds r (dv_file dev)"
    and "latest_row None (sv_db w) = Some r0" "live (Some r0)" "pr_version r0 < pr_version r"
    and "write_tombstone c env s org d author (sv_db w) = (Inr tombstone, db1)" "sd_policies db2 = sd_policies db1"
  shows "\<exists>dev'. poll_policy c kr (Some (enrolled_with s org d)) (ask_server d db2) fetched t writes now True dev = (Inr (), dev')
    \<and> dv_error dev' = Some (RefusedFor RollbackRefused) \<and> dv_file dev' = dv_file dev"
proof -
  have ok: "policies_ok c s org (sv_db w)" using shield.run_sound [OF assms(1) empty_server_ok] by (simp add: server_ok_def)
  note row = written_row [OF assms(8) [unfolded write_tombstone_def]]
  have "resolve_effective d db1 = Some r0"
    using latest_row_append [of db1 "sv_db w" tombstone] row assms(5,6) by (simp add: resolve_effective_def pick_effective_def)
  then have eff: "resolve_effective d db2 = Some r0" using resolve_same [OF assms(9)] by simp
  have rows: "signed_row c s org r" "signed_row c s org r0" "pr_device r0 \<in> {None, Some d}"
    using ok resolve_in [OF assms(3)] latest_row_in [OF assms(5)] by (auto simp: policies_ok_def)
  show ?thesis by (rule poll_refused [OF assms(2,4) rows(1) eff rows(2,3) assms(7)])
qed

section \<open>Locked settings\<close>

lemma map_of_update: "map_of (AList.update k v xs) = (map_of xs)(k \<mapsto> v)"
  by (rule AList.update_conv')

lemma map_of_dict_merge:
  "map_of (dict_merge a b) x = (case map_of (rev b) x of None \<Rightarrow> map_of a x | Some v \<Rightarrow> Some v)"
proof (induction b arbitrary: a)
  case (Cons kv b)
  obtain k v where kv: "kv = (k, v)" by fastforce
  have "dict_merge a (kv # b) = dict_merge (AList.update k v a) b" by (simp add: dict_merge_def kv)
  then show ?case using Cons.IH [of "AList.update k v a"] by (auto simp: kv map_of_update map_add_def split: option.splits)
qed (simp add: dict_merge_def)

lemma put_locked_other:
  assumes "put_locked p (map PStr ks) out = Inr res"
  shows "(k \<notin> set ks \<longrightarrow> lookup k res = lookup k out)
    \<and> (k \<in> set ks \<longrightarrow> k \<noteq> u ''apps'' \<longrightarrow> lookup k res = (case lookup k p of None \<Rightarrow> lookup k out | Some v \<Rightarrow> Some v))"
  using assms
proof (induction ks arbitrary: out)
  case (Cons k1 ks)
  obtain out1 where step: "put_locked p (map PStr ks) out1 = Inr res"
    and o1: "lookup k out1 = (if k = k1 then (case lookup k p of None \<Rightarrow> lookup k out | Some v \<Rightarrow> Some v) else lookup k out)
        \<or> k = u ''apps'' \<and> k1 = u ''apps''"
    using Cons.prems
    by (auto simp: map_of_update split: pyval.splits if_splits option.splits)
  from Cons.IH [OF step] o1 show ?case by (auto split: option.splits)
qed simp

definition apps_in :: "(pykey \<times> pyval) list \<Rightarrow> (pykey \<times> pyval) list" where
  "apps_in out = (case lookup (u ''apps'') out of Some (PDict a) \<Rightarrow> a | _ \<Rightarrow> [])"

lemma put_locked_apps:
  assumes "put_locked p (map PStr ks) out = Inr res" "dget (u ''apps'') p = PDict a" "u ''apps'' \<in> set ks"
  shows "\<exists>b. lookup (u ''apps'') res = Some (PDict b)
    \<and> (\<forall>x. map_of b x = (case map_of (rev a) x of None \<Rightarrow> map_of (apps_in out) x | Some v \<Rightarrow> Some v))"
  using assms(1,3)
proof (induction ks arbitrary: out)
  case (Cons k1 ks)
  show ?case
  proof (cases "k1 = u ''apps''")
    case True
    define out1 where "out1 = AList.update (KStr k1) (PDict (dict_merge (apps_in out) a)) out"
    have step: "put_locked p (map PStr ks) out1 = Inr res"
      using Cons.prems(1) True assms(2) by (auto simp: out1_def apps_in_def split: option.splits pyval.splits)
    have look: "lookup (u ''apps'') out1 = Some (PDict (dict_merge (apps_in out) a))"
      by (simp add: out1_def True map_of_update)
    then have inside: "apps_in out1 = dict_merge (apps_in out) a" by (simp add: apps_in_def)
    show ?thesis
    proof (cases "u ''apps'' \<in> set ks")
      case True
      then obtain b where b: "lookup (u ''apps'') res = Some (PDict b)"
        "\<And>x. map_of b x = (case map_of (rev a) x of None \<Rightarrow> map_of (apps_in out1) x | Some v \<Rightarrow> Some v)"
        using Cons.IH [OF step] by blast
      then show ?thesis unfolding inside map_of_dict_merge by (auto split: option.splits)
    next
      case False
      then have "lookup (u ''apps'') res = Some (PDict (dict_merge (apps_in out) a))"
        using put_locked_other [OF step, of "u ''apps''"] look by simp
      then show ?thesis by (simp add: map_of_dict_merge)
    qed
  next
    case False
    then obtain out1 where step: "put_locked p (map PStr ks) out1 = Inr res" "lookup (u ''apps'') out1 = lookup (u ''apps'') out"
      using Cons.prems(1) by (auto simp: map_of_update split: pyval.splits if_splits option.splits)
    then have same: "apps_in out1 = apps_in out" by (simp add: apps_in_def)
    have "u ''apps'' \<in> set ks" using Cons.prems(2) False by simp
    from Cons.IH [OF step(1) this] show ?thesis unfolding same .
  qed
qed simp

text \<open>
  Locked settings cannot be changed on the device: whatever the local policy file says, the policy in
  force has the signed value of every locked setting, the signed value of every app the signed policy
  names when apps are locked, \<open>seal\<close> as its sharing level unless that is locked, and the local
  value of everything else.
\<close>

theorem locked_settings_win:
  assumes "load_managed_policy file = Inr (Some m)" "dget (u ''policy'') (document_of m) = PDict p"
    and "dget (u ''locked'') (document_of m) = PSeq (map PStr ks)" "load_policy loc file = Inr out"
  shows "(k \<in> set ks \<longrightarrow> k \<noteq> u ''apps'' \<longrightarrow> lookup k p \<noteq> None \<longrightarrow> lookup k out = lookup k p)
    \<and> (u ''apps'' \<in> set ks \<longrightarrow> dget (u ''apps'') p = PDict a \<longrightarrow> map_of (rev a) app \<noteq> None \<longrightarrow>
         map_of (apps_in out) app = map_of (rev a) app)
    \<and> (u ''sync'' \<notin> set ks \<longrightarrow> lookup (u ''sync'') out = Some (PStr (u ''seal'')))
    \<and> (k \<notin> set ks \<longrightarrow> k \<noteq> u ''sync'' \<longrightarrow> lookup k out = lookup k loc)"
proof (cases "ks = []")
  case True
  then have "out = AList.update (KStr (u ''sync'')) (PStr (u ''seal'')) loc" using assms by (simp add: load_policy_def)
  then show ?thesis using True by (simp add: map_of_update)
next
  case False
  define loc1 where "loc1 = AList.update (KStr (u ''sync'')) (PStr (u ''seal'')) loc"
  have put: "put_locked p (map PStr ks) loc1 = Inr out"
    using assms False by (simp add: load_policy_def loc1_def)
  have l1: "lookup j loc1 = (if j = u ''sync'' then Some (PStr (u ''seal'')) else lookup j loc)" for j
    by (simp add: loc1_def map_of_update)
  have "map_of (apps_in out) app = map_of (rev a) app"
    if locked: "u ''apps'' \<in> set ks" "dget (u ''apps'') p = PDict a" "map_of (rev a) app \<noteq> None"
  proof -
    obtain b where "lookup (u ''apps'') out = Some (PDict b)"
      "\<And>x. map_of b x = (case map_of (rev a) x of None \<Rightarrow> map_of (apps_in loc1) x | Some v \<Rightarrow> Some v)"
      using put_locked_apps [OF put locked(2,1)] by blast
    then show ?thesis using locked(3) by (auto simp: apps_in_def split: option.splits)
  qed
  moreover have "lookup (u ''sync'') out = Some (PStr (u ''seal''))" if "u ''sync'' \<notin> set ks"
    using put_locked_other [OF put, of "u ''sync''"] that l1 by simp
  ultimately show ?thesis using put_locked_other [OF put, of k] l1 by (auto split: option.splits)
qed

theorem locked_settings_win_witness:
  "\<exists>out. load_policy [(KStr (u ''mode''), PStr (u ''observe'')), (KStr (u ''notice''), PBool True)]
       (Some (stored (PDict [(KStr (u ''document''), PDict [(KStr (u ''policy''), PDict [(KStr (u ''mode''), PStr (u ''block''))]),
          (KStr (u ''locked''), PSeq (map PStr [u ''mode'']))])]) (u ''t''))) = Inr out
    \<and> lookup (u ''mode'') out = Some (PStr (u ''block''))"
proof -
  let ?doc = "[(KStr (u ''policy''), PDict [(KStr (u ''mode''), PStr (u ''block''))]), (KStr (u ''locked''), PSeq (map PStr [u ''mode'']))]"
  let ?m = "[(KStr (u ''envelope''), PDict [(KStr (u ''document''), PDict ?doc)]), (KStr (u ''fetched_at''), PStr (u ''t''))]"
  let ?file = "Some (stored (PDict [(KStr (u ''document''), PDict ?doc)]) (u ''t''))"
  let ?loc = "[(KStr (u ''mode''), PStr (u ''observe'')), (KStr (u ''notice''), PBool True)]"
  have l: "load_managed_policy ?file = Inr (Some ?m)" by (simp add: load_managed_policy_def stored_def get_in_def rmap_def)
  have d: "dget (u ''policy'') (document_of ?m) = PDict [(KStr (u ''mode''), PStr (u ''block''))]"
    "dget (u ''locked'') (document_of ?m) = PSeq (map PStr [u ''mode''])"
    by (simp_all add: document_of_def items_of_def u_def)
  have "\<exists>out. load_policy ?loc ?file = Inr out"
    using l d by (simp add: load_policy_def Let_def)
  then obtain out where o: "load_policy ?loc ?file = Inr out" ..
  have "lookup (u ''mode'') out = lookup (u ''mode'') [(KStr (u ''mode''), PStr (u ''block''))]"
    using locked_settings_win [OF l d(1,2) o, of "u ''mode''"] by (simp add: u_def)
  then show ?thesis using o by auto
qed

end
