(* ===== verification/Managed_Witness.thy ===== *)
theory Managed_Witness
  imports Managed_Props
begin

text \<open>A concrete server and device for the properties of managed policies.\<close>

definition easy_crypto :: crypto where
  "easy_crypto = \<lparr>c_sha = (\<lambda>b. b), c_b64decode = (\<lambda>_. None), c_b64encode = (\<lambda>_. []),
     c_ed25519_verify = (\<lambda>_ _ _. True), c_ed25519_sign = (\<lambda>_ _. [1])\<rparr>"

definition easy_signer :: signer where
  "easy_signer = \<lparr>sg_private = [], sg_public = replicate 32 0\<rparr>"

definition easy_env :: write_env where
  "easy_env = \<lparr>we_policy_id = u ''a'', we_issued = u ''t'', we_now = u ''t''\<rparr>"

definition no_readers :: key_readers where
  "no_readers = \<lparr>kr_pem = (\<lambda>_. None), kr_b64 = (\<lambda>_. None)\<rparr>"

definition fresh_state :: publish_state where
  "fresh_state = \<lparr>ps_last_poll = 0, ps_key_id = PNone, ps_public_key = None, ps_key_tried = False, ps_fetch_failed = False\<rparr>"

lemma easy_ok: "ed25519_ok easy_crypto easy_signer" "pinned_once fresh_state" "env_ok easy_env"
  by (simp_all add: ed25519_ok_def easy_crypto_def easy_signer_def pinned_once_def fresh_state_def env_ok_def
      easy_env_def clean_def u_def surrogate_def)

text \<open>The body of a request that puts a policy.\<close>

definition redact_body :: "(pykey \<times> pyval) list" where
  "redact_body = [(KStr (u ''mode''), PStr (u ''redact'')), (KStr (u ''retention_days''), PInt 30),
     (KStr (u ''keep_text''), PBool False), (KStr (u ''notice''), PBool True),
     (KStr (u ''apps''), PDict [(KStr (u ''claude''), PBool True)])]"

definition redact_policy :: "(pykey \<times> pyval) list" where
  "redact_policy = [(KStr (u ''mode''), PStr (u ''redact'')), (KStr (u ''apps''), PDict [(KStr (u ''claude''), PBool True)]),
     (KStr (u ''keep_text''), PBool False), (KStr (u ''retention_days''), PInt 30), (KStr (u ''notice''), PBool True)]"

lemma redact_valid: "fst (policy_body redact_body) = PDict redact_policy" "snd (policy_body redact_body) = (PStr [], PNone)"
  "validate_policy (PDict redact_policy) = Inr redact_policy"
  by (simp_all add: policy_body_def redact_body_def redact_policy_def u_def or_value_def validate_policy_def MODES_def
      RETENTION_DAYS_def Let_def)

lemma redact_jsonable: "jsonable (PDict redact_policy)" "list_all clean LOCKABLE_KEYS" "clean (signer_key_id s)"
  "clean (u ''org'')" "clean (u ''dev'')"
  by (simp_all add: redact_policy_def LOCKABLE_KEYS_def clean_signer_key_id) (simp_all add: clean_def u_def surrogate_def)

text \<open>Putting it always works, for one device or for all.\<close>

lemma put_works:
  assumes "dev \<in> {None, Some (u ''dev'')}"
  obtains row db' where "put_policy easy_crypto easy_env easy_signer (u ''org'') dev redact_body db = (Inr row, db')"
    "sd_policies db' = sd_policies db @ [row]" "pr_device row = dev" "pr_version row = next_version db" "live (Some row)"
proof -
  let ?doc = "build_document easy_env easy_signer (u ''org'') dev (PStr []) (Some redact_policy) LOCKABLE_KEYS (next_version db)"
  have "jsonable (PDict ?doc)"
    using redact_jsonable assms easy_ok(3) unfolding document_jsonable by (auto simp: clean_def)
  then obtain sig where sig: "sign_document easy_crypto easy_signer ?doc = Inr sig" using sign_document_succeeds by blast
  obtain res db' where p: "put_policy easy_crypto easy_env easy_signer (u ''org'') dev redact_body db = (res, db')" by fastforce
  have body: "policy_body redact_body = (PDict redact_policy, PStr [], PNone)" using redact_valid(1,2) by (metis prod.collapse)
  have w: "write_policy easy_crypto easy_env easy_signer (u ''org'') dev (PDict redact_policy) (PStr []) PNone None db = (res, db')"
    using p body by (simp add: put_policy_def)
  have fresh: "next_version db \<notin> pr_version ` set (sd_policies db)" using next_version_fresh by fastforce
  have "\<exists>row. res = Inr row"
    using w sig fresh redact_valid(3)
    by (simp add: write_policy_def validate_locked_def write_policy_locked_def insert_policy_def document_fields Let_def rmap_def)
      blast
  then show thesis
    using w
  proof (cases rule: write_policy_cases [OF w])
    case (2 row normalized keys)
    then show thesis using that [of row db'] p by (auto simp: live_row document_fields)
  qed auto
qed

section \<open>Witnesses\<close>

abbreviation "admin \<equiv> policy_change easy_crypto easy_signer (u ''org'')"

text \<open>A default, an override over it, and the device that holds the override.\<close>

lemma default_then_override:
  obtains w1 w2 r0 r where "admin empty_server w1" "admin w1 w2" "sv_releases w2 = []"
    "resolve_effective (u ''dev'') (sv_db w1) = Some r0" "latest_row None (sv_db w2) = Some r0" "live (Some r0)"
    "resolve_effective (u ''dev'') (sv_db w2) = Some r" "pr_device r = Some (u ''dev'')" "pr_version r0 < pr_version r"
proof -
  obtain r0 db1 where a: "put_policy easy_crypto easy_env easy_signer (u ''org'') None redact_body empty_shield = (Inr r0, db1)"
    "sd_policies db1 = sd_policies empty_shield @ [r0]" "pr_device r0 = None" "live (Some r0)"
    using put_works [of None empty_shield] by blast
  obtain r db2 where b: "put_policy easy_crypto easy_env easy_signer (u ''org'') (Some (u ''dev'')) redact_body db1 = (Inr r, db2)"
    "sd_policies db2 = sd_policies db1 @ [r]" "pr_device r = Some (u ''dev'')" "pr_version r = next_version db1" "live (Some r)"
    using put_works [of "Some (u ''dev'')" db1] by blast
  have new: "\<forall>x\<in>set (sd_policies db1). pr_version x < pr_version r" using next_version_fresh b(4) by simp
  have l1: "latest_row k db1 = (if k = None then Some r0 else None)" for k
    using latest_row_append [OF a(2), of k] a(3) by (auto simp: empty_shield_def latest_row_def)
  let ?w1 = "empty_server\<lparr>sv_db := db1\<rparr>" and ?w2 = "empty_server\<lparr>sv_db := db1\<rparr>\<lparr>sv_db := db2\<rparr>"
  have "admin empty_server ?w1" by (rule policy_change.puts [OF easy_ok(3)]) (use a(1) in \<open>simp add: empty_server_def\<close>)
  moreover have "admin ?w1 ?w2" by (rule policy_change.puts [OF easy_ok(3)]) (use b(1) in simp)
  moreover have "resolve_effective (u ''dev'') (sv_db ?w1) = Some r0" using a(4) by (simp add: resolve_effective_def pick_effective_def l1 live_def)
  moreover have "latest_row None (sv_db ?w2) = Some r0" using latest_row_append [OF b(2) new] b(3) l1 by simp
  moreover have "resolve_effective (u ''dev'') (sv_db ?w2) = Some r"
    using latest_row_append [OF b(2) new] b(3,5) by (simp add: resolve_effective_def pick_effective_def)
  moreover have "pr_version r0 < pr_version r" using new a(2) by simp
  moreover have "sv_releases ?w2 = []" by (simp add: empty_server_def)
  ultimately show thesis using that a(4) b(3) by blast
qed

theorem served_policy_moves_forward_witness:
  "\<exists>(w :: policy_server) (w' :: policy_server) r r'. resolve_effective (u ''dev'') (sv_db w) = Some r \<and> resolve_effective (u ''dev'') (sv_db w') = Some r'
    \<and> releasing w' = {} \<and> (r' = r \<or> pr_version r < pr_version r')"
proof -
  obtain w1 w2 r0 where d: "admin empty_server w1" "admin w1 w2" "sv_releases w2 = []"
    "resolve_effective (u ''dev'') (sv_db w1) = Some r0"
    by (rule default_then_override)
  have none: "releasing w2 = {}" using d(3) by (simp add: releasing_def)
  obtain r' where "resolve_effective (u ''dev'') (sv_db w2) = Some r'" "r' = r0 \<or> pr_version r0 < pr_version r'"
    using served_policy_moves_forward [OF r_into_rtranclp [where r = admin, OF d(1)] r_into_rtranclp [where r = admin, OF d(2)] d(4)] none by auto
  with d(4) none show ?thesis by blast
qed

theorem policies_append_only_witness:
  "\<exists>(w :: policy_server) (w' :: policy_server) rows. sd_policies (sv_db w') = sd_policies (sv_db w) @ rows
    \<and> sorted_wrt (<) (map pr_version (sd_policies (sv_db w'))) \<and> sd_policies (sv_db w) \<noteq> []"
proof -
  obtain w1 w2 r0 where d: "admin empty_server w1" "admin w1 w2" "resolve_effective (u ''dev'') (sv_db w1) = Some r0"
    by (rule default_then_override)
  have "sd_policies (sv_db w1) \<noteq> []" using resolve_in [OF d(3)] by auto
  then show ?thesis using policies_append_only [OF r_into_rtranclp [where r = admin, OF d(1)] d(2)] by blast
qed

abbreviation "step \<equiv> fleet_step easy_crypto no_readers easy_signer (u ''org'') (u ''dev'')"

definition start :: fleet where
  "start = \<lparr>fl_server = empty_server, fl_device = new_device fresh_state\<rparr>"

lemma run_to_override:
  assumes "admin empty_server w1" "admin w1 w2"
  shows "step\<^sup>*\<^sup>* start (start\<lparr>fl_server := w2\<rparr>)"
proof -
  have "step start (start\<lparr>fl_server := w1\<rparr>)" using fleet_step.administers [of easy_crypto easy_signer "u ''org''" start w1] assms(1)
    by (simp add: start_def)
  moreover have "step (start\<lparr>fl_server := w1\<rparr>) (start\<lparr>fl_server := w2\<rparr>)"
    using fleet_step.administers [of easy_crypto easy_signer "u ''org''" "start\<lparr>fl_server := w1\<rparr>" w2] assms(2) by simp
  ultimately show ?thesis by auto
qed

theorem managed_device_follows_witness:
  "\<exists>db r dev'. poll_policy easy_crypto no_readers (Some (enrolled_with easy_signer (u ''org'') (u ''dev''))) (ask_server (u ''dev'') db) None
      (u ''t'') True 1 True (new_device fresh_state) = (Inr (), dev') \<and> resolve_effective (u ''dev'') db = Some r \<and> holds r (dv_file dev')"
proof -
  obtain w1 w2 r where d: "admin empty_server w1" "admin w1 w2" "sv_releases w2 = []" "resolve_effective (u ''dev'') (sv_db w2) = Some r"
    by (rule default_then_override)
  have "\<not> in_gap (u ''dev'') w2" using d(3) by (simp add: in_gap_def releasing_def)
  then show ?thesis
    using managed_device_follows [OF easy_ok(1,2) run_to_override [OF d(1,2), unfolded start_def], of None "u ''t''" 1] d(4)
    by auto
qed

lemma device_with_override:
  obtains w1 w2 r r0 dev where "admin empty_server w1" "admin w1 w2" "resolve_effective (u ''dev'') (sv_db w2) = Some r"
    "holds r (dv_file dev)" "latest_row None (sv_db w2) = Some r0" "live (Some r0)" "pr_version r0 < pr_version r"
    "polled easy_crypto no_readers (enrolled_with easy_signer (u ''org'') (u ''dev'')) (new_device fresh_state) dev"
proof -
  obtain w1 w2 r0 r where d: "admin empty_server w1" "admin w1 w2" "resolve_effective (u ''dev'') (sv_db w2) = Some r"
    "latest_row None (sv_db w2) = Some r0" "live (Some r0)" "pr_version r0 < pr_version r"
    by (rule default_then_override)
  have ok: "policies_ok easy_crypto easy_signer (u ''org'') (sv_db w2)"
    using policy_change_ok [OF d(2) policy_change_ok [OF d(1) empty_server_ok]] by (simp add: server_ok_def)
  have "file_ok easy_crypto easy_signer (u ''org'') (sv_db w2) (dv_file (new_device fresh_state)) None"
    by (simp add: file_ok_def new_device_def)
  from poll_syncs [OF ok easy_ok(1) this, of "u ''dev''" no_readers None "u ''t''" 1] d(3)
  obtain dev where p: "poll_policy easy_crypto no_readers (Some (enrolled_with easy_signer (u ''org'') (u ''dev''))) (ask_server (u ''dev'') (sv_db w2))
      None (u ''t'') True 1 True (new_device fresh_state) = (Inr (), dev)" "holds r (dv_file dev)" by auto
  show thesis using that d p(2) polled.intros [OF p(1)] by blast
qed

theorem managed_policy_authentic_witness:
  "\<exists>envelope t key (dev :: device). dv_file dev = Some (stored envelope t)
    \<and> authentic easy_crypto (enrolled_with easy_signer (u ''org'') (u ''dev'')) key envelope"
proof -
  obtain r and dev :: device where d: "holds r (dv_file dev)"
    "polled easy_crypto no_readers (enrolled_with easy_signer (u ''org'') (u ''dev'')) (new_device fresh_state) dev"
    by (rule device_with_override)
  have "pinned_once (dv_publish (new_device fresh_state))" using easy_ok(2) by (simp add: new_device_def)
  from managed_policy_authentic [OF r_into_rtranclp [where r = "polled easy_crypto no_readers (enrolled_with easy_signer (u ''org'') (u ''dev''))", OF d(2)] this]
  show ?thesis using d(1) by (auto simp: holds_def new_device_def)
qed

theorem interrupted_release_strands_device_witness:
  "\<exists>db dev dev' tombstone db1. write_tombstone easy_crypto easy_env easy_signer (u ''org'') (u ''dev'') None db = (Inr tombstone, db1)
    \<and> poll_policy easy_crypto no_readers (Some (enrolled_with easy_signer (u ''org'') (u ''dev''))) (ask_server (u ''dev'') db1) None
        (u ''t'') True 1 True dev = (Inr (), dev')
    \<and> dv_error dev' = Some (RefusedFor RollbackRefused) \<and> dv_file dev' = dv_file dev"
proof -
  obtain w1 w2 r r0 and dev :: device where d: "admin empty_server w1" "admin w1 w2" "resolve_effective (u ''dev'') (sv_db w2) = Some r"
    "holds r (dv_file dev)" "latest_row None (sv_db w2) = Some r0" "live (Some r0)" "pr_version r0 < pr_version r"
    by (rule device_with_override)
  let ?doc = "build_document easy_env easy_signer (u ''org'') (Some (u ''dev'')) (PStr []) None [] (next_version (sv_db w2))"
  have "jsonable (PDict ?doc)" using redact_jsonable easy_ok(3) unfolding document_jsonable by (simp add: clean_def)
  then obtain sig where sig: "sign_document easy_crypto easy_signer ?doc = Inr sig" using sign_document_succeeds by blast
  have fresh: "next_version (sv_db w2) \<notin> pr_version ` set (sd_policies (sv_db w2))" using next_version_fresh by fastforce
  obtain tombstone db3 where t: "write_tombstone easy_crypto easy_env easy_signer (u ''org'') (u ''dev'') None (sv_db w2) = (Inr tombstone, db3)"
    using sig fresh by (simp add: write_tombstone_def write_policy_def write_policy_locked_def insert_policy_def document_fields Let_def)
  have run: "admin\<^sup>*\<^sup>* empty_server w2" using d(1,2) by (meson converse_rtranclp_into_rtranclp r_into_rtranclp)
  from interrupted_release_strands_device [OF run easy_ok(1) d(3-7) t refl] t show ?thesis by blast
qed

end
