(* ===== verification/Filters.thy ===== *)
theory Filters
  imports Shield_Store
begin

text \<open>
  \<open>vector/filters.py\<close>: one filter dialect, parsed into a small tree and compiled to SQL, to Pinecone and to
  Qdrant. A filter is a JSON value. \<open>alnum\<close> stands for the characters \<open>str.isalnum\<close> accepts and \<open>repr\<close> for
  the text \<open>str()\<close> gives a value that is no string. \<open>to_pgvector_sql\<close> appends to the list of parameters its
  caller hands it; the model returns that list when the compilation succeeds and drops it when it fails.
\<close>

datatype comparison_op = Eq | Ne | Gt | Gte | Lt | Lte | In | Nin

datatype logical_op = And | Or | Not

datatype filter_node =
    Comparison pystr comparison_op pyval
  | Logical logical_op "filter_node list"

datatype filter_error =
    NotANonEmptyDict | ExpectsNonEmptyList | UnsupportedOperator | UnsupportedComparison | ExpectsList
  | NoneUnsupported | InvalidFieldName | PineconeNot | NotJson
  | KeyHasNoStartswith | ValueNotIterable | NoChild

fun op_text :: "comparison_op \<Rightarrow> pystr" where
  "op_text Eq = u ''$eq''" | "op_text Ne = u ''$ne''" | "op_text Gt = u ''$gt''" | "op_text Gte = u ''$gte''"
| "op_text Lt = u ''$lt''" | "op_text Lte = u ''$lte''" | "op_text In = u ''$in''" | "op_text Nin = u ''$nin''"

fun logical_text :: "logical_op \<Rightarrow> pystr" where
  "logical_text And = u ''$and''" | "logical_text Or = u ''$or''" | "logical_text Not = u ''$not''"

definition COMPARISON_OPS :: "comparison_op list" where
  "COMPARISON_OPS = [Eq, Ne, Gt, Gte, Lt, Lte, In, Nin]"

definition LOGICAL_OPS :: "logical_op list" where
  "LOGICAL_OPS = [And, Or, Not]"

definition comparison_of :: "pykey \<Rightarrow> comparison_op option" where
  "comparison_of k = find (\<lambda>x. k = KStr (op_text x)) COMPARISON_OPS"

definition logical_of :: "pykey \<Rightarrow> logical_op option" where
  "logical_of k = find (\<lambda>x. k = KStr (logical_text x)) LOGICAL_OPS"

fun is_seq :: "pyval \<Rightarrow> bool" where
  "is_seq (PSeq _) = True" | "is_seq _ = False"

section \<open>Parsing\<close>

definition parse_comparison :: "pystr \<Rightarrow> pykey \<times> pyval \<Rightarrow> filter_error + filter_node" where
  "parse_comparison field = (\<lambda>(k, operand).
     case comparison_of k of
       None \<Rightarrow> Inl UnsupportedComparison
     | Some x \<Rightarrow> if x \<in> {In, Nin} \<and> \<not> is_seq operand then Inl ExpectsList else Inr (Comparison field x operand))"

text \<open>
  The nodes one entry adds; \<open>whole\<close> is the parse of its value and \<open>parts\<close> are the parses of the members of
  its value when that is a list.
\<close>

definition parse_entry ::
  "pykey \<Rightarrow> pyval \<Rightarrow> filter_error + filter_node \<Rightarrow> (filter_error + filter_node) list \<Rightarrow> filter_error + filter_node list" where
  "parse_entry k v whole parts =
     (case logical_of k of
        Some Not \<Rightarrow> rmap (\<lambda>n. [Logical Not [n]]) whole
      | Some x \<Rightarrow> if parts = [] then Inl ExpectsNonEmptyList else rmap (\<lambda>ns. [Logical x ns]) (rseq parts)
      | None \<Rightarrow>
          (case k of
             KOther \<Rightarrow> Inl KeyHasNoStartswith
           | KStr field \<Rightarrow>
               if take 1 field = u ''$'' then Inl UnsupportedOperator
               else (case v of
                       PDict items \<Rightarrow> rseq (map (parse_comparison field) items)
                     | _ \<Rightarrow> Inr [Comparison field Eq v])))"

definition conjunction :: "filter_node list \<Rightarrow> filter_node" where
  "conjunction nodes = (case nodes of [n] \<Rightarrow> n | _ \<Rightarrow> Logical And nodes)"

fun parse :: "pyval \<Rightarrow> filter_error + filter_node" where
  "parse (PDict items) =
     (if items = [] then Inl NotANonEmptyDict
      else rmap (conjunction \<circ> concat)
             (rseq (map (\<lambda>(k, v). parse_entry k v (parse v) (case v of PSeq xs \<Rightarrow> map parse xs | _ \<Rightarrow> [])) items)))"
| "parse _ = Inl NotANonEmptyDict"

text \<open>\<open>loads\<close> is \<open>json.loads\<close>, \<open>None\<close> for text that is not JSON.\<close>

definition parse_json :: "(pystr \<Rightarrow> pyval option) \<Rightarrow> pyval \<Rightarrow> filter_error + filter_node" where
  "parse_json loads expr =
     (case expr of
        PStr t \<Rightarrow>
          (case loads t of
             None \<Rightarrow> Inl NotJson
           | Some (PDict items) \<Rightarrow> parse (PDict items)
           | Some _ \<Rightarrow> Inl NotJson)
      | _ \<Rightarrow> parse expr)"

section \<open>SQL\<close>

fun SQL_OPS :: "comparison_op \<Rightarrow> pystr" where
  "SQL_OPS Eq = u ''=''" | "SQL_OPS Ne = u ''!=''" | "SQL_OPS Gt = u ''>''" | "SQL_OPS Gte = u ''>=''"
| "SQL_OPS Lt = u ''<''" | "SQL_OPS Lte = u ''<=''" | "SQL_OPS In = []" | "SQL_OPS Nin = []"

definition check_field :: "(nat \<Rightarrow> bool) \<Rightarrow> pystr \<Rightarrow> bool" where
  "check_field alnum field =
     (let rest = filter (\<lambda>ch. ch \<noteq> 46) (filter (\<lambda>ch. ch \<noteq> 95) field) in rest \<noteq> [] \<and> list_all alnum rest)"

definition to_text :: "(pyval \<Rightarrow> pystr) \<Rightarrow> pyval \<Rightarrow> pystr" where
  "to_text repr v = (case v of PBool b \<Rightarrow> if b then u ''true'' else u ''false'' | _ \<Rightarrow> py_str repr v)"

fun is_number :: "pyval \<Rightarrow> bool" where
  "is_number (PInt _) = True" | "is_number (PFloat _) = True" | "is_number _ = False"

definition dollar :: "nat \<Rightarrow> pystr" where
  "dollar n = 36 # nat_digits n"

definition walk_comparison ::
  "(nat \<Rightarrow> bool) \<Rightarrow> (pyval \<Rightarrow> pystr) \<Rightarrow> pystr \<Rightarrow> pystr \<Rightarrow> comparison_op \<Rightarrow> pyval \<Rightarrow> pyval list
     \<Rightarrow> filter_error + (pystr \<times> pyval list)" where
  "walk_comparison alnum repr column field x v params =
     (if \<not> check_field alnum field then Inl InvalidFieldName
      else
        (let p1 = params @ [PStr field]; accessor = column @ u ''->>'' @ dollar (length p1) in
         if x \<in> {In, Nin} then
           (case py_iter v of
              None \<Rightarrow> Inl ValueNotIterable
            | Some vs \<Rightarrow>
                (let p2 = p1 @ [PSeq (map (PStr \<circ> to_text repr) vs)];
                     clause = accessor @ u '' = ANY('' @ dollar (length p2) @ u '')''
                 in Inr (if x = Nin then u ''NOT ('' @ clause @ u '')'' else clause, p2)))
         else if v = PNone then
           (if x = Eq then Inr (accessor @ u '' IS NULL'', p1)
            else if x = Ne then Inr (accessor @ u '' IS NOT NULL'', p1)
            else Inl NoneUnsupported)
         else if is_number v then
           (let p2 = p1 @ [v] in
            Inr (u ''('' @ accessor @ u '')::numeric '' @ SQL_OPS x @ u '' '' @ dollar (length p2), p2))
         else
           (let p2 = p1 @ [PStr (to_text repr v)] in
            Inr (accessor @ u '' '' @ SQL_OPS x @ u '' '' @ dollar (length p2), p2))))"

fun join_with :: "pystr \<Rightarrow> pystr list \<Rightarrow> pystr" where
  "join_with sep [] = []"
| "join_with sep [t] = t"
| "join_with sep (t # ts) = t @ sep @ join_with sep ts"

fun walk_node :: "(nat \<Rightarrow> bool) \<Rightarrow> (pyval \<Rightarrow> pystr) \<Rightarrow> pystr \<Rightarrow> filter_node \<Rightarrow> pyval list \<Rightarrow> filter_error + (pystr \<times> pyval list)"
  and walk_all :: "(nat \<Rightarrow> bool) \<Rightarrow> (pyval \<Rightarrow> pystr) \<Rightarrow> pystr \<Rightarrow> filter_node list \<Rightarrow> pyval list
    \<Rightarrow> filter_error + (pystr list \<times> pyval list)" where
  "walk_node alnum repr column (Comparison field x v) params = walk_comparison alnum repr column field x v params"
| "walk_node alnum repr column (Logical x children) params =
     (if x = Not then
        (case children of
           [] \<Rightarrow> Inl NoChild
         | n # _ \<Rightarrow> rmap (\<lambda>(t, ps). (u ''NOT ('' @ t @ u '')'', ps)) (walk_node alnum repr column n params))
      else rmap (\<lambda>(ts, ps). (u ''('' @ join_with (if x = And then u '' AND '' else u '' OR '') ts @ u '')'', ps))
             (walk_all alnum repr column children params))"
| "walk_all alnum repr column [] params = Inr ([], params)"
| "walk_all alnum repr column (n # ns) params =
     rbind (walk_node alnum repr column n params) (\<lambda>(t, ps).
       rmap (\<lambda>(ts, ps'). (t # ts, ps')) (walk_all alnum repr column ns ps))"

definition to_pgvector_sql ::
  "(nat \<Rightarrow> bool) \<Rightarrow> (pyval \<Rightarrow> pystr) \<Rightarrow> filter_node \<Rightarrow> pystr \<Rightarrow> pyval list option \<Rightarrow> filter_error + (pystr \<times> pyval list)" where
  "to_pgvector_sql alnum repr node column params =
     walk_node alnum repr column node (case params of None \<Rightarrow> [] | Some ps \<Rightarrow> ps)"

section \<open>Pinecone and Qdrant\<close>

definition obj :: "pystr \<Rightarrow> pyval \<Rightarrow> pyval" where
  "obj k v = PDict [(KStr k, v)]"

fun to_pinecone :: "filter_node \<Rightarrow> filter_error + pyval" where
  "to_pinecone (Logical x children) =
     (if x = Not then Inl PineconeNot
      else rmap (\<lambda>vs. obj (logical_text x) (PSeq vs)) (rseq (map to_pinecone children)))"
| "to_pinecone (Comparison field x v) = Inr (obj field (obj (op_text x) v))"

definition match_value :: "pystr \<Rightarrow> pystr \<Rightarrow> pyval \<Rightarrow> pyval" where
  "match_value field how v = PDict [(KStr (u ''key''), PStr field), (KStr (u ''match''), obj how v)]"

definition QDRANT_RANGE_OPS :: "comparison_op \<Rightarrow> pystr option" where
  "QDRANT_RANGE_OPS x =
     (case x of Gt \<Rightarrow> Some (u ''gt'') | Gte \<Rightarrow> Some (u ''gte'') | Lt \<Rightarrow> Some (u ''lt'') | Lte \<Rightarrow> Some (u ''lte'') | _ \<Rightarrow> None)"

definition qdrant_comparison :: "pystr \<Rightarrow> comparison_op \<Rightarrow> pyval \<Rightarrow> filter_error + pyval" where
  "qdrant_comparison field x v =
     (if x = Eq then Inr (match_value field (u ''value'') v)
      else if x = Ne then Inr (obj (u ''must_not'') (PSeq [match_value field (u ''value'') v]))
      else (case QDRANT_RANGE_OPS x of
              Some r \<Rightarrow> Inr (PDict [(KStr (u ''key''), PStr field), (KStr (u ''range''), obj r v)])
            | None \<Rightarrow>
                (case py_iter v of
                   None \<Rightarrow> Inl ValueNotIterable
                 | Some vs \<Rightarrow>
                     (let m = match_value field (u ''any'') (PSeq vs)
                      in Inr (if x = In then m else obj (u ''must_not'') (PSeq [m]))))))"

fun qdrant_clause :: "logical_op \<Rightarrow> pystr" where
  "qdrant_clause And = u ''must''" | "qdrant_clause Or = u ''should''" | "qdrant_clause Not = u ''must_not''"

fun to_qdrant :: "filter_node \<Rightarrow> filter_error + pyval" where
  "to_qdrant (Logical x children) = rmap (\<lambda>vs. obj (qdrant_clause x) (PSeq vs)) (rseq (map to_qdrant children))"
| "to_qdrant (Comparison field x v) = qdrant_comparison field x v"

end
