(* ===== verification/Filters_Props.thy ===== *)
theory Filters_Props
  imports Filters
begin

text \<open>
  What a compiled filter says: parsing is the inverse of the Pinecone compiler, and the SQL text is built from
  fixed words, the column name and placeholders that number the bound parameters.
\<close>

section \<open>The nodes the parser builds\<close>

lemma comparison_of_text [simp]: "comparison_of (KStr (op_text x)) = Some x"
  by (cases x) (simp_all add: comparison_of_def COMPARISON_OPS_def)

lemma logical_of_text [simp]: "logical_of (KStr (logical_text x)) = Some x"
  by (cases x) (simp_all add: logical_of_def LOGICAL_OPS_def)

lemma logical_of_SomeD: "logical_of k = Some x \<Longrightarrow> k = KStr (logical_text x)"
  by (auto simp: logical_of_def find_Some_iff)

lemma logical_text_dollar: "take 1 (logical_text x) = u ''$''"
  by (cases x) (simp_all add: u_def)

lemma logical_of_None: "take 1 s \<noteq> u ''$'' \<Longrightarrow> logical_of (KStr s) = None"
  using logical_of_SomeD [of "KStr s"] logical_text_dollar by (cases "logical_of (KStr s)") auto

fun parsed :: "filter_node \<Rightarrow> bool" where
  "parsed (Comparison field x v) = (take 1 field \<noteq> u ''$'' \<and> (x \<in> {In, Nin} \<longrightarrow> is_seq v))"
| "parsed (Logical x ns) = (list_all parsed ns \<and> (x = Or \<longrightarrow> ns \<noteq> []) \<and> (x = Not \<longrightarrow> length ns = 1))"

text \<open>No conjunction of nothing, which is what \<open>{field: {}}\<close> is parsed to.\<close>

fun inhabited :: "filter_node \<Rightarrow> bool" where
  "inhabited (Comparison field x v) = True"
| "inhabited (Logical x ns) = (ns \<noteq> [] \<and> list_all inhabited ns)"

lemma parsed_comparison:
  "parse_comparison field i = Inr n \<Longrightarrow> take 1 field \<noteq> u ''$'' \<Longrightarrow> parsed n"
  by (auto simp: parse_comparison_def split: prod.splits option.splits if_splits)

lemma rseq_all:
  assumes "rseq rs = Inr xs" and "\<And>r x. r \<in> set rs \<Longrightarrow> r = Inr x \<Longrightarrow> P x"
  shows "list_all P xs"
  using assms by (auto simp: rseq_Inr_iff list_all_iff)

lemma parsed_entry:
  assumes eq: "parse_entry k v whole parts = Inr ns"
    and whole: "\<And>n. whole = Inr n \<Longrightarrow> parsed n" and parts: "\<And>n. Inr n \<in> set parts \<Longrightarrow> parsed n"
  shows "list_all parsed ns"
proof (cases "logical_of k")
  case (Some x)
  with eq whole parts show ?thesis
    by (cases x) (auto simp: parse_entry_def result_simps list_all_iff split: if_splits)
next
  case None
  with eq obtain field where f: "take 1 field \<noteq> u ''$''" and
    ns: "ns = [Comparison field Eq v] \<or> (\<exists>items. rseq (map (parse_comparison field) items) = Inr ns)"
    by (auto simp: parse_entry_def split: pykey.splits if_splits pyval.splits)
  from ns show ?thesis
  proof
    assume "ns = [Comparison field Eq v]"
    with f show ?thesis by simp
  next
    assume "\<exists>items. rseq (map (parse_comparison field) items) = Inr ns"
    then obtain items where items: "rseq (map (parse_comparison field) items) = Inr ns" ..
    show ?thesis by (rule rseq_all [OF items]) (metis imageE list.set_map parsed_comparison [OF _ f])
  qed
qed

lemma parsed_conjunction: "list_all parsed ns \<Longrightarrow> parsed (conjunction ns)"
  by (auto simp: conjunction_def split: list.splits)

lemma parse_parsed: "parse e = Inr n \<Longrightarrow> parsed n"
proof (induction e arbitrary: n rule: parse.induct)
  case (1 items)
  from "1.prems" obtain ns where
    seq: "rseq (map (\<lambda>(k, v). parse_entry k v (parse v) (case v of PSeq xs \<Rightarrow> map parse xs | _ \<Rightarrow> [])) items) = Inr ns"
    and n: "n = conjunction (concat ns)"
    by (auto simp: result_simps split: if_splits)
  have "list_all (list_all parsed) ns"
  proof (rule rseq_all [OF seq])
    fix r xs
    assume "r \<in> set (map (\<lambda>(k, v). parse_entry k v (parse v) (case v of PSeq xs \<Rightarrow> map parse xs | _ \<Rightarrow> [])) items)"
      and "r = Inr xs"
    then obtain k v where kv: "(k, v) \<in> set items"
      and eq: "parse_entry k v (parse v) (case v of PSeq xs \<Rightarrow> map parse xs | _ \<Rightarrow> []) = Inr xs"
      by auto
    show "list_all parsed xs"
    proof (rule parsed_entry [OF eq])
      show "parsed m" if "parse v = Inr m" for m
        using "1.IH" kv "1.prems" that by (cases "items = []") auto
      show "parsed m" if m: "Inr m \<in> set (case v of PSeq xs \<Rightarrow> map parse xs | _ \<Rightarrow> [])" for m
        using "1.IH" kv "1.prems" m by (cases "items = []"; cases v) auto
    qed
  qed
  then show ?case unfolding n by (intro parsed_conjunction) (auto simp: list_all_iff)
qed simp_all

section \<open>Pinecone: the parser undoes the compiler\<close>

lemma parse_obj:
  "parse (obj k v) = rmap conjunction (parse_entry (KStr k) v (parse v) (case v of PSeq xs \<Rightarrow> map parse xs | _ \<Rightarrow> []))"
  by (cases "parse_entry (KStr k) v (parse v) (case v of PSeq xs \<Rightarrow> map parse xs | _ \<Rightarrow> [])") (simp_all add: obj_def)

lemma parse_obj_comparison:
  assumes "take 1 field \<noteq> u ''$''" and "x \<in> {In, Nin} \<longrightarrow> is_seq v"
  shows "parse (obj field (obj (op_text x) v)) = Inr (Comparison field x v)"
  using assms
  by (auto simp: parse_obj parse_entry_def logical_of_None parse_comparison_def conjunction_def obj_def)

lemma rseq_if:
  assumes "\<And>x. x \<in> set xs \<Longrightarrow> f (g x) = (if P x then Inr x else Inl e)"
  shows "rseq (map f (map g xs)) = (if list_all P xs then Inr xs else Inl e)"
  using assms by (induction xs) auto

lemma parse_obj_logical:
  assumes "x \<noteq> Not"
  shows "parse (obj (logical_text x) (PSeq vs)) =
    (if vs = [] then Inl ExpectsNonEmptyList else rmap (\<lambda>ns. Logical x ns) (rseq (map parse vs)))"
  using assms unfolding parse_obj parse_entry_def logical_of_text
  by (cases "rseq (map parse vs)"; cases x) (auto simp: conjunction_def)

lemma parse_pinecone:
  assumes "parsed n" and "to_pinecone n = Inr p"
  shows "parse p = (if inhabited n then Inr n else Inl ExpectsNonEmptyList)"
  using assms
proof (induction n arbitrary: p rule: to_pinecone.induct)
  case (1 x ns)
  from "1.prems" have x: "x \<noteq> Not" by auto
  with "1.prems" obtain vs where vs: "map to_pinecone ns = map Inr vs" and p: "p = obj (logical_text x) (PSeq vs)"
    by (auto simp: result_simps)
  have len: "length ns = length vs" using vs by (metis length_map)
  define g where "g = (\<lambda>m. case to_pinecone m of Inr q \<Rightarrow> q | _ \<Rightarrow> PNone)"
  have vs': "vs = map g ns"
    using vs unfolding g_def by (induction ns arbitrary: vs) auto
  have each: "parse (g m) = (if inhabited m then Inr m else Inl ExpectsNonEmptyList)" if m: "m \<in> set ns" for m
  proof -
    from m vs obtain q where q: "to_pinecone m = Inr q"
      by (metis imageE image_eqI list.set_map)
    with "1.IH" [OF x m] "1.prems" m show ?thesis by (auto simp: g_def list_all_iff)
  qed
  have "rseq (map parse vs) = (if list_all inhabited ns then Inr ns else Inl ExpectsNonEmptyList)"
    unfolding vs' by (rule rseq_if) (rule each)
  then show ?case
    using x len by (auto simp: p parse_obj_logical)
next
  case (2 field x v)
  then show ?case by (auto simp: parse_obj_comparison)
qed

text \<open>
  C26: parsing undoes the Pinecone compiler. A filter that parses to \<open>n\<close> and compiles to \<open>p\<close> is given back as
  the same tree when \<open>p\<close> is parsed, unless the tree holds a conjunction of nothing; then \<open>p\<close> is a filter the
  parser itself refuses.
\<close>

theorem pinecone_roundtrip:
  assumes "parse e = Inr n" and "to_pinecone n = Inr p"
  shows "parse p = (if inhabited n then Inr n else Inl ExpectsNonEmptyList)"
  using parse_pinecone [OF parse_parsed [OF assms(1)] assms(2)] .

section \<open>The text of a compiled clause\<close>

datatype segment = Fixed pystr | Column | Placeholder nat

fun render :: "pystr \<Rightarrow> segment \<Rightarrow> pystr" where
  "render column (Fixed w) = w" | "render column Column = column" | "render column (Placeholder n) = dollar n"

fun holes :: "segment list \<Rightarrow> nat list" where
  "holes [] = []" | "holes (Placeholder n # ss) = n # holes ss" | "holes (_ # ss) = holes ss"

definition SQL_WORDS :: "pystr list" where
  "SQL_WORDS = map u [''->>'', '' = ANY('', '')'', ''NOT ('', '' IS NULL'', '' IS NOT NULL'', ''('', '')::numeric '',
     '' '', '' AND '', '' OR ''] @ map SQL_OPS [Eq, Ne, Gt, Gte, Lt, Lte]"

definition fixed_text :: "segment list \<Rightarrow> bool" where
  "fixed_text ss = list_all (\<lambda>s. case s of Fixed w \<Rightarrow> w \<in> set SQL_WORDS | _ \<Rightarrow> True) ss"

text \<open>The segments \<open>ss\<close> spell \<open>t\<close>, and their placeholders number the values bound between \<open>ps\<close> and \<open>ps'\<close>.\<close>

definition spells :: "pystr \<Rightarrow> segment list \<Rightarrow> pyval list \<Rightarrow> pystr \<Rightarrow> pyval list \<Rightarrow> bool" where
  "spells column ss ps t ps' \<longleftrightarrow>
     t = concat (map (render column) ss) \<and> fixed_text ss \<and> holes ss = [length ps + 1..<length ps' + 1]
       \<and> length ps \<le> length ps' \<and> take (length ps) ps' = ps"

lemma holes_append [simp]: "holes (ss @ ss') = holes ss @ holes ss'"
  by (induction ss rule: holes.induct) simp_all

lemma fixed_text_append [simp]: "fixed_text (ss @ ss') \<longleftrightarrow> fixed_text ss \<and> fixed_text ss'"
  by (simp add: fixed_text_def)

lemma spells_append:
  assumes "spells column ss ps t ps'" and "spells column ss' ps' t' ps''"
  shows "spells column (ss @ ss') ps (t @ t') ps''"
proof -
  have le: "length ps \<le> length ps'" using assms by (simp add: spells_def)
  have "take (length ps) ps'' = take (length ps) (take (length ps') ps'')"
    by (simp add: min_absorb1 le)
  also have "\<dots> = ps" using assms by (simp add: spells_def)
  finally have "take (length ps) ps'' = ps" .
  moreover have "[length ps + 1..<length ps'' + 1] = [length ps + 1..<length ps' + 1] @ [length ps' + 1..<length ps'' + 1]"
    using assms upt_add_eq_append [of "length ps + 1" "length ps' + 1" "length ps'' - length ps'"]
    unfolding spells_def by simp
  ultimately show ?thesis
    using assms unfolding spells_def by simp
qed

lemma spells_word: "w \<in> set SQL_WORDS \<Longrightarrow> spells column [Fixed w] ps w ps"
  by (simp add: spells_def fixed_text_def)

lemma spells_column: "spells column [Column] ps column ps"
  by (simp add: spells_def fixed_text_def)

lemma spells_placeholder: "spells column [Placeholder (length (ps @ [v]))] ps (dollar (length (ps @ [v]))) (ps @ [v])"
  by (simp add: spells_def fixed_text_def)

definition spelled :: "pystr \<Rightarrow> pyval list \<Rightarrow> pystr \<Rightarrow> pyval list \<Rightarrow> bool" where
  "spelled column ps t ps' \<longleftrightarrow> (\<exists>ss. spells column ss ps t ps')"

named_theorems spelling \<open>how a clause is put together\<close>

lemma spelled_append [spelling]: "spelled column ps t ps' \<Longrightarrow> spelled column ps' t' ps'' \<Longrightarrow> spelled column ps (t @ t') ps''"
  unfolding spelled_def by (blast intro: spells_append)

lemma spelled_word: "w \<in> set SQL_WORDS \<Longrightarrow> spelled column ps w ps"
  unfolding spelled_def by (blast intro: spells_word)

lemma spelled_column [spelling]: "spelled column ps column ps"
  unfolding spelled_def by (blast intro: spells_column)

lemma spelled_placeholder [spelling]: "spelled column ps (dollar (length (ps @ [v]))) (ps @ [v])"
  unfolding spelled_def by (blast intro: spells_placeholder)

lemma spelled_words [spelling]:
  "spelled column ps (u ''->>'') ps" "spelled column ps (u '' = ANY('') ps" "spelled column ps (u '')'') ps"
  "spelled column ps (u ''NOT ('') ps" "spelled column ps (u '' IS NULL'') ps"
  "spelled column ps (u '' IS NOT NULL'') ps" "spelled column ps (u ''('') ps"
  "spelled column ps (u '')::numeric '') ps" "spelled column ps (u '' '') ps"
  "spelled column ps (u '' AND '') ps" "spelled column ps (u '' OR '') ps"
  by (rule spelled_word, simp add: SQL_WORDS_def)+

lemma spelled_op [spelling]: "x \<notin> {In, Nin} \<Longrightarrow> spelled column ps (SQL_OPS x) ps"
  by (rule spelled_word) (cases x; simp add: SQL_WORDS_def)

lemma spelled_refl [spelling]: "spelled column ps [] ps"
  unfolding spelled_def by (rule exI [of _ "[]"]) (simp add: spells_def fixed_text_def)

lemma spelled_accessor [spelling]:
  "spelled column ps (column @ u ''->>'' @ dollar (length (ps @ [v]))) (ps @ [v])"
  by (rule spelling)+

lemma spelled_comparison:
  assumes "walk_comparison alnum repr column field x v ps = Inr (t, ps')"
  shows "spelled column ps t ps'"
proof -
  let ?p1 = "ps @ [PStr field]" and ?a = "column @ u ''->>'' @ dollar (length (ps @ [PStr field]))"
  have any: "spelled column ps (?a @ u '' = ANY('' @ dollar (length (?p1 @ [w])) @ u '')'') (?p1 @ [w])" for w
    by (rule spelling)+
  have num: "spelled column ps (u ''('' @ ?a @ u '')::numeric '' @ SQL_OPS x @ u '' '' @ dollar (length (?p1 @ [w]))) (?p1 @ [w])"
    and plain: "spelled column ps (?a @ u '' '' @ SQL_OPS x @ u '' '' @ dollar (length (?p1 @ [w]))) (?p1 @ [w])"
    if "x \<notin> {In, Nin}" for w
    by (insert that, (rule spelling | assumption)+)
  have null: "spelled column ps (?a @ u '' IS NULL'') ?p1" "spelled column ps (?a @ u '' IS NOT NULL'') ?p1"
    by (rule spelling)+
  have nin: "spelled column ps (u ''NOT ('' @ (?a @ u '' = ANY('' @ dollar (length (?p1 @ [w])) @ u '')'') @ u '')'') (?p1 @ [w])" for w
    by (rule spelling)+
  from assms show ?thesis
    unfolding walk_comparison_def Let_def
    using any nin num plain null by (auto split: if_splits option.splits)
qed

text \<open>Several texts one after the other, with a separator between them.\<close>

inductive spelled_all :: "pystr \<Rightarrow> pyval list \<Rightarrow> pystr list \<Rightarrow> pyval list \<Rightarrow> bool" for column where
  none: "spelled_all column ps [] ps"
| one_more: "spelled column ps t ps' \<Longrightarrow> spelled_all column ps' ts ps'' \<Longrightarrow> spelled_all column ps (t # ts) ps''"

lemma spelled_join:
  assumes "spelled_all column ps ts ps'" and sep: "\<And>qs. spelled column qs sep qs"
  shows "spelled column ps (join_with sep ts) ps'"
  using assms(1)
proof (induction rule: spelled_all.induct)
  case (none ps)
  then show ?case by (simp add: spelled_refl)
next
  case (one_more ps t ps' ts ps'')
  show ?case
  proof (cases ts)
    case Nil
    with one_more.hyps show ?thesis by (auto elim: spelled_all.cases)
  next
    case (Cons t' ts')
    with one_more.IH have "spelled column ps' (join_with sep (t' # ts')) ps''" by simp
    with one_more.hyps(1) sep [of ps'] show ?thesis
      by (auto simp: Cons intro!: spelled_append)
  qed
qed

lemma spelled_walk:
  "walk_node alnum repr column n ps = Inr (t, ps') \<Longrightarrow> spelled column ps t ps'"
  "walk_all alnum repr column ns ps = Inr (ts, ps') \<Longrightarrow> spelled_all column ps ts ps'"
proof (induction alnum repr column n ps and alnum repr column ns ps arbitrary: t ps' and ts ps' rule: walk_node_walk_all.induct)
  case (1 alnum repr column field x v params)
  then show ?case by (auto intro: spelled_comparison)
next
  case (2 alnum repr column x children params)
  show ?case
  proof (cases "x = Not")
    case True
    with "2.prems" obtain m ms t' where c: "children = m # ms" and w: "walk_node alnum repr column m params = Inr (t', ps')"
      and t: "t = u ''NOT ('' @ t' @ u '')''"
      by (auto simp: result_simps split: list.splits)
    have "spelled column params t' ps'" by (rule "2.IH"(1) [OF True c w])
    then show ?thesis unfolding t
      by (intro spelled_append [OF spelled_words(4)] spelled_append [OF _ spelled_words(3)])
  next
    case False
    with "2.prems" obtain ts where w: "walk_all alnum repr column children params = Inr (ts, ps')"
      and t: "t = u ''('' @ join_with (if x = And then u '' AND '' else u '' OR '') ts @ u '')''"
      by (auto simp: result_simps)
    have "spelled_all column params ts ps'" by (rule "2.IH"(2) [OF False w])
    then have "spelled column params (join_with (if x = And then u '' AND '' else u '' OR '') ts) ps'"
      by (rule spelled_join) (simp add: spelled_words)
    then show ?thesis unfolding t
      by (intro spelled_append [OF spelled_words(7)] spelled_append [OF _ spelled_words(3)])
  qed
next
  case (3 alnum repr column params)
  then show ?case by (auto intro: spelled_all.none)
next
  case (4 alnum repr column n ns params)
  then show ?case by (auto simp: result_simps intro!: spelled_all.one_more)
qed

text \<open>
  C27: no text of the request reaches the SQL statement. The clause is made of fixed words, the name of the
  metadata column and placeholders; the placeholders number, in order and without a gap, the values bound
  after the seeded ones, and the seeded ones are kept.
\<close>

theorem sql_clause_is_fixed_text:
  assumes "to_pgvector_sql alnum repr n column (Some ps) = Inr (t, ps')"
  shows "\<exists>ss. t = concat (map (render column) ss) \<and> fixed_text ss
    \<and> holes ss = [length ps + 1..<length ps' + 1] \<and> take (length ps) ps' = ps"
proof -
  have "spelled column ps t ps'"
    using spelled_walk(1) assms by (simp add: to_pgvector_sql_def)
  then show ?thesis unfolding spelled_def spells_def by blast
qed

section \<open>What is refused\<close>

fun sql_ok :: "(nat \<Rightarrow> bool) \<Rightarrow> filter_node \<Rightarrow> bool" where
  "sql_ok alnum (Comparison field x v) = (check_field alnum field \<and> (v = PNone \<longrightarrow> x \<in> {Eq, Ne}))"
| "sql_ok alnum (Logical x ns) = list_all (sql_ok alnum) ns"


lemma sql_comparison:
  assumes "parsed (Comparison field x v)"
  shows "case walk_comparison alnum repr column field x v ps of
    Inl e \<Rightarrow> \<not> sql_ok alnum (Comparison field x v) \<and> e \<in> {InvalidFieldName, NoneUnsupported}
  | Inr _ \<Rightarrow> sql_ok alnum (Comparison field x v)"
  using assms by (cases v) (auto simp: walk_comparison_def Let_def)

lemma sql_walk:
  "parsed n \<Longrightarrow> case walk_node alnum repr column n ps of
    Inl e \<Rightarrow> \<not> sql_ok alnum n \<and> e \<in> {InvalidFieldName, NoneUnsupported} | Inr _ \<Rightarrow> sql_ok alnum n"
  "list_all parsed ns \<Longrightarrow> case walk_all alnum repr column ns ps of
    Inl e \<Rightarrow> \<not> list_all (sql_ok alnum) ns \<and> e \<in> {InvalidFieldName, NoneUnsupported} | Inr _ \<Rightarrow> list_all (sql_ok alnum) ns"
proof (induction alnum repr column n ps and alnum repr column ns ps rule: walk_node_walk_all.induct)
  case (1 alnum repr column field x v params)
  then show ?case using sql_comparison [of field x v alnum repr column params] by simp
next
  case (2 alnum repr column x children params)
  show ?case
  proof (cases "x = Not")
    case True
    with "2.prems" obtain m where c: "children = [m]" by (auto simp: length_Suc_conv)
    from "2.IH"(1) [OF True c] "2.prems" show ?thesis
      by (cases "walk_node alnum repr column m params") (auto simp: True c)
  next
    case False
    from "2.IH"(2) [OF False] "2.prems" show ?thesis
      by (cases "walk_all alnum repr column children params") (auto simp: False)
  qed
next
  case (4 alnum repr column n ns params)
  show ?case
  proof (cases "walk_node alnum repr column n params")
    case (Inl e)
    with "4.IH"(1) "4.prems" show ?thesis by simp
  next
    case (Inr r)
    obtain t ps' where r: "r = (t, ps')" by (cases r)
    have "case walk_all alnum repr column ns ps' of
        Inl e \<Rightarrow> \<not> list_all (sql_ok alnum) ns \<and> e \<in> {InvalidFieldName, NoneUnsupported} | Inr _ \<Rightarrow> list_all (sql_ok alnum) ns"
      by (rule "4.IH"(2)) (use "4.prems" r in auto)
    with "4.IH"(1) "4.prems" Inr show ?thesis
      by (cases "walk_all alnum repr column ns ps'") (auto simp: r)
  qed
qed simp

lemma rseq_map_ok: "(\<And>x. x \<in> set xs \<Longrightarrow> \<exists>y. f x = Inr y) \<Longrightarrow> \<exists>ys. rseq (map f xs) = Inr ys"
  by (induction xs) force+

lemma qdrant_total: "parsed n \<Longrightarrow> \<exists>p. to_qdrant n = Inr p"
proof (induction n rule: to_qdrant.induct)
  case (1 x ns)
  from "1.prems" have "list_all parsed ns" by simp
  then have "\<exists>ys. rseq (map to_qdrant ns) = Inr ys"
    using "1.IH" by (intro rseq_map_ok) (auto simp: list_all_iff)
  then show ?case by auto
next
  case (2 field x v)
  then show ?case
    by (cases x; cases v) (simp_all add: qdrant_comparison_def QDRANT_RANGE_OPS_def Let_def)
qed

text \<open>
  what the compilers refuse. A filter the parser accepts always compiles for Qdrant; it compiles to SQL
  exactly when every field name is alphanumeric and \<open>None\<close> is only compared for (in)equality, and the two
  other cases are the only errors.
\<close>

theorem compilers_accept:
  assumes "parse e = Inr n"
  shows "(\<exists>p. to_qdrant n = Inr p) \<and>
    (case to_pgvector_sql alnum repr n column ps of
       Inr _ \<Rightarrow> sql_ok alnum n
     | Inl er \<Rightarrow> \<not> sql_ok alnum n \<and> er \<in> {InvalidFieldName, NoneUnsupported})"
  using qdrant_total [OF parse_parsed [OF assms]] sql_walk(1) [OF parse_parsed [OF assms]]
  by (simp add: to_pgvector_sql_def)

section \<open>One filter through the three compilers\<close>

text \<open>\<open>{"$or": [{"age": {"$gte": 3}}, {"tag": {"$in": ["a"]}}]}\<close>\<close>

definition demo_filter :: pyval where
  "demo_filter = obj (u ''$or'')
     (PSeq [obj (u ''age'') (obj (u ''$gte'') (PInt 3)), obj (u ''tag'') (obj (u ''$in'') (PSeq [PStr (u ''a'')]))])"

definition demo_node :: filter_node where
  "demo_node = Logical Or [Comparison (u ''age'') Gte (PInt 3), Comparison (u ''tag'') In (PSeq [PStr (u ''a'')])]"

definition demo_letter :: "nat \<Rightarrow> bool" where
  "demo_letter c \<longleftrightarrow> 97 \<le> c \<and> c \<le> 122"

lemma demo_parse: "parse demo_filter = Inr demo_node"
  by (simp add: demo_filter_def demo_node_def obj_def parse_entry_def parse_comparison_def conjunction_def
      comparison_of_def logical_of_def COMPARISON_OPS_def LOGICAL_OPS_def u_def)

lemma demo_pinecone: "to_pinecone demo_node = Inr demo_filter"
  by (simp add: demo_filter_def demo_node_def)

lemma demo_sql:
  "to_pgvector_sql demo_letter (\<lambda>v. []) demo_node (u ''m'') (Some [PInt 7]) =
    Inr (u ''((m->>$2)::numeric >= $3 OR m->>$4 = ANY($5))'',
         [PInt 7, PStr (u ''age''), PInt 3, PStr (u ''tag''), PSeq [PStr (u ''a'')]])"
  by (simp add: to_pgvector_sql_def demo_node_def walk_comparison_def Let_def check_field_def demo_letter_def
      dollar_def nat_digits.simps to_text_def u_def)

theorem pinecone_roundtrip_witness: "parse demo_filter = Inr demo_node"
  using pinecone_roundtrip [OF demo_parse demo_pinecone] by (simp add: demo_node_def)

theorem sql_clause_is_fixed_text_witness:
  "\<exists>ss. u ''((m->>$2)::numeric >= $3 OR m->>$4 = ANY($5))'' = concat (map (render (u ''m'')) ss) \<and> fixed_text ss \<and> holes ss = [2, 3, 4, 5]"
  using sql_clause_is_fixed_text [OF demo_sql] by (auto simp: upt_conv_Cons)

theorem compilers_accept_witness:
  "(\<exists>p. to_qdrant demo_node = Inr p) \<and> (case to_pgvector_sql demo_letter (\<lambda>v. []) demo_node (u ''m'') (Some [PInt 7]) of
      Inr _ \<Rightarrow> sql_ok demo_letter demo_node | Inl er \<Rightarrow> \<not> sql_ok demo_letter demo_node)"
  using compilers_accept [OF demo_parse, where alnum = demo_letter and repr = "\<lambda>v. []" and column = "u ''m''" and ps = "Some [PInt 7]"]
  by (simp add: demo_sql)

end
