(* ===== verification/Router.thy ===== *)
theory Router
  imports Canonical
begin

text \<open>
  \<open>providers/router.py\<close>: calls to language-model providers, with retries on one provider and fallback to the
  next one, and the normalisation of HTTP errors of \<open>providers/base.py\<close> the router decides by.

  What a provider answers is not code of the repository: \<open>ask p k\<close> is what provider \<open>p\<close> does when it receives
  the \<open>k\<close>-th call of the request, counted from 0 (different calls may get different answers), and \<open>jit k\<close> is the random
  number drawn before the sleep that follows call \<open>k\<close>. A run keeps the errors collected so far, the number of calls
  made and the trace of what it emits: lifecycle events, sleeps and, for a stream, chunks.
\<close>

section \<open>Data\<close>

record llm_provider =
  pv_name :: pystr
  pv_model :: pystr

record usage =
  us_input :: int
  us_output :: int
  us_cost :: pyfloat
  us_cache_read :: int
  us_cache_creation :: int

definition no_usage :: usage where
  "no_usage = \<lparr>us_input = 0, us_output = 0, us_cost = 0, us_cache_read = 0, us_cache_creation = 0\<rparr>"

definition total_tokens :: "usage \<Rightarrow> int" where
  "total_tokens x = us_input x + us_output x"

definition add_usage :: "usage \<Rightarrow> usage \<Rightarrow> usage" where
  "add_usage x y =
     \<lparr>us_input = us_input x + us_input y, us_output = us_output x + us_output y, us_cost = us_cost x + us_cost y,
      us_cache_read = us_cache_read x + us_cache_read y, us_cache_creation = us_cache_creation x + us_cache_creation y\<rparr>"

record provider_response =
  rs_content :: pystr
  rs_model :: pystr
  rs_provider :: pystr
  rs_usage :: usage
  rs_finish_reason :: "pystr option"
  rs_raw :: pyval

record stream_chunk =
  sc_delta :: pystr
  sc_done :: bool
  sc_model :: "pystr option"
  sc_provider :: "pystr option"
  sc_usage :: "usage option"
  sc_finish_reason :: "pystr option"
  sc_raw :: pyval

record provider_error =
  pe_text :: pystr
  pe_provider :: pystr
  pe_status :: "int option"
  pe_retryable :: bool
  pe_retry_after :: "pyfloat option"

text \<open>An exception that is no \<open>ProviderError\<close>, by its class name.\<close>

type_synonym foreign_error = pystr

section \<open>HTTP errors\<close>

definition DEFAULT_RETRYABLE_STATUS :: "int list" where
  "DEFAULT_RETRYABLE_STATUS = [408, 409, 500, 502, 503, 504]"

definition rate_limit_error :: "pystr \<Rightarrow> pystr \<Rightarrow> pyfloat option \<Rightarrow> provider_error" where
  "rate_limit_error t p after =
     \<lparr>pe_text = t, pe_provider = p, pe_status = Some 429, pe_retryable = True, pe_retry_after = after\<rparr>"

text \<open>\<open>detail\<close> is the message found in the body, \<open>after\<close> the parsed \<open>Retry-After\<close> header.\<close>

definition raise_for_status ::
  "int list \<Rightarrow> pystr \<Rightarrow> int \<Rightarrow> pystr \<Rightarrow> pyfloat option \<Rightarrow> provider_error option" where
  "raise_for_status retryable_status p status detail after =
     (if status < 400 then None
      else if status = 429 then Some (rate_limit_error (p @ u '': rate limited: '' @ detail) p after)
      else Some \<lparr>pe_text = p @ u '': HTTP '' @ int_str status @ u '': '' @ detail, pe_provider = p,
                 pe_status = Some status, pe_retryable = (status \<in> set retryable_status), pe_retry_after = after\<rparr>)"

text \<open>
  \<open>parse_retry_after\<close>: \<open>as_float\<close> is \<open>float()\<close>, \<open>as_date\<close> the timestamp of an HTTP date (UTC when it names
  no zone); both are \<open>None\<close> where Python raises.
\<close>

definition parse_retry_after ::
  "(pystr \<Rightarrow> pyfloat option) \<Rightarrow> (pystr \<Rightarrow> pyfloat option) \<Rightarrow> pyfloat \<Rightarrow> pystr option \<Rightarrow> pyfloat option" where
  "parse_retry_after as_float as_date now header =
     (case header of
        None \<Rightarrow> None
      | Some v \<Rightarrow>
          (case as_float v of
             Some d \<Rightarrow> Some d
           | None \<Rightarrow> map_option (\<lambda>t. max 0 (t - now)) (as_date v)))"

section \<open>Which providers a request tries\<close>

text \<open>A callable may keep state of its own: it is given the number of requests routed before this one.\<close>

datatype selection = Ordered | RoundRobin | Custom "nat \<Rightarrow> llm_provider list \<Rightarrow> llm_provider list"

record retry_policy =
  rp_max_retries :: int
  rp_base_delay :: pyfloat
  rp_max_delay :: pyfloat
  rp_jitter :: pyfloat

definition default_policy :: retry_policy where
  "default_policy = \<lparr>rp_max_retries = 2, rp_base_delay = 1 / 2, rp_max_delay = 10, rp_jitter = 1 / 4\<rparr>"

record router =
  rt_providers :: "llm_provider list"
  rt_policy :: retry_policy
  rt_selection :: selection
  rt_next :: nat

datatype router_error = NoProviders | UnknownSelection

definition preset :: "pystr \<Rightarrow> router_error + selection" where
  "preset name =
     (if name = u ''ordered'' then Inr Ordered
      else if name = u ''round_robin'' then Inr RoundRobin
      else Inl UnknownSelection)"

definition new_router :: "llm_provider list \<Rightarrow> retry_policy option \<Rightarrow> pystr + selection \<Rightarrow> router_error + router" where
  "new_router providers policy select =
     (if providers = [] then Inl NoProviders
      else rmap (\<lambda>s. \<lparr>rt_providers = providers, rt_policy = (case policy of None \<Rightarrow> default_policy | Some p \<Rightarrow> p),
                      rt_selection = s, rt_next = 0\<rparr>)
             (case select of Inl name \<Rightarrow> preset name | Inr s \<Rightarrow> Inr s))"

definition rotate_to :: "nat \<Rightarrow> 'a list \<Rightarrow> 'a list" where
  "rotate_to next_start xs = (let start = next_start mod length xs in drop start xs @ take start xs)"

definition selected_providers :: "router \<Rightarrow> llm_provider list \<times> router" where
  "selected_providers r =
     ((case rt_selection r of
         Ordered \<Rightarrow> rt_providers r
       | RoundRobin \<Rightarrow> rotate_to (rt_next r) (rt_providers r)
       | Custom f \<Rightarrow> f (rt_next r) (rt_providers r)),
      r\<lparr>rt_next := rt_next r + 1\<rparr>)"

definition delay :: "retry_policy \<Rightarrow> nat \<Rightarrow> pyfloat option \<Rightarrow> pyfloat \<Rightarrow> pyfloat" where
  "delay pol attempt retry_after jit =
     (case retry_after of
        Some r \<Rightarrow> min r (rp_max_delay pol)
      | None \<Rightarrow> min (rp_base_delay pol * 2 ^ attempt) (rp_max_delay pol) * (1 + jit))"

section \<open>A run\<close>

datatype emitted =
    Started llm_provider
  | Completed llm_provider "pystr option" "usage option"
  | Failed llm_provider provider_error
  | Slept pyfloat
  | Yielded stream_chunk

record run =
  rn_errors :: "provider_error list"
  rn_calls :: nat
  rn_trace :: "emitted list"

definition fresh_run :: run where
  "fresh_run = \<lparr>rn_errors = [], rn_calls = 0, rn_trace = []\<rparr>"

definition trace_out :: "emitted \<Rightarrow> run \<Rightarrow> run" where
  "trace_out e st = st\<lparr>rn_trace := rn_trace st @ [e]\<rparr>"

definition start_call :: "llm_provider \<Rightarrow> run \<Rightarrow> run" where
  "start_call p st = trace_out (Started p) (st\<lparr>rn_calls := rn_calls st + 1\<rparr>)"

definition fail_call :: "llm_provider \<Rightarrow> provider_error \<Rightarrow> run \<Rightarrow> run" where
  "fail_call p e st = trace_out (Failed p e) (st\<lparr>rn_errors := rn_errors st @ [e]\<rparr>)"

definition gives_up :: "retry_policy \<Rightarrow> nat \<Rightarrow> provider_error \<Rightarrow> bool" where
  "gives_up pol attempt e \<longleftrightarrow> \<not> pe_retryable e \<or> int attempt \<ge> rp_max_retries pol"

definition backoff :: "retry_policy \<Rightarrow> (nat \<Rightarrow> pyfloat) \<Rightarrow> nat \<Rightarrow> provider_error \<Rightarrow> run \<Rightarrow> run" where
  "backoff pol jit attempt e st = trace_out (Slept (delay pol attempt (pe_retry_after e) (jit (rn_calls st - 1)))) st"

lemma not_gives_up: "\<not> gives_up pol attempt e \<Longrightarrow> int attempt < rp_max_retries pol"
  by (simp add: gives_up_def)

datatype 'r route_result = Returned 'r | AllFailed "provider_error list" | Raised provider_error | Escaped foreign_error

fun all_failed_text :: "pystr list \<Rightarrow> pystr" where
  "all_failed_text [] = []"
| "all_failed_text [t] = t"
| "all_failed_text (t # ts) = t @ u ''; '' @ all_failed_text ts"

definition all_failed_message :: "provider_error list \<Rightarrow> pystr" where
  "all_failed_message errors =
     (let t = all_failed_text (map pe_text errors) in if t = [] then u ''all providers failed'' else t)"

section \<open>One answer\<close>

datatype reply = Answered provider_response | Refused provider_error | Crashed foreign_error

text \<open>The \<open>while True\<close> loop over one provider; \<open>None\<close> when the router moves on to the next one.\<close>

function complete_with ::
  "(llm_provider \<Rightarrow> nat \<Rightarrow> reply) \<Rightarrow> (nat \<Rightarrow> pyfloat) \<Rightarrow> retry_policy \<Rightarrow> llm_provider \<Rightarrow> nat \<Rightarrow> run
     \<Rightarrow> provider_response route_result option \<times> run" where
  "complete_with ask jit pol p attempt st =
     (case ask p (rn_calls st) of
        Answered r \<Rightarrow>
          (Some (Returned r), trace_out (Completed p (Some (rs_model r)) (Some (rs_usage r))) (start_call p st))
      | Crashed x \<Rightarrow> (Some (Escaped x), start_call p st)
      | Refused e \<Rightarrow>
          (let st' = fail_call p e (start_call p st) in
           if gives_up pol attempt e then (None, st')
           else complete_with ask jit pol p (attempt + 1) (backoff pol jit attempt e st')))"
  by pat_completeness auto
termination
  by (relation "measure (\<lambda>(ask, jit, pol, p, attempt, st). nat (rp_max_retries pol - int attempt))")
    (auto dest!: not_gives_up)

declare complete_with.simps [simp del]

fun complete_all ::
  "(llm_provider \<Rightarrow> nat \<Rightarrow> reply) \<Rightarrow> (nat \<Rightarrow> pyfloat) \<Rightarrow> retry_policy \<Rightarrow> llm_provider list \<Rightarrow> run
     \<Rightarrow> provider_response route_result \<times> run" where
  "complete_all ask jit pol [] st = (AllFailed (rn_errors st), st)"
| "complete_all ask jit pol (p # ps) st =
     (case complete_with ask jit pol p 0 st of
        (Some result, st') \<Rightarrow> (result, st')
      | (None, st') \<Rightarrow> complete_all ask jit pol ps st')"

definition complete ::
  "(llm_provider \<Rightarrow> nat \<Rightarrow> reply) \<Rightarrow> (nat \<Rightarrow> pyfloat) \<Rightarrow> router \<Rightarrow> provider_response route_result \<times> run \<times> router" where
  "complete ask jit r =
     (let (ps, r') = selected_providers r; (result, st) = complete_all ask jit (rt_policy r) ps fresh_run
      in (result, st, r'))"

section \<open>A stream\<close>

text \<open>What a provider streams: its chunks, then how the stream ends.\<close>

datatype ending = Ended | Broke provider_error | Burst foreign_error

type_synonym streamed = "stream_chunk list \<times> ending"

fun yield_chunk :: "llm_provider \<Rightarrow> stream_chunk \<Rightarrow> run \<Rightarrow> run" where
  "yield_chunk p c st =
     trace_out (Yielded c) (if sc_done c then trace_out (Completed p (sc_model c) (sc_usage c)) st else st)"

fun stream_chunks :: "llm_provider \<Rightarrow> stream_chunk list \<Rightarrow> bool \<times> run \<Rightarrow> bool \<times> run" where
  "stream_chunks p [] (yielded, st) = (yielded, st)"
| "stream_chunks p (c # cs) (yielded, st) =
     stream_chunks p cs (if sc_done c then yielded else True, yield_chunk p c st)"

function stream_with ::
  "(llm_provider \<Rightarrow> nat \<Rightarrow> streamed) \<Rightarrow> (nat \<Rightarrow> pyfloat) \<Rightarrow> retry_policy \<Rightarrow> llm_provider \<Rightarrow> nat \<Rightarrow> run
     \<Rightarrow> unit route_result option \<times> run" where
  "stream_with ask jit pol p attempt st =
     (let (chunks, end_of) = ask p (rn_calls st); (yielded, st1) = stream_chunks p chunks (False, start_call p st) in
      case end_of of
        Ended \<Rightarrow> (Some (Returned ()), st1)
      | Burst x \<Rightarrow> (Some (Escaped x), st1)
      | Broke e \<Rightarrow>
          (let st' = fail_call p e st1 in
           if yielded then (Some (Raised e), st')
           else if gives_up pol attempt e then (None, st')
           else stream_with ask jit pol p (attempt + 1) (backoff pol jit attempt e st')))"
  by pat_completeness auto
termination
  by (relation "measure (\<lambda>(ask, jit, pol, p, attempt, st). nat (rp_max_retries pol - int attempt))")
    (auto dest!: not_gives_up)

declare stream_with.simps [simp del]

fun stream_all ::
  "(llm_provider \<Rightarrow> nat \<Rightarrow> streamed) \<Rightarrow> (nat \<Rightarrow> pyfloat) \<Rightarrow> retry_policy \<Rightarrow> llm_provider list \<Rightarrow> run
     \<Rightarrow> unit route_result \<times> run" where
  "stream_all ask jit pol [] st = (AllFailed (rn_errors st), st)"
| "stream_all ask jit pol (p # ps) st =
     (case stream_with ask jit pol p 0 st of
        (Some result, st') \<Rightarrow> (result, st')
      | (None, st') \<Rightarrow> stream_all ask jit pol ps st')"

definition stream ::
  "(llm_provider \<Rightarrow> nat \<Rightarrow> streamed) \<Rightarrow> (nat \<Rightarrow> pyfloat) \<Rightarrow> router \<Rightarrow> unit route_result \<times> run \<times> router" where
  "stream ask jit r =
     (let (ps, r') = selected_providers r; (result, st) = stream_all ask jit (rt_policy r) ps fresh_run
      in (result, st, r'))"

section \<open>A function as a provider\<close>

text \<open>What the wrapped function does; \<open>FnFailed\<close> carries the text of an \<open>Exception\<close>, \<open>FnOther\<close> the type of a
  result that is neither text nor a response. \<open>Cancelled\<close> is a \<open>BaseException\<close>, which is not wrapped.\<close>

datatype fn_result =
    FnText pystr | FnResponse provider_response | FnOther pystr | FnRefused provider_error | FnFailed pystr
  | Cancelled foreign_error

definition plain_error :: "pystr \<Rightarrow> pystr \<Rightarrow> provider_error" where
  "plain_error name t =
     \<lparr>pe_text = name @ u '': '' @ t, pe_provider = name, pe_status = None, pe_retryable = False, pe_retry_after = None\<rparr>"

definition fn_complete :: "llm_provider \<Rightarrow> pystr option \<Rightarrow> fn_result \<Rightarrow> reply" where
  "fn_complete p model result =
     (case result of
        FnRefused e \<Rightarrow> Refused e
      | FnFailed t \<Rightarrow> Refused (plain_error (pv_name p) t)
      | Cancelled x \<Rightarrow> Crashed x
      | FnResponse r \<Rightarrow> Answered r
      | FnOther ty \<Rightarrow> Refused (plain_error (pv_name p) (u ''expected a str or ProviderResponse, got '' @ ty))
      | FnText t \<Rightarrow>
          Answered \<lparr>rs_content = t, rs_model = (case model of None \<Rightarrow> pv_model p | Some m \<Rightarrow> m),
                    rs_provider = pv_name p, rs_usage = no_usage, rs_finish_reason = None, rs_raw = PNone\<rparr>)"

datatype fn_item = ItemText pystr | ItemChunk stream_chunk | ItemOther pystr

datatype fn_end = FnEnds | FnBreaks provider_error | FnBursts pystr | FnCancelled foreign_error

definition text_chunk :: "llm_provider \<Rightarrow> pystr option \<Rightarrow> pystr \<Rightarrow> stream_chunk" where
  "text_chunk p model t =
     \<lparr>sc_delta = t, sc_done = False, sc_model = Some (case model of None \<Rightarrow> pv_model p | Some m \<Rightarrow> m),
      sc_provider = Some (pv_name p), sc_usage = None, sc_finish_reason = None, sc_raw = PNone\<rparr>"

definition done_chunk :: "llm_provider \<Rightarrow> pystr option \<Rightarrow> stream_chunk" where
  "done_chunk p model = text_chunk p model []\<lparr>sc_done := True\<rparr>"

fun fn_ending :: "llm_provider \<Rightarrow> fn_end \<Rightarrow> ending" where
  "fn_ending p FnEnds = Ended"
| "fn_ending p (FnBreaks e) = Broke e"
| "fn_ending p (FnBursts t) = Broke (plain_error (pv_name p) t)"
| "fn_ending p (FnCancelled x) = Burst x"

fun fn_loop :: "llm_provider \<Rightarrow> pystr option \<Rightarrow> bool \<Rightarrow> fn_item list \<Rightarrow> fn_end \<Rightarrow> streamed" where
  "fn_loop p model saw_done [] end_of =
     (if end_of = FnEnds \<and> \<not> saw_done then ([done_chunk p model], Ended) else ([], fn_ending p end_of))"
| "fn_loop p model saw_done (item # items) end_of =
     (case item of
        ItemChunk c \<Rightarrow> apfst ((#) c) (fn_loop p model (saw_done \<or> sc_done c) items end_of)
      | ItemText t \<Rightarrow> apfst ((#) (text_chunk p model t)) (fn_loop p model saw_done items end_of)
      | ItemOther ty \<Rightarrow>
          ([], Broke (plain_error (pv_name p) (u ''stream_fn yielded '' @ ty @ u '', expected str or StreamChunk''))))"

definition no_stream_text :: "pystr" where
  "no_stream_text = u ''this FunctionProvider has no stream_fn ''"

text \<open>The error of a provider without \<open>stream_fn\<close>; the advice that follows in its text is left out.\<close>

definition fn_stream :: "llm_provider \<Rightarrow> pystr option \<Rightarrow> (fn_item list \<times> fn_end) option \<Rightarrow> streamed" where
  "fn_stream p model produced =
     (case produced of
        None \<Rightarrow> ([], Broke (plain_error (pv_name p) no_stream_text))
      | Some (items, end_of) \<Rightarrow> fn_loop p model False items end_of)"

end
