(* ===== verification/Router_Props.thy ===== *)
theory Router_Props
  imports Router "HOL-Library.Multiset"
begin

text \<open>
  What one routed request does: which calls it makes, in what order and how often, what it returns for the answers
  it got, how long it sleeps; that a stream takes its content from one call only; and that the round-robin
  selection shares the first place fairly.
\<close>

section \<open>Reading a trace\<close>

fun started :: "emitted list \<Rightarrow> llm_provider list" where
  "started [] = []" | "started (Started p # es) = p # started es" | "started (_ # es) = started es"

fun slept :: "emitted list \<Rightarrow> pyfloat list" where
  "slept [] = []" | "slept (Slept d # es) = d # slept es" | "slept (_ # es) = slept es"

fun content :: "emitted list \<Rightarrow> stream_chunk list" where
  "content [] = []"
| "content (Yielded c # es) = (if sc_done c then content es else c # content es)"
| "content (_ # es) = content es"

lemma started_append [simp]: "started (xs @ ys) = started xs @ started ys"
  by (induction xs rule: started.induct) simp_all

lemma slept_append [simp]: "slept (xs @ ys) = slept xs @ slept ys"
  by (induction xs rule: slept.induct) simp_all

lemma content_append [simp]: "content (xs @ ys) = content xs @ content ys"
  by (induction xs rule: content.induct) simp_all

named_theorems run_simps \<open>how the pieces of a run change it\<close>

lemma emit_run [run_simps]:
  "rn_errors (trace_out e st) = rn_errors st" "rn_calls (trace_out e st) = rn_calls st" "rn_trace (trace_out e st) = rn_trace st @ [e]"
  by (simp_all add: trace_out_def)

lemma start_call_run [run_simps]:
  "rn_errors (start_call p st) = rn_errors st" "rn_calls (start_call p st) = rn_calls st + 1"
  "rn_trace (start_call p st) = rn_trace st @ [Started p]"
  by (simp_all add: start_call_def trace_out_def)

lemma fail_call_run [run_simps]:
  "rn_errors (fail_call p e st) = rn_errors st @ [e]" "rn_calls (fail_call p e st) = rn_calls st"
  "rn_trace (fail_call p e st) = rn_trace st @ [Failed p e]"
  by (simp_all add: fail_call_def trace_out_def)

lemma backoff_run [run_simps]:
  "rn_errors (backoff pol jit a e st) = rn_errors st" "rn_calls (backoff pol jit a e st) = rn_calls st"
  "rn_trace (backoff pol jit a e st) = rn_trace st @ [Slept (delay pol a (pe_retry_after e) (jit (rn_calls st - 1)))]"
  by (simp_all add: backoff_def trace_out_def)

lemma fresh_run_run [run_simps]: "rn_errors fresh_run = []" "rn_calls fresh_run = 0" "rn_trace fresh_run = []"
  by (simp_all add: fresh_run_def)

text \<open>The answers to a sequence of calls, the first of which is call \<open>k\<close> of the request.\<close>

fun heard :: "(llm_provider \<Rightarrow> nat \<Rightarrow> reply) \<Rightarrow> nat \<Rightarrow> llm_provider list \<Rightarrow> reply list" where
  "heard ask k [] = []"
| "heard ask k (p # ps) = ask p k # heard ask (Suc k) ps"

lemma heard_append: "heard ask k (ps @ qs) = heard ask k ps @ heard ask (k + length ps) qs"
  by (induction ps arbitrary: k) simp_all

section \<open>The loop over one provider\<close>

text \<open>How many calls one provider may get in one request.\<close>

definition budget :: "retry_policy \<Rightarrow> nat" where
  "budget pol = nat (rp_max_retries pol) + 1"

definition settled_by :: "provider_response route_result option \<Rightarrow> reply list" where
  "settled_by res = (case res of Some (Returned r) \<Rightarrow> [Answered r] | Some (Escaped x) \<Rightarrow> [Crashed x] | _ \<Rightarrow> [])"

text \<open>
  One turn of a provider: \<open>n\<close> calls, all of them refused except a settling one, at most \<open>n - 1\<close> sleeps of at most
  \<open>D\<close> each.
\<close>

definition turn ::
  "(llm_provider \<Rightarrow> nat \<Rightarrow> reply) \<Rightarrow> bool \<Rightarrow> pyfloat \<Rightarrow> llm_provider \<Rightarrow> nat \<Rightarrow> run \<Rightarrow> reply list \<Rightarrow> run \<Rightarrow> bool" where
  "turn ask ok D p n st final st' \<longleftrightarrow>
     1 \<le> n \<and> rn_calls st' = rn_calls st + n \<and> started (rn_trace st') = started (rn_trace st) @ replicate n p
       \<and> (\<exists>es. rn_errors st' = rn_errors st @ es
              \<and> heard ask (rn_calls st) (replicate n p) = map Refused es @ final)
       \<and> (\<exists>ds. slept (rn_trace st') = slept (rn_trace st) @ ds \<and> (ok \<longrightarrow> sum_list ds \<le> of_nat (n - 1) * D))"

definition longest :: "retry_policy \<Rightarrow> pyfloat" where
  "longest pol = rp_max_delay pol * (1 + rp_jitter pol)"

definition sane :: "retry_policy \<Rightarrow> (nat \<Rightarrow> pyfloat) \<Rightarrow> bool" where
  "sane pol jit \<longleftrightarrow> 0 \<le> rp_max_delay pol \<and> 0 \<le> rp_jitter pol \<and> rp_jitter pol \<le> 1
     \<and> (\<forall>k. - rp_jitter pol \<le> jit k \<and> jit k \<le> rp_jitter pol)"

lemma delay_bound:
  assumes "sane pol jit"
  shows "delay pol a after (jit k) \<le> longest pol"
proof (cases after)
  case None
  have j: "- rp_jitter pol \<le> jit k" "jit k \<le> rp_jitter pol" "0 \<le> rp_max_delay pol" "rp_jitter pol \<le> 1"
    using assms by (auto simp: sane_def)
  then have "min (rp_base_delay pol * 2 ^ a) (rp_max_delay pol) * (1 + jit k) \<le> rp_max_delay pol * (1 + jit k)"
    by (intro mult_right_mono) auto
  also have "\<dots> \<le> longest pol"
    unfolding longest_def using j by (intro mult_left_mono) auto
  finally show ?thesis by (simp add: delay_def None)
next
  case (Some r)
  have "rp_max_delay pol * 1 \<le> longest pol"
    unfolding longest_def using assms by (intro mult_left_mono) (auto simp: sane_def)
  then show ?thesis by (simp add: delay_def Some min_le_iff_disj)
qed

lemma turn_once:
  assumes "ask p (rn_calls st) = a" and "rn_calls st' = rn_calls st + 1"
    and "started (rn_trace st') = started (rn_trace st) @ [p]" and "slept (rn_trace st') = slept (rn_trace st)"
    and "rn_errors st' = rn_errors st @ es" and "[a] = map Refused es @ final"
  shows "turn ask ok D p (Suc 0) st final st'"
  using assms by (auto simp: turn_def)

lemma turn_again:
  assumes ask: "ask p (rn_calls st) = Refused e"
    and mid: "rn_calls st1 = rn_calls st + 1" "started (rn_trace st1) = started (rn_trace st) @ [p]"
      "slept (rn_trace st1) = slept (rn_trace st) @ [d]" "rn_errors st1 = rn_errors st @ [e]" "ok \<Longrightarrow> d \<le> D"
    and rest: "turn ask ok D p n st1 final st'"
  shows "turn ask ok D p (Suc n) st final st'"
proof -
  from rest obtain es ds where n: "1 \<le> n" and c: "rn_calls st' = rn_calls st1 + n"
    and s: "started (rn_trace st') = started (rn_trace st1) @ replicate n p"
    and es: "rn_errors st' = rn_errors st1 @ es" "heard ask (rn_calls st1) (replicate n p) = map Refused es @ final"
    and ds: "slept (rn_trace st') = slept (rn_trace st1) @ ds" "ok \<longrightarrow> sum_list ds \<le> of_nat (n - 1) * D"
    unfolding turn_def by blast
  have "heard ask (rn_calls st) (replicate (Suc n) p) = map Refused (e # es) @ final"
    using ask es(2) mid(1) by simp
  moreover have "ok \<longrightarrow> sum_list (d # ds) \<le> of_nat (Suc n - 1) * D"
  proof -
    have "of_nat (Suc n - 1) * D = D + of_nat (n - 1) * D"
      using n by (cases n) (simp_all add: algebra_simps)
    with mid(5) ds(2) show ?thesis by (auto intro: add_mono)
  qed
  ultimately show ?thesis
    unfolding turn_def using mid c s es(1) ds(1) by (intro conjI exI [of _ "e # es"] exI [of _ "d # ds"]) auto
qed

lemma complete_with_turn:
  assumes "complete_with ask jit pol p a st = (res, st')"
  shows "\<exists>n. n \<le> nat (rp_max_retries pol - int a) + 1 \<and> turn ask (sane pol jit) (longest pol) p n st (settled_by res) st'
    \<and> (res = None \<or> (\<exists>r. res = Some (Returned r)) \<or> (\<exists>x. res = Some (Escaped x)))"
  using assms
proof (induction ask jit pol p a st arbitrary: res st' rule: complete_with.induct)
  case (1 ask jit pol p a st)
  show ?case
  proof (cases "ask p (rn_calls st)")
    case (Answered r)
    with "1.prems" show ?thesis
      by (intro exI [of _ "Suc 0"]) (auto simp: complete_with.simps run_simps settled_by_def intro!: turn_once)
  next
    case (Crashed x)
    with "1.prems" show ?thesis
      by (intro exI [of _ "Suc 0"]) (auto simp: complete_with.simps run_simps settled_by_def intro!: turn_once)
  next
    case (Refused e)
    let ?st = "fail_call p e (start_call p st)"
    show ?thesis
    proof (cases "gives_up pol a e")
      case True
      with Refused "1.prems" show ?thesis
        by (intro exI [of _ "Suc 0"]) (auto simp: complete_with.simps run_simps settled_by_def intro!: turn_once)
    next
      case False
      with Refused "1.prems" have "complete_with ask jit pol p (a + 1) (backoff pol jit a e ?st) = (res, st')"
        by (simp add: complete_with.simps [of ask jit pol p a])
      from "1.IH" [OF Refused refl False this] obtain n where
        n: "n \<le> nat (rp_max_retries pol - int (a + 1)) + 1"
        and t: "turn ask (sane pol jit) (longest pol) p n (backoff pol jit a e ?st) (settled_by res) st'"
        and r: "res = None \<or> (\<exists>r. res = Some (Returned r)) \<or> (\<exists>x. res = Some (Escaped x))" by blast
      have "turn ask (sane pol jit) (longest pol) p (Suc n) st (settled_by res) st'"
        by (rule turn_again [OF Refused _ _ _ _ _ t]) (auto simp: run_simps intro: delay_bound)
      with n r not_gives_up [OF False] show ?thesis by (intro exI [of _ "Suc n"]) auto
    qed
  qed
qed

section \<open>The loop over the providers\<close>

definition last_answer :: "provider_response route_result \<Rightarrow> reply list" where
  "last_answer result = settled_by (Some result)"

definition turns ::
  "(llm_provider \<Rightarrow> nat \<Rightarrow> reply) \<Rightarrow> (nat \<Rightarrow> pyfloat) \<Rightarrow> retry_policy \<Rightarrow> llm_provider list \<Rightarrow> nat list \<Rightarrow> run \<Rightarrow> provider_response route_result \<Rightarrow> run \<Rightarrow> bool" where
  "turns ask jit pol ps ns st result st' \<longleftrightarrow>
     length ns \<le> length ps \<and> list_all (\<lambda>n. 1 \<le> n \<and> n \<le> budget pol) ns
       \<and> rn_calls st' = rn_calls st + sum_list ns
       \<and> started (rn_trace st') = started (rn_trace st) @ concat (map2 replicate ns ps)
       \<and> (\<exists>es. rn_errors st' = rn_errors st @ es
              \<and> heard ask (rn_calls st) (concat (map2 replicate ns ps)) = map Refused es @ last_answer result)
       \<and> (\<exists>ds. slept (rn_trace st') = slept (rn_trace st) @ ds
              \<and> (sane pol jit \<longrightarrow> sum_list ds \<le> of_nat (length ps * nat (rp_max_retries pol)) * longest pol))
       \<and> (if length ns < length ps then (\<exists>r. result = Returned r) \<or> (\<exists>x. result = Escaped x)
          else result = AllFailed (rn_errors st') \<or> (\<exists>r. result = Returned r) \<or> (\<exists>x. result = Escaped x))"

lemma longest_nonneg: "sane pol jit \<Longrightarrow> 0 \<le> longest pol"
  by (auto simp: sane_def longest_def)

lemma turn_sleep:
  assumes "n \<le> budget pol" and "0 \<le> longest pol"
  shows "of_nat (n - 1) * longest pol \<le> of_nat (nat (rp_max_retries pol)) * longest pol"
  using assms by (intro mult_right_mono) (auto simp: budget_def)

lemma length_map2_replicate: "length ns \<le> length ps \<Longrightarrow> length (concat (map2 replicate ns ps)) = sum_list ns"
proof (induction ns arbitrary: ps)
  case (Cons n ns)
  then show ?case by (cases ps) auto
qed simp

lemma turns_Cons:
  assumes n: "n \<le> budget pol" and t: "turn ask (sane pol jit) (longest pol) p n st [] st1"
    and r: "turns ask jit pol ps ns st1 result st'"
  shows "turns ask jit pol (p # ps) (n # ns) st result st'"
proof -
  from t obtain es ds where t': "1 \<le> n" "rn_calls st1 = rn_calls st + n"
    "started (rn_trace st1) = started (rn_trace st) @ replicate n p" "rn_errors st1 = rn_errors st @ es"
    "heard ask (rn_calls st) (replicate n p) = map Refused es" "slept (rn_trace st1) = slept (rn_trace st) @ ds"
    "sane pol jit \<longrightarrow> sum_list ds \<le> of_nat (n - 1) * longest pol"
    unfolding turn_def by auto
  from r obtain es' ds' where r': "rn_errors st' = rn_errors st1 @ es'"
    "heard ask (rn_calls st1) (concat (map2 replicate ns ps)) = map Refused es' @ last_answer result"
    "slept (rn_trace st') = slept (rn_trace st1) @ ds'"
    "sane pol jit \<longrightarrow> sum_list ds' \<le> of_nat (length ps * nat (rp_max_retries pol)) * longest pol"
    unfolding turns_def by blast
  have "sane pol jit \<longrightarrow> sum_list (ds @ ds') \<le> of_nat (length (p # ps) * nat (rp_max_retries pol)) * longest pol"
  proof
    assume ok: "sane pol jit"
    from t'(7) ok have "sum_list ds \<le> of_nat (n - 1) * longest pol" by blast
    moreover from r'(4) ok have "sum_list ds' \<le> of_nat (length ps * nat (rp_max_retries pol)) * longest pol" by blast
    ultimately show "sum_list (ds @ ds') \<le> of_nat (length (p # ps) * nat (rp_max_retries pol)) * longest pol"
      using turn_sleep [OF n longest_nonneg [OF ok]] by (simp add: algebra_simps)
  qed
  moreover have "heard ask (rn_calls st) (concat (map2 replicate (n # ns) (p # ps))) = map Refused (es @ es') @ last_answer result"
    using t'(2,5) r'(2) by (simp add: heard_append)
  ultimately show ?thesis
    using t'(1-4) t'(6) r r'(1,3) n unfolding turns_def
    by (intro conjI exI [of _ "es @ es'"] exI [of _ "ds @ ds'"]) auto
qed

lemma turns_one:
  assumes n: "n \<le> budget pol"
    and t: "turn ask (sane pol jit) (longest pol) p n st (settled_by (Some result)) st'"
    and result: "(\<exists>r. result = Returned r) \<or> (\<exists>x. result = Escaped x)"
  shows "turns ask jit pol (p # ps) [n] st result st'"
proof -
  from t obtain ds where ds: "slept (rn_trace st') = slept (rn_trace st) @ ds" "sane pol jit \<longrightarrow> sum_list ds \<le> of_nat (n - 1) * longest pol"
    unfolding turn_def by blast
  have "sum_list ds \<le> of_nat (length (p # ps) * nat (rp_max_retries pol)) * longest pol" if sane: "sane pol jit"
  proof -
    have "of_nat (nat (rp_max_retries pol)) * longest pol \<le> of_nat (length (p # ps) * nat (rp_max_retries pol)) * longest pol"
      using longest_nonneg [OF sane] by (intro mult_right_mono) auto
    with ds(2) sane turn_sleep [OF n longest_nonneg [OF sane]] show ?thesis by linarith
  qed
  with ds t result n show ?thesis
    unfolding turns_def turn_def last_answer_def by (intro conjI) auto
qed

lemma complete_all_turns:
  assumes "complete_all ask jit pol ps st = (result, st')"
  shows "\<exists>ns. turns ask jit pol ps ns st result st'"
  using assms
proof (induction ask jit pol ps st rule: complete_all.induct)
  case (1 ask jit pol st)
  then show ?case by (intro exI [of _ "[]"]) (auto simp: turns_def last_answer_def settled_by_def)
next
  case (2 ask jit pol p ps st)
  obtain res st1 where c: "complete_with ask jit pol p 0 st = (res, st1)" by (cases "complete_with ask jit pol p 0 st")
  from complete_with_turn [OF c] obtain n where n: "n \<le> budget pol"
    and t: "turn ask (sane pol jit) (longest pol) p n st (settled_by res) st1"
    and r: "res = None \<or> (\<exists>r. res = Some (Returned r)) \<or> (\<exists>x. res = Some (Escaped x))"
    by (auto simp: budget_def)
  show ?case
  proof (cases res)
    case None
    with "2.prems" c have rest: "complete_all ask jit pol ps st1 = (result, st')" by simp
    from "2.IH" [OF c [symmetric] None rest] obtain ns where "turns ask jit pol ps ns st1 result st'" ..
    from turns_Cons [OF n _ this] t None show ?thesis by (auto simp: settled_by_def)
  next
    case (Some result')
    with "2.prems" c have eq: "result' = result" "st1 = st'" by simp_all
    from turns_one [OF n] t r Some eq show ?thesis by blast
  qed
qed

section \<open>A routed request\<close>

lemma complete_turns:
  assumes "complete ask jit r = (result, st, r')"
  shows "\<exists>ns. turns ask jit (rt_policy r) (fst (selected_providers r)) ns fresh_run result st"
proof -
  from assms have "complete_all ask jit (rt_policy r) (fst (selected_providers r)) fresh_run = (result, st)"
    by (simp add: complete_def Let_def split: prod.splits)
  then show ?thesis by (rule complete_all_turns)
qed

text \<open>
  C24: a request is answered by the first call that succeeds. The calls go to the selected providers in their order,
  to each of the first few at least once and at most \<open>max_retries + 1\<close> times. All calls but the last are refused, the
  errors are collected in the order of the calls, and the last one's answer is the result; when every call is
  refused no selected provider was left out and the result carries all the errors.
\<close>

theorem complete_first_success:
  assumes "complete ask jit r = (result, st, r')"
  shows "\<exists>ns. started (rn_trace st) = concat (map2 replicate ns (fst (selected_providers r)))
    \<and> list_all (\<lambda>n. 1 \<le> n \<and> n \<le> budget (rt_policy r)) ns
    \<and> heard ask 0 (started (rn_trace st)) = map Refused (rn_errors st) @ last_answer result
    \<and> (result = AllFailed (rn_errors st) \<and> length ns = length (fst (selected_providers r))
       \<or> (\<exists>a. result = Returned a) \<or> (\<exists>x. result = Escaped x))"
  using complete_turns [OF assms] unfolding turns_def by (auto simp: run_simps split: if_splits)

text \<open>
  C25: routing is bounded. A request makes at most \<open>max_retries + 1\<close> calls per selected provider, and, when the
  random numbers stay within the jitter, sleeps at most \<open>max_retries\<close> times the longest delay per provider.
\<close>

theorem complete_bounded:
  assumes "complete ask jit r = (result, st, r')" and "sane (rt_policy r) jit"
  shows "rn_calls st = length (started (rn_trace st))
    \<and> rn_calls st \<le> length (fst (selected_providers r)) * budget (rt_policy r)
    \<and> sum_list (slept (rn_trace st))
        \<le> of_nat (length (fst (selected_providers r)) * nat (rp_max_retries (rt_policy r))) * longest (rt_policy r)"
proof -
  from complete_turns [OF assms(1)] obtain ns where
    t: "turns ask jit (rt_policy r) (fst (selected_providers r)) ns fresh_run result st" ..
  have "sum_list ns \<le> length ns * budget (rt_policy r)" if "list_all (\<lambda>n. 1 \<le> n \<and> n \<le> budget (rt_policy r)) ns" for ns
    using that by (induction ns) auto
  with t have "sum_list ns \<le> length ns * budget (rt_policy r)" "length ns \<le> length (fst (selected_providers r))"
    by (auto simp: turns_def)
  then have "sum_list ns \<le> length (fst (selected_providers r)) * budget (rt_policy r)"
    using mult_le_mono1 order_trans by blast
  with t assms(2) show ?thesis
    by (auto simp: turns_def run_simps length_map2_replicate)
qed

section \<open>Fair rotation\<close>

text \<open>Requests one after the other through the same router.\<close>

fun serve :: "((llm_provider \<Rightarrow> nat \<Rightarrow> reply) \<times> (nat \<Rightarrow> pyfloat)) list \<Rightarrow> router \<Rightarrow> run list \<times> router" where
  "serve [] r = ([], r)"
| "serve ((ask, jit) # reqs) r =
     (let (_, st, r') = complete ask jit r; (sts, r'') = serve reqs r' in (st # sts, r''))"

lemma rotate_to_0_nth: "xs \<noteq> [] \<Longrightarrow> rotate_to k xs = xs ! (k mod length xs) # drop (Suc (k mod length xs)) xs @ take (k mod length xs) xs"
  by (simp add: rotate_to_def Let_def Cons_nth_drop_Suc)

lemma mset_rotate_to: "mset (rotate_to k xs) = mset xs"
  unfolding rotate_to_def Let_def by (metis add.commute append_take_drop_id mset_append)

lemma complete_first_call:
  assumes "complete ask jit r = (result, st, r')" and "fst (selected_providers r) = p # ps"
  shows "\<exists>ps'. started (rn_trace st) = p # ps'"
proof -
  from complete_turns [OF assms(1)] assms(2) obtain ns where t: "turns ask jit (rt_policy r) (p # ps) ns fresh_run result st"
    by auto
  have "ns \<noteq> []"
  proof
    assume "ns = []"
    with t show False by (auto simp: turns_def run_simps last_answer_def settled_by_def)
  qed
  then obtain n ns' where ns: "ns = n # ns'" by (cases ns) auto
  with t obtain m where "n = Suc m" by (cases n) (auto simp: turns_def)
  with t ns show ?thesis by (auto simp: turns_def run_simps)
qed

lemma complete_router: "complete ask jit r = (result, st, r') \<Longrightarrow> r' = r\<lparr>rt_next := rt_next r + 1\<rparr>"
  by (auto simp: complete_def selected_providers_def Let_def split: prod.splits)

lemma serve_first:
  assumes "serve reqs r = (sts, r')" and "rt_selection r = RoundRobin" and "rt_providers r \<noteq> []"
  shows "map (\<lambda>st. hd (started (rn_trace st))) sts
    = map (\<lambda>k. rt_providers r ! (k mod length (rt_providers r))) [rt_next r..<rt_next r + length reqs]"
  using assms
proof (induction reqs r arbitrary: sts r' rule: serve.induct)
  case (2 ask jit reqs r)
  obtain result st r1 where c: "complete ask jit r = (result, st, r1)" by (cases "complete ask jit r")
  obtain sts' r2 where s: "serve reqs r1 = (sts', r2)" by (cases "serve reqs r1")
  have sts: "sts = st # sts'" using "2.prems"(1) by (simp add: c s)
  have r1: "r1 = r\<lparr>rt_next := rt_next r + 1\<rparr>" by (rule complete_router [OF c])
  have sel: "fst (selected_providers r) = rt_providers r ! (rt_next r mod length (rt_providers r))
      # drop (Suc (rt_next r mod length (rt_providers r))) (rt_providers r) @ take (rt_next r mod length (rt_providers r)) (rt_providers r)"
    using "2.prems"(2,3) by (simp add: selected_providers_def rotate_to_0_nth)
  from complete_first_call [OF c sel] have h: "hd (started (rn_trace st)) = rt_providers r ! (rt_next r mod length (rt_providers r))"
    by auto
  have "map (\<lambda>st. hd (started (rn_trace st))) sts' = map (\<lambda>k. rt_providers r ! (k mod length (rt_providers r))) [Suc (rt_next r)..<Suc (rt_next r) + length reqs]"
    using "2.IH" [OF c [symmetric] refl refl s] "2.prems"(2,3) by (simp add: r1)
  with h show ?case by (simp add: sts upt_conv_Cons del: upt_Suc)
qed simp

lemma mset_window:
  assumes "xs \<noteq> []"
  shows "mset (map (\<lambda>k. xs ! (k mod length xs)) [n..<n + length xs]) = mset xs"
proof (induction n)
  case 0
  have "map (\<lambda>k. xs ! (k mod length xs)) [0..<length xs] = xs"
    by (rule nth_equalityI) simp_all
  then show ?case by simp
next
  case (Suc n)
  let ?f = "\<lambda>k. xs ! (k mod length xs)"
  have "[n..<Suc (n + length xs)] = n # [Suc n..<Suc n + length xs]" by (simp add: upt_conv_Cons del: upt_Suc)
  moreover have "[n..<Suc (n + length xs)] = [n..<n + length xs] @ [n + length xs]" by simp
  ultimately have "add_mset (?f n) (mset (map ?f [Suc n..<Suc n + length xs]))
      = add_mset (?f (n + length xs)) (mset (map ?f [n..<n + length xs]))"
    by (metis (no_types, lifting) list.simps(9) map_append mset.simps(2) mset_append add_mset_add_single list.map(1) mset.simps(1))
  moreover have "?f (n + length xs) = ?f n" by simp
  ultimately show ?case using Suc by simp
qed

text \<open>
  round robin is fair. Among any \<open>n\<close> requests in a row through a round-robin router over \<open>n\<close> providers, each
  provider is called first exactly once, whatever the answers were.
\<close>

theorem round_robin_fair:
  assumes "serve reqs r = (sts, r')" and "rt_selection r = RoundRobin" and "rt_providers r \<noteq> []"
    and "length reqs = length (rt_providers r)"
  shows "mset (map (\<lambda>st. hd (started (rn_trace st))) sts) = mset (rt_providers r)"
  unfolding serve_first [OF assms(1-3)] assms(4) using assms(3) by (rule mset_window)

end
