(* ===== verification/Router_Stream.thy ===== *)
theory Router_Stream
  imports Router_Props
begin

text \<open>
  Streams through the router: their content comes from one call, and a stream that broke after its \<open>done\<close> chunk is
  restarted. Then functions as providers, and concrete routed requests.
\<close>

section \<open>Where the content of a stream comes from\<close>

definition content_of :: "streamed \<Rightarrow> stream_chunk list" where
  "content_of s = filter (\<lambda>c. \<not> sc_done c) (fst s)"

definition last_source :: "(llm_provider \<Rightarrow> nat \<Rightarrow> streamed) \<Rightarrow> run \<Rightarrow> stream_chunk list" where
  "last_source ask st =
     (if started (rn_trace st) = [] then [] else content_of (ask (last (started (rn_trace st))) (rn_calls st - 1)))"

lemma stream_chunks_run:
  assumes "stream_chunks p cs (y, st) = (y', st')"
  shows "rn_calls st' = rn_calls st" and "rn_errors st' = rn_errors st" and "started (rn_trace st') = started (rn_trace st)"
    and "content (rn_trace st') = content (rn_trace st) @ filter (\<lambda>c. \<not> sc_done c) cs"
    and "y' \<longleftrightarrow> y \<or> filter (\<lambda>c. \<not> sc_done c) cs \<noteq> []"
  using assms by (induction p cs "(y, st)" arbitrary: y st rule: stream_chunks.induct) (auto simp: run_simps split: if_splits)

lemma stream_with_source:
  assumes "stream_with ask jit pol p a st = (res, st')" and "content (rn_trace st) = []"
  shows "content (rn_trace st') = last_source ask st' \<and> started (rn_trace st') \<noteq> [] \<and> (\<forall>es. res \<noteq> Some (AllFailed es))
    \<and> (res = None \<longrightarrow> content (rn_trace st') = []) \<and> (\<forall>e. res = Some (Raised e) \<longrightarrow> content (rn_trace st') \<noteq> [])"
  using assms
proof (induction ask jit pol p a st arbitrary: res st' rule: stream_with.induct)
  case (1 ask jit pol p a st)
  obtain cs fin where ask: "ask p (rn_calls st) = (cs, fin)" by (cases "ask p (rn_calls st)")
  obtain y st1 where sc: "stream_chunks p cs (False, start_call p st) = (y, st1)" by (cases "stream_chunks p cs (False, start_call p st)")
  note run = stream_chunks_run [OF sc]
  have src: "content (rn_trace st1) = content_of (ask p (rn_calls st1 - 1))"
    using run "1.prems"(2) by (simp add: run_simps content_of_def ask)
  show ?case
  proof (cases fin)
    case Ended
    with "1.prems" ask sc run src show ?thesis
      by (auto simp: stream_with.simps [of ask jit pol p a] run_simps last_source_def)
  next
    case (Burst x)
    with "1.prems" ask sc run src show ?thesis
      by (auto simp: stream_with.simps [of ask jit pol p a] run_simps last_source_def)
  next
    case (Broke e)
    consider (raised) y | (over) "\<not> y" "gives_up pol a e" | (again) "\<not> y" "\<not> gives_up pol a e" by blast
    then show ?thesis
    proof cases
      case raised
      with Broke "1.prems" ask sc run src show ?thesis
        by (auto simp: stream_with.simps [of ask jit pol p a] run_simps last_source_def)
    next
      case over
      with Broke "1.prems" ask sc run src show ?thesis
        by (auto simp: stream_with.simps [of ask jit pol p a] run_simps last_source_def)
    next
      case again
      with Broke "1.prems"(1) ask sc
      have rest: "stream_with ask jit pol p (a + 1) (backoff pol jit a e (fail_call p e st1)) = (res, st')"
        by (simp add: stream_with.simps [of ask jit pol p a])
      have "content (rn_trace (backoff pol jit a e (fail_call p e st1))) = []"
        using again(1) run "1.prems"(2) by (simp add: run_simps)
      from "1.IH" [OF ask [symmetric] refl sc [symmetric] refl Broke refl again rest this] show ?thesis .
    qed
  qed
qed

lemma stream_all_source:
  assumes "stream_all ask jit pol ps st = (result, st')"
    and "content (rn_trace st) = []" and "last_source ask st = []"
  shows "content (rn_trace st') = last_source ask st'
    \<and> (\<forall>es. result = AllFailed es \<longrightarrow> es = rn_errors st' \<and> content (rn_trace st') = [])
    \<and> (\<forall>e. result = Raised e \<longrightarrow> content (rn_trace st') \<noteq> [])"
  using assms
proof (induction ask jit pol ps st rule: stream_all.induct)
  case (2 ask jit pol p ps st)
  obtain res st1 where s: "stream_with ask jit pol p 0 st = (res, st1)" by (cases "stream_with ask jit pol p 0 st")
  note one = stream_with_source [OF s "2.prems"(2)]
  show ?case
  proof (cases res)
    case None
    with "2.prems"(1) s have rest: "stream_all ask jit pol ps st1 = (result, st')" by simp
    from one None have "content (rn_trace st1) = []" "last_source ask st1 = []" by auto
    with "2.IH" [OF s [symmetric] None rest] show ?thesis by blast
  next
    case (Some result')
    with "2.prems"(1) s one show ?thesis by auto
  qed
qed auto

text \<open>
  a stream never mixes two answers. Whatever was yielded downstream as content is the content of the last
  call's stream; when every provider failed nothing was yielded, and an error is passed on as it is only after
  content was.
\<close>

theorem stream_single_source:
  assumes "stream ask jit r = (result, st, r')"
  shows "content (rn_trace st) = last_source ask st
    \<and> (case result of AllFailed es \<Rightarrow> es = rn_errors st \<and> content (rn_trace st) = []
       | Raised e \<Rightarrow> content (rn_trace st) \<noteq> [] | _ \<Rightarrow> True)"
proof -
  from assms have "stream_all ask jit (rt_policy r) (fst (selected_providers r)) fresh_run = (result, st)"
    by (simp add: stream_def Let_def split: prod.splits)
  from stream_all_source [OF this] show ?thesis
    by (auto simp: run_simps last_source_def split: route_result.splits)
qed

section \<open>A stream that breaks after its end\<close>

definition yields :: "llm_provider \<Rightarrow> stream_chunk list \<Rightarrow> emitted list" where
  "yields p cs = concat (map (\<lambda>c. (if sc_done c then [Completed p (sc_model c) (sc_usage c)] else []) @ [Yielded c]) cs)"

lemma stream_chunks_trace:
  "stream_chunks p cs (y, st) = (y', st') \<Longrightarrow> rn_trace st' = rn_trace st @ yields p cs"
  by (induction p cs "(y, st)" arbitrary: y st rule: stream_chunks.induct) (auto simp: run_simps yields_def)

lemma stream_with_trace:
  "stream_with ask jit pol p a st = (res, st') \<Longrightarrow> \<exists>es. rn_trace st' = rn_trace st @ Started p # es"
proof (induction ask jit pol p a st arbitrary: res st' rule: stream_with.induct)
  case (1 ask jit pol p a st)
  obtain cs fin where ask: "ask p (rn_calls st) = (cs, fin)" by (cases "ask p (rn_calls st)")
  obtain y st1 where sc: "stream_chunks p cs (False, start_call p st) = (y, st1)" by (cases "stream_chunks p cs (False, start_call p st)")
  note tr = stream_chunks_trace [OF sc]
  show ?case
  proof (cases "\<exists>e. fin = Broke e \<and> \<not> y \<and> \<not> gives_up pol a e")
    case False
    with "1.prems" ask sc tr show ?thesis
      by (cases fin) (auto simp: stream_with.simps [of ask jit pol p a] run_simps Let_def split: if_splits)
  next
    case True
    then obtain e where e: "fin = Broke e" "\<not> y" "\<not> gives_up pol a e" by blast
    with "1.prems" ask sc
    have rest: "stream_with ask jit pol p (a + 1) (backoff pol jit a e (fail_call p e st1)) = (res, st')"
      by (simp add: stream_with.simps [of ask jit pol p a])
    from "1.IH" [OF ask [symmetric] refl sc [symmetric] refl e(1) refl e(2,3) rest] tr show ?thesis
      by (auto simp: run_simps)
  qed
qed

lemma stream_all_trace: "stream_all ask jit pol ps st = (result, st') \<Longrightarrow> \<exists>es. rn_trace st' = rn_trace st @ es"
proof (induction ask jit pol ps st rule: stream_all.induct)
  case (2 ask jit pol p ps st)
  obtain res st1 where s: "stream_with ask jit pol p 0 st = (res, st1)" by (cases "stream_with ask jit pol p 0 st")
  from stream_with_trace [OF s] obtain es where es: "rn_trace st1 = rn_trace st @ Started p # es" ..
  show ?case
  proof (cases res)
    case None
    with "2.prems" s have rest: "stream_all ask jit pol ps st1 = (result, st')" by simp
    from "2.IH" [OF s [symmetric] None rest] es show ?thesis by auto
  next
    case (Some result')
    with "2.prems" s es show ?thesis by auto
  qed
qed simp

text \<open>
  a finished stream can be restarted. When the first provider's stream holds only chunks marked \<open>done\<close> and
  then fails, those chunks and \<open>provider.completed\<close> have already been emitted, and the router still falls back:
  the next provider is started and its whole stream follows.
\<close>

theorem stream_falls_back_after_done:
  assumes "stream ask jit r = (result, st, r')" and "fst (selected_providers r) = p # q # ps"
    and "ask p 0 = (cs, Broke e)" and "list_all sc_done cs" and "\<not> pe_retryable e"
  shows "\<exists>rest. rn_trace st = Started p # yields p cs @ Failed p e # Started q # rest"
proof -
  from assms(1,2) have all: "stream_all ask jit (rt_policy r) (p # q # ps) fresh_run = (result, st)"
    by (simp add: stream_def Let_def split: prod.splits)
  obtain y st1 where sc: "stream_chunks p cs (False, start_call p fresh_run) = (y, st1)"
    by (cases "stream_chunks p cs (False, start_call p fresh_run)")
  have y: "\<not> y" using stream_chunks_run(5) [OF sc] assms(4) by (auto simp: list_all_iff filter_empty_conv)
  have "gives_up (rt_policy r) 0 e" using assms(5) by (simp add: gives_up_def)
  with assms(3) sc y have "stream_with ask jit (rt_policy r) p 0 fresh_run = (None, fail_call p e st1)"
    by (simp add: stream_with.simps [of ask jit "rt_policy r" p 0] run_simps)
  with all have rest: "stream_all ask jit (rt_policy r) (q # ps) (fail_call p e st1) = (result, st)" by simp
  obtain res st2 where s: "stream_with ask jit (rt_policy r) q 0 (fail_call p e st1) = (res, st2)"
    by (cases "stream_with ask jit (rt_policy r) q 0 (fail_call p e st1)")
  from stream_with_trace [OF s] obtain es where es: "rn_trace st2 = rn_trace (fail_call p e st1) @ Started q # es" ..
  have "\<exists>es'. rn_trace st = rn_trace st2 @ es'"
    using rest s stream_all_trace by (cases res) auto
  then obtain es' where "rn_trace st = rn_trace st2 @ es'" ..
  with es stream_chunks_trace [OF sc] show ?thesis by (simp add: run_simps)
qed

section \<open>Functions as providers\<close>

lemma fn_complete_crash: "fn_complete p m f = Crashed x \<Longrightarrow> f = Cancelled x"
  by (cases f) (simp_all add: fn_complete_def)

lemma heard_Crashed: "Crashed x \<in> set (heard ask k ps) \<Longrightarrow> \<exists>p\<in>set ps. \<exists>j. ask p j = Crashed x"
  by (induction ps arbitrary: k) auto

text \<open>
  no failure of a wrapped function escapes the router. When every provider is a wrapped function that is not
  cancelled, a request ends with a response or with the errors of all providers.
\<close>

theorem fn_failures_are_routed:
  assumes "complete (\<lambda>p k. fn_complete p (model p k) (f p k)) jit r = (result, st, r')"
    and "\<And>p k x. f p k \<noteq> Cancelled x"
  shows "(\<exists>a. result = Returned a) \<or> result = AllFailed (rn_errors st)"
proof -
  let ?ask = "\<lambda>p k. fn_complete p (model p k) (f p k)"
  from complete_turns [OF assms(1)] obtain ns where
    t: "turns ?ask jit (rt_policy r) (fst (selected_providers r)) ns fresh_run result st" ..
  have "result \<noteq> Escaped x" for x
  proof
    assume "result = Escaped x"
    with t have "Crashed x \<in> set (heard ?ask 0 (concat (map2 replicate ns (fst (selected_providers r)))))"
      by (auto simp: turns_def run_simps last_answer_def settled_by_def)
    from heard_Crashed [OF this] obtain p j where "?ask p j = Crashed x" by blast
    from fn_complete_crash [OF this] assms(2) show False by blast
  qed
  with t show ?thesis by (auto simp: turns_def split: if_splits)
qed

section \<open>Concrete requests\<close>

definition demo_provider :: "string \<Rightarrow> llm_provider" where
  "demo_provider name = \<lparr>pv_name = u name, pv_model = u ''m''\<rparr>"

definition demo_error :: "bool \<Rightarrow> provider_error" where
  "demo_error again =
     \<lparr>pe_text = u ''x'', pe_provider = u ''a'', pe_status = None, pe_retryable = again, pe_retry_after = None\<rparr>"

definition demo_response :: provider_response where
  "demo_response = \<lparr>rs_content = u ''hi'', rs_model = u ''m'', rs_provider = u ''b'', rs_usage = no_usage,
     rs_finish_reason = Some (u ''stop''), rs_raw = PNone\<rparr>"

definition demo_router :: "selection \<Rightarrow> router" where
  "demo_router s =
     \<lparr>rt_providers = [demo_provider ''a'', demo_provider ''b''],
      rt_policy = default_policy\<lparr>rp_max_retries := 1\<rparr>, rt_selection = s, rt_next = 0\<rparr>"

text \<open>Two refusals by the first provider, then an answer of the second.\<close>

definition demo_ask :: "llm_provider \<Rightarrow> nat \<Rightarrow> reply" where
  "demo_ask p k = (if k < 2 then Refused (demo_error True) else Answered demo_response)"

definition demo_run :: "run" where
  "demo_run =
     \<lparr>rn_errors = [demo_error True, demo_error True], rn_calls = 3,
      rn_trace = [Started (demo_provider ''a''), Failed (demo_provider ''a'') (demo_error True), Slept (1 / 2),
        Started (demo_provider ''a''), Failed (demo_provider ''a'') (demo_error True),
        Started (demo_provider ''b''), Completed (demo_provider ''b'') (Some (u ''m'')) (Some no_usage)]\<rparr>"

lemmas demo_run_simps =
  complete_def stream_def selected_providers_def rotate_to_def complete_with.simps stream_with.simps start_call_def
  fail_call_def backoff_def trace_out_def gives_up_def delay_def fresh_run_def default_policy_def demo_router_def demo_error_def

lemma demo_complete:
  "complete demo_ask (\<lambda>k. 0) (demo_router Ordered) = (Returned demo_response, demo_run, (demo_router Ordered)\<lparr>rt_next := 1\<rparr>)"
  by (simp add: demo_run_simps demo_ask_def demo_run_def demo_response_def Let_def)

theorem complete_first_success_witness:
  "\<exists>ns. started (rn_trace demo_run) = concat (map2 replicate ns (fst (selected_providers (demo_router Ordered))))
    \<and> list_all (\<lambda>n. 1 \<le> n \<and> n \<le> budget (rt_policy (demo_router Ordered))) ns
    \<and> heard demo_ask 0 (started (rn_trace demo_run)) = [Refused (demo_error True), Refused (demo_error True), Answered demo_response]"
proof -
  have "map Refused (rn_errors demo_run) @ last_answer (Returned demo_response)
      = [Refused (demo_error True), Refused (demo_error True), Answered demo_response]"
    by (simp add: demo_run_def last_answer_def settled_by_def)
  with complete_first_success [OF demo_complete] show ?thesis by metis
qed

lemma demo_sane: "sane (rt_policy (demo_router s)) (\<lambda>k. 0)"
  by (simp add: sane_def demo_router_def default_policy_def)

theorem complete_bounded_witness: "rn_calls demo_run \<le> 4 \<and> sum_list (slept (rn_trace demo_run)) \<le> 25"
  using complete_bounded [OF demo_complete demo_sane]
  by (simp add: demo_router_def selected_providers_def budget_def longest_def default_policy_def)

definition demo_reqs :: "((llm_provider \<Rightarrow> nat \<Rightarrow> reply) \<times> (nat \<Rightarrow> pyfloat)) list" where
  "demo_reqs = [(demo_ask, \<lambda>k. 0), (\<lambda>p k. Answered demo_response, \<lambda>k. 0)]"

theorem round_robin_fair_witness:
  "mset (map (\<lambda>st. hd (started (rn_trace st))) (fst (serve demo_reqs (demo_router RoundRobin))))
    = {#demo_provider ''a'', demo_provider ''b''#}"
  using round_robin_fair [of demo_reqs "demo_router RoundRobin", OF prod.collapse [symmetric]]
  by (simp add: demo_router_def demo_reqs_def)

text \<open>A stream that sends a chunk and ends, after one that sent \<open>done\<close> and broke.\<close>

definition demo_chunk :: "bool \<Rightarrow> stream_chunk" where
  "demo_chunk fin = \<lparr>sc_delta = [], sc_done = fin, sc_model = None, sc_provider = None, sc_usage = None,
     sc_finish_reason = None, sc_raw = PNone\<rparr>"

definition demo_streams :: "llm_provider \<Rightarrow> nat \<Rightarrow> streamed" where
  "demo_streams p k = (if k = 0 then ([demo_chunk True], Broke (demo_error False)) else ([demo_chunk False, demo_chunk True], Ended))"

definition demo_stream_run :: "run" where
  "demo_stream_run =
     \<lparr>rn_errors = [demo_error False], rn_calls = 2,
      rn_trace = [Started (demo_provider ''a''), Completed (demo_provider ''a'') None None, Yielded (demo_chunk True),
        Failed (demo_provider ''a'') (demo_error False), Started (demo_provider ''b''), Yielded (demo_chunk False),
        Completed (demo_provider ''b'') None None, Yielded (demo_chunk True)]\<rparr>"

lemma demo_stream:
  "stream demo_streams (\<lambda>k. 0) (demo_router Ordered) = (Returned (), demo_stream_run, (demo_router Ordered)\<lparr>rt_next := 1\<rparr>)"
  by (simp add: demo_run_simps demo_streams_def demo_stream_run_def demo_chunk_def Let_def)

theorem stream_single_source_witness: "content (rn_trace demo_stream_run) = [demo_chunk False]"
  using stream_single_source [OF demo_stream]
  by (simp add: last_source_def demo_stream_run_def demo_streams_def content_of_def demo_chunk_def)

theorem stream_falls_back_after_done_witness:
  "\<exists>rest. rn_trace demo_stream_run = Started (demo_provider ''a'') # yields (demo_provider ''a'') [demo_chunk True]
     @ Failed (demo_provider ''a'') (demo_error False) # Started (demo_provider ''b'') # rest"
  by (rule stream_falls_back_after_done [OF demo_stream, where ps = "[]"])
    (simp_all add: demo_router_def selected_providers_def demo_streams_def demo_chunk_def demo_error_def)

theorem fn_failures_are_routed_witness:
  "case complete (\<lambda>p k. fn_complete p None (FnFailed [])) (\<lambda>k. 0) (demo_router Ordered) of
     (result, st, _) \<Rightarrow> (\<exists>a. result = Returned a) \<or> result = AllFailed (rn_errors st)"
proof (cases "complete (\<lambda>p k. fn_complete p None (FnFailed [])) (\<lambda>k. 0) (demo_router Ordered)")
  case (fields result st r')
  have "(\<exists>a. result = Returned a) \<or> result = AllFailed (rn_errors st)"
    by (rule fn_failures_are_routed [OF fields]) simp
  with fields show ?thesis by simp
qed

end
