(* ===== verification/Cache_Stores.thy ===== *)
theory Cache_Stores
  imports Prelude
begin

text \<open>
  \<open>cache/memory.py\<close> and \<open>session_hash.py\<close>: the in-process cache of responses, and the stores of content hashes a
  conversation has already sent. A Python dict is an association list in insertion order; \<open>now\<close> is a clock
  reading.
\<close>

section \<open>Ordered dictionaries\<close>

definition od_pop :: "'k \<Rightarrow> ('k \<times> 'v) list \<Rightarrow> ('k \<times> 'v) list" where
  "od_pop k d = filter (\<lambda>(k', _). k' \<noteq> k) d"

text \<open>\<open>d[k] = v\<close>: in place for a key that is there, at the end otherwise.\<close>

fun od_set :: "'k \<Rightarrow> 'v \<Rightarrow> ('k \<times> 'v) list \<Rightarrow> ('k \<times> 'v) list" where
  "od_set k v [] = [(k, v)]"
| "od_set k v ((k', v') # d) = (if k' = k then (k, v) # d else (k', v') # od_set k v d)"

section \<open>The in-memory cache\<close>

record 'v mem_cache =
  mc_namespace :: pystr
  mc_default_ttl :: "int option"
  mc_max_size :: "int option"
  mc_store :: "(pystr \<times> 'v \<times> pyfloat option) list"
  mc_session :: "(pystr \<times> 'v) list"
  mc_pattern :: "pystr option"

datatype mem_error = NoOldest | MissingParam

definition starts_with :: "pystr \<Rightarrow> pystr \<Rightarrow> bool" where
  "starts_with p s \<longleftrightarrow> take (length p) s = p"

definition full_key :: "'v mem_cache \<Rightarrow> pystr \<Rightarrow> pystr" where
  "full_key c key = (if starts_with (mc_namespace c) key then key else mc_namespace c @ key)"

definition expired_at :: "pyfloat option \<Rightarrow> pyfloat \<Rightarrow> bool" where
  "expired_at e now = (case e of None \<Rightarrow> False | Some t \<Rightarrow> now \<ge> t)"

definition cache_get :: "pystr \<Rightarrow> pyfloat \<Rightarrow> 'v mem_cache \<Rightarrow> 'v option \<times> 'v mem_cache" where
  "cache_get key now c =
     (case map_of (mc_store c) (full_key c key) of
        None \<Rightarrow> (None, c)
      | Some (v, e) \<Rightarrow>
          if expired_at e now then (None, c\<lparr>mc_store := od_pop (full_key c key) (mc_store c)\<rparr>)
          else (Some v, c))"

text \<open>
  The loop that evicts the oldest entry, of the cache or of a session's hashes. When the bound is negative the
  emptied dictionary has no oldest entry and Python raises.
\<close>

fun evict_to :: "int \<Rightarrow> 'a list \<Rightarrow> (mem_error + unit) \<times> 'a list" where
  "evict_to n d =
     (if int (length d) > n then (case d of [] \<Rightarrow> (Inl NoOldest, []) | _ # d' \<Rightarrow> evict_to n d')
      else (Inr (), d))"

declare evict_to.simps [simp del]

definition effective_ttl :: "int option \<Rightarrow> 'v mem_cache \<Rightarrow> int option" where
  "effective_ttl ttl c = (case ttl of None \<Rightarrow> mc_default_ttl c | Some t \<Rightarrow> Some t)"

definition cache_set :: "pystr \<Rightarrow> 'v \<Rightarrow> int option \<Rightarrow> pyfloat \<Rightarrow> 'v mem_cache \<Rightarrow> (mem_error + unit) \<times> 'v mem_cache" where
  "cache_set key v ttl now c =
     (let t = effective_ttl ttl c in
      if (case t of None \<Rightarrow> False | Some s \<Rightarrow> s \<le> 0) then (Inr (), c)
      else
        (let expires = map_option (\<lambda>s. now + of_int s) t;
             store = od_set (full_key c key) (v, expires) (od_pop (full_key c key) (mc_store c));
             (r, store') = (case mc_max_size c of None \<Rightarrow> (Inr (), store) | Some n \<Rightarrow> evict_to n store)
         in (r, c\<lparr>mc_store := store'\<rparr>)))"

definition cache_delete :: "pystr \<Rightarrow> 'v mem_cache \<Rightarrow> 'v mem_cache" where
  "cache_delete key c = c\<lparr>mc_store := od_pop (full_key c key) (mc_store c)\<rparr>"

definition close_cache :: "'v mem_cache \<Rightarrow> 'v mem_cache" where
  "close_cache c = c\<lparr>mc_store := []\<rparr>"

text \<open>\<open>fill\<close> is \<open>str.format\<close>, \<open>None\<close> where it raises \<open>KeyError\<close>.\<close>

definition read_app_session :: "(pystr \<Rightarrow> (pystr \<times> pystr) list \<Rightarrow> pystr option) \<Rightarrow> (pystr \<times> pystr) list \<Rightarrow> 'v mem_cache \<Rightarrow> mem_error + 'v option" where
  "read_app_session fill params c =
     (case mc_pattern c of
        None \<Rightarrow> Inr None
      | Some p \<Rightarrow>
          if p = [] then Inr None
          else (case fill p params of None \<Rightarrow> Inl MissingParam | Some k \<Rightarrow> Inr (map_of (mc_session c) k)))"

section \<open>Hashes seen in a session\<close>

record session =
  ss_hashes :: "pystr list"
  ss_touched :: pyfloat

record hash_store =
  hs_ttl :: int
  hs_max_sessions :: int
  hs_max_hashes :: int
  hs_sessions :: "(pystr \<times> session) list"

definition DEFAULT_SESSION_TTL_SECONDS :: int where "DEFAULT_SESSION_TTL_SECONDS = 8 * 60 * 60"
definition DEFAULT_LOCAL_SESSION_MAX :: int where "DEFAULT_LOCAL_SESSION_MAX = 500"
definition DEFAULT_MAX_HASHES_PER_SESSION :: int where "DEFAULT_MAX_HASHES_PER_SESSION = 5000"

text \<open>\<open>xs[:n]\<close> of Python.\<close>

definition py_take :: "int \<Rightarrow> 'a list \<Rightarrow> 'a list" where
  "py_take n xs = (if n < 0 then take (nat (int (length xs) + n)) xs else take (nat n) xs)"

definition prune :: "hash_store \<Rightarrow> hash_store" where
  "prune h =
     (if int (length (hs_sessions h)) \<le> hs_max_sessions h then h
      else
        (let ordered = sort_key (ss_touched \<circ> snd) (hs_sessions h);
             gone = map fst (py_take (int (length ordered) - hs_max_sessions h) ordered)
         in h\<lparr>hs_sessions := filter (\<lambda>(sid, _). sid \<notin> set gone) (hs_sessions h)\<rparr>))"

text \<open>The session to use, and the store afterwards. A session that is pruned at once is used all the same.\<close>

definition get_session :: "pystr \<Rightarrow> pyfloat \<Rightarrow> hash_store \<Rightarrow> session \<times> hash_store" where
  "get_session sid now h =
     (let known = map_of (hs_sessions h) sid;
          stale = (case known of None \<Rightarrow> True | Some s \<Rightarrow> now - ss_touched s > of_int (hs_ttl h));
          fresh = \<lparr>ss_hashes = [], ss_touched = now\<rparr>;
          h' = (if stale then prune (h\<lparr>hs_sessions := od_set sid fresh (hs_sessions h)\<rparr>) else h);
          s = (if stale then fresh else (the known)\<lparr>ss_touched := now\<rparr>)
      in (s, h'))"

text \<open>A session object that is still in the dictionary is shared with it.\<close>

definition write_back :: "pystr \<Rightarrow> session \<Rightarrow> hash_store \<Rightarrow> hash_store" where
  "write_back sid s h =
     (if sid \<in> fst ` set (hs_sessions h) then h\<lparr>hs_sessions := od_set sid s (hs_sessions h)\<rparr> else h)"

definition is_duplicate :: "pystr \<Rightarrow> pystr \<Rightarrow> pyfloat \<Rightarrow> hash_store \<Rightarrow> bool \<times> hash_store" where
  "is_duplicate sid doc_hash now h =
     (let (s, h') = get_session sid now h in (doc_hash \<in> set (ss_hashes s), write_back sid s h'))"

definition add_hash :: "pystr \<Rightarrow> pystr \<Rightarrow> pyfloat \<Rightarrow> hash_store \<Rightarrow> (mem_error + unit) \<times> hash_store" where
  "add_hash sid doc_hash now h =
     (let (s, h') = get_session sid now h in
      if doc_hash \<in> set (ss_hashes s) then (Inr (), write_back sid s h')
      else
        (let (r, hashes) = evict_to (hs_max_hashes h) (ss_hashes s @ [doc_hash])
         in (r, write_back sid (s\<lparr>ss_hashes := hashes\<rparr>) h')))"

section \<open>The store behind Redis\<close>

text \<open>
  What the server keeps: sets with the time they expire, if any. \<open>up\<close> and \<open>up'\<close> tell whether the two calls of
  the client, the set operation and then \<open>EXPIRE\<close>, succeed.
\<close>

type_synonym redis_sets = "pystr \<Rightarrow> (pystr list \<times> pyfloat option)"

definition no_sets :: redis_sets where
  "no_sets = (\<lambda>key. ([], None))"

definition live_set :: "pystr \<Rightarrow> pyfloat \<Rightarrow> redis_sets \<Rightarrow> pystr list \<times> pyfloat option" where
  "live_set key now r = (if expired_at (snd (r key)) now then ([], None) else r key)"

definition sismember :: "pystr \<Rightarrow> pystr \<Rightarrow> pyfloat \<Rightarrow> redis_sets \<Rightarrow> bool" where
  "sismember key x now r \<longleftrightarrow> x \<in> set (fst (live_set key now r))"

definition sadd :: "pystr \<Rightarrow> pystr \<Rightarrow> pyfloat \<Rightarrow> redis_sets \<Rightarrow> redis_sets" where
  "sadd key x now r = (let (xs, e) = live_set key now r in r(key := (if x \<in> set xs then xs else xs @ [x], e)))"

definition expire :: "pystr \<Rightarrow> int \<Rightarrow> pyfloat \<Rightarrow> redis_sets \<Rightarrow> redis_sets" where
  "expire key ttl now r =
     (let (xs, e) = live_set key now r in r(key := if xs = [] then ([], None) else (xs, Some (now + of_int ttl))))"

record redis_hash_store =
  rh_ttl :: int
  rh_prefix :: pystr
  rh_fallback :: hash_store

definition redis_is_duplicate ::
  "bool \<Rightarrow> bool \<Rightarrow> pystr \<Rightarrow> pystr \<Rightarrow> pyfloat \<Rightarrow> redis_sets \<Rightarrow> redis_hash_store \<Rightarrow> bool \<times> redis_sets \<times> redis_hash_store" where
  "redis_is_duplicate up up' sid doc_hash now r h =
     (let key = rh_prefix h @ sid; r' = (if up \<and> up' then expire key (rh_ttl h) now r else r) in
      if up \<and> up' then (sismember key doc_hash now r, r', h)
      else (let (b, f) = is_duplicate sid doc_hash now (rh_fallback h) in (b, r', h\<lparr>rh_fallback := f\<rparr>)))"

definition redis_add_hash ::
  "bool \<Rightarrow> bool \<Rightarrow> pystr \<Rightarrow> pystr \<Rightarrow> pyfloat \<Rightarrow> redis_sets \<Rightarrow> redis_hash_store \<Rightarrow> (mem_error + unit) \<times> redis_sets \<times> redis_hash_store" where
  "redis_add_hash up up' sid doc_hash now r h =
     (let (res, f) = add_hash sid doc_hash now (rh_fallback h); h' = h\<lparr>rh_fallback := f\<rparr>; key = rh_prefix h @ sid in
      case res of
        Inl e \<Rightarrow> (Inl e, r, h')
      | Inr _ \<Rightarrow>
          (let r1 = (if up then sadd key doc_hash now r else r); r2 = (if up \<and> up' then expire key (rh_ttl h) now r1 else r1)
           in (Inr (), r2, h')))"

end
