(* ===== verification/Cache_Props.thy ===== *)
theory Cache_Props
  imports Cache_Stores "HOL-Library.Multiset"
begin

text \<open>
  The in-memory cache against an unbounded map, what its bound may cost, and the two promises of the stores of
  hashes: bounded memory, and no hash of another session.
\<close>

section \<open>Ordered dictionaries\<close>

lemma map_of_od_pop: "map_of (od_pop k d) = (map_of d)(k := None)"
  by (induction d) (auto simp: od_pop_def)

lemma map_of_od_set: "map_of (od_set k v d) = (map_of d)(k \<mapsto> v)"
  by (induction k v d rule: od_set.induct) auto

lemma keys_od_set: "fst ` set (od_set k v d) = insert k (fst ` set d)"
  by (induction k v d rule: od_set.induct) auto

lemma length_od_set: "length (od_set k v d) = (if k \<in> fst ` set d then length d else Suc (length d))"
  by (induction k v d rule: od_set.induct) auto

lemma distinct_od_set: "distinct (map fst (od_set k v d)) \<longleftrightarrow> distinct (map fst d)"
  by (induction k v d rule: od_set.induct) (auto simp: keys_od_set image_iff)

lemma od_pop_keys: "k \<notin> fst ` set (od_pop k d)"
  by (auto simp: od_pop_def)

lemma distinct_od_pop: "distinct (map fst d) \<Longrightarrow> distinct (map fst (od_pop k d))"
  by (induction d) (auto simp: od_pop_def)

lemma od_set_new: "k \<notin> fst ` set d \<Longrightarrow> od_set k v d = d @ [(k, v)]"
  by (induction k v d rule: od_set.induct) auto

lemma od_set_values: "(k', v') \<in> set (od_set k v d) \<Longrightarrow> (k', v') = (k, v) \<or> (k', v') \<in> set d"
  by (induction k v d rule: od_set.induct) (auto split: if_splits)

lemma map_of_suffix:
  assumes "distinct (map fst (xs @ ys))"
  shows "map_of ys \<subseteq>\<^sub>m map_of (xs @ ys)"
  using assms by (auto simp: map_le_def map_add_def split: option.splits dest!: map_of_SomeD) force

lemma map_le_None: "m \<subseteq>\<^sub>m m' \<Longrightarrow> m' x = None \<Longrightarrow> m x = None"
  by (metis domIff map_le_def)

section \<open>Eviction\<close>

lemma evict_to_drop: "0 \<le> n \<Longrightarrow> evict_to n d = (Inr (), drop (length d - nat n) d)"
proof (induction d)
  case (Cons x d)
  then show ?case
    by (cases "int (length (x # d)) > n") (auto simp: evict_to.simps [of n "x # d"] Suc_diff_le nat_le_iff Suc_nat_eq_nat_zadd1)
qed (simp add: evict_to.simps)

section \<open>The cache as a map\<close>

datatype 'v cache_op = Get pystr pyfloat | Put pystr 'v "int option" pyfloat | Delete pystr | Close

fun do_cache_op :: "'v cache_op \<Rightarrow> 'v mem_cache \<Rightarrow> 'v mem_cache" where
  "do_cache_op (Get k now) c = snd (cache_get k now c)"
| "do_cache_op (Put k v ttl now) c = snd (cache_set k v ttl now c)"
| "do_cache_op (Delete k) c = cache_delete k c"
| "do_cache_op Close c = close_cache c"

text \<open>The same operations on a map without a bound.\<close>

type_synonym 'v table = "pystr \<rightharpoonup> 'v \<times> pyfloat option"

fun ideal_op :: "'v mem_cache \<Rightarrow> 'v cache_op \<Rightarrow> 'v table \<Rightarrow> 'v table" where
  "ideal_op c (Get k now) t =
     (case t (full_key c k) of Some (v, e) \<Rightarrow> if expired_at e now then t(full_key c k := None) else t | None \<Rightarrow> t)"
| "ideal_op c (Put k v ttl now) t =
     (case effective_ttl ttl c of
        None \<Rightarrow> t(full_key c k \<mapsto> (v, None))
      | Some s \<Rightarrow> if s \<le> 0 then t else t(full_key c k \<mapsto> (v, Some (now + of_int s))))"
| "ideal_op c (Delete k) t = t(full_key c k := None)"
| "ideal_op c Close t = Map.empty"

definition cache_ok :: "'v mem_cache \<Rightarrow> bool" where
  "cache_ok c \<longleftrightarrow> distinct (map fst (mc_store c)) \<and> list_all (\<lambda>(k, _). starts_with (mc_namespace c) k) (mc_store c)
     \<and> (case mc_max_size c of None \<Rightarrow> True | Some n \<Rightarrow> int (length (mc_store c)) \<le> n)"

definition same_settings :: "'v mem_cache \<Rightarrow> 'v mem_cache \<Rightarrow> bool" where
  "same_settings c c' \<longleftrightarrow> mc_namespace c' = mc_namespace c \<and> mc_default_ttl c' = mc_default_ttl c \<and> mc_max_size c' = mc_max_size c"

lemma full_key_in_namespace: "starts_with (mc_namespace c) (full_key c k)"
  by (simp add: full_key_def starts_with_def)

lemma same_settings_key: "same_settings c c' \<Longrightarrow> full_key c' k = full_key c k"
  by (simp add: same_settings_def full_key_def)

lemma same_settings_ttl: "same_settings c c' \<Longrightarrow> effective_ttl ttl c' = effective_ttl ttl c"
  by (simp add: same_settings_def effective_ttl_def split: option.splits)

lemma same_settings_ideal: "same_settings c c' \<Longrightarrow> ideal_op c' x t = ideal_op c x t"
  by (cases x) (auto simp: same_settings_key same_settings_ttl split: option.splits)

lemma same_settings_ideal': "same_settings c c' \<Longrightarrow> ideal_op c' = ideal_op c"
  using same_settings_ideal by blast

definition trimmed :: "int option \<Rightarrow> 'a list \<Rightarrow> 'a list" where
  "trimmed bound d = (case bound of None \<Rightarrow> d | Some n \<Rightarrow> drop (length d - nat n) d)"

lemma trimmed_split: "\<exists>xs. d = xs @ trimmed bound d"
proof (cases bound)
  case None
  then show ?thesis by (simp add: trimmed_def)
next
  case (Some n)
  have "d = take (length d - nat n) d @ drop (length d - nat n) d" by simp
  then show ?thesis unfolding trimmed_def Some by (metis option.simps(5))
qed

definition sane_bound :: "int option \<Rightarrow> bool" where
  "sane_bound bound \<longleftrightarrow> (case bound of None \<Rightarrow> True | Some n \<Rightarrow> 0 \<le> n)"

definition stored_until :: "int option \<Rightarrow> pyfloat \<Rightarrow> pyfloat option option" where
  "stored_until ttl now = (case ttl of None \<Rightarrow> Some None | Some s \<Rightarrow> if s \<le> 0 then None else Some (Some (now + of_int s)))"

lemma cache_set_store:
  assumes "sane_bound (mc_max_size c)"
  shows "cache_set k v ttl now c =
    (case stored_until (effective_ttl ttl c) now of
       None \<Rightarrow> (Inr (), c)
     | Some e \<Rightarrow> (Inr (), c\<lparr>mc_store := trimmed (mc_max_size c) (od_pop (full_key c k) (mc_store c) @ [(full_key c k, v, e)])\<rparr>))"
  using assms
  by (auto simp: cache_set_def stored_until_def Let_def sane_bound_def trimmed_def od_set_new [OF od_pop_keys] evict_to_drop
      split: option.splits)

lemma ideal_put:
  "ideal_op c (Put k v ttl now) t = (case stored_until (effective_ttl ttl c) now of None \<Rightarrow> t | Some e \<Rightarrow> t(full_key c k \<mapsto> (v, e)))"
  by (simp add: stored_until_def split: option.splits)

lemma do_cache_op_settings: "sane_bound (mc_max_size c) \<Longrightarrow> same_settings c (do_cache_op x c)"
  by (cases x) (auto simp: same_settings_def cache_set_store cache_get_def cache_delete_def close_cache_def split: option.splits)

lemma length_trimmed: "0 \<le> n \<Longrightarrow> int (length (trimmed (Some n) d)) \<le> n"
  by (simp add: trimmed_def)

lemma od_pop_ok:
  "distinct (map fst d) \<and> list_all P d \<Longrightarrow> distinct (map fst (od_pop k d)) \<and> list_all P (od_pop k d) \<and> length (od_pop k d) \<le> length d"
  by (auto simp: distinct_od_pop list_all_iff) (auto simp: od_pop_def)

lemma put_list_ok:
  assumes "distinct (map fst d)" and "list_all P d" and "P (k, w)"
  shows "distinct (map fst (trimmed b (od_pop k d @ [(k, w)])))" and "list_all P (trimmed b (od_pop k d @ [(k, w)]))"
    and "map_of (trimmed b (od_pop k d @ [(k, w)])) \<subseteq>\<^sub>m (map_of d)(k \<mapsto> w)"
proof -
  let ?d = "od_pop k d @ [(k, w)]"
  have d: "distinct (map fst ?d)" "list_all P ?d"
    using assms od_pop_ok [of d P k] od_pop_keys [of k d] by auto
  obtain xs where xs: "?d = xs @ trimmed b ?d" using trimmed_split by blast
  have dx: "distinct (map fst (xs @ trimmed b ?d))" "list_all P (xs @ trimmed b ?d)" using d unfolding xs [symmetric] .
  then show "distinct (map fst (trimmed b ?d))" "list_all P (trimmed b ?d)" by simp_all
  have "map_of (trimmed b ?d) \<subseteq>\<^sub>m map_of (xs @ trimmed b ?d)" by (rule map_of_suffix [OF dx(1)])
  also have "map_of (xs @ trimmed b ?d) = map_of ?d" unfolding xs [symmetric] ..
  also have "map_of ?d = (map_of d)(k \<mapsto> w)"
    by (auto simp: map_add_def map_of_od_pop fun_eq_iff split: option.splits)
  finally show "map_of (trimmed b ?d) \<subseteq>\<^sub>m (map_of d)(k \<mapsto> w)" .
qed

lemma put_list_le:
  "distinct (map fst d) \<Longrightarrow> map_of (trimmed b (od_pop k d @ [(k, w)])) \<subseteq>\<^sub>m (map_of d)(k \<mapsto> w)"
  by (rule put_list_ok(3) [where P = "\<lambda>_. True"]) (simp_all add: list_all_iff)

lemma do_cache_op_ok:
  assumes "cache_ok c" and "sane_bound (mc_max_size c)"
  shows "cache_ok (do_cache_op x c)"
proof -
  note ok = assms(1) [unfolded cache_ok_def]
  have pop: "cache_ok (c\<lparr>mc_store := od_pop k (mc_store c)\<rparr>)" for k
    using ok od_pop_ok [of "mc_store c" "\<lambda>(k, _). starts_with (mc_namespace c) k" k]
    by (auto simp: cache_ok_def split: option.splits)
  have put: "cache_ok (c\<lparr>mc_store := trimmed (mc_max_size c) (od_pop (full_key c k) (mc_store c) @ [(full_key c k, v, e)])\<rparr>)" for k v e
  proof -
    let ?d = "od_pop (full_key c k) (mc_store c) @ [(full_key c k, v, e)]"
    note l = put_list_ok(1,2) [of "mc_store c" "\<lambda>(k, _). starts_with (mc_namespace c) k" "full_key c k" "(v, e)" "mc_max_size c"]
    have "case mc_max_size c of None \<Rightarrow> True | Some n \<Rightarrow> int (length (trimmed (mc_max_size c) ?d)) \<le> n"
      using assms(2) length_trimmed [of _ ?d] by (auto simp: sane_bound_def split: option.splits)
    with ok l show ?thesis by (auto simp: cache_ok_def full_key_in_namespace split: option.splits)
  qed
  show ?thesis
  proof (cases x)
    case (Get k now)
    with assms(1) pop show ?thesis by (auto simp: cache_get_def split: option.splits)
  next
    case (Put k v ttl now)
    with assms put show ?thesis by (auto simp: cache_set_store split: option.splits)
  next
    case (Delete k)
    with pop show ?thesis by (simp add: cache_delete_def)
  next
    case Close
    with assms(2) show ?thesis by (auto simp: cache_ok_def close_cache_def sane_bound_def split: option.splits)
  qed
qed

lemma do_cache_op_refines:
  assumes "map_of (mc_store c) \<subseteq>\<^sub>m t" and "cache_ok c" and "sane_bound (mc_max_size c)"
  shows "map_of (mc_store (do_cache_op x c)) \<subseteq>\<^sub>m ideal_op c x t"
proof (cases x)
  case (Get k now)
  show ?thesis
  proof (cases "map_of (mc_store c) (full_key c k)")
    case None
    with Get assms(1) show ?thesis
      by (auto simp: cache_get_def map_le_def dom_def split: option.splits)
  next
    case (Some ve)
    obtain v e where ve: "ve = (v, e)" by (cases ve)
    with Some assms(1) have "t (full_key c k) = Some (v, e)" by (auto simp: map_le_def dom_def)
    with Get Some ve assms(1) show ?thesis
      by (auto simp: cache_get_def map_of_od_pop map_le_def)
  qed
next
  case (Put k v ttl now)
  show ?thesis
  proof (cases "stored_until (effective_ttl ttl c) now")
    case None
    with Put assms show ?thesis by (simp add: cache_set_store ideal_put del: ideal_op.simps)
  next
    case (Some e)
    let ?d = "od_pop (full_key c k) (mc_store c) @ [(full_key c k, v, e)]"
    have st: "mc_store (do_cache_op x c) = trimmed (mc_max_size c) ?d"
      using Put Some assms(3) by (simp add: cache_set_store)
    have "map_of (trimmed (mc_max_size c) ?d) \<subseteq>\<^sub>m (map_of (mc_store c))(full_key c k \<mapsto> (v, e))"
      using put_list_ok(3) [of "mc_store c" "\<lambda>_. True"] assms(2) by (simp add: cache_ok_def list_all_iff)
    from map_le_trans [OF this map_le_upd [OF assms(1)]] have "map_of (trimmed (mc_max_size c) ?d) \<subseteq>\<^sub>m t(full_key c k \<mapsto> (v, e))" .
    with st Put Some show ?thesis by (simp add: ideal_put del: ideal_op.simps)
  qed
next
  case (Delete k)
  with assms(1) show ?thesis by (auto simp: cache_delete_def map_of_od_pop map_le_def)
next
  case Close
  then show ?thesis by (simp add: close_cache_def)
qed

definition empty_cache :: "'v mem_cache \<Rightarrow> bool" where
  "empty_cache c \<longleftrightarrow> mc_store c = [] \<and> sane_bound (mc_max_size c)"

lemma ops_settings: "sane_bound (mc_max_size c) \<Longrightarrow> same_settings c (fold do_cache_op ops c)"
proof (induction ops arbitrary: c)
  case Nil
  then show ?case by (simp add: same_settings_def)
next
  case (Cons x ops)
  from do_cache_op_settings [OF Cons.prems, of x] have s: "same_settings c (do_cache_op x c)" .
  with Cons.prems have "sane_bound (mc_max_size (do_cache_op x c))" by (simp add: same_settings_def)
  from Cons.IH [OF this] s show ?case by (simp add: same_settings_def)
qed

lemma ops_refine:
  assumes "map_of (mc_store c) \<subseteq>\<^sub>m t" and "cache_ok c" and "sane_bound (mc_max_size c)"
  shows "map_of (mc_store (fold do_cache_op ops c)) \<subseteq>\<^sub>m fold (ideal_op c) ops t \<and> cache_ok (fold do_cache_op ops c)"
  using assms
proof (induction ops arbitrary: c t)
  case (Cons x ops)
  have s: "same_settings c (do_cache_op x c)" using do_cache_op_settings Cons.prems(3) .
  then have "sane_bound (mc_max_size (do_cache_op x c))" using Cons.prems(3) by (simp add: same_settings_def)
  from Cons.IH [OF do_cache_op_refines [OF Cons.prems] do_cache_op_ok [OF Cons.prems(2,3)] this] same_settings_ideal [OF s]
  show ?case by (simp cong: fold_cong)
qed simp

text \<open>
  C28: the cache never invents an answer. Whatever operations an empty cache has seen, it holds at most
  \<open>max_size\<close> entries, all of them under its namespace, and a value it returns is the one an unbounded map holds after the
  same operations, not yet expired.
\<close>

theorem memory_cache_refines_map:
  assumes "empty_cache c"
  shows "cache_ok (fold do_cache_op ops c)
    \<and> (case fst (cache_get k now (fold do_cache_op ops c)) of
         None \<Rightarrow> True
       | Some v \<Rightarrow> \<exists>e. fold (ideal_op c) ops Map.empty (full_key c k) = Some (v, e) \<and> \<not> expired_at e now)"
proof -
  let ?c = "fold do_cache_op ops c"
  have c: "sane_bound (mc_max_size c)" "mc_store c = []" using assms by (simp_all add: empty_cache_def)
  then have "cache_ok c" by (auto simp: cache_ok_def sane_bound_def split: option.splits)
  then have r: "map_of (mc_store ?c) \<subseteq>\<^sub>m fold (ideal_op c) ops Map.empty" "cache_ok ?c"
    using ops_refine [of c Map.empty ops] c by auto
  have key: "full_key ?c k = full_key c k" by (rule same_settings_key [OF ops_settings [OF c(1)]])
  show ?thesis
    using r key by (auto simp: cache_get_def map_le_def dom_def split: option.splits)
qed

section \<open>What the bound costs\<close>

definition puts :: "'v cache_op list \<Rightarrow> nat" where
  "puts ops = length (filter (\<lambda>x. case x of Put _ _ _ _ \<Rightarrow> True | _ \<Rightarrow> False) ops)"

definition near :: "pystr \<Rightarrow> 'w \<Rightarrow> nat \<Rightarrow> (pystr \<times> 'w) list \<Rightarrow> bool" where
  "near fk w n d \<longleftrightarrow> (\<exists>xs ys. d = xs @ (fk, w) # ys \<and> length ys \<le> n)"

lemma near_mono: "near fk w n d \<Longrightarrow> n \<le> n' \<Longrightarrow> near fk w n' d"
  unfolding near_def using le_trans by blast

lemma near_pop:
  assumes "near fk w n d" and "k \<noteq> fk"
  shows "near fk w n (od_pop k d)"
proof -
  from assms(1) obtain xs ys where d: "d = xs @ (fk, w) # ys" "length ys \<le> n" by (auto simp: near_def)
  have "od_pop k d = od_pop k xs @ (fk, w) # od_pop k ys" using assms(2) by (simp add: d(1) od_pop_def)
  moreover have "length (od_pop k ys) \<le> n" using d(2) length_filter_le le_trans unfolding od_pop_def by blast
  ultimately show ?thesis unfolding near_def by blast
qed

text \<open>Cache and map agree on \<open>fk\<close>, and at most \<open>n\<close> entries are newer.\<close>

definition safe_for :: "pystr \<Rightarrow> nat \<Rightarrow> 'v mem_cache \<Rightarrow> 'v table \<Rightarrow> bool" where
  "safe_for fk n c t \<longleftrightarrow>
     map_of (mc_store c) fk = t fk \<and> (case t fk of None \<Rightarrow> True | Some w \<Rightarrow> near fk w n (mc_store c))"

lemma safe_for_mono: "safe_for fk n c t \<Longrightarrow> n \<le> n' \<Longrightarrow> safe_for fk n' c t"
  by (auto simp: safe_for_def near_mono split: option.splits)

lemma safe_for_pop:
  "safe_for fk n c t \<Longrightarrow> safe_for fk n (c\<lparr>mc_store := od_pop k (mc_store c)\<rparr>) (t(k := None))"
  by (auto simp: safe_for_def map_of_od_pop near_pop split: option.splits)

lemma near_found: "distinct (map fst d) \<Longrightarrow> near fk w n d \<Longrightarrow> map_of d fk = Some w"
  unfolding near_def by (auto intro: map_of_is_SomeI)

lemma trimmed_keeps:
  assumes "d = xs @ x # ys" and "length ys < m"
  shows "\<exists>xs'. trimmed (Some (int m)) d = xs' @ x # ys"
proof -
  have "length d - m \<le> length xs" using assms by simp
  then have "drop (length d - m) d = drop (length d - m) xs @ x # ys" unfolding assms(1) by simp
  then show ?thesis by (auto simp: trimmed_def)
qed

lemma trimmed_near:
  assumes "near fk w n d" and "n < m"
  shows "near fk w n (trimmed (Some (int m)) d)"
proof -
  from assms(1) obtain xs ys where d: "d = xs @ (fk, w) # ys" "length ys \<le> n" by (auto simp: near_def)
  with assms(2) have "length ys < m" by simp
  from trimmed_keeps [OF d(1) this] d(2) show ?thesis unfolding near_def by blast
qed

lemma near_snoc: "near fk w n d \<Longrightarrow> near fk w (Suc n) (d @ [x])"
  unfolding near_def by fastforce

lemma do_cache_op_safe:
  assumes safe: "safe_for fk n c t" and ok: "cache_ok c" and bound: "mc_max_size c = Some (int m)"
    and n: "n + puts [x] < m"
  shows "safe_for fk (n + puts [x]) (do_cache_op x c) (ideal_op c x t)"
proof (cases x)
  case (Get k now)
  have p: "puts [x] = 0" by (simp add: puts_def Get)
  show ?thesis
  proof (cases "full_key c k = fk")
    case True
    with Get safe safe_for_pop [OF safe, of fk] p show ?thesis
      by (auto simp: safe_for_def cache_get_def split: option.splits)
  next
    case False
    have "safe_for fk n (c\<lparr>mc_store := od_pop (full_key c k) (mc_store c)\<rparr>) t"
      using safe_for_pop [OF safe, of "full_key c k"] False by (simp add: safe_for_def)
    with Get safe False p show ?thesis
      by (auto simp: cache_get_def safe_for_def split: option.splits)
  qed
next
  case (Put k v ttl now)
  have sane: "sane_bound (mc_max_size c)" by (simp add: bound sane_bound_def)
  have p: "puts [x] = 1" by (simp add: puts_def Put)
  show ?thesis
  proof (cases "stored_until (effective_ttl ttl c) now")
    case None
    with Put sane have "do_cache_op x c = c" "ideal_op c x t = t" by (simp_all add: cache_set_store ideal_put del: ideal_op.simps)
    with safe_for_mono [OF safe] show ?thesis by simp
  next
    case (Some e)
    let ?d = "od_pop (full_key c k) (mc_store c) @ [(full_key c k, v, e)]"
    have st: "mc_store (do_cache_op x c) = trimmed (Some (int m)) ?d" and id: "ideal_op c x t = t(full_key c k \<mapsto> (v, e))"
      using Put Some sane bound by (simp_all add: cache_set_store ideal_put del: ideal_op.simps)
    have dist: "distinct (map fst (trimmed (Some (int m)) ?d))"
      using put_list_ok(1) [of "mc_store c" "\<lambda>_. True"] ok by (simp add: cache_ok_def list_all_iff)
    have keep: "safe_for fk (n + 1) (do_cache_op x c) (ideal_op c x t)" if "near fk w (n + 1) ?d" "(t(full_key c k \<mapsto> (v, e))) fk = Some w" for w
    proof -
      have "near fk w (n + 1) (trimmed (Some (int m)) ?d)" using trimmed_near [OF that(1)] n p by simp
      with near_found [OF dist this] that(2) show ?thesis by (simp add: safe_for_def st id)
    qed
    show ?thesis
    proof (cases "full_key c k = fk")
      case True
      have "near fk (v, e) (n + 1) ?d" unfolding near_def True by fastforce
      with keep [OF this] True p show ?thesis by simp
    next
      case False
      show ?thesis
      proof (cases "t fk")
        case None
        with safe have "map_of (mc_store c) fk = None" by (simp add: safe_for_def)
        with False have none: "((map_of (mc_store c))(full_key c k \<mapsto> (v, e))) fk = None" by simp
        have "map_of (trimmed (Some (int m)) ?d) \<subseteq>\<^sub>m (map_of (mc_store c))(full_key c k \<mapsto> (v, e))"
          by (rule put_list_le [OF conjunct1 [OF ok [unfolded cache_ok_def]]])
        from map_le_None [OF this none] have "map_of (trimmed (Some (int m)) ?d) fk = None" .
        with None False show ?thesis by (simp add: safe_for_def st id)
      next
        case (Some w)
        with safe have "near fk w n (mc_store c)" by (simp add: safe_for_def)
        from near_snoc [OF near_pop [OF this False]] have "near fk w (n + 1) ?d" by simp
        with keep [OF this] Some False p show ?thesis by simp
      qed
    qed
  qed
next
  case (Delete k)
  with safe_for_pop [OF safe] show ?thesis by (simp add: cache_delete_def puts_def)
next
  case Close
  then show ?thesis by (simp add: safe_for_def close_cache_def)
qed

lemma puts_Cons: "puts (x # ops) = puts [x] + puts ops"
  by (simp add: puts_def)

lemma ops_safe:
  assumes "safe_for fk n c t" and "cache_ok c" and "mc_max_size c = Some (int m)" and "n + puts ops < m"
  shows "safe_for fk (n + puts ops) (fold do_cache_op ops c) (fold (ideal_op c) ops t)"
  using assms
proof (induction ops arbitrary: n c t)
  case Nil
  then show ?case by (simp add: puts_def)
next
  case (Cons x ops)
  have sane: "sane_bound (mc_max_size c)" using Cons.prems(3) by (simp add: sane_bound_def)
  have s: "same_settings c (do_cache_op x c)" by (rule do_cache_op_settings [OF sane])
  have n: "n + puts [x] < m" "n + puts [x] + puts ops < m" using Cons.prems(4) puts_Cons [of x ops] by simp_all
  have "mc_max_size (do_cache_op x c) = Some (int m)" using s Cons.prems(3) by (simp add: same_settings_def)
  from Cons.IH [OF do_cache_op_safe [OF Cons.prems(1-3) n(1)] do_cache_op_ok [OF Cons.prems(2) sane] this n(2)] same_settings_ideal [OF s]
  show ?case by (simp add: puts_Cons [of x ops] add.assoc cong: fold_cong)
qed

text \<open>
  C0: the bound evicts only what is old. After a value was stored under a key, as long as fewer than \<open>max_size\<close>
  calls of \<open>set\<close> have followed, with any other operations between, the cache answers for the key what an unbounded
  map would.
\<close>

theorem memory_cache_retains:
  assumes "empty_cache c" and "mc_max_size c = Some (int m)" and "0 < s" and "puts later < m"
    and "ops = earlier @ Put k v (Some s) stored_at # later"
  shows "fst (cache_get k now (fold do_cache_op ops c))
    = (case fold (ideal_op c) ops Map.empty (full_key c k) of
         None \<Rightarrow> None | Some (w, e) \<Rightarrow> if expired_at e now then None else Some w)"
proof -
  let ?c = "fold do_cache_op earlier c" and ?t = "fold (ideal_op c) earlier Map.empty" and ?x = "Put k v (Some s) stored_at"
  have c: "sane_bound (mc_max_size c)" "mc_store c = []" using assms(1) by (simp_all add: empty_cache_def)
  then have "cache_ok c" by (auto simp: cache_ok_def sane_bound_def split: option.splits)
  then have ok: "cache_ok ?c" using ops_refine [of c Map.empty earlier] c by auto
  have set: "same_settings c ?c" by (rule ops_settings [OF c(1)])
  then have max: "mc_max_size ?c = Some (int m)" using assms(2) by (simp add: same_settings_def)
  then have sane: "sane_bound (mc_max_size ?c)" by (simp add: sane_bound_def)
  let ?fk = "full_key c k"
  let ?d = "od_pop ?fk (mc_store ?c) @ [(?fk, v, Some (stored_at + of_int s))]"
  have key: "full_key ?c k = ?fk" by (rule same_settings_key [OF set])
  have st: "mc_store (do_cache_op ?x ?c) = trimmed (Some (int m)) ?d" and id: "ideal_op c ?x ?t = ?t(?fk \<mapsto> (v, Some (stored_at + of_int s)))"
    using assms(3) sane max key by (simp_all add: cache_set_store stored_until_def effective_ttl_def)
  have "near ?fk (v, Some (stored_at + of_int s)) 0 ?d" unfolding near_def by fastforce
  from trimmed_near [OF this, of m] assms(4) have near: "near ?fk (v, Some (stored_at + of_int s)) 0 (mc_store (do_cache_op ?x ?c))"
    unfolding st by simp
  have ok': "cache_ok (do_cache_op ?x ?c)" by (rule do_cache_op_ok [OF ok sane])
  then have "map_of (mc_store (do_cache_op ?x ?c)) ?fk = Some (v, Some (stored_at + of_int s))"
    using near_found [OF _ near] unfolding cache_ok_def by blast
  with near have "safe_for ?fk 0 (do_cache_op ?x ?c) (ideal_op c ?x ?t)" unfolding safe_for_def id by simp
  moreover have set': "same_settings c (do_cache_op ?x ?c)"
    using set do_cache_op_settings [OF sane, of ?x] unfolding same_settings_def by simp
  moreover have "mc_max_size (do_cache_op ?x ?c) = Some (int m)" using set' assms(2) unfolding same_settings_def by simp
  ultimately have "safe_for ?fk (0 + puts later) (fold do_cache_op later (do_cache_op ?x ?c)) (fold (ideal_op c) later (ideal_op c ?x ?t))"
    using ops_safe [OF _ ok', of ?fk 0 "ideal_op c ?x ?t" m later] assms(4) unfolding same_settings_ideal' [OF set'] add_0 by blast
  then have "map_of (mc_store (fold do_cache_op ops c)) ?fk = fold (ideal_op c) ops Map.empty ?fk"
    unfolding assms(5) safe_for_def by simp
  moreover have "full_key (fold do_cache_op ops c) k = ?fk" by (rule same_settings_key [OF ops_settings [OF c(1)]])
  ultimately show ?thesis by (auto simp: cache_get_def split: option.splits)
qed

section \<open>Hashes of a session\<close>

definition seen_ok :: "(pystr \<times> pystr) list \<Rightarrow> hash_store \<Rightarrow> bool" where
  "seen_ok added h \<longleftrightarrow> 0 \<le> hs_max_sessions h \<and> 0 \<le> hs_max_hashes h \<and> distinct (map fst (hs_sessions h))
     \<and> int (length (hs_sessions h)) \<le> hs_max_sessions h
     \<and> (\<forall>(sid, s) \<in> set (hs_sessions h). int (length (ss_hashes s)) \<le> hs_max_hashes h \<and> (\<forall>x\<in>set (ss_hashes s). (sid, x) \<in> set added))"

definition session_ok :: "hash_store \<Rightarrow> (pystr \<times> pystr) list \<Rightarrow> pystr \<Rightarrow> session \<Rightarrow> bool" where
  "session_ok h added sid s \<longleftrightarrow> int (length (ss_hashes s)) \<le> hs_max_hashes h \<and> (\<forall>x\<in>set (ss_hashes s). (sid, x) \<in> set added)"

lemma seen_ok_alt:
  "seen_ok added h \<longleftrightarrow> 0 \<le> hs_max_sessions h \<and> 0 \<le> hs_max_hashes h \<and> distinct (map fst (hs_sessions h))
     \<and> int (length (hs_sessions h)) \<le> hs_max_sessions h \<and> (\<forall>(sid, s) \<in> set (hs_sessions h). session_ok h added sid s)"
  by (simp add: seen_ok_def session_ok_def)

lemma length_filter_keys:
  assumes "distinct (map fst xs)" and "mset ys = mset xs" and "n \<le> length xs"
  shows "length (filter (\<lambda>(k, _). k \<notin> set (map fst (take n ys))) xs) = length xs - n"
proof -
  let ?P = "\<lambda>(k, _). k \<notin> set (map fst (take n ys))"
  have "mset (map fst ys) = mset (map fst xs)" using assms(2) by simp
  with assms(1) have "distinct (map fst ys)" using mset_eq_imp_distinct_iff by blast
  then have dd: "distinct (map fst (take n ys @ drop n ys))" by simp
  have "size (mset (filter ?P xs)) = size (mset (filter ?P ys))" unfolding mset_filter assms(2) ..
  then have "length (filter ?P xs) = length (filter ?P (take n ys @ drop n ys))" unfolding size_mset by simp
  also have "filter ?P (take n ys @ drop n ys) = filter ?P (take n ys) @ filter ?P (drop n ys)" by (rule filter_append)
  also have "filter ?P (take n ys) = []" by (auto simp: filter_empty_conv) force
  also have "filter ?P (drop n ys) = drop n ys"
    using dd unfolding map_append distinct_append by (auto simp: filter_id_conv) (metis IntI empty_iff fst_conv image_eqI)
  finally show ?thesis using mset_eq_length [OF assms(2)] by simp
qed

lemma prune_ok:
  assumes "distinct (map fst (hs_sessions h))" and "0 \<le> hs_max_sessions h"
  shows "int (length (hs_sessions (prune h))) \<le> hs_max_sessions h" and "distinct (map fst (hs_sessions (prune h)))"
    and "set (hs_sessions (prune h)) \<subseteq> set (hs_sessions h)"
    and "hs_max_sessions (prune h) = hs_max_sessions h" and "hs_max_hashes (prune h) = hs_max_hashes h" and "hs_ttl (prune h) = hs_ttl h"
proof -
  let ?s = "hs_sessions h" and ?o = "sort_key (ss_touched \<circ> snd) (hs_sessions h)"
  show "distinct (map fst (hs_sessions (prune h)))" "set (hs_sessions (prune h)) \<subseteq> set ?s"
    "hs_max_sessions (prune h) = hs_max_sessions h" "hs_max_hashes (prune h) = hs_max_hashes h" "hs_ttl (prune h) = hs_ttl h"
    using assms(1) by (auto simp: prune_def Let_def distinct_map_filter)
  show "int (length (hs_sessions (prune h))) \<le> hs_max_sessions h"
  proof (cases "int (length ?s) \<le> hs_max_sessions h")
    case True
    then show ?thesis by (simp add: prune_def)
  next
    case False
    let ?n = "length ?s - nat (hs_max_sessions h)"
    have "py_take (int (length ?o) - hs_max_sessions h) ?o = take ?n ?o"
      using False assms(2) by (simp add: py_take_def nat_diff_distrib)
    then have "hs_sessions (prune h) = filter (\<lambda>(k, _). k \<notin> set (map fst (take ?n ?o))) ?s"
      using False by (simp add: prune_def Let_def)
    moreover have "length (filter (\<lambda>(k, _). k \<notin> set (map fst (take ?n ?o))) ?s) = length ?s - ?n"
      by (rule length_filter_keys [OF assms(1)]) simp_all
    ultimately show ?thesis using False assms(2) by simp
  qed
qed

lemma get_session_ok:
  assumes "get_session sid now h = (s, h')" and "seen_ok added h"
  shows "seen_ok added h'" and "session_ok h added sid s" and "hs_max_hashes h' = hs_max_hashes h" and "hs_max_sessions h' = hs_max_sessions h"
proof -
  define stale where "stale = (case map_of (hs_sessions h) sid of None \<Rightarrow> True | Some s \<Rightarrow> now - ss_touched s > of_int (hs_ttl h))"
  let ?fresh = "\<lparr>ss_hashes = [], ss_touched = now\<rparr>"
  let ?h = "h\<lparr>hs_sessions := od_set sid ?fresh (hs_sessions h)\<rparr>"
  have fresh: "session_ok h added sid ?fresh" using assms(2) by (simp add: session_ok_def seen_ok_def)
  have all: "seen_ok added h' \<and> session_ok h added sid s \<and> hs_max_hashes h' = hs_max_hashes h \<and> hs_max_sessions h' = hs_max_sessions h"
  proof (cases stale)
    case True
    with assms(1) have eq: "s = ?fresh" "h' = prune ?h" by (auto simp: get_session_def Let_def stale_def)
    have d: "distinct (map fst (hs_sessions ?h))" "0 \<le> hs_max_sessions ?h"
      using assms(2) by (simp_all add: seen_ok_def distinct_od_set)
    note p = prune_ok [OF d]
    have "session_ok h' added k x" if "(k, x) \<in> set (hs_sessions h')" for k x
      using od_set_values [of k x sid ?fresh "hs_sessions h"] subsetD [OF p(3)] that eq p(5) assms(2) fresh
      by (auto simp: seen_ok_alt session_ok_def)
    with eq p assms(2) fresh show ?thesis by (auto simp: seen_ok_alt)
  next
    case False
    then obtain s0 where s0: "map_of (hs_sessions h) sid = Some s0" by (auto simp: stale_def split: option.splits)
    with False assms(1) have eq: "s = s0\<lparr>ss_touched := now\<rparr>" "h' = h" by (auto simp: get_session_def Let_def stale_def)
    from map_of_SomeD [OF s0] assms(2) have "session_ok h added sid s0" by (auto simp: seen_ok_alt)
    with eq assms(2) show ?thesis by (simp add: session_ok_def)
  qed
  then show "seen_ok added h'" "session_ok h added sid s" "hs_max_hashes h' = hs_max_hashes h" "hs_max_sessions h' = hs_max_sessions h" by auto
qed

lemma write_back_ok:
  assumes "seen_ok added h" and "session_ok h added sid s"
  shows "seen_ok added (write_back sid s h)"
proof (cases "sid \<in> fst ` set (hs_sessions h)")
  case True
  let ?h = "h\<lparr>hs_sessions := od_set sid s (hs_sessions h)\<rparr>"
  have "session_ok ?h added k x" if "(k, x) \<in> set (hs_sessions ?h)" for k x
    using od_set_values [of k x sid s "hs_sessions h"] that assms by (auto simp: seen_ok_alt session_ok_def)
  moreover have "length (hs_sessions ?h) = length (hs_sessions h)" using True by (simp add: length_od_set)
  ultimately show ?thesis using assms(1) True by (auto simp: write_back_def seen_ok_alt distinct_od_set)
next
  case False
  with assms show ?thesis by (simp add: write_back_def)
qed

lemma seen_ok_more: "seen_ok added h \<Longrightarrow> seen_ok (added @ extra) h"
  by (fastforce simp: seen_ok_def)

datatype hash_op = Ask pystr pystr pyfloat | Remember pystr pystr pyfloat

fun do_hash_op :: "hash_op \<Rightarrow> hash_store \<Rightarrow> hash_store" where
  "do_hash_op (Ask sid x now) h = snd (is_duplicate sid x now h)"
| "do_hash_op (Remember sid x now) h = snd (add_hash sid x now h)"

fun remembered :: "hash_op list \<Rightarrow> (pystr \<times> pystr) list" where
  "remembered [] = []"
| "remembered (Ask sid x now # ops) = remembered ops"
| "remembered (Remember sid x now # ops) = (sid, x) # remembered ops"

lemma is_duplicate_ok:
  assumes "seen_ok added h" and "is_duplicate sid x now h = (b, h')"
  shows "seen_ok added h' \<and> (b \<longrightarrow> (sid, x) \<in> set added)"
proof -
  obtain s h1 where g: "get_session sid now h = (s, h1)" by (cases "get_session sid now h")
  note ok = get_session_ok [OF g assms(1)]
  have "session_ok h1 added sid s" using ok(2,3) by (simp add: session_ok_def)
  from write_back_ok [OF ok(1) this] assms(2) g ok(2) show ?thesis
    by (auto simp: is_duplicate_def session_ok_def)
qed

lemma add_hash_ok:
  assumes "seen_ok added h" and "add_hash sid x now h = (r, h')"
  shows "seen_ok (added @ [(sid, x)]) h' \<and> r = Inr ()"
proof -
  obtain s h1 where g: "get_session sid now h = (s, h1)" by (cases "get_session sid now h")
  note ok = get_session_ok [OF g assms(1)]
  let ?ext = "added @ [(sid, x)]"
  have h1: "seen_ok ?ext h1" by (rule seen_ok_more [OF ok(1)])
  have n: "0 \<le> hs_max_hashes h" using assms(1) by (simp add: seen_ok_def)
  show ?thesis
  proof (cases "x \<in> set (ss_hashes s)")
    case True
    have "session_ok h1 ?ext sid s" using ok(2,3) by (simp add: session_ok_def)
    from write_back_ok [OF h1 this] assms(2) g True show ?thesis by (auto simp: add_hash_def)
  next
    case False
    let ?s = "s\<lparr>ss_hashes := drop (length (ss_hashes s @ [x]) - nat (hs_max_hashes h)) (ss_hashes s @ [x])\<rparr>"
    have "session_ok h1 ?ext sid ?s"
      using ok(2,3) n by (auto simp: session_ok_def dest!: in_set_dropD)
    from write_back_ok [OF h1 this] assms(2) g False n show ?thesis
      by (auto simp: add_hash_def evict_to_drop)
  qed
qed

lemma hash_ops_ok: "seen_ok added h \<Longrightarrow> seen_ok (added @ remembered ops) (fold do_hash_op ops h)"
proof (induction ops arbitrary: added h rule: remembered.induct)
  case (2 sid x now ops)
  have "seen_ok added (do_hash_op (Ask sid x now) h)"
    using is_duplicate_ok [OF 2(2), of sid x now] by (cases "is_duplicate sid x now h") simp
  from 2(1) [OF this] show ?case by simp
next
  case (3 sid x now ops)
  have "seen_ok (added @ [(sid, x)]) (do_hash_op (Remember sid x now) h)"
    using add_hash_ok [OF 3(2), of sid x now] by (cases "add_hash sid x now h") simp
  from 3(1) [OF this] show ?case by simp
qed simp

text \<open>
  hashes stay in their session and in their bound. Whatever was asked and remembered of an empty store, it
  tracks at most \<open>max_sessions\<close> sessions with at most \<open>max_hashes\<close> hashes each, and it calls a hash a duplicate
  only when that hash was remembered for the same session.
\<close>

theorem hash_store_bounded_no_leak:
  assumes "hs_sessions h = []" and "0 \<le> hs_max_sessions h" and "0 \<le> hs_max_hashes h"
  shows "seen_ok (remembered ops) (fold do_hash_op ops h)
    \<and> (fst (is_duplicate sid x now (fold do_hash_op ops h)) \<longrightarrow> (sid, x) \<in> set (remembered ops))"
proof -
  have "seen_ok [] h" using assms by (simp add: seen_ok_def)
  from hash_ops_ok [OF this, of ops] have ok: "seen_ok (remembered ops) (fold do_hash_op ops h)" by simp
  with is_duplicate_ok [OF ok, of sid x now] show ?thesis
    by (cases "is_duplicate sid x now (fold do_hash_op ops h)") simp
qed

section \<open>Small stores\<close>

definition small_cache :: "nat mem_cache" where
  "small_cache =
     \<lparr>mc_namespace = u ''n:'', mc_default_ttl = None, mc_max_size = Some 2, mc_store = [], mc_session = [], mc_pattern = None\<rparr>"

definition two_puts :: "nat cache_op list" where
  "two_puts = [Put (u ''a'') 1 (Some 9) 0, Put (u ''b'') 2 None 1]"

lemma small_cache_empty: "empty_cache small_cache"
  by (simp add: empty_cache_def small_cache_def sane_bound_def)

theorem memory_cache_refines_map_witness:
  "cache_ok (fold do_cache_op two_puts small_cache)
    \<and> (case fst (cache_get (u ''a'') 3 (fold do_cache_op two_puts small_cache)) of None \<Rightarrow> True
       | Some v \<Rightarrow> \<exists>e. fold (ideal_op small_cache) two_puts Map.empty (full_key small_cache (u ''a'')) = Some (v, e) \<and> \<not> expired_at e 3)"
  by (rule memory_cache_refines_map [OF small_cache_empty])

theorem memory_cache_retains_witness: "fst (cache_get (u ''a'') 3 (fold do_cache_op two_puts small_cache)) = Some 1"
proof -
  have "fst (cache_get (u ''a'') 3 (fold do_cache_op two_puts small_cache))
      = (case fold (ideal_op small_cache) two_puts Map.empty (full_key small_cache (u ''a'')) of
           None \<Rightarrow> None | Some (w, e) \<Rightarrow> if expired_at e 3 then None else Some w)"
    by (rule memory_cache_retains [OF small_cache_empty, where m = 2 and earlier = "[]" and s = 9])
      (simp_all add: small_cache_def two_puts_def puts_def)
  also have "\<dots> = Some 1"
    by (simp add: two_puts_def small_cache_def full_key_def starts_with_def effective_ttl_def expired_at_def u_def)
  finally show ?thesis .
qed

definition small_hashes :: hash_store where
  "small_hashes = \<lparr>hs_ttl = 60, hs_max_sessions = 1, hs_max_hashes = 1, hs_sessions = []\<rparr>"

theorem hash_store_bounded_no_leak_witness:
  "seen_ok [(u ''s'', u ''x''), (u ''t'', u ''y'')]
     (fold do_hash_op [Remember (u ''s'') (u ''x'') 0, Remember (u ''t'') (u ''y'') 1] small_hashes)
   \<and> \<not> fst (is_duplicate (u ''t'') (u ''x'') 2
        (fold do_hash_op [Remember (u ''s'') (u ''x'') 0, Remember (u ''t'') (u ''y'') 1] small_hashes))"
  using hash_store_bounded_no_leak
    [of small_hashes "[Remember (u ''s'') (u ''x'') 0, Remember (u ''t'') (u ''y'') 1]" "u ''t''" "u ''x''" 2]
  by (auto simp: small_hashes_def)

end
