(* ===== verification/Semantic_Cache.thy ===== *)
theory Semantic_Cache
  imports Prelude
begin

text \<open>
  \<open>cache/semantic.py\<close>: answers found by the similarity of embeddings. \<open>MemorySemanticCache\<close> is a ring of
  slots; \<open>RedisSemanticCache\<close> shares one stream of entries, which every worker replays into a ring of its own.

  A component of an embedding and a score are rationals; \<open>None\<close> is a score that is NaN. \<open>None\<close> as an expiry
  is \<open>inf\<close>. The Euclidean length, which needs a square root, is the argument \<open>euclid\<close>. The packing of an
  embedding into base64 float32 text is left out: a stream entry holds the embedding.
\<close>

type_synonym embedding = "pyfloat list"
type_synonym expiry = "pyfloat option"

datatype cache_error = ZeroMagnitude | ShapeMismatch | NoSlot | UnknownMetric | SyncFailed | WriteFailed

section \<open>Metrics\<close>

record metric =
  mt_normalize :: "embedding \<Rightarrow> cache_error + embedding"
  mt_score :: "embedding \<Rightarrow> embedding \<Rightarrow> pyfloat option"

definition l2_normalize :: "(embedding \<Rightarrow> pyfloat) \<Rightarrow> embedding \<Rightarrow> cache_error + embedding" where
  "l2_normalize euclid v = (if euclid v = 0 then Inl ZeroMagnitude else Inr (map (\<lambda>x. x / euclid v) v))"

definition identity :: "embedding \<Rightarrow> cache_error + embedding" where
  "identity v = Inr v"

definition inner_product :: "embedding \<Rightarrow> embedding \<Rightarrow> pyfloat option" where
  "inner_product row v = Some (sum_list (map2 (*) row v))"

definition negative_squared_euclidean :: "embedding \<Rightarrow> embedding \<Rightarrow> pyfloat option" where
  "negative_squared_euclidean row v = Some (- sum_list (map2 (\<lambda>x y. (x - y) * (x - y)) row v))"

text \<open>\<open>Inr\<close> is a callable, applied to one row at a time.\<close>

definition resolve_metric :: "(embedding \<Rightarrow> pyfloat) \<Rightarrow> pystr + (embedding \<Rightarrow> embedding \<Rightarrow> pyfloat option) \<Rightarrow> cache_error + metric" where
  "resolve_metric euclid m =
     (case m of
        Inr f \<Rightarrow> Inr \<lparr>mt_normalize = identity, mt_score = f\<rparr>
      | Inl name \<Rightarrow>
          if name = u ''cosine'' then Inr \<lparr>mt_normalize = l2_normalize euclid, mt_score = inner_product\<rparr>
          else if name = u ''dot'' then Inr \<lparr>mt_normalize = identity, mt_score = inner_product\<rparr>
          else if name = u ''euclidean'' then Inr \<lparr>mt_normalize = identity, mt_score = negative_squared_euclidean\<rparr>
          else Inl UnknownMetric)"

section \<open>The ring\<close>

record slot =
  sl_row :: embedding
  sl_response :: pystr
  sl_expires :: expiry

text \<open>\<open>rg_dim\<close> is the width of the matrix, \<open>None\<close> while there is none.\<close>

record ring =
  rg_capacity :: nat
  rg_ttl :: "int option"
  rg_metric :: metric
  rg_dim :: "nat option"
  rg_slots :: "slot option list"
  rg_next :: nat
  rg_count :: nat

definition new_ring :: "nat \<Rightarrow> int option \<Rightarrow> metric \<Rightarrow> ring" where
  "new_ring capacity ttl m =
     \<lparr>rg_capacity = capacity, rg_ttl = ttl, rg_metric = m, rg_dim = None, rg_slots = replicate capacity None,
      rg_next = 0, rg_count = 0\<rparr>"

definition close_ring :: "ring \<Rightarrow> ring" where
  "close_ring r = r\<lparr>rg_dim := None, rg_slots := replicate (rg_capacity r) None, rg_count := 0, rg_next := 0\<rparr>"

definition not_after :: "expiry \<Rightarrow> pyfloat \<Rightarrow> bool" where
  "not_after e now = (case e of None \<Rightarrow> False | Some t \<Rightarrow> t \<le> now)"

text \<open>When a new entry expires; \<open>None\<close> for one that is not stored. \<open>given\<close> is the argument \<open>expires_at\<close>.\<close>

definition entry_expiry :: "int option \<Rightarrow> expiry option \<Rightarrow> pyfloat \<Rightarrow> expiry option" where
  "entry_expiry ttl given now =
     (case given of
        Some e \<Rightarrow> if not_after e now then None else Some e
      | None \<Rightarrow>
          (case ttl of
             None \<Rightarrow> Some None
           | Some t \<Rightarrow> if t \<le> 0 then None else Some (Some (now + of_int t))))"

definition put_slot :: "slot \<Rightarrow> ring \<Rightarrow> cache_error + ring" where
  "put_slot s r =
     (let dim = (case rg_dim r of None \<Rightarrow> length (sl_row s) | Some d \<Rightarrow> d); r' = r\<lparr>rg_dim := Some dim\<rparr> in
      if rg_capacity r \<le> rg_next r then Inl NoSlot
      else if length (sl_row s) \<noteq> dim then Inl ShapeMismatch
      else Inr (r'\<lparr>rg_slots := (rg_slots r)[rg_next r := Some s],
                   rg_next := (rg_next r + 1) mod rg_capacity r,
                   rg_count := min (rg_count r + 1) (rg_capacity r)\<rparr>))"

definition ring_add :: "embedding \<Rightarrow> pystr \<Rightarrow> expiry option \<Rightarrow> pyfloat \<Rightarrow> ring \<Rightarrow> cache_error + ring" where
  "ring_add v response given now r =
     (case entry_expiry (rg_ttl r) given now of
        None \<Rightarrow> Inr r
      | Some e \<Rightarrow>
          rbind (mt_normalize (rg_metric r) v) (\<lambda>row.
            put_slot \<lparr>sl_row = row, sl_response = response, sl_expires = e\<rparr> r))"

text \<open>A row's score, \<open>None\<close> where the code has \<open>-inf\<close>: an expired row, or one whose score is NaN.\<close>

definition live_score :: "metric \<Rightarrow> embedding \<Rightarrow> pyfloat \<Rightarrow> slot option \<Rightarrow> pyfloat option" where
  "live_score m v now s =
     (case s of
        None \<Rightarrow> None
      | Some s \<Rightarrow> if not_after (sl_expires s) now then None else mt_score m (sl_row s) v)"

definition beats :: "pyfloat option \<Rightarrow> pyfloat option \<Rightarrow> bool" where
  "beats x y = (case x of None \<Rightarrow> False | Some a \<Rightarrow> (case y of None \<Rightarrow> True | Some b \<Rightarrow> b < a))"

text \<open>\<open>argmax\<close> over the filled slots: the first slot with the largest score.\<close>

fun best_of :: "(slot option \<Rightarrow> pyfloat option) \<Rightarrow> slot option list \<Rightarrow> slot option \<times> pyfloat option" where
  "best_of score [] = (None, None)"
| "best_of score (s # ss) =
     (let (t, y) = best_of score ss in if beats y (score s) then (t, y) else (s, score s))"

definition find_best :: "embedding \<Rightarrow> pyfloat \<Rightarrow> pyfloat \<Rightarrow> ring \<Rightarrow> (pystr \<times> pyfloat) option" where
  "find_best v threshold now r =
     (case best_of (live_score (rg_metric r) v now) (take (rg_count r) (rg_slots r)) of
        (Some s, Some x) \<Rightarrow> if x \<ge> threshold then Some (sl_response s, x) else None
      | _ \<Rightarrow> None)"

definition ring_find :: "embedding \<Rightarrow> pyfloat \<Rightarrow> pyfloat \<Rightarrow> ring \<Rightarrow> cache_error + (pystr \<times> pyfloat) option" where
  "ring_find v threshold now r =
     (if rg_count r = 0 \<or> rg_dim r = None then Inr None
      else
        rbind (mt_normalize (rg_metric r) v) (\<lambda>row.
          if Some (length row) \<noteq> rg_dim r then Inl ShapeMismatch else Inr (find_best row threshold now r)))"

section \<open>The shared stream\<close>

record stream_entry =
  se_id :: nat
  se_vector :: embedding
  se_response :: pystr
  se_expires :: expiry

record semantic_worker =
  sw_mirror :: ring
  sw_last :: nat

text \<open>The stream: its entries, oldest first, and the last id given out. Ids start at 1; \<open>"0-0"\<close> is 0.\<close>

record stream_db =
  st_entries :: "stream_entry list"
  st_last :: nat

text \<open>\<open>XADD\<close> with \<open>MAXLEN\<close>; \<open>keep\<close> is how many entries the server keeps, at least \<open>capacity\<close> when the
  trimming is approximate.\<close>

definition append_entry :: "nat \<Rightarrow> embedding \<Rightarrow> pystr \<Rightarrow> expiry \<Rightarrow> stream_db \<Rightarrow> nat \<times> stream_db" where
  "append_entry keep v response e db =
     (let entries = st_entries db @ [\<lparr>se_id = st_last db + 1, se_vector = v, se_response = response, se_expires = e\<rparr>]
      in (st_last db + 1, db\<lparr>st_entries := drop (length entries - keep) entries, st_last := st_last db + 1\<rparr>))"

definition xrange_after :: "nat \<Rightarrow> nat \<Rightarrow> stream_db \<Rightarrow> stream_entry list" where
  "xrange_after after n db = take n (filter (\<lambda>e. after < se_id e) (st_entries db))"

record clocks =
  cl_mono :: pyfloat
  cl_wall :: pyfloat

definition wall_to_monotonic :: "clocks \<Rightarrow> expiry \<Rightarrow> expiry" where
  "wall_to_monotonic now e = map_option (\<lambda>t. cl_mono now + (t - cl_wall now)) e"

fun replay :: "clocks \<Rightarrow> stream_entry list \<Rightarrow> semantic_worker \<Rightarrow> (cache_error + unit) \<times> semantic_worker" where
  "replay now [] w = (Inr (), w)"
| "replay now (e # es) w =
     (let w' = w\<lparr>sw_last := se_id e\<rparr> in
      case ring_add (se_vector e) (se_response e) (Some (wall_to_monotonic now (se_expires e))) (cl_mono now) (sw_mirror w') of
        Inl er \<Rightarrow> (Inl er, w')
      | Inr m \<Rightarrow> replay now es (w'\<lparr>sw_mirror := m\<rparr>))"

text \<open>\<open>up\<close> tells whether the server answers.\<close>

definition sync :: "bool \<Rightarrow> clocks \<Rightarrow> stream_db \<Rightarrow> semantic_worker \<Rightarrow> (cache_error + unit) \<times> semantic_worker" where
  "sync up now db w =
     (if \<not> up then (Inl SyncFailed, w)
      else replay now (xrange_after (sw_last w) (rg_capacity (sw_mirror w)) db) w)"

definition shared_find ::
  "bool \<Rightarrow> clocks \<Rightarrow> embedding \<Rightarrow> pyfloat \<Rightarrow> stream_db \<Rightarrow> semantic_worker
     \<Rightarrow> (cache_error + (pystr \<times> pyfloat) option) \<times> semantic_worker" where
  "shared_find up now v threshold db w =
     (case sync up now db w of
        (Inl e, w') \<Rightarrow> (Inl e, w')
      | (Inr _, w') \<Rightarrow> (ring_find v threshold (cl_mono now) (sw_mirror w'), w'))"

definition shared_write ::
  "expiry \<Rightarrow> bool \<Rightarrow> nat \<Rightarrow> clocks \<Rightarrow> embedding \<Rightarrow> pystr \<Rightarrow> stream_db \<Rightarrow> semantic_worker
     \<Rightarrow> (cache_error + unit) \<times> stream_db \<times> semantic_worker" where
  "shared_write e up keep now v response db w =
     (if \<not> up then (Inl WriteFailed, db, w)
      else
        (let (i, db') = append_entry keep v response e db; w' = w\<lparr>sw_last := i\<rparr> in
         case ring_add v response (Some (wall_to_monotonic now e)) (cl_mono now) (sw_mirror w') of
           Inl er \<Rightarrow> (Inl er, db', w')
         | Inr m \<Rightarrow> (Inr (), db', w'\<lparr>sw_mirror := m\<rparr>)))"

definition shared_add ::
  "bool \<Rightarrow> nat \<Rightarrow> clocks \<Rightarrow> embedding \<Rightarrow> pystr \<Rightarrow> stream_db \<Rightarrow> semantic_worker
     \<Rightarrow> (cache_error + unit) \<times> stream_db \<times> semantic_worker" where
  "shared_add up keep now v response db w =
     (case rg_ttl (sw_mirror w) of
        Some t \<Rightarrow> if t \<le> 0 then (Inr (), db, w) else shared_write (Some (cl_wall now + of_int t)) up keep now v response db w
      | None \<Rightarrow> shared_write None up keep now v response db w)"

end
