(* ===== verification/Semantic_Props.thy ===== *)
theory Semantic_Props
  imports Semantic_Cache
begin

text \<open>
  The ring against the list of everything stored in it, what a lookup returns, and what workers that share a
  stream see of each other's entries.
\<close>

section \<open>The ring keeps the newest entries\<close>

definition kept :: "nat \<Rightarrow> 'a list \<Rightarrow> 'a list" where
  "kept capacity hist = drop (length hist - capacity) hist"

definition ring_holds :: "ring \<Rightarrow> slot list \<Rightarrow> bool" where
  "ring_holds r hist \<longleftrightarrow>
     0 < rg_capacity r \<and> length (rg_slots r) = rg_capacity r \<and> rg_next r = length hist mod rg_capacity r
       \<and> rg_count r = min (length hist) (rg_capacity r)
       \<and> (\<forall>k < length hist. length hist - rg_capacity r \<le> k \<longrightarrow> rg_slots r ! (k mod rg_capacity r) = Some (hist ! k))
       \<and> (rg_dim r = None \<longrightarrow> hist = [])"

lemma new_ring_holds: "0 < capacity \<Longrightarrow> ring_holds (new_ring capacity ttl m) []"
  by (simp add: ring_holds_def new_ring_def)

lemma mod_window:
  assumes "k < n" and "n < k + c"
  shows "k mod c \<noteq> n mod (c::nat)"
proof
  assume "k mod c = n mod c"
  then have "c dvd n - k" using assms(1) by (metis less_imp_le mod_eq_dvd_iff_nat)
  then show False using assms by (auto dest!: dvd_imp_le)
qed

lemma put_slot_holds:
  assumes "put_slot s r = Inr r'" and "ring_holds r hist"
  shows "ring_holds r' (hist @ [s])" and "rg_capacity r' = rg_capacity r" and "rg_metric r' = rg_metric r" and "rg_ttl r' = rg_ttl r"
proof -
  let ?c = "rg_capacity r" and ?n = "length hist"
  have r': "rg_slots r' = (rg_slots r)[?n mod ?c := Some s]" "rg_next r' = (rg_next r + 1) mod ?c"
    "rg_count r' = min (rg_count r + 1) ?c" "rg_dim r' \<noteq> None" "rg_capacity r' = ?c"
    using assms by (auto simp: put_slot_def Let_def ring_holds_def split: if_splits)
  show "rg_capacity r' = ?c" "rg_metric r' = rg_metric r" "rg_ttl r' = rg_ttl r"
    using assms(1) by (auto simp: put_slot_def Let_def split: if_splits)
  have slots: "rg_slots r' ! (k mod ?c) = Some ((hist @ [s]) ! k)" if k: "k < Suc ?n" "Suc ?n - ?c \<le> k" for k
  proof (cases "k = ?n")
    case True
    with assms(2) r'(1) show ?thesis by (simp add: ring_holds_def)
  next
    case False
    with k have "k mod ?c \<noteq> ?n mod ?c" by (intro mod_window) auto
    with False k assms(2) r'(1) show ?thesis by (simp add: ring_holds_def nth_append)
  qed
  show "ring_holds r' (hist @ [s])"
    using assms(2) r' slots by (auto simp: ring_holds_def mod_Suc_eq)
qed

lemma set_kept: "x \<in> set (kept c hist) \<longleftrightarrow> (\<exists>k < length hist. length hist - c \<le> k \<and> hist ! k = x)"
proof
  assume "x \<in> set (kept c hist)"
  then obtain j where "j < length hist - (length hist - c)" "x = hist ! (length hist - c + j)"
    by (auto simp: kept_def in_set_conv_nth)
  then show "\<exists>k < length hist. length hist - c \<le> k \<and> hist ! k = x"
    by (intro exI [of _ "length hist - c + j"]) auto
next
  assume "\<exists>k < length hist. length hist - c \<le> k \<and> hist ! k = x"
  then obtain k where k: "k < length hist" "length hist - c \<le> k" "hist ! k = x" by blast
  then have "kept c hist ! (k - (length hist - c)) = x" "k - (length hist - c) < length (kept c hist)"
    by (auto simp: kept_def)
  then show "x \<in> set (kept c hist)" using nth_mem by blast
qed

lemma window_index:
  assumes "i < n" and "i < c"
  shows "\<exists>k < n. n - c \<le> k \<and> k mod c = (i::nat)"
proof (cases "n \<le> c")
  case True
  with assms show ?thesis by (intro exI [of _ i]) auto
next
  case False
  let ?b = "n - c"
  let ?d = "(i + c - ?b mod c) mod c"
  have c: "0 < c" using assms by simp
  then have "?d < c" by simp
  then have "?b + ?d < n" using False by linarith
  moreover have "(?b + ?d) mod c = i"
  proof -
    have "(?b + ?d) mod c = (?b mod c + (i + c - ?b mod c)) mod c" by (simp add: mod_add_left_eq mod_add_right_eq)
    also have "?b mod c + (i + c - ?b mod c) = i + c" using mod_less_divisor [OF c, of ?b] by simp
    finally show ?thesis using assms(2) by simp
  qed
  ultimately show ?thesis by (intro exI [of _ "?b + ?d"]) simp
qed

lemma index_window: "k < n \<Longrightarrow> 0 < c \<Longrightarrow> k mod c < min n (c::nat)"
  by (meson le_less_trans min_less_iff_conj mod_less_divisor mod_less_eq_dividend)

lemma ring_holds_slots:
  assumes "ring_holds r hist"
  shows "set (take (rg_count r) (rg_slots r)) = Some ` set (kept (rg_capacity r) hist)"
proof -
  let ?c = "rg_capacity r" and ?n = "length hist"
  have at: "rg_slots r ! (k mod ?c) = Some (hist ! k)" if "k < ?n" "?n - ?c \<le> k" for k
    using assms that by (simp add: ring_holds_def)
  have len: "length (rg_slots r) = ?c" "rg_count r = min ?n ?c" "0 < ?c" using assms by (auto simp: ring_holds_def)
  show ?thesis
  proof (rule set_eqI)
    fix x
    have "x \<in> set (take (rg_count r) (rg_slots r)) \<longleftrightarrow> (\<exists>i < min ?n ?c. rg_slots r ! i = x)"
      using len by (auto simp: in_set_conv_nth)
    also have "\<dots> \<longleftrightarrow> (\<exists>k < ?n. ?n - ?c \<le> k \<and> Some (hist ! k) = x)"
    proof
      assume "\<exists>i < min ?n ?c. rg_slots r ! i = x"
      then obtain i where i: "i < ?n" "i < ?c" "rg_slots r ! i = x" by auto
      from window_index [OF i(1,2)] obtain k where "k < ?n" "?n - ?c \<le> k" "k mod ?c = i" by blast
      with at [of k] i(3) show "\<exists>k < ?n. ?n - ?c \<le> k \<and> Some (hist ! k) = x" by auto
    next
      assume "\<exists>k < ?n. ?n - ?c \<le> k \<and> Some (hist ! k) = x"
      then obtain k where k: "k < ?n" "?n - ?c \<le> k" "Some (hist ! k) = x" by blast
      show "\<exists>i < min ?n ?c. rg_slots r ! i = x"
        using index_window [OF k(1) len(3)] at [OF k(1,2)] k(3) by blast
    qed
    also have "\<dots> \<longleftrightarrow> x \<in> Some ` set (kept ?c hist)" by (auto simp: set_kept image_iff)
    finally show "x \<in> set (take (rg_count r) (rg_slots r)) \<longleftrightarrow> x \<in> Some ` set (kept ?c hist)" .
  qed
qed

section \<open>Lookups\<close>

lemma beats_irrefl: "\<not> beats x x" by (cases x) (simp_all add: beats_def)

lemma beats_trans: "\<not> beats x y \<Longrightarrow> \<not> beats y z \<Longrightarrow> \<not> beats x z"
  by (auto simp: beats_def split: option.splits)

lemma beats_asym: "beats x y \<Longrightarrow> \<not> beats y x"
  by (auto simp: beats_def split: option.splits)

lemma best_of_spec:
  assumes "best_of score ss = (t, y)" and "ss \<noteq> []"
  shows "t \<in> set ss \<and> y = score t \<and> (\<forall>s\<in>set ss. \<not> beats (score s) y)"
  using assms
proof (induction ss arbitrary: t y)
  case (Cons s ss)
  obtain t' y' where b: "best_of score ss = (t', y')" by (cases "best_of score ss")
  show ?case
  proof (cases "ss = []")
    case True
    with Cons.prems b show ?thesis by (auto simp: beats_irrefl split: if_splits) (auto simp: beats_def split: option.splits)
  next
    case False
    note ih = Cons.IH [OF b False]
    show ?thesis
    proof (cases "beats y' (score s)")
      case True
      with Cons.prems b ih show ?thesis by (auto dest: beats_asym)
    next
      case nb: False
      then have "\<not> beats (score s') (score s)" if "s' \<in> set ss" for s'
        using beats_trans [of "score s'" y' "score s"] ih that by blast
      with Cons.prems b nb show ?thesis by (auto simp: beats_irrefl)
    qed
  qed
qed simp

definition unexpired :: "pyfloat \<Rightarrow> slot \<Rightarrow> bool" where
  "unexpired now s \<longleftrightarrow> \<not> not_after (sl_expires s) now"

text \<open>What a lookup over the entries \<open>ss\<close> may answer.\<close>

definition best_answer :: "metric \<Rightarrow> embedding \<Rightarrow> pyfloat \<Rightarrow> pyfloat \<Rightarrow> slot list \<Rightarrow> (pystr \<times> pyfloat) option \<Rightarrow> bool" where
  "best_answer m row threshold now ss ans \<longleftrightarrow>
     (case ans of
        Some (response, x) \<Rightarrow>
          (\<exists>s\<in>set ss. sl_response s = response \<and> unexpired now s \<and> mt_score m (sl_row s) row = Some x) \<and> threshold \<le> x
            \<and> list_all (\<lambda>s. unexpired now s \<longrightarrow> (case mt_score m (sl_row s) row of None \<Rightarrow> True | Some y \<Rightarrow> y \<le> x)) ss
      | None \<Rightarrow> list_all (\<lambda>s. unexpired now s \<longrightarrow> (case mt_score m (sl_row s) row of None \<Rightarrow> True | Some y \<Rightarrow> y < threshold)) ss)"

lemma live_score_Some:
  "live_score m v now (Some s) = (if unexpired now s then mt_score m (sl_row s) v else None)"
  by (simp add: live_score_def unexpired_def)

lemma find_best_answer:
  assumes "ring_holds r hist"
  shows "best_answer (rg_metric r) v threshold now (kept (rg_capacity r) hist) (find_best v threshold now r)"
proof -
  let ?ss = "take (rg_count r) (rg_slots r)" and ?score = "live_score (rg_metric r) v now"
  note set = ring_holds_slots [OF assms]
  obtain t y where b: "best_of ?score ?ss = (t, y)" by (cases "best_of ?score ?ss")
  show ?thesis
  proof (cases "?ss = []")
    case True
    then have "kept (rg_capacity r) hist = []" using set by (cases "kept (rg_capacity r) hist") auto
    moreover have "find_best v threshold now r = None" using b True unfolding find_best_def by (simp only: best_of.simps) simp
    ultimately show ?thesis by (simp add: best_answer_def)
  next
    case False
    from best_of_spec [OF b False] set obtain s where s: "t = Some s" "s \<in> set (kept (rg_capacity r) hist)"
      and y: "y = ?score (Some s)" and max: "\<And>s'. s' \<in> set (kept (rg_capacity r) hist) \<Longrightarrow> \<not> beats (?score (Some s')) y"
      by auto
    show ?thesis
    proof (cases y)
      case None
      have dead: "mt_score (rg_metric r) (sl_row s') v = None" if "s' \<in> set (kept (rg_capacity r) hist)" "unexpired now s'" for s'
        using max [OF that(1)] that(2) None by (simp add: live_score_Some beats_def split: option.splits)
      have "find_best v threshold now r = None" using b s None by (simp add: find_best_def)
      with dead show ?thesis by (auto simp: best_answer_def list_all_iff)
    next
      case (Some x)
      with y have x: "unexpired now s" "mt_score (rg_metric r) (sl_row s) v = Some x"
        by (auto simp: live_score_Some split: if_splits)
      have le: "z \<le> x" if "s' \<in> set (kept (rg_capacity r) hist)" "unexpired now s'" "mt_score (rg_metric r) (sl_row s') v = Some z" for s' z
        using max [OF that(1)] that(2,3) Some by (simp add: live_score_Some beats_def)
      have f: "find_best v threshold now r = (if threshold \<le> x then Some (sl_response s, x) else None)"
        using b s Some by (simp add: find_best_def)
      show ?thesis
      proof (cases "threshold \<le> x")
        case True
        with f s x le show ?thesis
          by (auto simp: best_answer_def list_all_iff split: option.splits)
      next
        case below: False
        with f le show ?thesis
          by (auto simp: best_answer_def list_all_iff split: option.splits) (meson not_le order.strict_trans1)
      qed
    qed
  qed
qed

section \<open>A cache that was written to\<close>

type_synonym addition = "embedding \<times> pystr \<times> expiry option \<times> pyfloat"

fun add_all :: "addition list \<Rightarrow> ring \<Rightarrow> cache_error + ring" where
  "add_all [] r = Inr r"
| "add_all ((v, response, given, now) # adds) r = rbind (ring_add v response given now r) (add_all adds)"

text \<open>The entries a list of additions stores.\<close>

fun stored_by :: "metric \<Rightarrow> int option \<Rightarrow> addition list \<Rightarrow> slot list" where
  "stored_by m ttl [] = []"
| "stored_by m ttl ((v, response, given, now) # adds) =
     (case entry_expiry ttl given now of
        None \<Rightarrow> []
      | Some e \<Rightarrow> (case mt_normalize m v of Inl _ \<Rightarrow> [] | Inr row \<Rightarrow> [\<lparr>sl_row = row, sl_response = response, sl_expires = e\<rparr>]))
     @ stored_by m ttl adds"

lemma add_all_holds:
  assumes "add_all adds r = Inr r'" and "ring_holds r hist"
  shows "ring_holds r' (hist @ stored_by (rg_metric r) (rg_ttl r) adds) \<and> rg_capacity r' = rg_capacity r \<and> rg_metric r' = rg_metric r"
  using assms
proof (induction adds arbitrary: r hist)
  case (Cons a adds)
  obtain v response given now where a: "a = (v, response, given, now)" by (cases a)
  from Cons.prems(1) a obtain r1 where r1: "ring_add v response given now r = Inr r1" and rest: "add_all adds r1 = Inr r'"
    by (auto simp: rbind_Inr_iff)
  show ?case
  proof (cases "entry_expiry (rg_ttl r) given now")
    case None
    with r1 have "r1 = r" by (simp add: ring_add_def)
    with Cons.IH [OF rest] Cons.prems(2) None a show ?thesis by simp
  next
    case (Some e)
    with r1 obtain row where row: "mt_normalize (rg_metric r) v = Inr row"
      and put: "put_slot \<lparr>sl_row = row, sl_response = response, sl_expires = e\<rparr> r = Inr r1"
      by (auto simp: ring_add_def rbind_Inr_iff)
    note p = put_slot_holds [OF put Cons.prems(2)]
    from Cons.IH [OF rest p(1)] p(2-4) Some row a show ?thesis by simp
  qed
qed simp

text \<open>
  a lookup answers with the best entry still held. After any additions to an empty cache that holds
  \<open>capacity\<close> entries, the answer is a live entry among the last \<open>capacity\<close> stored whose score reaches the threshold
  and is exceeded by no other live one; there is no answer only when no live one of them reaches the threshold.
\<close>

theorem semantic_lookup_is_best:
  assumes "0 < capacity" and "add_all adds (new_ring capacity ttl m) = Inr r"
    and "mt_normalize m v = Inr row" and "ring_find v threshold now r = Inr ans"
  shows "best_answer m row threshold now (kept capacity (stored_by m ttl adds)) ans"
proof -
  from add_all_holds [OF assms(2) new_ring_holds [OF assms(1)]]
  have h: "ring_holds r (stored_by m ttl adds)" and r: "rg_capacity r = capacity" "rg_metric r = m"
    by (simp_all add: new_ring_def)
  show ?thesis
  proof (cases "rg_count r = 0 \<or> rg_dim r = None")
    case True
    with h assms(1) r have "stored_by m ttl adds = []" by (auto simp: ring_holds_def min_def split: if_splits)
    with True assms(4) show ?thesis by (simp add: ring_find_def best_answer_def kept_def)
  next
    case False
    with assms(3,4) r have "ans = find_best row threshold now r"
      by (auto simp: ring_find_def split: if_splits)
    with find_best_answer [OF h, of row threshold now] r show ?thesis by simp
  qed
qed

section \<open>Workers that share a stream\<close>

definition answers_in :: "ring \<Rightarrow> pystr set" where
  "answers_in r = {response. \<exists>s. Some s \<in> set (rg_slots r) \<and> sl_response s = response}"

text \<open>Nothing the worker holds or has still to read of the stream answers with \<open>response\<close>.\<close>

definition blind :: "pystr \<Rightarrow> stream_db \<Rightarrow> semantic_worker \<Rightarrow> bool" where
  "blind response db w \<longleftrightarrow>
     response \<notin> answers_in (sw_mirror w) \<and> (\<forall>e\<in>set (st_entries db). se_response e = response \<longrightarrow> se_id e \<le> sw_last w)
       \<and> sw_last w \<le> st_last db \<and> (\<forall>e\<in>set (st_entries db). se_id e \<le> st_last db)"

text \<open>
  What can happen next for one worker: it looks something up, it stores an answer other than \<open>response\<close>, or
  another worker does.
\<close>

inductive shared_step :: "pystr \<Rightarrow> stream_db \<times> semantic_worker \<Rightarrow> stream_db \<times> semantic_worker \<Rightarrow> bool" for response where
  look: "shared_find up now v threshold db w = (res, w') \<Longrightarrow> shared_step response (db, w) (db, w')"
| store: "shared_add up keep now v response' db w = (res, db', w') \<Longrightarrow> response' \<noteq> response
    \<Longrightarrow> shared_step response (db, w) (db', w')"
| others: "shared_add up keep now v response' db other = (res, db', other') \<Longrightarrow> response' \<noteq> response
    \<Longrightarrow> shared_step response (db, w) (db', w)"

lemma ring_add_answers:
  assumes "ring_add v response given now r = Inr r'"
  shows "answers_in r' \<subseteq> insert response (answers_in r)"
proof (cases "entry_expiry (rg_ttl r) given now")
  case None
  with assms show ?thesis by (auto simp: ring_add_def)
next
  case (Some e)
  with assms obtain row where "put_slot \<lparr>sl_row = row, sl_response = response, sl_expires = e\<rparr> r = Inr r'"
    by (auto simp: ring_add_def rbind_Inr_iff)
  then have "set (rg_slots r') \<subseteq> insert (Some \<lparr>sl_row = row, sl_response = response, sl_expires = e\<rparr>) (set (rg_slots r))"
    by (auto simp: put_slot_def Let_def split: if_splits dest: set_update_subset_insert [THEN subsetD])
  then show ?thesis by (auto simp: answers_in_def)
qed

lemma replay_blind:
  assumes "replay now es w = (res, w')" and "\<forall>e\<in>set es. se_response e \<noteq> response"
    and "response \<notin> answers_in (sw_mirror w)" and "sorted_wrt (<) (sw_last w # map se_id es)" and "\<forall>e\<in>set es. se_id e \<le> n" and "sw_last w \<le> n"
  shows "response \<notin> answers_in (sw_mirror w') \<and> sw_last w \<le> sw_last w' \<and> sw_last w' \<le> n"
  using assms
proof (induction es arbitrary: w)
  case (Cons e es)
  let ?w = "w\<lparr>sw_last := se_id e\<rparr>"
  show ?case
  proof (cases "ring_add (se_vector e) (se_response e) (Some (wall_to_monotonic now (se_expires e))) (cl_mono now) (sw_mirror ?w)")
    case (Inl er)
    with Cons.prems show ?thesis by (auto simp: answers_in_def)
  next
    case (Inr m)
    then have rest: "replay now es (?w\<lparr>sw_mirror := m\<rparr>) = (res, w')" using Cons.prems(1) by simp
    have "response \<notin> answers_in (sw_mirror (?w\<lparr>sw_mirror := m\<rparr>))"
      using ring_add_answers [OF Inr] Cons.prems(2,3) by auto
    from Cons.IH [OF rest _ this] Cons.prems(2,4-6) show ?thesis by auto
  qed
qed auto

definition ordered_stream :: "stream_db \<Rightarrow> bool" where
  "ordered_stream db \<longleftrightarrow> sorted_wrt (<) (map se_id (st_entries db)) \<and> (\<forall>e\<in>set (st_entries db). se_id e \<le> st_last db)"

lemma sync_blind:
  assumes "sync up now db w = (res, w')" and "blind response db w" and "ordered_stream db"
  shows "blind response db w'"
proof (cases up)
  case True
  let ?es = "filter (\<lambda>e. sw_last w < se_id e) (st_entries db)" and ?k = "rg_capacity (sw_mirror w)"
  from assms(1) True have rep: "replay now (take ?k ?es) w = (res, w')" by (simp add: sync_def xrange_after_def)
  define es where "es = take ?k ?es"
  have in_es: "sw_last w < se_id e \<and> e \<in> set (st_entries db)" if "e \<in> set es" for e
    using in_set_takeD [OF that [unfolded es_def]] by simp
  have "sorted_wrt (<) (map se_id ?es)"
    using assms(3) by (simp add: ordered_stream_def sorted_wrt_map sorted_wrt_filter)
  then have "sorted_wrt (<) (map se_id es)" unfolding es_def take_map [symmetric] by (rule sorted_wrt_take)
  moreover have "\<forall>e\<in>set es. sw_last w < se_id e" using in_es by blast
  ultimately have "sorted_wrt (<) (sw_last w # map se_id es)" by simp
  moreover have "\<forall>e\<in>set es. se_response e \<noteq> response"
  proof
    fix e assume "e \<in> set es"
    from in_es [OF this] have "sw_last w < se_id e" "e \<in> set (st_entries db)" by blast+
    with assms(2) show "se_response e \<noteq> response" unfolding blind_def by auto
  qed
  moreover have "\<forall>e\<in>set es. se_id e \<le> st_last db" using in_es assms(2) unfolding blind_def by blast
  ultimately have w': "response \<notin> answers_in (sw_mirror w') \<and> sw_last w \<le> sw_last w' \<and> sw_last w' \<le> st_last db"
    using replay_blind [OF rep [folded es_def]] assms(2) unfolding blind_def by blast
  then have "\<forall>e\<in>set (st_entries db). se_response e = response \<longrightarrow> se_id e \<le> sw_last w'"
    using assms(2) unfolding blind_def by (meson order_trans)
  with w' assms(2) show ?thesis unfolding blind_def by blast
next
  case False
  with assms show ?thesis by (simp add: sync_def)
qed

lemma shared_find_worker: "shared_find up now v threshold db w = (res, w') \<Longrightarrow> \<exists>r. sync up now db w = (r, w')"
  by (auto simp: shared_find_def split: prod.splits sum.splits)

lemma shared_add_effect:
  assumes "shared_add up keep now v response db w = (res, db', w')"
  shows "db' = db \<and> w' = w
    \<or> (\<exists>e. append_entry keep v response e db = (sw_last w', db') \<and> answers_in (sw_mirror w') \<subseteq> insert response (answers_in (sw_mirror w)))"
  using assms ring_add_answers
  by (fastforce simp: shared_add_def shared_write_def Let_def split: option.splits if_splits prod.splits sum.splits)

lemma append_entry_facts:
  assumes "append_entry keep v response e db = (i, db')"
  shows "i = Suc (st_last db)" and "st_last db' = i"
    and "e' \<in> set (st_entries db') \<Longrightarrow> e' \<in> set (st_entries db) \<or> se_id e' = i \<and> se_response e' = response"
    and "ordered_stream db \<Longrightarrow> ordered_stream db'"
proof -
  let ?new = "\<lparr>se_id = Suc (st_last db), se_vector = v, se_response = response, se_expires = e\<rparr>"
  let ?all = "st_entries db @ [?new]"
  have db': "st_entries db' = drop (length ?all - keep) ?all" and i: "i = Suc (st_last db)" "st_last db' = i"
    using assms by (auto simp: append_entry_def Let_def)
  show "i = Suc (st_last db)" "st_last db' = i" by (fact i)+
  have sub: "set (st_entries db') \<subseteq> set ?all" unfolding db' by (rule set_drop_subset)
  have mem: "e' \<in> set (st_entries db) \<or> e' = ?new" if "e' \<in> set (st_entries db')" for e'
    using subsetD [OF sub that] by auto
  show "e' \<in> set (st_entries db) \<or> se_id e' = i \<and> se_response e' = response" if "e' \<in> set (st_entries db')"
    using mem [OF that] i(1) by auto
  show "ordered_stream db'" if o: "ordered_stream db"
  proof -
    have "sorted_wrt (<) (map se_id ?all)" using o by (auto simp: ordered_stream_def sorted_wrt_append)
    then have "sorted_wrt (<) (map se_id (st_entries db'))" unfolding db' drop_map [symmetric] by (rule sorted_wrt_drop)
    moreover have "se_id e' \<le> st_last db'" if "e' \<in> set (st_entries db')" for e'
      using mem [OF that] o i by (auto simp: ordered_stream_def)
    ultimately show ?thesis by (simp add: ordered_stream_def)
  qed
qed

lemma add_ordered:
  "shared_add up keep now v response db w = (res, db', w') \<Longrightarrow> ordered_stream db \<Longrightarrow> ordered_stream db'"
  using shared_add_effect append_entry_facts(4) by metis

text \<open>A worker that has just written is blind for everything unread.\<close>

lemma write_blind:
  assumes x: "append_entry keep v response' e db = (sw_last w', db')" and "response' \<noteq> response" and "ordered_stream db"
    and "answers_in (sw_mirror w') \<subseteq> insert response' (answers_in (sw_mirror w))" and "response \<notin> answers_in (sw_mirror w)"
  shows "blind response db' w'"
  using assms append_entry_facts(1-3) [OF x] unfolding blind_def ordered_stream_def by fastforce

lemma shared_step_blind:
  assumes "shared_step response (db, w) (db', w')" and "blind response db w \<and> ordered_stream db"
  shows "blind response db' w' \<and> ordered_stream db'"
  using assms(1)
proof (cases rule: shared_step.cases)
  case (look up now v threshold res)
  with shared_find_worker sync_blind assms(2) show ?thesis by metis
next
  case (store up keep now v response' res)
  from shared_add_effect [OF store(1)] show ?thesis
  proof
    assume "db' = db \<and> w' = w"
    with assms(2) show ?thesis by simp
  next
    assume "\<exists>e. append_entry keep v response' e db = (sw_last w', db') \<and> answers_in (sw_mirror w') \<subseteq> insert response' (answers_in (sw_mirror w))"
    with write_blind [OF _ store(2)] assms(2) add_ordered [OF store(1)] show ?thesis unfolding blind_def by blast
  qed
next
  case (others up keep now v response' other res other')
  from shared_add_effect [OF others(2)] show ?thesis
  proof
    assume "db' = db \<and> other' = other"
    with assms(2) others(1) show ?thesis by simp
  next
    assume "\<exists>e. append_entry keep v response' e db = (sw_last other', db') \<and> answers_in (sw_mirror other') \<subseteq> insert response' (answers_in (sw_mirror other))"
    then obtain e where x: "append_entry keep v response' e db = (sw_last other', db')" by blast
    have "blind response db' w"
      using assms(2) append_entry_facts(1-3) [OF x] others(3) unfolding blind_def by fastforce
    with others(1) add_ordered [OF others(2)] assms(2) show ?thesis by simp
  qed
qed

text \<open>
  storing an answer hides those of others. When a worker stores an answer while another worker's entry lies
  unread in the stream, the entry's answer is never found by this worker again, whatever is looked up and stored
  afterwards (unless the same answer is stored once more), although the entry is still in the stream.
\<close>

theorem shared_add_hides_unread:
  assumes "ordered_stream db" and "sw_last w < se_id e" and "e \<in> set (st_entries db)" and "se_response e \<notin> answers_in (sw_mirror w)"
    and "shared_add up' keep now v response db w = (res, db1, w1)" and "response \<noteq> se_response e" and "st_last db1 \<noteq> st_last db"
    and "(shared_step (se_response e))\<^sup>*\<^sup>* (db1, w1) (db2, w2)"
  shows "fst (shared_find up now' v' threshold db2 w2) \<noteq> Inr (Some (se_response e, x))"
proof -
  from shared_add_effect [OF assms(5)] assms(7) obtain t where
    "append_entry keep v response t db = (sw_last w1, db1)" "answers_in (sw_mirror w1) \<subseteq> insert response (answers_in (sw_mirror w))"
    by blast
  from write_blind [OF this(1) assms(6,1) this(2) assms(4)] add_ordered [OF assms(5,1)]
  have start: "blind (se_response e) db1 w1 \<and> ordered_stream db1" by simp
  have "(shared_step (se_response e))\<^sup>*\<^sup>* s s' \<Longrightarrow> blind (se_response e) (fst s) (snd s) \<and> ordered_stream (fst s)
      \<Longrightarrow> blind (se_response e) (fst s') (snd s') \<and> ordered_stream (fst s')" for s s'
    by (induction rule: rtranclp_induct) (auto dest: shared_step_blind)
  from this [OF assms(8)] start have b: "blind (se_response e) db2 w2" "ordered_stream db2" by simp_all
  obtain f w3 where f: "shared_find up now' v' threshold db2 w2 = (f, w3)" by (cases "shared_find up now' v' threshold db2 w2")
  obtain r where s: "sync up now' db2 w2 = (r, w3)" using shared_find_worker [OF f] ..
  have no: "se_response e \<notin> answers_in (sw_mirror w3)" using sync_blind [OF s b] by (simp add: blind_def)
  have "f \<noteq> Inr (Some (se_response e, x))"
  proof
    assume eq: "f = Inr (Some (se_response e, x))"
    with f s have "ring_find v' threshold (cl_mono now') (sw_mirror w3) = Inr (Some (se_response e, x))"
      by (auto simp: shared_find_def split: sum.splits)
    then obtain row where "find_best row threshold (cl_mono now') (sw_mirror w3) = Some (se_response e, x)"
      by (auto simp: ring_find_def rbind_Inr_iff split: if_splits)
    then obtain sl where "fst (best_of (live_score (rg_metric (sw_mirror w3)) row (cl_mono now'))
        (take (rg_count (sw_mirror w3)) (rg_slots (sw_mirror w3)))) = Some sl" "sl_response sl = se_response e"
      by (auto simp: find_best_def split: prod.splits option.splits if_splits)
    moreover have "fst (best_of score ss) = Some sl \<Longrightarrow> Some sl \<in> set ss" for score ss
      using best_of_spec [of score ss] by (cases "ss = []"; cases "best_of score ss") auto
    ultimately have "Some sl \<in> set (rg_slots (sw_mirror w3))" by (meson in_set_takeD)
    with no \<open>sl_response sl = se_response e\<close> show False by (auto simp: answers_in_def)
  qed
  with f show ?thesis by simp
qed

section \<open>Two workers\<close>

definition dot_metric :: metric where
  "dot_metric = \<lparr>mt_normalize = identity, mt_score = inner_product\<rparr>"

definition noon :: clocks where
  "noon = \<lparr>cl_mono = 0, cl_wall = 0\<rparr>"

definition fresh_worker :: "semantic_worker" where
  "fresh_worker = \<lparr>sw_mirror = new_ring 4 None dot_metric, sw_last = 0\<rparr>"

definition entry_one :: "stream_entry" where
  "entry_one = \<lparr>se_id = 1, se_vector = [1], se_response = u ''one'', se_expires = None\<rparr>"

definition db_one :: "stream_db" where
  "db_one = \<lparr>st_entries = [entry_one], st_last = 1\<rparr>"

definition after_two :: "(cache_error + unit) \<times> stream_db \<times> semantic_worker" where
  "after_two = shared_add True 4 noon [2] (u ''two'') db_one fresh_worker"

lemmas worker_simps =
  shared_find_def shared_add_def shared_write_def sync_def xrange_after_def append_entry_def ring_add_def put_slot_def new_ring_def
  dot_metric_def identity_def noon_def fresh_worker_def entry_one_def db_one_def after_two_def entry_expiry_def
  not_after_def wall_to_monotonic_def ring_find_def find_best_def live_score_def inner_product_def beats_def Let_def

text \<open>Before it stores anything the worker finds the entry of the other one.\<close>

lemma unread_entry_found:
  "fst (shared_find True noon [1] (1 / 2) db_one fresh_worker) = Inr (Some (u ''one'', 1))"
  by code_simp

lemma after_two_eq: "after_two = (Inr (), fst (snd after_two), snd (snd after_two)) \<and> st_last (fst (snd after_two)) \<noteq> st_last db_one"
proof -
  have "fst after_two = Inr () \<and> st_last (fst (snd after_two)) = 2" by code_simp
  then show ?thesis by (auto simp: db_one_def prod_eq_iff)
qed

theorem shared_add_hides_unread_witness:
  "fst (shared_find True noon [1] (1 / 2) (fst (snd after_two)) (snd (snd after_two))) \<noteq> Inr (Some (u ''one'', 1))"
proof -
  have add: "shared_add True 4 noon [2] (u ''two'') db_one fresh_worker = (Inr (), fst (snd after_two), snd (snd after_two))"
    using after_two_eq by (simp add: after_two_def)
  have "fst (shared_find True noon [1] (1 / 2) (fst (snd after_two)) (snd (snd after_two))) \<noteq> Inr (Some (se_response entry_one, 1))"
  proof (rule shared_add_hides_unread [where e = entry_one, OF _ _ _ _ add])
    show "ordered_stream db_one" by (simp add: ordered_stream_def db_one_def entry_one_def)
    show "sw_last fresh_worker < se_id entry_one" by (simp add: fresh_worker_def entry_one_def)
    show "entry_one \<in> set (st_entries db_one)" by (simp add: db_one_def)
    show "se_response entry_one \<notin> answers_in (sw_mirror fresh_worker)"
      by (auto simp: answers_in_def fresh_worker_def new_ring_def)
    show "u ''two'' \<noteq> se_response entry_one" by (simp add: entry_one_def)
    show "st_last (fst (snd after_two)) \<noteq> st_last db_one" using after_two_eq by blast
  qed simp
  then show ?thesis by (simp add: entry_one_def)
qed

definition three_adds :: "addition list" where
  "three_adds = [([1], u ''one'', None, 0), ([3], u ''three'', None, 0), ([2], u ''two'', None, 0)]"

definition three_ring :: ring where
  "three_ring =
     \<lparr>rg_capacity = 2, rg_ttl = None, rg_metric = dot_metric, rg_dim = Some 1,
      rg_slots = [Some \<lparr>sl_row = [2], sl_response = u ''two'', sl_expires = None\<rparr>,
                  Some \<lparr>sl_row = [3], sl_response = u ''three'', sl_expires = None\<rparr>],
      rg_next = 1, rg_count = 2\<rparr>"

lemma three_ring: "add_all three_adds (new_ring 2 None dot_metric) = Inr three_ring"
  by (simp add: three_adds_def three_ring_def worker_simps eval_nat_numeral)

lemma three_found: "ring_find [1] 2 0 three_ring = Inr (Some (u ''three'', 3))"
  by code_simp

theorem semantic_lookup_is_best_witness:
  "best_answer dot_metric [1] 2 0 (kept 2 (stored_by dot_metric None three_adds)) (Some (u ''three'', 3))"
  by (rule semantic_lookup_is_best [OF _ three_ring _ three_found]) (simp_all add: dot_metric_def identity_def)

end
