(* ===== verification/Messages.thy ===== *)
theory Messages
  imports Keys Cache_Stores
begin

text \<open>
  The messages of a request: \<open>Message\<close> of \<open>types.py\<close> and \<open>ContextResolver\<close> of \<open>stages.py\<close> with its helpers. An
  item of a history or of an input list is a \<open>Message\<close> object or a JSON value. \<open>repr\<close> is the text \<open>str()\<close> gives a
  value that is no string.
\<close>

section \<open>Messages\<close>

record message =
  ms_role :: pystr
  ms_content :: pyval
  ms_name :: pyval
  ms_metadata :: "(pykey \<times> pyval) list"
  ms_tool_call_id :: pyval
  ms_tool_calls :: pyval

definition plain_message :: "pystr \<Rightarrow> pyval \<Rightarrow> message" where
  "plain_message role content =
     \<lparr>ms_role = role, ms_content = content, ms_name = PNone, ms_metadata = [], ms_tool_call_id = PNone, ms_tool_calls = PNone\<rparr>"

definition to_dict_message :: "message \<Rightarrow> pyval" where
  "to_dict_message m =
     PDict ([(KStr (u ''role''), PStr (ms_role m)), (KStr (u ''content''), ms_content m)]
       @ (if truthy (ms_name m) then [(KStr (u ''name''), ms_name m)] else [])
       @ (if truthy (ms_tool_call_id m) then [(KStr (u ''tool_call_id''), ms_tool_call_id m)] else [])
       @ (if truthy (ms_tool_calls m) then [(KStr (u ''tool_calls''), ms_tool_calls m)] else []))"

datatype item = IMsg message | IVal pyval

datatype message_error = CannotNormalize | BadToolCalls

section \<open>Coercing one item\<close>

definition USER :: pystr where "USER = u ''user''"
definition ASSISTANT :: pystr where "ASSISTANT = u ''assistant''"
definition TOOL :: pystr where "TOOL = u ''tool''"
definition SYSTEM :: pystr where "SYSTEM = u ''system''"

definition role_of :: "(pykey \<times> pyval) list \<Rightarrow> pyval" where
  "role_of d = (case lookup (u ''role'') d of None \<Rightarrow> PStr USER | Some r \<Rightarrow> r)"

definition known_role :: "pyval \<Rightarrow> pystr option" where
  "known_role r = (case r of PStr s \<Rightarrow> if s \<in> {SYSTEM, USER, ASSISTANT, TOOL} then Some s else None | _ \<Rightarrow> None)"

definition coerce_dict :: "(pyval \<Rightarrow> pystr) \<Rightarrow> (pykey \<times> pyval) list \<Rightarrow> message option" where
  "coerce_dict repr d =
     (if lookup (u ''content'') d = None \<and> lookup (u ''tool_calls'') d = None then None
      else
        (case known_role (role_of d) of
           None \<Rightarrow> None
         | Some role \<Rightarrow>
             (let content = dget (u ''content'') d; tool_calls = dget (u ''tool_calls'') d;
                  live = (role = ASSISTANT \<and> truthy tool_calls);
                  made = \<lparr>ms_role = role, ms_content = content, ms_name = dget (u ''name'') d, ms_metadata = [],
                          ms_tool_call_id = dget (u ''tool_call_id'') d, ms_tool_calls = tool_calls\<rparr>
              in if content = PNone \<and> role = ASSISTANT \<and> \<not> live then None
                 else if content = PNone then Some (if live then made else made\<lparr>ms_content := PStr (u ''None'')\<rparr>)
                 else (case content of
                         PStr _ \<Rightarrow> Some made
                       | PSeq _ \<Rightarrow> Some made
                       | _ \<Rightarrow> Some (made\<lparr>ms_content := PStr (repr content)\<rparr>)))))"

definition coerce_message :: "(pyval \<Rightarrow> pystr) \<Rightarrow> item \<Rightarrow> message option" where
  "coerce_message repr it =
     (case it of
        IMsg m \<Rightarrow> if ms_content m = PNone \<and> ms_role m = ASSISTANT \<and> \<not> truthy (ms_tool_calls m) then None else Some m
      | IVal (PDict d) \<Rightarrow> coerce_dict repr d
      | IVal _ \<Rightarrow> None)"

definition item_role :: "item \<Rightarrow> pyval" where
  "item_role it = (case it of IMsg m \<Rightarrow> PStr (ms_role m) | IVal (PDict d) \<Rightarrow> role_of d | IVal _ \<Rightarrow> PNone)"

definition is_dropped_turn :: "item \<Rightarrow> bool" where
  "is_dropped_turn it =
     (case it of
        IMsg m \<Rightarrow> ms_role m = ASSISTANT \<and> ms_content m = PNone \<and> \<not> truthy (ms_tool_calls m)
      | IVal (PDict d) \<Rightarrow>
          role_of d = PStr ASSISTANT \<and> lookup (u ''content'') d = Some PNone \<and> \<not> truthy (dget (u ''tool_calls'') d)
      | IVal _ \<Rightarrow> False)"

section \<open>Merging two messages\<close>

definition text_block :: "pyval \<Rightarrow> pyval" where
  "text_block v = PDict [(KStr (u ''type''), PStr (u ''text'')), (KStr (u ''text''), v)]"

definition as_blocks :: "pyval \<Rightarrow> pyval list" where
  "as_blocks v = (case v of PSeq xs \<Rightarrow> xs | _ \<Rightarrow> [text_block v])"

definition merge_content :: "pyval \<Rightarrow> pyval \<Rightarrow> pyval" where
  "merge_content a b =
     (if a = PNone then b else if b = PNone then a
      else (case (a, b) of (PStr s, PStr t) \<Rightarrow> PStr (s @ [10, 10] @ t) | _ \<Rightarrow> PSeq (as_blocks a @ as_blocks b)))"

definition merge_name :: "pyval \<Rightarrow> pyval \<Rightarrow> pyval" where
  "merge_name a b = (if a = b then a else PNone)"

definition merge_metadata :: "(pykey \<times> pyval) list \<Rightarrow> (pykey \<times> pyval) list \<Rightarrow> (pykey \<times> pyval) list" where
  "merge_metadata a b = foldl (\<lambda>d (k, v). od_set k v d) a b"

text \<open>Tool calls that are neither a list nor absent are outside the type of the field; adding them raises.\<close>

definition merge_tool_calls :: "pyval \<Rightarrow> pyval \<Rightarrow> message_error + pyval" where
  "merge_tool_calls a b =
     (let x = (if truthy a then a else PSeq []); y = (if truthy b then b else PSeq []) in
      case (x, y) of
        (PSeq xs, PSeq ys) \<Rightarrow> Inr (if xs @ ys = [] then PNone else PSeq (xs @ ys))
      | _ \<Rightarrow> Inl BadToolCalls)"

definition merge_messages :: "message \<Rightarrow> message \<Rightarrow> message_error + message" where
  "merge_messages a b =
     rmap (\<lambda>calls.
         \<lparr>ms_role = ms_role a, ms_content = merge_content (ms_content a) (ms_content b), ms_name = merge_name (ms_name a) (ms_name b),
          ms_metadata = merge_metadata (ms_metadata a) (ms_metadata b),
          ms_tool_call_id = (if truthy (ms_tool_call_id a) then ms_tool_call_id a else ms_tool_call_id b), ms_tool_calls = calls\<rparr>)
       (merge_tool_calls (ms_tool_calls a) (ms_tool_calls b))"

definition mergeable :: "message list \<Rightarrow> message list \<Rightarrow> bool" where
  "mergeable dest fresh \<longleftrightarrow>
     dest \<noteq> [] \<and> fresh \<noteq> [] \<and> ms_role (last dest) = ms_role (hd fresh) \<and> ms_role (last dest) \<in> {USER, ASSISTANT}"

definition append_messages :: "message list \<Rightarrow> message list \<Rightarrow> bool \<Rightarrow> message_error + message list" where
  "append_messages dest fresh pending_merge =
     (if pending_merge \<and> mergeable dest fresh
      then rmap (\<lambda>m. butlast dest @ [m] @ tl fresh) (merge_messages (last dest) (hd fresh))
      else Inr (dest @ fresh))"

section \<open>Coercing a list\<close>

fun coerce_loop ::
  "(pyval \<Rightarrow> pystr) \<Rightarrow> item list \<Rightarrow> bool \<Rightarrow> bool \<Rightarrow> message list \<Rightarrow> message_error + (message list \<times> bool)" where
  "coerce_loop repr [] skip pending out = Inr (out, pending)"
| "coerce_loop repr (it # its) skip pending out =
     (if skip \<and> item_role it = PStr TOOL then coerce_loop repr its skip pending out
      else if is_dropped_turn it then coerce_loop repr its True True out
      else
        (case coerce_message repr it of
           None \<Rightarrow> coerce_loop repr its False pending out
         | Some m \<Rightarrow> rbind (append_messages out [m] pending) (\<lambda>out'. coerce_loop repr its False False out')))"

definition coerce_messages :: "(pyval \<Rightarrow> pystr) \<Rightarrow> item list \<Rightarrow> message_error + (message list \<times> bool)" where
  "coerce_messages repr items = coerce_loop repr items False False []"

definition drop_until_valid_start :: "message list \<Rightarrow> message list" where
  "drop_until_valid_start ms = dropWhile (\<lambda>m. ms_role m \<noteq> USER) ms"

section \<open>The resolver\<close>

record resolver =
  rv_system_prompt :: "pystr option"
  rv_has_cache :: bool
  rv_max_history :: int

text \<open>The call's own input. A dictionary is given by its \<open>messages\<close>, if that is a list, and its items.\<close>

datatype raw_input = RText pystr | RMsg message | RList "item list" | RDict "item list option" "(pykey \<times> pyval) list" | ROther

text \<open>What the session reader gives: a list, something else, or an error the resolver catches.\<close>

datatype history = HList "item list" | HOther | HFailed

text \<open>The parameters the reader is called with; \<open>None\<close> when it is not called.\<close>

definition session_params :: "(pystr \<times> pystr) list option \<Rightarrow> pystr option \<Rightarrow> pystr option \<Rightarrow> (pystr \<times> pystr) list option" where
  "session_params given user session =
     (let params = (case given of
          Some ps \<Rightarrow> ps
        | None \<Rightarrow>
            (case user of
               Some v \<Rightarrow> if v \<noteq> [] then [(u ''user_id'', v)]
                          else (case session of Some s \<Rightarrow> if s \<noteq> [] then [(u ''session_id'', s)] else [] | None \<Rightarrow> [])
             | None \<Rightarrow> (case session of Some s \<Rightarrow> if s \<noteq> [] then [(u ''session_id'', s)] else [] | None \<Rightarrow> [])))
      in if params = [] then None else Some params)"

definition last_n :: "nat \<Rightarrow> 'a list \<Rightarrow> 'a list" where
  "last_n n xs = drop (length xs - n) xs"

definition windowed :: "(pyval \<Rightarrow> pystr) \<Rightarrow> int \<Rightarrow> item list \<Rightarrow> message_error + (message list \<times> bool)" where
  "windowed repr n items =
     rmap (\<lambda>(out, trailing). let sliced = drop_until_valid_start (last_n (nat n) out) in (sliced, sliced \<noteq> [] \<and> trailing))
       (coerce_messages repr items)"

definition read_history ::
  "(pyval \<Rightarrow> pystr) \<Rightarrow> resolver \<Rightarrow> (pystr \<times> pystr) list option \<Rightarrow> ((pystr \<times> pystr) list \<Rightarrow> history)
     \<Rightarrow> message_error + (message list \<times> bool)" where
  "read_history repr rv params reader =
     (if \<not> rv_has_cache rv \<or> rv_max_history rv \<le> 0 then Inr ([], False)
      else
        (case params of
           None \<Rightarrow> Inr ([], False)
         | Some ps \<Rightarrow>
             (case reader ps of HList items \<Rightarrow> windowed repr (rv_max_history rv) items | _ \<Rightarrow> Inr ([], False))))"

definition coerced :: "(pyval \<Rightarrow> pystr) \<Rightarrow> item list \<Rightarrow> message_error + message list" where
  "coerced repr items = rmap fst (coerce_messages repr items)"

definition dict_text :: "(pykey \<times> pyval) list \<Rightarrow> message_error + message list" where
  "dict_text d =
     (case find (\<lambda>k. is_str (dget k d)) [u ''query'', u ''input'', u ''prompt''] of
        None \<Rightarrow> Inl CannotNormalize
      | Some k \<Rightarrow> Inr [plain_message USER (dget k d)])"

definition normalize :: "(pyval \<Rightarrow> pystr) \<Rightarrow> raw_input \<Rightarrow> message_error + message list" where
  "normalize repr raw =
     (case raw of
        RText t \<Rightarrow> Inr [plain_message USER (PStr t)]
      | RMsg m \<Rightarrow> Inr [m]
      | RList items \<Rightarrow> rbind (coerced repr items) (\<lambda>out. if out \<noteq> [] then Inr out else Inl CannotNormalize)
      | RDict (Some items) d \<Rightarrow> rbind (coerced repr items) (\<lambda>out. if out \<noteq> [] then Inr out else dict_text d)
      | RDict None d \<Rightarrow> dict_text d
      | ROther \<Rightarrow> Inl CannotNormalize)"

definition system_part :: "pystr option \<Rightarrow> pystr option \<Rightarrow> message list" where
  "system_part override default_prompt =
     (case (case override of Some p \<Rightarrow> Some p | None \<Rightarrow> default_prompt) of
        None \<Rightarrow> [] | Some p \<Rightarrow> if p = [] then [] else [plain_message SYSTEM (PStr p)])"

definition resolve_messages ::
  "(pyval \<Rightarrow> pystr) \<Rightarrow> resolver \<Rightarrow> pystr option \<Rightarrow> (pystr \<times> pystr) list option \<Rightarrow> ((pystr \<times> pystr) list \<Rightarrow> history)
     \<Rightarrow> raw_input \<Rightarrow> message_error + message list" where
  "resolve_messages repr rv override params reader raw =
     rbind (read_history repr rv params reader) (\<lambda>(hist, trailing).
       rbind (normalize repr raw) (\<lambda>fresh.
         append_messages (system_part override (rv_system_prompt rv) @ hist) fresh trailing))"

end
