(* ===== verification/Messages_Props.thy ===== *)
theory Messages_Props
  imports Messages
begin

text \<open>
  What the resolver hands on: a history whose turns alternate stays alternating when tool-call turns are dropped,
  merged across and cut to a window, and a list without dropped turns is not rearranged.
\<close>

section \<open>Roles\<close>

lemmas role_defs = USER_def ASSISTANT_def TOOL_def SYSTEM_def

lemma roles_distinct [simp]:
  "USER \<noteq> ASSISTANT" "ASSISTANT \<noteq> USER" "USER \<noteq> TOOL" "TOOL \<noteq> USER" "ASSISTANT \<noteq> TOOL" "TOOL \<noteq> ASSISTANT"
  by (simp_all add: role_defs)

definition clash :: "pyval \<Rightarrow> pyval \<Rightarrow> bool" where
  "clash r s \<longleftrightarrow> r = s \<and> r \<in> {PStr USER, PStr ASSISTANT}"

definition alternating :: "pyval list \<Rightarrow> bool" where
  "alternating rs \<longleftrightarrow> successively (\<lambda>r s. \<not> clash r s) rs"

lemma alternating_simps [simp]:
  "alternating []" "alternating [r]" "alternating (r # s # rs) \<longleftrightarrow> \<not> clash r s \<and> alternating (s # rs)"
  by (simp_all add: alternating_def)

lemma alternating_append:
  "alternating (rs @ ss) \<longleftrightarrow> alternating rs \<and> alternating ss \<and> (rs = [] \<or> ss = [] \<or> \<not> clash (last rs) (hd ss))"
  by (auto simp: alternating_def successively_append_iff)

definition roles :: "message list \<Rightarrow> pyval list" where
  "roles ms = map (\<lambda>m. PStr (ms_role m)) ms"

lemma roles_simps [simp]:
  "roles [] = []" "roles (m # ms) = PStr (ms_role m) # roles ms" "roles (ms @ ms') = roles ms @ roles ms'" "roles ms = [] \<longleftrightarrow> ms = []"
  by (simp_all add: roles_def)

lemma last_roles: "ms \<noteq> [] \<Longrightarrow> last (roles ms) = PStr (ms_role (last ms))"
  by (simp add: roles_def last_map)

lemma alternating_suffix: "alternating (roles ms) \<Longrightarrow> alternating (roles (drop n ms))"
  by (metis alternating_append append_take_drop_id roles_simps(3))

lemma alternating_dropWhile: "alternating (roles ms) \<Longrightarrow> alternating (roles (dropWhile P ms))"
  by (metis alternating_append roles_simps(3) takeWhile_dropWhile_id)

section \<open>Messages that can be sent\<close>

definition sendable :: "message \<Rightarrow> bool" where
  "sendable m \<longleftrightarrow> ms_content m \<noteq> PNone \<or> ms_role m = ASSISTANT \<and> truthy (ms_tool_calls m)"

lemma known_role_Some: "known_role r = Some s \<Longrightarrow> r = PStr s"
  by (auto simp: known_role_def split: pyval.splits if_splits)

lemma coerce_dict_role: "coerce_dict repr d = Some m \<Longrightarrow> role_of d = PStr (ms_role m) \<and> sendable m"
  by (auto simp: coerce_dict_def Let_def sendable_def dest: known_role_Some split: if_splits option.splits pyval.splits)

text \<open>A stored item the resolver understands.\<close>

definition well_formed :: "(pyval \<Rightarrow> pystr) \<Rightarrow> item \<Rightarrow> bool" where
  "well_formed repr it \<longleftrightarrow> (\<exists>v. it = IVal v) \<and> (is_dropped_turn it \<or> coerce_message repr it \<noteq> None)"

lemma coerce_item:
  assumes "coerce_message repr it = Some m" and "well_formed repr it"
  shows "item_role it = PStr (ms_role m) \<and> sendable m"
  using assms by (auto simp: coerce_message_def item_role_def well_formed_def dest: coerce_dict_role split: pyval.splits)

lemma dropped_role: "is_dropped_turn it \<Longrightarrow> item_role it = PStr ASSISTANT"
  by (auto simp: is_dropped_turn_def item_role_def split: item.splits pyval.splits)

lemma merge_role: "merge_messages a b = Inr m \<Longrightarrow> ms_role m = ms_role a"
  by (auto simp: merge_messages_def result_simps)

lemma merge_sendable:
  assumes "merge_messages a b = Inr m" and "sendable a" and "sendable b" and "ms_role a = ms_role b"
  shows "sendable m"
proof -
  from assms(1) obtain calls where calls: "merge_tool_calls (ms_tool_calls a) (ms_tool_calls b) = Inr calls"
    and m: "ms_content m = merge_content (ms_content a) (ms_content b)" "ms_role m = ms_role a" "ms_tool_calls m = calls"
    by (auto simp: merge_messages_def result_simps)
  have "truthy calls" if "truthy (ms_tool_calls a)" using calls that
    by (cases "ms_tool_calls a") (auto simp: merge_tool_calls_def Let_def split: pyval.splits if_splits)
  with assms(2-4) m show ?thesis
    by (auto simp: sendable_def merge_content_def split: pyval.splits)
qed

section \<open>The loop\<close>

definition joined :: "message list \<Rightarrow> bool" where
  "joined ms \<longleftrightarrow> alternating (roles ms) \<and> list_all sendable ms"

lemma append_pending:
  assumes "append_messages out [m] True = Inr out'" and "joined out" and "sendable m"
  shows "joined out' \<and> out' \<noteq> [] \<and> ms_role (last out') = ms_role m"
proof (cases "mergeable out [m]")
  case True
  with assms(1) obtain x where x: "merge_messages (last out) m = Inr x" and out': "out' = butlast out @ [x]"
    by (auto simp: append_messages_def result_simps)
  from True have out: "out = butlast out @ [last out]" and same: "ms_role (last out) = ms_role m"
    by (auto simp: mergeable_def)
  have r: "ms_role x = ms_role (last out)" by (rule merge_role [OF x])
  have "roles out' = roles (butlast out @ [last out])" by (simp add: out' r)
  also have "\<dots> = roles out" by (simp only: out [symmetric])
  finally have "roles out' = roles out" .
  moreover have "list_all sendable out'"
    using assms(2,3) out merge_sendable [OF x _ assms(3) same] unfolding joined_def out'
    by (metis list_all_append list.pred_inject(2) list.pred_inject(1))
  ultimately show ?thesis using assms(2) r same by (simp add: joined_def out')
next
  case False
  with assms(1) have out': "out' = out @ [m]" by (simp add: append_messages_def)
  from False have "out = [] \<or> \<not> clash (PStr (ms_role (last out))) (PStr (ms_role m))"
    by (auto simp: mergeable_def clash_def)
  with assms(2,3) show ?thesis
    by (auto simp: joined_def out' alternating_append last_roles)
qed

lemma append_settled:
  assumes "append_messages out [m] False = Inr out'" and "joined out" and "sendable m"
    and "out = [] \<or> \<not> clash (PStr (ms_role (last out))) (PStr (ms_role m))"
  shows "joined out' \<and> out' \<noteq> [] \<and> ms_role (last out') = ms_role m"
  using assms by (auto simp: append_messages_def joined_def alternating_append last_roles)

text \<open>\<open>prev\<close> is the role of the item before; \<open>b\<close> says that the last turn was dropped.\<close>

lemma coerce_loop_joined:
  assumes "coerce_loop repr its b b out = Inr (res, trailing)" and "list_all (well_formed repr) its"
    and "alternating (prev # map item_role its)" and "joined out" and "\<not> b \<Longrightarrow> out \<noteq> [] \<Longrightarrow> PStr (ms_role (last out)) = prev"
  shows "joined res \<and> (\<not> trailing \<longrightarrow> res \<noteq> [] \<longrightarrow> PStr (ms_role (last res)) = last (prev # map item_role its))"
  using assms
proof (induction its arbitrary: b out prev)
  case Nil
  then show ?case by simp
next
  case (Cons it its)
  have alt: "\<not> clash prev (item_role it)" "alternating (item_role it # map item_role its)"
    and wf: "well_formed repr it" "list_all (well_formed repr) its" using Cons.prems(2,3) by simp_all
  have last: "last (prev # map item_role (it # its)) = last (item_role it # map item_role its)" by simp
  consider (tool) "b" "item_role it = PStr TOOL" | (drop) "\<not> (b \<and> item_role it = PStr TOOL)" "is_dropped_turn it"
    | (keep) "\<not> (b \<and> item_role it = PStr TOOL)" "\<not> is_dropped_turn it" by blast
  then show ?case
  proof cases
    case tool
    with Cons.prems(1) have "coerce_loop repr its b b out = Inr (res, trailing)" by simp
    from Cons.IH [OF this wf(2) alt(2) Cons.prems(4)] tool show ?thesis unfolding last by simp
  next
    case drop
    with Cons.prems(1) have "coerce_loop repr its True True out = Inr (res, trailing)" by simp
    from Cons.IH [OF this wf(2) alt(2) Cons.prems(4)] show ?thesis unfolding last by simp
  next
    case keep
    with wf(1) obtain m where m: "coerce_message repr it = Some m" by (auto simp: well_formed_def)
    note role = coerce_item [OF m wf(1)]
    from keep m Cons.prems(1) obtain out' where app: "append_messages out [m] b = Inr out'"
      and rest: "coerce_loop repr its False False out' = Inr (res, trailing)"
      by (auto simp: result_simps)
    have "joined out' \<and> out' \<noteq> [] \<and> ms_role (last out') = ms_role m"
    proof (cases b)
      case True
      with app have "append_messages out [m] True = Inr out'" by simp
      from append_pending [OF this Cons.prems(4)] role show ?thesis by blast
    next
      case False
      with app have app': "append_messages out [m] False = Inr out'" by simp
      have "out = [] \<or> \<not> clash (PStr (ms_role (last out))) (PStr (ms_role m))"
        using Cons.prems(5) [OF False] alt(1) role by auto
      from append_settled [OF app' Cons.prems(4) _ this] role show ?thesis by blast
    qed
    with Cons.IH [OF rest wf(2) alt(2)] role show ?thesis unfolding last by simp
  qed
qed

lemma windowed_joined:
  assumes "windowed repr n items = Inr (ms, trailing)" and "list_all (well_formed repr) items"
    and "alternating (map item_role items @ [PStr USER])"
  shows "joined ms \<and> length ms \<le> nat n \<and> (ms \<noteq> [] \<longrightarrow> ms_role (hd ms) = USER) \<and> (trailing \<longrightarrow> ms \<noteq> [])
    \<and> (\<not> trailing \<longrightarrow> ms \<noteq> [] \<longrightarrow> ms_role (last ms) \<noteq> USER)"
proof -
  from assms(1) obtain out tr where loop: "coerce_loop repr items False False [] = Inr (out, tr)"
    and ms: "ms = drop_until_valid_start (last_n (nat n) out)" and tr: "trailing = (ms \<noteq> [] \<and> tr)"
    by (auto simp: windowed_def coerce_messages_def result_simps Let_def split: prod.splits)
  have start: "alternating (PNone # map item_role items)"
  proof -
    have "alternating (map item_role items)" using assms(3) by (simp add: alternating_append)
    then show ?thesis by (cases items) (simp_all add: clash_def)
  qed
  from coerce_loop_joined [OF loop assms(2) start] have j: "joined out"
    and l: "\<not> tr \<longrightarrow> out \<noteq> [] \<longrightarrow> PStr (ms_role (last out)) = last (PNone # map item_role items)"
    by (auto simp: joined_def)
  have sub: "set ms \<subseteq> set out" unfolding ms drop_until_valid_start_def last_n_def by (meson set_drop_subset set_dropWhileD subset_code(1))
  have "joined ms"
    using j sub by (auto simp: joined_def ms drop_until_valid_start_def last_n_def list_all_iff intro!: alternating_dropWhile alternating_suffix)
  moreover have "length ms \<le> nat n"
    unfolding ms drop_until_valid_start_def last_n_def by (rule order_trans [OF length_dropWhile_le]) simp
  moreover have "ms_role (hd ms) = USER" if "ms \<noteq> []"
    using hd_dropWhile [of "\<lambda>m. ms_role m \<noteq> USER" "last_n (nat n) out"] that unfolding ms drop_until_valid_start_def by simp
  moreover have "ms_role (last ms) \<noteq> USER" if "\<not> trailing" "ms \<noteq> []"
  proof
    assume user: "ms_role (last ms) = USER"
    have "last ms = last out" using that(2) unfolding ms drop_until_valid_start_def last_n_def
      by (metis dropWhile_eq_drop drop_drop drop_eq_Nil2 last_drop linorder_not_le)
    moreover have "out \<noteq> []" using that(2) unfolding ms drop_until_valid_start_def last_n_def by auto
    ultimately have "last (PNone # map item_role items) = PStr USER" using l that tr user by auto
    then have "items \<noteq> []" "last (map item_role items) = PStr USER" by (auto split: if_splits)
    with assms(3) show False by (auto simp: alternating_append clash_def)
  qed
  ultimately show ?thesis using tr by blast
qed

text \<open>A history that a new message of the user can follow.\<close>

definition proper_history :: "(pyval \<Rightarrow> pystr) \<Rightarrow> history \<Rightarrow> bool" where
  "proper_history repr h \<longleftrightarrow>
     (case h of HList items \<Rightarrow> list_all (well_formed repr) items \<and> alternating (map item_role items @ [PStr USER]) | _ \<Rightarrow> True)"

lemma history_joined:
  assumes "read_history repr rv params reader = Inr (hist, trailing)"
    and "\<And>ps. proper_history repr (reader ps)"
  shows "joined hist" "length hist \<le> nat (rv_max_history rv)" "hist \<noteq> [] \<longrightarrow> ms_role (hd hist) = USER"
    "trailing \<longrightarrow> hist \<noteq> []" "\<not> trailing \<longrightarrow> hist \<noteq> [] \<longrightarrow> ms_role (last hist) \<noteq> USER"
proof -
  have "(hist = [] \<and> \<not> trailing) \<or> (\<exists>items. windowed repr (rv_max_history rv) items = Inr (hist, trailing)
      \<and> list_all (well_formed repr) items \<and> alternating (map item_role items @ [PStr USER]))"
  proof (cases "rv_has_cache rv \<and> \<not> rv_max_history rv \<le> 0")
    case False
    with assms(1) show ?thesis by (auto simp: read_history_def split: if_splits)
  next
    case True
    show ?thesis
    proof (cases params)
      case None
      with True assms(1) show ?thesis by (auto simp: read_history_def)
    next
      case (Some ps)
      with True assms(1) assms(2) [of ps] show ?thesis
        by (cases "reader ps") (auto simp: read_history_def proper_history_def)
    qed
  qed
  then have "joined hist \<and> length hist \<le> nat (rv_max_history rv) \<and> (hist \<noteq> [] \<longrightarrow> ms_role (hd hist) = USER)
      \<and> (trailing \<longrightarrow> hist \<noteq> []) \<and> (\<not> trailing \<longrightarrow> hist \<noteq> [] \<longrightarrow> ms_role (last hist) \<noteq> USER)"
    using windowed_joined by (fastforce simp: joined_def)
  then show "joined hist" "length hist \<le> nat (rv_max_history rv)" "hist \<noteq> [] \<longrightarrow> ms_role (hd hist) = USER"
    "trailing \<longrightarrow> hist \<noteq> []" "\<not> trailing \<longrightarrow> hist \<noteq> [] \<longrightarrow> ms_role (last hist) \<noteq> USER"
    by blast+
qed

lemma append_window:
  assumes "append_messages hist [new] trailing = Inr rest" "ms_role new = USER"
    and "length hist \<le> n" "hist \<noteq> [] \<longrightarrow> ms_role (hd hist) = USER"
  shows "length rest \<le> n + 1 \<and> ms_role (hd rest) = USER"
proof (cases "trailing \<and> mergeable hist [new]")
  case True
  with assms(1) obtain x where x: "merge_messages (last hist) new = Inr x" "rest = butlast hist @ [x]"
    by (auto simp: append_messages_def result_simps)
  from True obtain ys y where y: "hist = ys @ [y]" by (cases hist rule: rev_cases) (auto simp: mergeable_def)
  have r: "ms_role x = USER" using True merge_role [OF x(1)] by (simp add: mergeable_def assms)
  show ?thesis
  proof (cases ys)
    case Nil
    with y x(2) r assms(3) show ?thesis by simp
  next
    case (Cons z zs)
    with y x(2) assms(3,4) show ?thesis by simp
  qed
next
  case False
  with assms(1) have rest': "rest = hist @ [new]" by (auto simp: append_messages_def)
  show ?thesis using assms(2-4) unfolding rest' by (cases hist) simp_all
qed

lemma append_behind:
  assumes "append_messages (sys @ hist) new trailing = Inr ms" "trailing \<longrightarrow> hist \<noteq> []"
  shows "\<exists>rest. ms = sys @ rest \<and> append_messages hist new trailing = Inr rest"
proof (cases "trailing \<and> mergeable (sys @ hist) new")
  case True
  with assms have "hist \<noteq> []" by blast
  with True assms show ?thesis by (auto simp: append_messages_def mergeable_def result_simps butlast_append)
next
  case False
  with assms have "ms = sys @ hist @ new" by (auto simp: append_messages_def)
  moreover from False assms(2) have "\<not> (trailing \<and> mergeable hist new)" by (auto simp: mergeable_def)
  ultimately show ?thesis by (auto simp: append_messages_def)
qed

text \<open>
  C29: dropped tool turns never break the conversation. When the turns of the stored history alternate, so do those
  of the resolved messages, although turns without content are dropped with their replies and the rest is cut to
  a window: after the system prompt come at most \<open>max_history_messages\<close> messages and the user's, the first is the
  user's, no two neighbours share the role of user or assistant, and every message has content or live tool calls.
\<close>

theorem resolved_history_alternates:
  assumes "resolve_messages repr rv override params reader (RText t) = Inr ms"
    and "\<And>ps. proper_history repr (reader ps)" and "0 \<le> rv_max_history rv"
  shows "\<exists>rest. ms = system_part override (rv_system_prompt rv) @ rest \<and> joined rest \<and> rest \<noteq> []
    \<and> ms_role (hd rest) = USER \<and> ms_role (last rest) = USER \<and> length rest \<le> nat (rv_max_history rv) + 1"
proof -
  let ?sys = "system_part override (rv_system_prompt rv)" and ?new = "plain_message USER (PStr t)"
  have new: "sendable ?new" "ms_role ?new = USER" by (simp_all add: sendable_def plain_message_def)
  from assms(1) obtain hist trailing where h: "read_history repr rv params reader = Inr (hist, trailing)"
    and app: "append_messages (?sys @ hist) [?new] trailing = Inr ms"
    by (auto simp: resolve_messages_def normalize_def result_simps)
  note j = history_joined [OF h assms(2)]
  obtain rest where rest: "ms = ?sys @ rest" "append_messages hist [?new] trailing = Inr rest"
    using append_behind [OF app j(4)] by blast
  have "joined rest \<and> rest \<noteq> [] \<and> ms_role (last rest) = ms_role ?new"
  proof (cases trailing)
    case True
    with rest(2) append_pending [OF _ _ new(1), of hist rest] j show ?thesis by simp
  next
    case False
    with j have "hist = [] \<or> \<not> clash (PStr (ms_role (last hist))) (PStr (ms_role ?new))" by (auto simp: clash_def new)
    with False rest(2) append_settled [OF _ _ new(1), of hist rest] j show ?thesis by simp
  qed
  moreover note append_window [OF rest(2) new(2) j(2,3)]
  ultimately show ?thesis using rest(1) new(2) by (intro exI [of _ rest] conjI) simp_all
qed

section \<open>Lists without dropped turns\<close>

lemma coerce_loop_plain:
  assumes "list_all (\<lambda>it. \<not> is_dropped_turn it) items"
  shows "coerce_loop repr items False False out = Inr (out @ List.map_filter (coerce_message repr) items, False)"
  using assms
  by (induction items arbitrary: out) (auto simp: append_messages_def map_filter_simps split: option.splits)

text \<open>
  only a dropped turn causes a merge. A list in which no turn is dropped is coerced item by item: nothing is
  merged, moved or left out except what is no message at all.
\<close>

theorem coerce_without_drops:
  assumes "list_all (\<lambda>it. \<not> is_dropped_turn it) items"
  shows "coerce_messages repr items = Inr (List.map_filter (coerce_message repr) items, False)"
  using coerce_loop_plain [OF assms, of repr "[]"] by (simp add: coerce_messages_def)

section \<open>A history with a dropped turn\<close>

text \<open>The user asks, a turn without content is answered by a tool, and the user asks again.\<close>

definition turn_of :: "pystr \<Rightarrow> pyval \<Rightarrow> item" where
  "turn_of role content = IVal (PDict [(KStr (u ''role''), PStr role), (KStr (u ''content''), content)])"

definition cut_history :: "item list" where
  "cut_history = [turn_of USER (PStr (u ''q'')), turn_of ASSISTANT PNone, turn_of TOOL (PStr (u ''r''))]"

definition chat_resolver :: resolver where
  "chat_resolver = \<lparr>rv_system_prompt = Some (u ''s''), rv_has_cache = True, rv_max_history = 20\<rparr>"

definition merged_question :: message where
  "merged_question = plain_message USER (PStr (u ''q'' @ [10, 10] @ u ''again''))"

lemma turn_items:
  "item_role (turn_of r c) = PStr r" "is_dropped_turn (turn_of r c) \<longleftrightarrow> r = ASSISTANT \<and> c = PNone"
  "coerce_message repr (turn_of USER (PStr t)) = Some (plain_message USER (PStr t))"
  by (simp_all add: turn_of_def item_role_def is_dropped_turn_def role_of_def coerce_message_def coerce_dict_def dget_def
      known_role_def plain_message_def role_defs u_def Let_def)

lemma cut_resolved:
  "resolve_messages (\<lambda>v. []) chat_resolver None (Some []) (\<lambda>ps. HList cut_history) (RText (u ''again''))
    = Inr [plain_message SYSTEM (PStr (u ''s'')), merged_question]"
  by (simp add: resolve_messages_def chat_resolver_def read_history_def windowed_def coerce_messages_def cut_history_def
      turn_items append_messages_def normalize_def system_part_def mergeable_def merge_messages_def merge_tool_calls_def
      merge_content_def merge_name_def merge_metadata_def merged_question_def plain_message_def drop_until_valid_start_def last_n_def)

lemma cut_proper: "proper_history (\<lambda>v. []) (HList cut_history)"
proof -
  have "well_formed (\<lambda>v. []) (turn_of TOOL (PStr (u ''r'')))"
    by (simp add: well_formed_def turn_of_def is_dropped_turn_def coerce_message_def coerce_dict_def role_of_def known_role_def
        dget_def role_defs u_def Let_def)
  moreover have "well_formed (\<lambda>v. []) (turn_of USER (PStr (u ''q'')))" "well_formed (\<lambda>v. []) (turn_of ASSISTANT PNone)"
    by (simp_all add: well_formed_def turn_items) (simp_all add: turn_of_def)
  ultimately show ?thesis
    by (simp add: proper_history_def cut_history_def turn_items clash_def)
qed

theorem resolved_history_alternates_witness:
  "\<exists>rest. [plain_message SYSTEM (PStr (u ''s'')), merged_question] = system_part None (Some (u ''s'')) @ rest \<and> joined rest
    \<and> rest \<noteq> [] \<and> ms_role (hd rest) = USER \<and> ms_role (last rest) = USER \<and> length rest \<le> 21"
  using resolved_history_alternates [OF cut_resolved cut_proper] by (simp add: chat_resolver_def)

theorem coerce_without_drops_witness:
  "coerce_messages (\<lambda>v. []) [turn_of USER (PStr (u ''q'')), turn_of USER (PStr (u ''r''))]
    = Inr ([plain_message USER (PStr (u ''q'')), plain_message USER (PStr (u ''r''))], False)"
  using coerce_without_drops [of "[turn_of USER (PStr (u ''q'')), turn_of USER (PStr (u ''r''))]" "\<lambda>v. []"]
  by (simp add: turn_items map_filter_simps)

end
