(* ===== verification/Wire_Stages.thy ===== *)
theory Wire_Stages
  imports Messages
begin

text \<open>
  The two stages of \<open>stages.py\<close> that rewrite the body of a request on its way to the provider:
  \<open>PromptCacheInjection\<close> and \<open>SessionDedup\<close>. A body is a JSON object. The code changes it in place; here the
  changed body is returned. \<open>BadShape\<close> is the \<open>TypeError\<close> or \<open>AttributeError\<close> of a body that has another shape than the
  code expects, \<open>BadText\<close> the \<open>UnicodeEncodeError\<close> of a text with a lone surrogate. \<open>lower\<close> is \<open>str.lower\<close>.
\<close>

type_synonym object = "(pykey \<times> pyval) list"

datatype wire_error = BadShape | BadText

definition key_str :: "string \<Rightarrow> pykey" where
  "key_str s = KStr (u s)"

definition dset :: "string \<Rightarrow> pyval \<Rightarrow> object \<Rightarrow> object" where
  "dset k v d = od_set (key_str k) v d"

section \<open>Prompt cache breakpoints\<close>

fun count_markers :: "pyval \<Rightarrow> nat" where
  "count_markers (PDict items) =
     (if KStr (u ''cache_control'') \<in> fst ` set items then 1 else 0) + sum_list (map (\<lambda>(k, v). count_markers v) items)"
| "count_markers (PSeq xs) = sum_list (map count_markers xs)"
| "count_markers _ = 0"

definition OUR_CACHE_CONTROL_BUDGET :: nat where "OUR_CACHE_CONTROL_BUDGET = 2"

definition MAX_CACHE_CONTROL_BREAKPOINTS :: nat where "MAX_CACHE_CONTROL_BREAKPOINTS = 4"

definition ephemeral :: pyval where
  "ephemeral = PDict [(key_str ''type'', PStr (u ''ephemeral''))]"

definition mark :: "pyval \<Rightarrow> wire_error + pyval" where
  "mark v = (case v of PDict d \<Rightarrow> Inr (PDict (dset ''cache_control'' ephemeral d)) | _ \<Rightarrow> Inl BadShape)"

definition mark_last :: "pyval list \<Rightarrow> wire_error + pyval" where
  "mark_last xs = rmap (\<lambda>v. PSeq (butlast xs @ [v])) (mark (last xs))"

definition marked_text :: "pystr \<Rightarrow> pyval" where
  "marked_text t = PSeq [PDict [(key_str ''type'', PStr (u ''text'')), (key_str ''text'', PStr t), (key_str ''cache_control'', ephemeral)]]"

text \<open>The new value of \<open>system\<close> and of \<open>tools\<close>; \<open>None\<close> where the field is left alone.\<close>

definition mark_system :: "pyval \<Rightarrow> wire_error + pyval option" where
  "mark_system v =
     (case v of
        PStr t \<Rightarrow> Inr (if t = [] then None else Some (marked_text t))
      | PSeq xs \<Rightarrow> if xs = [] then Inr None else rmap Some (mark_last xs)
      | _ \<Rightarrow> Inr None)"

definition mark_tools :: "pyval \<Rightarrow> wire_error + pyval option" where
  "mark_tools v = (case v of PSeq xs \<Rightarrow> if xs = [] then Inr None else rmap Some (mark_last xs) | _ \<Rightarrow> Inr None)"

definition put_field :: "string \<Rightarrow> pyval option \<Rightarrow> object \<Rightarrow> object" where
  "put_field k v d = (case v of None \<Rightarrow> d | Some x \<Rightarrow> dset k x d)"

definition inject :: "object \<Rightarrow> wire_error + object" where
  "inject body =
     (if 0 < count_markers (PDict body) then Inr body
      else
        rbind (mark_system (dget (u ''system'') body)) (\<lambda>system.
          let body1 = put_field ''system'' system body; used = (if system = None then 0 else 1) in
          rbind (if used < OUR_CACHE_CONTROL_BUDGET then mark_tools (dget (u ''tools'') body1) else Inr None) (\<lambda>tools.
            Inr (put_field ''tools'' tools body1))))"

section \<open>Truncation\<close>

definition NOISY_LOG_TOOLS :: "pystr list" where
  "NOISY_LOG_TOOLS = map u [''bash'', ''shell'', ''execute'', ''run'', ''runtests'', ''runcommand'', ''terminal'']"

definition infix_of :: "pystr \<Rightarrow> pystr \<Rightarrow> bool" where
  "infix_of p t \<longleftrightarrow> list_ex (\<lambda>i. take (length p) (drop i t) = p) [0..<length t + 1]"

definition is_noisy :: "(pystr \<Rightarrow> pystr) \<Rightarrow> pystr \<Rightarrow> bool" where
  "is_noisy lower name \<longleftrightarrow> list_ex (\<lambda>m. infix_of m (lower name)) NOISY_LOG_TOOLS"

text \<open>\<open>{n:,}\<close>: groups of three digits.\<close>

fun group_digits :: "pystr \<Rightarrow> pystr" where
  "group_digits ds = (if length ds \<le> 3 then ds else group_digits (take (length ds - 3) ds) @ 44 # drop (length ds - 3) ds)"

declare group_digits.simps [simp del]

definition with_commas :: "nat \<Rightarrow> pystr" where
  "with_commas n = group_digits (nat_digits n)"

definition generic_notice :: "nat \<Rightarrow> pystr" where
  "generic_notice n =
     [10, 10] @ u ''(byoai-runtime truncation notice: '' @ with_commas n
       @ u '' chars omitted from middle here; non-log tool output, safe length cap only)'' @ [10, 10]"

text \<open>\<open>text[-limit // 2:]\<close>, which rounds away from zero and is the whole text for the limit 0.\<close>

definition last_half :: "nat \<Rightarrow> pystr \<Rightarrow> pystr" where
  "last_half limit t = (if limit = 0 then t else last_n ((limit + 1) div 2) t)"

definition truncate_generic :: "pystr \<Rightarrow> nat \<Rightarrow> pystr" where
  "truncate_generic t limit =
     (if length t \<le> limit then t
      else take (limit div 2) t @ generic_notice (length t - limit) @ last_half limit t)"

fun split_lines :: "pystr \<Rightarrow> pystr list" where
  "split_lines [] = [[]]"
| "split_lines (c # t) =
     (case split_lines t of [] \<Rightarrow> [[c]] | l # ls \<Rightarrow> if c = 10 then [] # l # ls else (c # l) # ls)"

fun join_lines :: "pystr list \<Rightarrow> pystr" where
  "join_lines [] = []" | "join_lines [l] = l" | "join_lines (l # ls) = l @ 10 # join_lines ls"

definition error_line :: "pystr \<Rightarrow> bool" where
  "error_line l \<longleftrightarrow> list_ex (\<lambda>m. infix_of m l) (map u [''FAIL'', ''ERROR'', ''Traceback'', ''Exception''])"

definition log_notice :: pystr where
  "log_notice = [10, 10] @ u ''(byoai-runtime truncation notice: verbose test/log output pruned to error lines)''"

definition long_notice :: pystr where
  "long_notice = [10, 10] @ u ''(byoai-runtime truncation notice: large log-like tool output truncated here)''"

definition truncate_log_like :: "pystr \<Rightarrow> pystr" where
  "truncate_log_like t =
     (if length t \<le> 1200 then t
      else
        (let errors = filter error_line (split_lines t) in
         if errors \<noteq> [] then join_lines (last_n 25 errors) @ log_notice else take 600 t @ long_notice))"

section \<open>The texts of tool results\<close>

text \<open>
  A body's messages are visited in document order. \<open>f s block t\<close> is what becomes of the text \<open>t\<close> of a tool result
  \<open>block\<close>, and the state after it.
\<close>

type_synonym 's visitor = "'s \<Rightarrow> object \<Rightarrow> pystr \<Rightarrow> pystr \<times> 's"

fun thread :: "('s \<Rightarrow> 'a \<Rightarrow> 'a \<times> 's) \<Rightarrow> 's \<Rightarrow> 'a list \<Rightarrow> 'a list \<times> 's" where
  "thread f s [] = ([], s)"
| "thread f s (x # xs) = (let (y, s1) = f s x; (ys, s2) = thread f s1 xs in (y # ys, s2))"

definition visit_sub :: "'s visitor \<Rightarrow> object \<Rightarrow> 's \<Rightarrow> pyval \<Rightarrow> pyval \<times> 's" where
  "visit_sub f block s v =
     (case v of
        PDict d \<Rightarrow>
          if dget (u ''type'') d = PStr (u ''text'') then
            (case lookup (u ''text'') d of
               Some (PStr t) \<Rightarrow> (let (t', s') = f s block t in (PDict (dset ''text'' (PStr t') d), s'))
             | _ \<Rightarrow> (v, s))
          else (v, s)
      | _ \<Rightarrow> (v, s))"

definition visit_block :: "'s visitor \<Rightarrow> 's \<Rightarrow> pyval \<Rightarrow> pyval \<times> 's" where
  "visit_block f s v =
     (case v of
        PDict d \<Rightarrow>
          if dget (u ''type'') d = PStr (u ''tool_result'') then
            (case lookup (u ''content'') d of
               Some (PStr t) \<Rightarrow> (let (t', s') = f s d t in (PDict (dset ''content'' (PStr t') d), s'))
             | Some (PSeq xs) \<Rightarrow> (let (ys, s') = thread (visit_sub f d) s xs in (PDict (dset ''content'' (PSeq ys) d), s'))
             | _ \<Rightarrow> (v, s))
          else (v, s)
      | _ \<Rightarrow> (v, s))"

definition visit_message :: "'s visitor \<Rightarrow> 's \<Rightarrow> pyval \<Rightarrow> pyval \<times> 's" where
  "visit_message f s v =
     (case v of
        PDict d \<Rightarrow>
          if dget (u ''role'') d = PStr (u ''user'') then
            (case lookup (u ''content'') d of
               Some (PSeq xs) \<Rightarrow> (let (ys, s') = thread (visit_block f) s xs in (PDict (dset ''content'' (PSeq ys) d), s'))
             | _ \<Rightarrow> (v, s))
          else (v, s)
      | _ \<Rightarrow> (v, s))"

definition visit :: "'s visitor \<Rightarrow> 's \<Rightarrow> pyval list \<Rightarrow> pyval list \<times> 's" where
  "visit f s messages = thread (visit_message f) s messages"

text \<open>The texts a visit meets, in order.\<close>

definition texts_of :: "pyval list \<Rightarrow> pystr list" where
  "texts_of messages = snd (visit (\<lambda>seen block t. (t, seen @ [t])) [] messages)"

definition rewrite :: "(object \<Rightarrow> pystr \<Rightarrow> pystr) \<Rightarrow> pyval list \<Rightarrow> pyval list" where
  "rewrite f messages = fst (visit (\<lambda>_ block t. (f block t, ())) () messages)"

section \<open>Names of tools\<close>

text \<open>The tool uses of a list of blocks: id and name, later ones first.\<close>

definition tool_use_of :: "pyval \<Rightarrow> (pyval \<times> pyval) list" where
  "tool_use_of v =
     (case v of
        PDict d \<Rightarrow>
          if dget (u ''type'') d = PStr (u ''tool_use'') \<and> truthy (dget (u ''id'') d)
          then [(dget (u ''id'') d, case lookup (u ''name'') d of None \<Rightarrow> PStr [] | Some n \<Rightarrow> n)]
          else []
      | _ \<Rightarrow> [])"

definition blocks_of :: "pyval \<Rightarrow> pyval list" where
  "blocks_of m = (case m of PDict d \<Rightarrow> (case dget (u ''content'') d of PSeq xs \<Rightarrow> xs | _ \<Rightarrow> []) | _ \<Rightarrow> [])"

definition tool_use_name_map :: "pyval list \<Rightarrow> (pyval \<times> pyval) list" where
  "tool_use_name_map messages = rev (concat (map tool_use_of (concat (map blocks_of messages))))"

definition tool_name_of :: "(pyval \<times> pyval) list \<Rightarrow> object \<Rightarrow> pyval" where
  "tool_name_of names block = (case map_of names (dget (u ''tool_use_id'') block) of None \<Rightarrow> PStr [] | Some n \<Rightarrow> n)"

text \<open>\<open>(name or "").lower()\<close> of the name of a tool.\<close>

definition name_text :: "pyval \<Rightarrow> wire_error + pystr" where
  "name_text n = (if truthy n then (case n of PStr s \<Rightarrow> Inr s | _ \<Rightarrow> Inl BadShape) else Inr [])"

text \<open>
  Shapes the code reads without raising: messages are objects, ids can be keys, names and texts are strings. A list or
  an object in the place of a text is measured by its number of elements and left alone; one of more than 1,200
  elements is outside the model.
\<close>

definition short_container :: "pyval \<Rightarrow> bool" where
  "short_container v = (case v of PSeq xs \<Rightarrow> length xs \<le> 1200 | PDict d \<Rightarrow> length d \<le> 1200 | _ \<Rightarrow> False)"

definition sub_fits :: "pyval \<Rightarrow> bool" where
  "sub_fits v =
     (case v of
        PDict d \<Rightarrow> dget (u ''type'') d = PStr (u ''text'') \<longrightarrow> (case lookup (u ''text'') d of None \<Rightarrow> True | Some t \<Rightarrow> is_str t \<or> short_container t)
      | _ \<Rightarrow> True)"

definition block_fits :: "(pyval \<times> pyval) list \<Rightarrow> pyval \<Rightarrow> bool" where
  "block_fits names v =
     (case v of
        PDict d \<Rightarrow>
          dget (u ''type'') d = PStr (u ''tool_result'') \<longrightarrow>
            hashable (dget (u ''tool_use_id'') d)
            \<and> (case name_text (tool_name_of names d) of Inl _ \<Rightarrow> False | Inr _ \<Rightarrow> True)
            \<and> (case dget (u ''content'') d of PSeq xs \<Rightarrow> list_all sub_fits xs | _ \<Rightarrow> True)
      | _ \<Rightarrow> True)"

definition fits :: "pyval list \<Rightarrow> bool" where
  "fits messages \<longleftrightarrow>
     list_all (\<lambda>m. case m of PDict _ \<Rightarrow> True | _ \<Rightarrow> False) messages
       \<and> list_all (\<lambda>(k, _). hashable k) (tool_use_name_map messages)
       \<and> list_all (\<lambda>m. case m of
             PDict d \<Rightarrow> dget (u ''role'') d = PStr (u ''user'') \<longrightarrow> list_all (block_fits (tool_use_name_map messages)) (blocks_of m)
           | _ \<Rightarrow> False) messages"

section \<open>The two passes\<close>

definition truncate_text :: "(pystr \<Rightarrow> pystr) \<Rightarrow> (pyval \<times> pyval) list \<Rightarrow> object \<Rightarrow> pystr \<Rightarrow> pystr" where
  "truncate_text lower names block t =
     (let name = (case name_text (tool_name_of names block) of Inl _ \<Rightarrow> [] | Inr n \<Rightarrow> n) in
      if length t \<le> 1200 then t
      else if is_noisy lower name then truncate_log_like t else truncate_generic t 4000)"

definition truncate_oversized :: "(pystr \<Rightarrow> pystr) \<Rightarrow> pyval list \<Rightarrow> pyval list" where
  "truncate_oversized lower messages = rewrite (truncate_text lower (tool_use_name_map messages)) messages"

definition DEDUP_MIN_CHARS :: nat where "DEDUP_MIN_CHARS = 2000"

text \<open>Hash and position of every large text, grouped by hash in the order the hashes first occur.\<close>

definition doc_hash :: "hash \<Rightarrow> pystr \<Rightarrow> pystr" where
  "doc_hash sha t = hex (sha (utf8 t))"

fun record_occurrence :: "hash \<Rightarrow> nat \<Rightarrow> pystr \<Rightarrow> (pystr \<times> nat list) list \<Rightarrow> (pystr \<times> nat list) list" where
  "record_occurrence sha i t occ =
     (if length t \<le> DEDUP_MIN_CHARS then occ
      else od_set (doc_hash sha t) ((case map_of occ (doc_hash sha t) of None \<Rightarrow> [] | Some xs \<Rightarrow> xs) @ [i]) occ)"

definition occurrences :: "hash \<Rightarrow> pystr list \<Rightarrow> (pystr \<times> nat list) list" where
  "occurrences sha ts = foldl (\<lambda>occ (i, t). record_occurrence sha i t occ) [] (enumerate 0 ts)"

definition placeholder :: "pystr \<Rightarrow> pystr" where
  "placeholder h =
     u ''(byoai-runtime dedup notice: identical tool output appears in full later in this request; SHA '' @ take 8 h @ u '')''"

text \<open>The positions to rewrite, with what is written there.\<close>

definition replacements :: "hash \<Rightarrow> pystr list \<Rightarrow> (nat \<times> pystr) list" where
  "replacements sha ts = concat (map (\<lambda>(h, xs). map (\<lambda>i. (i, placeholder h)) (butlast xs)) (occurrences sha ts))"

definition collapse_repeated :: "hash \<Rightarrow> pyval list \<Rightarrow> wire_error + pyval list" where
  "collapse_repeated sha messages =
     (let ts = texts_of messages; rs = replacements sha ts in
      if list_ex (\<lambda>t. length t > DEDUP_MIN_CHARS \<and> list_ex surrogate t) ts then Inl BadText
      else Inr (fst (visit (\<lambda>i block t. (case map_of rs i of None \<Rightarrow> t | Some p \<Rightarrow> p, i + 1)) 0 messages)))"

text \<open>\<open>json_len\<close> is the length of \<open>json.dumps\<close>.\<close>

definition estimate_tokens :: "(pyval \<Rightarrow> nat) \<Rightarrow> object \<Rightarrow> nat" where
  "estimate_tokens json_len body = json_len (PDict body) div 4"

definition optimize :: "hash \<Rightarrow> (pystr \<Rightarrow> pystr) \<Rightarrow> (pyval \<Rightarrow> nat) \<Rightarrow> object \<Rightarrow> wire_error + (object \<times> nat \<times> nat)" where
  "optimize sha lower json_len body =
     (case lookup (u ''messages'') body of
        None \<Rightarrow> Inr (body, estimate_tokens json_len body, estimate_tokens json_len body)
      | Some (PStr []) \<Rightarrow> Inr (body, estimate_tokens json_len body, estimate_tokens json_len body)
      | Some (PDict []) \<Rightarrow> Inr (body, estimate_tokens json_len body, estimate_tokens json_len body)
      | Some (PSeq messages) \<Rightarrow>
          if \<not> fits messages then Inl BadShape
          else
            rmap (\<lambda>out. let body' = dset ''messages'' (PSeq out) body
                        in (body', estimate_tokens json_len body, estimate_tokens json_len body'))
              (collapse_repeated sha (truncate_oversized lower messages))
      | Some _ \<Rightarrow> Inl BadShape)"

end
