(* ===== verification/Wire_Props.thy ===== *)
theory Wire_Props
  imports Wire_Stages Cache_Props Schema
begin

text \<open>
  What the two body-rewriting stages promise: cache breakpoints stay within their budget and are never added to a body
  that manages its own, and collapsing repeated tool output loses nothing: every text is kept, or is
  replaced by a notice whose claim holds in the body that is sent.
\<close>

section \<open>Objects\<close>

lemma dget_dset [simp]:
  "dget (u k) (dset k' v d) = (if u k = u k' then v else dget (u k) d)"
  "lookup (u k) (dset k' v d) = (if u k = u k' then Some v else lookup (u k) d)"
  by (simp_all add: dget_def dset_def key_str_def map_of_od_set)

lemma dset_dset [simp]: "dset k v (dset k w d) = dset k v d"
proof -
  have "od_set c v (od_set c w d) = od_set c v d" for c :: pykey
    by (induction c w d rule: od_set.induct) auto
  then show ?thesis by (simp add: dset_def)
qed

lemma dset_same: "lookup (u k) d = Some v \<Longrightarrow> dset k v d = d"
proof -
  have "lookup k' d = Some v \<Longrightarrow> od_set (KStr k') v d = d" for k'
    by (induction "KStr k'" v d rule: od_set.induct) (auto split: if_splits)
  then show "lookup (u k) d = Some v \<Longrightarrow> dset k v d = d" by (simp add: dset_def key_str_def)
qed

section \<open>Breakpoints\<close>

lemma count_dict:
  "count_markers (PDict d) = (if key_str ''cache_control'' \<in> fst ` set d then 1 else 0) + (\<Sum>(k, v)\<leftarrow>d. count_markers v)"
  by (simp add: key_str_def)

lemma sum_od_set:
  "(\<Sum>(k, v)\<leftarrow>od_set c w d. count_markers v) \<le> (\<Sum>(k, v)\<leftarrow>d. count_markers v) + count_markers w"
  by (induction c w d rule: od_set.induct) auto

lemma markers_dset:
  "key_str ''cache_control'' \<in> fst ` set (dset k w d) \<longleftrightarrow> k = ''cache_control'' \<or> key_str ''cache_control'' \<in> fst ` set d"
  by (auto simp: dset_def keys_od_set key_str_def)

lemma count_dset:
  "count_markers (PDict (dset k w d)) \<le> count_markers (PDict d) + count_markers w + (if k = ''cache_control'' then 1 else 0)"
  unfolding count_dict markers_dset using sum_od_set [of "key_str k" w d]
  by (cases "k = ''cache_control''") (simp_all add: dset_def)

lemma count_ephemeral [simp]: "count_markers ephemeral = 0"
  by (simp add: ephemeral_def key_str_def)

lemma count_seq: "count_markers (PSeq xs) = (\<Sum>x\<leftarrow>xs. count_markers x)"
  by simp

lemma count_mark: "mark v = Inr v' \<Longrightarrow> count_markers v' \<le> count_markers v + 1"
  using count_dset [of "''cache_control''" ephemeral]
  by (auto simp: mark_def simp del: count_markers.simps(1) split: pyval.splits)

lemma count_mark_last: "xs \<noteq> [] \<Longrightarrow> mark_last xs = Inr v \<Longrightarrow> count_markers v \<le> count_markers (PSeq xs) + 1"
  by (cases xs rule: rev_cases) (auto simp: mark_last_def rmap_Inr_iff dest!: count_mark)

lemma count_marked_text [simp]: "count_markers (marked_text t) = 1"
  by (simp add: marked_text_def key_str_def ephemeral_def)

lemma count_field: "lookup k d = Some v \<Longrightarrow> count_markers v \<le> count_markers (PDict d)"
proof -
  assume "lookup k d = Some v"
  then have "(KStr k, v) \<in> set d" by (simp add: map_of_SomeD)
  then have "count_markers v \<in> set (map (\<lambda>(k, v). count_markers v) d)" by force
  then have "count_markers v \<le> (\<Sum>(k, v)\<leftarrow>d. count_markers v)" by (rule member_le_sum_list) simp
  then show ?thesis by (simp only: count_dict)
qed

lemma count_dget: "count_markers (dget k d) \<le> count_markers (PDict d)"
  using count_field [of k d] by (auto simp: dget_def simp del: count_markers.simps(1) split: option.splits)

lemma count_mark_system: "mark_system v = Inr (Some v') \<Longrightarrow> count_markers v' \<le> count_markers v + 1"
  by (auto simp: mark_system_def rmap_Inr_iff simp del: count_markers.simps(2) dest!: count_mark_last split: pyval.splits if_splits)

lemma count_mark_tools: "mark_tools v = Inr (Some v') \<Longrightarrow> count_markers v' \<le> count_markers v + 1"
  by (auto simp: mark_tools_def rmap_Inr_iff simp del: count_markers.simps(2) dest!: count_mark_last split: pyval.splits if_splits)

lemma mark_positive: "mark v = Inr v' \<Longrightarrow> 0 < count_markers v'"
proof -
  assume "mark v = Inr v'"
  then obtain d where v': "v' = PDict (dset ''cache_control'' ephemeral d)" by (auto simp: mark_def split: pyval.splits)
  show ?thesis unfolding v' count_dict markers_dset by simp
qed

lemma mark_last_positive: "xs \<noteq> [] \<Longrightarrow> mark_last xs = Inr v \<Longrightarrow> 0 < count_markers v"
  by (cases xs rule: rev_cases) (auto simp: mark_last_def rmap_Inr_iff dest!: mark_positive)

lemma marked_positive:
  "mark_system v = Inr (Some v') \<Longrightarrow> 0 < count_markers v'"
  "mark_tools v = Inr (Some v') \<Longrightarrow> 0 < count_markers v'"
  by (auto simp: mark_system_def mark_tools_def rmap_Inr_iff simp del: count_markers.simps(2) dest!: mark_last_positive
      split: pyval.splits if_splits)

lemma inject_unmanaged:
  "count_markers (PDict body) = 0 \<Longrightarrow>
   inject body =
     rbind (mark_system (dget (u ''system'') body)) (\<lambda>system.
       rbind (mark_tools (dget (u ''tools'') body)) (\<lambda>tools. Inr (put_field ''tools'' tools (put_field ''system'' system body))))"
proof -
  have "dget (u ''tools'') (put_field ''system'' s body) = dget (u ''tools'') body" for s
    by (simp add: put_field_def split: option.splits)
  moreover have "(if s = None then 0 else 1) < (2::nat)" for s :: "pyval option" by simp
  ultimately show "count_markers (PDict body) = 0 \<Longrightarrow> ?thesis"
    unfolding inject_def Let_def OUR_CACHE_CONTROL_BUDGET_def by (simp del: count_markers.simps)
qed

lemma count_put_field:
  assumes "\<And>x. v = Some x \<Longrightarrow> count_markers x \<le> 1" "k \<noteq> ''cache_control''"
  shows "count_markers (PDict (put_field k v d)) \<le> count_markers (PDict d) + 1"
proof (cases v)
  case (Some x)
  then show ?thesis using assms count_dset [of k x d] by (simp add: put_field_def del: count_markers.simps)
qed (simp add: put_field_def)

lemma put_field_positive: "0 < count_markers x \<Longrightarrow> 0 < count_markers (PDict (put_field k (Some x) d))"
  using count_field [of "u k" "put_field k (Some x) d" x] by (simp add: put_field_def del: count_markers.simps lookup.simps)

text \<open>
  C31: cache breakpoints stay within their budget. A body that manages its own is left as it is; to any other the stage
  adds at most two, so that a request never exceeds the four the provider accepts, and running it again changes
  nothing.
\<close>

theorem inject_within_budget:
  assumes "inject body = Inr out"
  shows "(if 0 < count_markers (PDict body) then out = body
          else count_markers (PDict out) \<le> OUR_CACHE_CONTROL_BUDGET \<and> inject out = Inr out)"
proof (cases "0 < count_markers (PDict body)")
  case True
  with assms show ?thesis by (simp add: inject_def)
next
  case False
  then have none: "count_markers (PDict body) = 0" by simp
  obtain sys tls where sys: "mark_system (dget (u ''system'') body) = Inr sys"
    and tls: "mark_tools (dget (u ''tools'') body) = Inr tls"
    and out: "out = put_field ''tools'' tls (put_field ''system'' sys body)"
    using assms unfolding inject_unmanaged [OF none] rbind_Inr_iff by auto
  have field: "count_markers (dget k body) = 0" for k
    using count_dget [of k body] unfolding none by simp
  have "count_markers x \<le> 1" if "sys = Some x" for x
    using count_mark_system [of "dget (u ''system'') body" x] sys field that by simp
  then have first: "count_markers (PDict (put_field ''system'' sys body)) \<le> 1"
    using count_put_field [of sys "''system''" body] unfolding none by simp
  have "count_markers x \<le> 1" if "tls = Some x" for x
    using count_mark_tools [of "dget (u ''tools'') body" x] tls field that by simp
  then have "count_markers (PDict out) \<le> 2"
    using count_put_field [of tls "''tools''" "put_field ''system'' sys body"] first unfolding out by simp
  moreover have "inject out = Inr out"
  proof (cases "0 < count_markers (PDict out)")
    case True
    then show ?thesis by (simp add: inject_def)
  next
    case unmarked: False
    then have "tls = None" using tls put_field_positive marked_positive(2) unfolding out by (metis not_None_eq)
    moreover have "sys = None"
      using unmarked sys put_field_positive marked_positive(1) unfolding out \<open>tls = None\<close> put_field_def [of "''tools''"]
      by (metis not_None_eq option.case(1))
    ultimately show ?thesis using assms out by (simp add: put_field_def)
  qed
  ultimately show ?thesis using False by (simp add: OUR_CACHE_CONTROL_BUDGET_def del: count_markers.simps)
qed

section \<open>Visits\<close>

text \<open>Two visitors run after one another, the second on the texts the first one wrote, whatever their block.\<close>

definition on_text :: "('t \<Rightarrow> pystr \<Rightarrow> pystr \<times> 't) \<Rightarrow> 't visitor" where
  "on_text G = (\<lambda>t _. G t)"

definition then_visit :: "'s visitor \<Rightarrow> ('t \<Rightarrow> pystr \<Rightarrow> pystr \<times> 't) \<Rightarrow> ('s \<times> 't) visitor" where
  "then_visit f G = (\<lambda>(s, t) block x. let (y, s') = f s block x; (z, t') = G t y in (z, (s', t')))"

lemma then_visit_simp [simp]:
  "then_visit f G (s, t) b x = (fst (G t (fst (f s b x))), (snd (f s b x), snd (G t (fst (f s b x)))))"
  by (simp add: then_visit_def split_def Let_def)

definition composed :: "('s \<Rightarrow> 'a \<Rightarrow> 'a \<times> 's) \<Rightarrow> ('t \<Rightarrow> 'a \<Rightarrow> 'a \<times> 't) \<Rightarrow> ('s \<times> 't \<Rightarrow> 'a \<Rightarrow> 'a \<times> ('s \<times> 't)) \<Rightarrow> bool" where
  "composed f g h \<longleftrightarrow>
     (\<forall>s t x. h (s, t) x = (fst (g t (fst (f s x))), (snd (f s x), snd (g t (fst (f s x))))))"

lemma composed_thread: "composed f g h \<Longrightarrow> composed (thread f) (thread g) (thread h)"
proof -
  assume h: "composed f g h"
  have "thread h (s, t) xs = (fst (thread g t (fst (thread f s xs))), (snd (thread f s xs), snd (thread g t (fst (thread f s xs)))))"
    for s t xs
    by (induction xs arbitrary: s t) (simp_all add: h [unfolded composed_def] split_def Let_def)
  then show ?thesis by (simp add: composed_def)
qed

lemma visit_sub_on_text: "visit_sub (on_text G) b = visit_sub (on_text G) []"
  by (intro ext) (simp add: visit_sub_def on_text_def)

lemma composed_sub: "composed (visit_sub f b) (visit_sub (on_text G) []) (visit_sub (then_visit f G) b)"
  by (auto simp: composed_def visit_sub_def on_text_def split_def Let_def dset_same simp del: lookup.simps
      split: pyval.splits option.splits)

lemma composed_block: "composed (visit_block f) (visit_block (on_text G)) (visit_block (then_visit f G))"
proof -
  note subs = composed_thread [OF composed_sub, unfolded composed_def, rule_format]
  have head: "on_text G t b x = G t x" for t b x by (simp add: on_text_def)
  show ?thesis
    by (auto simp: composed_def visit_block_def visit_sub_on_text [of G "_ # _"] visit_sub_on_text [of G "dset _ _ _"] subs head
        split_def Let_def simp del: lookup.simps split: pyval.splits option.splits)
qed

lemma composed_message: "composed (visit_message f) (visit_message (on_text G)) (visit_message (then_visit f G))"
proof -
  note blocks = composed_thread [OF composed_block, unfolded composed_def, rule_format]
  show ?thesis
    by (auto simp: composed_def visit_message_def blocks split_def Let_def simp del: lookup.simps
        split: pyval.splits option.splits)
qed

lemma visit_visit:
  "visit (then_visit f G) (s, t) ms =
     (fst (visit (on_text G) t (fst (visit f s ms))), (snd (visit f s ms), snd (visit (on_text G) t (fst (visit f s ms)))))"
  unfolding visit_def by (rule composed_thread [OF composed_message, unfolded composed_def, rule_format])

text \<open>The state a visit ends with depends on the texts alone.\<close>

definition sub_texts :: "pyval \<Rightarrow> pystr list" where
  "sub_texts v = snd (visit_sub (on_text (\<lambda>seen t. (t, seen @ [t]))) [] [] v)"

definition block_texts :: "pyval \<Rightarrow> pystr list" where
  "block_texts v = snd (visit_block (on_text (\<lambda>seen t. (t, seen @ [t]))) [] v)"

definition message_texts :: "pyval \<Rightarrow> pystr list" where
  "message_texts v = snd (visit_message (on_text (\<lambda>seen t. (t, seen @ [t]))) [] v)"

lemma thread_state:
  assumes "\<And>s x. snd (h s x) = foldl N s (T x)"
  shows "snd (thread h s xs) = foldl N s (concat (map T xs))"
  by (induction xs arbitrary: s) (simp_all add: assms split_def Let_def)

lemma foldl_collect: "foldl (\<lambda>seen t. seen @ [t]) s ts = s @ ts"
  by (induction ts arbitrary: s) simp_all

lemma sub_state: "snd (visit_sub (on_text G) b s v) = foldl (\<lambda>s t. snd (G s t)) s (sub_texts v)"
  by (auto simp: visit_sub_def sub_texts_def on_text_def split_def Let_def split: pyval.splits option.splits)

lemma block_state: "snd (visit_block (on_text G) s v) = foldl (\<lambda>s t. snd (G s t)) s (block_texts v)"
proof -
  note subs = thread_state [where h = "visit_sub (on_text _) _" and T = sub_texts, OF sub_state]
  have head: "on_text G t b x = G t x" for G :: "'b \<Rightarrow> pystr \<Rightarrow> pystr \<times> 'b" and t b x by (simp add: on_text_def)
  show ?thesis
    by (auto simp: visit_block_def block_texts_def subs head foldl_collect split_def Let_def simp del: lookup.simps
        split: pyval.splits option.splits)
qed

lemma message_state: "snd (visit_message (on_text G) s v) = foldl (\<lambda>s t. snd (G s t)) s (message_texts v)"
proof -
  note blocks = thread_state [where h = "visit_block (on_text _)" and T = block_texts, OF block_state]
  show ?thesis
    by (auto simp: visit_message_def message_texts_def blocks foldl_collect split_def Let_def simp del: lookup.simps
        split: pyval.splits option.splits)
qed

lemma visit_state: "snd (visit (on_text G) s ms) = foldl (\<lambda>s t. snd (G s t)) s (texts_of ms)"
proof -
  note messages = thread_state [where h = "visit_message (on_text _)" and T = message_texts, OF message_state]
  have "texts_of ms = concat (map message_texts ms)"
    using messages [of "\<lambda>seen t. (t, seen @ [t])" "[]" ms] by (simp add: texts_of_def visit_def on_text_def foldl_collect)
  then show ?thesis by (simp add: visit_def messages)
qed

text \<open>The texts a rewriting pass leaves, and what it leaves alone.\<close>

lemma texts_of_visit:
  "texts_of (fst (visit (on_text G) s ms)) = snd (foldl (\<lambda>(s, seen) t. (snd (G s t), seen @ [fst (G s t)])) (s, []) (texts_of ms))"
proof -
  define C :: "pystr list \<Rightarrow> pystr \<Rightarrow> pystr \<times> pystr list" where "C = (\<lambda>seen t. (t, seen @ [t]))"
  define H where "H = (\<lambda>(s, seen) t. let (y, s') = G s t; (z, seen') = C seen y in (z, (s', seen')))"
  have th: "then_visit (on_text G) C = on_text H"
    by (intro ext) (simp add: then_visit_def on_text_def H_def split_def)
  have "texts_of (fst (visit (on_text G) s ms)) = snd (visit (on_text C) [] (fst (visit (on_text G) s ms)))"
    by (simp add: texts_of_def on_text_def C_def)
  also have "\<dots> = snd (snd (visit (on_text H) (s, []) ms))"
    using visit_visit [of "on_text G" C s "[]" ms] unfolding th by simp
  also have "\<dots> = snd (foldl (\<lambda>p t. snd (H p t)) (s, []) (texts_of ms))" by (simp only: visit_state)
  also have "(\<lambda>p t. snd (H p t)) = (\<lambda>(s, seen) t. (snd (G s t), seen @ [fst (G s t)]))"
    by (intro ext) (simp add: H_def C_def split_def Let_def)
  finally show ?thesis .
qed

definition blanked :: "pyval list \<Rightarrow> pyval list" where
  "blanked = rewrite (\<lambda>_ _. [])"

definition same_values :: "('s \<Rightarrow> 'a \<Rightarrow> 'a \<times> 's) \<Rightarrow> ('t \<Rightarrow> 'a \<Rightarrow> 'a \<times> 't) \<Rightarrow> bool" where
  "same_values f g \<longleftrightarrow> (\<forall>s t x. fst (f s x) = fst (g t x))"

lemma same_values_thread: "same_values f g \<Longrightarrow> same_values (thread f) (thread g)"
proof -
  assume "same_values f g"
  then have "fst (thread f s xs) = fst (thread g t xs)" for s t xs
    by (induction xs arbitrary: s t) (simp_all add: same_values_def split_def Let_def)
  then show ?thesis by (simp add: same_values_def)
qed

lemma same_values_visit:
  assumes "\<And>s t x. fst (F s x) = fst (G t x)"
  shows "same_values (visit (on_text F)) (visit (on_text G))"
proof -
  have head: "fst (on_text F s b x) = fst (on_text G t b' x)" for s t b b' x by (simp add: on_text_def assms)
  have "same_values (visit_sub (on_text F) b) (visit_sub (on_text G) b)" for b
    by (auto simp: same_values_def visit_sub_def split_def Let_def split: pyval.splits option.splits
        intro!: arg_cong [where f = "\<lambda>v. dset _ v _"] head)
  note subs = same_values_thread [OF this, unfolded same_values_def, rule_format]
  have "same_values (visit_block (on_text F)) (visit_block (on_text G))"
    by (auto simp: same_values_def visit_block_def split_def Let_def simp del: lookup.simps
        split: pyval.splits option.splits intro!: arg_cong [where f = "\<lambda>v. dset _ v _"] head subs)
  note blocks = same_values_thread [OF this, unfolded same_values_def, rule_format]
  have "same_values (visit_message (on_text F)) (visit_message (on_text G))"
    by (auto simp: same_values_def visit_message_def split_def Let_def simp del: lookup.simps
        split: pyval.splits option.splits intro!: arg_cong [where f = "\<lambda>v. dset _ v _"] blocks)
  then show ?thesis unfolding visit_def by (rule same_values_thread)
qed

lemma blanked_visit: "blanked (fst (visit (on_text G) s ms)) = blanked ms"
proof -
  define E :: "unit \<Rightarrow> pystr \<Rightarrow> pystr \<times> unit" where "E = (\<lambda>_ _. ([], ()))"
  define H where "H = (\<lambda>(s, z) t. let (y, s') = G s t; (w, z') = E z y in (w, (s', z')))"
  have th: "then_visit (on_text G) E = on_text H"
    by (intro ext) (simp add: then_visit_def on_text_def H_def split_def)
  have blank: "blanked xs = fst (visit (on_text E) () xs)" for xs
    by (simp add: blanked_def rewrite_def on_text_def E_def)
  have "blanked (fst (visit (on_text G) s ms)) = fst (visit (on_text H) (s, ()) ms)"
    unfolding blank using visit_visit [of "on_text G" E s "()" ms] unfolding th by simp
  also have "\<dots> = fst (visit (on_text E) () ms)"
    using same_values_visit [of H E] by (simp add: same_values_def H_def E_def split_def)
  finally show ?thesis by (simp only: blank)
qed

section \<open>Repeated texts\<close>

definition large :: "pystr \<Rightarrow> bool" where
  "large t \<longleftrightarrow> DEDUP_MIN_CHARS < length t"

text \<open>The positions of the large texts with a given hash.\<close>

definition places :: "hash \<Rightarrow> pystr list \<Rightarrow> pystr \<Rightarrow> nat list" where
  "places sha ts h = filter (\<lambda>i. large (ts ! i) \<and> doc_hash sha (ts ! i) = h) [0..<length ts]"

lemma places_snoc:
  "places sha (ts @ [t]) h = places sha ts h @ (if large t \<and> doc_hash sha t = h then [length ts] else [])"
  by (auto simp: places_def nth_append intro: filter_cong)

lemma in_places: "i \<in> set (places sha ts h) \<longleftrightarrow> i < length ts \<and> large (ts ! i) \<and> doc_hash sha (ts ! i) = h"
  by (auto simp: places_def)

lemma places_ascend: "sorted_wrt (<) (places sha ts h)"
  unfolding places_def by (intro sorted_wrt_filter) simp

lemma occurrences_snoc:
  "occurrences sha (ts @ [t]) = record_occurrence sha (length ts) t (occurrences sha ts)"
  by (simp add: occurrences_def enumerate_append_eq)

lemma occurrences_places:
  "map_of (occurrences sha ts) = (\<lambda>h. if places sha ts h = [] then None else Some (places sha ts h))
    \<and> distinct (map fst (occurrences sha ts))"
proof (induction ts rule: rev_induct)
  case Nil
  then show ?case by (simp add: occurrences_def places_def)
next
  case (snoc t ts)
  have "map_of (occurrences sha (ts @ [t])) h = (if places sha (ts @ [t]) h = [] then None else Some (places sha (ts @ [t]) h))"
    for h
    by (simp add: occurrences_snoc places_snoc large_def map_of_od_set snoc.IH del: map_of_eq_Some_iff)
  moreover have "distinct (map fst (occurrences sha (ts @ [t])))"
    by (simp add: occurrences_snoc distinct_od_set snoc.IH)
  ultimately show ?case by blast
qed

lemma in_occurrences: "(h, xs) \<in> set (occurrences sha ts) \<longleftrightarrow> xs = places sha ts h \<and> xs \<noteq> []"
proof -
  have "(h, xs) \<in> set (occurrences sha ts) \<longleftrightarrow> map_of (occurrences sha ts) h = Some xs"
    using map_of_eq_Some_iff [OF conjunct2 [OF occurrences_places]] by metis
  then show ?thesis using occurrences_places [of sha ts] by (auto simp del: map_of_eq_Some_iff split: if_splits)
qed

lemma in_replacements:
  "(i, p) \<in> set (replacements sha ts) \<longleftrightarrow> (\<exists>h. i \<in> set (butlast (places sha ts h)) \<and> p = placeholder h)"
  by (fastforce simp: replacements_def in_occurrences)

lemma butlast_less_last: "sorted_wrt (<) xs \<Longrightarrow> x \<in> set (butlast xs) \<Longrightarrow> (x :: nat) < last xs"
  by (cases xs rule: rev_cases) (auto simp: sorted_wrt_append)

text \<open>A position is rewritten exactly when a later one holds a large text of the same hash.\<close>

lemma replaced_at:
  "map_of (replacements sha ts) i = Some p \<Longrightarrow>
     \<exists>j>i. j < length ts \<and> i < length ts \<and> large (ts ! i) \<and> large (ts ! j) \<and> doc_hash sha (ts ! j) = doc_hash sha (ts ! i)
       \<and> p = placeholder (doc_hash sha (ts ! j)) \<and> map_of (replacements sha ts) j = None"
proof -
  assume "map_of (replacements sha ts) i = Some p"
  then obtain h where h: "i \<in> set (butlast (places sha ts h))" and p: "p = placeholder h"
    using in_replacements map_of_SomeD by fast
  define j where "j = last (places sha ts h)"
  have j: "j \<in> set (places sha ts h)" using h by (cases "places sha ts h" rule: rev_cases) (auto simp: j_def)
  have i: "i \<in> set (places sha ts h)" using h by (rule in_set_butlastD)
  have "j \<notin> set (butlast (places sha ts h'))" for h'
  proof
    assume j': "j \<in> set (butlast (places sha ts h'))"
    then have "h' = h" using in_set_butlastD [OF j'] j by (simp add: in_places)
    then show False using butlast_less_last [OF places_ascend] j' by (auto simp: j_def)
  qed
  then have "j \<notin> fst ` set (replacements sha ts)" using in_replacements by fastforce
  moreover have "i < j" unfolding j_def by (rule butlast_less_last [OF places_ascend h])
  ultimately show ?thesis using i j p by (auto simp: in_places map_of_eq_None_iff)
qed


definition collapsed_text :: "(nat \<times> pystr) list \<Rightarrow> nat \<Rightarrow> pystr \<Rightarrow> pystr" where
  "collapsed_text rs i t = (case map_of rs i of None \<Rightarrow> t | Some p \<Rightarrow> p)"

lemma foldl_positions:
  "foldl (\<lambda>(i, seen) t. (i + 1, seen @ [f i t])) (k, seen) ts
     = (k + length ts, seen @ map (\<lambda>(i, t). f i t) (enumerate k ts))"
  by (induction ts arbitrary: k seen) simp_all

lemma collapse_visit:
  "collapse_repeated sha ms = Inr out \<Longrightarrow>
     out = fst (visit (on_text (\<lambda>i t. (collapsed_text (replacements sha (texts_of ms)) i t, i + 1))) 0 ms)"
  by (simp add: collapse_repeated_def Let_def on_text_def collapsed_text_def split: if_splits)

lemma collapse_texts:
  assumes "collapse_repeated sha ms = Inr out"
  shows "texts_of out = map (\<lambda>(i, t). collapsed_text (replacements sha (texts_of ms)) i t) (enumerate 0 (texts_of ms))"
  unfolding collapse_visit [OF assms] texts_of_visit
  using foldl_positions [of "collapsed_text (replacements sha (texts_of ms))" 0 "[]" "texts_of ms"]
  by (simp add: split_def)

lemma collapse_text_at:
  assumes "collapse_repeated sha ms = Inr out" "i < length (texts_of ms)"
  shows "texts_of out ! i = collapsed_text (replacements sha (texts_of ms)) i (texts_of ms ! i)"
  using assms by (simp add: collapse_texts nth_enumerate_eq)

lemma thread_id: "(\<And>s x. fst (h s x) = x) \<Longrightarrow> fst (thread h s xs) = xs"
  by (induction xs arbitrary: s) (simp_all add: split_def Let_def)

lemma visit_id:
  assumes "\<And>s t. fst (G s t) = t"
  shows "fst (visit (on_text G) s ms) = ms"
proof -
  have sub: "fst (visit_sub (on_text G) b s v) = v" for b s v
    by (auto simp: visit_sub_def on_text_def assms split_def Let_def dset_same simp del: lookup.simps split: pyval.splits option.splits)
  have block: "fst (visit_block (on_text G) s v) = v" for s v
    by (auto simp: visit_block_def assms thread_id [OF sub] split_def Let_def dset_same on_text_def [of G, THEN fun_cong, THEN fun_cong]
        simp del: lookup.simps split: pyval.splits option.splits)
  have "fst (visit_message (on_text G) s v) = v" for s v
    by (auto simp: visit_message_def thread_id [OF block] split_def Let_def dset_same simp del: lookup.simps
        split: pyval.splits option.splits)
  then show ?thesis unfolding visit_def by (rule thread_id)
qed

lemma placeholder_small: "\<not> large (placeholder h)"
  by (simp add: large_def placeholder_def DEDUP_MIN_CHARS_def u_def)

lemma unreplaced_is_last:
  "i < length ts \<Longrightarrow> large (ts ! i) \<Longrightarrow> map_of (replacements sha ts) i = None \<Longrightarrow>
     i < j \<Longrightarrow> j < length ts \<Longrightarrow> large (ts ! j) \<Longrightarrow> doc_hash sha (ts ! j) \<noteq> doc_hash sha (ts ! i)"
proof
  define h where "h = doc_hash sha (ts ! i)"
  assume "i < length ts" "large (ts ! i)" and none: "map_of (replacements sha ts) i = None"
    and "i < j" "j < length ts" "large (ts ! j)" "doc_hash sha (ts ! j) = doc_hash sha (ts ! i)"
  then have ij: "i \<in> set (places sha ts h)" "j \<in> set (places sha ts h)" by (auto simp: in_places h_def)
  then obtain xs l where xs: "places sha ts h = xs @ [l]" by (cases "places sha ts h" rule: rev_cases) auto
  have "i \<noteq> l" using ij \<open>i < j\<close> places_ascend [of sha ts h] unfolding xs by (auto simp: sorted_wrt_append)
  then have "i \<in> set (butlast (places sha ts h))" using ij xs by simp
  then have "(i, placeholder h) \<in> set (replacements sha ts)" by (auto simp: in_replacements)
  then show False using none by (force simp: map_of_eq_None_iff)
qed

lemma collapse_twice:
  assumes "collapse_repeated sha ms = Inr out"
  shows "collapse_repeated sha out = Inr out"
proof -
  define ts where "ts = texts_of ms"
  have len: "length (texts_of out) = length ts" by (simp add: ts_def collapse_texts [OF assms])
  have kept: "texts_of out ! i = ts ! i \<and> map_of (replacements sha ts) i = None" if "i < length ts" "large (texts_of out ! i)" for i
    using collapse_text_at [OF assms, of i] that placeholder_small replaced_at [of sha ts i]
    by (auto simp: ts_def collapsed_text_def split: option.splits)
  have "butlast (places sha (texts_of out) h) = []" for h
  proof (rule ccontr)
    assume more: "butlast (places sha (texts_of out) h) \<noteq> []"
    define i where "i = hd (butlast (places sha (texts_of out) h))"
    define j where "j = last (places sha (texts_of out) h)"
    have i: "i \<in> set (butlast (places sha (texts_of out) h))" using more by (simp add: i_def)
    have j: "j \<in> set (places sha (texts_of out) h)" using more by (cases "places sha (texts_of out) h") (auto simp: j_def)
    have "i < j" unfolding j_def by (rule butlast_less_last [OF places_ascend i])
    then show False
      using unreplaced_is_last [of i ts sha j] kept in_set_butlastD [OF i] j by (simp add: in_places len)
  qed
  then have "set (replacements sha (texts_of out)) = {}" using in_replacements by (metis empty_iff equals0I list.set(1) prod.exhaust)
  then have none: "replacements sha (texts_of out) = []" by simp
  have "\<not> list_ex (\<lambda>t. length t > DEDUP_MIN_CHARS \<and> list_ex surrogate t) (texts_of out)"
  proof
    assume "list_ex (\<lambda>t. length t > DEDUP_MIN_CHARS \<and> list_ex surrogate t) (texts_of out)"
    then obtain i where "i < length ts" "large (texts_of out ! i)" "list_ex surrogate (texts_of out ! i)"
      by (auto simp: list_ex_length large_def len)
    then have "list_ex (\<lambda>t. length t > DEDUP_MIN_CHARS \<and> list_ex surrogate t) ts"
      using kept [of i] by (auto simp: list_ex_length large_def)
    then show False using assms by (simp add: collapse_repeated_def Let_def ts_def split: if_splits)
  qed
  then show ?thesis
    using visit_id [of "\<lambda>i t. (t, Suc i)" 0 out] by (simp add: collapse_repeated_def Let_def none on_text_def)
qed

text \<open>
  C30: collapsing repeated tool output loses nothing. The pass changes texts of tool results only; each of
  them is kept, or was large and gives way to the notice that the same output appears in full later in the request, and
  it does: at a later position the same text stands in full in the request that is sent, unless two of the texts are a
  collision of the hash. Running the pass again changes nothing.
\<close>

theorem collapsed_output_stands_later:
  assumes "collapse_repeated sha ms = Inr out" "list_all str_ok (texts_of ms)"
  shows "blanked out = blanked ms \<and> length (texts_of out) = length (texts_of ms) \<and> collapse_repeated sha out = Inr out
    \<and> (collision_on sha (utf8 ` set (texts_of ms))
       \<or> (\<forall>i. i < length (texts_of ms) \<longrightarrow>
             texts_of out ! i = texts_of ms ! i
             \<or> (\<exists>j>i. j < length (texts_of out) \<and> texts_of out ! j = texts_of ms ! i
                  \<and> texts_of out ! i = placeholder (doc_hash sha (texts_of ms ! i)) \<and> DEDUP_MIN_CHARS < length (texts_of ms ! i))))"
proof -
  define ts where "ts = texts_of ms"
  have len: "length (texts_of out) = length ts" by (simp add: ts_def collapse_texts [OF assms(1)])
  have at: "texts_of out ! i = collapsed_text (replacements sha ts) i (ts ! i)" if "i < length ts" for i
    using collapse_text_at [OF assms(1)] that by (simp add: ts_def)
  have same: "ts ! j = ts ! i \<or> collision_on sha (utf8 ` set ts)"
    if "doc_hash sha (ts ! j) = doc_hash sha (ts ! i)" "i < length ts" "j < length ts" for i j
  proof (cases "utf8 (ts ! j) = utf8 (ts ! i)")
    case True
    have "str_ok (ts ! i)" "str_ok (ts ! j)" using assms(2) that by (simp_all add: list_all_length ts_def)
    then show ?thesis using utf8_inject True by blast
  next
    case False
    have "utf8 (ts ! i) \<in> utf8 ` set ts" "utf8 (ts ! j) \<in> utf8 ` set ts" using that by simp_all
    moreover have "sha (utf8 (ts ! j)) = sha (utf8 (ts ! i))" using that(1) by (simp add: doc_hash_def hex_inject)
    ultimately show ?thesis using False unfolding collision_on_def by blast
  qed
  have "texts_of out ! i = ts ! i
      \<or> (\<exists>j>i. j < length (texts_of out) \<and> texts_of out ! j = ts ! i
           \<and> texts_of out ! i = placeholder (doc_hash sha (ts ! i)) \<and> DEDUP_MIN_CHARS < length (ts ! i))"
    if i: "i < length ts" and sound: "\<not> collision_on sha (utf8 ` set ts)" for i
  proof (cases "map_of (replacements sha ts) i")
    case None
    then show ?thesis using at [OF i] by (simp add: collapsed_text_def)
  next
    case (Some p)
    obtain j where j: "i < j" "j < length ts" "large (ts ! i)" "doc_hash sha (ts ! j) = doc_hash sha (ts ! i)"
      "p = placeholder (doc_hash sha (ts ! j))" "map_of (replacements sha ts) j = None"
      using replaced_at [OF Some] by blast
    have "ts ! j = ts ! i" using same [OF j(4) i j(2)] sound by blast
    then show ?thesis using at [OF i] at [OF j(2)] j Some len
      by (intro disjI2 exI [of _ j]) (simp add: collapsed_text_def large_def)
  qed
  moreover have "blanked out = blanked ms"
    unfolding collapse_visit [OF assms(1)] by (rule blanked_visit)
  moreover note collapse_twice [OF assms(1)]
  ultimately show ?thesis using len unfolding ts_def by blast
qed



section \<open>Truncation\<close>

lemma join_split: "join_lines (split_lines t) = t"
proof (induction t)
  case (Cons c t)
  then show ?case by (cases "split_lines t" rule: join_lines.cases) auto
qed simp

lemma split_lines_nonempty: "split_lines t \<noteq> []"
  by (induction t) (auto split: list.splits)

text \<open>
  the truncation of log output is no bound on its size. A log of at most 25 lines each of which names an error is
  kept in full however long it is, and grows by the notice.
\<close>

theorem log_truncation_can_grow:
  assumes "1200 < length t" "length (split_lines t) \<le> 25" "list_all error_line (split_lines t)"
  shows "truncate_log_like t = t @ log_notice"
proof -
  have "filter error_line (split_lines t) = split_lines t" using assms(3) by (simp add: list_all_iff)
  moreover have "last_n 25 (split_lines t) = split_lines t" using assms(2) by (simp add: last_n_def)
  ultimately show ?thesis using assms(1) by (simp add: truncate_log_like_def Let_def join_split split_lines_nonempty)
qed

theorem log_truncation_can_grow_witness:
  "truncate_log_like (u ''ERROR'' @ replicate 1200 65) = (u ''ERROR'' @ replicate 1200 65) @ log_notice"
proof (rule log_truncation_can_grow)
  have one: "split_lines (u ''ERROR'' @ replicate n 65) = [u ''ERROR'' @ replicate n 65]" for n
  proof -
    have "split_lines (replicate n 65) = [replicate n 65]" by (induction n) simp_all
    then show ?thesis by (simp add: u_def)
  qed
  show "1200 < length (u ''ERROR'' @ replicate 1200 65)" by (simp add: u_def)
  show "length (split_lines (u ''ERROR'' @ replicate 1200 65)) \<le> 25" unfolding one by simp
  have "infix_of p (p @ t)" for p t by (auto simp: infix_of_def list_ex_iff intro!: bexI [of _ 0])
  then show "list_all error_line (split_lines (u ''ERROR'' @ replicate 1200 65))"
    unfolding one by (simp add: error_line_def)
qed

section \<open>Concrete bodies\<close>

definition small_body :: object where
  "small_body = [(key_str ''system'', PStr (u ''be brief'')), (key_str ''tools'', PSeq [PDict [(key_str ''name'', PStr (u ''Read''))]])]"

definition marked_body :: object where
  "marked_body =
     [(key_str ''system'', marked_text (u ''be brief'')),
      (key_str ''tools'', PSeq [PDict [(key_str ''name'', PStr (u ''Read'')), (key_str ''cache_control'', ephemeral)]])]"

lemma small_body_marked: "inject small_body = Inr marked_body"
  by (simp add: inject_def small_body_def marked_body_def mark_system_def mark_tools_def mark_last_def mark_def dget_def
      put_field_def dset_def key_str_def OUR_CACHE_CONTROL_BUDGET_def)

theorem inject_within_budget_witness:
  "count_markers (PDict marked_body) \<le> OUR_CACHE_CONTROL_BUDGET \<and> inject marked_body = Inr marked_body"
proof -
  have "count_markers (PDict small_body) = 0" by (simp add: small_body_def key_str_def)
  then show ?thesis using inject_within_budget [OF small_body_marked] by (simp only: if_False less_irrefl)
qed

definition file_text :: pystr where
  "file_text = replicate 2001 65"

definition result_block :: "pystr \<Rightarrow> pyval" where
  "result_block t = PDict [(key_str ''type'', PStr (u ''tool_result'')), (key_str ''content'', PStr t)]"

definition user_turn :: "pyval list \<Rightarrow> pyval" where
  "user_turn blocks = PDict [(key_str ''role'', PStr (u ''user'')), (key_str ''content'', PSeq blocks)]"

lemma texts_two: "texts_of [user_turn [result_block s, result_block t]] = [s, t]"
  by (simp add: texts_of_def visit_def visit_message_def visit_block_def user_turn_def result_block_def dget_def key_str_def)

lemma collapse_two:
  "collapse_repeated sha [user_turn [result_block file_text, result_block file_text]]
     = Inr [user_turn [result_block (placeholder (doc_hash sha file_text)), result_block file_text]]"
proof -
  have long: "length file_text = 2001" and plain: "\<not> list_ex surrogate file_text"
    by (simp_all add: file_text_def list_ex_iff surrogate_def)
  have "occurrences sha [file_text, file_text] = [(doc_hash sha file_text, [0, 1])]"
    by (simp add: occurrences_def long DEDUP_MIN_CHARS_def)
  then have "replacements sha [file_text, file_text] = [(0, placeholder (doc_hash sha file_text))]"
    by (simp add: replacements_def)
  then have "collapse_repeated sha [user_turn [result_block file_text, result_block file_text]]
      = Inr (fst (visit (\<lambda>i block t. (case map_of [(0, placeholder (doc_hash sha file_text))] i of None \<Rightarrow> t | Some p \<Rightarrow> p, Suc i)) 0
          [user_turn [result_block file_text, result_block file_text]]))"
    by (simp add: collapse_repeated_def texts_two plain)
  then show ?thesis
    by (simp add: visit_def visit_message_def visit_block_def user_turn_def result_block_def dget_def dset_def key_str_def)
qed

theorem collapsed_output_stands_later_witness:
  "blanked [user_turn [result_block (placeholder (doc_hash id file_text)), result_block file_text]]
     = blanked [user_turn [result_block file_text, result_block file_text]]"
proof -
  have "str_ok file_text" by (simp add: str_ok_def file_text_def list_all_iff)
  then have "list_all str_ok (texts_of [user_turn [result_block file_text, result_block file_text]])" by (simp add: texts_two)
  from collapsed_output_stands_later [OF collapse_two this] show ?thesis by (rule conjunct1)
qed

end
