(* ===== verification/Pipeline.thy ===== *)
theory Pipeline
  imports Messages Router Semantic_Cache
begin

text \<open>
  \<open>context.py\<close>, \<open>pipeline.py\<close>, \<open>middleware.py\<close> and \<open>events.py\<close>: the context a request carries, stages
  that run in order against it, middleware around them and the bus that reports what happens.

  Stages and middleware change the context in place, so an execution state holds the context, the trace of what was
  reported and a world \<open>'w\<close> (caches, providers, clocks); an action runs on it and may raise. A context keeps its
  changes when an action raises. \<open>Byo\<close> is an error of the runtime's own hierarchy, \<open>Foreign\<close> any other
  \<open>Exception\<close>, \<open>Cancel\<close> a \<open>BaseException\<close> (a cancelled task), which \<open>except Exception\<close> lets through. What a
  subscriber does to a context it is shown, and the \<open>metadata\<close> and further \<open>state\<close> entries of an application, are
  not modelled.
\<close>

section \<open>Errors and contexts\<close>

datatype byo_error =
    ConfigurationError pystr
  | PipelineError pystr pystr
  | PipelineNotFound pystr
  | AllProvidersFailed "provider_error list"
  | ProviderFailed provider_error
  | CacheFailed pystr
  | OtherByoError pystr

datatype exn = Byo byo_error | Foreign foreign_error | Cancel foreign_error

record document =
  dc_id :: pystr
  dc_content :: pystr

record request_context =
  rc_input :: raw_input
  rc_pipeline :: pystr
  rc_request_id :: pystr
  rc_session :: "pystr option"
  rc_user :: "pystr option"
  rc_system :: "pystr option"
  rc_messages :: "message list"
  rc_documents :: "document list"
  rc_response :: "pystr option"
  rc_model :: pyval
  rc_provider :: pyval
  rc_finish :: pyval
  rc_raw :: pyval
  rc_usage :: usage
  rc_cached :: bool
  rc_short :: bool
  rc_streaming :: bool
  rc_cache_key :: "pystr option"
  rc_embedding :: "embedding option"
  rc_options :: "(pykey \<times> pyval) list option"
  rc_filters :: "pyval option"
  rc_score :: "pyfloat option"

definition new_context :: "raw_input \<Rightarrow> pystr \<Rightarrow> pystr \<Rightarrow> pystr option \<Rightarrow> pystr option \<Rightarrow> request_context" where
  "new_context input pipeline rid session user =
     \<lparr>rc_input = input, rc_pipeline = pipeline, rc_request_id = rid, rc_session = session, rc_user = user, rc_system = None,
      rc_messages = [], rc_documents = [], rc_response = None, rc_model = PNone, rc_provider = PNone, rc_finish = PNone,
      rc_raw = PNone, rc_usage = no_usage, rc_cached = False, rc_short = False, rc_streaming = False, rc_cache_key = None,
      rc_embedding = None, rc_options = None, rc_filters = None, rc_score = None\<rparr>"

definition short_circuit :: "pystr \<Rightarrow> bool \<Rightarrow> request_context \<Rightarrow> request_context" where
  "short_circuit response cached c = c\<lparr>rc_response := Some response, rc_cached := cached, rc_short := True\<rparr>"

section \<open>Reported events\<close>

text \<open>\<open>Yield\<close> is a chunk handed to the consumer of a stream; its last component is set on the final frame only.\<close>

datatype lifecycle =
    RequestReceived | RequestCompleted | RequestFailed | ResponseStreamed
  | StageStarted pystr | StageCompleted pystr
  | CacheHit pystr | CacheMiss pystr
  | SemanticHit pyfloat | SemanticMiss | SemanticError exn
  | VectorRetrieved nat
  | Routed emitted
  | Yield stream_chunk "(bool \<times> pystr) option"

record 'w execution =
  ex_ctx :: request_context
  ex_trace :: "lifecycle list"
  ex_world :: 'w

type_synonym 'w effect = "'w execution \<Rightarrow> exn option \<times> 'w execution"

definition report :: "lifecycle \<Rightarrow> 'w execution \<Rightarrow> 'w execution" where
  "report e s = s\<lparr>ex_trace := ex_trace s @ [e]\<rparr>"

definition on_ctx :: "(request_context \<Rightarrow> request_context) \<Rightarrow> 'w execution \<Rightarrow> 'w execution" where
  "on_ctx f s = s\<lparr>ex_ctx := f (ex_ctx s)\<rparr>"

definition and_then :: "'w effect \<Rightarrow> 'w effect \<Rightarrow> 'w effect" where
  "and_then f g s = (case f s of (Some e, s') \<Rightarrow> (Some e, s') | (None, s') \<Rightarrow> g s')"

section \<open>The event bus\<close>

text \<open>
  A subscription is a pattern, the subscriber and whether its failure is an \<open>Exception\<close> (\<open>None\<close> is a handler that returns).
  \<open>glob\<close> is \<open>fnmatch.fnmatchcase\<close>. \<open>bus_emit\<close> gives the calls made, the failures reported to the error handler, and the
  \<open>BaseException\<close> that ends it, if any.
\<close>

record 'h bus =
  eb_handlers :: "(pystr \<times> 'h list) list"
  eb_wildcards :: "(pystr \<times> 'h list) list"

definition subscribe_in :: "pystr \<Rightarrow> 'h \<Rightarrow> (pystr \<times> 'h list) list \<Rightarrow> (pystr \<times> 'h list) list" where
  "subscribe_in event h reg = od_set event ((case map_of reg event of None \<Rightarrow> [] | Some hs \<Rightarrow> hs) @ [h]) reg"

definition has_star :: "pystr \<Rightarrow> bool" where
  "has_star event \<longleftrightarrow> 42 \<in> set event"

definition subscribe :: "pystr \<Rightarrow> 'h \<Rightarrow> 'h bus \<Rightarrow> 'h bus" where
  "subscribe event h b =
     (if has_star event then b\<lparr>eb_wildcards := subscribe_in event h (eb_wildcards b)\<rparr>
      else b\<lparr>eb_handlers := subscribe_in event h (eb_handlers b)\<rparr>)"

text \<open>\<open>registry[event].remove(handler)\<close>: the registry is a \<open>defaultdict\<close>, so an unknown name gains an empty entry.\<close>

definition unsubscribe_in :: "pystr \<Rightarrow> 'h \<Rightarrow> (pystr \<times> 'h list) list \<Rightarrow> (pystr \<times> 'h list) list" where
  "unsubscribe_in event h reg = od_set event (remove1 h (case map_of reg event of None \<Rightarrow> [] | Some hs \<Rightarrow> hs)) reg"

definition unsubscribe :: "pystr \<Rightarrow> 'h \<Rightarrow> 'h bus \<Rightarrow> 'h bus" where
  "unsubscribe event h b =
     (if has_star event then b\<lparr>eb_wildcards := unsubscribe_in event h (eb_wildcards b)\<rparr>
      else b\<lparr>eb_handlers := unsubscribe_in event h (eb_handlers b)\<rparr>)"

definition listeners :: "(pystr \<Rightarrow> pystr \<Rightarrow> bool) \<Rightarrow> pystr \<Rightarrow> 'h bus \<Rightarrow> 'h list" where
  "listeners glob event b =
     (case map_of (eb_handlers b) event of None \<Rightarrow> [] | Some hs \<Rightarrow> hs)
       @ concat (map snd (filter (\<lambda>(pattern, _). glob event pattern) (eb_wildcards b)))"

fun call_all :: "('h \<Rightarrow> exn option) \<Rightarrow> 'h list \<Rightarrow> 'h list \<times> ('h \<times> exn) list \<times> exn option" where
  "call_all call [] = ([], [], None)"
| "call_all call (h # hs) =
     (case call h of
        Some (Cancel x) \<Rightarrow> ([h], [], Some (Cancel x))
      | r \<Rightarrow>
          (let (called, failed, ended) = call_all call hs
           in (h # called, (case r of None \<Rightarrow> failed | Some e \<Rightarrow> (h, e) # failed), ended)))"

definition bus_emit :: "(pystr \<Rightarrow> pystr \<Rightarrow> bool) \<Rightarrow> ('h \<Rightarrow> exn option) \<Rightarrow> pystr \<Rightarrow> 'h bus \<Rightarrow> 'h list \<times> ('h \<times> exn) list \<times> exn option" where
  "bus_emit glob call event b = call_all call (listeners glob event b)"

section \<open>Pipelines\<close>

text \<open>A stage: its \<open>name\<close> attribute, if it has one, its class and the classes that one derives from, and what it does.\<close>

record 'w stage =
  st_name :: "pystr option"
  st_classes :: "pystr list"
  st_run :: "'w effect"

record 'w pipeline =
  pl_name :: pystr
  pl_stages :: "'w stage list"

definition new_pipeline :: "pystr \<Rightarrow> 'w pipeline" where
  "new_pipeline name = \<lparr>pl_name = name, pl_stages = []\<rparr>"

text \<open>\<open>fn_name\<close> is the \<open>__name__\<close> of the function, if it has one.\<close>

definition function_stage :: "pystr option \<Rightarrow> pystr option \<Rightarrow> 'w effect \<Rightarrow> 'w stage" where
  "function_stage name fn_name run =
     \<lparr>st_name = Some (case name of
          Some n \<Rightarrow> if n \<noteq> [] then n else (case fn_name of Some m \<Rightarrow> m | None \<Rightarrow> u ''function_stage'')
        | None \<Rightarrow> (case fn_name of Some m \<Rightarrow> m | None \<Rightarrow> u ''function_stage'')),
      st_classes = [u ''FunctionStage''], st_run = run\<rparr>"

definition add_stage :: "'w stage + (pystr option \<times> 'w effect) \<Rightarrow> 'w pipeline \<Rightarrow> 'w pipeline" where
  "add_stage what p =
     p\<lparr>pl_stages := pl_stages p @ [case what of Inl s \<Rightarrow> s | Inr (fn_name, run) \<Rightarrow> function_stage None fn_name run]\<rparr>"

definition stage_matches :: "pystr option \<Rightarrow> pystr option \<Rightarrow> 'w stage \<Rightarrow> bool" where
  "stage_matches ty name s \<longleftrightarrow>
     (case ty of None \<Rightarrow> True | Some c \<Rightarrow> c \<in> set (st_classes s)) \<and> (case name of None \<Rightarrow> True | Some n \<Rightarrow> st_name s = Some n)"

definition remove_stages :: "pystr option \<Rightarrow> pystr option \<Rightarrow> 'w pipeline \<Rightarrow> exn + 'w pipeline" where
  "remove_stages ty name p =
     (if ty = None \<and> name = None then Inl (Byo (ConfigurationError (u ''Pipeline.remove() requires stage_type and/or name='')))
      else Inr (p\<lparr>pl_stages := filter (\<lambda>s. \<not> stage_matches ty name s) (pl_stages p)\<rparr>))"

definition replace_stages :: "pystr option \<Rightarrow> 'w stage option \<Rightarrow> pystr option \<Rightarrow> 'w pipeline \<Rightarrow> exn + 'w pipeline" where
  "replace_stages ty replacement name p =
     (if ty = None \<and> name = None then Inl (Byo (ConfigurationError (u ''Pipeline.replace() requires stage_type and/or name='')))
      else
        (case replacement of
           None \<Rightarrow> Inl (Byo (ConfigurationError (u ''Pipeline.replace() requires replacement='')))
         | Some r \<Rightarrow> Inr (p\<lparr>pl_stages := map (\<lambda>s. if stage_matches ty name s then r else s) (pl_stages p)\<rparr>)))"

definition stage_name :: "'w stage \<Rightarrow> pystr" where
  "stage_name s = (case st_name s of Some n \<Rightarrow> n | None \<Rightarrow> (case st_classes s of c # _ \<Rightarrow> c | [] \<Rightarrow> []))"

definition wrap_error :: "pystr \<Rightarrow> exn \<Rightarrow> exn" where
  "wrap_error name e = (case e of Foreign x \<Rightarrow> Byo (PipelineError name x) | _ \<Rightarrow> e)"

fun run_stages :: "'w stage list \<Rightarrow> 'w effect" where
  "run_stages [] s = (None, s)"
| "run_stages (st # sts) s =
     (if rc_short (ex_ctx s) then (None, s)
      else
        (case st_run st (report (StageStarted (stage_name st)) s) of
           (Some e, s') \<Rightarrow> (Some (wrap_error (stage_name st) e), s')
         | (None, s') \<Rightarrow> run_stages sts (report (StageCompleted (stage_name st)) s')))"

definition execute_pipeline :: "'w pipeline \<Rightarrow> 'w effect" where
  "execute_pipeline p = run_stages (pl_stages p)"

section \<open>Middleware\<close>

text \<open>A middleware may run before and after the rest, skip it or repeat it.\<close>

type_synonym 'w middleware = "'w effect \<Rightarrow> 'w effect"

definition pass_through :: "'w middleware" where
  "pass_through call_next = call_next"

definition execute_chain :: "'w middleware list \<Rightarrow> 'w effect \<Rightarrow> 'w effect" where
  "execute_chain ms terminal = foldr (\<lambda>m call. m call) ms terminal"

end
