(* ===== verification/Runtime.thy ===== *)
theory Runtime
  imports Pipeline Wire_Stages
begin

text \<open>
  The stages of \<open>stages.py\<close> that use the caches, the vector store and the providers, and \<open>Runtime\<close> of
  \<open>runtime.py\<close>: \<open>execute\<close>, \<open>stream\<close> and the write-back of answers.

  What a request uses beside its context is a record of operations on a world: the exact-match cache, its reader of
  session histories, the embedder, the semantic cache, the vector store and the provider router. Each may raise.
  \<open>repr\<close> is \<open>str()\<close> of a value that is no string, \<open>dumps\<close> is \<open>json.dumps(..., sort_keys=True, default=str)\<close>,
  \<open>None\<close> where it raises.
\<close>

section \<open>What a request uses\<close>

record 'w services =
  sv_get :: "pystr \<Rightarrow> 'w \<Rightarrow> (exn + pyval) \<times> 'w"
  sv_set :: "pystr \<Rightarrow> pyval \<Rightarrow> 'w \<Rightarrow> exn option \<times> 'w"
  sv_session :: "(pystr \<times> pystr) list \<Rightarrow> 'w \<Rightarrow> (exn + history) \<times> 'w"
  sv_embed :: "pystr \<Rightarrow> 'w \<Rightarrow> (exn + embedding) \<times> 'w"
  sv_find :: "embedding \<Rightarrow> pyfloat \<Rightarrow> 'w \<Rightarrow> (exn + (pystr \<times> pyfloat) option) \<times> 'w"
  sv_add :: "embedding \<Rightarrow> pystr \<Rightarrow> 'w \<Rightarrow> exn option \<times> 'w"
  sv_search :: "embedding \<Rightarrow> int \<Rightarrow> pyval \<Rightarrow> 'w \<Rightarrow> (exn + document list) \<times> 'w"
  sv_complete :: "message list \<Rightarrow> (pykey \<times> pyval) list \<Rightarrow> 'w \<Rightarrow> (exn + provider_response) \<times> emitted list \<times> 'w"
  sv_stream :: "message list \<Rightarrow> (pykey \<times> pyval) list \<Rightarrow> 'w \<Rightarrow> exn option \<times> emitted list \<times> 'w"

definition in_world :: "('w \<Rightarrow> 'r \<times> 'w) \<Rightarrow> 'w execution \<Rightarrow> 'r \<times> 'w execution" where
  "in_world f s = (case f (ex_world s) of (r, w) \<Rightarrow> (r, s\<lparr>ex_world := w\<rparr>))"

section \<open>Resolving the messages\<close>

definition message_exn :: "message_error \<Rightarrow> exn" where
  "message_exn e =
     (case e of
        CannotNormalize \<Rightarrow> Byo (ConfigurationError (u ''cannot normalize input''))
      | BadToolCalls \<Rightarrow> Foreign (u ''TypeError''))"

text \<open>The reader of histories is asked only where the code asks it.\<close>

definition resolver_params ::
  "resolver \<Rightarrow> (request_context \<Rightarrow> (pystr \<times> pystr) list) option \<Rightarrow> request_context \<Rightarrow> (pystr \<times> pystr) list option" where
  "resolver_params rv hook c =
     (if \<not> rv_has_cache rv \<or> rv_max_history rv \<le> 0 then None
      else session_params (map_option (\<lambda>f. f c) hook) (rc_user c) (rc_session c))"

definition resolve_context ::
  "(pyval \<Rightarrow> pystr) \<Rightarrow> 'w services \<Rightarrow> resolver \<Rightarrow> (request_context \<Rightarrow> (pystr \<times> pystr) list) option \<Rightarrow> 'w effect" where
  "resolve_context repr sv rv hook s =
     (let c = ex_ctx s; ps = resolver_params rv hook c;
          (r, s') = (case ps of None \<Rightarrow> (Inr HOther, s) | Some q \<Rightarrow> in_world (sv_session sv q) s) in
      case r of
        Inl e \<Rightarrow> (Some e, s')
      | Inr h \<Rightarrow>
          (case resolve_messages repr rv (rc_system c) ps (\<lambda>_. h) (rc_input c) of
             Inl e \<Rightarrow> (Some (message_exn e), s')
           | Inr ms \<Rightarrow> (None, on_ctx (rc_messages_update (\<lambda>_. ms)) s')))"

section \<open>The exact-match cache\<close>

definition opt_text :: "pystr option \<Rightarrow> pyval" where
  "opt_text t = (case t of None \<Rightarrow> PNone | Some s \<Rightarrow> PStr s)"

definition opt_val :: "pyval option \<Rightarrow> pyval" where
  "opt_val v = (case v of None \<Rightarrow> PNone | Some x \<Rightarrow> x)"

definition without_metadata :: "(pykey \<times> pyval) list \<Rightarrow> (pykey \<times> pyval) list" where
  "without_metadata d = filter (\<lambda>(k, _). k \<noteq> key_str ''metadata'') d"

definition basis :: "request_context \<Rightarrow> pyval option \<Rightarrow> pyval" where
  "basis c extra =
     PDict ([(key_str ''messages'', PSeq (map to_dict_message (rc_messages c))),
             (key_str ''model'', rc_model c),
             (key_str ''pipeline'', PStr (rc_pipeline c)),
             (key_str ''provider_options'', case rc_options c of None \<Rightarrow> PNone | Some d \<Rightarrow> PDict (without_metadata d)),
             (key_str ''filters'', opt_val (rc_filters c))]
           @ (case extra of None \<Rightarrow> [] | Some x \<Rightarrow> [(key_str ''extra'', x)]))"

type_synonym extra_hook = "(request_context \<Rightarrow> exn + pyval) option"

definition fingerprint :: "hash \<Rightarrow> (pyval \<Rightarrow> pystr option) \<Rightarrow> extra_hook \<Rightarrow> request_context \<Rightarrow> exn + pystr" where
  "fingerprint sha dumps hook c =
     rbind (case hook of None \<Rightarrow> Inr None | Some f \<Rightarrow> rmap Some (f c)) (\<lambda>extra.
       case dumps (basis c extra) of
         None \<Rightarrow> Inl (Foreign (u ''TypeError''))
       | Some t \<Rightarrow> Inr (u ''cache:'' @ hex (sha (utf8 t))))"

definition py_or :: "pyval \<Rightarrow> pyval \<Rightarrow> pyval" where
  "py_or a b = (if truthy a then a else b)"

definition shown_text :: "(pyval \<Rightarrow> pystr) \<Rightarrow> pyval \<Rightarrow> pystr" where
  "shown_text repr v = (case v of PStr t \<Rightarrow> t | _ \<Rightarrow> repr v)"

definition use_hit :: "(pyval \<Rightarrow> pystr) \<Rightarrow> pyval \<Rightarrow> request_context \<Rightarrow> request_context" where
  "use_hit repr hit c =
     (case hit of
        PDict d \<Rightarrow>
          (case lookup (u ''content'') d of
             Some v \<Rightarrow>
               short_circuit (shown_text repr v) True
                 (c\<lparr>rc_model := py_or (dget (u ''model'') d) (rc_model c), rc_provider := dget (u ''provider'') d,
                    rc_finish := dget (u ''finish_reason'') d\<rparr>)
           | None \<Rightarrow> short_circuit (shown_text repr hit) True c)
      | _ \<Rightarrow> short_circuit (shown_text repr hit) True c)"

definition cache_lookup ::
  "hash \<Rightarrow> (pyval \<Rightarrow> pystr option) \<Rightarrow> (pyval \<Rightarrow> pystr) \<Rightarrow> extra_hook \<Rightarrow> 'w services \<Rightarrow> 'w effect" where
  "cache_lookup sha dumps repr hook sv s =
     (if rc_streaming (ex_ctx s) then (None, s)
      else
        (case fingerprint sha dumps hook (ex_ctx s) of
           Inl (Cancel x) \<Rightarrow> (Some (Cancel x), s)
         | Inl _ \<Rightarrow> (None, s)
         | Inr key \<Rightarrow>
             (let s1 = on_ctx (rc_cache_key_update (\<lambda>_. Some key)) s; (r, s2) = in_world (sv_get sv key) s1 in
              case r of
                Inl (Byo (CacheFailed _)) \<Rightarrow> (None, report (CacheMiss key) s2)
              | Inl e \<Rightarrow> (Some e, s2)
              | Inr hit \<Rightarrow>
                  if hit = PNone then (None, report (CacheMiss key) s2)
                  else (None, on_ctx (use_hit repr hit) (report (CacheHit key) s2)))))"

section \<open>The semantic cache and the vector store\<close>

fun text_blocks :: "pyval list \<Rightarrow> exn + pystr" where
  "text_blocks [] = Inr []"
| "text_blocks (PDict d # bs) =
     (if dget (u ''type'') d = PStr (u ''text'') then
        (case lookup (u ''text'') d of
           None \<Rightarrow> text_blocks bs
         | Some (PStr t) \<Rightarrow> rmap (\<lambda>r. t @ r) (text_blocks bs)
         | Some _ \<Rightarrow> Inl (Foreign (u ''TypeError'')))
      else text_blocks bs)"
| "text_blocks (_ # bs) = text_blocks bs"

definition last_user_message :: "request_context \<Rightarrow> exn + pystr option" where
  "last_user_message c =
     (case find (\<lambda>m. ms_role m = USER) (rev (rc_messages c)) of
        None \<Rightarrow> Inr None
      | Some m \<Rightarrow>
          (case ms_content m of
             PNone \<Rightarrow> Inr None
           | PStr t \<Rightarrow> Inr (Some t)
           | PSeq bs \<Rightarrow> rmap (\<lambda>t. if t = [] then None else Some t) (text_blocks bs)
           | PDict _ \<Rightarrow> Inr None
           | _ \<Rightarrow> Inl (Foreign (u ''TypeError''))))"

definition semantic_missed :: "exn \<Rightarrow> 'w execution \<Rightarrow> exn option \<times> 'w execution" where
  "semantic_missed e s =
     (case e of
        Cancel x \<Rightarrow> (Some e, s)
      | _ \<Rightarrow> (None, report (SemanticError e) (on_ctx (rc_embedding_update (\<lambda>_. None)) s)))"

definition semantic_lookup :: "'w services \<Rightarrow> pyfloat \<Rightarrow> 'w effect" where
  "semantic_lookup sv threshold s =
     (case last_user_message (ex_ctx s) of
        Inl e \<Rightarrow> (Some e, s)
      | Inr None \<Rightarrow> (None, s)
      | Inr (Some query) \<Rightarrow>
          (let (r, s1) = in_world (sv_embed sv query) s in
           case r of
             Inl e \<Rightarrow> semantic_missed e s1
           | Inr v \<Rightarrow>
               (let s2 = on_ctx (rc_embedding_update (\<lambda>_. Some v)) s1; (r', s3) = in_world (sv_find sv v threshold) s2 in
                case r' of
                  Inl e \<Rightarrow> semantic_missed e s3
                | Inr None \<Rightarrow> (None, report SemanticMiss s3)
                | Inr (Some (answer, score)) \<Rightarrow>
                    (None, on_ctx (short_circuit answer True \<circ> rc_score_update (\<lambda>_. Some score)) (report (SemanticHit score) s3)))))"

text \<open>\<open>list.insert\<close>.\<close>

definition insert_index :: "int \<Rightarrow> nat \<Rightarrow> nat" where
  "insert_index i n = (if i < 0 then nat (max 0 (i + int n)) else min (nat i) n)"

definition py_insert :: "int \<Rightarrow> 'a \<Rightarrow> 'a list \<Rightarrow> 'a list" where
  "py_insert i x xs = (let k = insert_index i (length xs) in take k xs @ [x] @ drop k xs)"

record retriever =
  vr_top_k :: int
  vr_filters :: pyval
  vr_format :: "document \<Rightarrow> pystr"
  vr_header :: pystr
  vr_insert_at :: "request_context \<Rightarrow> int"

definition default_retriever :: retriever where
  "default_retriever =
     \<lparr>vr_top_k = 5, vr_filters = PNone, vr_format = (\<lambda>d. [91] @ dc_id d @ [93, 32] @ dc_content d),
      vr_header = u ''Relevant context retrieved for this request:'',
      vr_insert_at = (\<lambda>c. max (int (length (rc_messages c)) - 1) 0)\<rparr>"

fun join_blocks :: "pystr list \<Rightarrow> pystr" where
  "join_blocks [] = []" | "join_blocks [t] = t" | "join_blocks (t # ts) = t @ [10, 10] @ join_blocks ts"

definition add_documents :: "retriever \<Rightarrow> document list \<Rightarrow> request_context \<Rightarrow> request_context" where
  "add_documents vr docs c =
     (if docs = [] then c
      else c\<lparr>rc_messages :=
               py_insert (vr_insert_at vr c)
                 (plain_message SYSTEM (PStr (vr_header vr @ [10, 10] @ join_blocks (map (vr_format vr) docs)))) (rc_messages c)\<rparr>)"

definition vector_retrieve :: "'w services \<Rightarrow> retriever \<Rightarrow> 'w effect" where
  "vector_retrieve sv vr s =
     (case last_user_message (ex_ctx s) of
        Inl e \<Rightarrow> (Some e, s)
      | Inr None \<Rightarrow> (None, s)
      | Inr (Some query) \<Rightarrow>
          (let (r, s1) = in_world (sv_embed sv query) s in
           case r of
             Inl e \<Rightarrow> (Some e, s1)
           | Inr v \<Rightarrow>
               (let (r', s2) = in_world (sv_search sv v (vr_top_k vr) (case rc_filters (ex_ctx s) of None \<Rightarrow> vr_filters vr | Some f \<Rightarrow> f)) s1
                in case r' of
                     Inl e \<Rightarrow> (Some e, s2)
                   | Inr docs \<Rightarrow>
                       (None, on_ctx (add_documents vr docs)
                                (report (VectorRetrieved (length docs)) (on_ctx (rc_documents_update (\<lambda>_. docs)) s2))))))"

section \<open>The provider\<close>

definition with_model :: "request_context \<Rightarrow> (pykey \<times> pyval) list \<Rightarrow> (pykey \<times> pyval) list" where
  "with_model c d = (if truthy (rc_model c) then dset ''model'' (rc_model c) d else d)"

definition call_options :: "(pykey \<times> pyval) list \<Rightarrow> request_context \<Rightarrow> (pykey \<times> pyval) list" where
  "call_options defaults c =
     with_model c (foldl (\<lambda>d (k, v). od_set k v d) defaults (case rc_options c of None \<Rightarrow> [] | Some d \<Rightarrow> d))"

definition routed :: "emitted list \<Rightarrow> 'w execution \<Rightarrow> 'w execution" where
  "routed es s = s\<lparr>ex_trace := ex_trace s @ map Routed es\<rparr>"

definition take_response :: "provider_response \<Rightarrow> request_context \<Rightarrow> request_context" where
  "take_response r c =
     c\<lparr>rc_response := Some (rs_content r), rc_model := PStr (rs_model r), rc_provider := PStr (rs_provider r),
       rc_usage := add_usage (rc_usage c) (rs_usage r), rc_finish := opt_text (rs_finish_reason r), rc_raw := rs_raw r\<rparr>"

definition provider_call :: "'w services \<Rightarrow> (pykey \<times> pyval) list \<Rightarrow> 'w effect" where
  "provider_call sv defaults s =
     (if rc_streaming (ex_ctx s) then (None, s)
      else
        (case sv_complete sv (rc_messages (ex_ctx s)) (call_options defaults (ex_ctx s)) (ex_world s) of
           (r, es, w) \<Rightarrow>
             (let s' = routed es (s\<lparr>ex_world := w\<rparr>) in
              case r of Inl e \<Rightarrow> (Some e, s') | Inr resp \<Rightarrow> (None, on_ctx (take_response resp) s'))))"

section \<open>The runtime\<close>

text \<open>
  What a runtime is made of: whether it has an exact-match cache, a semantic cache and a router, its middleware and its
  pipelines by name. \<open>rtm_default\<close> is the pipeline of the constructor.
\<close>

record 'w runtime =
  rtm_services :: "'w services"
  rtm_cache :: bool
  rtm_semantic :: bool
  rtm_router :: bool
  rtm_middleware :: "'w middleware list"
  rtm_pipelines :: "(pystr \<times> 'w pipeline) list"
  rtm_default :: "'w pipeline"

definition wire_stage :: "string \<Rightarrow> string \<Rightarrow> 'w effect \<Rightarrow> 'w stage" where
  "wire_stage name cls run = \<lparr>st_name = Some (u name), st_classes = [u cls], st_run = run\<rparr>"

definition DEFAULT_SEMANTIC_THRESHOLD :: pyfloat where "DEFAULT_SEMANTIC_THRESHOLD = 92 / 100"

text \<open>
  The default pipeline. \<open>threshold\<close> is the one the configuration of the semantic cache names, \<open>metric\<close> the metric the
  built store has; both matter only when the store was built from a configuration.
\<close>

record 'w runtime_setup =
  su_services :: "'w services"
  su_cache :: bool
  su_semantic :: bool
  su_from_config :: bool
  su_metric :: pystr
  su_threshold :: "pyfloat option"
  su_embedder :: bool
  su_router :: bool
  su_system :: "pystr option"

definition threshold_of :: "'w runtime_setup \<Rightarrow> pyfloat" where
  "threshold_of su =
     (if su_from_config su then (case su_threshold su of None \<Rightarrow> DEFAULT_SEMANTIC_THRESHOLD | Some x \<Rightarrow> x)
      else DEFAULT_SEMANTIC_THRESHOLD)"

definition default_pipeline ::
  "hash \<Rightarrow> (pyval \<Rightarrow> pystr option) \<Rightarrow> (pyval \<Rightarrow> pystr) \<Rightarrow> 'w runtime_setup \<Rightarrow> 'w pipeline" where
  "default_pipeline sha dumps repr su =
     \<lparr>pl_name = u ''default'',
      pl_stages =
        [wire_stage ''context_resolver'' ''ContextResolver''
           (resolve_context repr (su_services su)
              \<lparr>rv_system_prompt = su_system su, rv_has_cache = su_cache su, rv_max_history = 20\<rparr> None)]
        @ (if su_cache su then [wire_stage ''cache_lookup'' ''CacheLookup'' (cache_lookup sha dumps repr None (su_services su))] else [])
        @ (if su_semantic su
           then [wire_stage ''semantic_cache_lookup'' ''SemanticCacheLookup'' (semantic_lookup (su_services su) (threshold_of su))]
           else [])
        @ (if su_router su then [wire_stage ''provider_call'' ''ProviderCall'' (provider_call (su_services su) [])] else [])\<rparr>"

definition new_runtime ::
  "hash \<Rightarrow> (pyval \<Rightarrow> pystr option) \<Rightarrow> (pyval \<Rightarrow> pystr) \<Rightarrow> 'w runtime_setup \<Rightarrow> exn + 'w runtime" where
  "new_runtime sha dumps repr su =
     (if su_semantic su \<and> su_from_config su \<and> su_metric su \<noteq> u ''cosine'' \<and> su_threshold su = None
      then Inl (Byo (ConfigurationError (u ''no explicit threshold='')))
      else if su_semantic su \<and> \<not> su_embedder su
      then Inl (Byo (ConfigurationError (u ''semantic_cache requires an embedder='')))
      else
        (let p = default_pipeline sha dumps repr su in
         Inr \<lparr>rtm_services = su_services su, rtm_cache = su_cache su, rtm_semantic = su_semantic su, rtm_router = su_router su,
              rtm_middleware = [], rtm_pipelines = [(u ''default'', p)], rtm_default = p\<rparr>))"

definition register_pipeline :: "pystr \<Rightarrow> 'w pipeline \<Rightarrow> 'w runtime \<Rightarrow> 'w runtime" where
  "register_pipeline name p rt = rt\<lparr>rtm_pipelines := od_set name p (rtm_pipelines rt)\<rparr>"

definition add_middleware :: "'w middleware \<Rightarrow> 'w runtime \<Rightarrow> 'w runtime" where
  "add_middleware m rt = rt\<lparr>rtm_middleware := rtm_middleware rt @ [m]\<rparr>"

datatype 'w pipeline_choice = DefaultPipeline | Named pystr | Given "'w pipeline"

definition resolve_pipeline :: "'w runtime \<Rightarrow> 'w pipeline_choice \<Rightarrow> exn + 'w pipeline" where
  "resolve_pipeline rt choice =
     (case choice of
        DefaultPipeline \<Rightarrow> Inr (rtm_default rt)
      | Given p \<Rightarrow> Inr p
      | Named n \<Rightarrow> (case map_of (rtm_pipelines rt) n of None \<Rightarrow> Inl (Byo (PipelineNotFound n)) | Some p \<Rightarrow> Inr p))"

section \<open>Writing answers back\<close>

definition cache_entry :: "pystr \<Rightarrow> request_context \<Rightarrow> pyval" where
  "cache_entry response c =
     PDict [(key_str ''content'', PStr response), (key_str ''model'', rc_model c), (key_str ''provider'', rc_provider c),
            (key_str ''finish_reason'', rc_finish c)]"

text \<open>A failure of the exact cache is swallowed when it is a \<open>CacheError\<close>, one of the semantic cache when it is typed.\<close>

definition swallow_cache :: "exn option \<Rightarrow> exn option" where
  "swallow_cache r = (case r of Some (Byo (CacheFailed _)) \<Rightarrow> None | _ \<Rightarrow> r)"

definition swallow_typed :: "exn option \<Rightarrow> exn option" where
  "swallow_typed r = (case r of Some (Byo _) \<Rightarrow> None | _ \<Rightarrow> r)"

definition write_exact :: "'w runtime \<Rightarrow> pystr \<Rightarrow> 'w effect" where
  "write_exact rt response s =
     (case rc_cache_key (ex_ctx s) of
        None \<Rightarrow> (None, s)
      | Some key \<Rightarrow>
          if \<not> rtm_cache rt \<or> key = [] then (None, s)
          else (let (r, s') = in_world (sv_set (rtm_services rt) key (cache_entry response (ex_ctx s))) s in (swallow_cache r, s')))"

definition write_semantic :: "'w runtime \<Rightarrow> pystr \<Rightarrow> 'w effect" where
  "write_semantic rt response s =
     (case rc_embedding (ex_ctx s) of
        None \<Rightarrow> (None, s)
      | Some v \<Rightarrow>
          if \<not> rtm_semantic rt then (None, s)
          else (let (r, s') = in_world (sv_add (rtm_services rt) v response) s in (swallow_typed r, s')))"

definition write_answer :: "'w runtime \<Rightarrow> 'w effect" where
  "write_answer rt s =
     (case rc_response (ex_ctx s) of
        None \<Rightarrow> (None, s)
      | Some t \<Rightarrow>
          if rc_cached (ex_ctx s) \<or> t = [] then (None, s)
          else and_then (write_exact rt t) (write_semantic rt t) s)"

section \<open>One request\<close>

record call_params =
  cp_input :: raw_input
  cp_session :: "pystr option"
  cp_user :: "pystr option"
  cp_model :: pyval
  cp_system :: "pystr option"
  cp_provider_metadata :: "pyval option"
  cp_filters :: "pyval option"
  cp_options :: "(pykey \<times> pyval) list"

definition request_options :: "call_params \<Rightarrow> (pykey \<times> pyval) list option" where
  "request_options q =
     (let d = (case cp_provider_metadata q of None \<Rightarrow> cp_options q | Some m \<Rightarrow> dset ''metadata'' m (cp_options q))
      in if d = [] then None else Some d)"

definition request_filters :: "call_params \<Rightarrow> pyval option" where
  "request_filters q = (case cp_filters q of None \<Rightarrow> None | Some v \<Rightarrow> if truthy v then Some v else None)"

definition make_context :: "pystr \<Rightarrow> bool \<Rightarrow> 'w pipeline \<Rightarrow> call_params \<Rightarrow> request_context" where
  "make_context rid streaming p q =
     (new_context (cp_input q) (pl_name p) rid (cp_session q) (cp_user q))
       \<lparr>rc_model := cp_model q, rc_system := cp_system q, rc_streaming := streaming, rc_filters := request_filters q,
        rc_options := request_options q\<rparr>"

definition start_execution :: "request_context \<Rightarrow> 'w \<Rightarrow> 'w execution" where
  "start_execution c w = \<lparr>ex_ctx = c, ex_trace = [RequestReceived], ex_world = w\<rparr>"

definition run_chain :: "'w runtime \<Rightarrow> 'w pipeline \<Rightarrow> 'w effect" where
  "run_chain rt p s =
     (case execute_chain (rtm_middleware rt) (execute_pipeline p) s of
        (Some (Cancel x), s') \<Rightarrow> (Some (Cancel x), s')
      | (Some e, s') \<Rightarrow> (Some e, report RequestFailed s')
      | (None, s') \<Rightarrow> (None, s'))"

definition no_response :: exn where
  "no_response = Byo (ConfigurationError (u ''pipeline finished without producing a response''))"

definition finish_execute :: "'w runtime \<Rightarrow> 'w effect" where
  "finish_execute rt s =
     (if rc_response (ex_ctx s) = None then (Some no_response, s)
      else (case write_answer rt s of (Some e, s') \<Rightarrow> (Some e, s') | (None, s') \<Rightarrow> (None, report RequestCompleted s')))"

definition execute_request ::
  "pystr \<Rightarrow> 'w runtime \<Rightarrow> 'w pipeline_choice \<Rightarrow> call_params \<Rightarrow> 'w \<Rightarrow> exn + (exn option \<times> 'w execution)" where
  "execute_request rid rt choice q w =
     rmap (\<lambda>p. and_then (run_chain rt p) (finish_execute rt) (start_execution (make_context rid False p q) w))
       (resolve_pipeline rt choice)"

section \<open>One stream\<close>

definition take_done :: "stream_chunk \<Rightarrow> request_context \<Rightarrow> request_context" where
  "take_done ch c =
     c\<lparr>rc_model := py_or (opt_text (sc_model ch)) (rc_model c), rc_provider := py_or (opt_text (sc_provider ch)) (rc_provider c),
       rc_finish := opt_text (sc_finish_reason ch), rc_raw := sc_raw ch,
       rc_usage := (case sc_usage ch of None \<Rightarrow> rc_usage c | Some x \<Rightarrow> add_usage (rc_usage c) x)\<rparr>"

text \<open>A final frame carries the model and provider of the context, which are text once they are set.\<close>

definition text_opt :: "pyval \<Rightarrow> pystr option" where
  "text_opt v = (case v of PStr t \<Rightarrow> Some t | _ \<Rightarrow> None)"

definition final_frame :: "stream_chunk \<Rightarrow> request_context \<Rightarrow> lifecycle" where
  "final_frame ch c =
     Yield (ch\<lparr>sc_delta := [], sc_done := True, sc_model := text_opt (rc_model c), sc_provider := text_opt (rc_provider c)\<rparr>)
       (Some (rc_cached c, rc_request_id c))"

text \<open>What the router emits and yields is passed on as it comes; \<open>parts\<close> are the deltas so far.\<close>

fun pass_on :: "emitted list \<Rightarrow> pystr list \<Rightarrow> 'w execution \<Rightarrow> pystr list \<times> 'w execution" where
  "pass_on [] parts s = (parts, s)"
| "pass_on (Yielded ch # es) parts s =
     (if sc_done ch then
        (let s' = on_ctx (take_done ch) s in pass_on es parts (report (final_frame ch (ex_ctx s')) s'))
      else pass_on es (parts @ [sc_delta ch]) (report (Yield ch None) s))"
| "pass_on (e # es) parts s = pass_on es parts (report (Routed e) s)"

definition blank_chunk :: stream_chunk where
  "blank_chunk =
     \<lparr>sc_delta = [], sc_done = False, sc_model = None, sc_provider = None, sc_usage = None, sc_finish_reason = None, sc_raw = PNone\<rparr>"

definition stream_hit :: "pystr \<Rightarrow> 'w execution \<Rightarrow> 'w execution" where
  "stream_hit t s =
     (let c = ex_ctx s in
      report RequestCompleted
        (report (final_frame (blank_chunk\<lparr>sc_finish_reason := text_opt (rc_finish c)\<rparr>) c)
           (report (Yield (blank_chunk\<lparr>sc_delta := t\<rparr>) None) s)))"

definition stream_provider :: "'w runtime \<Rightarrow> 'w effect" where
  "stream_provider rt s =
     (let c = ex_ctx s; options = with_model c (case rc_options c of None \<Rightarrow> [] | Some d \<Rightarrow> d) in
      case sv_stream (rtm_services rt) (rc_messages c) options (ex_world s) of
        (r, es, w) \<Rightarrow>
          (let (parts, s1) = pass_on es [] (s\<lparr>ex_world := w\<rparr>) in
           case r of
             Some e \<Rightarrow> (Some e, s1)
           | None \<Rightarrow>
               (case write_answer rt (on_ctx (rc_response_update (\<lambda>_. Some (concat parts))) s1) of
                  (Some e, s2) \<Rightarrow> (Some e, s2)
                | (None, s2) \<Rightarrow> (None, report RequestCompleted (report ResponseStreamed s2)))))"

definition finish_stream :: "'w runtime \<Rightarrow> 'w effect" where
  "finish_stream rt s =
     (case rc_response (ex_ctx s) of
        Some t \<Rightarrow> if rc_short (ex_ctx s) then (None, stream_hit t s) else stream_provider rt s
      | None \<Rightarrow> stream_provider rt s)"

definition stream_request ::
  "pystr \<Rightarrow> 'w runtime \<Rightarrow> 'w pipeline_choice \<Rightarrow> call_params \<Rightarrow> 'w \<Rightarrow> exn + (exn option \<times> 'w execution)" where
  "stream_request rid rt choice q w =
     (if \<not> rtm_router rt then Inl (Byo (ConfigurationError (u ''streaming requires configured providers'')))
      else
        rmap (\<lambda>p. and_then (run_chain rt p) (finish_stream rt) (start_execution (make_context rid True p q) w))
          (resolve_pipeline rt choice))"

end
