(* ===== verification/Pipeline_Props.thy ===== *)
theory Pipeline_Props
  imports Pipeline
begin

text \<open>
  What an execution of a pipeline is: the stages run in order up to the first one that raises or ends the request,
  and an error leaves with its type or wrapped with the name of its stage. Subscribers of the bus cannot disturb one
  another.
\<close>

section \<open>Stages in order\<close>

text \<open>The stages ran one after the other, none of them raised, and none but the last may have ended the request.\<close>

inductive ran :: "'w stage list \<Rightarrow> 'w execution \<Rightarrow> 'w execution \<Rightarrow> bool" where
  ran_none: "ran [] s s"
| ran_one: "\<not> rc_short (ex_ctx s) \<Longrightarrow> st_run st (report (StageStarted (stage_name st)) s) = (None, s1)
    \<Longrightarrow> ran sts (report (StageCompleted (stage_name st)) s1) s2 \<Longrightarrow> ran (st # sts) s s2"

inductive_cases ran_ConsE: "ran (st # sts) s s'"
inductive_simps ran_Nil [simp]: "ran [] s s'"

lemma ran_stages: "ran sts s s1 \<Longrightarrow> run_stages (sts @ more_stages) s = run_stages more_stages s1"
  by (induction rule: ran.induct) simp_all

lemma wrap_not_foreign [simp]: "wrap_error name e \<noteq> Foreign x"
  by (cases e) (simp_all add: wrap_error_def)

lemma run_stages_stopped: "rc_short (ex_ctx s) \<Longrightarrow> run_stages sts s = (None, s)"
  by (cases sts) simp_all

lemma run_stages_split:
  "run_stages sts s = (r, s') \<Longrightarrow>
     \<exists>before after s1. sts = before @ after \<and> ran before s s1 \<and>
       (r = None \<and> s' = s1 \<and> (after = [] \<or> rc_short (ex_ctx s1))
        \<or> (\<exists>st rest e. after = st # rest \<and> \<not> rc_short (ex_ctx s1)
             \<and> st_run st (report (StageStarted (stage_name st)) s1) = (Some e, s') \<and> r = Some (wrap_error (stage_name st) e)))"
proof (induction sts arbitrary: s)
  case Nil
  then show ?case by auto
next
  case (Cons st sts)
  show ?case
  proof (cases "rc_short (ex_ctx s)")
    case True
    with Cons.prems show ?thesis by (intro exI [of _ "[]"] exI [of _ "st # sts"] exI [of _ s]) simp
  next
    case False
    obtain q s1 where step: "st_run st (report (StageStarted (stage_name st)) s) = (q, s1)" by fastforce
    show ?thesis
    proof (cases q)
      case None
      from Cons.IH [of "report (StageCompleted (stage_name st)) s1"] Cons.prems False step None
      obtain before after s2 where sts: "sts = before @ after"
        and before: "ran before (report (StageCompleted (stage_name st)) s1) s2"
        and ends: "r = None \<and> s' = s2 \<and> (after = [] \<or> rc_short (ex_ctx s2))
          \<or> (\<exists>st rest e. after = st # rest \<and> \<not> rc_short (ex_ctx s2)
               \<and> st_run st (report (StageStarted (stage_name st)) s2) = (Some e, s') \<and> r = Some (wrap_error (stage_name st) e))"
        by auto
      have "ran (st # before) s s2" using ran_one [OF False step [unfolded None] before] .
      then show ?thesis using sts ends by (intro exI [of _ "st # before"] exI [of _ after] exI [of _ s2]) simp
    next
      case (Some e)
      with Cons.prems False step show ?thesis by (intro exI [of _ "[]"] exI [of _ "st # sts"] exI [of _ s]) simp
    qed
  qed
qed

text \<open>
  a pipeline runs its stages in order and stops where it should. The stages that ran are a prefix of the list;
  the run ends when the list does, when a stage has ended the request, or with the first stage that raises. A typed
  error then leaves as it is, any other exception as a pipeline error that names the stage; no stage behind it runs.
\<close>

theorem pipeline_runs_prefix:
  "case execute_pipeline p s of (r, s') \<Rightarrow>
     (\<forall>x. r \<noteq> Some (Foreign x))
     \<and> (\<exists>before after s1. pl_stages p = before @ after \<and> ran before s s1 \<and>
          (r = None \<and> s' = s1 \<and> (after = [] \<or> rc_short (ex_ctx s1))
           \<or> (\<exists>st rest e. after = st # rest \<and> \<not> rc_short (ex_ctx s1)
                \<and> st_run st (report (StageStarted (stage_name st)) s1) = (Some e, s')
                \<and> r = Some (case e of Foreign x \<Rightarrow> Byo (PipelineError (stage_name st) x) | _ \<Rightarrow> e))))"
proof -
  obtain r s' where run: "run_stages (pl_stages p) s = (r, s')" by fastforce
  have "r \<noteq> Some (Foreign x)" for x using run_stages_split [OF run] wrap_not_foreign [symmetric] by auto
  moreover note run_stages_split [OF run, unfolded wrap_error_def]
  ultimately show ?thesis using run by (simp add: execute_pipeline_def)
qed

section \<open>What an effect may report\<close>

definition inner :: "lifecycle \<Rightarrow> bool" where
  "inner e \<longleftrightarrow>
     (case e of RequestReceived \<Rightarrow> False | RequestCompleted \<Rightarrow> False | RequestFailed \<Rightarrow> False | ResponseStreamed \<Rightarrow> False
      | Yield _ _ \<Rightarrow> False | _ \<Rightarrow> True)"

text \<open>An effect that only adds to the trace, and neither a chunk nor an event of the request as a whole.\<close>

definition modest :: "'w effect \<Rightarrow> bool" where
  "modest f \<longleftrightarrow> (\<forall>s r s'. f s = (r, s') \<longrightarrow> (\<exists>es. ex_trace s' = ex_trace s @ es \<and> list_all inner es))"

lemma modestI: "(\<And>s r s'. f s = (r, s') \<Longrightarrow> \<exists>es. ex_trace s' = ex_trace s @ es \<and> list_all inner es) \<Longrightarrow> modest f"
  by (simp add: modest_def)

lemma modestD: "modest f \<Longrightarrow> f s = (r, s') \<Longrightarrow> \<exists>es. ex_trace s' = ex_trace s @ es \<and> list_all inner es"
  by (simp add: modest_def)

lemma trace_report [simp]: "ex_trace (report e s) = ex_trace s @ [e]"
  "ex_ctx (report e s) = ex_ctx s" "ex_world (report e s) = ex_world s"
  by (simp_all add: report_def)

lemma on_ctx_simps [simp]:
  "ex_trace (on_ctx f s) = ex_trace s" "ex_ctx (on_ctx f s) = f (ex_ctx s)" "ex_world (on_ctx f s) = ex_world s"
  by (simp_all add: on_ctx_def)

lemma modest_stages: "list_all (\<lambda>st. modest (st_run st)) sts \<Longrightarrow> modest (run_stages sts)"
proof (induction sts)
  case Nil
  then show ?case by (simp add: modest_def)
next
  case (Cons st sts)
  show ?case
  proof (rule modestI)
    fix s r s' assume run: "run_stages (st # sts) s = (r, s')"
    obtain q s1 where step: "st_run st (report (StageStarted (stage_name st)) s) = (q, s1)" by fastforce
    have "modest (st_run st)" using Cons.prems by simp
    from modestD [OF this step] obtain es where es: "ex_trace s1 = ex_trace s @ StageStarted (stage_name st) # es" "list_all inner es"
      by auto
    have "modest (run_stages sts)" using Cons by simp
    from modestD [OF this, of "report (StageCompleted (stage_name st)) s1"] run step es
    show "\<exists>es. ex_trace s' = ex_trace s @ es \<and> list_all inner es"
      by (auto simp: inner_def split: if_splits option.splits)
  qed
qed

definition courteous :: "'w middleware \<Rightarrow> bool" where
  "courteous m \<longleftrightarrow> (\<forall>call. modest call \<longrightarrow> modest (m call))"

lemma modest_chain: "list_all courteous ms \<Longrightarrow> modest f \<Longrightarrow> modest (execute_chain ms f)"
  unfolding execute_chain_def by (induction ms) (simp_all add: courteous_def)

text \<open>A pipeline and the middleware around it report only inner events.\<close>

definition discreet :: "'w middleware list \<Rightarrow> 'w pipeline \<Rightarrow> bool" where
  "discreet ms p \<longleftrightarrow> list_all courteous ms \<and> list_all (\<lambda>st. modest (st_run st)) (pl_stages p)"

lemma discreet_modest: "discreet ms p \<Longrightarrow> modest (execute_chain ms (execute_pipeline p))"
  unfolding discreet_def execute_pipeline_def by (blast intro: modest_chain modest_stages)

section \<open>The bus\<close>

lemma call_all_isolated:
  assumes "\<forall>h\<in>set hs. \<forall>x. call h \<noteq> Some (Cancel x)"
  shows "call_all call hs = (hs, map (\<lambda>h. (h, the (call h))) (filter (\<lambda>h. call h \<noteq> None) hs), None)"
  using assms by (induction hs) (auto split: option.splits exn.splits)

text \<open>
  A subscriber that raises is isolated. Unless one raises a \<open>BaseException\<close>, an event reaches every subscriber of
  its name and every one whose pattern it matches, once and in order, and each failure reaches the error handler.
\<close>

lemma subscribers_isolated:
  assumes "\<And>h x. h \<in> set (listeners glob event b) \<Longrightarrow> call h \<noteq> Some (Cancel x)"
  shows "bus_emit glob call event b
    = (listeners glob event b,
       map (\<lambda>h. (h, the (call h))) (filter (\<lambda>h. call h \<noteq> None) (listeners glob event b)), None)"
  unfolding bus_emit_def by (rule call_all_isolated) (use assms in blast)

end
