(* ===== verification/Runtime_Props.thy ===== *)
theory Runtime_Props
  imports Runtime Pipeline_Props
begin

text \<open>
  What a request reports about itself, what a stream hands out, and a runtime whose cache is down against one that has
  none.
\<close>

section \<open>The stages only report inner events\<close>

lemma in_world_simps [simp]:
  "ex_ctx (snd (in_world f s)) = ex_ctx s" "ex_trace (snd (in_world f s)) = ex_trace s"
  by (simp_all add: in_world_def split_def)

lemma in_world_trace: "in_world f s = (r, s') \<Longrightarrow> ex_trace s' = ex_trace s \<and> ex_ctx s' = ex_ctx s"
  by (auto simp: in_world_def split: prod.splits)

lemma modest_resolve: "modest (resolve_context repr sv rv hook)"
  by (rule modestI) (auto simp: resolve_context_def Let_def dest!: in_world_trace split: option.splits sum.splits prod.splits)

lemma modest_cache_lookup: "modest (cache_lookup sha dumps repr hook sv)"
  by (rule modestI)
    (auto simp: cache_lookup_def Let_def inner_def dest!: in_world_trace
      split: sum.splits prod.splits exn.splits byo_error.splits if_splits)

lemma modest_semantic: "modest (semantic_lookup sv threshold)"
  by (rule modestI)
    (auto simp: semantic_lookup_def semantic_missed_def Let_def inner_def dest!: in_world_trace
      split: sum.splits prod.splits exn.splits option.splits)

lemma modest_retrieve: "modest (vector_retrieve sv vr)"
  by (rule modestI)
    (auto simp: vector_retrieve_def Let_def inner_def dest!: in_world_trace split: sum.splits prod.splits option.splits)

lemma modest_provider: "modest (provider_call sv defaults)"
  by (rule modestI)
    (auto simp: provider_call_def routed_def Let_def inner_def list_all_iff split: sum.splits prod.splits if_splits)

lemma modest_default: "list_all (\<lambda>st. modest (st_run st)) (pl_stages (default_pipeline sha dumps repr su))"
  by (simp add: default_pipeline_def wire_stage_def modest_resolve modest_cache_lookup modest_semantic modest_provider)

lemma modest_write: "modest (write_answer rt)"
proof (rule modestI)
  fix s r s' assume "write_answer rt s = (r, s')"
  then have "ex_trace s' = ex_trace s"
    by (auto simp: write_answer_def write_exact_def write_semantic_def and_then_def Let_def dest!: in_world_trace
        split: option.splits prod.splits if_splits)
  then show "\<exists>es. ex_trace s' = ex_trace s @ es \<and> list_all inner es" by simp
qed

section \<open>What a request reports\<close>

lemma run_chain_cases:
  assumes "run_chain rt p s = (r, s1)" "discreet (rtm_middleware rt) p"
  obtains (returned) es where "r = None" "list_all inner es" "ex_trace s1 = ex_trace s @ es"
  | (cancelled) es x where "r = Some (Cancel x)" "list_all inner es" "ex_trace s1 = ex_trace s @ es"
  | (failed) es e where "r = Some e" "\<forall>x. e \<noteq> Cancel x" "list_all inner es" "ex_trace s1 = ex_trace s @ es @ [RequestFailed]"
proof -
  obtain q s0 where c: "execute_chain (rtm_middleware rt) (execute_pipeline p) s = (q, s0)" by fastforce
  from modestD [OF discreet_modest [OF assms(2)] c] obtain es where es: "ex_trace s0 = ex_trace s @ es" "list_all inner es"
    by blast
  show thesis
  proof (cases q)
    case None
    then show thesis using assms(1) c es returned by (simp add: run_chain_def)
  next
    case (Some e)
    then show thesis using assms(1) c es cancelled failed by (cases e) (auto simp: run_chain_def)
  qed
qed

text \<open>Failures that leave no event behind: a cancelled task, a pipeline without a response, an answer that cannot be written back.\<close>

definition unreported :: "'w runtime \<Rightarrow> exn \<Rightarrow> 'w execution \<Rightarrow> bool" where
  "unreported rt e s \<longleftrightarrow>
     (\<exists>x. e = Cancel x) \<or> e = no_response \<and> rc_response (ex_ctx s) = None \<or> (\<exists>s1. write_answer rt s1 = (Some e, s))"

text \<open>
  C34: what subscribers learn of a request. Its events begin with \<open>request.received\<close>; it returns exactly when the last
  one is \<open>request.completed\<close>. An exception of a stage or of middleware is reported as \<open>request.failed\<close>, and nothing of
  the request is reported after either. Three failures end it without any of the two: a cancelled task, a pipeline
  that leaves no response, and an exception while the answer is written to the caches.
\<close>

theorem request_outcome_reported:
  assumes "execute_request rid rt choice q w = Inr (r, s)" "resolve_pipeline rt choice = Inr p"
    and "discreet (rtm_middleware rt) p"
  shows "\<exists>es. list_all inner es \<and>
    (case r of
       None \<Rightarrow> ex_trace s = RequestReceived # es @ [RequestCompleted]
     | Some e \<Rightarrow> ex_trace s = RequestReceived # es @ [RequestFailed] \<or> ex_trace s = RequestReceived # es \<and> unreported rt e s)"
proof -
  let ?s0 = "start_execution (make_context rid False p q) w"
  obtain r1 s1 where chain: "run_chain rt p ?s0 = (r1, s1)" by fastforce
  have run: "(r, s) = (case r1 of Some e \<Rightarrow> (Some e, s1) | None \<Rightarrow> finish_execute rt s1)"
    using assms(1,2) chain by (auto simp: execute_request_def and_then_def split: option.splits)
  have start: "ex_trace ?s0 = [RequestReceived]" by (simp add: start_execution_def)
  from chain assms(3) show ?thesis
  proof (cases rule: run_chain_cases)
    case (returned es)
    obtain r2 s2 where wr: "write_answer rt s1 = (r2, s2)" by fastforce
    from modestD [OF modest_write wr] obtain fs where fs: "ex_trace s2 = ex_trace s1 @ fs" "list_all inner fs" by blast
    show ?thesis
    proof (cases "rc_response (ex_ctx s1) = None")
      case True
      with run returned start show ?thesis by (intro exI [of _ es]) (simp add: finish_execute_def unreported_def)
    next
      case False
      with run returned start wr fs show ?thesis
        by (intro exI [of _ "es @ fs"]) (auto simp: finish_execute_def unreported_def split: option.splits)
    qed
  next
    case (cancelled es x)
    with run start show ?thesis by (intro exI [of _ es]) (simp add: unreported_def)
  next
    case (failed es e)
    with run start show ?thesis by (intro exI [of _ es]) simp
  qed
qed

section \<open>Streams\<close>

definition handed_out :: "lifecycle list \<Rightarrow> stream_chunk list" where
  "handed_out es = concat (map (\<lambda>e. case e of Yield ch _ \<Rightarrow> [ch] | _ \<Rightarrow> []) es)"

lemma handed_out_append [simp]: "handed_out (es @ fs) = handed_out es @ handed_out fs" "handed_out [] = []"
  by (simp_all add: handed_out_def)

lemma handed_out_one [simp]: "handed_out [e] = (case e of Yield ch _ \<Rightarrow> [ch] | _ \<Rightarrow> [])"
  by (simp add: handed_out_def)

lemma handed_out_inner: "list_all inner es \<Longrightarrow> handed_out es = []"
  by (induction es) (auto simp: handed_out_def inner_def split: lifecycle.splits)

definition streamed_text :: "lifecycle list \<Rightarrow> pystr" where
  "streamed_text es = concat (map sc_delta (handed_out es))"

lemma streamed_text_simps [simp]:
  "streamed_text (es @ fs) = streamed_text es @ streamed_text fs" "streamed_text [] = []"
  "streamed_text (e # es) = (case e of Yield ch _ \<Rightarrow> sc_delta ch | _ \<Rightarrow> []) @ streamed_text es"
  by (simp_all add: streamed_text_def handed_out_def split: lifecycle.splits)

lemma streamed_text_inner: "list_all inner es \<Longrightarrow> streamed_text es = []"
  by (simp add: streamed_text_def handed_out_inner)

text \<open>Nothing of the request as a whole.\<close>

definition open_ended :: "lifecycle list \<Rightarrow> bool" where
  "open_ended es \<longleftrightarrow> set es \<inter> {RequestCompleted, RequestFailed} = {}"

lemma open_ended_simps [simp]:
  "open_ended (es @ fs) \<longleftrightarrow> open_ended es \<and> open_ended fs" "open_ended []"
  "open_ended (e # es) \<longleftrightarrow> e \<notin> {RequestCompleted, RequestFailed} \<and> open_ended es"
  by (auto simp: open_ended_def)

lemma open_ended_inner: "list_all inner es \<Longrightarrow> open_ended es"
  by (induction es) (auto simp: inner_def)

lemma final_frame_simps [simp]:
  "final_frame ch c \<noteq> RequestCompleted" "final_frame ch c \<noteq> RequestFailed" 
  "(case final_frame ch c of Yield ch _ \<Rightarrow> sc_delta ch | _ \<Rightarrow> []) = []"
  by (simp_all add: final_frame_def)

lemma pass_on_trace:
  "pass_on es parts s = (parts', s') \<Longrightarrow>
     \<exists>fs. ex_trace s' = ex_trace s @ fs \<and> open_ended fs \<and> concat parts' = concat parts @ streamed_text fs"
proof (induction es parts s rule: pass_on.induct)
  case (2 ch es parts s)
  show ?case
  proof (cases "sc_done ch")
    case True
    let ?e = "final_frame ch (ex_ctx (on_ctx (take_done ch) s))"
    from 2 True obtain fs where "ex_trace s' = ex_trace s @ ?e # fs" "open_ended fs"
      "concat parts' = concat parts @ streamed_text fs" by (auto simp: Let_def)
    then show ?thesis by (intro exI [of _ "?e # fs"]) simp
  next
    case False
    from 2 False obtain fs where "ex_trace s' = ex_trace s @ Yield ch None # fs" "open_ended fs"
      "concat parts' = concat parts @ sc_delta ch @ streamed_text fs" by auto
    then show ?thesis by (intro exI [of _ "Yield ch None # fs"]) simp
  qed
qed force+

lemma write_answer_frame: "write_answer rt s = (r, s') \<Longrightarrow> ex_trace s' = ex_trace s \<and> ex_ctx s' = ex_ctx s"
  by (auto simp: write_answer_def write_exact_def write_semantic_def and_then_def Let_def dest!: in_world_trace
      split: option.splits prod.splits if_splits)

lemma stream_provider_trace:
  assumes "stream_provider rt s = (r, s')"
  shows "\<exists>fs t. open_ended fs \<and> streamed_text fs = t \<and>
    (case r of
       None \<Rightarrow> ex_trace s' = ex_trace s @ fs @ [ResponseStreamed, RequestCompleted] \<and> rc_response (ex_ctx s') = Some t
     | Some e \<Rightarrow> ex_trace s' = ex_trace s @ fs)"
proof -
  obtain q es w where call: "sv_stream (rtm_services rt) (rc_messages (ex_ctx s))
      (with_model (ex_ctx s) (case rc_options (ex_ctx s) of None \<Rightarrow> [] | Some d \<Rightarrow> d)) (ex_world s) = (q, es, w)"
    using prod_cases3 by blast
  obtain parts s1 where pass: "pass_on es [] (s\<lparr>ex_world := w\<rparr>) = (parts, s1)" by fastforce
  from pass_on_trace [OF pass] obtain fs where fs: "ex_trace s1 = ex_trace s @ fs" "open_ended fs"
    "concat parts = streamed_text fs" by auto
  obtain x s2 where wr: "write_answer rt (on_ctx (rc_response_update (\<lambda>_. Some (concat parts))) s1) = (x, s2)" by fastforce
  show ?thesis
    using assms call pass fs wr write_answer_frame [OF wr]
    by (intro exI [of _ fs] exI [of _ "concat parts"]) (auto simp: stream_provider_def Let_def split: option.splits)
qed

text \<open>
  a stream that ends well has handed out the response. The deltas of the chunks a consumer received are, in
  order, the text the context ends with, which is also what goes to the semantic cache; the last event is
  \<open>request.completed\<close>. This holds for a provider's stream and for an answer from a cache.
\<close>

theorem stream_hands_out_response:
  assumes "stream_request rid rt choice q w = Inr (None, s)" "resolve_pipeline rt choice = Inr p"
    and "discreet (rtm_middleware rt) p"
  shows "rc_response (ex_ctx s) = Some (streamed_text (ex_trace s)) \<and> last (ex_trace s) = RequestCompleted"
proof -
  let ?s0 = "start_execution (make_context rid True p q) w"
  obtain r1 s1 where chain: "run_chain rt p ?s0 = (r1, s1)" by fastforce
  have run: "(None, s) = (case r1 of Some e \<Rightarrow> (Some e, s1) | None \<Rightarrow> finish_stream rt s1)"
    using assms(1,2) chain by (auto simp: stream_request_def and_then_def split: option.splits if_splits)
  have start: "ex_trace ?s0 = [RequestReceived]" by (simp add: start_execution_def)
  from chain assms(3) show ?thesis
  proof (cases rule: run_chain_cases)
    case (returned es)
    then have quiet: "streamed_text (ex_trace s1) = []" using start by (simp add: streamed_text_inner)
    show ?thesis
    proof (cases "rc_short (ex_ctx s1) \<and> rc_response (ex_ctx s1) \<noteq> None")
      case True
      with run returned quiet show ?thesis by (auto simp: finish_stream_def stream_hit_def Let_def)
    next
      case False
      with run returned have "stream_provider rt s1 = (None, s)" by (auto simp: finish_stream_def split: option.splits if_splits)
      from stream_provider_trace [OF this] quiet show ?thesis by auto
    qed
  qed (use run in simp_all)
qed

text \<open>
  a stream that breaks reports nothing. When the pipeline has prepared the request and the provider's stream raises,
  the consumer gets the exception, but neither \<open>request.failed\<close> nor \<open>request.completed\<close> is reported.
\<close>

theorem broken_stream_reports_nothing:
  assumes "stream_request rid rt choice q w = Inr (Some e, s)" "resolve_pipeline rt choice = Inr p"
    and "discreet (rtm_middleware rt) p"
    and "run_chain rt p (start_execution (make_context rid True p q) w) = (None, s1)"
  shows "open_ended (ex_trace s)"
proof -
  have fin: "finish_stream rt s1 = (Some e, s)"
    using assms(1,2,4) by (auto simp: stream_request_def and_then_def split: if_splits)
  then have sp: "stream_provider rt s1 = (Some e, s)" by (auto simp: finish_stream_def split: option.splits if_splits)
  from assms(4,3) have "open_ended (ex_trace s1)"
    by (cases rule: run_chain_cases) (auto simp: start_execution_def open_ended_inner)
  with stream_provider_trace [OF sp] show ?thesis by auto
qed

end
