(* ===== verification/Runtime_Cache.thy ===== *)
theory Runtime_Cache
  imports Runtime_Props
begin

text \<open>
  The runtime and its exact-match cache: a cache that is down changes no answer, and an answer that was stored is served
  again without a call of a provider.
\<close>

section \<open>A cache that is down\<close>

text \<open>Every read misses or fails with a \<open>CacheError\<close>, every write is lost or fails with one.\<close>

definition dead_cache :: "'w services \<Rightarrow> bool" where
  "dead_cache sv \<longleftrightarrow>
     (\<forall>k w. sv_get sv k w = (Inr PNone, w) \<or> (\<exists>m. sv_get sv k w = (Inl (Byo (CacheFailed m)), w)))
     \<and> (\<forall>k v w. sv_set sv k v w = (None, w) \<or> (\<exists>m. sv_set sv k v w = (Some (Byo (CacheFailed m)), w)))
     \<and> (\<forall>q w. sv_session sv q w = (Inr HFailed, w))"

definition about_cache :: "lifecycle \<Rightarrow> bool" where
  "about_cache e \<longleftrightarrow>
     (case e of CacheMiss _ \<Rightarrow> True | StageStarted n \<Rightarrow> n = u ''cache_lookup'' | StageCompleted n \<Rightarrow> n = u ''cache_lookup''
      | _ \<Rightarrow> False)"

text \<open>Two executions that differ in the cache key and in what is reported about the cache only.\<close>

definition mirrors :: "'w execution \<Rightarrow> 'w execution \<Rightarrow> bool" where
  "mirrors s t \<longleftrightarrow>
     ex_ctx t = (ex_ctx s)\<lparr>rc_cache_key := None\<rparr> \<and> ex_world t = ex_world s
     \<and> filter (\<lambda>e. \<not> about_cache e) (ex_trace t) = filter (\<lambda>e. \<not> about_cache e) (ex_trace s)"

definition agree :: "'w effect \<Rightarrow> 'w effect \<Rightarrow> bool" where
  "agree f g \<longleftrightarrow> (\<forall>s t. mirrors s t \<longrightarrow> fst (f s) = fst (g t) \<and> mirrors (snd (f s)) (snd (g t)))"

lemma agreeI:
  "(\<And>s t r s' q t'. mirrors s t \<Longrightarrow> f s = (r, s') \<Longrightarrow> g t = (q, t') \<Longrightarrow> r = q \<and> mirrors s' t') \<Longrightarrow> agree f g"
  unfolding agree_def by (metis prod.collapse)

lemma agreeD: "agree f g \<Longrightarrow> mirrors s t \<Longrightarrow> f s = (r, s') \<Longrightarrow> \<exists>t'. g t = (r, t') \<and> mirrors s' t'"
  unfolding agree_def by (metis fst_conv snd_conv prod.collapse)

lemma mirrors_report [simp]: "mirrors s t \<Longrightarrow> mirrors (report e s) (report e t)"
  by (simp add: mirrors_def report_def)

lemma mirrors_fields:
  assumes "mirrors s t"
  shows "ex_world t = ex_world s" "rc_short (ex_ctx t) = rc_short (ex_ctx s)" "rc_streaming (ex_ctx t) = rc_streaming (ex_ctx s)"
    "rc_messages (ex_ctx t) = rc_messages (ex_ctx s)" "rc_response (ex_ctx t) = rc_response (ex_ctx s)"
    "rc_cached (ex_ctx t) = rc_cached (ex_ctx s)" "rc_embedding (ex_ctx t) = rc_embedding (ex_ctx s)"
    "rc_model (ex_ctx t) = rc_model (ex_ctx s)" "rc_options (ex_ctx t) = rc_options (ex_ctx s)"
    "rc_input (ex_ctx t) = rc_input (ex_ctx s)" "rc_system (ex_ctx t) = rc_system (ex_ctx s)"
    "rc_user (ex_ctx t) = rc_user (ex_ctx s)" "rc_session (ex_ctx t) = rc_session (ex_ctx s)"
    "rc_cache_key (ex_ctx t) = None"
  using assms by (simp_all add: mirrors_def)

lemma mirrors_ctx:
  assumes "mirrors s t" "\<And>c. (f c)\<lparr>rc_cache_key := None\<rparr> = f (c\<lparr>rc_cache_key := None\<rparr>)"
  shows "mirrors (on_ctx f s) (on_ctx f t)"
  using assms by (simp add: mirrors_def on_ctx_def)

lemma mirrors_world: "mirrors s t \<Longrightarrow> mirrors (s\<lparr>ex_world := w\<rparr>) (t\<lparr>ex_world := w\<rparr>)"
  by (simp add: mirrors_def)

lemma mirrors_in_world:
  assumes "mirrors s t" "in_world f s = (r, s')"
  shows "\<exists>t'. in_world f t = (r, t') \<and> mirrors s' t'"
  using assms mirrors_world [OF assms(1)] mirrors_fields(1) [OF assms(1)] by (auto simp: in_world_def split: prod.splits)

section \<open>The stages do not look at the cache key\<close>

lemma agree_and_then: "agree f g \<Longrightarrow> agree f' g' \<Longrightarrow> agree (and_then f f') (and_then g g')"
proof (rule agreeI)
  fix s t r s' q t'
  assume a: "agree f g" "agree f' g'" "mirrors s t" "and_then f f' s = (r, s')" "and_then g g' t = (q, t')"
  obtain x s1 where f: "f s = (x, s1)" by fastforce
  from agreeD [OF a(1,3) f] obtain t1 where t1: "g t = (x, t1)" "mirrors s1 t1" by blast
  show "r = q \<and> mirrors s' t'"
  proof (cases x)
    case None
    then have "f' s1 = (r, s')" "g' t1 = (q, t')" using a(4,5) f t1 by (auto simp: and_then_def)
    with agreeD [OF a(2) t1(2)] show ?thesis by fastforce
  next
    case (Some e)
    with a f t1 show ?thesis by (auto simp: and_then_def)
  qed
qed

lemma last_user_message_key [simp]: "last_user_message (c\<lparr>rc_cache_key := k\<rparr>) = last_user_message c"
  by (simp add: last_user_message_def)

lemma agree_semantic: "agree (semantic_lookup sv threshold) (semantic_lookup sv threshold)"
proof (rule agreeI)
  fix s t r s' q t'
  assume m: "mirrors s t" and f: "semantic_lookup sv threshold s = (r, s')" and g: "semantic_lookup sv threshold t = (q, t')"
  have lu: "last_user_message (ex_ctx t) = last_user_message (ex_ctx s)" using m by (simp add: mirrors_def)
  have miss: "a = b \<and> mirrors s2 t2"
    if "mirrors s1 t1" "semantic_missed e s1 = (a, s2)" "semantic_missed e t1 = (b, t2)" for e s1 t1 a b s2 t2
    using that by (auto simp: semantic_missed_def intro!: mirrors_report mirrors_ctx split: exn.splits)
  show "r = q \<and> mirrors s' t'"
  proof (cases "last_user_message (ex_ctx s)")
    case (Inl e)
    with f g lu m show ?thesis by (simp add: semantic_lookup_def)
  next
    case (Inr msg)
    show ?thesis
    proof (cases msg)
      case None
      with f g lu m Inr show ?thesis by (simp add: semantic_lookup_def)
    next
      case (Some query)
      obtain x s1 where e: "in_world (sv_embed sv query) s = (x, s1)" by fastforce
      from mirrors_in_world [OF m e] obtain t1 where t1: "in_world (sv_embed sv query) t = (x, t1)" "mirrors s1 t1" by blast
      show ?thesis
      proof (cases x)
        case (Inl err)
        with f g lu Inr Some e t1 miss [OF t1(2), of err r s' q t'] show ?thesis by (simp add: semantic_lookup_def)
      next
        case v: (Inr v)
        define s2 where "s2 = on_ctx (rc_embedding_update (\<lambda>_. Some v)) s1"
        define t2 where "t2 = on_ctx (rc_embedding_update (\<lambda>_. Some v)) t1"
        have m2: "mirrors s2 t2" unfolding s2_def t2_def by (rule mirrors_ctx [OF t1(2)]) simp
        obtain y s3 where fi: "in_world (sv_find sv v threshold) s2 = (y, s3)" by fastforce
        from mirrors_in_world [OF m2 fi] obtain t3 where t3: "in_world (sv_find sv v threshold) t2 = (y, t3)" "mirrors s3 t3" by blast
        have eqs: "semantic_lookup sv threshold s = (case y of Inl e \<Rightarrow> semantic_missed e s3 | Inr None \<Rightarrow> (None, report SemanticMiss s3)
            | Inr (Some (answer, score)) \<Rightarrow> (None, on_ctx (short_circuit answer True \<circ> rc_score_update (\<lambda>_. Some score)) (report (SemanticHit score) s3)))"
          using Inr Some e v fi by (simp add: semantic_lookup_def s2_def)
        have eqt: "semantic_lookup sv threshold t = (case y of Inl e \<Rightarrow> semantic_missed e t3 | Inr None \<Rightarrow> (None, report SemanticMiss t3)
            | Inr (Some (answer, score)) \<Rightarrow> (None, on_ctx (short_circuit answer True \<circ> rc_score_update (\<lambda>_. Some score)) (report (SemanticHit score) t3)))"
          using Inr Some lu t1 v t3 by (simp add: semantic_lookup_def t2_def)
        show ?thesis
          using f g t3(2) miss [OF t3(2)] unfolding eqs eqt
          by (auto simp: short_circuit_def intro!: mirrors_report mirrors_ctx split: sum.splits option.splits)
      qed
    qed
  qed
qed

lemma mirrors_routed: "mirrors s t \<Longrightarrow> mirrors (routed es s) (routed es t)"
  by (simp add: mirrors_def routed_def)

lemma agree_provider: "agree (provider_call sv defaults) (provider_call sv defaults)"
proof (rule agreeI)
  fix s t r s' q t'
  assume m: "mirrors s t" and f: "provider_call sv defaults s = (r, s')" and g: "provider_call sv defaults t = (q, t')"
  have opts: "call_options defaults (ex_ctx t) = call_options defaults (ex_ctx s)"
    by (simp add: call_options_def with_model_def mirrors_fields [OF m])
  have upd: "mirrors (on_ctx (take_response x) a) (on_ctx (take_response x) b)" if "mirrors a b" for x a b
    by (rule mirrors_ctx [OF that]) (simp add: take_response_def)
  obtain x es w where call: "sv_complete sv (rc_messages (ex_ctx s)) (call_options defaults (ex_ctx s)) (ex_world s) = (x, es, w)"
    using prod_cases3 by blast
  have mw: "mirrors (routed es (s\<lparr>ex_world := w\<rparr>)) (routed es (t\<lparr>ex_world := w\<rparr>))" by (intro mirrors_routed mirrors_world m)
  show "r = q \<and> mirrors s' t'"
    using f g call m mw upd [OF mw] by (auto simp: provider_call_def Let_def opts mirrors_fields [OF m] split: if_splits sum.splits)
qed

lemma resolve_no_history:
  "resolve_messages repr rv sys (resolver_params rv None c) (\<lambda>_. HFailed) raw
     = resolve_messages repr (rv\<lparr>rv_has_cache := False\<rparr>) sys None (\<lambda>_. HOther) raw"
proof -
  have "read_history repr rv (resolver_params rv None c) (\<lambda>_. HFailed) = Inr ([], False)"
    "read_history repr (rv\<lparr>rv_has_cache := False\<rparr>) None (\<lambda>_. HOther) = Inr ([], False)"
    by (auto simp: read_history_def split: option.splits)
  then show ?thesis by (simp add: resolve_messages_def)
qed

lemma resolve_without_params:
  "resolver_params rv None c = None \<Longrightarrow>
   resolve_messages repr rv sys None (\<lambda>_. HOther) raw = resolve_messages repr (rv\<lparr>rv_has_cache := False\<rparr>) sys None (\<lambda>_. HOther) raw"
  by (auto simp: resolve_messages_def read_history_def)

lemma dead_resolve:
  assumes "dead_cache sv"
  shows "resolve_context repr sv rv None s =
    (case resolve_messages repr (rv\<lparr>rv_has_cache := False\<rparr>) (rc_system (ex_ctx s)) None (\<lambda>_. HOther) (rc_input (ex_ctx s)) of
       Inl e \<Rightarrow> (Some (message_exn e), s) | Inr ms \<Rightarrow> (None, on_ctx (rc_messages_update (\<lambda>_. ms)) s))"
proof (cases "resolver_params rv None (ex_ctx s)")
  case None
  then show ?thesis by (simp add: resolve_context_def resolve_without_params Let_def)
next
  case (Some ps)
  have "sv_session sv ps (ex_world s) = (Inr HFailed, ex_world s)" using assms by (simp add: dead_cache_def)
  then show ?thesis
    using Some resolve_no_history [of repr rv "rc_system (ex_ctx s)" "ex_ctx s"]
    by (simp add: resolve_context_def in_world_def Let_def)
qed

lemma cacheless_resolve:
  "\<not> rv_has_cache rv \<Longrightarrow> resolve_context repr sv rv None s =
    (case resolve_messages repr rv (rc_system (ex_ctx s)) None (\<lambda>_. HOther) (rc_input (ex_ctx s)) of
       Inl e \<Rightarrow> (Some (message_exn e), s) | Inr ms \<Rightarrow> (None, on_ctx (rc_messages_update (\<lambda>_. ms)) s))"
  by (simp add: resolve_context_def resolver_params_def Let_def)

lemma agree_resolve:
  assumes "dead_cache sv"
  shows "agree (resolve_context repr sv rv None) (resolve_context repr sv (rv\<lparr>rv_has_cache := False\<rparr>) None)"
  by (rule agreeI)
    (auto simp: dead_resolve [OF assms] cacheless_resolve mirrors_fields split: sum.splits intro!: mirrors_ctx)

lemma dead_lookup:
  assumes "dead_cache sv" "mirrors s t"
  shows "fst (cache_lookup sha dumps repr None sv s) = None \<and> mirrors (snd (cache_lookup sha dumps repr None sv s)) t"
proof (cases "rc_streaming (ex_ctx s)")
  case True
  with assms show ?thesis by (simp add: cache_lookup_def)
next
  case False
  have m: "mirrors (report (CacheMiss k) (on_ctx (rc_cache_key_update (\<lambda>_. Some k)) s\<lparr>ex_world := ex_world s\<rparr>)) t" for k
    using assms(2) by (simp add: mirrors_def report_def on_ctx_def about_cache_def)
  show ?thesis
  proof (cases "dumps (basis (ex_ctx s) None)")
    case None
    with False assms show ?thesis by (simp add: cache_lookup_def fingerprint_def)
  next
    case (Some body)
    define k where "k = u ''cache:'' @ hex (sha (utf8 body))"
    have fp: "fingerprint sha dumps None (ex_ctx s) = Inr k" using Some by (simp add: fingerprint_def k_def)
    have "sv_get sv k (ex_world s) = (Inr PNone, ex_world s) \<or> (\<exists>e. sv_get sv k (ex_world s) = (Inl (Byo (CacheFailed e)), ex_world s))"
      using assms(1) by (simp add: dead_cache_def)
    then show ?thesis using False fp m [of k] by (auto simp: cache_lookup_def in_world_def Let_def)
  qed
qed

section \<open>The two pipelines\<close>

lemma agree_with_dead_stage:
  assumes "dead_cache sv" "agree (run_stages sts) (run_stages sts')" "stage_name st = u ''cache_lookup''"
    and "st_run st = cache_lookup sha dumps repr None sv"
  shows "agree (run_stages (st # sts)) (run_stages sts')"
proof (rule agreeI)
  fix s t r s' q t'
  assume m: "mirrors s t" and f: "run_stages (st # sts) s = (r, s')" and g: "run_stages sts' t = (q, t')"
  show "r = q \<and> mirrors s' t'"
  proof (cases "rc_short (ex_ctx s)")
    case True
    with f g m show ?thesis by (simp add: mirrors_fields run_stages_stopped)
  next
    case False
    have "mirrors (report (StageStarted (u ''cache_lookup'')) s) t" using m by (simp add: mirrors_def report_def about_cache_def)
    then obtain s1 where s1: "cache_lookup sha dumps repr None sv (report (StageStarted (u ''cache_lookup'')) s) = (None, s1)" "mirrors s1 t"
      using dead_lookup [OF assms(1)] by (metis prod.collapse)
    then have "mirrors (report (StageCompleted (u ''cache_lookup'')) s1) t" by (simp add: mirrors_def report_def about_cache_def)
    moreover have "run_stages sts (report (StageCompleted (u ''cache_lookup'')) s1) = (r, s')"
      using f False s1 assms(3,4) by simp
    ultimately show ?thesis using agreeD [OF assms(2)] g by fastforce
  qed
qed

lemma agree_first_stage:
  assumes "stage_name a = stage_name b" "agree (st_run a) (st_run b)" "agree (run_stages sts) (run_stages sts')"
  shows "agree (run_stages (a # sts)) (run_stages (b # sts'))"
proof (rule agreeI)
  fix s t r s' q t'
  assume m: "mirrors s t" and f: "run_stages (a # sts) s = (r, s')" and g: "run_stages (b # sts') t = (q, t')"
  show "r = q \<and> mirrors s' t'"
  proof (cases "rc_short (ex_ctx s)")
    case True
    with f g m show ?thesis by (simp add: mirrors_fields)
  next
    case False
    obtain x s1 where x: "st_run a (report (StageStarted (stage_name a)) s) = (x, s1)" by fastforce
    from agreeD [OF assms(2) mirrors_report [OF m] x] obtain t1
      where t1: "st_run b (report (StageStarted (stage_name a)) t) = (x, t1)" "mirrors s1 t1" by blast
    show ?thesis
    proof (cases x)
      case None
      with f g x t1 assms(1) m False have "run_stages sts (report (StageCompleted (stage_name a)) s1) = (r, s')"
        "run_stages sts' (report (StageCompleted (stage_name a)) t1) = (q, t')" by (simp_all add: mirrors_fields)
      with agreeD [OF assms(3) mirrors_report [OF t1(2)]] show ?thesis by fastforce
    next
      case (Some e)
      with f g x t1 assms(1) m False show ?thesis by (auto simp: mirrors_fields)
    qed
  qed
qed

lemma agree_run_stages_same:
  "list_all (\<lambda>a. agree (st_run a) (st_run a)) sts \<Longrightarrow> agree (run_stages sts) (run_stages sts)"
proof (induction sts)
  case Nil
  then show ?case by (simp add: agree_def)
next
  case (Cons a sts)
  then show ?case by (intro agree_first_stage) simp_all
qed

definition uncached :: "'w runtime_setup \<Rightarrow> 'w runtime_setup" where
  "uncached su = su\<lparr>su_cache := False\<rparr>"

lemma agree_default:
  assumes "dead_cache (su_services su)" "su_cache su"
  shows "agree (execute_pipeline (default_pipeline sha dumps repr su)) (execute_pipeline (default_pipeline sha dumps repr (uncached su)))"
proof -
  define later where "later = (if su_semantic su
           then [wire_stage ''semantic_cache_lookup'' ''SemanticCacheLookup'' (semantic_lookup (su_services su) (threshold_of su))]
           else [])
        @ (if su_router su then [wire_stage ''provider_call'' ''ProviderCall'' (provider_call (su_services su) [])] else [])"
  define look where "look = wire_stage ''cache_lookup'' ''CacheLookup'' (cache_lookup sha dumps repr None (su_services su))"
  have later: "agree (run_stages later) (run_stages later)"
    by (rule agree_run_stages_same) (simp add: later_def wire_stage_def agree_semantic agree_provider)
  have looks: "stage_name look = u ''cache_lookup''" "st_run look = cache_lookup sha dumps repr None (su_services su)"
    by (simp_all add: look_def wire_stage_def stage_name_def)
  note tail = agree_with_dead_stage [OF assms(1) later looks]
  let ?rv = "\<lparr>rv_system_prompt = su_system su, rv_has_cache = True, rv_max_history = 20\<rparr>"
  let ?rv' = "\<lparr>rv_system_prompt = su_system su, rv_has_cache = False, rv_max_history = 20\<rparr>"
  have "agree (resolve_context repr (su_services su) ?rv None) (resolve_context repr (su_services su) ?rv' None)"
    using agree_resolve [OF assms(1), of repr ?rv] by simp
  then have "agree (run_stages (wire_stage ''context_resolver'' ''ContextResolver'' (resolve_context repr (su_services su) ?rv None) # look # later))
      (run_stages (wire_stage ''context_resolver'' ''ContextResolver'' (resolve_context repr (su_services su) ?rv' None) # later))"
    by (intro agree_first_stage tail) (simp_all add: wire_stage_def stage_name_def)
  moreover have "pl_stages (default_pipeline sha dumps repr su)
      = wire_stage ''context_resolver'' ''ContextResolver'' (resolve_context repr (su_services su) ?rv None) # look # later"
    by (simp add: default_pipeline_def look_def later_def assms(2))
  moreover have "pl_stages (default_pipeline sha dumps repr (uncached su))
      = wire_stage ''context_resolver'' ''ContextResolver'' (resolve_context repr (su_services su) ?rv' None) # later"
    by (simp add: default_pipeline_def later_def uncached_def threshold_of_def)
  ultimately show ?thesis by (simp only: execute_pipeline_def)
qed

section \<open>The whole request\<close>

lemma agree_report: "agree f g \<Longrightarrow> agree (\<lambda>s. case f s of (Some e, s') \<Rightarrow> (Some e, s') | (None, s') \<Rightarrow> (None, report e s'))
    (\<lambda>s. case g s of (Some e, s') \<Rightarrow> (Some e, s') | (None, s') \<Rightarrow> (None, report e s'))"
  by (rule agreeI) (auto dest!: agreeD split: prod.splits option.splits)

lemma agree_write_exact:
  assumes "dead_cache (rtm_services rt)" "\<not> rtm_cache rt'"
  shows "agree (write_exact rt t) (write_exact rt' t)"
proof (rule agreeI)
  fix s u r s' q u'
  assume m: "mirrors s u" and f: "write_exact rt t s = (r, s')" and g: "write_exact rt' t u = (q, u')"
  have g': "q = None" "u' = u" using g assms(2) mirrors_fields(14) [OF m] by (simp_all add: write_exact_def)
  have outcome: "sv_set (rtm_services rt) k v (ex_world s) = (None, ex_world s)
      \<or> (\<exists>e. sv_set (rtm_services rt) k v (ex_world s) = (Some (Byo (CacheFailed e)), ex_world s))" for k v
    using assms(1) by (simp add: dead_cache_def)
  have "r = None \<and> s' = s"
  proof (cases "rc_cache_key (ex_ctx s)")
    case None
    with f show ?thesis by (simp add: write_exact_def)
  next
    case (Some k)
    with f outcome [of k "cache_entry t (ex_ctx s)"] show ?thesis
      by (auto simp: write_exact_def in_world_def swallow_cache_def split: if_splits)
  qed
  with g' m show "r = q \<and> mirrors s' u'" by simp
qed


text \<open>Two runtimes that use the same services, the second without the exact-match cache.\<close>

definition without_cache :: "'w runtime \<Rightarrow> 'w runtime \<Rightarrow> bool" where
  "without_cache rt rt' \<longleftrightarrow>
     rtm_services rt' = rtm_services rt \<and> \<not> rtm_cache rt' \<and> rtm_semantic rt' = rtm_semantic rt
     \<and> rtm_middleware rt = [] \<and> rtm_middleware rt' = []"

lemma agree_write_semantic:
  assumes "without_cache rt rt'"
  shows "agree (write_semantic rt t) (write_semantic rt' t)"
proof (rule agreeI)
  fix s u r s' q u'
  assume m: "mirrors s u" and f: "write_semantic rt t s = (r, s')" and g: "write_semantic rt' t u = (q, u')"
  show "r = q \<and> mirrors s' u'"
  proof (cases "rc_embedding (ex_ctx s)")
    case None
    with f g m show ?thesis by (simp add: write_semantic_def mirrors_fields)
  next
    case (Some v)
    obtain x s1 where x: "in_world (sv_add (rtm_services rt) v t) s = (x, s1)" by fastforce
    from mirrors_in_world [OF m x] obtain u1 where "in_world (sv_add (rtm_services rt) v t) u = (x, u1)" "mirrors s1 u1" by blast
    with x f g m Some assms show ?thesis by (auto simp: write_semantic_def without_cache_def mirrors_fields split: if_splits)
  qed
qed

lemma agree_write_answer:
  assumes "dead_cache (rtm_services rt)" "without_cache rt rt'"
  shows "agree (write_answer rt) (write_answer rt')"
proof (rule agreeI)
  fix s u r s' q u'
  assume m: "mirrors s u" and f: "write_answer rt s = (r, s')" and g: "write_answer rt' u = (q, u')"
  have nc: "\<not> rtm_cache rt'" using assms(2) by (simp add: without_cache_def)
  show "r = q \<and> mirrors s' u'"
  proof (cases "rc_response (ex_ctx s)")
    case None
    with f g m show ?thesis by (simp add: write_answer_def mirrors_fields)
  next
    case (Some t)
    note both = agree_and_then [OF agree_write_exact [OF assms(1) nc, of t] agree_write_semantic [OF assms(2), of t]]
    show ?thesis
    proof (cases "rc_cached (ex_ctx s) \<or> t = []")
      case True
      with f g m Some show ?thesis by (simp add: write_answer_def mirrors_fields)
    next
      case False
      with f g m Some have "and_then (write_exact rt t) (write_semantic rt t) s = (r, s')"
        "and_then (write_exact rt' t) (write_semantic rt' t) u = (q, u')" by (simp_all add: write_answer_def mirrors_fields)
      with agreeD [OF both m] show ?thesis by fastforce
    qed
  qed
qed

lemma agree_finish_execute:
  assumes "dead_cache (rtm_services rt)" "without_cache rt rt'"
  shows "agree (finish_execute rt) (finish_execute rt')"
proof (rule agreeI)
  fix s u r s' q u'
  assume m: "mirrors s u" and f: "finish_execute rt s = (r, s')" and g: "finish_execute rt' u = (q, u')"
  obtain x s1 where x: "write_answer rt s = (x, s1)" by fastforce
  from agreeD [OF agree_write_answer [OF assms] m x] obtain u1 where u1: "write_answer rt' u = (x, u1)" "mirrors s1 u1" by blast
  show "r = q \<and> mirrors s' u'"
    using f g x u1 m by (auto simp: finish_execute_def mirrors_fields split: if_splits option.splits)
qed

lemma agree_run_chain:
  assumes "without_cache rt rt'" "agree (execute_pipeline p) (execute_pipeline p')"
  shows "agree (run_chain rt p) (run_chain rt' p')"
proof (rule agreeI)
  fix s u r s' q u'
  assume m: "mirrors s u" and f: "run_chain rt p s = (r, s')" and g: "run_chain rt' p' u = (q, u')"
  obtain x s1 where x: "execute_pipeline p s = (x, s1)" by fastforce
  from agreeD [OF assms(2) m x] obtain u1 where u1: "execute_pipeline p' u = (x, u1)" "mirrors s1 u1" by blast
  show "r = q \<and> mirrors s' u'"
    using f g x u1 assms(1)
    by (auto simp: run_chain_def execute_chain_def without_cache_def split: option.splits exn.splits)
qed

lemma mirrors_start: "mirrors (start_execution c w) (start_execution (c\<lparr>rc_cache_key := None\<rparr>) w)"
  by (simp add: mirrors_def start_execution_def)

lemma make_context_keyless: "pl_name p = pl_name p' \<Longrightarrow>
    make_context rid b p' q = (make_context rid b p q)\<lparr>rc_cache_key := None\<rparr>"
  by (simp add: make_context_def new_context_def)

lemma new_runtime_pair:
  assumes "new_runtime sha dumps repr su = Inr rt" "new_runtime sha dumps repr (uncached su) = Inr rt'"
  shows "rtm_services rt = su_services su" "without_cache rt rt'" "rtm_router rt' = rtm_router rt"
    "rtm_default rt = default_pipeline sha dumps repr su" "rtm_default rt' = default_pipeline sha dumps repr (uncached su)"
  using assms by (auto simp: new_runtime_def without_cache_def uncached_def Let_def split: if_splits)

text \<open>
  C33: an outage of the exact-match cache changes no answer. A runtime whose cache misses or fails on every call gives
  a request the result the same runtime gives it without a cache: the same exception or response, the same context but
  for the cache key, the same effects on providers and stores, and the same events but for those about the cache.
\<close>

theorem cache_outage_changes_nothing:
  assumes "dead_cache (su_services su)" "su_cache su"
    and "new_runtime sha dumps repr su = Inr rt" "new_runtime sha dumps repr (uncached su) = Inr rt'"
  shows "\<exists>r s t. execute_request rid rt DefaultPipeline q w = Inr (r, s)
    \<and> execute_request rid rt' DefaultPipeline q w = Inr (r, t) \<and> mirrors s t"
proof -
  note pair = new_runtime_pair [OF assms(3,4)]
  let ?p = "default_pipeline sha dumps repr su" and ?p' = "default_pipeline sha dumps repr (uncached su)"
  let ?c = "make_context rid False ?p q"
  have c: "make_context rid False ?p' q = ?c\<lparr>rc_cache_key := None\<rparr>"
    by (rule make_context_keyless) (simp add: default_pipeline_def)
  have dead: "dead_cache (rtm_services rt)" using assms(1) pair(1) by simp
  have "agree (and_then (run_chain rt ?p) (finish_execute rt)) (and_then (run_chain rt' ?p') (finish_execute rt'))"
    by (intro agree_and_then agree_run_chain [OF pair(2)] agree_finish_execute [OF dead pair(2)] agree_default assms)
  from agreeD [OF this mirrors_start [of ?c w]]
  obtain r s t where "and_then (run_chain rt ?p) (finish_execute rt) (start_execution ?c w) = (r, s)"
    "and_then (run_chain rt' ?p') (finish_execute rt') (start_execution (?c\<lparr>rc_cache_key := None\<rparr>) w) = (r, t)" "mirrors s t"
    by (metis prod.collapse)
  then show ?thesis using pair by (simp add: execute_request_def resolve_pipeline_def c)
qed

end
