(* ===== verification/Runtime_Live.thy ===== *)
theory Runtime_Live
  imports Runtime_Cache Cache_Props
begin

text \<open>
  The runtime over the repository's own components: the in-memory cache of \<open>cache/memory.py\<close> and the provider router
  of \<open>providers/router.py\<close>. What a provider answers is still an argument, and so is the clock.
\<close>

section \<open>The live world\<close>

record live_world =
  lw_cache :: "pyval mem_cache"
  lw_router :: router
  lw_now :: pyfloat
  lw_calls :: nat

text \<open>
  \<open>ask ms opts n p k\<close> is what provider \<open>p\<close> does with its \<open>k\<close>-th call of the \<open>n\<close>-th request that reaches the router.
  \<open>cancels\<close> tells which exceptions that are no \<open>ProviderError\<close> are no \<open>Exception\<close> either. \<open>fill\<close> is \<open>str.format\<close>.
\<close>

record providers =
  pr_ask :: "message list \<Rightarrow> (pykey \<times> pyval) list \<Rightarrow> nat \<Rightarrow> llm_provider \<Rightarrow> nat \<Rightarrow> reply"
  pr_stream :: "message list \<Rightarrow> (pykey \<times> pyval) list \<Rightarrow> nat \<Rightarrow> llm_provider \<Rightarrow> nat \<Rightarrow> streamed"
  pr_jitter :: "nat \<Rightarrow> pyfloat"
  pr_cancels :: "foreign_error \<Rightarrow> bool"
  pr_fill :: "pystr \<Rightarrow> (pystr \<times> pystr) list \<Rightarrow> pystr option"

definition escaped :: "providers \<Rightarrow> foreign_error \<Rightarrow> exn" where
  "escaped pr x = (if pr_cancels pr x then Cancel x else Foreign x)"

definition route_exn :: "providers \<Rightarrow> 'r route_result \<Rightarrow> exn + 'r" where
  "route_exn pr r =
     (case r of
        Returned x \<Rightarrow> Inr x
      | AllFailed es \<Rightarrow> Inl (Byo (AllProvidersFailed es))
      | Raised e \<Rightarrow> Inl (Byo (ProviderFailed e))
      | Escaped x \<Rightarrow> Inl (escaped pr x))"

definition live_get :: "pystr \<Rightarrow> live_world \<Rightarrow> (exn + pyval) \<times> live_world" where
  "live_get k w = (case cache_get k (lw_now w) (lw_cache w) of (v, c) \<Rightarrow> (Inr (opt_val v), w\<lparr>lw_cache := c\<rparr>))"

definition live_put :: "pystr \<Rightarrow> pyval \<Rightarrow> live_world \<Rightarrow> exn option \<times> live_world" where
  "live_put k v w =
     (case cache_set k v None (lw_now w) (lw_cache w) of
        (Inl _, c) \<Rightarrow> (Some (Foreign (u ''StopIteration'')), w\<lparr>lw_cache := c\<rparr>)
      | (Inr _, c) \<Rightarrow> (None, w\<lparr>lw_cache := c\<rparr>))"

definition live_session :: "providers \<Rightarrow> (pystr \<times> pystr) list \<Rightarrow> live_world \<Rightarrow> (exn + history) \<times> live_world" where
  "live_session pr ps w =
     (case read_app_session (pr_fill pr) ps (lw_cache w) of
        Inl _ \<Rightarrow> (Inr HFailed, w)
      | Inr (Some (PSeq xs)) \<Rightarrow> (Inr (HList (map IVal xs)), w)
      | Inr _ \<Rightarrow> (Inr HOther, w))"

definition live_complete ::
  "providers \<Rightarrow> message list \<Rightarrow> (pykey \<times> pyval) list \<Rightarrow> live_world \<Rightarrow> (exn + provider_response) \<times> emitted list \<times> live_world" where
  "live_complete pr ms opts w =
     (case complete (pr_ask pr ms opts (lw_calls w)) (pr_jitter pr) (lw_router w) of
        (r, st, rt) \<Rightarrow> (route_exn pr r, rn_trace st, w\<lparr>lw_router := rt, lw_calls := lw_calls w + 1\<rparr>))"

definition live_stream ::
  "providers \<Rightarrow> message list \<Rightarrow> (pykey \<times> pyval) list \<Rightarrow> live_world \<Rightarrow> exn option \<times> emitted list \<times> live_world" where
  "live_stream pr ms opts w =
     (case stream (pr_stream pr ms opts (lw_calls w)) (pr_jitter pr) (lw_router w) of
        (r, st, rt) \<Rightarrow>
          (case route_exn pr r of Inl e \<Rightarrow> Some e | Inr _ \<Rightarrow> None, rn_trace st, w\<lparr>lw_router := rt, lw_calls := lw_calls w + 1\<rparr>))"

text \<open>No embedder, semantic cache or vector store is configured.\<close>

definition unconfigured :: "exn + 'a" where
  "unconfigured = Inl (Foreign (u ''AttributeError''))"

definition live_services :: "providers \<Rightarrow> live_world services" where
  "live_services pr =
     \<lparr>sv_get = live_get, sv_set = live_put, sv_session = live_session pr, sv_embed = (\<lambda>_ w. (unconfigured, w)),
      sv_find = (\<lambda>_ _ w. (unconfigured, w)), sv_add = (\<lambda>_ _ w. (None, w)), sv_search = (\<lambda>_ _ _ w. (unconfigured, w)),
      sv_complete = live_complete pr, sv_stream = live_stream pr\<rparr>"

section \<open>A store that answers what was put into it\<close>

text \<open>A runtime with an exact-match cache and providers, and nothing else.\<close>

definition plain_setup :: "'w services \<Rightarrow> pystr option \<Rightarrow> 'w runtime_setup" where
  "plain_setup sv sys =
     \<lparr>su_services = sv, su_cache = True, su_semantic = False, su_from_config = False, su_metric = [],
      su_threshold = None, su_embedder = False, su_router = True, su_system = sys\<rparr>"

lemma plain_stages:
  "pl_stages (default_pipeline sha dumps repr (plain_setup sv sys)) =
     [wire_stage ''context_resolver'' ''ContextResolver''
        (resolve_context repr sv \<lparr>rv_system_prompt = sys, rv_has_cache = True, rv_max_history = 20\<rparr> None),
      wire_stage ''cache_lookup'' ''CacheLookup'' (cache_lookup sha dumps repr None sv),
      wire_stage ''provider_call'' ''ProviderCall'' (provider_call sv [])]"
  by (simp add: default_pipeline_def plain_setup_def)

lemma plain_runtime:
  "new_runtime sha dumps repr (plain_setup sv sys) = Inr rt \<Longrightarrow>
     rtm_services rt = sv \<and> rtm_cache rt \<and> \<not> rtm_semantic rt \<and> rtm_middleware rt = []
     \<and> rtm_default rt = default_pipeline sha dumps repr (plain_setup sv sys)"
  by (auto simp: new_runtime_def plain_setup_def Let_def)

lemma wire_stage_simps [simp]: "stage_name (wire_stage n c f) = u n" "st_run (wire_stage n c f) = f"
  by (simp_all add: wire_stage_def stage_name_def)

lemma stage_step:
  "\<not> rc_short (ex_ctx s) \<Longrightarrow> f (report (StageStarted (u n)) s) = (None, s1) \<Longrightarrow>
   run_stages (wire_stage n c f # sts) s = run_stages sts (report (StageCompleted (u n)) s1)"
  by simp

lemma fingerprint_nonempty: "fingerprint sha dumps hook c = Inr k \<Longrightarrow> k \<noteq> []"
  by (auto simp: fingerprint_def rbind_Inr_iff u_def split: option.splits)

lemma fingerprint_rid [simp]: "fingerprint sha dumps None (c\<lparr>rc_request_id := rid\<rparr>) = fingerprint sha dumps None c"
  by (simp add: fingerprint_def basis_def)

lemma use_entry:
  "use_hit repr (cache_entry t c') c =
     short_circuit t True (c\<lparr>rc_model := py_or (rc_model c') (rc_model c), rc_provider := rc_provider c', rc_finish := rc_finish c'\<rparr>)"
  by (simp add: use_hit_def cache_entry_def dget_def key_str_def shown_text_def)

text \<open>
  What a runtime relies on: an answer stored without an error is found as long as the store \<open>holds\<close> what it held, and
  looking it up changes nothing. \<open>about\<close> is what the histories of sessions depend on; no other call touches it.
\<close>

locale answer_store =
  fixes sv :: "'w services" and holds :: "'w \<Rightarrow> 'w \<Rightarrow> bool" and about :: "'w \<Rightarrow> 's"
  assumes found: "sv_set sv k v w = (None, w1) \<Longrightarrow> v \<noteq> PNone \<Longrightarrow> holds w1 w2 \<Longrightarrow> sv_get sv k w2 = (Inr v, w2)"
    and set_fails: "fst (sv_set sv k v w) \<noteq> Some (Byo (CacheFailed m))"
    and session_of: "about w = about w' \<Longrightarrow> fst (sv_session sv ps w) = fst (sv_session sv ps w')"
    and session_only: "snd (sv_session sv ps w) = w"
    and about_get: "about (snd (sv_get sv k w)) = about w"
    and about_set: "about (snd (sv_set sv k v w)) = about w"
    and about_complete: "about (snd (snd (sv_complete sv ms opts w))) = about w"
    and about_holds: "holds w1 w2 \<Longrightarrow> about w2 = about w1"
begin

lemma resolves_again:
  assumes "resolve_context repr sv rv None s = (None, s1)"
  obtains ms where "s1 = on_ctx (rc_messages_update (\<lambda>_. ms)) s"
    "\<And>t :: 'w execution. ex_ctx t = (ex_ctx s)\<lparr>rc_request_id := rid\<rparr> \<Longrightarrow> about (ex_world t) = about (ex_world s)
      \<Longrightarrow> resolve_context repr sv rv None t = (None, on_ctx (rc_messages_update (\<lambda>_. ms)) t)"
proof -
  define ps where "ps = resolver_params rv None (ex_ctx s)"
  define r where "r = (case ps of None \<Rightarrow> Inr HOther | Some q \<Rightarrow> fst (sv_session sv q (ex_world s)))"
  have world: "in_world (sv_session sv q) x = (fst (sv_session sv q (ex_world x)), x)" for q x
    using session_only [of q "ex_world x"] by (simp add: in_world_def split_def)
  have eq: "resolve_context repr sv rv None s =
      (case r of Inl e \<Rightarrow> (Some e, s)
       | Inr h \<Rightarrow> (case resolve_messages repr rv (rc_system (ex_ctx s)) ps (\<lambda>_. h) (rc_input (ex_ctx s)) of
             Inl e \<Rightarrow> (Some (message_exn e), s) | Inr ms \<Rightarrow> (None, on_ctx (rc_messages_update (\<lambda>_. ms)) s)))"
    unfolding resolve_context_def Let_def ps_def [symmetric] by (auto simp: world r_def split: option.splits)
  then obtain h ms where h: "r = Inr h" "resolve_messages repr rv (rc_system (ex_ctx s)) ps (\<lambda>_. h) (rc_input (ex_ctx s)) = Inr ms"
    "s1 = on_ctx (rc_messages_update (\<lambda>_. ms)) s"
    using assms by (auto split: sum.splits)
  show thesis
  proof (rule that [OF h(3)])
    fix t :: "'w execution" assume t: "ex_ctx t = (ex_ctx s)\<lparr>rc_request_id := rid\<rparr>" "about (ex_world t) = about (ex_world s)"
    have "resolver_params rv None (ex_ctx t) = ps" using t(1) by (simp add: ps_def resolver_params_def)
    moreover have "(case ps of None \<Rightarrow> Inr HOther | Some q \<Rightarrow> fst (sv_session sv q (ex_world t))) = r"
      using session_of [OF t(2)] by (simp add: r_def split: option.splits)
    ultimately show "resolve_context repr sv rv None t = (None, on_ctx (rc_messages_update (\<lambda>_. ms)) t)"
      using h t(1) by (auto simp: resolve_context_def Let_def world split: option.splits)
  qed
qed

lemma use_hit_cached [simp]: "rc_cached (use_hit repr hit c)"
  by (auto simp: use_hit_def short_circuit_def split: pyval.splits option.splits)

lemma lookup_missed:
  assumes "cache_lookup sha dumps repr None sv s = (None, s1)" "rc_cache_key (ex_ctx s1) = Some k"
    and "rc_cached (ex_ctx s1) = False" "\<not> rc_streaming (ex_ctx s)" "rc_cache_key (ex_ctx s) = None"
  shows "fingerprint sha dumps None (ex_ctx s) = Inr k \<and> ex_ctx s1 = (ex_ctx s)\<lparr>rc_cache_key := Some k\<rparr>
    \<and> about (ex_world s1) = about (ex_world s)"
proof (cases "fingerprint sha dumps None (ex_ctx s)")
  case (Inl e)
  with assms show ?thesis by (cases e) (simp_all add: cache_lookup_def)
next
  case (Inr k')
  obtain r w1 where get: "sv_get sv k' (ex_world s) = (r, w1)" by fastforce
  have w1: "about w1 = about (ex_world s)" using about_get [of k' "ex_world s"] get by simp
  from assms(1,4) Inr get have "s1 = report (CacheMiss k') ((on_ctx (rc_cache_key_update (\<lambda>_. Some k')) s)\<lparr>ex_world := w1\<rparr>)
      \<or> (\<exists>hit s2. s1 = on_ctx (use_hit repr hit) s2)"
    by (auto simp: cache_lookup_def in_world_def Let_def split: sum.splits exn.splits byo_error.splits if_splits)
  then show ?thesis using assms(2,3) w1 Inr by (auto simp: on_ctx_def)
qed

lemma provider_answered:
  assumes "provider_call sv [] s = (None, s1)" "\<not> rc_streaming (ex_ctx s)"
  shows "rc_cache_key (ex_ctx s1) = rc_cache_key (ex_ctx s) \<and> about (ex_world s1) = about (ex_world s)
    \<and> rc_cached (ex_ctx s1) = rc_cached (ex_ctx s)"
proof -
  obtain x es w where call: "sv_complete sv (rc_messages (ex_ctx s)) (call_options [] (ex_ctx s)) (ex_world s) = (x, es, w)"
    using prod_cases3 by blast
  have "about w = about (ex_world s)"
    using about_complete [of "rc_messages (ex_ctx s)" "call_options [] (ex_ctx s)" "ex_world s"] call by simp
  with assms call show ?thesis
    by (auto simp: provider_call_def routed_def take_response_def Let_def split: sum.splits)
qed

lemma lookup_streaming: "cache_lookup sha dumps repr None sv s = (r, s1) \<Longrightarrow> rc_streaming (ex_ctx s1) = rc_streaming (ex_ctx s)"
  by (auto simp: cache_lookup_def in_world_def use_hit_def short_circuit_def Let_def
      split: sum.splits exn.splits byo_error.splits prod.splits if_splits pyval.splits option.splits)

lemma stages_returned:
  assumes "run_stages (st # sts) s = (None, s')" "\<not> rc_short (ex_ctx s)"
  obtains s1 where "st_run st (report (StageStarted (stage_name st)) s) = (None, s1)"
    "run_stages sts (report (StageCompleted (stage_name st)) s1) = (None, s')"
  using assms by (auto split: prod.splits option.splits)

lemma first_run:
  assumes rt: "new_runtime sha dumps repr (plain_setup sv sys) = Inr rt"
    and run: "execute_request rid rt DefaultPipeline q w = Inr (None, s)"
    and answer: "rc_response (ex_ctx s) = Some t" "t \<noteq> []" "rc_cached (ex_ctx s) = False" "rc_cache_key (ex_ctx s) = Some k"
  defines "c \<equiv> make_context rid False (rtm_default rt) q"
    and "rv \<equiv> \<lparr>rv_system_prompt = sys, rv_has_cache = True, rv_max_history = 20\<rparr>"
  obtains s0 s1 w3 where "s0 = report (StageStarted (u ''context_resolver'')) (start_execution c w)"
    "resolve_context repr sv rv None s0 = (None, s1)" "fingerprint sha dumps None (ex_ctx s1) = Inr k"
    "sv_set sv k (cache_entry t (ex_ctx s)) w3 = (None, ex_world s)" "about (ex_world s) = about w"
proof -
  note plain = plain_runtime [OF rt]
  obtain s4 where stages: "run_stages (pl_stages (rtm_default rt)) (start_execution c w) = (None, s4)"
    and fin: "finish_execute rt s4 = (None, s)"
    using run plain
    by (auto simp: execute_request_def resolve_pipeline_def c_def run_chain_def execute_chain_def execute_pipeline_def and_then_def
        split: prod.splits option.splits exn.splits)
  obtain s5 where wr: "write_answer rt s4 = (None, s5)" "s = report RequestCompleted s5"
    using fin by (auto simp: finish_execute_def split: if_splits prod.splits option.splits)
  have ctx: "ex_ctx s4 = ex_ctx s" using write_answer_frame [OF wr(1)] wr(2) by simp
  let ?s0 = "report (StageStarted (u ''context_resolver'')) (start_execution c w)"
  let ?R = "wire_stage ''context_resolver'' ''ContextResolver'' (resolve_context repr sv rv None)"
  let ?L = "wire_stage ''cache_lookup'' ''CacheLookup'' (cache_lookup sha dumps repr None sv)"
  let ?P = "wire_stage ''provider_call'' ''ProviderCall'' (provider_call sv [])"
  have open0: "\<not> rc_short (ex_ctx (start_execution c w))" by (simp add: start_execution_def c_def make_context_def new_context_def)
  have three: "run_stages [?R, ?L, ?P] (start_execution c w) = (None, s4)"
    using stages plain by (simp only: plain_stages rv_def)
  obtain s1 where s1: "resolve_context repr sv rv None ?s0 = (None, s1)"
    and rest1: "run_stages [?L, ?P] (report (StageCompleted (u ''context_resolver'')) s1) = (None, s4)"
    by (rule stages_returned [OF three open0]) (simp only: wire_stage_simps)
  obtain ms where ms: "s1 = on_ctx (rc_messages_update (\<lambda>_. ms)) ?s0" by (rule resolves_again [OF s1])
  have c1: "\<not> rc_short (ex_ctx s1)" "\<not> rc_streaming (ex_ctx s1)" "rc_cache_key (ex_ctx s1) = None" "ex_world s1 = w"
    unfolding ms by (simp_all add: start_execution_def c_def make_context_def new_context_def)
  define s1' where "s1' = report (StageCompleted (u ''context_resolver'')) s1"
  define sL where "sL = report (StageStarted (u ''cache_lookup'')) s1'"
  have cL: "ex_ctx sL = ex_ctx s1" "ex_world sL = w" "\<not> rc_short (ex_ctx s1')" using c1 by (simp_all add: sL_def s1'_def)
  obtain s2 where s2: "cache_lookup sha dumps repr None sv sL = (None, s2)"
    and rest2: "run_stages [?P] (report (StageCompleted (u ''cache_lookup'')) s2) = (None, s4)"
    by (rule stages_returned [OF rest1 [folded s1'_def] cL(3)]) (simp only: wire_stage_simps sL_def)
  define s2' where "s2' = report (StageCompleted (u ''cache_lookup'')) s2"
  have after: "rc_cache_key (ex_ctx s4) = rc_cache_key (ex_ctx s2) \<and> rc_cached (ex_ctx s4) = rc_cached (ex_ctx s2)
      \<and> about (ex_world s4) = about (ex_world s2)" if "\<not> rc_streaming (ex_ctx s2)"
  proof (cases "rc_short (ex_ctx s2')")
    case True
    with rest2 show ?thesis by (auto simp: s2'_def)
  next
    case False
    obtain s3 where s3: "provider_call sv [] (report (StageStarted (u ''provider_call'')) s2') = (None, s3)"
      and rest3: "run_stages [] (report (StageCompleted (u ''provider_call'')) s3) = (None, s4)"
      by (rule stages_returned [OF rest2 [folded s2'_def] False]) (simp only: wire_stage_simps)
    from provider_answered [OF s3] that rest3 show ?thesis by (auto simp: s2'_def)
  qed
  have still: "\<not> rc_streaming (ex_ctx s2)" using lookup_streaming [OF s2] c1 cL by simp
  have two: "rc_cache_key (ex_ctx s2) = Some k" "rc_cached (ex_ctx s2) = False" using after [OF still] answer ctx by simp_all
  have missed: "fingerprint sha dumps None (ex_ctx s1) = Inr k \<and> about (ex_world s2) = about w"
    using lookup_missed [OF s2 two] c1 cL by simp
  have "write_exact rt t s4 = (None, s5)"
    using wr(1) answer plain ctx
    by (auto simp: write_answer_def and_then_def write_semantic_def split: prod.splits option.splits)
  moreover have "k \<noteq> []" using fingerprint_nonempty missed by blast
  ultimately obtain x where x: "sv_set sv k (cache_entry t (ex_ctx s)) (ex_world s4) = (x, ex_world s5)" "swallow_cache x = None"
    using answer plain ctx by (auto simp: write_exact_def in_world_def split: prod.splits)
  have "x = None" using x set_fails [of k "cache_entry t (ex_ctx s)" "ex_world s4"]
    by (auto simp: swallow_cache_def split: option.splits exn.splits byo_error.splits)
  with x wr(2) have set: "sv_set sv k (cache_entry t (ex_ctx s)) (ex_world s4) = (None, ex_world s)" by simp
  moreover have "about (ex_world s) = about w"
    using about_set [of k "cache_entry t (ex_ctx s)" "ex_world s4"] set after [OF still] missed by simp
  ultimately show thesis using that [OF refl s1] missed by blast
qed

lemma second_run:
  assumes rt: "new_runtime sha dumps repr (plain_setup sv sys) = Inr rt"
    and run: "execute_request rid rt DefaultPipeline q w = Inr (None, s)"
    and answer: "rc_response (ex_ctx s) = Some t" "t \<noteq> []" "rc_cached (ex_ctx s) = False" "rc_cache_key (ex_ctx s) = Some k"
    and held: "holds (ex_world s) w2"
  shows "\<exists>s2. execute_request rid2 rt DefaultPipeline q w2 = Inr (None, s2) \<and> ex_world s2 = w2 \<and> rc_response (ex_ctx s2) = Some t
    \<and> rc_cached (ex_ctx s2) \<and> rc_model (ex_ctx s2) = py_or (rc_model (ex_ctx s)) (cp_model q)
    \<and> rc_provider (ex_ctx s2) = rc_provider (ex_ctx s) \<and> rc_finish (ex_ctx s2) = rc_finish (ex_ctx s) \<and> rc_raw (ex_ctx s2) = PNone
    \<and> ex_trace s2 =
        [RequestReceived, StageStarted (u ''context_resolver''), StageCompleted (u ''context_resolver''),
         StageStarted (u ''cache_lookup''), CacheHit k, StageCompleted (u ''cache_lookup''), RequestCompleted]"
proof -
  note plain = plain_runtime [OF rt]
  let ?rv = "\<lparr>rv_system_prompt = sys, rv_has_cache = True, rv_max_history = 20\<rparr>"
  let ?c = "make_context rid False (rtm_default rt) q" and ?c2 = "make_context rid2 False (rtm_default rt) q"
  obtain s0 s1 w3 where s0: "s0 = report (StageStarted (u ''context_resolver'')) (start_execution ?c w)"
    and s1: "resolve_context repr sv ?rv None s0 = (None, s1)" and fp: "fingerprint sha dumps None (ex_ctx s1) = Inr k"
    and set: "sv_set sv k (cache_entry t (ex_ctx s)) w3 = (None, ex_world s)" and about: "about (ex_world s) = about w"
    by (rule first_run [OF rt run answer])
  define t0 where "t0 = report (StageStarted (u ''context_resolver'')) (start_execution ?c2 w2)"
  have ctx2: "ex_ctx t0 = (ex_ctx s0)\<lparr>rc_request_id := rid2\<rparr>" and world2: "about (ex_world t0) = about (ex_world s0)"
    using about_holds [OF held] about by (simp_all add: t0_def s0 start_execution_def make_context_def new_context_def)
  obtain ms where ms: "s1 = on_ctx (rc_messages_update (\<lambda>_. ms)) s0"
    and again: "resolve_context repr sv ?rv None t0 = (None, on_ctx (rc_messages_update (\<lambda>_. ms)) t0)"
    using resolves_again [OF s1, where rid = rid2] ctx2 world2 by metis
  let ?c3 = "?c2\<lparr>rc_messages := ms\<rparr>"
  have fp2: "fingerprint sha dumps None ?c3 = Inr k"
  proof -
    have "?c3 = (ex_ctx s1)\<lparr>rc_request_id := rid2\<rparr>"
      unfolding ms s0 by (simp add: start_execution_def make_context_def new_context_def)
    then show ?thesis using fp by (simp only: fingerprint_rid)
  qed
  have get: "sv_get sv k w2 = (Inr (cache_entry t (ex_ctx s)), w2)"
    by (rule found [OF set _ held]) (simp add: cache_entry_def)
  have fresh: "\<not> rc_short ?c2" "\<not> rc_short ?c3" "\<not> rc_streaming ?c3" "rc_model ?c3 = cp_model q" "rc_raw ?c3 = PNone"
    by (simp_all add: make_context_def new_context_def)
  let ?hit = "short_circuit t True (?c3\<lparr>rc_cache_key := Some k,
      rc_model := py_or (rc_model (ex_ctx s)) (rc_model ?c3), rc_provider := rc_provider (ex_ctx s), rc_finish := rc_finish (ex_ctx s)\<rparr>)"
  define t1 where "t1 = report (StageStarted (u ''cache_lookup'')) (report (StageCompleted (u ''context_resolver''))
      (on_ctx (rc_messages_update (\<lambda>_. ms)) t0))"
  have t1: "ex_ctx t1 = ?c3" "ex_world t1 = w2" by (simp_all add: t1_def t0_def start_execution_def)
  have look: "cache_lookup sha dumps repr None sv t1
      = (None, \<lparr>ex_ctx = ?hit, ex_trace = ex_trace t1 @ [CacheHit k], ex_world = w2\<rparr>)"
    using fp2 get fresh t1
    by (simp add: cache_lookup_def in_world_def Let_def on_ctx_def report_def use_entry) (simp add: cache_entry_def)
  define t2 where "t2 = report (StageCompleted (u ''cache_lookup'')) \<lparr>ex_ctx = ?hit, ex_trace = ex_trace t1 @ [CacheHit k], ex_world = w2\<rparr>"
  have short: "rc_short (ex_ctx t2)" by (simp add: t2_def short_circuit_def)
  define s2 where "s2 = report (StageCompleted (u ''context_resolver'')) (on_ctx (rc_messages_update (\<lambda>_. ms)) t0)"
  have "run_stages (pl_stages (rtm_default rt)) (start_execution ?c2 w2) = (None, t2)"
  proof -
    let ?R = "wire_stage ''context_resolver'' ''ContextResolver'' (resolve_context repr sv ?rv None)"
    let ?L = "wire_stage ''cache_lookup'' ''CacheLookup'' (cache_lookup sha dumps repr None sv)"
    let ?P = "wire_stage ''provider_call'' ''ProviderCall'' (provider_call sv [])"
    have "run_stages [?R, ?L, ?P] (start_execution ?c2 w2) = run_stages [?L, ?P] s2"
      unfolding s2_def by (rule stage_step) (use again fresh in \<open>simp_all add: t0_def start_execution_def\<close>)
    also have "\<dots> = run_stages [?P] t2"
      unfolding t2_def by (rule stage_step) (use look fresh in \<open>simp_all add: t1_def s2_def t0_def start_execution_def\<close>)
    also have "\<dots> = (None, t2)" by (rule run_stages_stopped [OF short])
    finally show ?thesis using plain by (simp only: plain_stages)
  qed
  moreover have "finish_execute rt t2 = (None, report RequestCompleted t2)"
    by (simp add: finish_execute_def write_answer_def t2_def short_circuit_def)
  ultimately have "execute_request rid2 rt DefaultPipeline q w2 = Inr (None, report RequestCompleted t2)"
    using plain by (simp add: execute_request_def resolve_pipeline_def run_chain_def execute_chain_def execute_pipeline_def and_then_def)
  then show ?thesis
    by (intro exI [of _ "report RequestCompleted t2"])
      (simp add: t2_def t1_def t0_def short_circuit_def start_execution_def, simp add: make_context_def new_context_def)
qed

end

section \<open>The in-memory cache is such a store\<close>

definition live_holds :: "live_world \<Rightarrow> live_world \<Rightarrow> bool" where
  "live_holds w w' \<longleftrightarrow>
     lw_cache w' = lw_cache w
     \<and> (case mc_max_size (lw_cache w) of None \<Rightarrow> True | Some n \<Rightarrow> 1 \<le> n)
     \<and> (case mc_default_ttl (lw_cache w) of None \<Rightarrow> True | Some s \<Rightarrow> 0 < s \<and> lw_now w' < lw_now w + of_int s)"

definition live_about :: "live_world \<Rightarrow> (pystr \<times> pyval) list \<times> pystr option" where
  "live_about w = (mc_session (lw_cache w), mc_pattern (lw_cache w))"

lemma trimmed_last:
  assumes "case bound of None \<Rightarrow> True | Some n \<Rightarrow> 1 \<le> n" "k \<notin> fst ` set xs"
  shows "map_of (trimmed bound (xs @ [(k, e)])) k = Some e"
proof -
  have "map_of (drop m xs) k = None" for m
    using assms(2) set_drop_subset [of m xs] by (auto simp: map_of_eq_None_iff)
  then have "map_of (drop m xs @ [(k, e)]) k = Some e" for m by (simp add: map_add_def)
  then show ?thesis using assms(1) by (cases bound) (simp_all add: trimmed_def, metis drop0)
qed

lemma live_found:
  assumes "live_put k v w = (None, w1)" "v \<noteq> PNone" "live_holds w1 w2"
  shows "live_get k w2 = (Inr v, w2)"
proof -
  let ?c = "lw_cache w"
  obtain c' where c': "cache_set k v None (lw_now w) ?c = (Inr (), c')" "w1 = w\<lparr>lw_cache := c'\<rparr>"
    using assms(1) by (auto simp: live_put_def split: prod.splits sum.splits)
  have settings: "mc_max_size c' = mc_max_size ?c" "mc_default_ttl c' = mc_default_ttl ?c" "mc_namespace c' = mc_namespace ?c"
    using c'(1) by (auto simp: cache_set_def Let_def split: if_splits prod.splits)
  have holds: "case mc_max_size ?c of None \<Rightarrow> True | Some n \<Rightarrow> 1 \<le> n"
    "case mc_default_ttl ?c of None \<Rightarrow> True | Some s \<Rightarrow> 0 < s \<and> lw_now w2 < lw_now w + of_int s" "lw_cache w2 = c'"
    using assms(3) by (auto simp: live_holds_def c'(2) settings split: option.splits)
  have sane: "sane_bound (mc_max_size ?c)" using holds(1) by (auto simp: sane_bound_def split: option.splits)
  obtain e where e: "stored_until (mc_default_ttl ?c) (lw_now w) = Some e" "\<not> expired_at e (lw_now w2)"
    using holds(2) by (auto simp: stored_until_def expired_at_def split: option.splits)
  have "c' = ?c\<lparr>mc_store := trimmed (mc_max_size ?c) (od_pop (full_key ?c k) (mc_store ?c) @ [(full_key ?c k, v, e)])\<rparr>"
    using c'(1) e(1) by (simp add: cache_set_store [OF sane] effective_ttl_def)
  then have "map_of (mc_store c') (full_key ?c k) = Some (v, e)"
    using trimmed_last [OF holds(1) od_pop_keys, of "full_key ?c k" "mc_store ?c" "(v, e)"] by simp
  moreover have "full_key c' k = full_key ?c k" by (simp add: full_key_def settings)
  ultimately have "cache_get k (lw_now w2) c' = (Some v, c')" using e(2) by (simp add: cache_get_def)
  then show ?thesis using holds(3) by (simp add: live_get_def opt_val_def)
qed

lemma cache_get_session: "cache_get k now c = (r, c') \<Longrightarrow> mc_session c' = mc_session c \<and> mc_pattern c' = mc_pattern c"
  by (auto simp: cache_get_def split: option.splits if_splits)

lemma cache_set_session: "cache_set k v ttl now c = (r, c') \<Longrightarrow> mc_session c' = mc_session c \<and> mc_pattern c' = mc_pattern c"
  by (auto simp: cache_set_def Let_def split: if_splits prod.splits)

interpretation live: answer_store "live_services pr" live_holds live_about
proof
  show "sv_get (live_services pr) k w2 = (Inr v, w2)"
    if "sv_set (live_services pr) k v w = (None, w1)" "v \<noteq> PNone" "live_holds w1 w2" for k v w w1 w2
    using live_found that by (simp add: live_services_def)
  show "fst (sv_set (live_services pr) k v w) \<noteq> Some (Byo (CacheFailed m))" for k v w m
    by (simp add: live_services_def live_put_def split: prod.splits sum.splits)
  show "fst (sv_session (live_services pr) ps w) = fst (sv_session (live_services pr) ps w')"
    if "live_about w = live_about w'" for ps w w'
    using that by (simp add: live_services_def live_session_def read_app_session_def live_about_def
        split: sum.splits option.splits pyval.splits)
  show "snd (sv_session (live_services pr) ps w) = w" for ps w
    by (simp add: live_services_def live_session_def split: sum.splits option.splits pyval.splits)
  show "live_about (snd (sv_get (live_services pr) k w)) = live_about w" for k w
    by (auto simp: live_services_def live_get_def live_about_def dest!: cache_get_session split: prod.splits)
  show "live_about (snd (sv_set (live_services pr) k v w)) = live_about w" for k v w
    by (auto simp: live_services_def live_put_def live_about_def dest!: cache_set_session split: prod.splits sum.splits)
  show "live_about (snd (snd (sv_complete (live_services pr) ms opts w))) = live_about w" for ms opts w
    by (simp add: live_services_def live_complete_def live_about_def split: prod.splits)
  show "live_about w2 = live_about w1" if "live_holds w1 w2" for w1 w2
    using that by (simp add: live_holds_def live_about_def)
qed

text \<open>
  C32: an identical request is answered from the cache. A request to a runtime over the in-memory cache and the router
  that came back with text and was not itself answered from the cache has stored its answer: as long as the cache is not
  changed and the entry has not expired, the same request gets the same text, provider and reason to stop without any call
  of a provider, and nothing but the cache hit is reported. What a hit does not bring back is the raw response, which
  holds the tool calls of the turn.
\<close>

theorem identical_request_served:
  assumes "new_runtime sha dumps repr (plain_setup (live_services pr) sys) = Inr rt"
    and "execute_request rid rt DefaultPipeline q w = Inr (None, s)"
    and "rc_response (ex_ctx s) = Some t" "t \<noteq> []" "rc_cached (ex_ctx s) = False" "rc_cache_key (ex_ctx s) = Some k"
    and "live_holds (ex_world s) w2"
  shows "\<exists>s2. execute_request rid2 rt DefaultPipeline q w2 = Inr (None, s2) \<and> ex_world s2 = w2 \<and> rc_response (ex_ctx s2) = Some t
    \<and> rc_cached (ex_ctx s2) \<and> rc_model (ex_ctx s2) = py_or (rc_model (ex_ctx s)) (cp_model q)
    \<and> rc_provider (ex_ctx s2) = rc_provider (ex_ctx s) \<and> rc_finish (ex_ctx s2) = rc_finish (ex_ctx s) \<and> rc_raw (ex_ctx s2) = PNone
    \<and> ex_trace s2 =
        [RequestReceived, StageStarted (u ''context_resolver''), StageCompleted (u ''context_resolver''),
         StageStarted (u ''cache_lookup''), CacheHit k, StageCompleted (u ''cache_lookup''), RequestCompleted]"
  by (rule live.second_run [OF assms])

end
