(* ===== verification/Runtime_Witness.thy ===== *)
theory Runtime_Witness
  imports Runtime_Live
begin

text \<open>Sample requests to a runtime over the in-memory cache, one provider and a fixed clock.\<close>

definition one_provider :: llm_provider where
  "one_provider = \<lparr>pv_name = u ''p'', pv_model = u ''m''\<rparr>"

definition said_hi :: provider_response where
  "said_hi = \<lparr>rs_content = u ''hi'', rs_model = u ''m'', rs_provider = u ''p'', rs_usage = no_usage,
     rs_finish_reason = Some (u ''stop''), rs_raw = POther\<rparr>"

definition hi_chunk :: stream_chunk where
  "hi_chunk = blank_chunk\<lparr>sc_delta := u ''hi''\<rparr>"

definition bad_request :: provider_error where
  "bad_request = \<lparr>pe_text = u ''no'', pe_provider = u ''p'', pe_status = Some 400, pe_retryable = False, pe_retry_after = None\<rparr>"

text \<open>The first request streams well, every later one is refused.\<close>

definition sample_providers :: providers where
  "sample_providers =
     \<lparr>pr_ask = (\<lambda>_ _ _ _ _. Answered said_hi),
      pr_stream = (\<lambda>_ _ n _ _. if n = 0 then ([hi_chunk, blank_chunk\<lparr>sc_done := True\<rparr>], Ended) else ([], Broke bad_request)),
      pr_jitter = (\<lambda>_. 0), pr_cancels = (\<lambda>_. False), pr_fill = (\<lambda>_ _. None)\<rparr>"

definition sample_world :: live_world where
  "sample_world =
     \<lparr>lw_cache = \<lparr>mc_namespace = u ''n:'', mc_default_ttl = Some 60, mc_max_size = Some 9, mc_store = [], mc_session = [], mc_pattern = None\<rparr>,
      lw_router = \<lparr>rt_providers = [one_provider], rt_policy = default_policy, rt_selection = Ordered, rt_next = 0\<rparr>,
      lw_now = 0, lw_calls = 0\<rparr>"

definition greeting :: call_params where
  "greeting =
     \<lparr>cp_input = RText (u ''hello''), cp_session = None, cp_user = None, cp_model = PNone, cp_system = None,
      cp_provider_metadata = None, cp_filters = None, cp_options = []\<rparr>"

abbreviation sample_setup :: "live_world runtime_setup" where
  "sample_setup \<equiv> plain_setup (live_services sample_providers) None"

definition sample_runtime :: "live_world runtime" where
  "sample_runtime =
     (let p = default_pipeline id (\<lambda>_. Some []) (\<lambda>_. []) sample_setup in
      \<lparr>rtm_services = live_services sample_providers, rtm_cache = True, rtm_semantic = False, rtm_router = True,
       rtm_middleware = [], rtm_pipelines = [(u ''default'', p)], rtm_default = p\<rparr>)"

lemma sample_built: "new_runtime id (\<lambda>_. Some []) (\<lambda>_. []) sample_setup = Inr sample_runtime"
  by (simp add: new_runtime_def plain_setup_def sample_runtime_def Let_def)

lemma sample_discreet: "discreet (rtm_middleware sample_runtime) (rtm_default sample_runtime)"
  by (simp add: discreet_def sample_runtime_def Let_def modest_default)

lemma sample_resolved: "resolve_pipeline sample_runtime DefaultPipeline = Inr (rtm_default sample_runtime)"
  by (simp add: resolve_pipeline_def)

definition answered_with :: "pystr \<Rightarrow> exn + (exn option \<times> live_world execution) \<Rightarrow> bool" where
  "answered_with t r \<longleftrightarrow>
     (case r of
        Inr (None, s) \<Rightarrow> rc_response (ex_ctx s) = Some t \<and> \<not> rc_cached (ex_ctx s) \<and> rc_cache_key (ex_ctx s) = Some (u ''cache:'')
          \<and> mc_max_size (lw_cache (ex_world s)) = Some 9 \<and> mc_default_ttl (lw_cache (ex_world s)) = Some 60 \<and> lw_now (ex_world s) = 0
      | _ \<Rightarrow> False)"

lemma sample_answered: "answered_with (u ''hi'') (execute_request (u ''1'') sample_runtime DefaultPipeline greeting sample_world)"
  by code_simp

lemma sample_first:
  obtains s where "execute_request (u ''1'') sample_runtime DefaultPipeline greeting sample_world = Inr (None, s)"
    "rc_response (ex_ctx s) = Some (u ''hi'')" "rc_cached (ex_ctx s) = False" "rc_cache_key (ex_ctx s) = Some (u ''cache:'')"
    "live_holds (ex_world s) ((ex_world s)\<lparr>lw_now := 59\<rparr>)"
  using sample_answered by (auto simp: answered_with_def live_holds_def split: sum.splits option.splits)

theorem identical_request_served_witness:
  "\<exists>s s2. execute_request (u ''1'') sample_runtime DefaultPipeline greeting sample_world = Inr (None, s)
    \<and> execute_request (u ''2'') sample_runtime DefaultPipeline greeting ((ex_world s)\<lparr>lw_now := 59\<rparr>) = Inr (None, s2)
    \<and> rc_cached (ex_ctx s2) \<and> rc_response (ex_ctx s2) = Some (u ''hi'')"
proof -
  obtain s where s: "execute_request (u ''1'') sample_runtime DefaultPipeline greeting sample_world = Inr (None, s)"
    "rc_response (ex_ctx s) = Some (u ''hi'')" "rc_cached (ex_ctx s) = False" "rc_cache_key (ex_ctx s) = Some (u ''cache:'')"
    "live_holds (ex_world s) ((ex_world s)\<lparr>lw_now := 59\<rparr>)" by (rule sample_first)
  have "u ''hi'' \<noteq> []" by (simp add: u_def)
  from identical_request_served [OF sample_built s(1,2) this s(3-5)] s(1) show ?thesis by blast
qed

theorem request_outcome_reported_witness:
  "\<exists>s es. execute_request (u ''1'') sample_runtime DefaultPipeline greeting sample_world = Inr (None, s)
    \<and> list_all inner es \<and> ex_trace s = RequestReceived # es @ [RequestCompleted]"
proof -
  obtain s where s: "execute_request (u ''1'') sample_runtime DefaultPipeline greeting sample_world = Inr (None, s)"
    by (rule sample_first)
  from request_outcome_reported [OF s sample_resolved sample_discreet] s show ?thesis by auto
qed

definition streamed_well :: "exn + (exn option \<times> live_world execution) \<Rightarrow> bool" where
  "streamed_well r \<longleftrightarrow> (case r of Inr (None, s) \<Rightarrow> rc_response (ex_ctx s) = Some (u ''hi'') | _ \<Rightarrow> False)"

lemma sample_streamed: "streamed_well (stream_request (u ''1'') sample_runtime DefaultPipeline greeting sample_world)"
  by code_simp

theorem stream_hands_out_response_witness:
  "\<exists>s. stream_request (u ''1'') sample_runtime DefaultPipeline greeting sample_world = Inr (None, s) \<and> streamed_text (ex_trace s) = u ''hi''"
proof -
  obtain s where s: "stream_request (u ''1'') sample_runtime DefaultPipeline greeting sample_world = Inr (None, s)"
    "rc_response (ex_ctx s) = Some (u ''hi'')"
    using sample_streamed by (auto simp: streamed_well_def split: sum.splits option.splits)
  from stream_hands_out_response [OF s(1) sample_resolved sample_discreet] s show ?thesis by auto
qed

definition busy_world :: live_world where
  "busy_world = sample_world\<lparr>lw_calls := 1\<rparr>"

definition stream_broke :: "exn + (exn option \<times> live_world execution) \<Rightarrow> exn option \<times> live_world execution \<Rightarrow> bool" where
  "stream_broke r chain \<longleftrightarrow> (case r of Inr (Some e, s) \<Rightarrow> fst chain = None | _ \<Rightarrow> False)"

lemma sample_broke:
  "stream_broke (stream_request (u ''1'') sample_runtime DefaultPipeline greeting busy_world)
     (run_chain sample_runtime (rtm_default sample_runtime)
        (start_execution (make_context (u ''1'') True (rtm_default sample_runtime) greeting) busy_world))"
  by code_simp

theorem broken_stream_reports_nothing_witness:
  "\<exists>e s. stream_request (u ''1'') sample_runtime DefaultPipeline greeting busy_world = Inr (Some e, s) \<and> open_ended (ex_trace s)"
proof -
  let ?chain = "run_chain sample_runtime (rtm_default sample_runtime)
    (start_execution (make_context (u ''1'') True (rtm_default sample_runtime) greeting) busy_world)"
  obtain e s where s: "stream_request (u ''1'') sample_runtime DefaultPipeline greeting busy_world = Inr (Some e, s)"
    and "fst ?chain = None"
    using sample_broke by (auto simp: stream_broke_def split: sum.splits option.splits)
  then have "?chain = (None, snd ?chain)" by (metis prod.collapse)
  from broken_stream_reports_nothing [OF s sample_resolved sample_discreet this] s show ?thesis by blast
qed

text \<open>The same providers behind a cache that loses every write and fails every read.\<close>

definition lost_cache :: "live_world services" where
  "lost_cache =
     (live_services sample_providers)
       \<lparr>sv_get := (\<lambda>_ w. (Inl (Byo (CacheFailed [])), w)), sv_set := (\<lambda>_ _ w. (None, w)), sv_session := (\<lambda>_ w. (Inr HFailed, w))\<rparr>"

theorem cache_outage_changes_nothing_witness:
  "\<exists>rt rt' r s t. new_runtime id (\<lambda>_. Some []) (\<lambda>_. []) (plain_setup lost_cache None) = Inr rt
    \<and> new_runtime id (\<lambda>_. Some []) (\<lambda>_. []) (uncached (plain_setup lost_cache None)) = Inr rt'
    \<and> execute_request (u ''1'') rt DefaultPipeline greeting sample_world = Inr (r, s)
    \<and> execute_request (u ''1'') rt' DefaultPipeline greeting sample_world = Inr (r, t) \<and> mirrors s t"
proof -
  let ?su = "plain_setup lost_cache None"
  have d: "dead_cache (su_services ?su)" "su_cache ?su" by (simp_all add: plain_setup_def lost_cache_def dead_cache_def)
  obtain rt rt' where n: "new_runtime id (\<lambda>_. Some []) (\<lambda>_. []) ?su = Inr rt"
    "new_runtime id (\<lambda>_. Some []) (\<lambda>_. []) (uncached ?su) = Inr rt'"
    by (simp add: new_runtime_def plain_setup_def uncached_def Let_def)
  from cache_outage_changes_nothing [OF d n, of "u ''1''" greeting sample_world] n show ?thesis by blast
qed

end
