(* ===== verification/Extract.thy ===== *)
theory Extract
  imports Wire_Stages Key_Files
begin

text \<open>
  \<open>recorder/extract.py\<close>: the events of an exchange with the \<open>/v1/messages\<close> endpoint of Anthropic, from a stream of
  server-sent events or from the two JSON bodies.

  A \<open>codec\<close> holds what the code takes from the standard library: \<open>bytes.decode(..., errors="replace")\<close>,
  \<open>json.loads\<close>, \<open>json.dumps\<close> and \<open>str()\<close> of a value that is no string. \<open>json.loads\<close> gives a value, raises
  \<open>JSONDecodeError\<close> with a text, or raises another error (a \<open>RecursionError\<close>, the \<open>ValueError\<close> of an integer
  with too many digits). \<open>NotAnObject\<close> is the \<open>AttributeError\<close> of \<open>.get\<close> on a value that is no dictionary. The two
  clock readings of an event are left out. An extractor keeps the changes made before an exception.
\<close>

datatype json_result = Parsed pyval | Unparsed pystr | LoadsFails pystr

datatype extract_error = NotAnObject | BadLoads pystr

record codec =
  cd_decode :: "bytes \<Rightarrow> pystr"
  cd_loads :: "pystr \<Rightarrow> json_result"
  cd_dumps :: "pyval \<Rightarrow> pystr"
  cd_repr :: "pyval \<Rightarrow> pystr"

definition PROVIDER :: pystr where "PROVIDER = u ''anthropic''"

definition MAX_RAW_KEEP :: nat where "MAX_RAW_KEEP = 4096"

section \<open>Events\<close>

record trace_context =
  tc_session :: pystr
  tc_trace :: pystr
  tc_span :: pystr
  tc_parent :: "pystr option"
  tc_continues :: "pystr option"

record partial_event =
  px_kind :: event_kind
  px_payload :: object
  px_model :: "pystr option"
  px_tool_use_id :: pyval
  px_tool_name :: pyval
  px_provider :: pystr
  px_schema_version :: pystr
  px_context :: trace_context

definition make_event ::
  "trace_context \<Rightarrow> event_kind \<Rightarrow> object \<Rightarrow> pystr option \<Rightarrow> pyval \<Rightarrow> pyval \<Rightarrow> partial_event" where
  "make_event tc kind payload model tool_use_id tool_name =
     \<lparr>px_kind = kind, px_payload = payload, px_model = model, px_tool_use_id = tool_use_id, px_tool_name = tool_name,
      px_provider = PROVIDER, px_schema_version = EVENT_SCHEMA_VERSION, px_context = tc\<rparr>"

type_synonym extracted = "extract_error + partial_event list"

section \<open>The state of a stream\<close>

record block =
  bk_index :: int
  bk_type :: pystr
  bk_id :: pyval
  bk_name :: pyval
  bk_json :: "pystr list"
  bk_text :: "pystr list"

record extractor =
  se_context :: trace_context
  se_model :: "pystr option"
  se_buf :: bytes
  se_data :: "pystr list"
  se_event :: "pystr option"
  se_blocks :: "(int \<times> block) list"
  se_started :: bool
  se_stopped :: bool
  se_stop_reason :: "pystr option"
  se_usage :: object
  se_closed :: bool

definition new_extractor :: "trace_context \<Rightarrow> pystr option \<Rightarrow> extractor" where
  "new_extractor tc model =
     \<lparr>se_context = tc, se_model = model, se_buf = [], se_data = [], se_event = None, se_blocks = [], se_started = False,
      se_stopped = False, se_stop_reason = None, se_usage = [], se_closed = False\<rparr>"

definition stream_event :: "extractor \<Rightarrow> event_kind \<Rightarrow> object \<Rightarrow> pyval \<Rightarrow> pyval \<Rightarrow> partial_event" where
  "stream_event x kind payload tool_use_id tool_name = make_event (se_context x) kind payload (se_model x) tool_use_id tool_name"

definition partial_json :: "block \<Rightarrow> pystr" where
  "partial_json b = concat (bk_json b)"

definition block_text :: "block \<Rightarrow> pystr" where
  "block_text b = concat (bk_text b)"

definition as_index :: "pyval \<Rightarrow> int option" where
  "as_index v = (case v of PInt i \<Rightarrow> Some i | _ \<Rightarrow> None)"

text \<open>\<open>v or {}\<close>, used as a dictionary.\<close>

definition or_empty :: "pyval \<Rightarrow> object option" where
  "or_empty v = (if truthy v then (case v of PDict d \<Rightarrow> Some d | _ \<Rightarrow> None) else Some [])"

definition opt_pystr :: "pystr option \<Rightarrow> pyval" where
  "opt_pystr t = (case t of None \<Rightarrow> PNone | Some s \<Rightarrow> PStr s)"

section \<open>Finished and unfinished blocks\<close>

fun type_name :: "pyval \<Rightarrow> pystr" where
  "type_name PNone = u ''NoneType''" | "type_name (PBool _) = u ''bool''" | "type_name (PInt _) = u ''int''"
| "type_name (PFloat _) = u ''float''" | "type_name (PStr _) = u ''str''" | "type_name (PSeq _) = u ''list''"
| "type_name (PDict _) = u ''dict''" | "type_name POther = u ''object''"

text \<open>The parsed input, or the text of the parse error.\<close>

definition parse_tool_input :: "codec \<Rightarrow> pystr \<Rightarrow> extract_error + (pystr + object)" where
  "parse_tool_input cd raw =
     (if strip raw = [] then Inr (Inr [])
      else
        (case cd_loads cd raw of
           Unparsed e \<Rightarrow> Inr (Inl e)
         | LoadsFails e \<Rightarrow> Inl (BadLoads e)
         | Parsed (PDict d) \<Rightarrow> Inr (Inr d)
         | Parsed v \<Rightarrow> Inr (Inl (u ''tool input is '' @ type_name v @ u '', expected object''))))"

definition tool_payload :: "block \<Rightarrow> pystr + object \<Rightarrow> object" where
  "tool_payload b r =
     [(key_str ''index'', PInt (bk_index b)), (key_str ''id'', bk_id b), (key_str ''name'', bk_name b),
      (key_str ''complete'', PBool True)]
     @ (case r of
          Inr d \<Rightarrow> [(key_str ''input'', PDict d)]
        | Inl e \<Rightarrow>
            [(key_str ''input'', PNone), (key_str ''input_raw'', PStr (take MAX_RAW_KEEP (partial_json b))),
             (key_str ''malformed_input'', PBool True), (key_str ''parse_error'', PStr e)])"

definition tool_use_event :: "codec \<Rightarrow> extractor \<Rightarrow> block \<Rightarrow> extract_error + partial_event" where
  "tool_use_event cd x b =
     rmap (\<lambda>r. stream_event x TOOL_USE (tool_payload b r) (bk_id b) (bk_name b)) (parse_tool_input cd (partial_json b))"

definition unknown_block_event :: "extractor \<Rightarrow> block \<Rightarrow> partial_event" where
  "unknown_block_event x b =
     stream_event x PARSE_FAILURE
       [(key_str ''index'', PInt (bk_index b)), (key_str ''block_type'', PStr (bk_type b)), (key_str ''complete'', PBool False),
        (key_str ''reason'', PStr (u ''content_block_start_missing'')),
        (key_str ''input_raw'', PStr (take MAX_RAW_KEEP (partial_json b)))]
       (bk_id b) (bk_name b)"

definition text_payload :: "int \<Rightarrow> pystr \<Rightarrow> object" where
  "text_payload i t = [(key_str ''index'', PInt i), (key_str ''text'', PStr t), (key_str ''complete'', PBool True)]"

definition text_events :: "extractor \<Rightarrow> block \<Rightarrow> partial_event list" where
  "text_events x b =
     (if block_text b = [] then [] else [stream_event x MESSAGE (text_payload (bk_index b) (block_text b)) PNone PNone])"

definition complete_block :: "codec \<Rightarrow> extractor \<Rightarrow> block \<Rightarrow> extracted" where
  "complete_block cd x b =
     (if bk_type b = u ''tool_use'' then rmap (\<lambda>e. [e]) (tool_use_event cd x b)
      else if bk_type b = u ''unknown'' then
        (if bk_json b \<noteq> [] then Inr [unknown_block_event x b] else Inr (text_events x b))
      else if bk_type b = u ''text'' then Inr (text_events x b)
      else Inr [])"

definition aborted_payload :: "block \<Rightarrow> object" where
  "aborted_payload b =
     [(key_str ''index'', PInt (bk_index b)), (key_str ''block_type'', PStr (bk_type b)), (key_str ''complete'', PBool False),
      (key_str ''reason'', PStr (u ''stream_truncated'')), (key_str ''id'', bk_id b), (key_str ''name'', bk_name b)]
     @ (if bk_type b = u ''tool_use'' \<or> bk_json b \<noteq> [] then [(key_str ''partial_json'', PStr (take MAX_RAW_KEEP (partial_json b)))] else [])
     @ (if bk_text b \<noteq> [] then [(key_str ''partial_text'', PStr (take MAX_RAW_KEEP (block_text b)))] else [])"

definition aborted_event :: "extractor \<Rightarrow> block \<Rightarrow> partial_event" where
  "aborted_event x b = stream_event x STREAM_ABORTED (aborted_payload b) (bk_id b) (bk_name b)"

section \<open>Frames\<close>

type_synonym step = "extractor \<Rightarrow> extracted \<times> extractor"

definition put_usage :: "pyval \<Rightarrow> extractor \<Rightarrow> extractor" where
  "put_usage v x =
     (case v of PDict d \<Rightarrow> x\<lparr>se_usage := foldl (\<lambda>acc (k, w). od_set k w acc) (se_usage x) d\<rparr> | _ \<Rightarrow> x)"

definition take_model :: "pyval \<Rightarrow> extractor \<Rightarrow> extractor" where
  "take_model v x = (case v of PStr t \<Rightarrow> if t \<noteq> [] then x\<lparr>se_model := Some t\<rparr> else x | _ \<Rightarrow> x)"

definition message_start :: "object \<Rightarrow> step" where
  "message_start d x =
     (let x1 = x\<lparr>se_started := True\<rparr> in
      case or_empty (dget (u ''message'') d) of
        None \<Rightarrow> (Inl NotAnObject, x1)
      | Some m \<Rightarrow>
          (Inr [], put_usage (dget (u ''usage'') m) (take_model (dget (u ''model'') m) x1)))"

definition new_block :: "codec \<Rightarrow> int \<Rightarrow> object \<Rightarrow> block" where
  "new_block cd i b =
     \<lparr>bk_index = i, bk_type = (let t = dget (u ''type'') b in if truthy t then py_str (cd_repr cd) t else u ''unknown''),
      bk_id = dget (u ''id'') b, bk_name = dget (u ''name'') b,
      bk_json = (case dget (u ''input'') b of PDict d \<Rightarrow> if d \<noteq> [] then [cd_dumps cd (PDict d)] else [] | _ \<Rightarrow> []),
      bk_text = (case dget (u ''text'') b of PStr t \<Rightarrow> if t \<noteq> [] then [t] else [] | _ \<Rightarrow> [])\<rparr>"

definition block_start :: "codec \<Rightarrow> object \<Rightarrow> step" where
  "block_start cd d x =
     (case as_index (dget (u ''index'') d) of
        None \<Rightarrow> (Inr [], x)
      | Some i \<Rightarrow>
          (case or_empty (dget (u ''content_block'') d) of
             None \<Rightarrow> (Inl NotAnObject, x)
           | Some b \<Rightarrow> (Inr [], x\<lparr>se_blocks := od_set i (new_block cd i b) (se_blocks x)\<rparr>)))"

definition blank_block :: "int \<Rightarrow> block" where
  "blank_block i = \<lparr>bk_index = i, bk_type = u ''unknown'', bk_id = PNone, bk_name = PNone, bk_json = [], bk_text = []\<rparr>"

definition add_delta :: "object \<Rightarrow> block \<Rightarrow> block" where
  "add_delta delta b =
     (if dget (u ''type'') delta = PStr (u ''input_json_delta'') then
        (case dget (u ''partial_json'') delta of PStr t \<Rightarrow> b\<lparr>bk_json := bk_json b @ [t]\<rparr> | _ \<Rightarrow> b)
      else if dget (u ''type'') delta = PStr (u ''text_delta'') then
        (case dget (u ''text'') delta of PStr t \<Rightarrow> b\<lparr>bk_text := bk_text b @ [t]\<rparr> | _ \<Rightarrow> b)
      else b)"

definition block_delta :: "object \<Rightarrow> step" where
  "block_delta d x =
     (case as_index (dget (u ''index'') d) of
        None \<Rightarrow> (Inr [], x)
      | Some i \<Rightarrow>
          (let b = (case map_of (se_blocks x) i of None \<Rightarrow> blank_block i | Some b \<Rightarrow> b) in
           case or_empty (dget (u ''delta'') d) of
             None \<Rightarrow> (Inl NotAnObject, x\<lparr>se_blocks := od_set i b (se_blocks x)\<rparr>)
           | Some delta \<Rightarrow> (Inr [], x\<lparr>se_blocks := od_set i (add_delta delta b) (se_blocks x)\<rparr>)))"

definition block_stop :: "codec \<Rightarrow> object \<Rightarrow> step" where
  "block_stop cd d x =
     (case as_index (dget (u ''index'') d) of
        None \<Rightarrow> (Inr [], x)
      | Some i \<Rightarrow>
          (case map_of (se_blocks x) i of
             None \<Rightarrow> (Inr [], x)
           | Some b \<Rightarrow> (complete_block cd x b, x\<lparr>se_blocks := od_pop i (se_blocks x)\<rparr>)))"

definition take_stop :: "pyval \<Rightarrow> extractor \<Rightarrow> extractor" where
  "take_stop v x = (case v of PStr t \<Rightarrow> x\<lparr>se_stop_reason := Some t\<rparr> | _ \<Rightarrow> x)"

definition message_delta :: "object \<Rightarrow> step" where
  "message_delta d x =
     (case or_empty (dget (u ''delta'') d) of
        None \<Rightarrow> (Inl NotAnObject, x)
      | Some delta \<Rightarrow>
          (Inr [], put_usage (dget (u ''usage'') d) (take_stop (dget (u ''stop_reason'') delta) x)))"

definition error_frame :: "object \<Rightarrow> step" where
  "error_frame d x =
     (case or_empty (dget (u ''error'') d) of
        None \<Rightarrow> (Inl NotAnObject, x)
      | Some e \<Rightarrow>
          (Inr [stream_event x API_ERROR
                  [(key_str ''error_type'', dget (u ''type'') e), (key_str ''message'', dget (u ''message'') e),
                   (key_str ''raw'', PDict e)] PNone PNone], x))"

definition handle_event :: "codec \<Rightarrow> pyval \<Rightarrow> object \<Rightarrow> step" where
  "handle_event cd etype d x =
     (if etype = PStr (u ''message_start'') then message_start d x
      else if etype = PStr (u ''content_block_start'') then block_start cd d x
      else if etype = PStr (u ''content_block_delta'') then block_delta d x
      else if etype = PStr (u ''content_block_stop'') then block_stop cd d x
      else if etype = PStr (u ''message_delta'') then message_delta d x
      else if etype = PStr (u ''message_stop'') then (Inr [], x\<lparr>se_stopped := True\<rparr>)
      else if etype = PStr (u ''error'') then error_frame d x
      else (Inr [], x))"

definition parse_failure :: "extractor \<Rightarrow> string \<Rightarrow> pystr option \<Rightarrow> pystr \<Rightarrow> pystr option \<Rightarrow> partial_event" where
  "parse_failure x reason event data error =
     stream_event x PARSE_FAILURE
       ([(key_str ''reason'', PStr (u reason)), (key_str ''event'', opt_pystr event), (key_str ''raw'', PStr (take MAX_RAW_KEEP data))]
        @ (case error of None \<Rightarrow> [] | Some e \<Rightarrow> [(key_str ''error'', PStr e)])) PNone PNone"

definition event_type :: "object \<Rightarrow> pystr option \<Rightarrow> pyval" where
  "event_type d event =
     (let t = dget (u ''type'') d in
      if truthy t then t else (case event of Some s \<Rightarrow> if s \<noteq> [] then PStr s else PStr [] | None \<Rightarrow> PStr []))"

definition dispatch :: "codec \<Rightarrow> step" where
  "dispatch cd x =
     (if se_data x = [] then (Inr [], x\<lparr>se_event := None\<rparr>)
      else
        (let data = join_lines (se_data x); event = se_event x; x1 = x\<lparr>se_data := [], se_event := None\<rparr> in
         if strip data = u ''[DONE]'' then (Inr [], x1)
         else
           (case cd_loads cd data of
              Unparsed e \<Rightarrow> (Inr [parse_failure x1 ''sse_data_not_json'' event data (Some e)], x1)
            | LoadsFails e \<Rightarrow> (Inl (BadLoads e), x1)
            | Parsed (PDict d) \<Rightarrow> handle_event cd (event_type d event) d x1
            | Parsed _ \<Rightarrow> (Inr [parse_failure x1 ''sse_data_not_object'' event data None], x1))))"

section \<open>Lines\<close>

definition split_field :: "pystr \<Rightarrow> pystr \<times> pystr" where
  "split_field line =
     (let name = takeWhile (\<lambda>c. c \<noteq> 58) line; rest = dropWhile (\<lambda>c. c \<noteq> 58) line in
      (name, case rest of [] \<Rightarrow> [] | _ # v \<Rightarrow> (case v of [] \<Rightarrow> [] | c # w \<Rightarrow> if c = 32 then w else v)))"

definition handle_line :: "codec \<Rightarrow> pystr \<Rightarrow> step" where
  "handle_line cd line x =
     (if line = [] then dispatch cd x
      else if hd line = 58 then (Inr [], x)
      else
        (let (name, v) = split_field line in
         if name = u ''data'' then (Inr [], x\<lparr>se_data := se_data x @ [v]\<rparr>)
         else if name = u ''event'' then (Inr [], x\<lparr>se_event := Some v\<rparr>)
         else (Inr [], x)))"

definition chomp :: "bytes \<Rightarrow> bytes" where
  "chomp raw = (if raw \<noteq> [] \<and> last raw = 13 then butlast raw else raw)"

text \<open>The first line of the buffer, without its terminator, and what follows.\<close>

definition cut_line :: "bytes \<Rightarrow> (bytes \<times> bytes) option" where
  "cut_line buf =
     (case dropWhile (\<lambda>b. b \<noteq> 10) buf of [] \<Rightarrow> None | _ # rest \<Rightarrow> Some (takeWhile (\<lambda>b. b \<noteq> 10) buf, rest))"

lemma cut_line_shorter: "cut_line buf = Some (raw, rest) \<Longrightarrow> length rest < length buf"
  using length_dropWhile_le [of "\<lambda>b. b \<noteq> 10" buf] by (auto simp: cut_line_def split: list.splits)

function feed_lines :: "codec \<Rightarrow> bytes \<Rightarrow> step" where
  "feed_lines cd buf x =
     (case cut_line buf of
        None \<Rightarrow> (Inr [], x\<lparr>se_buf := buf\<rparr>)
      | Some (raw, rest) \<Rightarrow>
          (case handle_line cd (cd_decode cd (chomp raw)) x of
             (Inl e, x1) \<Rightarrow> (Inl e, x1\<lparr>se_buf := rest\<rparr>)
           | (Inr es, x1) \<Rightarrow>
               (case feed_lines cd rest x1 of
                  (Inl e, x2) \<Rightarrow> (Inl e, x2)
                | (Inr fs, x2) \<Rightarrow> (Inr (es @ fs), x2))))"
  by pat_completeness auto
termination by (relation "measure (\<lambda>(_, buf, _). length buf)") (auto dest: cut_line_shorter)

declare feed_lines.simps [simp del]

definition feed :: "codec \<Rightarrow> bytes \<Rightarrow> step" where
  "feed cd chunk x = (if se_closed x \<or> chunk = [] then (Inr [], x) else feed_lines cd (se_buf x @ chunk) x)"

section \<open>The end of a stream\<close>

definition step_then :: "step \<Rightarrow> step \<Rightarrow> step" where
  "step_then f g x =
     (case f x of
        (Inl e, x1) \<Rightarrow> (Inl e, x1)
      | (Inr es, x1) \<Rightarrow> (case g x1 of (Inl e, x2) \<Rightarrow> (Inl e, x2) | (Inr fs, x2) \<Rightarrow> (Inr (es @ fs), x2)))"

definition open_blocks :: "extractor \<Rightarrow> block list" where
  "open_blocks x = map (\<lambda>i. the (map_of (se_blocks x) i)) (sort (map fst (se_blocks x)))"

definition abort_open :: "step" where
  "abort_open x =
     (if se_blocks x \<noteq> [] then (Inr (map (aborted_event x) (open_blocks x)), x\<lparr>se_blocks := []\<rparr>)
      else if se_started x \<and> \<not> se_stopped x then
        (Inr [stream_event x STREAM_ABORTED
                [(key_str ''complete'', PBool False), (key_str ''reason'', PStr (u ''stream_truncated'')),
                 (key_str ''index'', PNone), (key_str ''stop_reason'', opt_pystr (se_stop_reason x)),
                 (key_str ''usage'', if se_usage x = [] then PNone else PDict (se_usage x))] PNone PNone], x)
      else (Inr [], x))"

definition last_line :: "codec \<Rightarrow> step" where
  "last_line cd x =
     (if se_buf x = [] then (Inr [], x)
      else handle_line cd (cd_decode cd (chomp (se_buf x))) (x\<lparr>se_buf := []\<rparr>))"

definition last_frame :: "codec \<Rightarrow> step" where
  "last_frame cd x = (if se_data x = [] then (Inr [], x) else dispatch cd x)"

definition close_extractor :: "codec \<Rightarrow> step" where
  "close_extractor cd x =
     (if se_closed x then (Inr [], x)
      else step_then (last_line cd) (step_then (last_frame cd) abort_open) (x\<lparr>se_closed := True\<rparr>))"

section \<open>Bodies\<close>

definition only_str :: "pyval \<Rightarrow> pyval" where
  "only_str v = (if is_str v then v else PNone)"

definition body_model :: "object \<Rightarrow> pystr option" where
  "body_model body = (case dget (u ''model'') body of PStr t \<Rightarrow> Some t | _ \<Rightarrow> None)"

definition is_user :: "pyval \<Rightarrow> bool" where
  "is_user v = (case v of PDict d \<Rightarrow> dget (u ''role'') d = PStr (u ''user'') | _ \<Rightarrow> False)"

definition tool_result_event :: "trace_context \<Rightarrow> pystr option \<Rightarrow> object \<Rightarrow> partial_event" where
  "tool_result_event tc model d =
     (let i = dget (u ''tool_use_id'') d in
      make_event tc TOOL_RESULT
        [(key_str ''tool_use_id'', i), (key_str ''content'', dget (u ''content'') d),
         (key_str ''is_error'', PBool (truthy (dget (u ''is_error'') d)))] model (only_str i) PNone)"

definition extract_request_events :: "trace_context \<Rightarrow> pyval \<Rightarrow> partial_event list" where
  "extract_request_events tc body =
     (case body of
        PDict bd \<Rightarrow>
          (case dget (u ''messages'') bd of
             PSeq ms \<Rightarrow>
               (case find is_user (rev ms) of
                  Some (PDict m) \<Rightarrow>
                    (case dget (u ''content'') m of
                       PSeq blocks \<Rightarrow>
                         concat (map (\<lambda>b. case b of
                             PDict d \<Rightarrow>
                               if dget (u ''type'') d = PStr (u ''tool_result'') then [tool_result_event tc (body_model bd) d] else []
                           | _ \<Rightarrow> []) blocks)
                     | _ \<Rightarrow> [])
                | _ \<Rightarrow> [])
           | _ \<Rightarrow> [])
      | _ \<Rightarrow> [])"

definition body_tool_event :: "trace_context \<Rightarrow> pystr option \<Rightarrow> int \<Rightarrow> object \<Rightarrow> partial_event" where
  "body_tool_event tc model i d =
     make_event tc TOOL_USE
       [(key_str ''index'', PInt i), (key_str ''id'', dget (u ''id'') d), (key_str ''name'', dget (u ''name'') d),
        (key_str ''input'', case dget (u ''input'') d of PDict v \<Rightarrow> PDict v | _ \<Rightarrow> PDict []), (key_str ''complete'', PBool True)]
       model (only_str (dget (u ''id'') d)) (only_str (dget (u ''name'') d))"

definition body_block_events :: "trace_context \<Rightarrow> pystr option \<Rightarrow> int \<Rightarrow> pyval \<Rightarrow> partial_event list" where
  "body_block_events tc model i b =
     (case b of
        PDict d \<Rightarrow>
          if dget (u ''type'') d = PStr (u ''tool_use'') then [body_tool_event tc model i d]
          else if dget (u ''type'') d = PStr (u ''text'') then
            (case dget (u ''text'') d of
               PStr t \<Rightarrow> if t \<noteq> [] then [make_event tc MESSAGE (text_payload i t) model PNone PNone] else []
             | _ \<Rightarrow> [])
          else []
      | _ \<Rightarrow> [])"

definition field_of :: "string \<Rightarrow> pyval \<Rightarrow> pyval" where
  "field_of k v = (case v of PDict d \<Rightarrow> dget (u k) d | _ \<Rightarrow> PNone)"

definition extract_response_events :: "trace_context \<Rightarrow> pyval \<Rightarrow> partial_event list" where
  "extract_response_events tc body =
     (case body of
        PDict bd \<Rightarrow>
          if dget (u ''type'') bd = PStr (u ''error'') then
            (let error = (let e = dget (u ''error'') bd in if truthy e then e else PDict []) in
             [make_event tc API_ERROR
                [(key_str ''error_type'', field_of ''type'' error), (key_str ''message'', field_of ''message'' error),
                 (key_str ''raw'', error)] (body_model bd) PNone PNone])
          else
            (case dget (u ''content'') bd of
               PSeq blocks \<Rightarrow> concat (map (\<lambda>(i, b). body_block_events tc (body_model bd) (int i) b) (enumerate 0 blocks))
             | _ \<Rightarrow> [])
      | _ \<Rightarrow> [])"

end
