(* ===== verification/Redact.thy ===== *)
theory Redact
  imports Schema Key_Files "HOL-Library.Product_Lexorder"
begin

text \<open>
  \<open>recorder/redact.py\<close>: what of a payload leaves the device.

  The regular expressions of the module are lists of items that are matched with backtracking, greedily, as \<open>re\<close> does:
  one character of a class, a run of a class with bounds, a word boundary, and \<open>$\<close>, which also matches before a final
  line feed. \<open>un_digit\<close> and \<open>un_word\<close> are the Unicode tables behind \<open>\d\<close> (with the value \<open>int()\<close> reads) and \<open>\w\<close>. \<open>repr\<close>
  is \<open>str()\<close> of a value that is no string. A \<open>PSeq\<close> of a payload is a list: payloads come from JSON,
  and the code would pass a tuple on unmasked. \<open>NotEncodable\<close> is the \<open>UnicodeEncodeError\<close> of a text with a lone surrogate.
\<close>

section \<open>Matching\<close>

record unicode =
  un_digit :: "nat \<Rightarrow> nat option"
  un_word :: "nat \<Rightarrow> bool"

datatype rx = One "nat \<Rightarrow> bool" | Many "nat \<Rightarrow> bool" nat "nat option" | Boundary | AtEnd

definition is_word :: "unicode \<Rightarrow> nat option \<Rightarrow> bool" where
  "is_word un c = (case c of None \<Rightarrow> False | Some x \<Rightarrow> un_word un x)"

definition first_of :: "pystr \<Rightarrow> nat option" where
  "first_of s = (case s of [] \<Rightarrow> None | c # _ \<Rightarrow> Some c)"

text \<open>
  The positions where a match that begins at \<open>i\<close> may end, in the order they are tried. \<open>prev\<close> is the character before and
  \<open>s\<close> the text from \<open>i\<close> on.
\<close>

fun rx_ends :: "unicode \<Rightarrow> rx list \<Rightarrow> nat option \<Rightarrow> pystr \<Rightarrow> nat \<Rightarrow> nat list" where
  "rx_ends un [] prev s i = [i]"
| "rx_ends un (One p # r) prev s i =
     (case s of [] \<Rightarrow> [] | c # t \<Rightarrow> if p c then rx_ends un r (Some c) t (i + 1) else [])"
| "rx_ends un (Many p lo hi # r) prev s i =
     (let n = length (takeWhile p s); m = (case hi of None \<Rightarrow> n | Some h \<Rightarrow> min n h) in
      concat (map (\<lambda>k. rx_ends un r (if k = 0 then prev else Some (s ! (k - 1))) (drop k s) (i + k)) (rev [lo..<Suc m])))"
| "rx_ends un (Boundary # r) prev s i =
     (if is_word un prev \<noteq> is_word un (first_of s) then rx_ends un r prev s i else [])"
| "rx_ends un (AtEnd # r) prev s i = (if s = [] \<or> s = [10] then rx_ends un r prev s i else [])"

text \<open>\<open>pattern.match\<close>: is there a match that begins at the start?\<close>

definition rx_match :: "unicode \<Rightarrow> rx list \<Rightarrow> pystr \<Rightarrow> bool" where
  "rx_match un p s \<longleftrightarrow> rx_ends un p None s 0 \<noteq> []"

text \<open>\<open>pattern.finditer\<close>, for patterns that match no empty text.\<close>

function rx_find :: "unicode \<Rightarrow> rx list \<Rightarrow> nat option \<Rightarrow> pystr \<Rightarrow> nat \<Rightarrow> (nat \<times> nat) list" where
  "rx_find un p prev [] i = []"
| "rx_find un p prev (c # t) i =
     (case rx_ends un p prev (c # t) i of
        e # _ \<Rightarrow>
          if i < e then (i, e) # rx_find un p (Some ((c # t) ! (e - i - 1))) (drop (e - i) (c # t)) e
          else rx_find un p (Some c) t (i + 1)
      | [] \<Rightarrow> rx_find un p (Some c) t (i + 1))"
  by pat_completeness auto
termination by (relation "measure (\<lambda>(_, _, _, s, _). length s)") auto

section \<open>Detection\<close>

definition is_letter :: "nat \<Rightarrow> bool" where
  "is_letter c \<longleftrightarrow> 65 \<le> c \<and> c \<le> 90 \<or> 97 \<le> c \<and> c \<le> 122"

definition is_decimal :: "nat \<Rightarrow> bool" where
  "is_decimal c \<longleftrightarrow> 48 \<le> c \<and> c \<le> 57"

definition alnum_or :: "string \<Rightarrow> nat \<Rightarrow> bool" where
  "alnum_or extra c \<longleftrightarrow> is_letter c \<or> is_decimal c \<or> c \<in> set (u extra)"

definition char_is :: "nat \<Rightarrow> rx" where
  "char_is x = One (\<lambda>c. c = x)"

definition literal :: "string \<Rightarrow> rx list" where
  "literal s = map char_is (u s)"

text \<open>With \<open>re.IGNORECASE\<close>, for ASCII letters that have no other case variants.\<close>

definition literal_ignorecase :: "string \<Rightarrow> rx list" where
  "literal_ignorecase s = map (\<lambda>x. One (\<lambda>c. c = x \<or> (97 \<le> x \<and> c + 32 = x) \<or> (x \<le> 90 \<and> c = x + 32))) (u s)"

definition digit_class :: "unicode \<Rightarrow> nat \<Rightarrow> bool" where
  "digit_class un c \<longleftrightarrow> un_digit un c \<noteq> None"

definition email_rx :: "rx list" where
  "email_rx =
     [Many (alnum_or ''._%+-'') 1 None, char_is 64, Many (alnum_or ''.-'') 1 None, char_is 46, Many is_letter 2 None]"

definition ssn_rx :: "unicode \<Rightarrow> rx list" where
  "ssn_rx un =
     [Many (digit_class un) 3 (Some 3), char_is 45, Many (digit_class un) 2 (Some 2), char_is 45, Many (digit_class un) 4 (Some 4)]"

definition aws_rx :: "rx list" where
  "aws_rx = literal ''AKIA'' @ [Many (\<lambda>c. is_decimal c \<or> 65 \<le> c \<and> c \<le> 90) 16 (Some 16)]"

definition bearer_rx :: "rx list" where
  "bearer_rx = literal_ignorecase ''Bearer'' @ [Many py_space 1 None, Many (\<lambda>c. \<not> py_space c) 1 None]"

definition entropy_rx :: "rx list" where
  "entropy_rx = [Many (alnum_or ''_-'') 32 None]"

definition sk_rx :: "nat \<Rightarrow> rx list" where
  "sk_rx n = literal ''sk-'' @ [Many (alnum_or ''_-'') n None]"

definition card_rx :: "unicode \<Rightarrow> rx list" where
  "card_rx un = [Boundary, Many (digit_class un) 13 (Some 19), Boundary]"

definition luhn_digit :: "nat \<Rightarrow> nat \<Rightarrow> nat \<Rightarrow> nat" where
  "luhn_digit parity i d = (if i mod 2 = parity then (if 2 * d > 9 then 2 * d - 9 else 2 * d) else d)"

definition luhn_valid :: "unicode \<Rightarrow> pystr \<Rightarrow> bool" where
  "luhn_valid un ds \<longleftrightarrow>
     sum_list (map (\<lambda>(i, c). luhn_digit (length ds mod 2) i (case un_digit un c of None \<Rightarrow> 0 | Some d \<Rightarrow> d)) (enumerate 0 ds)) mod 10 = 0"

definition piece :: "pystr \<Rightarrow> nat \<times> nat \<Rightarrow> pystr" where
  "piece t se = take (snd se - fst se) (drop (fst se) t)"

definition card_spans :: "unicode \<Rightarrow> pystr \<Rightarrow> (nat \<times> nat) list" where
  "card_spans un t = filter (\<lambda>se. luhn_valid un (piece t se)) (rx_find un (card_rx un) None t 0)"

definition detect_credit_card :: "unicode \<Rightarrow> pystr \<Rightarrow> bool" where
  "detect_credit_card un t \<longleftrightarrow> card_spans un t \<noteq> []"

definition detect_kind :: "unicode \<Rightarrow> pystr \<Rightarrow> pystr option" where
  "detect_kind un t =
     (if rx_match un (sk_rx 1 @ [AtEnd]) t then Some (u ''api_key'')
      else if rx_match un (bearer_rx @ [AtEnd]) t then Some (u ''api_key'')
      else if rx_match un (aws_rx @ [AtEnd]) t then Some (u ''aws_key'')
      else if rx_match un (email_rx @ [AtEnd]) t then Some (u ''email'')
      else if rx_match un (ssn_rx un @ [AtEnd]) t then Some (u ''ssn'')
      else if detect_credit_card un t then Some (u ''credit_card'')
      else if rx_match un (entropy_rx @ [AtEnd]) t then Some (u ''api_key'')
      else None)"

section \<open>Payloads\<close>

datatype redact_error = NotEncodable

datatype payload_mode = HASH_ONLY | REDACTED | FULL

definition redaction_mark :: "pystr \<Rightarrow> pystr" where
  "redaction_mark k = u ''[REDACTED:'' @ k @ u '']''"

definition salted_digest :: "hash \<Rightarrow> pystr \<Rightarrow> pystr \<Rightarrow> redact_error + pystr" where
  "salted_digest sha salt text =
     (let t = salt @ u '':'' @ text in
      if list_ex surrogate t then Inl NotEncodable
      else Inr (redaction_mark (u ''hash:'' @ take 16 (hex (sha (utf8 t))))))"

definition redact_string :: "unicode \<Rightarrow> hash \<Rightarrow> pystr \<Rightarrow> pystr \<Rightarrow> redact_error + pystr" where
  "redact_string un sha salt t =
     (case detect_kind un t of Some k \<Rightarrow> Inr (redaction_mark k) | None \<Rightarrow> salted_digest sha salt t)"

fun redact_value :: "unicode \<Rightarrow> hash \<Rightarrow> (pyval \<Rightarrow> pystr) \<Rightarrow> pystr \<Rightarrow> pyval \<Rightarrow> redact_error + pyval" where
  "redact_value un sha repr salt (PDict d) =
     rmap PDict (rseq (map (\<lambda>(k, v). rmap (\<lambda>w. (k, w)) (redact_value un sha repr salt v)) d))"
| "redact_value un sha repr salt (PSeq xs) = rmap PSeq (rseq (map (redact_value un sha repr salt) xs))"
| "redact_value un sha repr salt (PStr t) = rmap PStr (redact_string un sha salt t)"
| "redact_value un sha repr salt (PBool b) = rmap PStr (salted_digest sha salt (repr (PBool b)))"
| "redact_value un sha repr salt (PInt i) = rmap PStr (salted_digest sha salt (repr (PInt i)))"
| "redact_value un sha repr salt (PFloat f) = rmap PStr (salted_digest sha salt (repr (PFloat f)))"
| "redact_value un sha repr salt PNone = Inr PNone"
| "redact_value un sha repr salt POther = Inr POther"

definition vocabulary_fields :: "pystr option \<Rightarrow> pykey list" where
  "vocabulary_fields kind =
     (if kind = Some (u ''guardrail_intervention'')
      then map (\<lambda>s. KStr (u s)) [''action'', ''stage'', ''categories''] else [])"

definition apply_payload_mode ::
  "unicode \<Rightarrow> hash \<Rightarrow> (pyval \<Rightarrow> pystr) \<Rightarrow> pystr \<Rightarrow> payload_mode \<Rightarrow> pystr option \<Rightarrow> (pykey \<times> pyval) list
     \<Rightarrow> redact_error + (pykey \<times> pyval) list" where
  "apply_payload_mode un sha repr salt mode kind payload =
     (case mode of
        FULL \<Rightarrow> Inr payload
      | HASH_ONLY \<Rightarrow> Inr []
      | REDACTED \<Rightarrow>
          rseq (map (\<lambda>(k, v). if k \<in> set (vocabulary_fields kind) then Inr (k, v)
                              else rmap (\<lambda>w. (k, w)) (redact_value un sha repr salt v)) payload))"

section \<open>Free text\<close>

type_synonym span = "nat \<times> nat \<times> pystr"

definition spans_of :: "unicode \<Rightarrow> rx list \<Rightarrow> string \<Rightarrow> pystr \<Rightarrow> span list" where
  "spans_of un p kind t = map (\<lambda>(s, e). (s, e, u kind)) (rx_find un p None t 0)"

definition scan_patterns :: "unicode \<Rightarrow> (string \<times> rx list) list" where
  "scan_patterns un =
     [(''api_key'', sk_rx 10), (''api_key'', bearer_rx), (''aws_key'', Boundary # aws_rx @ [Boundary]),
      (''email'', Boundary # email_rx @ [Boundary]), (''ssn'', Boundary # ssn_rx un @ [Boundary])]"

definition found_spans :: "unicode \<Rightarrow> pystr \<Rightarrow> span list" where
  "found_spans un t =
     map (\<lambda>(s, e). (s, e, u ''credit_card'')) (card_spans un t)
     @ concat (map (\<lambda>(kind, p). spans_of un p kind t) (scan_patterns un))
     @ spans_of un (Boundary # entropy_rx @ [Boundary]) ''api_key'' t"

fun keep_spans :: "nat \<Rightarrow> span list \<Rightarrow> span list" where
  "keep_spans cursor [] = []"
| "keep_spans cursor ((s, e, k) # r) = (if s < cursor then keep_spans cursor r else (s, e, k) # keep_spans e r)"

definition scan_spans :: "unicode \<Rightarrow> pystr \<Rightarrow> span list" where
  "scan_spans un t = keep_spans 0 (sort_key (\<lambda>(s, e, _). (s, - (int e - int s))) (found_spans un t))"

fun mask_spans :: "pystr \<Rightarrow> nat \<Rightarrow> span list \<Rightarrow> pystr" where
  "mask_spans t cursor [] = drop cursor t"
| "mask_spans t cursor ((s, e, k) # r) = piece t (cursor, s) @ redaction_mark k @ mask_spans t e r"

definition redact_free_text :: "unicode \<Rightarrow> pystr \<Rightarrow> pystr" where
  "redact_free_text un t = (let spans = scan_spans un t in if spans = [] then t else mask_spans t 0 spans)"

end
