(* ===== verification/Recorder.thy ===== *)
theory Recorder
  imports Extract Redact Checkpoint
begin

text \<open>
  \<open>Recorder\<close> of \<open>recorder/integration.py\<close>: what was captured becomes an event of the ledger and is noted by the
  checkpointer. The state is the ledger object, its database and the checkpointer; threads, the shipper and the fetcher
  of receipts are left out. One record of an event reads a \<open>capture\<close> from outside: a fresh identifier, the clock, what
  SQLite answers and what the checkpointer sees.

  \<open>StrictWrite\<close> is the \<open>LedgerWriteError\<close> of strict mode, \<open>Unhashable\<close> the error of \<open>canonicalize\<close> on the raw payload,
  \<open>Unredactable\<close> the error of the redaction.

  \<open>AgentEvent\<close> declares \<open>tool_use_id\<close> and \<open>tool_name\<close> to be a string or \<open>None\<close>, and does not check it. A stream can put
  any JSON value there, and what then becomes of the event is up to the types SQLite converts or refuses. The
  model ends there: it is \<open>None\<close> for a list of events with such an identifier, and says nothing of it. The two
  extractors of bodies give no such event (\<open>bodies_are_typed\<close>).
\<close>

section \<open>From capture to ledger\<close>

datatype recorder_error = StrictWrite write_error | Unhashable canon_error | Unredactable

record recorder_config =
  rg_crypto :: crypto
  rg_key :: device_key
  rg_mode :: payload_mode
  rg_salt :: pystr
  rg_unicode :: unicode
  rg_repr :: "pyval \<Rightarrow> pystr"

record capture =
  cx_event_id :: pystr
  cx_ts_device :: pystr
  cx_ts_monotonic_ns :: int
  cx_append :: append_env
  cx_checkpoint :: cp_env

record recorder =
  rd_ledger :: ledger
  rd_db :: ledger_db
  rd_checkpointer :: checkpointer

fun id_text :: "pyval \<Rightarrow> pystr option option" where
  "id_text PNone = Some None" | "id_text (PStr t) = Some (Some t)" | "id_text _ = None"

definition shipped_payload :: "recorder_config \<Rightarrow> partial_event \<Rightarrow> recorder_error + object" where
  "shipped_payload g p =
     (case apply_payload_mode (rg_unicode g) (c_sha (rg_crypto g)) (rg_repr g) (rg_salt g) (rg_mode g)
             (Some (kind_value (px_kind p))) (px_payload p) of
        Inl _ \<Rightarrow> Inl Unredactable
      | Inr d \<Rightarrow> Inr d)"

text \<open>\<open>_promote\<close>: the hash is taken over the raw payload, the payload that is stored is the redacted one.\<close>

definition promote_event ::
  "recorder_config \<Rightarrow> capture \<Rightarrow> pystr option \<Rightarrow> pystr option \<Rightarrow> partial_event \<Rightarrow> recorder_error + agent_event" where
  "promote_event g cx tool_use_id tool_name p =
     (case canonicalize (PDict (px_payload p)) of
        Inl e \<Rightarrow> Inl (Unhashable e)
      | Inr raw \<Rightarrow>
          rmap (\<lambda>payload.
            \<lparr>ev_schema_version = px_schema_version p, ev_event_id = cx_event_id cx, ev_device_id = dk_device_id (rg_key g),
             ev_session_id = tc_session (px_context p), ev_seq = 0, ev_kind = kind_value (px_kind p),
             ev_ts_device = cx_ts_device cx, ev_ts_monotonic_ns = cx_ts_monotonic_ns cx, ev_tool_use_id = tool_use_id,
             ev_tool_name = tool_name, ev_payload = PDict payload,
             ev_payload_hash = sha256_hex (c_sha (rg_crypto g)) raw, ev_model = px_model p, ev_provider = px_provider p,
             ev_trace_id = tc_trace (px_context p), ev_span_id = tc_span (px_context p),
             ev_parent_span_id = tc_parent (px_context p), ev_continues_from = tc_continues (px_context p)\<rparr>)
            (shipped_payload g p))"

text \<open>\<open>record\<close>: only a \<open>LedgerWriteError\<close> of \<open>append\<close> leaves it, other errors of the ledger and the checkpointer are logged.\<close>

definition note_entry :: "recorder_config \<Rightarrow> capture \<Rightarrow> ledger_entry \<Rightarrow> recorder \<Rightarrow> recorder" where
  "note_entry g cx entry rd =
     (case note_seq (rg_crypto g) (rg_key g) (cx_checkpoint cx) (rd_ledger rd) (rd_db rd) (le_seq entry) (rd_checkpointer rd) of
        (_, cp, db) \<Rightarrow> rd\<lparr>rd_checkpointer := cp, rd_db := db\<rparr>)"

definition record_promoted :: "recorder_config \<Rightarrow> capture \<Rightarrow> agent_event \<Rightarrow> recorder \<Rightarrow> recorder_error option \<times> recorder" where
  "record_promoted g cx ev rd =
     (case append (c_sha (rg_crypto g)) (cx_append cx) ev (rd_ledger rd) (rd_db rd) of
        (r, l, db) \<Rightarrow>
          (let rd' = rd\<lparr>rd_ledger := l, rd_db := db\<rparr> in
           case r of
             Inl (LedgerWriteError e) \<Rightarrow> (Some (StrictWrite e), rd')
           | Inl _ \<Rightarrow> (None, rd')
           | Inr None \<Rightarrow> (None, rd')
           | Inr (Some entry) \<Rightarrow> (None, note_entry g cx entry rd')))"

definition record_event ::
  "recorder_config \<Rightarrow> capture \<Rightarrow> partial_event \<Rightarrow> recorder \<Rightarrow> (recorder_error option \<times> recorder) option" where
  "record_event g cx p rd =
     (case (id_text (px_tool_use_id p), id_text (px_tool_name p)) of
        (Some tool_use_id, Some tool_name) \<Rightarrow>
          Some (case promote_event g cx tool_use_id tool_name p of
                  Inl e \<Rightarrow> (Some e, rd)
                | Inr ev \<Rightarrow> record_promoted g cx ev rd)
      | _ \<Rightarrow> None)"

text \<open>\<open>record_many\<close>: \<open>captures\<close> has one reading for each event.\<close>

fun record_many ::
  "recorder_config \<Rightarrow> (capture \<times> partial_event) list \<Rightarrow> recorder \<Rightarrow> (recorder_error option \<times> recorder) option" where
  "record_many g [] rd = Some (None, rd)"
| "record_many g ((cx, p) # ps) rd =
     (case record_event g cx p rd of
        None \<Rightarrow> None
      | Some (Some e, rd') \<Rightarrow> Some (Some e, rd')
      | Some (None, rd') \<Rightarrow> record_many g ps rd')"

definition captured :: "(nat \<Rightarrow> capture) \<Rightarrow> partial_event list \<Rightarrow> (capture \<times> partial_event) list" where
  "captured cxs ps = zip (map cxs [0..<length ps]) ps"

definition record_request_body ::
  "recorder_config \<Rightarrow> (nat \<Rightarrow> capture) \<Rightarrow> trace_context \<Rightarrow> pyval \<Rightarrow> recorder \<Rightarrow> (recorder_error option \<times> recorder) option" where
  "record_request_body g cxs tc body rd = record_many g (captured cxs (extract_request_events tc body)) rd"

definition record_response_body ::
  "recorder_config \<Rightarrow> (nat \<Rightarrow> capture) \<Rightarrow> trace_context \<Rightarrow> pyval \<Rightarrow> recorder \<Rightarrow> (recorder_error option \<times> recorder) option" where
  "record_response_body g cxs tc body rd = record_many g (captured cxs (extract_response_events tc body)) rd"

text \<open>An exception of the extractor is logged, and what the call would have given is not recorded.\<close>

definition record_extracted ::
  "recorder_config \<Rightarrow> (nat \<Rightarrow> capture) \<Rightarrow> extracted \<times> extractor \<Rightarrow> recorder
     \<Rightarrow> (recorder_error option \<times> extractor \<times> recorder) option" where
  "record_extracted g cxs r rd =
     (case r of
        (Inl _, x) \<Rightarrow> Some (None, x, rd)
      | (Inr es, x) \<Rightarrow> map_option (\<lambda>(err, rd'). (err, x, rd')) (record_many g (captured cxs es) rd))"

definition feed_stream_chunk ::
  "recorder_config \<Rightarrow> (nat \<Rightarrow> capture) \<Rightarrow> codec \<Rightarrow> bytes \<Rightarrow> extractor \<Rightarrow> recorder
     \<Rightarrow> (recorder_error option \<times> extractor \<times> recorder) option" where
  "feed_stream_chunk g cxs cd chunk x rd = record_extracted g cxs (feed cd chunk x) rd"

definition close_stream_extractor ::
  "recorder_config \<Rightarrow> (nat \<Rightarrow> capture) \<Rightarrow> codec \<Rightarrow> extractor \<Rightarrow> recorder
     \<Rightarrow> (recorder_error option \<times> extractor \<times> recorder) option" where
  "close_stream_extractor g cxs cd x rd = record_extracted g cxs (close_extractor cd x) rd"

text \<open>\<open>close\<close>: whatever is still pending is checkpointed, then the ledger is closed, even if that raises.\<close>

definition close_recorder :: "recorder_config \<Rightarrow> cp_env \<Rightarrow> recorder \<Rightarrow> (checkpointer_error + checkpoint option) \<times> recorder" where
  "close_recorder g env rd =
     (case flush (rg_crypto g) (rg_key g) env (rd_ledger rd) (rd_db rd) (rd_checkpointer rd) of
        (r, cp, db) \<Rightarrow> (r, rd\<lparr>rd_checkpointer := cp, rd_db := db, rd_ledger := close_ledger (rd_ledger rd)\<rparr>))"

end
