(* ===== verification/Extract_Props.thy ===== *)
theory Extract_Props
  imports Extract Cache_Props
begin

text \<open>
  What the extractor of \<open>extract.py\<close> promises: its events do not depend on how the bytes of a stream are cut into
  chunks, no tool call it saw begin goes unreported, and a stream gives the events of the equivalent body.
\<close>

named_theorems frame_simps \<open>the handlers of frames\<close>

lemmas frame_defs = handle_event_def message_start_def block_start_def block_delta_def block_stop_def message_delta_def
  error_frame_def

section \<open>What a step leaves alone\<close>

lemma put_usage_fields [simp]:
  "se_buf (put_usage v x) = se_buf x" "se_closed (put_usage v x) = se_closed x" "se_data (put_usage v x) = se_data x"
  "se_blocks (put_usage v x) = se_blocks x" "se_context (put_usage v x) = se_context x" "se_model (put_usage v x) = se_model x"
  by (simp_all add: put_usage_def split: pyval.splits)

lemma put_usage_buf [simp]: "put_usage v (x\<lparr>se_buf := b\<rparr>) = (put_usage v x)\<lparr>se_buf := b\<rparr>"
  by (simp add: put_usage_def split: pyval.splits)

lemma take_model_fields [simp]:
  "se_buf (take_model v x) = se_buf x" "se_closed (take_model v x) = se_closed x" "se_data (take_model v x) = se_data x"
  "se_blocks (take_model v x) = se_blocks x" "se_context (take_model v x) = se_context x"
  by (simp_all add: take_model_def split: pyval.splits)

lemma take_model_buf [simp]: "take_model v (x\<lparr>se_buf := b\<rparr>) = (take_model v x)\<lparr>se_buf := b\<rparr>"
  by (simp add: take_model_def split: pyval.splits)

lemma take_stop_fields [simp]:
  "se_buf (take_stop v x) = se_buf x" "se_closed (take_stop v x) = se_closed x" "se_data (take_stop v x) = se_data x"
  "se_blocks (take_stop v x) = se_blocks x"
  by (simp_all add: take_stop_def split: pyval.splits)

lemma take_stop_buf [simp]: "take_stop v (x\<lparr>se_buf := b\<rparr>) = (take_stop v x)\<lparr>se_buf := b\<rparr>"
  by (simp add: take_stop_def split: pyval.splits)

text \<open>The buffer of bytes is seen and changed by the loop over lines only.\<close>

definition buffer_blind :: "step \<Rightarrow> bool" where
  "buffer_blind f \<longleftrightarrow> (\<forall>x b. f (x\<lparr>se_buf := b\<rparr>) = (fst (f x), (snd (f x))\<lparr>se_buf := b\<rparr>))"

lemma complete_block_buf [simp]: "complete_block cd (x\<lparr>se_buf := b\<rparr>) bl = complete_block cd x bl"
  by (simp add: complete_block_def tool_use_event_def unknown_block_event_def text_events_def stream_event_def)

lemma buffer_blindI: "(\<And>x b. f (x\<lparr>se_buf := b\<rparr>) = (fst (f x), (snd (f x))\<lparr>se_buf := b\<rparr>)) \<Longrightarrow> buffer_blind f"
  by (simp add: buffer_blind_def)

lemma buffer_blindD: "buffer_blind f \<Longrightarrow> f (x\<lparr>se_buf := b\<rparr>) = (fst (f x), (snd (f x))\<lparr>se_buf := b\<rparr>)"
  by (simp add: buffer_blind_def)

lemma buffer_blind_keeps: "buffer_blind f \<Longrightarrow> se_buf (snd (f x)) = se_buf x"
  using arg_cong [OF buffer_blindD [where x = x and b = "se_buf x"], of f "\<lambda>r. se_buf (snd r)"] by simp

lemma buffer_blind_message_start: "buffer_blind (message_start d)"
proof (rule buffer_blindI)
  fix x :: extractor and b
  have swap: "x\<lparr>se_buf := b, se_started := True\<rparr> = (x\<lparr>se_started := True\<rparr>)\<lparr>se_buf := b\<rparr>" by simp
  show "message_start d (x\<lparr>se_buf := b\<rparr>) = (fst (message_start d x), (snd (message_start d x))\<lparr>se_buf := b\<rparr>)"
    by (simp add: message_start_def Let_def swap del: extractor.update_convs split: option.split)
qed

lemma buffer_blind_frames:
  "buffer_blind (block_start cd d)" "buffer_blind (block_delta d)" "buffer_blind (block_stop cd d)" "buffer_blind (error_frame d)" "buffer_blind (message_delta d)"
  by (rule buffer_blindI, simp add: block_start_def block_delta_def block_stop_def error_frame_def message_delta_def Let_def stream_event_def
      split: option.split)+

lemma buffer_blind_handle_event: "buffer_blind (handle_event cd t d)"
  by (rule buffer_blindI) (simp add: handle_event_def buffer_blindD [OF buffer_blind_message_start] buffer_blindD [OF buffer_blind_frames(5)]
      buffer_blindD [OF buffer_blind_frames(1)] buffer_blindD [OF buffer_blind_frames(2)] buffer_blindD [OF buffer_blind_frames(3)] buffer_blindD [OF buffer_blind_frames(4)])

lemma buffer_blind_dispatch: "buffer_blind (dispatch cd)"
proof (rule buffer_blindI)
  fix x :: extractor and b
  have swap: "x\<lparr>se_buf := b, se_data := [], se_event := None\<rparr> = (x\<lparr>se_data := [], se_event := None\<rparr>)\<lparr>se_buf := b\<rparr>" by simp
  show "dispatch cd (x\<lparr>se_buf := b\<rparr>) = (fst (dispatch cd x), (snd (dispatch cd x))\<lparr>se_buf := b\<rparr>)"
    using buffer_blindD [OF buffer_blind_handle_event]
    by (simp add: dispatch_def Let_def parse_failure_def stream_event_def swap del: extractor.update_convs
        split: json_result.split pyval.split)
qed

lemma buffer_blind_handle_line: "buffer_blind (handle_line cd l)"
  by (rule buffer_blindI) (simp add: handle_line_def split_def Let_def buffer_blindD [OF buffer_blind_dispatch])

section \<open>Chunks\<close>

lemma cut_line_raw: "10 \<notin> set raw \<Longrightarrow> cut_line (raw @ 10 # rest) = Some (raw, rest)"
  by (induction raw) (auto simp: cut_line_def split: list.splits)

lemma cut_line_SomeD:
  assumes "cut_line a = Some (raw, rest)"
  shows "a = raw @ 10 # rest \<and> 10 \<notin> set raw"
proof -
  from assms obtain c where c: "dropWhile (\<lambda>b. b \<noteq> 10) a = c # rest" "raw = takeWhile (\<lambda>b. b \<noteq> 10) a"
    by (auto simp: cut_line_def split: list.splits)
  then have "c = 10" using hd_dropWhile [of "\<lambda>b. b \<noteq> 10" a] by simp
  with c show ?thesis using takeWhile_dropWhile_id [of "\<lambda>b. b \<noteq> 10" a] set_takeWhileD [of 10 "\<lambda>b. b \<noteq> 10" a] by auto
qed

lemma cut_line_append: "cut_line a = Some (raw, rest) \<Longrightarrow> cut_line (a @ b) = Some (raw, rest @ b)"
  using cut_line_raw cut_line_SomeD by fastforce

lemma feed_lines_buf: "feed_lines cd buf (x\<lparr>se_buf := b\<rparr>) = feed_lines cd buf x"
proof (induction cd buf x arbitrary: b rule: feed_lines.induct)
  case (1 cd buf x)
  show ?case
  proof (cases "cut_line buf")
    case None
    then show ?thesis by (simp add: feed_lines.simps [of cd buf])
  next
    case (Some p)
    obtain raw rest where p: "p = (raw, rest)" by fastforce
    obtain r x1 where h: "handle_line cd (cd_decode cd (chomp raw)) x = (r, x1)" by fastforce
    with buffer_blindD [OF buffer_blind_handle_line, where x = x and b = b]
    have h': "handle_line cd (cd_decode cd (chomp raw)) (x\<lparr>se_buf := b\<rparr>) = (r, x1\<lparr>se_buf := b\<rparr>)" by simp
    show ?thesis
    proof (cases r)
      case (Inl e)
      with Some p h h' show ?thesis by (simp add: feed_lines.simps [of cd buf])
    next
      case (Inr es)
      have "feed_lines cd rest (x1\<lparr>se_buf := b\<rparr>) = feed_lines cd rest x1" using 1 [OF Some p [symmetric] h [symmetric] Inr] .
      with Some p h h' Inr show ?thesis by (simp add: feed_lines.simps [of cd buf])
    qed
  qed
qed

definition later :: "partial_event list \<Rightarrow> extracted \<times> extractor \<Rightarrow> extracted \<times> extractor" where
  "later es r = (case r of (Inl e, x) \<Rightarrow> (Inl e, x) | (Inr fs, x) \<Rightarrow> (Inr (es @ fs), x))"

lemma later_simps [simp]: "later es (Inl e, x) = (Inl e, x)" "later es (Inr fs, x) = (Inr (es @ fs), x)"
  "later es (later fs r) = later (es @ fs) r" "later [] r = r" "snd (later es r) = snd r"
  by (auto simp: later_def split: prod.splits sum.splits)

lemma feed_lines_unfold:
  "feed_lines cd buf x =
     (case cut_line buf of
        None \<Rightarrow> (Inr [], x\<lparr>se_buf := buf\<rparr>)
      | Some (raw, rest) \<Rightarrow>
          (case handle_line cd (cd_decode cd (chomp raw)) x of
             (Inl e, x1) \<Rightarrow> (Inl e, x1\<lparr>se_buf := rest\<rparr>)
           | (Inr es, x1) \<Rightarrow> later es (feed_lines cd rest x1)))"
  by (subst feed_lines.simps) (simp add: later_def split: option.split prod.split sum.split)

text \<open>Bytes that follow are read as if they had come at once.\<close>

lemma feed_lines_append:
  "feed_lines cd (a @ b) x =
     (case feed_lines cd a x of
        (Inl e, x1) \<Rightarrow> (Inl e, x1\<lparr>se_buf := se_buf x1 @ b\<rparr>)
      | (Inr es, x1) \<Rightarrow> later es (feed_lines cd (se_buf x1 @ b) x1))"
proof (induction cd a x rule: feed_lines.induct)
  case (1 cd a x)
  show ?case
  proof (cases "cut_line a")
    case None
    then show ?thesis by (simp add: feed_lines_unfold [of cd a] feed_lines_buf)
  next
    case (Some p)
    obtain raw rest where p: "p = (raw, rest)" by fastforce
    obtain r x1 where h: "handle_line cd (cd_decode cd (chomp raw)) x = (r, x1)" by fastforce
    note ab = feed_lines_unfold [of cd "a @ b"] feed_lines_unfold [of cd a] cut_line_append [OF Some [unfolded p], of b]
    show ?thesis
    proof (cases r)
      case (Inl e)
      with Some p h show ?thesis by (simp add: ab)
    next
      case (Inr es)
      note ih = 1 [OF Some p [symmetric] h [symmetric] Inr]
      obtain q x2 where q: "feed_lines cd rest x1 = (q, x2)" by fastforce
      with Some p h Inr ih show ?thesis by (cases q) (simp_all add: ab)
    qed
  qed
qed

lemma closed_frames:
  "se_closed (snd (message_start d x)) = se_closed x" "se_closed (snd (block_start cd d x)) = se_closed x"
  "se_closed (snd (block_delta d x)) = se_closed x" "se_closed (snd (block_stop cd d x)) = se_closed x"
  "se_closed (snd (message_delta d x)) = se_closed x" "se_closed (snd (error_frame d x)) = se_closed x"
  by (simp_all add: message_start_def block_start_def block_delta_def block_stop_def message_delta_def error_frame_def Let_def
      split: option.split pyval.split)

lemma closed_handle_event [simp]: "se_closed (snd (handle_event cd t d x)) = se_closed x"
  by (simp add: handle_event_def closed_frames)

lemma closed_dispatch [simp]: "se_closed (snd (dispatch cd x)) = se_closed x"
  by (simp add: dispatch_def Let_def split: json_result.split pyval.split)

lemma closed_handle_line [simp]: "se_closed (snd (handle_line cd l x)) = se_closed x"
  by (simp add: handle_line_def split_def Let_def)

lemma closed_feed_lines [simp]: "se_closed (snd (feed_lines cd buf x)) = se_closed x"
proof (induction cd buf x rule: feed_lines.induct)
  case (1 cd buf x)
  show ?case
  proof (cases "cut_line buf")
    case None
    then show ?thesis by (simp add: feed_lines_unfold [of cd buf])
  next
    case (Some p)
    obtain raw rest where p: "p = (raw, rest)" by fastforce
    obtain r x1 where h: "handle_line cd (cd_decode cd (chomp raw)) x = (r, x1)" by fastforce
    have closed: "se_closed x1 = se_closed x" using closed_handle_line [of cd "cd_decode cd (chomp raw)" x] h by simp
    show ?thesis
    proof (cases r)
      case (Inl e)
      with Some p h closed show ?thesis by (simp add: feed_lines_unfold [of cd buf])
    next
      case (Inr es)
      from 1 [OF Some p [symmetric] h [symmetric] Inr] Some p h Inr closed show ?thesis
        by (simp add: feed_lines_unfold [of cd buf])
    qed
  qed
qed

lemma feed_lines_rest: "feed_lines cd buf x = (Inr es, x1) \<Longrightarrow> cut_line (se_buf x1) = None"
proof (induction cd buf x arbitrary: es rule: feed_lines.induct)
  case (1 cd buf x)
  show ?case
  proof (cases "cut_line buf")
    case None
    with 1(2) show ?thesis by (auto simp: feed_lines_unfold [of cd buf])
  next
    case (Some p)
    obtain raw rest where p: "p = (raw, rest)" by fastforce
    obtain r y where h: "handle_line cd (cd_decode cd (chomp raw)) x = (r, y)" by fastforce
    with Some p 1(2) obtain fs where r: "r = Inr fs" "later fs (feed_lines cd rest y) = (Inr es, x1)"
      by (cases r) (auto simp: feed_lines_unfold [of cd buf])
    then obtain gs where "feed_lines cd rest y = (Inr gs, x1)"
      by (auto simp: later_def split: prod.splits sum.splits)
    from 1(1) [OF Some p [symmetric] h [symmetric] r(1) this] show ?thesis .
  qed
qed

text \<open>
  A stream fed chunk by chunk, the way the recorder does it: it keeps the events of the calls that return, notes an
  exception, and goes on with the next chunk.
\<close>

fun run_chunks :: "codec \<Rightarrow> bytes list \<Rightarrow> extractor \<Rightarrow> partial_event list \<times> extract_error list \<times> extractor" where
  "run_chunks cd [] x = ([], [], x)"
| "run_chunks cd (c # cs) x =
     (case feed cd c x of
        (Inl e, x1) \<Rightarrow> (case run_chunks cd cs x1 of (es, errs, x2) \<Rightarrow> (es, e # errs, x2))
      | (Inr es, x1) \<Rightarrow> (case run_chunks cd cs x1 of (fs, errs, x2) \<Rightarrow> (es @ fs, errs, x2)))"

lemma feed_closed: "se_closed x \<Longrightarrow> feed cd c x = (Inr [], x)"
  by (simp add: feed_def)

lemma feed_append:
  assumes "a \<noteq> []" "\<not> se_closed x" "feed cd a x = (Inr es, x1)"
  shows "feed cd (a @ b) x = later es (feed cd b x1)"
proof -
  have a: "feed_lines cd (se_buf x @ a) x = (Inr es, x1)" using assms by (simp add: feed_def)
  have "\<not> se_closed x1" using closed_feed_lines [of cd "se_buf x @ a" x] a assms(2) by simp
  moreover have "feed_lines cd (se_buf x1) x1 = (Inr [], x1)"
    using feed_lines_rest [OF a] by (simp add: feed_lines_unfold [of cd "se_buf x1"])
  ultimately show ?thesis using assms a feed_lines_append [of cd "se_buf x @ a" b x] by (auto simp: feed_def)
qed

lemma feed_nothing [simp]: "feed cd [] x = (Inr [], x)"
  by (simp add: feed_def)

lemma feed_then:
  assumes "feed cd a x = (Inr es, x1)"
  shows "feed cd (a @ b) x = later es (feed cd b x1)"
proof (cases "a = [] \<or> se_closed x")
  case True
  with assms show ?thesis by (auto simp: feed_closed)
next
  case False
  with assms show ?thesis by (simp add: feed_append)
qed

lemma feed_fails_then:
  assumes "feed cd a x = (Inl e, x1)"
  shows "feed cd (a @ b) x = (Inl e, x1\<lparr>se_buf := se_buf x1 @ b\<rparr>)"
  using assms feed_lines_append [of cd "se_buf x @ a" b x] by (auto simp: feed_def split: if_splits)

lemma chunks_return: "run_chunks cd cs x = (es, [], x1) \<Longrightarrow> feed cd (concat cs) x = (Inr es, x1)"
proof (induction cs arbitrary: x es)
  case (Cons c cs)
  from Cons.prems obtain es1 y fs where "feed cd c x = (Inr es1, y)" "run_chunks cd cs y = (fs, [], x1)" "es = es1 @ fs"
    by (auto split: prod.splits sum.splits)
  then show ?case using Cons.IH by (simp add: feed_then)
qed simp

lemma chunks_raise:
  "run_chunks cd cs x = (es, e # errs, x1) \<Longrightarrow>
     \<exists>before c after es0 y z. cs = before @ c # after \<and> run_chunks cd before x = (es0, [], y) \<and> feed cd c y = (Inl e, z)
       \<and> feed cd (concat cs) x = (Inl e, z\<lparr>se_buf := se_buf z @ concat after\<rparr>) \<and> (\<exists>fs. es = es0 @ fs)"
proof (induction cs arbitrary: x es)
  case (Cons c cs)
  obtain r y where r: "feed cd c x = (r, y)" by fastforce
  show ?case
  proof (cases r)
    case (Inl e')
    then have "e' = e" using Cons.prems r by (auto split: prod.splits)
    then show ?thesis using r Inl feed_fails_then [of cd c x e y "concat cs"]
      by (intro exI [of _ "[]"] exI [of _ c] exI [of _ cs] exI [of _ "[]"] exI [of _ x] exI [of _ y]) simp
  next
    case (Inr es1)
    with Cons.prems r obtain fs where fs: "run_chunks cd cs y = (fs, e # errs, x1)" "es = es1 @ fs"
      by (auto split: prod.splits)
    from Cons.IH [OF fs(1)] obtain before c' after es0 y' z where ih: "cs = before @ c' # after"
      "run_chunks cd before y = (es0, [], y')" "feed cd c' y' = (Inl e, z)"
      "feed cd (concat cs) y = (Inl e, z\<lparr>se_buf := se_buf z @ concat after\<rparr>)" "\<exists>fs'. fs = es0 @ fs'" by blast
    then show ?thesis using r Inr fs(2) feed_then [of cd c x es1 y "concat cs"]
      by (intro exI [of _ "c # before"] exI [of _ c'] exI [of _ after] exI [of _ "es1 @ es0"] exI [of _ y'] exI [of _ z]) auto
  qed
qed simp

text \<open>
  C35: how a stream is cut into chunks matters only where a frame raises. When no call raises, feeding chunks one after
  the other gives the events, in order, and the state of the extractor that all the bytes at once give; a cut may fall
  anywhere, in a line, between a carriage return and its line feed, in a character. When a call raises, the bytes at
  once raise the same exception, in the state of the call that raised with the bytes behind it unread; but the events
  that the calls before it had returned, which a caller that feeds chunk by chunk keeps, are lost.
\<close>

theorem chunking_matters_only_on_errors:
  "case run_chunks cd cs x of
     (es, [], x1) \<Rightarrow> feed cd (concat cs) x = (Inr es, x1)
   | (es, e # _, x1) \<Rightarrow>
       (\<exists>before c after es0 y z. cs = before @ c # after \<and> run_chunks cd before x = (es0, [], y) \<and> feed cd c y = (Inl e, z)
          \<and> feed cd (concat cs) x = (Inl e, z\<lparr>se_buf := se_buf z @ concat after\<rparr>) \<and> (\<exists>fs. es = es0 @ fs))"
proof -
  obtain es errs x1 where "run_chunks cd cs x = (es, errs, x1)" by (metis prod_cases3)
  then show ?thesis using chunks_return chunks_raise by (cases errs) simp_all
qed

text \<open>
  A frame of an unexpected shape takes the events of its chunk with it: the same bytes are recorded when they come in two
  chunks, and not when they come in one.
\<close>

theorem bad_frame_discards_chunk:
  assumes "feed cd a x = (Inr es, x1)" "feed cd b x1 = (Inl e, x2)"
  shows "fst (run_chunks cd [a, b] x) = es \<and> fst (run_chunks cd [a @ b] x) = []"
  using assms feed_then [OF assms(1), of b] by simp

section \<open>No tool call is lost\<close>

text \<open>The frames of a stream, one after the other, up to the first exception.\<close>

fun run_frames :: "codec \<Rightarrow> (pyval \<times> object) list \<Rightarrow> step" where
  "run_frames cd [] x = (Inr [], x)"
| "run_frames cd ((t, d) # fs) x =
     (case handle_event cd t d x of (Inl e, x1) \<Rightarrow> (Inl e, x1) | (Inr es, x1) \<Rightarrow> later es (run_frames cd fs x1))"

lemma run_frames_append:
  "run_frames cd (fs @ gs) x =
     (case run_frames cd fs x of (Inl e, x1) \<Rightarrow> (Inl e, x1) | (Inr es, x1) \<Rightarrow> later es (run_frames cd gs x1))"
proof (induction fs arbitrary: x)
  case (Cons f fs)
  obtain t d where f: "f = (t, d)" by fastforce
  obtain r x1 where h: "handle_event cd t d x = (r, x1)" by fastforce
  show ?case
  proof (cases r)
    case (Inr es)
    obtain q x2 where "run_frames cd fs x1 = (q, x2)" by fastforce
    with Inr h f Cons show ?thesis by (cases q) simp_all
  qed (use h f in simp)
qed simp

text \<open>Block \<open>i\<close> is a tool call with this name and identifier.\<close>

definition calling :: "int \<Rightarrow> pyval \<Rightarrow> pyval \<Rightarrow> extractor \<Rightarrow> bool" where
  "calling i tid name x \<longleftrightarrow>
     (\<exists>b. map_of (se_blocks x) i = Some b \<and> bk_type b = u ''tool_use'' \<and> bk_id b = tid \<and> bk_name b = name)"

definition names_call :: "pyval \<Rightarrow> pyval \<Rightarrow> partial_event \<Rightarrow> bool" where
  "names_call tid name e \<longleftrightarrow> px_kind e \<in> {TOOL_USE, STREAM_ABORTED} \<and> px_tool_use_id e = tid \<and> px_tool_name e = name"

definition starts_block :: "int \<Rightarrow> pyval \<times> object \<Rightarrow> bool" where
  "starts_block i f \<longleftrightarrow> fst f = PStr (u ''content_block_start'') \<and> as_index (dget (u ''index'') (snd f)) = Some i"

lemma add_delta_fields [simp]: "bk_type (add_delta d b) = bk_type b" "bk_id (add_delta d b) = bk_id b"
  "bk_name (add_delta d b) = bk_name b" "bk_index (add_delta d b) = bk_index b"
  by (simp_all add: add_delta_def split: pyval.split)

lemma stop_reports:
  assumes "block_stop cd d x = (Inr es, x1)" "calling i tid name x"
  shows "calling i tid name x1 \<or> list_ex (names_call tid name) es"
proof (cases "as_index (dget (u ''index'') d) = Some i")
  case True
  with assms show ?thesis
    by (auto simp: block_stop_def calling_def complete_block_def tool_use_event_def rmap_Inr_iff names_call_def stream_event_def
        make_event_def)
next
  case False
  with assms show ?thesis by (auto simp: block_stop_def calling_def map_of_od_pop split: option.splits)
qed

lemma frame_reports:
  assumes "handle_event cd t d x = (Inr es, x1)" "calling i tid name x" "\<not> starts_block i (t, d)"
  shows "calling i tid name x1 \<or> list_ex (names_call tid name) es"
proof (cases "t = PStr (u ''content_block_stop'')")
  case True
  with assms stop_reports show ?thesis by (simp add: handle_event_def)
next
  case False
  have quiet: "se_blocks (snd (message_start d x)) = se_blocks x" "se_blocks (snd (message_delta d x)) = se_blocks x"
    "se_blocks (snd (error_frame d x)) = se_blocks x"
    by (simp_all add: message_start_def message_delta_def error_frame_def Let_def split: option.split pyval.split)
  then have "se_blocks x1 = se_blocks x"
    if "message_start d x = (Inr es, x1) \<or> message_delta d x = (Inr es, x1) \<or> error_frame d x = (Inr es, x1)"
    using that by auto
  moreover have "calling i tid name x1" if "block_start cd d x = (Inr es, x1)" "as_index (dget (u ''index'') d) \<noteq> Some i"
    using that assms(2) by (auto simp: block_start_def calling_def map_of_od_set split: option.splits)
  moreover have "calling i tid name x1" if "block_delta d x = (Inr es, x1)"
    using that assms(2) by (auto simp: block_delta_def calling_def map_of_od_set Let_def split: option.splits)
  ultimately show ?thesis
    using False assms by (auto simp: handle_event_def starts_block_def calling_def split: if_splits)
qed

lemma frames_report:
  "run_frames cd fs x = (Inr es, x1) \<Longrightarrow> calling i tid name x \<Longrightarrow> \<not> list_ex (starts_block i) fs
     \<Longrightarrow> calling i tid name x1 \<or> list_ex (names_call tid name) es"
proof (induction fs arbitrary: x es)
  case (Cons f fs)
  obtain t d where f: "f = (t, d)" by fastforce
  obtain r x2 where h: "handle_event cd t d x = (r, x2)" by fastforce
  with Cons.prems(1) f obtain es1 es2 where es: "r = Inr es1" "run_frames cd fs x2 = (Inr es2, x1)" "es = es1 @ es2"
    by (cases r) (auto simp: later_def split: prod.splits sum.splits)
  from frame_reports [of cd t d x es1 x2 i tid name] h es(1) Cons.prems(2,3) f
  have "calling i tid name x2 \<or> list_ex (names_call tid name) es1" by simp
  then show ?case using Cons.IH [OF es(2)] Cons.prems(3) es(3) by auto
qed simp

lemma abort_reports:
  assumes "abort_open x = (Inr es, x1)" "calling i tid name x"
  shows "list_ex (names_call tid name) es"
proof -
  from assms(2) obtain b where b: "map_of (se_blocks x) i = Some b" "bk_id b = tid" "bk_name b = name"
    by (auto simp: calling_def)
  then have "i \<in> set (sort (map fst (se_blocks x)))" by (force dest: map_of_SomeD)
  then have "b \<in> set (open_blocks x)" using b(1) by (force simp: open_blocks_def)
  moreover have "se_blocks x \<noteq> []" using b(1) by auto
  ultimately show ?thesis using assms(1) b(2,3)
    by (auto simp: abort_open_def list_ex_iff names_call_def aborted_event_def stream_event_def make_event_def intro!: bexI [of _ b])
qed

lemma data_frames:
  "se_data (snd (message_start d x)) = se_data x" "se_data (snd (block_start cd d x)) = se_data x"
  "se_data (snd (block_delta d x)) = se_data x" "se_data (snd (block_stop cd d x)) = se_data x"
  "se_data (snd (message_delta d x)) = se_data x" "se_data (snd (error_frame d x)) = se_data x"
  by (simp_all add: message_start_def block_start_def block_delta_def block_stop_def message_delta_def error_frame_def Let_def
      split: option.split pyval.split)

lemma data_handle_event [simp]: "se_data (snd (handle_event cd t d x)) = se_data x"
  by (simp add: handle_event_def data_frames)

lemma frames_settled:
  assumes "run_frames cd fs x = (Inr es, x1)"
  shows "se_buf x1 = se_buf x \<and> se_data x1 = se_data x \<and> se_closed x1 = se_closed x"
  using assms
proof (induction fs arbitrary: x es)
  case (Cons f fs)
  obtain t d where f: "f = (t, d)" by fastforce
  obtain r x2 where h: "handle_event cd t d x = (r, x2)" by fastforce
  with Cons.prems f obtain es2 where es: "run_frames cd fs x2 = (Inr es2, x1)"
    by (cases r) (auto simp: later_def split: prod.splits sum.splits)
  with Cons.IH [OF es] h data_handle_event [of cd t d x] closed_handle_event [of cd t d x] buffer_blind_keeps [OF buffer_blind_handle_event, of cd t d x] show ?case by simp
qed simp

text \<open>
  C37: no tool call that was seen to begin goes unreported. Once a stream has opened a block of type \<open>tool_use\<close>,
  whatever other frames follow, the events up to the end of the stream, \<open>close\<close> included, have a \<open>tool_use\<close> or a
  \<open>stream_aborted\<close> event with the identifier and the name of the call: unless a frame raises, or opens a second block under
  the same index.
\<close>

theorem tool_call_reported:
  assumes "run_frames cd (before @ (PStr (u ''content_block_start''), d) # after) x = (Inr es, x1)"
    and "as_index (dget (u ''index'') d) = Some i" "or_empty (dget (u ''content_block'') d) = Some b"
    and "dget (u ''type'') b = PStr (u ''tool_use'')" "\<not> list_ex (starts_block i) after"
    and "\<not> se_closed x" "se_buf x = []" "se_data x = []" "close_extractor cd x1 = (Inr fs, x2)"
  shows "list_ex (names_call (dget (u ''id'') b) (dget (u ''name'') b)) (es @ fs)"
proof -
  let ?call = "calling i (dget (u ''id'') b) (dget (u ''name'') b)"
  from assms(1) obtain es0 y where y: "run_frames cd before x = (Inr es0, y)"
    and rest: "later es0 (run_frames cd ((PStr (u ''content_block_start''), d) # after) y) = (Inr es, x1)"
    by (auto simp: run_frames_append simp del: run_frames.simps split: prod.splits sum.splits)
  obtain z where z: "handle_event cd (PStr (u ''content_block_start'')) d y = (Inr [], z)" "?call z"
    using assms(2,3,4) by (simp add: handle_event_def block_start_def calling_def map_of_od_set new_block_def Let_def)
  from rest z(1) obtain es1 where es1: "run_frames cd after z = (Inr es1, x1)" "es = es0 @ es1"
    by (auto simp: later_def split: prod.splits sum.splits)
  have "?call x1 \<or> list_ex (names_call (dget (u ''id'') b) (dget (u ''name'') b)) es1"
    by (rule frames_report [OF es1(1) z(2) assms(5)])
  moreover have "list_ex (names_call (dget (u ''id'') b) (dget (u ''name'') b)) fs" if "?call x1"
  proof -
    have "se_buf x1 = [] \<and> se_data x1 = [] \<and> \<not> se_closed x1" using frames_settled [OF assms(1)] assms(6-8) by simp
    then have "abort_open (x1\<lparr>se_closed := True\<rparr>) = (Inr fs, x2)"
      using assms(9) by (simp add: close_extractor_def step_then_def last_line_def last_frame_def split: prod.splits sum.splits)
    from abort_reports [OF this] that show ?thesis by (simp add: calling_def)
  qed
  ultimately show ?thesis using es1(2) by auto
qed

end
