(* ===== verification/Extract_Stream.thy ===== *)
theory Extract_Stream
  imports Extract_Props
begin

text \<open>
  A well-formed stream against the body that says the same: the bytes of the server-sent events of a message, however
  cut, give the events \<open>extract_response_events\<close> finds in the message.
\<close>

section \<open>Server-sent events\<close>

text \<open>\<open>enc\<close> writes a JSON object on one line.\<close>

definition sse_bytes :: "(object \<Rightarrow> pystr) \<Rightarrow> pyval \<times> object \<Rightarrow> bytes" where
  "sse_bytes enc f =
     (case f of (t, d) \<Rightarrow>
        utf8 (u ''event: '' @ (case t of PStr s \<Rightarrow> s | _ \<Rightarrow> [])) @ 10 # utf8 (u ''data: '' @ enc d) @ [10, 10])"

text \<open>What is asked of the encoder and of the standard library: decoding and parsing give back what was encoded.\<close>

definition event_line :: "pyval \<Rightarrow> pystr" where
  "event_line t = u ''event: '' @ (case t of PStr s \<Rightarrow> s | _ \<Rightarrow> [])"

definition data_line :: "(object \<Rightarrow> pystr) \<Rightarrow> object \<Rightarrow> pystr" where
  "data_line enc d = u ''data: '' @ enc d"

definition one_line :: "pystr \<Rightarrow> bool" where
  "one_line s \<longleftrightarrow> str_ok s \<and> 10 \<notin> set s \<and> 13 \<notin> set s"

definition read_back :: "codec \<Rightarrow> (object \<Rightarrow> pystr) \<Rightarrow> pyval \<times> object \<Rightarrow> bool" where
  "read_back cd enc f \<longleftrightarrow>
     (case f of (t, d) \<Rightarrow>
        one_line (event_line t) \<and> one_line (data_line enc d)
        \<and> cd_decode cd (utf8 (event_line t)) = event_line t \<and> cd_decode cd (utf8 (data_line enc d)) = data_line enc d
        \<and> cd_decode cd [] = []
        \<and> strip (enc d) \<noteq> u ''[DONE]'' \<and> cd_loads cd (enc d) = Parsed (PDict d) \<and> dget (u ''type'') d = t \<and> truthy t)"

lemma utf8_byte:
  assumes "str_ok s" "b < 0x80" "of_nat b \<in> set (utf8 s)"
  shows "b \<in> set s"
proof -
  from assms(3) obtain c n where c: "c \<in> set s" "n \<in> set (utf8_nats c)" "(of_nat n :: byte) = of_nat b"
    by (auto simp: utf8_def)
  have "c < 0x110000" using assms(1) c(1) by (auto simp: str_ok_def list_all_iff)
  then have "n < 256" using utf8_nats_bound c(2) by blast
  moreover have "unat (of_nat n :: byte) = unat (of_nat b :: byte)" using c(3) by simp
  ultimately have "n = b" using assms(2) by (simp add: unat_of_nat)
  then show ?thesis using c(1,2) assms(2) by (auto simp: utf8_nats_def split: if_splits)
qed

lemma utf8_one_line:
  assumes "one_line s"
  shows "10 \<notin> set (utf8 s)" "chomp (utf8 s) = utf8 s"
proof -
  show "10 \<notin> set (utf8 s)" using utf8_byte [of s 10] assms by (auto simp: one_line_def)
  have "13 \<notin> set (utf8 s)" using utf8_byte [of s 13] assms by (auto simp: one_line_def)
  then show "chomp (utf8 s) = utf8 s" by (metis chomp_def last_in_set)
qed

definition between_frames :: "extractor \<Rightarrow> bool" where
  "between_frames x \<longleftrightarrow> se_data x = [] \<and> se_event x = None"

lemma event_frames:
  "se_event (snd (message_start d x)) = se_event x" "se_event (snd (block_start cd d x)) = se_event x"
  "se_event (snd (block_delta d x)) = se_event x" "se_event (snd (block_stop cd d x)) = se_event x"
  "se_event (snd (message_delta d x)) = se_event x" "se_event (snd (error_frame d x)) = se_event x"
  by (simp_all add: message_start_def block_start_def block_delta_def block_stop_def message_delta_def error_frame_def Let_def
      put_usage_def take_model_def take_stop_def split: option.split pyval.split)

lemma between_handle_event: "between_frames x \<Longrightarrow> between_frames (snd (handle_event cd t d x))"
  by (simp add: between_frames_def) (simp add: handle_event_def event_frames)

lemma one_frame:
  assumes "read_back cd enc (t, d)" "between_frames x"
  shows "feed_lines cd (sse_bytes enc (t, d) @ rest) x =
    (case handle_event cd t d x of
       (Inl e, x1) \<Rightarrow> (Inl e, x1\<lparr>se_buf := rest\<rparr>)
     | (Inr es, x1) \<Rightarrow> later es (feed_lines cd rest x1))"
proof -
  let ?e = "event_line t" and ?d = "data_line enc d"
  note rb = assms(1) [unfolded read_back_def, simplified]
  have bytes: "sse_bytes enc (t, d) @ rest = utf8 ?e @ 10 # utf8 ?d @ 10 # [] @ 10 # rest"
    by (simp add: sse_bytes_def event_line_def data_line_def)
  have cut: "cut_line (utf8 ?e @ 10 # r) = Some (utf8 ?e, r)" "cut_line (utf8 ?d @ 10 # r) = Some (utf8 ?d, r)"
    "cut_line (10 # r) = Some ([], r)" for r
    using utf8_one_line(1) rb cut_line_raw cut_line_raw [of "[]"] by simp_all
  define s where "s = (case t of PStr s \<Rightarrow> s | _ \<Rightarrow> [])"
  have ev: "handle_line cd ?e x = (Inr [], x\<lparr>se_event := Some s\<rparr>)"
    by (simp add: handle_line_def split_field_def event_line_def s_def [symmetric] u_def)
  have dt: "handle_line cd ?d y = (Inr [], y\<lparr>se_data := se_data y @ [enc d]\<rparr>)" for y
    by (simp add: handle_line_def split_field_def data_line_def u_def)
  have between_frames: "x\<lparr>se_event := Some s, se_data := [enc d], se_data := [], se_event := None\<rparr> = x" "se_data x = []"
    using assms(2) by (cases x, simp add: between_frames_def)+
  have ty: "event_type d (Some s) = t" using rb by (simp add: event_type_def)
  have fin: "handle_line cd [] (x\<lparr>se_event := Some s, se_data := [enc d]\<rparr>) = handle_event cd t d x"
    using rb between_frames ty by (simp add: handle_line_def dispatch_def Let_def)
  have no: "chomp [] = []" by (simp add: chomp_def)
  show ?thesis
    unfolding bytes
    by (simp add: feed_lines_unfold [of cd "utf8 ?e @ 10 # r" for r] feed_lines_unfold [of cd "utf8 ?d @ 10 # r" for r]
        feed_lines_unfold [of cd "10 # r" for r] cut utf8_one_line(2) rb ev dt fin no between_frames(2) split: prod.split sum.split)
qed

lemma sse_frames:
  "list_all (read_back cd enc) fs \<Longrightarrow> between_frames x \<Longrightarrow> run_frames cd fs x = (Inr es, x1) \<Longrightarrow>
     feed_lines cd (concat (map (sse_bytes enc) fs)) x = (Inr es, x1\<lparr>se_buf := []\<rparr>)"
proof (induction fs arbitrary: x es)
  case Nil
  then show ?case by (simp add: feed_lines_unfold [of cd "[]"] cut_line_def)
next
  case (Cons f fs)
  obtain t d where f: "f = (t, d)" by fastforce
  obtain r y where h: "handle_event cd t d x = (r, y)" by fastforce
  with Cons.prems(3) f obtain es1 es2 where es: "r = Inr es1" "run_frames cd fs y = (Inr es2, x1)" "es = es1 @ es2"
    by (cases r) (auto simp: later_def split: prod.splits sum.splits)
  have "between_frames y" using between_handle_event [OF Cons.prems(2), of cd t d] h by simp
  from Cons.IH [OF _ this es(2)] Cons.prems(1,2) f h es show ?case by (simp add: one_frame)
qed

section \<open>The frames of a message\<close>

datatype wire_block = WText "pystr list" | WTool pystr pystr "pystr list"

definition wire_frame :: "string \<Rightarrow> object \<Rightarrow> pyval \<times> object" where
  "wire_frame t d = (PStr (u t), (key_str ''type'', PStr (u t)) # d)"

definition indexed :: "int \<Rightarrow> object \<Rightarrow> object" where
  "indexed i d = (key_str ''index'', PInt i) # d"

definition delta_frame :: "int \<Rightarrow> string \<Rightarrow> string \<Rightarrow> pystr \<Rightarrow> pyval \<times> object" where
  "delta_frame i ty field t =
     wire_frame ''content_block_delta''
       (indexed i [(key_str ''delta'', PDict [(key_str ''type'', PStr (u ty)), (key_str field, PStr t)])])"

fun block_frames :: "int \<Rightarrow> wire_block \<Rightarrow> (pyval \<times> object) list" where
  "block_frames i (WText ts) =
     wire_frame ''content_block_start''
       (indexed i [(key_str ''content_block'', PDict [(key_str ''type'', PStr (u ''text'')), (key_str ''text'', PStr [])])])
     # map (delta_frame i ''text_delta'' ''text'') ts @ [wire_frame ''content_block_stop'' (indexed i [])]"
| "block_frames i (WTool tid name ps) =
     wire_frame ''content_block_start''
       (indexed i [(key_str ''content_block'', PDict [(key_str ''type'', PStr (u ''tool_use'')), (key_str ''id'', PStr tid),
          (key_str ''name'', PStr name), (key_str ''input'', PDict [])])])
     # map (delta_frame i ''input_json_delta'' ''partial_json'') ps @ [wire_frame ''content_block_stop'' (indexed i [])]"

definition message_frames :: "pystr \<Rightarrow> wire_block list \<Rightarrow> (pyval \<times> object) list" where
  "message_frames m bs =
     wire_frame ''message_start'' [(key_str ''message'', PDict [(key_str ''model'', PStr m)])]
     # concat (map (\<lambda>(i, b). block_frames (int i) b) (enumerate 0 bs)) @ [wire_frame ''message_stop'' []]"

definition tool_input :: "codec \<Rightarrow> pystr list \<Rightarrow> object" where
  "tool_input cd ps = (case parse_tool_input cd (concat ps) of Inr (Inr d) \<Rightarrow> d | _ \<Rightarrow> [])"

fun wire_value :: "codec \<Rightarrow> wire_block \<Rightarrow> pyval" where
  "wire_value cd (WText ts) = PDict [(key_str ''type'', PStr (u ''text'')), (key_str ''text'', PStr (concat ts))]"
| "wire_value cd (WTool tid name ps) =
     PDict [(key_str ''type'', PStr (u ''tool_use'')), (key_str ''id'', PStr tid), (key_str ''name'', PStr name),
            (key_str ''input'', PDict (tool_input cd ps))]"

definition message_body :: "codec \<Rightarrow> pystr \<Rightarrow> wire_block list \<Rightarrow> pyval" where
  "message_body cd m bs =
     PDict [(key_str ''type'', PStr (u ''message'')), (key_str ''model'', PStr m), (key_str ''content'', PSeq (map (wire_value cd) bs))]"

text \<open>Every tool call has a JSON object as its input.\<close>

definition well_formed_calls :: "codec \<Rightarrow> wire_block list \<Rightarrow> bool" where
  "well_formed_calls cd bs \<longleftrightarrow>
     list_all (\<lambda>b. case b of WTool _ _ ps \<Rightarrow> parse_tool_input cd (concat ps) = Inr (Inr (tool_input cd ps)) | _ \<Rightarrow> True) bs"

text \<open>Equal but for the order of the payload's keys.\<close>

definition alike :: "partial_event \<Rightarrow> partial_event \<Rightarrow> bool" where
  "alike e f \<longleftrightarrow> map_of (px_payload e) = map_of (px_payload f) \<and> e\<lparr>px_payload := []\<rparr> = f\<lparr>px_payload := []\<rparr>"

lemma dget_list [simp]: "dget l [] = PNone" "dget (u k) ((key_str k', v) # d) = (if k = k' then v else dget (u k) d)"
  by (simp_all add: dget_def key_str_def)

lemma deltas:
  "run_frames cd (map (delta_frame i ''text_delta'' ''text'') ts @ fs) (x\<lparr>se_blocks := [(i, b)]\<rparr>)
     = run_frames cd fs (x\<lparr>se_blocks := [(i, b\<lparr>bk_text := bk_text b @ ts\<rparr>)]\<rparr>)"
  "run_frames cd (map (delta_frame i ''input_json_delta'' ''partial_json'') ts @ fs) (x\<lparr>se_blocks := [(i, b)]\<rparr>)
     = run_frames cd fs (x\<lparr>se_blocks := [(i, b\<lparr>bk_json := bk_json b @ ts\<rparr>)]\<rparr>)"
  by (induction ts arbitrary: b)
    (simp_all add: delta_frame_def wire_frame_def indexed_def handle_event_def block_delta_def as_index_def or_empty_def
      add_delta_def Let_def)

definition call_payload :: "codec \<Rightarrow> int \<Rightarrow> pystr \<Rightarrow> pystr \<Rightarrow> pystr list \<Rightarrow> object" where
  "call_payload cd i tid name ps =
     [(key_str ''index'', PInt i), (key_str ''id'', PStr tid), (key_str ''name'', PStr name), (key_str ''complete'', PBool True),
      (key_str ''input'', PDict (tool_input cd ps))]"

fun block_events :: "codec \<Rightarrow> extractor \<Rightarrow> int \<Rightarrow> wire_block \<Rightarrow> partial_event list" where
  "block_events cd x i (WText ts) =
     (if concat ts = [] then [] else [stream_event x MESSAGE (text_payload i (concat ts)) PNone PNone])"
| "block_events cd x i (WTool tid name ps) = [stream_event x TOOL_USE (call_payload cd i tid name ps) (PStr tid) (PStr name)]"

lemma no_blocks: "se_blocks x = [] \<Longrightarrow> x\<lparr>se_blocks := []\<rparr> = x"
  by (cases x) simp

lemma block_streams:
  assumes "se_blocks x = []" "well_formed_calls cd [b]"
  shows "run_frames cd (block_frames i b @ fs) x = later (block_events cd x i b) (run_frames cd fs x)"
proof (cases b)
  case (WText ts)
  let ?b = "\<lparr>bk_index = i, bk_type = u ''text'', bk_id = PNone, bk_name = PNone, bk_json = [], bk_text = []\<rparr>"
  have start: "handle_event cd (PStr (u ''content_block_start'')) (snd (hd (block_frames i b))) x = (Inr [], x\<lparr>se_blocks := [(i, ?b)]\<rparr>)"
    using assms(1) WText
    by (simp add: wire_frame_def indexed_def handle_event_def block_start_def as_index_def or_empty_def new_block_def Let_def)
  have stop: "handle_event cd (PStr (u ''content_block_stop'')) (snd (wire_frame ''content_block_stop'' (indexed i [])))
      (x\<lparr>se_blocks := [(i, ?b\<lparr>bk_text := ts\<rparr>)]\<rparr>) = (Inr (block_events cd x i b), x)"
    using no_blocks [OF assms(1)] WText
    by (simp add: wire_frame_def indexed_def handle_event_def block_stop_def as_index_def od_pop_def complete_block_def
        text_events_def block_text_def stream_event_def)
  show ?thesis using start stop WText by (simp add: wire_frame_def deltas(1))
next
  case (WTool tid name ps)
  let ?b = "\<lparr>bk_index = i, bk_type = u ''tool_use'', bk_id = PStr tid, bk_name = PStr name, bk_json = [], bk_text = []\<rparr>"
  have start: "handle_event cd (PStr (u ''content_block_start'')) (snd (hd (block_frames i b))) x = (Inr [], x\<lparr>se_blocks := [(i, ?b)]\<rparr>)"
    using assms(1) WTool
    by (simp add: wire_frame_def indexed_def handle_event_def block_start_def as_index_def or_empty_def new_block_def Let_def)
  have stop: "handle_event cd (PStr (u ''content_block_stop'')) (snd (wire_frame ''content_block_stop'' (indexed i [])))
      (x\<lparr>se_blocks := [(i, ?b\<lparr>bk_json := ps\<rparr>)]\<rparr>) = (Inr (block_events cd x i b), x)"
    using no_blocks [OF assms(1)] WTool assms(2)
    by (simp add: wire_frame_def indexed_def handle_event_def block_stop_def as_index_def od_pop_def complete_block_def
        tool_use_event_def partial_json_def stream_event_def well_formed_calls_def tool_payload_def call_payload_def)
  show ?thesis using start stop WTool by (simp add: wire_frame_def deltas(2))
qed

lemma blocks_stream:
  "se_blocks x = [] \<Longrightarrow> well_formed_calls cd bs \<Longrightarrow>
     run_frames cd (concat (map (\<lambda>(i, b). block_frames (int i) b) (enumerate n bs)) @ fs) x
       = later (concat (map (\<lambda>(i, b). block_events cd x (int i) b) (enumerate n bs))) (run_frames cd fs x)"
  by (induction bs arbitrary: n) (simp_all add: block_streams well_formed_calls_def)

lemma block_agrees:
  "list_all2 alike (block_events cd x i b) (body_block_events (se_context x) (se_model x) i (wire_value cd b))"
  by (cases b) (auto simp: body_block_events_def body_tool_event_def alike_def call_payload_def stream_event_def make_event_def
      only_str_def key_str_def text_payload_def intro!: ext)

lemma blocks_agree:
  "list_all2 alike (concat (map (\<lambda>(i, b). block_events cd x (int i) b) (enumerate n bs)))
     (concat (map (\<lambda>(i, b). body_block_events (se_context x) (se_model x) (int i) b) (enumerate n (map (wire_value cd) bs))))"
  by (induction bs arbitrary: n) (simp_all add: list_all2_appendI block_agrees)

text \<open>
  C36: a stream is recorded as the message it carries. The server-sent events of a message of text and tool calls, cut
  into deltas and into chunks in any way, give, up to the order of the keys of a payload, the events that
  \<open>extract_response_events\<close> finds in the body of the same message: each text and each tool call once, in order, with
  its index, and with the input parsed from all its fragments.
\<close>

theorem stream_agrees_with_body:
  assumes "list_all (read_back cd enc) (message_frames m bs)" "well_formed_calls cd bs" "m \<noteq> []"
    and "concat cs = concat (map (sse_bytes enc) (message_frames m bs))"
  shows "\<exists>es x. run_chunks cd cs (new_extractor tc model) = (es, [], x)
    \<and> list_all2 alike es (extract_response_events tc (message_body cd m bs)) \<and> close_extractor cd x = (Inr [], x\<lparr>se_closed := True\<rparr>)"
proof -
  let ?init = "new_extractor tc model"
  let ?x = "?init\<lparr>se_started := True, se_model := Some m\<rparr>" and ?y = "?init\<lparr>se_started := True, se_model := Some m, se_stopped := True\<rparr>"
  let ?es = "concat (map (\<lambda>(i, b). block_events cd ?x (int i) b) (enumerate 0 bs))"
  have blocks: "se_blocks ?x = []" by (simp add: new_extractor_def)
  have start: "handle_event cd (PStr (u ''message_start'')) (snd (hd (message_frames m bs))) ?init = (Inr [], ?x)"
    using assms(3)
    by (simp add: message_frames_def wire_frame_def handle_event_def message_start_def or_empty_def put_usage_def take_model_def Let_def)
  have "run_frames cd (message_frames m bs) ?init = (Inr ?es, ?y)"
    using start blocks_stream [OF blocks assms(2), of 0 "[wire_frame ''message_stop'' []]"]
    by (simp add: message_frames_def wire_frame_def) (simp add: handle_event_def)
  from sse_frames [OF assms(1) _ this] have "feed_lines cd (concat cs) ?init = (Inr ?es, ?y)"
    using assms(4) by (simp add: between_frames_def new_extractor_def)
  moreover have "concat cs \<noteq> []" using assms(4) by (simp add: message_frames_def sse_bytes_def wire_frame_def)
  ultimately have once: "feed cd (concat cs) ?init = (Inr ?es, ?y)"
    by (simp add: feed_def new_extractor_def del: concat_eq_Nil_conv)
  obtain es errs x where run: "run_chunks cd cs ?init = (es, errs, x)" by (metis prod_cases3)
  have "errs = []" using chunks_raise run once by (cases errs) fastforce+
  then have "run_chunks cd cs ?init = (?es, [], ?y)" using chunks_return run once by fastforce
  moreover have "list_all2 alike ?es (extract_response_events tc (message_body cd m bs))"
    using blocks_agree [of cd ?x 0 bs] by (simp add: extract_response_events_def message_body_def body_model_def new_extractor_def)
  moreover have "close_extractor cd ?y = (Inr [], ?y\<lparr>se_closed := True\<rparr>)"
    by (simp add: close_extractor_def step_then_def last_line_def last_frame_def abort_open_def new_extractor_def)
  ultimately show ?thesis by blast
qed

end
