(* ===== verification/Redact_Props.thy ===== *)
theory Redact_Props
  imports Redact
begin

text \<open>
  What the redaction of \<open>redact.py\<close> keeps back: no scalar of a structured payload scalars in the clear, and in free text
  every match begins inside a masked span, which is not the same as being masked.
\<close>

section \<open>Structured payloads\<close>

fun scalars :: "pyval \<Rightarrow> pyval list" where
  "scalars (PDict d) = concat (map (\<lambda>(_, v). scalars v) d)"
| "scalars (PSeq xs) = concat (map scalars xs)"
| "scalars v = [v]"

text \<open>A value with its scalars, but not \<open>None\<close>, blanked out.\<close>

fun skeleton :: "pyval \<Rightarrow> pyval" where
  "skeleton (PDict d) = PDict (map (\<lambda>(k, v). (k, skeleton v)) d)"
| "skeleton (PSeq xs) = PSeq (map skeleton xs)"
| "skeleton PNone = PNone"
| "skeleton POther = POther"
| "skeleton v = PStr []"

definition kinds :: "pystr set" where
  "kinds = {u ''api_key'', u ''aws_key'', u ''email'', u ''ssn'', u ''credit_card''}"

definition hex_text :: "pystr \<Rightarrow> bool" where
  "hex_text t \<longleftrightarrow> list_all (\<lambda>c. 48 \<le> c \<and> c \<le> 57 \<or> 97 \<le> c \<and> c \<le> 102) t"

text \<open>A leaf that says nothing but its kind or a digest of at most sixteen hexadecimal digits.\<close>

definition masked :: "pyval \<Rightarrow> bool" where
  "masked v \<longleftrightarrow>
     v = PNone \<or> v = POther \<or> (\<exists>k\<in>kinds. v = PStr (redaction_mark k))
     \<or> (\<exists>d. length d \<le> 16 \<and> hex_text d \<and> v = PStr (redaction_mark (u ''hash:'' @ d)))"

lemma hex_text_hex: "hex_text (take n (hex bs))"
proof -
  have "hex_text (hex_byte b)" for b
  proof -
    have "unat b < 256" using unsigned_less [of b, where 'a = nat] by simp
    then show ?thesis by (auto simp: hex_text_def hex_byte_def hex_digit_def)
  qed
  then have "hex_text (hex bs)" by (induction bs) (auto simp: hex_def hex_text_def)
  then show ?thesis by (auto simp: hex_text_def list_all_iff dest: in_set_takeD)
qed

lemma masked_kind: "k \<in> kinds \<Longrightarrow> masked (PStr (redaction_mark k))"
  unfolding masked_def by blast

lemma masked_hash: "masked (PStr (redaction_mark (u ''hash:'' @ take 16 (hex bs))))"
proof -
  have "length (take 16 (hex bs)) \<le> 16" "hex_text (take 16 (hex bs))" by (simp_all add: hex_text_hex)
  then show ?thesis unfolding masked_def by blast
qed

lemma masked_plain [simp]: "masked PNone" "masked POther"
  by (simp_all add: masked_def)

lemma salted_masked: "salted_digest sha salt t = Inr r \<Longrightarrow> masked (PStr r)"
  using masked_hash by (auto simp: salted_digest_def Let_def split: if_splits)

lemma detect_kinds: "detect_kind un t = Some k \<Longrightarrow> k \<in> kinds"
  by (auto simp: detect_kind_def kinds_def split: if_splits)

lemma string_masked: "redact_string un sha salt t = Inr r \<Longrightarrow> masked (PStr r)"
  by (cases "detect_kind un t") (auto simp: redact_string_def dest: salted_masked detect_kinds intro: masked_kind)

lemma rseq_map_D: "rseq (map f xs) = Inr ys \<Longrightarrow> list_all2 (\<lambda>x y. f x = Inr y) xs ys"
  by (simp add: rseq_Inr_iff list_all2_conv_all_nth) (metis length_map nth_map)

lemma redacted_value:
  "redact_value un sha repr salt v = Inr w \<Longrightarrow> list_all masked (scalars w) \<and> skeleton w = skeleton v"
proof (induction v arbitrary: w)
  case (PSeq xs)
  then obtain ys where w: "w = PSeq ys" and ys: "list_all2 (\<lambda>x y. redact_value un sha repr salt x = Inr y) xs ys"
    by (auto simp: rmap_Inr_iff dest: rseq_map_D)
  from ys PSeq.IH have "list_all masked (concat (map scalars ys)) \<and> map skeleton ys = map skeleton xs"
    by (induction rule: list_all2_induct) auto
  with w show ?case by simp
next
  case (PDict d)
  let ?f = "\<lambda>(k, v). rmap (\<lambda>w. (k, w)) (redact_value un sha repr salt v)"
  from PDict.prems obtain e where w: "w = PDict e" and e: "list_all2 (\<lambda>x y. ?f x = Inr y) d e"
    by (auto simp: rmap_Inr_iff dest: rseq_map_D)
  have "list_all masked (scalars z) \<and> skeleton z = skeleton v \<and> k' = k"
    if "(k, v) \<in> set d" "?f (k, v) = Inr (k', z)" for k v k' z
    using that PDict.IH [of "(k, v)" v z] by (auto simp: rmap_Inr_iff)
  with e have "list_all masked (concat (map (\<lambda>(_, v). scalars v) e))
      \<and> map (\<lambda>(k, v). (k, skeleton v)) e = map (\<lambda>(k, v). (k, skeleton v)) d"
  proof (induction rule: list_all2_induct)
    case (Cons p ps q qs)
    obtain k v k' z where pq: "p = (k, v)" "q = (k', z)" by (cases p, cases q)
    from Cons(4) [of k v k' z] Cons(1) pq have "list_all masked (scalars z) \<and> skeleton z = skeleton v \<and> k' = k" by simp
    moreover have "list_all masked (concat (map (\<lambda>(_, v). scalars v) qs))
      \<and> map (\<lambda>(k, v). (k, skeleton v)) qs = map (\<lambda>(k, v). (k, skeleton v)) ps"
      by (rule Cons(3)) (rule Cons(4), simp_all)
    ultimately show ?case using pq by simp
  qed simp
  with w show ?case by simp
qed (auto simp: rmap_Inr_iff dest: salted_masked string_masked)

lemma hides_values:
  assumes "apply_payload_mode un sha repr salt REDACTED kind payload = Inr out"
    and "kind \<noteq> Some (u ''guardrail_intervention'')"
  shows "list_all masked (scalars (PDict out)) \<and> skeleton (PDict out) = skeleton (PDict payload)"
proof -
  have "redact_value un sha repr salt (PDict payload) = Inr (PDict out)"
    using assms by (simp add: apply_payload_mode_def vocabulary_fields_def)
  then show ?thesis by (rule redacted_value)
qed

section \<open>Free text\<close>

lemma keep_from: "(s, e, k) \<in> set (keep_spans c spans) \<Longrightarrow> c \<le> s" if "list_all (\<lambda>(s, e, _). s < e) spans"
  using that by (induction c spans rule: keep_spans.induct) (force split: if_splits)+

lemma keep_subset: "set (keep_spans c spans) \<subseteq> set spans"
  by (induction c spans rule: keep_spans.induct) auto

text \<open>Spans one after the other, without overlap.\<close>

fun apart :: "nat \<Rightarrow> span list \<Rightarrow> bool" where
  "apart c [] \<longleftrightarrow> True"
| "apart c ((s, e, _) # r) \<longleftrightarrow> c \<le> s \<and> s < e \<and> apart e r"

lemma keep_apart: "list_all (\<lambda>(s, e, _). s < e) spans \<Longrightarrow> apart c (keep_spans c spans)"
  by (induction c spans rule: keep_spans.induct) auto

text \<open>A span is kept, or it begins inside one that is.\<close>

lemma keep_covers:
  "sorted (map fst spans) \<Longrightarrow> list_all (\<lambda>(s, e, _). s < e) spans \<Longrightarrow> (s, e, k) \<in> set spans \<Longrightarrow> c \<le> s
     \<Longrightarrow> \<exists>(s', e', k')\<in>set (keep_spans c spans). s' \<le> s \<and> s < e'"
proof (induction c spans rule: keep_spans.induct)
  case (2 c s1 e1 k1 r)
  show ?case
  proof (cases "s1 < c")
    case True
    with 2 show ?thesis by auto
  next
    case False
    show ?thesis
    proof (cases "s < e1")
      case True
      have "s1 \<le> s" using 2(3,5) by auto
      with True False show ?thesis by auto
    next
      case False2: False
      with 2 have "(s, e, k) \<in> set r" by auto
      with 2(2) [OF False] 2(3,4) False2 False show ?thesis by auto
    qed
  qed
qed simp

lemma rx_ends_bound: "e \<in> set (rx_ends un p prev s i) \<Longrightarrow> e \<le> i + length s"
proof (induction un p prev s i rule: rx_ends.induct)
  case (2 un q r prev s i)
  then show ?case by (auto split: list.splits if_splits)
next
  case (3 un q lo hi r prev s i)
  let ?n = "length (takeWhile q s)"
  let ?m = "case hi of None \<Rightarrow> ?n | Some h \<Rightarrow> min ?n h"
  from 3(2) obtain k where k: "k \<in> set (rev [lo..<Suc ?m])"
    "e \<in> set (rx_ends un r (if k = 0 then prev else Some (s ! (k - 1))) (drop k s) (i + k))"
    by (auto simp: Let_def simp del: upt_Suc)
  have "k \<le> ?n" using k(1) by (auto split: option.splits)
  then have "k \<le> length s" using length_takeWhile_le [of q s] by linarith
  with 3(1) [OF refl refl k] show ?case by simp
qed (auto split: if_splits)

lemma rx_find_bounds: "(s, e) \<in> set (rx_find un p prev t i) \<Longrightarrow> i \<le> s \<and> s < e \<and> e \<le> i + length t"
proof (induction un p prev t i rule: rx_find.induct)
  case (2 un p prev c t i)
  show ?case
  proof (cases "rx_ends un p prev (c # t) i")
    case Nil
    with 2 show ?thesis by auto
  next
    case (Cons x xs)
    have x: "x \<le> i + length (c # t)" using rx_ends_bound [of x un p prev "c # t" i] Cons by simp
    show ?thesis
    proof (cases "i < x")
      case True
      with Cons 2(4) consider "(s, e) = (i, x)" | "(s, e) \<in> set (rx_find un p (Some ((c # t) ! (x - i - 1))) (drop (x - i) (c # t)) x)"
        by auto
      then show ?thesis
      proof cases
        case 1
        with True x show ?thesis by simp
      next
        case b: 2
        from 2(2) [OF Cons True b] x True show ?thesis by simp
      qed
    next
      case False
      with Cons 2(4) have "(s, e) \<in> set (rx_find un p (Some c) t (i + 1))" by simp
      from 2(3) [OF Cons False this] show ?thesis by simp
    qed
  qed
qed simp

text \<open>Every span that is looked at lies in the text.\<close>

definition fits_in :: "nat \<Rightarrow> span \<Rightarrow> bool" where
  "fits_in n sp \<longleftrightarrow> (case sp of (s, e, _) \<Rightarrow> s < e \<and> e \<le> n)"

lemma found_fits: "list_all (fits_in (length t)) (found_spans un t)"
proof -
  have "s < e \<and> e \<le> length t" if "(s, e) \<in> set (rx_find un p None t 0)" for p s e
    using rx_find_bounds [OF that] by simp
  then show ?thesis
    by (auto simp: list_all_iff found_spans_def spans_of_def card_spans_def fits_in_def)
qed

section \<open>What is shown and what is masked\<close>

datatype text_part = Shown pystr | Masked pystr pystr

fun raw_text :: "text_part \<Rightarrow> pystr" where
  "raw_text (Shown t) = t" | "raw_text (Masked t _) = t"

fun out_text :: "text_part \<Rightarrow> pystr" where
  "out_text (Shown t) = t" | "out_text (Masked _ k) = redaction_mark k"

text \<open>Position \<open>i\<close> of the text lies in a masked part.\<close>

fun hidden_at :: "text_part list \<Rightarrow> nat \<Rightarrow> bool" where
  "hidden_at [] i \<longleftrightarrow> False"
| "hidden_at (p # ps) i \<longleftrightarrow>
     (if i < length (raw_text p) then (case p of Masked _ _ \<Rightarrow> True | Shown _ \<Rightarrow> False)
      else hidden_at ps (i - length (raw_text p)))"

fun parts_of :: "pystr \<Rightarrow> nat \<Rightarrow> span list \<Rightarrow> text_part list" where
  "parts_of t c [] = [Shown (drop c t)]"
| "parts_of t c ((s, e, k) # r) = Shown (piece t (c, s)) # Masked (piece t (s, e)) k # parts_of t e r"

lemma apart_from: "apart c spans \<Longrightarrow> (s, e, k) \<in> set spans \<Longrightarrow> c \<le> s"
  by (induction c spans rule: apart.induct) fastforce+

lemma piece_drop: "c \<le> s \<Longrightarrow> piece t (c, s) @ drop s t = drop c t"
  by (simp add: piece_def) (metis append_take_drop_id drop_drop le_add_diff_inverse2)

lemma parts_raw: "apart c spans \<Longrightarrow> concat (map raw_text (parts_of t c spans)) = drop c t"
proof (induction t c spans rule: parts_of.induct)
  case (2 t c s e k r)
  then show ?case using piece_drop [of s e t] piece_drop [of c s t] by simp
qed simp

lemma parts_out: "concat (map out_text (parts_of t c spans)) = mask_spans t c spans"
  by (induction t c spans rule: parts_of.induct) simp_all

lemma parts_hidden:
  "apart c spans \<Longrightarrow> list_all (fits_in (length t)) spans \<Longrightarrow> (s, e, k) \<in> set spans \<Longrightarrow> s \<le> i \<Longrightarrow> i < e
     \<Longrightarrow> hidden_at (parts_of t c spans) (i - c)"
proof (induction t c spans rule: parts_of.induct)
  case (2 t c s1 e1 k1 r)
  have s1: "c \<le> s1" "s1 < e1" "e1 \<le> length t" using 2(2,3) by (simp_all add: fits_in_def)
  have len: "length (piece t (c, s1)) = s1 - c" "length (piece t (s1, e1)) = e1 - s1"
    using s1 by (simp_all add: piece_def)
  show ?case
  proof (cases "(s, e, k) = (s1, e1, k1)")
    case True
    with 2(5,6) s1 len show ?thesis by auto
  next
    case False
    with 2(4) have r: "(s, e, k) \<in> set r" by auto
    have "e1 \<le> s" using 2(2) apart_from [OF _ r] by simp
    have "\<not> i - c < s1 - c" "\<not> i - c - (s1 - c) < e1 - s1" "i - c - (s1 - c) - (e1 - s1) = i - e1"
      using \<open>e1 \<le> s\<close> s1 2(5) by linarith+
    with 2(1) [OF _ _ r 2(5,6)] 2(2,3) len show ?thesis by simp
  qed
qed simp

lemma scan_facts:
  shows "apart 0 (scan_spans un t)" "list_all (fits_in (length t)) (scan_spans un t)"
    "(s, e, k) \<in> set (found_spans un t) \<Longrightarrow> \<exists>(s', e', k')\<in>set (scan_spans un t). s' \<le> s \<and> s < e'"
proof -
  let ?key = "\<lambda>(s, e, _). (s, - (int e - int s)) :: nat \<times> int"
  let ?sorted = "sort_key ?key (found_spans un t)"
  have all: "list_all (fits_in (length t)) ?sorted" using found_fits by (simp add: list_all_iff)
  then have proper: "list_all (\<lambda>(s, e, _). s < e) ?sorted" by (auto simp: list_all_iff fits_in_def)
  show "apart 0 (scan_spans un t)" unfolding scan_spans_def by (rule keep_apart [OF proper])
  show "list_all (fits_in (length t)) (scan_spans un t)"
    unfolding scan_spans_def using all keep_subset by (fastforce simp: list_all_iff)
  have "sorted (map ?key ?sorted)" by simp
  then have "sorted (map fst ?sorted)"
    unfolding sorted_map by (rule sorted_wrt_mono_rel [rotated]) (auto simp: less_eq_prod_def)
  from keep_covers [OF this proper, of s e k 0]
  show "\<exists>(s', e', k')\<in>set (scan_spans un t). s' \<le> s \<and> s < e'" if "(s, e, k) \<in> set (found_spans un t)"
    unfolding scan_spans_def using that by simp
qed

text \<open>
  C40: what is masked in free text. The text is cut into parts; the output shows some as they are and a mark in place of
  the others; and every match of every pattern begins in a part that is masked. (It need not end there: of two matches
  that overlap the later one is dropped, and what of it follows the earlier one is shown.)
\<close>

theorem matches_begin_masked:
  "\<exists>parts. concat (map raw_text parts) = t \<and> concat (map out_text parts) = redact_free_text un t
     \<and> list_all (\<lambda>(s, e, k). hidden_at parts s) (found_spans un t)"
proof -
  note facts = scan_facts [where un = un and t = t]
  have "list_all (\<lambda>(s, e, k). hidden_at (parts_of t 0 (scan_spans un t)) s) (found_spans un t)"
  proof -
    have "hidden_at (parts_of t 0 (scan_spans un t)) s" if "(s, e, k) \<in> set (found_spans un t)" for s e k
      using facts(3) [OF that] parts_hidden [OF facts(1,2), where i = s] by auto
    then show ?thesis by (auto simp: list_all_iff)
  qed
  moreover have "concat (map out_text (parts_of t 0 (scan_spans un t))) = redact_free_text un t"
    by (simp add: parts_out redact_free_text_def Let_def)
  ultimately show ?thesis using parts_raw [OF facts(1)] by (intro exI [of _ "parts_of t 0 (scan_spans un t)"]) simp
qed

text \<open>A key right behind an address: both are matches, and the key is shown.\<close>

definition ascii :: unicode where
  "ascii = \<lparr>un_digit = (\<lambda>c. if is_decimal c then Some (c - 48) else None), un_word = alnum_or ''_''\<rparr>"

lemma overlapping_key_shown:
  "redact_free_text ascii (u ''a@b.co-12345678901234567890123456789012'') = u ''[REDACTED:email]-12345678901234567890123456789012''"
  by code_simp

end
