(* ===== verification/Recorder_Props.thy ===== *)
theory Recorder_Props
  imports Recorder Extract_Stream Redact_Props
begin

text \<open>
  The recorder from capture to disk: what a stored row says of the payload it was made from, and which exceptions leave
  the recorder.
\<close>

section \<open>Rows that an append adds\<close>

text \<open>A row made from this event, whatever its place in the chain.\<close>

definition row_from :: "agent_event \<Rightarrow> lrow \<Rightarrow> bool" where
  "row_from ev row \<longleftrightarrow>
     row_payload_hash row = ev_payload_hash ev \<and> row_kind row = ev_kind ev \<and> row_session_id row = ev_session_id ev
     \<and> canonical_dumps (ev_payload ev) = Inr (row_payload row)"

lemma attempt_rows:
  "attempt sha fault ev l db = Inr (entry, l', db') \<Longrightarrow> strict_mode l' = strict_mode l \<and> (\<exists>row. events db' = events db @ [row] \<and> row_from ev row)"
  by (auto simp: attempt_def Let_def row_from_def row_of_def with_seq_def split: sum.splits if_splits)

lemma append_locked_rows:
  "append_locked sha faults ev l db = (r, l', db') \<Longrightarrow>
     strict_mode l' = strict_mode l \<and> (\<exists>rows. events db' = events db @ rows \<and> list_all (row_from ev) rows)"
  by (auto simp: append_locked_def Let_def resync_def split: sum.splits write_error.splits dest!: attempt_rows)

text \<open>A row of the event itself or of a marker of earlier failures.\<close>

definition row_or_marker :: "agent_event \<Rightarrow> lrow \<Rightarrow> bool" where
  "row_or_marker ev row \<longleftrightarrow> row_from ev row \<or> row_kind row = kind_value RECORD_FAILURE"

lemma marker_rows: "row_from (marker_event env l h) row \<Longrightarrow> row_or_marker ev row"
  by (simp add: row_from_def marker_event_def row_or_marker_def)

lemma append_rows:
  assumes "append sha env ev l db = (r, l', db')"
  shows "strict_mode l' = strict_mode l \<and> (\<exists>rows. events db' = events db @ rows \<and> list_all (row_or_marker ev) rows)
    \<and> (\<forall>e. r = Inl (LedgerWriteError e) \<longrightarrow> strict_mode l)"
proof (cases "closed l")
  case True
  with assms show ?thesis by (auto simp: append_def on_write_failure_def split: if_splits)
next
  case open_l: False
  obtain q l1 db1 where q: "(if pending_failures l = [] then (Inr (), l, db) else drain_failures sha env l db) = (q, l1, db1)"
    using prod_cases3 by blast
  have l1: "strict_mode l1 = strict_mode l \<and> (\<exists>rows. events db1 = events db @ rows \<and> list_all (row_or_marker ev) rows)
      \<and> (\<forall>e. q \<noteq> Inl (LedgerWriteError e))"
  proof (cases "pending_failures l = []")
    case True
    with q show ?thesis by auto
  next
    case False
    with q show ?thesis
      by (auto simp: drain_failures_def split: sum.splits prod.splits dest!: append_locked_rows)
        (auto simp: list_all_iff intro: marker_rows)
  qed
  show ?thesis
  proof (cases q)
    case (Inl e)
    with assms q open_l l1 show ?thesis by (auto simp: append_def)
  next
    case (Inr z)
    obtain s l2 db2 where s: "append_locked sha (event_io env) ev l1 db1 = (s, l2, db2)" using prod_cases3 by blast
    from append_locked_rows [OF s] obtain rows where rows: "strict_mode l2 = strict_mode l1" "events db2 = events db1 @ rows"
      "list_all (row_or_marker ev) rows" by (auto simp: list_all_iff row_or_marker_def)
    from l1 obtain early where early: "strict_mode l1 = strict_mode l" "events db1 = events db @ early" "list_all (row_or_marker ev) early"
      by auto
    have app: "append sha env ev l db =
      (case s of
         Inr entry \<Rightarrow> (Inr (Some entry), l2, db2)
       | Inl e \<Rightarrow> (case on_write_failure env ev e True l2 of (res, l3) \<Rightarrow> (res, l3, db2)))"
      using q Inr open_l s by (simp add: append_def split: sum.split)
    have "strict_mode l' = strict_mode l2 \<and> db' = db2 \<and> (\<forall>e. r = Inl (LedgerWriteError e) \<longrightarrow> strict_mode l2)"
      using assms unfolding app by (cases s) (auto simp: on_write_failure_def split: if_splits)
    with early rows show ?thesis by auto
  qed
qed

section \<open>Rows that the recorder adds\<close>

lemma emit_events: "emit c key env l db cp = Inr (k, cp', db') \<Longrightarrow> events db' = events db"
  by (auto simp: emit_def Let_def dest: append_checkpoint_events split: option.splits sum.splits)

lemma emit_or_keep_events: "events (snd (snd (emit_or_keep c key env l db cp))) = events db"
  by (auto simp: emit_or_keep_def dest: emit_events split: sum.split prod.split)

lemma note_events: "events (rd_db (note_entry g cx entry rd)) = events (rd_db rd)"
  "rd_ledger (note_entry g cx entry rd) = rd_ledger rd"
proof -
  let ?n = "note_seq (rg_crypto g) (rg_key g) (cx_checkpoint cx) (rd_ledger rd) (rd_db rd) (le_seq entry) (rd_checkpointer rd)"
  have "events (snd (snd ?n)) = events (rd_db rd)" by (simp add: note_seq_def Let_def emit_or_keep_events)
  then show "events (rd_db (note_entry g cx entry rd)) = events (rd_db rd)"
    by (simp add: note_entry_def split: prod.split) (metis snd_conv)
  show "rd_ledger (note_entry g cx entry rd) = rd_ledger rd" by (simp add: note_entry_def split: prod.split)
qed

lemma shipped_error: "shipped_payload g p = Inl e \<Longrightarrow> e = Unredactable"
  by (auto simp: shipped_payload_def split: sum.splits)

text \<open>A payload without a canonical form raises, whatever the mode; apart from it only the redaction can.\<close>

lemma promote_raises:
  "\<not> jsonable (PDict (px_payload p)) \<longleftrightarrow> (\<exists>c. promote_event g cx i n p = Inl (Unhashable c))"
  "promote_event g cx i n p = Inl e \<Longrightarrow> \<not> jsonable (PDict (px_payload p)) \<and> (\<exists>c. e = Unhashable c) \<or> e = Unredactable"
proof -
  have can: "jsonable (PDict (px_payload p)) \<longleftrightarrow> (\<exists>raw. canonicalize (PDict (px_payload p)) = Inr raw)"
    using serialize_succeeds_aux [of "PDict (px_payload p)"]
    by (cases "serialize (PDict (px_payload p))") (auto simp: canonicalize_def canonical_dumps_def simp del: jsonable.simps serialize.simps)
  have ship: "shipped_payload g p \<noteq> Inl (Unhashable c)" for c using shipped_error by blast
  show "\<not> jsonable (PDict (px_payload p)) \<longleftrightarrow> (\<exists>c. promote_event g cx i n p = Inl (Unhashable c))"
    using can ship by (auto simp: promote_event_def rmap_def rbind_def simp del: jsonable.simps split: sum.splits)
  show "\<not> jsonable (PDict (px_payload p)) \<and> (\<exists>c. e = Unhashable c) \<or> e = Unredactable" if "promote_event g cx i n p = Inl e"
    using that can shipped_error by (fastforce simp: promote_event_def rmap_def rbind_def simp del: jsonable.simps split: sum.splits)
qed

text \<open>The promotion that \<open>record_event\<close> uses.\<close>

definition promoted :: "recorder_config \<Rightarrow> capture \<Rightarrow> partial_event \<Rightarrow> recorder_error + agent_event" where
  "promoted g cx p = promote_event g cx (the (id_text (px_tool_use_id p))) (the (id_text (px_tool_name p))) p"

definition typed :: "partial_event \<Rightarrow> bool" where
  "typed p \<longleftrightarrow> id_text (px_tool_use_id p) \<noteq> None \<and> id_text (px_tool_name p) \<noteq> None"

lemma record_event_typed:
  "record_event g cx p rd = (if typed p then Some (case promoted g cx p of Inl e \<Rightarrow> (Some e, rd) | Inr ev \<Rightarrow> record_promoted g cx ev rd)
     else None)"
  by (auto simp: record_event_def promoted_def typed_def split: option.split)

lemma record_promoted_rows:
  assumes "record_promoted g cx ev rd = (err, rd')"
  shows "strict_mode (rd_ledger rd') = strict_mode (rd_ledger rd)
    \<and> (\<exists>rows. events (rd_db rd') = events (rd_db rd) @ rows \<and> (\<forall>row\<in>set rows. row_kind row = kind_value RECORD_FAILURE \<or> row_from ev row))
    \<and> (\<forall>e. err = Some e \<longrightarrow> (\<exists>w. e = StrictWrite w \<and> strict_mode (rd_ledger rd)))"
proof -
  obtain r l db where a: "append (c_sha (rg_crypto g)) (cx_append cx) ev (rd_ledger rd) (rd_db rd) = (r, l, db)"
    using prod_cases3 by blast
  have rd': "rd_ledger rd' = l" "events (rd_db rd') = events db"
    and err: "\<And>e. err = Some e \<Longrightarrow> \<exists>w. e = StrictWrite w \<and> r = Inl (LedgerWriteError w)"
    using assms a by (auto simp: record_promoted_def Let_def note_events split: sum.splits option.splits ledger_error.splits)
  from append_rows [OF a] obtain rows where rows: "events db = events (rd_db rd) @ rows" "list_all (row_or_marker ev) rows" by auto
  have "row_kind row = kind_value RECORD_FAILURE \<or> row_from ev row" if "row \<in> set rows" for row
    using that rows(2) by (auto simp: list_all_iff row_or_marker_def)
  then show ?thesis using append_rows [OF a] rows(1) rd' err by auto
qed

lemma record_many_append:
  "record_many g (ps @ qs) rd =
     (case record_many g ps rd of
        None \<Rightarrow> None | Some (Some e, rd') \<Rightarrow> Some (Some e, rd') | Some (None, rd') \<Rightarrow> record_many g qs rd')"
proof (induction ps arbitrary: rd)
  case (Cons q ps)
  obtain cx p where q: "q = (cx, p)" by fastforce
  show ?case
  proof (cases "record_event g cx p rd")
    case (Some r)
    then show ?thesis using q Cons.IH by (cases r; cases "fst r") simp_all
  qed (simp add: q)
qed simp

lemma record_many_rows:
  "record_many g ps rd = Some (err, rd') \<Longrightarrow>
     strict_mode (rd_ledger rd') = strict_mode (rd_ledger rd)
     \<and> (\<exists>rows. events (rd_db rd') = events (rd_db rd) @ rows
          \<and> (\<forall>row\<in>set rows. row_kind row = kind_value RECORD_FAILURE
               \<or> (\<exists>cx p ev. (cx, p) \<in> set ps \<and> promoted g cx p = Inr ev \<and> row_from ev row)))"
proof (induction ps arbitrary: rd)
  case (Cons q ps)
  obtain cx p where q: "q = (cx, p)" by fastforce
  from Cons.prems q obtain e1 rd1 where one: "record_event g cx p rd = Some (e1, rd1)"
    by (cases "record_event g cx p rd") auto
  have first: "strict_mode (rd_ledger rd1) = strict_mode (rd_ledger rd) \<and> (\<exists>rows. events (rd_db rd1) = events (rd_db rd) @ rows
      \<and> (\<forall>row\<in>set rows. row_kind row = kind_value RECORD_FAILURE \<or> (\<exists>ev. promoted g cx p = Inr ev \<and> row_from ev row)))"
  proof (cases "promoted g cx p")
    case (Inl e)
    with one show ?thesis by (auto simp: record_event_typed split: if_splits)
  next
    case (Inr ev)
    with one have "record_promoted g cx ev rd = (e1, rd1)" by (auto simp: record_event_typed split: if_splits)
    from record_promoted_rows [OF this] Inr show ?thesis by auto
  qed
  show ?case
  proof (cases e1)
    case (Some e)
    with Cons.prems q one have "rd' = rd1" by auto
    with first q show ?thesis by fastforce
  next
    case None
    with Cons.prems q one have "record_many g ps rd1 = Some (err, rd')" by simp
    note ih = Cons.IH [OF this]
    from first obtain rows where rows: "events (rd_db rd1) = events (rd_db rd) @ rows"
      "\<forall>row\<in>set rows. row_kind row = kind_value RECORD_FAILURE \<or> (\<exists>ev. promoted g cx p = Inr ev \<and> row_from ev row)" by auto
    from ih obtain rest where rest: "events (rd_db rd') = events (rd_db rd1) @ rest"
      "\<forall>row\<in>set rest. row_kind row = kind_value RECORD_FAILURE
         \<or> (\<exists>cx p ev. (cx, p) \<in> set ps \<and> promoted g cx p = Inr ev \<and> row_from ev row)" by auto
    have "events (rd_db rd') = events (rd_db rd) @ rows @ rest" using rows(1) rest(1) by simp
    moreover have "\<forall>row\<in>set (rows @ rest). row_kind row = kind_value RECORD_FAILURE
         \<or> (\<exists>cx p ev. (cx, p) \<in> set (q # ps) \<and> promoted g cx p = Inr ev \<and> row_from ev row)"
      using rows(2) rest(2) q by fastforce
    ultimately show ?thesis using ih first by auto
  qed
qed simp

text \<open>Where the exception came from: everything before it is recorded, nothing from it on is.\<close>

lemma record_event_raises:
  assumes "record_event g cx p rd = Some (Some e, rd')"
  shows "case e of
      StrictWrite w \<Rightarrow> strict_mode (rd_ledger rd) \<and> jsonable (PDict (px_payload p))
    | Unhashable c \<Rightarrow> rd' = rd \<and> \<not> jsonable (PDict (px_payload p))
    | Unredactable \<Rightarrow> rd' = rd \<and> jsonable (PDict (px_payload p))"
proof (cases "promoted g cx p")
  case (Inl e2)
  with assms have e: "rd' = rd" "promoted g cx p = Inl e" by (auto simp: record_event_typed split: if_splits)
  from promote_raises [where p = p and g = g and cx = cx and i = "the (id_text (px_tool_use_id p))" and n = "the (id_text (px_tool_name p))"] e show ?thesis
    by (cases e) (auto simp: promoted_def simp del: jsonable.simps)
next
  case (Inr ev)
  with assms have r: "record_promoted g cx ev rd = (Some e, rd')" by (auto simp: record_event_typed split: if_splits)
  have "jsonable (PDict (px_payload p))"
    using Inr promote_raises(1) [where p = p and g = g and cx = cx and i = "the (id_text (px_tool_use_id p))" and n = "the (id_text (px_tool_name p))"]
    by (auto simp: promoted_def simp del: jsonable.simps)
  with record_promoted_rows [OF r] show ?thesis by auto
qed

lemma record_event_returns:
  assumes "record_event g cx p rd = Some (None, rd')"
  shows "jsonable (PDict (px_payload p))"
proof (rule ccontr)
  assume "\<not> jsonable (PDict (px_payload p))"
  then obtain c where "promoted g cx p = Inl (Unhashable c)" using promote_raises(1) [where p = p and g = g and cx = cx and i = "the (id_text (px_tool_use_id p))" and n = "the (id_text (px_tool_name p))"] unfolding promoted_def by blast
  with assms show False by (simp add: record_event_typed split: if_splits)
qed

lemma record_event_strict: "record_event g cx p rd = Some (err, rd') \<Longrightarrow> strict_mode (rd_ledger rd') = strict_mode (rd_ledger rd)"
  using record_many_rows [of g "[(cx, p)]" rd err rd'] by (cases err) auto

lemma record_many_raises:
  "record_many g ps rd = Some (Some e, rd') \<Longrightarrow>
     \<exists>before cx p after rd1. ps = before @ (cx, p) # after \<and> record_many g before rd = Some (None, rd1)
       \<and> record_event g cx p rd1 = Some (Some e, rd') \<and> strict_mode (rd_ledger rd1) = strict_mode (rd_ledger rd)"
proof (induction ps arbitrary: rd)
  case (Cons q ps)
  obtain cx p where q: "q = (cx, p)" by fastforce
  from Cons.prems q obtain e1 rd1 where one: "record_event g cx p rd = Some (e1, rd1)"
    by (cases "record_event g cx p rd") auto
  show ?case
  proof (cases e1)
    case (Some e2)
    show ?thesis
    proof (intro exI conjI)
      show "q # ps = [] @ (cx, p) # ps" using q by simp
      show "record_event g cx p rd = Some (Some e, rd')" using Cons.prems q one Some by simp
    qed simp_all
  next
    case None
    with Cons.prems q one have "record_many g ps rd1 = Some (Some e, rd')" by simp
    from Cons.IH [OF this] obtain before cx' p' after rd2 where ih: "ps = before @ (cx', p') # after"
      "record_many g before rd1 = Some (None, rd2)" "record_event g cx' p' rd2 = Some (Some e, rd')"
      "strict_mode (rd_ledger rd2) = strict_mode (rd_ledger rd1)" by blast
    with q one None record_event_strict [OF one] show ?thesis
      by (intro exI [of _ "q # before"] exI [of _ cx'] exI [of _ p'] exI [of _ after] exI [of _ rd2]) simp
  qed
qed simp

lemma record_many_returns:
  "record_many g ps rd = Some (None, rd') \<Longrightarrow> list_all (\<lambda>(cx, p). jsonable (PDict (px_payload p))) ps"
proof (induction ps arbitrary: rd)
  case (Cons q ps)
  obtain cx p where q: "q = (cx, p)" by fastforce
  from Cons.prems q obtain rd1 where one: "record_event g cx p rd = Some (None, rd1)" "record_many g ps rd1 = Some (None, rd')"
    by (auto split: option.splits prod.splits)
  from Cons.IH [OF one(2)] record_event_returns [OF one(1)] q show ?case by (simp del: jsonable.simps)
qed simp

text \<open>The events of bodies are within the model.\<close>

lemma bodies_are_typed:
  "list_all typed (extract_request_events tc body)" "list_all typed (extract_response_events tc body)"
proof -
  have ids: "id_text (only_str v) \<noteq> None" for v by (cases v) (simp_all add: only_str_def)
  show "list_all typed (extract_request_events tc body)"
    using ids
    by (auto simp: extract_request_events_def tool_result_event_def make_event_def typed_def Let_def list_all_iff
        split: pyval.splits option.splits if_splits)
  have "list_all typed (body_block_events tc m i b)" for m i b
    using ids
    by (auto simp: body_block_events_def body_tool_event_def make_event_def typed_def split: pyval.split)
  then show "list_all typed (extract_response_events tc body)"
    by (auto simp: extract_response_events_def make_event_def typed_def Let_def list_all_iff split: pyval.split)
qed

text \<open>
  C38: what a stored row says of the payload it was made from. Every row that the recorder adds in the redacted mode, markers of failed
  writes apart, carries the hash of the canonical raw payload of one captured event, and stores a payload of the same
  shape in which every scalar is masked. (Guardrail events keep three fields of vocabulary.)
\<close>

theorem stored_payload_is_redacted:
  assumes "record_many g ps rd = Some (err, rd')" "rg_mode g = REDACTED"
    and "row \<in> set (events (rd_db rd'))" "row \<notin> set (events (rd_db rd))"
    and "row_kind row \<noteq> kind_value RECORD_FAILURE" "row_kind row \<noteq> kind_value GUARDRAIL_INTERVENTION"
  shows "\<exists>cx p raw out. (cx, p) \<in> set ps \<and> canonicalize (PDict (px_payload p)) = Inr raw
    \<and> row_payload_hash row = sha256_hex (c_sha (rg_crypto g)) raw
    \<and> canonical_dumps (PDict out) = Inr (row_payload row)
    \<and> list_all masked (scalars (PDict out)) \<and> skeleton (PDict out) = skeleton (PDict (px_payload p))"
proof -
  from record_many_rows [OF assms(1)] assms(3-5)
  obtain cx p ev where ev: "(cx, p) \<in> set ps" "promoted g cx p = Inr ev" "row_from ev row" by auto
  from ev(2) obtain raw out where pr: "canonicalize (PDict (px_payload p)) = Inr raw" "shipped_payload g p = Inr out"
    "ev_payload_hash ev = sha256_hex (c_sha (rg_crypto g)) raw" "ev_payload ev = PDict out" "ev_kind ev = kind_value (px_kind p)"
    by (auto simp: promoted_def promote_event_def rmap_Inr_iff split: sum.splits)
  have "kind_value (px_kind p) \<noteq> u ''guardrail_intervention''" using assms(6) ev(3) pr(5) by (simp add: row_from_def)
  then have hid: "list_all masked (scalars (PDict out)) \<and> skeleton (PDict out) = skeleton (PDict (px_payload p))"
    using hides_values [of "rg_unicode g" "c_sha (rg_crypto g)" "rg_repr g" "rg_salt g" "Some (kind_value (px_kind p))" "px_payload p" out]
      pr(2) assms(2) by (simp add: shipped_payload_def split: sum.splits)
  show ?thesis using ev pr hid by (auto simp: row_from_def)
qed

text \<open>
  C39: which exceptions leave the recorder, and what they take with them. In every mode, strict or not, a list of events
  gets through without an exception only if the raw payload of each has a canonical form (no lone surrogate, no number
  that is not finite). When an exception leaves, it is the one of the first event that raises: the events before it are
  recorded and those after it play no part, they are lost. It is the failed write of a strict ledger, or this
  event's payload has no canonical form, or the redaction cannot digest one of its texts; in the last two cases nothing
  of the event itself is written either.
\<close>

theorem recorder_exceptions:
  assumes "record_many g ps rd = Some (err, rd')"
  shows "case err of
      None \<Rightarrow> list_all (\<lambda>(cx, p). jsonable (PDict (px_payload p))) ps
    | Some e \<Rightarrow> (\<exists>before cx p after rd1. ps = before @ (cx, p) # after
        \<and> record_many g before rd = Some (None, rd1) \<and> record_many g (before @ [(cx, p)]) rd = Some (err, rd')
        \<and> (case e of
            StrictWrite w \<Rightarrow> strict_mode (rd_ledger rd) \<and> jsonable (PDict (px_payload p))
          | Unhashable c \<Rightarrow> rd' = rd1 \<and> \<not> jsonable (PDict (px_payload p))
          | Unredactable \<Rightarrow> rd' = rd1 \<and> jsonable (PDict (px_payload p))))"
proof (cases err)
  case None
  with assms record_many_returns show ?thesis by (simp del: jsonable.simps)
next
  case (Some e)
  with assms have "record_many g ps rd = Some (Some e, rd')" by simp
  from record_many_raises [OF this] obtain before cx p after rd1 where r: "ps = before @ (cx, p) # after"
    "record_many g before rd = Some (None, rd1)" "record_event g cx p rd1 = Some (Some e, rd')"
    "strict_mode (rd_ledger rd1) = strict_mode (rd_ledger rd)" by blast
  show ?thesis
    unfolding Some option.case
  proof (intro exI conjI)
    show "ps = before @ (cx, p) # after" "record_many g before rd = Some (None, rd1)" by (fact r)+
    show "record_many g (before @ [(cx, p)]) rd = Some (Some e, rd')" using r(2,3) by (simp add: record_many_append)
    show "case e of
        StrictWrite w \<Rightarrow> strict_mode (rd_ledger rd) \<and> jsonable (PDict (px_payload p))
      | Unhashable c \<Rightarrow> rd' = rd1 \<and> \<not> jsonable (PDict (px_payload p))
      | Unredactable \<Rightarrow> rd' = rd1 \<and> jsonable (PDict (px_payload p))"
      using record_event_raises [OF r(3)] unfolding r(4) .
  qed
qed

end
