(* ===== verification/Recorder_Witness.thy ===== *)
theory Recorder_Witness
  imports Recorder_Props
begin

text \<open>Sample streams and captures.\<close>

section \<open>A recorder\<close>

definition tiny_crypto :: crypto where
  "tiny_crypto = \<lparr>c_sha = (\<lambda>_. [1]), c_b64decode = (\<lambda>_. None), c_b64encode = (\<lambda>_. []), c_ed25519_verify = (\<lambda>_ _ _. False),
     c_ed25519_sign = (\<lambda>_ _. [])\<rparr>"

definition tiny_config :: recorder_config where
  "tiny_config = \<lparr>rg_crypto = tiny_crypto, rg_key = \<lparr>dk_private = [], dk_public = [], dk_device_id = u ''dev''\<rparr>,
     rg_mode = REDACTED, rg_salt = u ''s'', rg_unicode = ascii, rg_repr = (\<lambda>_. [])\<rparr>"

definition tiny_capture :: capture where
  "tiny_capture = \<lparr>cx_event_id = u ''e1'', cx_ts_device = u ''t'', cx_ts_monotonic_ns = 1, cx_append = plain_env,
     cx_checkpoint = \<lparr>ce_start = 0, ce_now = 0, ce_reset = 0, ce_ts = [], ce_io = IoOk\<rparr>\<rparr>"

definition tiny_recorder :: recorder where
  "tiny_recorder =
     \<lparr>rd_ledger = fresh, rd_db = w_db empty_world,
      rd_checkpointer = \<lparr>every_events = 9, every_seconds = 9, pending_start = None, pending_end = None, pending_count = 0,
        window_started_at = 0, last_emitted_end = None\<rparr>\<rparr>"

definition tiny_context :: trace_context where
  "tiny_context = \<lparr>tc_session = u ''s1'', tc_trace = [], tc_span = [], tc_parent = None, tc_continues = None\<rparr>"

definition said :: "pystr \<Rightarrow> partial_event" where
  "said t = make_event tiny_context MESSAGE [(key_str ''text'', PStr t)] None PNone PNone"

lemma address_kind: "detect_kind ascii (u ''a@b.co'') = Some (u ''email'')"
  by code_simp

definition tiny_event :: agent_event where
  "tiny_event =
     \<lparr>ev_schema_version = EVENT_SCHEMA_VERSION, ev_event_id = u ''e1'', ev_device_id = u ''dev'', ev_session_id = u ''s1'', ev_seq = 0,
      ev_kind = kind_value MESSAGE, ev_ts_device = u ''t'', ev_ts_monotonic_ns = 1, ev_tool_use_id = None, ev_tool_name = None,
      ev_payload = PDict [(key_str ''text'', PStr (redaction_mark (u ''email'')))],
      ev_payload_hash = sha256_hex (\<lambda>_. [1]) [], ev_model = None, ev_provider = PROVIDER, ev_trace_id = [], ev_span_id = [],
      ev_parent_span_id = None, ev_continues_from = None\<rparr>"

lemma tiny_promoted: "promote_event tiny_config tiny_capture None None (said (u ''a@b.co'')) = Inr tiny_event"
proof -
  have "jsonable (PDict (px_payload (said (u ''a@b.co''))))"
    by (simp add: said_def make_event_def key_str_def clean_def u_def surrogate_def)
  then obtain raw where raw: "canonicalize (PDict (px_payload (said (u ''a@b.co'')))) = Inr raw"
    using jsonable_canonicalize by blast
  have "shipped_payload tiny_config (said (u ''a@b.co'')) = Inr [(key_str ''text'', PStr (redaction_mark (u ''email'')))]"
    by (simp add: shipped_payload_def apply_payload_mode_def tiny_config_def said_def make_event_def vocabulary_fields_def
        redact_string_def address_kind)
  with raw show ?thesis
    by (simp add: promote_event_def tiny_event_def tiny_config_def tiny_capture_def tiny_crypto_def said_def make_event_def
        tiny_context_def sha256_hex_def)
qed

lemma tiny_jsonable: "jsonable (to_dict tiny_event)"
  by (simp add: to_dict_def dict_of_def tiny_event_def event_items_def field_values_def opt_str_def clean_def u_def
      EVENT_SCHEMA_VERSION_def EVENT_SCHEMA_VERSION_V1_def surrogate_def PROVIDER_def sha256_hex_def hex_def hex_byte_def
      hex_digit_def redaction_mark_def key_str_def)

lemma tiny_event_kind: "ev_kind tiny_event = u ''message''"
  by (simp add: tiny_event_def)

lemma tiny_row:
  obtains rd row where "record_many tiny_config [(tiny_capture, said (u ''a@b.co''))] tiny_recorder = Some (None, rd)"
    "row \<in> set (events (rd_db rd))" "row_kind row = u ''message''"
proof -
  let ?sha = "\<lambda>_ :: bytes. [1] :: bytes"
  obtain e0 l0 db0 where al: "append_locked ?sha (event_io plain_env) tiny_event fresh (w_db empty_world) = (Inr e0, l0, db0)"
    using append_locked_succeeds [OF empty_world_ok tiny_jsonable, of "event_io plain_env" ?sha]
    by (auto simp: plain_env_def empty_world_def)
  obtain l1 row where row: "events db0 = events (w_db empty_world) @ [row]" "row_kind row = ev_kind tiny_event"
    by (rule append_locked_commits [OF empty_world_ok al])
  have "append ?sha plain_env tiny_event fresh (w_db empty_world) = (Inr (Some e0), l0, db0)"
    using append_open_eq [OF fresh_simps(1) _ al] fresh_simps(2) by simp
  then have app: "append (c_sha (rg_crypto tiny_config)) (cx_append tiny_capture) tiny_event (rd_ledger tiny_recorder) (rd_db tiny_recorder)
      = (Inr (Some e0), l0, db0)"
    by (simp add: tiny_config_def tiny_crypto_def tiny_capture_def tiny_recorder_def)
  have "\<exists>rd. record_many tiny_config [(tiny_capture, said (u ''a@b.co''))] tiny_recorder = Some (None, rd) \<and> events (rd_db rd) = events db0"
    using tiny_promoted app by (simp add: record_event_def record_promoted_def Let_def note_events said_def make_event_def)
  then show thesis using row that by (metis in_set_conv_decomp kind_value.simps(3) tiny_event_kind)
qed

theorem stored_payload_is_redacted_witness:
  "\<exists>rd row raw out. record_many tiny_config [(tiny_capture, said (u ''a@b.co''))] tiny_recorder = Some (None, rd)
    \<and> row \<in> set (events (rd_db rd)) \<and> row_payload_hash row = sha256_hex (c_sha tiny_crypto) raw
    \<and> canonical_dumps (PDict out) = Inr (row_payload row) \<and> list_all masked (scalars (PDict out))"
proof -
  obtain rd row where r: "record_many tiny_config [(tiny_capture, said (u ''a@b.co''))] tiny_recorder = Some (None, rd)"
    "row \<in> set (events (rd_db rd))" "row_kind row = u ''message''" by (rule tiny_row)
  moreover have "rg_mode tiny_config = REDACTED" "row \<notin> set (events (rd_db tiny_recorder))" "rg_crypto tiny_config = tiny_crypto"
    by (simp_all add: tiny_config_def tiny_recorder_def empty_world_def)
  ultimately show ?thesis using stored_payload_is_redacted [OF r(1) _ r(2)] by auto
qed

text \<open>A tool result with a lone surrogate, which JSON can carry, on a ledger that is not strict.\<close>

definition lenient_recorder :: recorder where
  "lenient_recorder = tiny_recorder\<lparr>rd_ledger := fresh\<lparr>strict_mode := False\<rparr>\<rparr>"

lemma surrogate_raises:
  obtains c where "record_many tiny_config [(tiny_capture, said [0xD800]), (tiny_capture, said (u ''a@b.co''))] lenient_recorder
    = Some (Some (Unhashable c), lenient_recorder)"
proof -
  have "\<not> jsonable (PDict (px_payload (said [0xD800])))"
    by (simp add: said_def make_event_def key_str_def clean_def surrogate_def)
  then obtain c where "promote_event tiny_config tiny_capture None None (said [0xD800]) = Inl (Unhashable c)"
    unfolding promote_raises(1) [where g = tiny_config and cx = tiny_capture and i = None and n = None] by blast
  then show thesis by (intro that [of c]) (simp add: record_event_def said_def make_event_def)
qed

theorem recorder_exceptions_witness:
  "\<exists>c. record_many tiny_config [(tiny_capture, said [0xD800]), (tiny_capture, said (u ''a@b.co''))] lenient_recorder
      = Some (Some (Unhashable c), lenient_recorder)
    \<and> \<not> strict_mode (rd_ledger lenient_recorder)
    \<and> (\<exists>before cx p after. [(tiny_capture, said [0xD800]), (tiny_capture, said (u ''a@b.co''))] = before @ (cx, p) # after
        \<and> \<not> jsonable (PDict (px_payload p)))"
proof -
  obtain c where c: "record_many tiny_config [(tiny_capture, said [0xD800]), (tiny_capture, said (u ''a@b.co''))] lenient_recorder
      = Some (Some (Unhashable c), lenient_recorder)"
    by (rule surrogate_raises)
  from recorder_exceptions [OF c] c show ?thesis
    by (simp add: lenient_recorder_def del: jsonable.simps record_many.simps) blast
qed

section \<open>Streams\<close>

text \<open>A codec that reads a line of one character as an entry of a table of JSON objects.\<close>

fun position :: "object \<Rightarrow> object list \<Rightarrow> nat" where
  "position d [] = 0" | "position d (e # es) = (if d = e then 0 else Suc (position d es))"

definition table_enc :: "object list \<Rightarrow> object \<Rightarrow> pystr" where
  "table_enc ds d = [65 + position d ds]"

definition table_codec :: "object list \<Rightarrow> codec" where
  "table_codec ds =
     \<lparr>cd_decode = map unat,
      cd_loads = (\<lambda>t. case t of
          [c] \<Rightarrow> if 65 \<le> c \<and> c - 65 < length ds then Parsed (PDict (ds ! (c - 65))) else Unparsed []
        | _ \<Rightarrow> if t = u ''{}'' then Parsed (PDict []) else Unparsed []),
      cd_dumps = (\<lambda>_. []), cd_repr = (\<lambda>_. [])\<rparr>"

definition sample_blocks :: "wire_block list" where
  "sample_blocks = [WText [u ''hi''], WTool (u ''t1'') (u ''ls'') [u ''{'', u ''}'']]"

definition sample_table :: "object list" where
  "sample_table = map snd (message_frames (u ''m'') sample_blocks)"

definition sample_bytes :: bytes where
  "sample_bytes = concat (map (sse_bytes (table_enc sample_table)) (message_frames (u ''m'') sample_blocks))"

lemma ascii_decoded: "list_all (\<lambda>c. c < 128) s \<Longrightarrow> map unat (utf8 s) = s"
  by (induction s) (simp_all add: utf8_def utf8_nats_def unat_of_nat)

lemma position_found: "d \<in> set ds \<Longrightarrow> position d ds < length ds \<and> ds ! position d ds = d"
  by (induction ds) auto

text \<open>A frame with a plain ASCII type, repeated in its data.\<close>

definition plain_frame :: "pyval \<times> object \<Rightarrow> bool" where
  "plain_frame f \<longleftrightarrow>
     (case f of (PStr t, d) \<Rightarrow> dget (u ''type'') d = PStr t \<and> t \<noteq> [] \<and> list_all (\<lambda>c. 13 < c \<and> c < 128) t | _ \<Rightarrow> False)"

lemma read_back_ascii:
  assumes "d \<in> set ds" "length ds < 20" "plain_frame (t, d)"
  shows "read_back (table_codec ds) (table_enc ds) (t, d)"
proof -
  obtain s where t: "t = PStr s" "dget (u ''type'') d = PStr s" "s \<noteq> []" "list_all (\<lambda>c. 13 < c \<and> c < 128) s"
    using assms(3) by (cases t) (auto simp: plain_frame_def)
  note pos = position_found [OF assms(1)]
  then have small: "list_all (\<lambda>c. c < 128) (event_line t)" "list_all (\<lambda>c. c < 128) (data_line (table_enc ds) d)"
    using assms(2) t(1,4) by (auto simp: event_line_def data_line_def table_enc_def u_def list_all_iff)
  have line: "one_line (event_line t)" "one_line (data_line (table_enc ds) d)"
    using pos assms(2) t(1,4) by (auto simp: one_line_def event_line_def data_line_def table_enc_def u_def list_all_iff str_ok_def)
  have "strip (table_enc ds d) \<noteq> u ''[DONE]''"
    by (simp add: table_enc_def strip_def u_def)
  with pos t(1-3) small line show ?thesis
    by (simp add: read_back_def table_codec_def ascii_decoded) (simp add: table_enc_def u_def)
qed

lemma table_reads_back:
  "length fs < 20 \<Longrightarrow> list_all plain_frame fs \<Longrightarrow> list_all (read_back (table_codec (map snd fs)) (table_enc (map snd fs))) fs"
  using read_back_ascii [of _ "map snd fs"] by (force simp: list_all_iff)

lemma plain_wire_frame: "u t \<noteq> [] \<Longrightarrow> list_all (\<lambda>c. 13 < c \<and> c < 128) (u t) \<Longrightarrow> plain_frame (wire_frame t d)"
  by (simp add: plain_frame_def wire_frame_def)

lemma sample_read_back: "list_all (read_back (table_codec sample_table) (table_enc sample_table)) (message_frames (u ''m'') sample_blocks)"
  unfolding sample_table_def
proof (rule table_reads_back)
  show "list_all plain_frame (message_frames (u ''m'') sample_blocks)"
    by (simp add: message_frames_def sample_blocks_def delta_frame_def plain_wire_frame u_def)
qed (simp add: message_frames_def sample_blocks_def)

lemma sample_calls: "well_formed_calls (table_codec sample_table) sample_blocks"
  by (simp add: well_formed_calls_def sample_blocks_def tool_input_def parse_tool_input_def table_codec_def strip_def u_def py_space_def)

theorem stream_agrees_with_body_witness:
  "\<exists>es x. run_chunks (table_codec sample_table) [take 7 sample_bytes, drop 7 sample_bytes] (new_extractor tiny_context None) = (es, [], x)
    \<and> list_all2 alike es (extract_response_events tiny_context (message_body (table_codec sample_table) (u ''m'') sample_blocks))
    \<and> length es = 2"
proof -
  let ?body = "message_body (table_codec sample_table) (u ''m'') sample_blocks"
  have "concat [take 7 sample_bytes, drop 7 sample_bytes]
      = concat (map (sse_bytes (table_enc sample_table)) (message_frames (u ''m'') sample_blocks))"
    by (simp add: sample_bytes_def)
  from stream_agrees_with_body [OF sample_read_back sample_calls _ this, of tiny_context None]
  obtain es x where r: "run_chunks (table_codec sample_table) [take 7 sample_bytes, drop 7 sample_bytes] (new_extractor tiny_context None) = (es, [], x)"
    "list_all2 alike es (extract_response_events tiny_context ?body)" by auto
  have "length (extract_response_events tiny_context ?body) = 2"
    by (simp add: extract_response_events_def message_body_def sample_blocks_def body_block_events_def)
  with r list_all2_lengthD [OF r(2)] show ?thesis by auto
qed

section \<open>A frame of an unexpected shape\<close>

definition good_frames :: "(pyval \<times> object) list" where
  "good_frames =
     [wire_frame ''content_block_start''
        (indexed 0 [(key_str ''content_block'', PDict [(key_str ''type'', PStr (u ''text'')), (key_str ''text'', PStr (u ''hi''))])]),
      wire_frame ''content_block_stop'' (indexed 0 [])]"

text \<open>A \<open>message\<close> that is a list.\<close>

definition bad_frame :: "pyval \<times> object" where
  "bad_frame = wire_frame ''message_start'' [(key_str ''message'', PSeq [PNone])]"

definition mixed_table :: "object list" where
  "mixed_table = map snd (good_frames @ [bad_frame])"

definition good_bytes :: bytes where
  "good_bytes = concat (map (sse_bytes (table_enc mixed_table)) good_frames)"

definition bad_bytes :: bytes where
  "bad_bytes = sse_bytes (table_enc mixed_table) bad_frame"

lemma mixed_read_back: "list_all (read_back (table_codec mixed_table) (table_enc mixed_table)) (good_frames @ [bad_frame])"
  unfolding mixed_table_def
proof (rule table_reads_back)
  show "list_all plain_frame (good_frames @ [bad_frame])"
    by (simp add: good_frames_def bad_frame_def plain_wire_frame u_def)
qed (simp add: good_frames_def)

lemma sse_bytes_nonempty [simp]: "sse_bytes enc f \<noteq> []"
  by (simp add: sse_bytes_def split: prod.split)

definition hi_event :: partial_event where
  "hi_event = make_event tiny_context MESSAGE (text_payload 0 (u ''hi'')) None PNone PNone"

lemma good_chunk: "feed (table_codec mixed_table) good_bytes (new_extractor tiny_context None) = (Inr [hi_event], new_extractor tiny_context None)"
proof -
  let ?x = "new_extractor tiny_context None"
  have x: "?x\<lparr>se_blocks := []\<rparr> = ?x" "?x\<lparr>se_buf := []\<rparr> = ?x" "between_frames ?x"
    by (simp_all add: new_extractor_def between_frames_def)
  have hi: "u ''hi'' \<noteq> []" by (simp add: u_def)
  have "run_frames (table_codec mixed_table) good_frames ?x = (Inr [hi_event], ?x)"
    using hi
    by (simp add: good_frames_def wire_frame_def indexed_def handle_event_def block_start_def block_stop_def as_index_def or_empty_def
        new_block_def Let_def complete_block_def text_events_def block_text_def stream_event_def hi_event_def od_pop_def
        new_extractor_def)
  from sse_frames [OF _ x(3) this] mixed_read_back
  have "feed_lines (table_codec mixed_table) good_bytes ?x = (Inr [hi_event], ?x)" by (simp add: good_bytes_def x(2))
  moreover have "good_bytes \<noteq> []" by (simp add: good_bytes_def good_frames_def)
  ultimately show ?thesis by (simp add: feed_def new_extractor_def)
qed

lemma bad_chunk:
  obtains x2 where "feed (table_codec mixed_table) bad_bytes (new_extractor tiny_context None) = (Inl NotAnObject, x2)"
proof -
  let ?x = "new_extractor tiny_context None"
  have h: "handle_event (table_codec mixed_table) (fst bad_frame) (snd bad_frame) ?x = (Inl NotAnObject, ?x\<lparr>se_started := True\<rparr>)"
    by (simp add: bad_frame_def wire_frame_def handle_event_def message_start_def or_empty_def Let_def)
  have "read_back (table_codec mixed_table) (table_enc mixed_table) (fst bad_frame, snd bad_frame)"
    using mixed_read_back by simp
  from one_frame [OF this, of ?x "[]"] h
  have "fst (feed_lines (table_codec mixed_table) bad_bytes ?x) = Inl NotAnObject"
    by (simp add: bad_bytes_def between_frames_def new_extractor_def)
  then show thesis using that
    by (cases "feed_lines (table_codec mixed_table) bad_bytes ?x") (auto simp: feed_def new_extractor_def bad_bytes_def)
qed

theorem bad_frame_discards_chunk_witness:
  "fst (run_chunks (table_codec mixed_table) [good_bytes, bad_bytes] (new_extractor tiny_context None)) = [hi_event]
    \<and> fst (run_chunks (table_codec mixed_table) [good_bytes @ bad_bytes] (new_extractor tiny_context None)) = []"
proof -
  obtain x2 where "feed (table_codec mixed_table) bad_bytes (new_extractor tiny_context None) = (Inl NotAnObject, x2)"
    by (rule bad_chunk)
  from bad_frame_discards_chunk [OF good_chunk this] show ?thesis .
qed

section \<open>A tool call that is cut off\<close>

definition call_frame :: object where
  "call_frame = snd (hd (block_frames 0 (WTool (u ''t1'') (u ''ls'') [])))"

theorem tool_call_reported_witness:
  "\<exists>es x1 fs x2. run_frames (table_codec []) [(PStr (u ''content_block_start''), call_frame)] (new_extractor tiny_context None) = (Inr es, x1)
    \<and> close_extractor (table_codec []) x1 = (Inr fs, x2) \<and> list_ex (names_call (PStr (u ''t1'')) (PStr (u ''ls''))) (es @ fs)"
proof -
  let ?x = "new_extractor tiny_context None"
  obtain es x1 where r: "run_frames (table_codec []) ([] @ (PStr (u ''content_block_start''), call_frame) # []) ?x = (Inr es, x1)"
    by (simp add: handle_event_def block_start_def call_frame_def wire_frame_def indexed_def as_index_def or_empty_def)
  have x1: "se_buf x1 = []" "se_data x1 = []" "\<not> se_closed x1"
    using frames_settled [OF r] by (simp_all add: new_extractor_def)
  obtain fs x2 where a: "abort_open (x1\<lparr>se_closed := True\<rparr>) = (Inr fs, x2)"
    unfolding abort_open_def by (cases "se_blocks x1 = []"; cases "se_started x1 \<and> \<not> se_stopped x1") auto
  with x1 have c: "close_extractor (table_codec []) x1 = (Inr fs, x2)"
    by (simp add: close_extractor_def step_then_def last_line_def last_frame_def)
  have "list_ex (names_call (PStr (u ''t1'')) (PStr (u ''ls''))) (es @ fs)"
    using tool_call_reported [OF r, where i = 0 and b = "[(key_str ''type'', PStr (u ''tool_use'')), (key_str ''id'', PStr (u ''t1'')),
        (key_str ''name'', PStr (u ''ls'')), (key_str ''input'', PDict [])]", OF _ _ _ _ _ _ _ c]
    by (simp add: call_frame_def wire_frame_def indexed_def as_index_def or_empty_def new_extractor_def)
  then show ?thesis using r c by auto
qed

end
