(* ===== verification/Spec2Isabelle.thy ===== *)
theory Spec2Isabelle
  imports Canonical_Doc Merkle Schema Ledger_Props Verify_Props Checkpoint_Props Gate_Witness Governed_Props
    Rotation_Witness Outbox_Witness Shield_Tokens Managed_Witness Filters_Props Router_Stream Cache_Props Semantic_Props
    Messages_Props Wire_Props Runtime_Witness Recorder_Witness
begin

text \<open>
  The agent recorder of \<open>byoai\<close> (\<open>src/src/byoai/recorder/\<close>): what an agent did is written to a
  tamper-evident ledger that a third party can check offline, and what it may do is decided by a gate in
  front of its tools. And the signed policies of its Shield (\<open>shield_server/\<close>, \<open>integrations/shield.py\<close>),
  which a server keeps for an organisation and devices poll for.

  \<^bold>\<open>The parts and how they interact.\<close> An event (\<open>schema.py\<close>) is serialised canonically
  (\<open>canonical.py\<close>) and hashed. The ledger (\<open>ledger.py\<close>) links each event to the one before it, keeps
  marks of what was shipped and checkpointed, and remembers the events it could not write. A checkpointer
  (\<open>checkpoint.py\<close>) signs the head of the chain with the device key (\<open>keys.py\<close>), and an epoch collects
  checkpoints in a Merkle tree (\<open>merkle.py\<close>). What a proxy sees of an exchange with a provider becomes events
  (\<open>extract.py\<close>, from bodies and from streams), whose payloads are redacted (\<open>redact.py\<close>) before the recorder
  (\<open>integration.py\<close>) appends them. The verifier (\<open>verify.py\<close>) reads such a file without
  trusting it: it walks the links, rebuilds which key was active when, and judges every checkpoint.
  On the other side the mandate gate (\<open>mandate.py\<close>) decides a tool call against the snapshot it
  last fetched; a delegated gate (\<open>delegation.py\<close>) narrows it to what a delegator lent; the denial latch
  (\<open>denial_latch.py\<close>) refuses repeats and halts runs; \<open>governed_tool.py\<close> turns the answer into an
  exception or a call. Verdicts are queued in an outbox and shipped in batches (\<open>verdicts.py\<close>). The device
  key is replaced by a rotation (\<open>rotation.py\<close>) that seals the hand-over in the ledger and promotes the
  new key file by file.
  The Shield's server (\<open>store.py\<close>, \<open>policy.py\<close>) signs a policy under the next version of one counter and
  serves a device its override or the default; the device (\<open>shield.py\<close>, \<open>shield_publish.py\<close>) verifies,
  refuses what is not newer, and puts the locked settings over its own.
  The request runtime (\<open>runtime.py\<close>) runs a request through middleware and a pipeline of stages
  (\<open>pipeline.py\<close>, \<open>middleware.py\<close>, \<open>stages.py\<close>): its messages are resolved from the input and the history of the
  session, an answer is looked up in the exact-match and the semantic cache (\<open>cache/\<close>, \<open>session_hash.py\<close>), documents are
  retrieved under a filter (\<open>vector/filters.py\<close>), and a provider is asked through the router
  (\<open>providers/router.py\<close>). The answer is written back to the caches, and the bus (\<open>events.py\<close>) reports what happened.
  Two further stages shrink a request body in the wire format of a provider.

  \<^bold>\<open>Theories.\<close>
    \<^item> \<open>Prelude\<close>: strings, bytes, numbers, the error monad, hashes and collisions.
    \<^item> \<open>Canonical\<close> (the code) and \<open>Canonical_Doc\<close> (equal bytes are equal documents).
    \<^item> \<open>Merkle\<close>: tree and proofs; equivalence with the RFC 6962 recursion, completeness, soundness. The
      locale \<open>accumulator\<close> is what a committed list promises, interpreted on the tree.
    \<^item> \<open>Schema\<close>: events, their plain form and digest.
    \<^item> \<open>Chain\<close>: the locale \<open>hash_chain\<close> of a link function that commits to its arguments, interpreted in
      \<open>Ledger_Props\<close> on \<open>compute_entry_hash\<close> and used by writer and verifier.
    \<^item> \<open>Ledger\<close> (the operations), \<open>Ledger_Chain\<close> (well-formed tables, what each statement preserves),
      \<open>Ledger_Props\<close> (one unforked chain for any number of objects on one file, accounting of
      every event, shipping, watermarks).
    \<^item> \<open>Keys\<close>, \<open>Verify\<close>, \<open>Verify_Ledger\<close> (the verifier against the writer), \<open>Verify_Props\<close> (keys and
      checkpoints), \<open>Checkpoint\<close> and \<open>Checkpoint_Props\<close>.
    \<^item> \<open>Extract\<close> (streams and bodies), \<open>Extract_Props\<close> (chunks, exceptions, tool calls), \<open>Extract_Stream\<close> (a stream against
      the body that says the same); \<open>Redact\<close> (a matcher for the regular expressions, values, free text) and
      \<open>Redact_Props\<close>; \<open>Recorder\<close> (from capture to ledger) and \<open>Recorder_Props\<close> (what is stored, which
      exceptions leave and what they take with them); \<open>Recorder_Witness\<close>.
    \<^item> \<open>Mandate\<close> (snapshots and decisions), \<open>Gate\<close> (the gate object), \<open>Gate_Props\<close> (one decision),
      \<open>Gate_Run\<close> (a step relation over everything that can happen to a gate, budgets and
      suspensions over whole runs), \<open>Gate_Witness\<close> (sample gates).
    \<^item> \<open>Latch\<close>, \<open>Latch_Props\<close>, \<open>Delegation\<close>, \<open>Delegation_Props\<close>, \<open>Governed\<close>, \<open>Governed_Props\<close>.
    \<^item> \<open>Key_Files\<close> (the key directory and its promotion as lists of file system calls), \<open>Rotation\<close>,
      \<open>Rotation_Props\<close> (runs cut off between any two calls, with and without leftover markers), \<open>Rotation_Witness\<close>.
    \<^item> \<open>Outbox\<close> (the queue of verdicts and its shipper), \<open>Outbox_Props\<close> (the locale \<open>work_queue\<close> of a queue
      that is worked off, interpreted on the outbox; what the endpoint holds against what is marked as
      shipped), \<open>Outbox_Witness\<close>.
    \<^item> \<open>Shield_Store\<close> (tokens, policy rows, reports), \<open>Shield_Tokens\<close>, \<open>Shield_Policy\<close> (documents and
      routes), \<open>Shield_Policy_Props\<close> (the locale \<open>document_source\<close> of a source whose readers never get
      ahead of it but where they are told so, interpreted on a server whose releases of overrides are cut into their
      steps), \<open>Managed\<close> (the device), \<open>Managed_Props\<close> (server and device
      together, adversarial answers, locked settings), \<open>Managed_Witness\<close>.
    \<^item> \<open>Filters\<close> and \<open>Filters_Props\<close>: the filter dialect, its parser and its SQL, Pinecone and Qdrant compilers.
    \<^item> \<open>Router\<close> (retries, fallback, selections, streams, functions as providers), \<open>Router_Props\<close> (the calls of a
      request, bounds, fair rotation), \<open>Router_Stream\<close> (streams, sample requests).
    \<^item> \<open>Cache_Stores\<close> (the in-memory cache, the stores of session hashes) and \<open>Cache_Props\<close> (against an unbounded
      map; bounds); \<open>Semantic_Cache\<close> (the ring of embeddings, the stream workers share) and \<open>Semantic_Props\<close>.
    \<^item> \<open>Messages\<close> and \<open>Messages_Props\<close>: coercion of inputs and histories to messages, dropped tool turns, merges, the
      window. \<open>Wire_Stages\<close> and \<open>Wire_Props\<close>: cache breakpoints, truncated and collapsed tool output.
    \<^item> \<open>Pipeline\<close> (contexts, the bus, pipelines, middleware) and \<open>Pipeline_Props\<close> (which stages run);
      \<open>Runtime\<close> (the stages and the runtime over a record of services), \<open>Runtime_Props\<close> (what a request reports,
      what a stream hands out), \<open>Runtime_Cache\<close> (a runtime whose cache is down against one without a cache),
      \<open>Runtime_Live\<close> (the locale \<open>answer_store\<close> of services that give back what they were given,
      interpreted on the in-memory cache and the router), \<open>Runtime_Witness\<close>.

  \<^bold>\<open>Conventions.\<close> An operation takes and returns its state explicitly; an exception is the
  \<open>Inl\<close> side of a sum. What the code gets from outside is an argument: the hash function, Ed25519
  and Base64, clock readings, fresh identifiers, answers of a source, and whether an SQLite statement fails.
  No theorem assumes a hash injective: it names the collision instead. Floats are rationals, with
  infinities and NaN where the code lets them in. Dictionaries are item lists where the code
  depends on order and finite maps elsewhere. Gate objects are addresses into a store, since a gate can
  be shared. There is no fuel: every loop recurses over data or has a measure (\<open>evict_runs\<close>,
  \<open>evict_oldest\<close>, \<open>free_suffix\<close>, the retry loops of the router).

  \<^bold>\<open>Steps.\<close> An operation is one step where the code holds a lock, a transaction or (a coroutine that does not
  await) the event loop over it. Others are cut up: a rotation and a boot into file system calls; a release of a policy
  override into the tombstone, the read and the write of the default (\<open>policy_change\<close>), since a crash or a failing
  write can separate them; shippers and ledger objects interleave. Two operations are taken as one step although they are not: a claim of the outbox resumes the rows of an
  earlier claim before it opens its transaction, and a poll reads the override and the default of a device under two
  locks (in one server process its handler does not await in between).

  \<^bold>\<open>Idealised.\<close> The drain of the outbox meets no SQLite error in its claim. A \<open>Retry-After\<close> is no NaN; a negative one
  is kept and shortens the sum of the delays. The rows that the verifier reads have the columns of the schema. A cache that is
  down misses, loses what it is given, or raises \<open>CacheError\<close>, and its reader of sessions fails. A payload holds lists and no tuples. The recorder is modelled for events
  whose identifiers are strings or absent, and its model is undefined on others.

  \<^bold>\<open>Not modelled.\<close> Log lines and messages for operators; asyncio loops, HTTP clients and context variables; a consumer that abandons a
  stream. Of the other parts of the repository, the adapters of providers, caches and vector stores talk to external
  services; the web frameworks, consoles and command lines are input and output; the agent context cache and the ingestion store are services over an SQL database; the clients of
  the Coriqo service and the Shield's proxy exchange HTTP messages around the parts that are modelled.
\<close>

end
